(* ===== verification/Go_Float.thy ===== *)
theory Go_Float
  imports Complex_Main Go_Prelude
begin

text \<open>
  Go's \<open>float64\<close>: IEEE 754 binary64 with round to nearest even. A finite value is the
  rational it denotes; infinities and NaN are values of their own. Only the sign of zero
  is left out: no code modelled here can observe it. \<open>f64_round\<close> rounds a rational to
  53 significant bits, subnormals included, and \<open>f64_of_rat\<close> overflows to an infinity
  as the hardware does. \<open>bit_len\<close> is also Go's \<open>bits.Len64\<close>.
\<close>

section \<open>Bit lengths\<close>

fun bit_len :: "nat \<Rightarrow> nat" where
  "bit_len n = (if n = 0 then 0 else Suc (bit_len (n div 2)))"

declare bit_len.simps [simp del]

lemma bit_len_0 [simp]: "bit_len 0 = 0"
  by (simp add: bit_len.simps)

lemma bit_len_le_iff: "bit_len n \<le> m \<longleftrightarrow> n < 2 ^ m"
proof (induction n arbitrary: m rule: bit_len.induct)
  case (1 n)
  show ?case
  proof (cases "n = 0")
    case True
    then show ?thesis by simp
  next
    case False
    show ?thesis
    proof (cases m)
      case 0
      with False show ?thesis by (simp add: bit_len.simps [of n])
    next
      case (Suc k)
      have "n div 2 < 2 ^ k \<longleftrightarrow> n < 2 ^ Suc k" by auto
      with False Suc 1 show ?thesis by (simp add: bit_len.simps [of n])
    qed
  qed
qed

lemma less_bit_len_iff: "m < bit_len n \<longleftrightarrow> 2 ^ m \<le> n"
  using bit_len_le_iff [of n m] by linarith

lemma bit_len_eqI: "2 ^ m \<le> n \<Longrightarrow> n < 2 ^ Suc m \<Longrightarrow> bit_len n = Suc m"
  by (meson bit_len_le_iff le_antisym less_bit_len_iff Suc_leI)

lemma bit_len_mono: "m \<le> n \<Longrightarrow> bit_len m \<le> bit_len n"
  by (meson bit_len_le_iff le_less_trans order_refl)

section \<open>Rounding to 53 bits\<close>

definition ilog2 :: "rat \<Rightarrow> int" where
  "ilog2 x = (if 1 \<le> x then int (bit_len (nat \<lfloor>x\<rfloor>)) - 1
              else - int (bit_len (nat (\<lceil>1 / x\<rceil> - 1))))"

definition round_even :: "rat \<Rightarrow> int" where
  "round_even y = (let f = \<lfloor>y\<rfloor>; d = y - of_int f
     in if d < 1 / 2 then f else if 1 / 2 < d then f + 1 else if even f then f else f + 1)"

definition f64_round :: "rat \<Rightarrow> rat" where
  "f64_round x = (if x = 0 then 0
     else let e = max (ilog2 \<bar>x\<bar> - 52) (- 1074)
          in of_int (round_even (x / (2 powi e))) * (2 powi e))"

lemma pow2_less_iff: "(2 :: rat) powi a < 2 powi b \<longleftrightarrow> a < b"
  by (meson not_less power_int_increasing power_int_strict_increasing one_le_numeral
      one_less_numeral_iff semiring_norm(76))

lemma pow2_le_iff: "(2 :: rat) powi a \<le> 2 powi b \<longleftrightarrow> a \<le> b"
  by (meson not_less pow2_less_iff)

lemma ilog2_bounds:
  assumes "0 < x"
  shows "2 powi (ilog2 x) \<le> x \<and> x < 2 powi (ilog2 x + 1)"
proof (cases "1 \<le> x")
  case True
  let ?n = "nat \<lfloor>x\<rfloor>"
  have n: "1 \<le> ?n" using True by linarith
  then obtain m where m: "bit_len ?n = Suc m"
    using less_bit_len_iff [of 0 ?n] by (cases "bit_len ?n") auto
  have lo: "2 ^ m \<le> ?n" using less_bit_len_iff [of m ?n] m by simp
  have hi: "?n < 2 ^ Suc m" using bit_len_le_iff [of ?n "Suc m"] m by simp
  have "(2 :: rat) ^ m \<le> of_nat ?n" using lo by (metis of_nat_le_iff of_nat_numeral of_nat_power)
  also have "\<dots> \<le> x" using True by linarith
  finally have 1: "2 ^ m \<le> x" .
  have "?n + 1 \<le> 2 ^ Suc m" using hi by simp
  then have "of_nat (?n + 1) \<le> (2 :: rat) ^ Suc m"
    by (metis of_nat_le_iff of_nat_numeral of_nat_power)
  moreover have "x < of_nat (?n + 1)" using True floor_correct [of x] by simp
  ultimately have 2: "x < 2 ^ Suc m" by linarith
  have "ilog2 x = int m" using True m by (simp add: ilog2_def)
  moreover have "int m + 1 = int (Suc m)" by simp
  ultimately show ?thesis using 1 2 by (simp only: power_int_of_nat)
next
  case False
  define y where "y = 1 / x"
  have y: "1 < y" using False assms by (simp add: y_def)
  let ?n = "nat (\<lceil>y\<rceil> - 1)"
  define m where "m = bit_len ?n"
  have c: "2 \<le> \<lceil>y\<rceil>" using y by linarith
  have "?n < 2 ^ m" using bit_len_le_iff [of ?n m] m_def by simp
  then have "\<lceil>y\<rceil> - 1 < 2 ^ m" using c by (simp add: nat_less_iff)
  then have cl: "\<lceil>y\<rceil> \<le> 2 ^ m" by linarith
  then have "y \<le> of_int (2 ^ m)" by (simp only: ceiling_le_iff)
  then have 1: "y \<le> 2 ^ m" by simp
  have m0: "0 < m" 
  proof -
    have "1 \<le> \<lceil>y\<rceil> - 1" using c by (simp only: le_diff_eq one_add_one)
    then have "nat 1 \<le> ?n" by (rule nat_mono)
    then have "2 ^ 0 \<le> ?n" by (simp only: nat_one_as_int power_0 flip: nat_1)
    then show ?thesis unfolding m_def by (simp only: less_bit_len_iff)
  qed
  then obtain k where k: "m = Suc k" by (cases m) auto
  have "2 ^ k \<le> ?n" using less_bit_len_iff [of k ?n] k m_def by simp
  then have "(2 :: int) ^ k \<le> \<lceil>y\<rceil> - 1"
    using c by (simp add: le_nat_iff)
  then have "2 ^ k < \<lceil>y\<rceil>" by linarith
  then have "of_int (2 ^ k) < y" by (simp only: less_ceiling_iff)
  then have 2: "2 ^ k < y" by simp
  have xy: "x = 1 / y" by (simp add: y_def)
  have yy: "0 < y" using y by linarith
  have e: "ilog2 x = - int m" using False by (simp add: ilog2_def m_def y_def)
  have p1: "2 powi (- int m) = 1 / (2 :: rat) ^ m"
    by (simp add: power_int_minus inverse_eq_divide)
  have "- int m + 1 = - int k" using k by simp
  then have p2: "2 powi (- int m + 1) = 1 / (2 :: rat) ^ k"
    by (simp add: power_int_minus inverse_eq_divide)
  have a: "1 / (2 :: rat) ^ m \<le> 1 / y" by (rule divide_left_mono) (use 1 yy in simp_all)
  have b: "1 / y < 1 / (2 :: rat) ^ k"
    by (rule divide_strict_left_mono) (use 2 yy in simp_all)
  show ?thesis unfolding e p1 p2 using a b xy by simp
qed

lemma round_even_error: "\<bar>of_int (round_even y) - y\<bar> \<le> 1 / 2"
  unfolding round_even_def Let_def
  using floor_correct [of y] by (auto simp: abs_le_iff)

lemma round_even_of_int [simp]: "round_even (of_int k) = k"
  by (simp add: round_even_def)

lemma round_even_mono: "x \<le> y \<Longrightarrow> round_even x \<le> round_even y"
proof -
  assume le: "x \<le> y"
  then have fl: "\<lfloor>x\<rfloor> \<le> \<lfloor>y\<rfloor>" by (rule floor_mono)
  show ?thesis
  proof (cases "\<lfloor>x\<rfloor> = \<lfloor>y\<rfloor>")
    case True
    then show ?thesis using le by (auto simp: round_even_def Let_def)
  next
    case False
    with fl have "\<lfloor>x\<rfloor> + 1 \<le> \<lfloor>y\<rfloor>" by linarith
    then show ?thesis by (auto simp: round_even_def Let_def)
  qed
qed

text \<open>The two facts the components use: the relative error of a rounding in the normal
  range is at most half a unit in the last place, and integers up to \<open>2^53\<close> are exact.\<close>

lemma f64_round_error:
  assumes "2 powi (- 1022) \<le> \<bar>x\<bar>"
  shows "\<bar>f64_round x - x\<bar> \<le> \<bar>x\<bar> / 2 ^ 53"
proof -
  let ?e = "ilog2 \<bar>x\<bar> - 52"
  have "(0 :: rat) < 2 powi (- 1022)" by simp
  with assms have x0: "0 < \<bar>x\<bar>" by linarith
  note b = ilog2_bounds [OF x0]
  have "(2 :: rat) powi (- 1022) < 2 powi (ilog2 \<bar>x\<bar> + 1)" using b assms by linarith
  then have "- 1022 < ilog2 \<bar>x\<bar> + 1" by (simp only: pow2_less_iff)
  then have e: "max ?e (- 1074) = ?e" by simp
  define s where "s = (2 :: rat) powi ?e"
  have s0: "0 < s" by (simp add: s_def)
  have "f64_round x = of_int (round_even (x / s)) * s"
    using x0 e by (simp add: f64_round_def Let_def s_def)
  then have "f64_round x - x = (of_int (round_even (x / s)) - x / s) * s"
    using s0 by (simp add: field_simps)
  then have "\<bar>f64_round x - x\<bar> = \<bar>of_int (round_even (x / s)) - x / s\<bar> * s"
    using s0 by (simp add: abs_mult)
  also have "\<dots> \<le> (1 / 2) * s"
    by (rule mult_right_mono [OF round_even_error]) (use s0 in simp)
  also have "\<dots> = 2 powi (ilog2 \<bar>x\<bar>) / 2 ^ 53"
    by (simp add: s_def power_int_diff)
  also have "\<dots> \<le> \<bar>x\<bar> / 2 ^ 53" using b by (simp add: divide_right_mono)
  finally show ?thesis .
qed

lemma f64_round_error_abs: "\<bar>f64_round x - x\<bar> \<le> \<bar>x\<bar> / 2 ^ 53 + 1 / 2 ^ 1075"
proof (cases "x = 0")
  case True
  then show ?thesis by (simp add: f64_round_def)
next
  case False
  then have x0: "0 < \<bar>x\<bar>" by simp
  let ?e = "max (ilog2 \<bar>x\<bar> - 52) (- 1074)"
  define s where "s = (2 :: rat) powi ?e"
  have s0: "0 < s" by (simp add: s_def)
  have "f64_round x = of_int (round_even (x / s)) * s"
    using False by (simp add: f64_round_def Let_def s_def)
  then have "f64_round x - x = (of_int (round_even (x / s)) - x / s) * s"
    using s0 by (simp add: field_simps)
  then have "\<bar>f64_round x - x\<bar> = \<bar>of_int (round_even (x / s)) - x / s\<bar> * s"
    using s0 by (simp add: abs_mult)
  also have "\<dots> \<le> (1 / 2) * s"
    by (rule mult_right_mono [OF round_even_error]) (use s0 in simp)
  also have "\<dots> \<le> \<bar>x\<bar> / 2 ^ 53 + 1 / 2 ^ 1075"
  proof (cases "- 1074 \<le> ilog2 \<bar>x\<bar> - 52")
    case True
    then have "(1 / 2) * s = 2 powi (ilog2 \<bar>x\<bar>) / 2 ^ 53" by (simp add: s_def power_int_diff)
    also have "\<dots> \<le> \<bar>x\<bar> / 2 ^ 53"
      using ilog2_bounds [OF x0] by (simp add: divide_right_mono)
    finally show ?thesis by (simp add: add_increasing2)
  next
    case False
    then have "s = 1 / 2 ^ 1074" by (simp add: s_def power_int_minus inverse_eq_divide)
    then show ?thesis by simp
  qed
  finally show ?thesis .
qed

lemma f64_round_0 [simp]: "f64_round 0 = 0"
  by (simp add: f64_round_def)

lemma f64_round_of_int:
  assumes "\<bar>k\<bar> \<le> 2 ^ 53"
  shows "f64_round (of_int k) = of_int k"
proof (cases "k = 0")
  case True
  then show ?thesis by simp
next
  case False
  let ?x = "of_int k :: rat"
  have "1 \<le> \<bar>k\<bar>" using False by linarith
  then have x1: "1 \<le> \<bar>?x\<bar>" by (metis of_int_1_le_iff of_int_abs)
  have x0: "0 < \<bar>?x\<bar>" using x1 by linarith
  note b = ilog2_bounds [OF x0]
  have "\<bar>?x\<bar> \<le> 2 ^ 53" using assms by (metis of_int_abs of_int_le_iff of_int_numeral of_int_power)
  with b have "(2 :: rat) powi (ilog2 \<bar>?x\<bar>) \<le> 2 powi 53" by simp
  then have up: "ilog2 \<bar>?x\<bar> \<le> 53" by (simp only: pow2_le_iff)
  have "(2 :: rat) powi 0 < 2 powi (ilog2 \<bar>?x\<bar> + 1)" using b x1 by simp
  then have lo: "0 \<le> ilog2 \<bar>?x\<bar>" by (simp only: pow2_less_iff)
  have e: "max (ilog2 \<bar>?x\<bar> - 52) (- 1074) = ilog2 \<bar>?x\<bar> - 52" using lo by simp
  define s where "s = (2 :: rat) powi (ilog2 \<bar>?x\<bar> - 52)"
  have s0: "s \<noteq> 0" by (simp add: s_def)
  have fr: "f64_round ?x = of_int (round_even (?x / s)) * s"
    using False e by (simp add: f64_round_def Let_def s_def)
  show ?thesis
  proof (cases "ilog2 \<bar>?x\<bar> \<le> 52")
    case True
    then obtain n where n: "52 - ilog2 \<bar>?x\<bar> = int n" by (metis diff_ge_0_iff_ge nonneg_int_cases)
    then have "ilog2 \<bar>?x\<bar> - 52 = - int n" by linarith
    then have "?x / s = of_int (k * 2 ^ n)" by (simp add: s_def power_int_minus divide_inverse)
    then have "round_even (?x / s) = k * 2 ^ n" by (metis round_even_of_int)
    then show ?thesis using fr \<open>?x / s = of_int (k * 2 ^ n)\<close> s0
      by (metis nonzero_divide_eq_eq)
  next
    case False
    with up have "ilog2 \<bar>?x\<bar> = 53" by linarith
    with b have "2 ^ 53 \<le> \<bar>?x\<bar>" by simp
    then have "2 ^ 53 \<le> \<bar>k\<bar>" by (metis of_int_abs of_int_le_iff of_int_numeral of_int_power)
    with assms have "\<bar>k\<bar> = 2 ^ 53" by linarith
    then have kk: "k = 2 * 2 ^ 52 \<or> k = 2 * (- (2 ^ 52))" by auto
    have s2: "s = 2" using \<open>ilog2 \<bar>?x\<bar> = 53\<close> by (simp add: s_def)
    from kk obtain j where j: "k = 2 * j" by blast
    then have "?x / s = of_int j" by (simp add: s2)
    then show ?thesis using fr j s2 by simp
  qed
qed

text \<open>Rounding keeps the order of non-negative values.\<close>

definition f64_exp :: "rat \<Rightarrow> int" where
  "f64_exp x = max (ilog2 \<bar>x\<bar> - 52) (- 1074)"

lemma f64_round_pos:
  "0 < x \<Longrightarrow> f64_round x = of_int (round_even (x / (2 powi f64_exp x))) * (2 powi f64_exp x)"
  by (simp add: f64_round_def f64_exp_def Let_def)

lemma f64_exp_mono: "0 < x \<Longrightarrow> x \<le> y \<Longrightarrow> f64_exp x \<le> f64_exp y"
proof -
  assume x: "0 < x" and xy: "x \<le> y"
  have "2 powi (ilog2 x) \<le> x" "y < 2 powi (ilog2 y + 1)"
    using ilog2_bounds [of x] ilog2_bounds [of y] x xy by auto
  with xy have "(2 :: rat) powi (ilog2 x) < 2 powi (ilog2 y + 1)" by linarith
  then have "ilog2 x < ilog2 y + 1" by (simp only: pow2_less_iff)
  then show ?thesis using x xy by (simp add: f64_exp_def)
qed

lemma f64_round_le_binade:
  assumes "0 < x"
  shows "f64_round x \<le> 2 powi (f64_exp x + 53)"
proof -
  define s where "s = (2 :: rat) powi f64_exp x"
  have s: "0 < s" by (simp add: s_def)
  have "x < 2 powi (ilog2 x + 1)" using ilog2_bounds [OF assms] by simp
  also have "(2 :: rat) powi (ilog2 x + 1) \<le> 2 powi (f64_exp x + 53)"
    using assms by (simp only: pow2_le_iff) (simp add: f64_exp_def)
  also have "\<dots> = s * 2 ^ 53" by (simp add: s_def power_int_add)
  finally have "x / s \<le> of_int (2 ^ 53)" using s by (simp add: divide_le_eq mult.commute)
  then have "round_even (x / s) \<le> 2 ^ 53" by (metis round_even_mono round_even_of_int)
  then have "of_int (round_even (x / s)) \<le> (2 :: rat) ^ 53"
    by (metis of_int_le_iff of_int_numeral of_int_power)
  then have "of_int (round_even (x / s)) * s \<le> 2 ^ 53 * s" using s by simp
  then show ?thesis unfolding f64_round_pos [OF assms]
    by (simp add: s_def power_int_add mult.commute)
qed

lemma f64_round_ge_binade:
  assumes "0 < y" "- 1074 < f64_exp y"
  shows "2 powi (f64_exp y + 52) \<le> f64_round y"
proof -
  define s where "s = (2 :: rat) powi f64_exp y"
  have s: "0 < s" by (simp add: s_def)
  have "f64_exp y + 52 = ilog2 y" using assms by (simp add: f64_exp_def)
  then have "2 powi (f64_exp y + 52) \<le> y" using ilog2_bounds [OF assms(1)] by simp
  moreover have "2 powi (f64_exp y + 52) = s * 2 ^ 52" by (simp add: s_def power_int_add)
  ultimately have "of_int (2 ^ 52) \<le> y / s" using s by (simp add: le_divide_eq mult.commute)
  then have "2 ^ 52 \<le> round_even (y / s)" by (metis round_even_mono round_even_of_int)
  then have "(2 :: rat) ^ 52 \<le> of_int (round_even (y / s))"
    by (metis of_int_le_iff of_int_numeral of_int_power)
  then have "2 ^ 52 * s \<le> of_int (round_even (y / s)) * s" using s by simp
  then show ?thesis unfolding f64_round_pos [OF assms(1)]
    by (simp add: s_def power_int_add mult.commute)
qed

lemma f64_round_nonneg: "0 \<le> x \<Longrightarrow> 0 \<le> f64_round x"
proof (cases "x = 0")
  case False
  assume "0 \<le> x"
  with False have x: "0 < x" by simp
  then have "round_even (of_int 0) \<le> round_even (x / (2 powi f64_exp x))"
    by (intro round_even_mono) simp
  then have "0 \<le> round_even (x / (2 powi f64_exp x))" by (simp only: round_even_of_int)
  then show ?thesis unfolding f64_round_pos [OF x] by simp
qed simp

lemma f64_round_mono:
  assumes "0 \<le> x" "x \<le> y"
  shows "f64_round x \<le> f64_round y"
proof (cases "x = 0")
  case True
  then show ?thesis using f64_round_nonneg [of y] assms by simp
next
  case False
  then have x: "0 < x" and y: "0 < y" using assms by simp_all
  have le: "f64_exp x \<le> f64_exp y" by (rule f64_exp_mono [OF x assms(2)])
  show ?thesis
  proof (cases "f64_exp x = f64_exp y")
    case True
    have "x / (2 powi f64_exp y) \<le> y / (2 powi f64_exp y)"
      using assms(2) by (simp add: divide_right_mono)
    then have "round_even (x / (2 powi f64_exp y)) \<le> round_even (y / (2 powi f64_exp y))"
      by (rule round_even_mono)
    then show ?thesis unfolding f64_round_pos [OF x] f64_round_pos [OF y] True
      by (intro mult_right_mono) simp_all
  next
    case False
    with le have lt: "f64_exp x < f64_exp y" by simp
    moreover have "- 1074 \<le> f64_exp x" by (simp add: f64_exp_def)
    ultimately have "- 1074 < f64_exp y" by linarith
    have "f64_round x \<le> 2 powi (f64_exp x + 53)" by (rule f64_round_le_binade [OF x])
    also have "(2 :: rat) powi (f64_exp x + 53) \<le> 2 powi (f64_exp y + 52)"
      using lt by (simp only: pow2_le_iff)
    also have "\<dots> \<le> f64_round y"
      by (rule f64_round_ge_binade [OF y \<open>- 1074 < f64_exp y\<close>])
    finally show ?thesis .
  qed
qed

section \<open>Values and operations\<close>

datatype f64 = Fin rat | PosInf | NegInf | NaN

definition f64_of_rat :: "rat \<Rightarrow> f64" where
  "f64_of_rat x = (let r = f64_round x
     in if 2 ^ 1024 \<le> r then PosInf else if r \<le> - (2 ^ 1024) then NegInf else Fin r)"

definition f64_of_int :: "int \<Rightarrow> f64" where
  "f64_of_int k = f64_of_rat (of_int k)"

definition f64_inf :: "bool \<Rightarrow> f64" where
  "f64_inf neg = (if neg then NegInf else PosInf)"

fun f64_neg :: "f64 \<Rightarrow> f64" where
  "f64_neg (Fin a) = Fin (- a)"
| "f64_neg PosInf = NegInf"
| "f64_neg NegInf = PosInf"
| "f64_neg NaN = NaN"

fun f64_abs :: "f64 \<Rightarrow> f64" where
  "f64_abs (Fin a) = Fin \<bar>a\<bar>"
| "f64_abs NegInf = PosInf"
| "f64_abs x = x"

fun f64_add :: "f64 \<Rightarrow> f64 \<Rightarrow> f64" where
  "f64_add (Fin a) (Fin b) = f64_of_rat (a + b)"
| "f64_add NaN _ = NaN"
| "f64_add _ NaN = NaN"
| "f64_add PosInf NegInf = NaN"
| "f64_add NegInf PosInf = NaN"
| "f64_add (Fin _) y = y"
| "f64_add x _ = x"

definition f64_sub :: "f64 \<Rightarrow> f64 \<Rightarrow> f64" where
  "f64_sub x y = f64_add x (f64_neg y)"

fun f64_negative :: "f64 \<Rightarrow> bool" where
  "f64_negative (Fin a) = (a < 0)"
| "f64_negative NegInf = True"
| "f64_negative _ = False"

fun f64_mul :: "f64 \<Rightarrow> f64 \<Rightarrow> f64" where
  "f64_mul (Fin a) (Fin b) = f64_of_rat (a * b)"
| "f64_mul NaN _ = NaN"
| "f64_mul _ NaN = NaN"
| "f64_mul x y = (if x = Fin 0 \<or> y = Fin 0 then NaN
                   else f64_inf (f64_negative x \<noteq> f64_negative y))"

fun f64_div :: "f64 \<Rightarrow> f64 \<Rightarrow> f64" where
  "f64_div (Fin a) (Fin b) =
     (if b = 0 then if a = 0 then NaN else f64_inf (a < 0) else f64_of_rat (a / b))"
| "f64_div NaN _ = NaN"
| "f64_div _ NaN = NaN"
| "f64_div (Fin _) _ = Fin 0"
| "f64_div x (Fin b) = f64_inf (f64_negative x \<noteq> (b < 0))"
| "f64_div _ _ = NaN"

fun f64_lt :: "f64 \<Rightarrow> f64 \<Rightarrow> bool" where
  "f64_lt (Fin a) (Fin b) = (a < b)"
| "f64_lt NaN _ = False"
| "f64_lt _ NaN = False"
| "f64_lt NegInf y = (y \<noteq> NegInf)"
| "f64_lt PosInf _ = False"
| "f64_lt (Fin _) y = (y = PosInf)"

definition f64_eq :: "f64 \<Rightarrow> f64 \<Rightarrow> bool" where
  "f64_eq x y \<longleftrightarrow> x \<noteq> NaN \<and> x = y"

definition f64_le :: "f64 \<Rightarrow> f64 \<Rightarrow> bool" where
  "f64_le x y \<longleftrightarrow> f64_lt x y \<or> f64_eq x y"

fun f64_ceil :: "f64 \<Rightarrow> f64" where
  "f64_ceil (Fin a) = Fin (of_int \<lceil>a\<rceil>)"
| "f64_ceil x = x"

lemma f64_le_Fin [simp]: "f64_le (Fin a) (Fin b) \<longleftrightarrow> a \<le> b"
  by (auto simp: f64_le_def f64_eq_def)

lemma f64_lt_PosInf: "f64_lt PosInf y = False" "f64_lt x PosInf = (x \<noteq> NaN \<and> x \<noteq> PosInf)"
  by (cases y, simp_all) (cases x, simp_all)

lemma f64_lt_trichotomy:
  "x \<noteq> NaN \<Longrightarrow> y \<noteq> NaN \<Longrightarrow> f64_lt x y \<or> f64_eq x y \<or> f64_lt y x"
  by (cases x; cases y) (auto simp: f64_eq_def)

lemma f64_lt_irrefl [simp]: "\<not> f64_lt x x"
  by (cases x) simp_all

lemma f64_lt_asym: "f64_lt x y \<Longrightarrow> \<not> f64_lt y x"
  by (cases x; cases y) auto

lemma f64_of_rat_Fin: "\<bar>f64_round x\<bar> < 2 ^ 1024 \<Longrightarrow> f64_of_rat x = Fin (f64_round x)"
  by (auto simp: f64_of_rat_def Let_def abs_less_iff)

lemma f64_step_error:
  assumes "\<bar>x\<bar> \<le> B"
  shows "\<bar>f64_round x - x\<bar> \<le> B / 2 ^ 53 + 1 / 10 ^ 30"
proof -
  have "\<bar>f64_round x - x\<bar> \<le> \<bar>x\<bar> / 2 ^ 53 + 1 / 2 ^ 1075" by (rule f64_round_error_abs)
  also have "\<bar>x\<bar> / 2 ^ 53 \<le> B / 2 ^ 53" using assms by (simp add: divide_right_mono)
  also have "(1 :: rat) / 2 ^ 1075 \<le> 1 / 10 ^ 30" by simp
  finally show ?thesis by simp
qed

lemma f64_bounded_Fin: "\<bar>x\<bar> \<le> 10 ^ 30 \<Longrightarrow> f64_of_rat x = Fin (f64_round x)"
proof (rule f64_of_rat_Fin)
  assume x: "\<bar>x\<bar> \<le> 10 ^ 30"
  have "\<bar>f64_round x\<bar> \<le> \<bar>x\<bar> + \<bar>f64_round x - x\<bar>" by linarith
  also have "\<dots> \<le> 10 ^ 30 + (10 ^ 30 / 2 ^ 53 + 1 / 10 ^ 30)"
    using x f64_step_error [OF x] by (rule add_mono)
  also have "\<dots> < 2 ^ 1024" by simp
  finally show "\<bar>f64_round x\<bar> < 2 ^ 1024" .
qed

lemma f64_of_int_exact: "\<bar>k\<bar> \<le> 2 ^ 53 \<Longrightarrow> f64_of_int k = Fin (of_int k)"
proof -
  assume k: "\<bar>k\<bar> \<le> 2 ^ 53"
  have "\<bar>of_int k :: rat\<bar> \<le> 2 ^ 53"
    using k by (metis of_int_abs of_int_le_iff of_int_numeral of_int_power)
  also have "(2 :: rat) ^ 53 < 2 ^ 1024" by simp
  finally have "\<bar>f64_round (of_int k)\<bar> < 2 ^ 1024" by (simp add: f64_round_of_int [OF k])
  then show ?thesis by (simp add: f64_of_int_def f64_of_rat_Fin f64_round_of_int [OF k])
qed

end
