(* ===== verification/Go_Json.thy ===== *)
theory Go_Json
  imports Go_Prelude Go_Float
begin

text \<open>
  What the configuration code uses of Go's library: \<open>strings.TrimSpace\<close>, \<open>strconv.Atoi\<close>,
  \<open>time.ParseDuration\<close>, and \<open>encoding/json\<close>'s decoding of a JSON value into an \<open>int\<close>, a \<open>bool\<close>,
  a \<open>string\<close>, a map, a slice and a struct field. A JSON number is its literal's exact value,
  tagged with whether the literal has a fraction or an exponent; an object is the list of its
  members in document order.
\<close>

section \<open>Text\<close>

text \<open>The UTF-8 encodings of the runes \<open>unicode.IsSpace\<close> holds of.\<close>

definition space_runes :: "string list" where
  "space_runes = [[CHR 0x09], [CHR 0x0A], [CHR 0x0B], [CHR 0x0C], [CHR 0x0D], [CHR 0x20],
     [CHR 0xC2, CHR 0x85], [CHR 0xC2, CHR 0xA0], [CHR 0xE1, CHR 0x9A, CHR 0x80],
     [CHR 0xE2, CHR 0x80, CHR 0x80], [CHR 0xE2, CHR 0x80, CHR 0x81], [CHR 0xE2, CHR 0x80, CHR 0x82],
     [CHR 0xE2, CHR 0x80, CHR 0x83], [CHR 0xE2, CHR 0x80, CHR 0x84], [CHR 0xE2, CHR 0x80, CHR 0x85],
     [CHR 0xE2, CHR 0x80, CHR 0x86], [CHR 0xE2, CHR 0x80, CHR 0x87], [CHR 0xE2, CHR 0x80, CHR 0x88],
     [CHR 0xE2, CHR 0x80, CHR 0x89], [CHR 0xE2, CHR 0x80, CHR 0x8A], [CHR 0xE2, CHR 0x80, CHR 0xA8],
     [CHR 0xE2, CHR 0x80, CHR 0xA9], [CHR 0xE2, CHR 0x80, CHR 0xAF], [CHR 0xE2, CHR 0x81, CHR 0x9F],
     [CHR 0xE3, CHR 0x80, CHR 0x80]]"

lemma space_runes_nonempty: "r \<in> set space_runes \<Longrightarrow> r \<noteq> []"
  by (auto simp: space_runes_def)

text \<open>Each turn drops a rune of at least one byte, so the length is enough fuel.\<close>

fun trim_left :: "nat \<Rightarrow> string \<Rightarrow> string" where
  "trim_left 0 s = s"
| "trim_left (Suc n) s = (case find (has_prefix s) space_runes of
       None \<Rightarrow> s
     | Some r \<Rightarrow> trim_left n (drop (length r) s))"

fun trim_right :: "nat \<Rightarrow> string \<Rightarrow> string" where
  "trim_right 0 s = s"
| "trim_right (Suc n) s = (case find (has_suffix s) space_runes of
       None \<Rightarrow> s
     | Some r \<Rightarrow> trim_right n (take (length s - length r) s))"

definition TrimSpace :: "string \<Rightarrow> string" where
  "TrimSpace s = (let t = trim_left (length s) s in trim_right (length t) t)"

definition is_digit :: "char \<Rightarrow> bool" where
  "is_digit c \<longleftrightarrow> in_range CHR ''0'' CHR ''9'' c"

definition digit_int :: "char \<Rightarrow> int" where
  "digit_int c = of_char c - 48"

definition digits_int :: "string \<Rightarrow> int" where
  "digits_int ds = foldl (\<lambda>n c. 10 * n + digit_int c) 0 ds"

definition Atoi :: "string \<Rightarrow> int option" where
  "Atoi s =
     (let neg = has_prefix s ''-'';
          ds = (if neg \<or> has_prefix s ''+'' then drop 1 s else s);
          v = (if neg then - digits_int ds else digits_int ds)
      in if ds = [] \<or> \<not> list_all is_digit ds \<or> \<not> in64 v then None else Some v)"

section \<open>Durations\<close>

definition leadingInt :: "string \<Rightarrow> (int \<times> string) option" where
  "leadingInt s = (let ds = takeWhile is_digit s
     in if digits_int ds \<le> 2 ^ 63 then Some (digits_int ds, dropWhile is_digit s) else None)"

text \<open>The digits of a fraction, as many as fit, and their scale, a power of ten.\<close>

fun leading_fraction :: "int \<Rightarrow> int \<Rightarrow> string \<Rightarrow> int \<times> int" where
  "leading_fraction x scale [] = (x, scale)"
| "leading_fraction x scale (c # cs) =
     (if (2 ^ 63 - 1) div 10 < x \<or> 2 ^ 63 < x * 10 + digit_int c then (x, scale)
      else leading_fraction (x * 10 + digit_int c) (scale * 10) cs)"

definition unit_map :: "string \<Rightarrow> int option" where
  "unit_map u =
     (if u = ''ns'' then Some 1
      else if u \<in> {''us'', [CHR 0xC2, CHR 0xB5, CHR ''s''], [CHR 0xCE, CHR 0xBC, CHR ''s'']} then Some 1000
      else if u = ''ms'' then Some 1000000
      else if u = ''s'' then Some 1000000000
      else if u = ''m'' then Some 60000000000
      else if u = ''h'' then Some 3600000000000
      else None)"

text \<open>The conversion of a non-negative float to \<open>uint64\<close>.\<close>

fun f64_floor :: "f64 \<Rightarrow> int" where
  "f64_floor (Fin a) = max 0 \<lfloor>a\<rfloor>"
| "f64_floor _ = 0"

definition is_unit_char :: "char \<Rightarrow> bool" where
  "is_unit_char c \<longleftrightarrow> c \<noteq> CHR ''.'' \<and> \<not> is_digit c"

text \<open>One term of a duration: its value in nanoseconds and the rest of the text.\<close>

definition duration_term :: "string \<Rightarrow> (int \<times> string) option" where
  "duration_term s = (case leadingInt s of
       None \<Rightarrow> None
     | Some (v, s1) \<Rightarrow>
         let pre = s1 \<noteq> s;
             dot = has_prefix s1 ''.'';
             fs = (if dot then takeWhile is_digit (drop 1 s1) else []);
             (f, scale) = leading_fraction 0 1 fs;
             s2 = (if dot then dropWhile is_digit (drop 1 s1) else s1);
             u = takeWhile is_unit_char s2
         in if \<not> pre \<and> fs = [] then None
            else if u = [] then None
            else (case unit_map u of
                None \<Rightarrow> None
              | Some un \<Rightarrow>
                  if 2 ^ 63 div un < v then None
                  else let v' = v * un + (if 0 < f then f64_floor (f64_mul (f64_of_int f)
                                   (f64_div (f64_of_int un) (f64_of_int scale))) else 0)
                       in if 2 ^ 63 < v' then None else Some (v', dropWhile is_unit_char s2)))"

lemma duration_term_shorter: "duration_term s = Some (v, s') \<Longrightarrow> length s' < length s"
proof -
  assume a: "duration_term s = Some (v, s')"
  obtain n s1 where l: "leadingInt s = Some (n, s1)" using a by (auto simp: duration_term_def split: option.splits)
  define s2 where "s2 = (if has_prefix s1 ''.'' then dropWhile is_digit (drop 1 s1) else s1)"
  have s': "s' = dropWhile is_unit_char s2" and u: "takeWhile is_unit_char s2 \<noteq> []"
    using a l by (auto simp: duration_term_def Let_def s2_def split: option.splits prod.splits if_splits)
  have "length s1 \<le> length s" using l by (auto simp: leadingInt_def Let_def length_dropWhile_le split: if_splits)
  moreover have "length s2 \<le> length s1"
    using length_dropWhile_le [of is_digit "drop 1 s1"] by (auto simp: s2_def)
  moreover have "length (takeWhile is_unit_char s2) + length s' = length s2"
    unfolding s' by (metis length_append takeWhile_dropWhile_id)
  ultimately show ?thesis using u by (cases "takeWhile is_unit_char s2") auto
qed

function duration_terms :: "string \<Rightarrow> int \<Rightarrow> int option" where
  "duration_terms s d =
     (if s = [] then Some d
      else case duration_term s of
             None \<Rightarrow> None
           | Some (v, s') \<Rightarrow> let d' = (d + v) mod 2 ^ 64
                             in if 2 ^ 63 < d' then None else duration_terms s' d')"
  by pat_completeness auto
termination
  by (relation "measure (length \<circ> fst)") (auto dest: duration_term_shorter)

definition ParseDuration :: "string \<Rightarrow> duration option" where
  "ParseDuration s =
     (let neg = has_prefix s ''-''; t = (if neg \<or> has_prefix s ''+'' then drop 1 s else s)
      in if t = ''0'' then Some 0
         else if t = [] then None
         else case duration_terms t 0 of
                None \<Rightarrow> None
              | Some d \<Rightarrow> if neg then Some (- d)
                          else if 2 ^ 63 - 1 < d then None else Some d)"

lemma duration_terms_range: "duration_terms s d = Some r \<Longrightarrow> 0 \<le> d \<and> d \<le> 2 ^ 63 \<Longrightarrow> 0 \<le> r \<and> r \<le> 2 ^ 63"
proof (induction s d rule: duration_terms.induct)
  case (1 s d)
  show ?case
  proof (cases "s = []")
    case True
    then show ?thesis using 1(2,3) by simp
  next
    case False
    then obtain v s' where t: "duration_term s = Some (v, s')" "(d + v) mod 2 ^ 64 \<le> 2 ^ 63"
      "duration_terms s' ((d + v) mod 2 ^ 64) = Some r"
      using 1(2) by (subst (asm) duration_terms.simps)
        (auto simp: Let_def not_less split: if_splits option.splits simp del: duration_terms.simps)
    then show ?thesis using 1(1) [OF False t(1) refl refl] by simp
  qed
qed

lemma ParseDuration_in64: "ParseDuration s = Some d \<Longrightarrow> in64 d"
  by (auto simp: ParseDuration_def Let_def in64_def split: if_splits option.splits
      dest!: duration_terms_range simp del: duration_terms.simps)

section \<open>JSON\<close>

datatype json =
    JNull
  | JBool bool
  | JInt int
  | JFrac rat
  | JStr string
  | JArr "json list"
  | JObj "(string \<times> json) list"

text \<open>Decoding into a zero \<open>int\<close>, \<open>bool\<close>, \<open>string\<close>: \<open>null\<close> leaves it as it is.\<close>

fun decode_int :: "json \<Rightarrow> int option" where
  "decode_int JNull = Some 0"
| "decode_int (JInt n) = (if in64 n then Some n else None)"
| "decode_int _ = None"

fun decode_bool :: "json \<Rightarrow> bool option" where
  "decode_bool JNull = Some False"
| "decode_bool (JBool b) = Some b"
| "decode_bool _ = None"

fun decode_string :: "json \<Rightarrow> string option" where
  "decode_string JNull = Some []"
| "decode_string (JStr s) = Some s"
| "decode_string _ = None"

text \<open>Into a \<open>map[string]json.RawMessage\<close>: the last of equal names wins; \<open>null\<close> leaves it nil.\<close>

definition go_map :: "(string \<times> 'v) list \<Rightarrow> (string \<times> 'v) list" where
  "go_map kvs = map (\<lambda>k. (k, the (map_of (rev kvs) k))) (remdups (map fst kvs))"

fun decode_map :: "json \<Rightarrow> (string \<times> json) list option option" where
  "decode_map JNull = Some None"
| "decode_map (JObj kvs) = Some (Some (go_map kvs))"
| "decode_map _ = None"

fun decode_slice :: "json \<Rightarrow> json list option option" where
  "decode_slice JNull = Some None"
| "decode_slice (JArr xs) = Some (Some xs)"
| "decode_slice _ = None"

lemma map_of_map_key: "map_of (map (\<lambda>k. (k, f k)) ks) k = (if k \<in> set ks then Some (f k) else None)"
  by (induction ks) auto

lemma map_of_go_map: "map_of (go_map kvs) = map_of (rev kvs)"
proof
  fix k
  have "k \<in> set (map fst kvs) \<longleftrightarrow> map_of (rev kvs) k \<noteq> None" by (simp add: map_of_eq_None_iff)
  then show "map_of (go_map kvs) k = map_of (rev kvs) k"
    by (simp add: go_map_def map_of_map_key del: set_map)
qed

lemma distinct_go_map: "distinct (map fst (go_map kvs))"
  by (simp add: go_map_def o_def)

text \<open>The name of an object's member is matched to a struct's field without regard to case: the
  \<open>foldName\<close> of \<open>encoding/json\<close>, with the two non-ASCII runes that fold to a letter (the
  Kelvin sign and the long s).\<close>

fun fold_name :: "string \<Rightarrow> string" where
  "fold_name [] = []"
| "fold_name (c # s) =
     (if has_prefix (c # s) [CHR 0xE2, CHR 0x84, CHR 0xAA] then CHR ''K'' # fold_name (drop 2 s)
      else if has_prefix (c # s) [CHR 0xC5, CHR 0xBF] then CHR ''S'' # fold_name (drop 1 s)
      else (if in_range CHR ''a'' CHR ''z'' c then char_of ((of_char c :: int) - 32) else c) # fold_name s)"

definition field_is :: "string \<Rightarrow> string \<Rightarrow> bool" where
  "field_is name k \<longleftrightarrow> fold_name k = fold_name name"

text \<open>\<open>Duration.UnmarshalJSON\<close> of \<open>internal/config/options.go\<close>: a duration string, or a number of
  milliseconds. The conversion of a float outside \<open>int64\<close> is the one of amd64.\<close>

fun f64_to_i64 :: "f64 \<Rightarrow> int" where
  "f64_to_i64 (Fin a) = (let k = (if 0 \<le> a then \<lfloor>a\<rfloor> else \<lceil>a\<rceil>) in if in64 k then k else - (2 ^ 63))"
| "f64_to_i64 _ = - (2 ^ 63)"

definition json_float :: "rat \<Rightarrow> f64 option" where
  "json_float r = (case f64_of_rat r of Fin a \<Rightarrow> Some (Fin a) | _ \<Rightarrow> None)"

definition millis :: "rat \<Rightarrow> duration option" where
  "millis r = map_option (\<lambda>ms. f64_to_i64 (f64_mul ms (f64_of_int millisecond))) (json_float r)"

fun Duration_UnmarshalJSON :: "json \<Rightarrow> duration option" where
  "Duration_UnmarshalJSON (JStr s) = ParseDuration s"
| "Duration_UnmarshalJSON (JInt n) = millis (of_int n)"
| "Duration_UnmarshalJSON (JFrac r) = millis r"
| "Duration_UnmarshalJSON _ = None"

lemma f64_to_i64_in64: "in64 (f64_to_i64 x)"
  by (cases x) (auto simp: Let_def in64_def)

lemma Duration_UnmarshalJSON_in64: "Duration_UnmarshalJSON v = Some d \<Longrightarrow> in64 d"
  by (cases v) (auto simp: millis_def f64_to_i64_in64 dest: ParseDuration_in64)

lemma decode_int_in64: "decode_int v = Some n \<Longrightarrow> in64 n"
  by (cases v) (auto simp: in64_def split: if_splits)

lemma ParseDuration_30s: "ParseDuration (TrimSpace ''30s'') = Some (30 * second)"
  by code_simp

end
