(* ===== verification/Config_Scenarios.thy ===== *)
theory Config_Scenarios
  imports Go_Json
begin

text \<open>
  \<open>internal/config/scenarios.go\<close>: decoding \<open>options.scenarios\<close> and \<open>options.stages\<close>, and resolving
  a scenario: defaults, and an error for every setting that makes no sense. Error texts are
  constructors with their arguments. Go iterates a map in no particular order: the order is the
  argument \<open>ord\<close>.
\<close>

section \<open>Scenarios\<close>

definition exec_ConstantVUs :: string where "exec_ConstantVUs = ''constant-vus''"
definition exec_RampingVUs :: string where "exec_RampingVUs = ''ramping-vus''"
definition exec_ConstantArrivalRate :: string where "exec_ConstantArrivalRate = ''constant-arrival-rate''"
definition DefaultScenario :: string where "DefaultScenario = ''default''"
definition DefaultGracefulStop :: duration where "DefaultGracefulStop = 30 * second"
definition DefaultGracefulRampDown :: duration where "DefaultGracefulRampDown = 30 * second"
definition DefaultTimeUnit :: duration where "DefaultTimeUnit = second"

record cfg_stage =
  cst_Duration :: duration
  cst_Target :: int

record cfg_scenario =
  cs_Name :: string
  cs_Executor :: string
  cs_Exec :: string
  cs_StartTime :: duration
  cs_GracefulStop :: duration
  cs_VUs :: int
  cs_Duration :: duration
  cs_StartVUs :: int
  cs_Stages :: "cfg_stage list"
  cs_GracefulRampDown :: duration
  cs_Rate :: int
  cs_TimeUnit :: duration
  cs_PreAllocatedVUs :: int

definition cfg_scenario_zero :: cfg_scenario where
  "cfg_scenario_zero = \<lparr>cs_Name = [], cs_Executor = [], cs_Exec = [], cs_StartTime = 0, cs_GracefulStop = 0,
     cs_VUs = 0, cs_Duration = 0, cs_StartVUs = 0, cs_Stages = [], cs_GracefulRampDown = 0, cs_Rate = 0,
     cs_TimeUnit = 0, cs_PreAllocatedVUs = 0\<rparr>"

definition cs_MaxVUs :: "cfg_scenario \<Rightarrow> int" where
  "cs_MaxVUs s =
     (if cs_Executor s = exec_RampingVUs then foldl (\<lambda>n st. max n (cst_Target st)) (cs_StartVUs s) (cs_Stages s)
      else if cs_Executor s = exec_ConstantArrivalRate then cs_PreAllocatedVUs s
      else cs_VUs s)"

definition cs_Length :: "cfg_scenario \<Rightarrow> duration" where
  "cs_Length s =
     (if cs_Executor s \<noteq> exec_RampingVUs then cs_Duration s
      else foldl (\<lambda>d st. wrap64 (d + cst_Duration st)) 0 (cs_Stages s))"

record scenario_options =
  so_Executor :: string
  so_Exec :: "string option"
  so_StartTime :: "duration option"
  so_GracefulStop :: "duration option"
  so_VUs :: "int option"
  so_Duration :: "duration option"
  so_StartVUs :: "int option"
  so_Stages :: "cfg_stage list option"
  so_GracefulRampDown :: "duration option"
  so_Rate :: "int option"
  so_TimeUnit :: "duration option"
  so_PreAllocatedVUs :: "int option"
  so_MaxVUs :: "int option"

definition scenario_options_zero :: scenario_options where
  "scenario_options_zero = \<lparr>so_Executor = [], so_Exec = None, so_StartTime = None, so_GracefulStop = None,
     so_VUs = None, so_Duration = None, so_StartVUs = None, so_Stages = None, so_GracefulRampDown = None,
     so_Rate = None, so_TimeUnit = None, so_PreAllocatedVUs = None, so_MaxVUs = None\<rparr>"

section \<open>Decoding\<close>

definition knownScenarioKeys :: "string list" where
  "knownScenarioKeys = [''duration'', ''exec'', ''executor'', ''gracefulRampDown'', ''gracefulStop'', ''maxVUs'',
     ''preAllocatedVUs'', ''rate'', ''stages'', ''startTime'', ''startVUs'', ''timeUnit'', ''vus'']"

datatype decode_error =
    ScenariosNotObject json
  | ScenarioNotObject string json
  | ScenarioInvalidField string
  | StagesNotArray

text \<open>A pointer field: \<open>null\<close> makes it nil.\<close>

definition decode_ptr :: "(json \<Rightarrow> 'a option) \<Rightarrow> json \<Rightarrow> 'a option option" where
  "decode_ptr dec v = (if v = JNull then Some None else map_option Some (dec v))"

text \<open>The members of an object into a struct, in document order; an unknown member is skipped.\<close>

fun decode_stage_fields :: "cfg_stage \<Rightarrow> (string \<times> json) list \<Rightarrow> cfg_stage option" where
  "decode_stage_fields st [] = Some st"
| "decode_stage_fields st ((k, v) # kvs) =
     (if field_is ''duration'' k
      then Option.bind (Duration_UnmarshalJSON v) (\<lambda>d. decode_stage_fields (st\<lparr>cst_Duration := d\<rparr>) kvs)
      else if field_is ''target'' k
      then Option.bind (decode_int v) (\<lambda>n. decode_stage_fields (if v = JNull then st else st\<lparr>cst_Target := n\<rparr>) kvs)
      else decode_stage_fields st kvs)"

fun decode_stage :: "json \<Rightarrow> cfg_stage option" where
  "decode_stage JNull = Some \<lparr>cst_Duration = 0, cst_Target = 0\<rparr>"
| "decode_stage (JObj kvs) = decode_stage_fields \<lparr>cst_Duration = 0, cst_Target = 0\<rparr> kvs"
| "decode_stage _ = None"

definition decode_stages :: "json \<Rightarrow> cfg_stage list option option" where
  "decode_stages v = (case decode_slice v of
       None \<Rightarrow> None
     | Some None \<Rightarrow> Some None
     | Some (Some xs) \<Rightarrow> map_option Some (those (map decode_stage xs)))"

definition set_option :: "scenario_options \<Rightarrow> string \<Rightarrow> json \<Rightarrow> scenario_options option" where
  "set_option so k v =
     (if field_is ''executor'' k then map_option (\<lambda>s. if v = JNull then so else so\<lparr>so_Executor := s\<rparr>) (decode_string v)
      else if field_is ''exec'' k then map_option (\<lambda>x. so\<lparr>so_Exec := x\<rparr>) (decode_ptr decode_string v)
      else if field_is ''startTime'' k then map_option (\<lambda>x. so\<lparr>so_StartTime := x\<rparr>) (decode_ptr Duration_UnmarshalJSON v)
      else if field_is ''gracefulStop'' k then map_option (\<lambda>x. so\<lparr>so_GracefulStop := x\<rparr>) (decode_ptr Duration_UnmarshalJSON v)
      else if field_is ''vus'' k then map_option (\<lambda>x. so\<lparr>so_VUs := x\<rparr>) (decode_ptr decode_int v)
      else if field_is ''duration'' k then map_option (\<lambda>x. so\<lparr>so_Duration := x\<rparr>) (decode_ptr Duration_UnmarshalJSON v)
      else if field_is ''startVUs'' k then map_option (\<lambda>x. so\<lparr>so_StartVUs := x\<rparr>) (decode_ptr decode_int v)
      else if field_is ''stages'' k then map_option (\<lambda>x. so\<lparr>so_Stages := x\<rparr>) (decode_stages v)
      else if field_is ''gracefulRampDown'' k
        then map_option (\<lambda>x. so\<lparr>so_GracefulRampDown := x\<rparr>) (decode_ptr Duration_UnmarshalJSON v)
      else if field_is ''rate'' k then map_option (\<lambda>x. so\<lparr>so_Rate := x\<rparr>) (decode_ptr decode_int v)
      else if field_is ''timeUnit'' k then map_option (\<lambda>x. so\<lparr>so_TimeUnit := x\<rparr>) (decode_ptr Duration_UnmarshalJSON v)
      else if field_is ''preAllocatedVUs'' k then map_option (\<lambda>x. so\<lparr>so_PreAllocatedVUs := x\<rparr>) (decode_ptr decode_int v)
      else if field_is ''maxVUs'' k then map_option (\<lambda>x. so\<lparr>so_MaxVUs := x\<rparr>) (decode_ptr decode_int v)
      else Some so)"

fun decode_scenario :: "scenario_options \<Rightarrow> (string \<times> json) list \<Rightarrow> scenario_options option" where
  "decode_scenario so [] = Some so"
| "decode_scenario so ((k, v) # kvs) = Option.bind (set_option so k v) (\<lambda>so. decode_scenario so kvs)"

text \<open>The loop of \<open>parseScenarios\<close> over the entries in the order Go takes them.\<close>

definition parse_entry :: "string \<Rightarrow> json \<Rightarrow> decode_error + scenario_options \<times> string list" where
  "parse_entry name v = (case v of
       JObj kvs \<Rightarrow> (case decode_scenario scenario_options_zero kvs of
           None \<Rightarrow> Inl (ScenarioInvalidField name)
         | Some so \<Rightarrow> Inr (so, map (\<lambda>k. ''scenarios.'' @ name @ ''.'' @ k)
             (filter (\<lambda>k. k \<notin> set knownScenarioKeys) (map fst (go_map kvs)))))
     | _ \<Rightarrow> Inl (ScenarioNotObject name v))"

fun parse_entries ::
  "(string \<times> json) list \<Rightarrow> (string \<times> scenario_options) list \<Rightarrow> string list \<Rightarrow>
   decode_error + (string \<times> scenario_options) list \<times> string list" where
  "parse_entries [] out unknown = Inr (out, unknown)"
| "parse_entries ((name, v) # es) out unknown = (case parse_entry name v of
       Inl e \<Rightarrow> Inl e
     | Inr (so, ks) \<Rightarrow> parse_entries es (out @ [(name, so)]) (unknown @ ks))"

definition parseScenarios ::
  "((string \<times> json) list \<Rightarrow> (string \<times> json) list) \<Rightarrow> json \<Rightarrow>
   decode_error + (string \<times> scenario_options) list \<times> string list" where
  "parseScenarios ord raw = (case decode_map raw of
       Some (Some entries) \<Rightarrow> (case parse_entries (ord entries) [] [] of
           Inl e \<Rightarrow> Inl e
         | Inr (out, unknown) \<Rightarrow> Inr (out, sort unknown))
     | _ \<Rightarrow> Inl (ScenariosNotObject raw))"

definition parseStages :: "json \<Rightarrow> decode_error + cfg_stage list option" where
  "parseStages raw = (case decode_stages raw of None \<Rightarrow> Inl StagesNotArray | Some st \<Rightarrow> Inr st)"

section \<open>Resolving a scenario\<close>

datatype scenario_error =
    BadExec string
  | NegativeStart
  | ExecutorRequired
  | ExecutorUnsupported string
  | FieldNotApplicable string string
  | VUsTooFew int
  | DurationRequired
  | NegativeStartVUs
  | StagesRequired
  | NegativeStage nat
  | StagesTooShort
  | NoRampingVUs
  | RateRequired
  | PreAllocatedRequired
  | TimeUnitNotPositive
  | MaxVUsDiffers int int

definition ident_start :: "char \<Rightarrow> bool" where
  "ident_start c \<longleftrightarrow> in_range CHR ''A'' CHR ''Z'' c \<or> in_range CHR ''a'' CHR ''z'' c \<or> c = CHR ''_'' \<or> c = CHR ''$''"

definition identifier_match :: "string \<Rightarrow> bool" where
  "identifier_match s = (case s of [] \<Rightarrow> False
     | c # cs \<Rightarrow> ident_start c \<and> list_all (\<lambda>c. ident_start c \<or> is_digit c) cs)"

definition set_fields :: "scenario_options \<Rightarrow> (string \<times> bool) list" where
  "set_fields so = [(''vus'', so_VUs so \<noteq> None), (''duration'', so_Duration so \<noteq> None),
     (''startVUs'', so_StartVUs so \<noteq> None), (''stages'', so_Stages so \<noteq> None),
     (''gracefulRampDown'', so_GracefulRampDown so \<noteq> None), (''rate'', so_Rate so \<noteq> None),
     (''timeUnit'', so_TimeUnit so \<noteq> None), (''preAllocatedVUs'', so_PreAllocatedVUs so \<noteq> None),
     (''maxVUs'', so_MaxVUs so \<noteq> None)]"

definition allowed_fields :: "string \<Rightarrow> string list option" where
  "allowed_fields ex =
     (if ex = exec_ConstantVUs then Some [''vus'', ''duration'']
      else if ex = exec_RampingVUs then Some [''startVUs'', ''stages'', ''gracefulRampDown'']
      else if ex = exec_ConstantArrivalRate
        then Some [''rate'', ''timeUnit'', ''duration'', ''preAllocatedVUs'', ''maxVUs'']
      else None)"

definition misplaced :: "scenario_options \<Rightarrow> string list \<Rightarrow> string option" where
  "misplaced so flds = map_option fst (find (\<lambda>(f, b). b \<and> f \<notin> set flds) (sort_key fst (set_fields so)))"

fun copy_stages :: "nat \<Rightarrow> cfg_stage list \<Rightarrow> cfg_stage list \<Rightarrow> scenario_error + cfg_stage list" where
  "copy_stages i [] out = Inr out"
| "copy_stages i (st # sts) out =
     (if cst_Duration st < 0 \<or> cst_Target st < 0 then Inl (NegativeStage (i + 1))
      else copy_stages (Suc i) sts (out @ [st]))"

definition or_default :: "'a option \<Rightarrow> 'a \<Rightarrow> 'a" where
  "or_default x d = (case x of None \<Rightarrow> d | Some v \<Rightarrow> v)"

definition resolve_constant :: "cfg_scenario \<Rightarrow> scenario_options \<Rightarrow> scenario_error + cfg_scenario" where
  "resolve_constant s o1 =
     (let s1 = s\<lparr>cs_VUs := or_default (so_VUs o1) 1\<rparr>
      in if cs_VUs s1 < 1 then Inl (VUsTooFew (cs_VUs s1))
         else case so_Duration o1 of
                None \<Rightarrow> Inl DurationRequired
              | Some d \<Rightarrow> if d \<le> 0 then Inl DurationRequired else Inr (s1\<lparr>cs_Duration := d\<rparr>))"

definition resolve_ramping :: "cfg_scenario \<Rightarrow> scenario_options \<Rightarrow> scenario_error + cfg_scenario" where
  "resolve_ramping s o1 =
     (let s1 = s\<lparr>cs_StartVUs := or_default (so_StartVUs o1) 1,
                 cs_GracefulRampDown := or_default (so_GracefulRampDown o1) DefaultGracefulRampDown\<rparr>
      in if cs_StartVUs s1 < 0 \<or> cs_GracefulRampDown s1 < 0 then Inl NegativeStartVUs
         else if or_default (so_Stages o1) [] = [] then Inl StagesRequired
         else case copy_stages 0 (or_default (so_Stages o1) []) [] of
                Inl e \<Rightarrow> Inl e
              | Inr sts \<Rightarrow> let s2 = s1\<lparr>cs_Stages := sts\<rparr>
                          in if cs_Length s2 \<le> 0 then Inl StagesTooShort
                             else if cs_MaxVUs s2 < 1 then Inl NoRampingVUs
                             else Inr s2)"

definition resolve_arrival :: "cfg_scenario \<Rightarrow> scenario_options \<Rightarrow> scenario_error + cfg_scenario" where
  "resolve_arrival s o1 = (case so_Rate o1 of None \<Rightarrow> Inl RateRequired | Some r \<Rightarrow>
     if r < 1 then Inl RateRequired else
     case so_Duration o1 of None \<Rightarrow> Inl DurationRequired | Some d \<Rightarrow>
     if d \<le> 0 then Inl DurationRequired else
     case so_PreAllocatedVUs o1 of None \<Rightarrow> Inl PreAllocatedRequired | Some p \<Rightarrow>
     if p < 1 then Inl PreAllocatedRequired else
     let s1 = s\<lparr>cs_Rate := r, cs_Duration := d, cs_PreAllocatedVUs := p,
                cs_TimeUnit := or_default (so_TimeUnit o1) DefaultTimeUnit\<rparr>
     in if cs_TimeUnit s1 \<le> 0 then Inl TimeUnitNotPositive
        else case so_MaxVUs o1 of None \<Rightarrow> Inr s1
             | Some m \<Rightarrow> if m \<noteq> p then Inl (MaxVUsDiffers m p) else Inr s1)"

definition scenario_base :: "string \<Rightarrow> scenario_options \<Rightarrow> cfg_scenario" where
  "scenario_base name o1 = cfg_scenario_zero\<lparr>cs_Name := name, cs_Executor := so_Executor o1,
     cs_Exec := or_default (so_Exec o1) ''default'',
     cs_StartTime := or_default (so_StartTime o1) 0,
     cs_GracefulStop := or_default (so_GracefulStop o1) DefaultGracefulStop\<rparr>"

definition resolveScenario :: "string \<Rightarrow> scenario_options \<Rightarrow> scenario_error + cfg_scenario" where
  "resolveScenario name o1 =
     (let s = scenario_base name o1
      in if so_Exec o1 \<noteq> None \<and> \<not> identifier_match (cs_Exec s) then Inl (BadExec (cs_Exec s))
         else if cs_StartTime s < 0 \<or> cs_GracefulStop s < 0 then Inl NegativeStart
         else case allowed_fields (so_Executor o1) of
                None \<Rightarrow> if so_Executor o1 = [] then Inl ExecutorRequired
                        else Inl (ExecutorUnsupported (so_Executor o1))
              | Some flds \<Rightarrow> (case misplaced o1 flds of
                  Some f \<Rightarrow> Inl (FieldNotApplicable f (so_Executor o1))
                | None \<Rightarrow>
                    if so_Executor o1 = exec_ConstantVUs then resolve_constant s o1
                    else if so_Executor o1 = exec_RampingVUs then resolve_ramping s o1
                    else resolve_arrival s o1))"

section \<open>What a resolved scenario is\<close>

lemma or_default_simps [simp]: "or_default None d = d" "or_default (Some x) d = x"
  by (simp_all add: or_default_def)

lemma resolve_constant_Inr:
  "resolve_constant s o1 = Inr s' \<longleftrightarrow> (\<exists>d. so_Duration o1 = Some d \<and> 0 < d \<and> 1 \<le> or_default (so_VUs o1) 1 \<and>
     s' = s\<lparr>cs_VUs := or_default (so_VUs o1) 1, cs_Duration := d\<rparr>)"
  by (auto simp: resolve_constant_def Let_def split: option.splits)

definition stages_ok :: "cfg_stage list \<Rightarrow> bool" where
  "stages_ok sts \<longleftrightarrow> (\<forall>st\<in>set sts. 0 \<le> cst_Duration st \<and> 0 \<le> cst_Target st)"

lemma copy_stages_Inr: "copy_stages i sts out = Inr r \<longleftrightarrow> r = out @ sts \<and> stages_ok sts"
  by (induction sts arbitrary: i out) (auto simp: stages_ok_def)

lemma resolve_ramping_Inr:
  "resolve_ramping s o1 = Inr s' \<longleftrightarrow>
     (\<exists>sts. so_Stages o1 = Some sts \<and> sts \<noteq> [] \<and> stages_ok sts \<and> 0 \<le> or_default (so_StartVUs o1) 1 \<and>
        0 \<le> or_default (so_GracefulRampDown o1) DefaultGracefulRampDown \<and>
        s' = s\<lparr>cs_StartVUs := or_default (so_StartVUs o1) 1,
               cs_GracefulRampDown := or_default (so_GracefulRampDown o1) DefaultGracefulRampDown, cs_Stages := sts\<rparr> \<and>
        0 < cs_Length s' \<and> 1 \<le> cs_MaxVUs s')"
proof (cases "so_Stages o1")
  case (Some sts)
  show ?thesis
  proof (cases "stages_ok sts")
    case True
    then have "copy_stages 0 sts [] = Inr sts" by (simp add: copy_stages_Inr)
    then show ?thesis using Some True by (auto simp: resolve_ramping_def Let_def not_less)
  next
    case False
    then obtain e where "copy_stages 0 sts [] = Inl e"
      using copy_stages_Inr [of 0 sts "[]"] by (cases "copy_stages 0 sts []") auto
    then show ?thesis using Some False by (auto simp: resolve_ramping_def Let_def)
  qed
qed (simp add: resolve_ramping_def Let_def)

lemma resolve_arrival_Inr:
  "resolve_arrival s o1 = Inr s' \<longleftrightarrow>
     (\<exists>r d p. so_Rate o1 = Some r \<and> so_Duration o1 = Some d \<and> so_PreAllocatedVUs o1 = Some p \<and>
        1 \<le> r \<and> 0 < d \<and> 1 \<le> p \<and> 0 < or_default (so_TimeUnit o1) DefaultTimeUnit \<and>
        (so_MaxVUs o1 = None \<or> so_MaxVUs o1 = Some p) \<and>
        s' = s\<lparr>cs_Rate := r, cs_Duration := d, cs_PreAllocatedVUs := p,
               cs_TimeUnit := or_default (so_TimeUnit o1) DefaultTimeUnit\<rparr>)"
  by (auto simp: resolve_arrival_def Let_def split: option.splits)

lemma exec_distinct: "exec_ConstantVUs \<noteq> exec_RampingVUs" "exec_ConstantArrivalRate \<noteq> exec_RampingVUs"
  "exec_ConstantArrivalRate \<noteq> exec_ConstantVUs" "exec_ConstantVUs \<noteq> []" "exec_RampingVUs \<noteq> exec_ConstantVUs"
  by (simp_all add: exec_ConstantVUs_def exec_RampingVUs_def exec_ConstantArrivalRate_def)

lemma allowed_fields_Some:
  "allowed_fields ex = Some flds \<Longrightarrow> ex = exec_ConstantVUs \<or> ex = exec_RampingVUs \<or> ex = exec_ConstantArrivalRate"
  by (auto simp: allowed_fields_def split: if_splits)

lemma misplaced_None: "misplaced o1 flds = None \<longleftrightarrow> (\<forall>(f, b)\<in>set (set_fields o1). b \<longrightarrow> f \<in> set flds)"
  by (auto simp: misplaced_def find_None_iff)

lemma resolveScenario_Inr:
  "resolveScenario name o1 = Inr s \<longleftrightarrow>
     (so_Exec o1 = None \<or> identifier_match (the (so_Exec o1))) \<and>
     0 \<le> or_default (so_StartTime o1) 0 \<and> 0 \<le> or_default (so_GracefulStop o1) DefaultGracefulStop \<and>
     (\<exists>flds. allowed_fields (so_Executor o1) = Some flds \<and> (\<forall>(f, b)\<in>set (set_fields o1). b \<longrightarrow> f \<in> set flds)) \<and>
     (so_Executor o1 = exec_ConstantVUs \<and> resolve_constant (scenario_base name o1) o1 = Inr s \<or>
      so_Executor o1 = exec_RampingVUs \<and> resolve_ramping (scenario_base name o1) o1 = Inr s \<or>
      so_Executor o1 = exec_ConstantArrivalRate \<and> resolve_arrival (scenario_base name o1) o1 = Inr s)"
proof -
  let ?b = "scenario_base name o1"
  have b: "cs_Exec ?b = or_default (so_Exec o1) ''default''" "cs_StartTime ?b = or_default (so_StartTime o1) 0"
    "cs_GracefulStop ?b = or_default (so_GracefulStop o1) DefaultGracefulStop"
    by (simp_all add: scenario_base_def cfg_scenario_zero_def)
  show ?thesis
  proof (cases "allowed_fields (so_Executor o1)")
    case None
    then show ?thesis by (auto simp: resolveScenario_def Let_def)
  next
    case (Some flds)
    show ?thesis
      using allowed_fields_Some [OF Some] exec_distinct unfolding resolveScenario_def Let_def b misplaced_None [symmetric]
      by (cases "so_Exec o1") (auto simp: Some split: option.splits)
  qed
qed

end
