(* ===== verification/Config_Options.thy ===== *)
theory Config_Options
  imports Config_Scenarios
begin

text \<open>
  \<open>internal/config/options.go\<close> and \<open>config.go\<close>: decoding the options a script declares, and
  \<open>Resolve\<close>, which decides the run's settings from the command line, the environment, the script
  and the defaults, in that order.
\<close>

section \<open>Options\<close>

record options =
  o_VUs :: "int option"
  o_Duration :: "duration option"
  o_DiscardResponseBodies :: "bool option"
  o_NoCookiesReset :: "bool option"
  o_NoConnectionReuse :: "bool option"
  o_HTTPVersion :: "string option"
  o_SetupTimeout :: "duration option"
  o_TeardownTimeout :: "duration option"
  o_Thresholds :: "(string \<times> string list) list"
  o_Scenarios :: "(string \<times> scenario_options) list option"
  o_Stages :: "cfg_stage list option"

definition options_zero :: options where
  "options_zero = \<lparr>o_VUs = None, o_Duration = None, o_DiscardResponseBodies = None, o_NoCookiesReset = None,
     o_NoConnectionReuse = None, o_HTTPVersion = None, o_SetupTimeout = None, o_TeardownTimeout = None,
     o_Thresholds = [], o_Scenarios = None, o_Stages = None\<rparr>"

definition HTTPVersions :: "string list" where
  "HTTPVersions = [''auto'', ''1.1'', ''2'']"

definition knownOptions :: "string list" where
  "knownOptions = [''discardResponseBodies'', ''duration'', ''httpVersion'', ''noConnectionReuse'', ''noCookiesReset'',
     ''scenarios'', ''setupTimeout'', ''stages'', ''teardownTimeout'', ''thresholds'', ''vus'']"

datatype options_error =
    OptionsNotObject
  | VUsNotWhole json
  | InvalidDuration string json
  | BadScenarios decode_error
  | BadHTTPVersion json
  | ThresholdsNotObject json
  | ThresholdNotArray string json
  | ThresholdObjectForm string
  | ThresholdNotString string json
  | NotBoolean string json

text \<open>\<open>parseThresholds\<close>; the first expression that is no string decides the error.\<close>

fun parse_exprs :: "string \<Rightarrow> json list \<Rightarrow> options_error + string list" where
  "parse_exprs name [] = Inr []"
| "parse_exprs name (v # vs) = (case decode_string v of
       None \<Rightarrow> Inl (case v of JObj _ \<Rightarrow> ThresholdObjectForm name | _ \<Rightarrow> ThresholdNotString name v)
     | Some e \<Rightarrow> (case parse_exprs name vs of Inl err \<Rightarrow> Inl err | Inr es \<Rightarrow> Inr (e # es)))"

definition parse_metric :: "string \<Rightarrow> json \<Rightarrow> options_error + string list" where
  "parse_metric name v = (case decode_slice v of
       None \<Rightarrow> Inl (ThresholdNotArray name v)
     | Some items \<Rightarrow> parse_exprs name (or_default items []))"

fun parse_metrics :: "(string \<times> json) list \<Rightarrow> options_error + (string \<times> string list) list" where
  "parse_metrics [] = Inr []"
| "parse_metrics ((name, v) # ms) = (case parse_metric name v of
       Inl e \<Rightarrow> Inl e
     | Inr exprs \<Rightarrow> (case parse_metrics ms of Inl e \<Rightarrow> Inl e | Inr out \<Rightarrow> Inr ((name, exprs) # out)))"

definition parseThresholds ::
  "((string \<times> json) list \<Rightarrow> (string \<times> json) list) \<Rightarrow> json \<Rightarrow> options_error + (string \<times> string list) list" where
  "parseThresholds ord raw = (case decode_map raw of
       None \<Rightarrow> Inl (ThresholdsNotObject raw)
     | Some ms \<Rightarrow> parse_metrics (ord (or_default ms [])))"

text \<open>The raw options: no text, a text that is no JSON, or a JSON value.\<close>

datatype raw_options =
    RawEmpty
  | RawInvalid
  | RawJson json

text \<open>One option: \<open>f\<close> decodes it into the options when the script sets it.\<close>

definition with_field ::
  "(string \<rightharpoonup> json) \<Rightarrow> string \<Rightarrow> (options \<Rightarrow> json \<Rightarrow> options_error + options) \<Rightarrow>
   options_error + options \<Rightarrow> options_error + options" where
  "with_field m key f r = (case r of Inl e \<Rightarrow> Inl e
     | Inr o1 \<Rightarrow> (case m key of None \<Rightarrow> Inr o1 | Some v \<Rightarrow> f o1 v))"

definition opt_vus :: "options \<Rightarrow> json \<Rightarrow> options_error + options" where
  "opt_vus o1 v = (case decode_int v of None \<Rightarrow> Inl (VUsNotWhole v) | Some n \<Rightarrow> Inr (o1\<lparr>o_VUs := Some n\<rparr>))"

definition opt_duration ::
  "string \<Rightarrow> (duration \<Rightarrow> options \<Rightarrow> options) \<Rightarrow> options \<Rightarrow> json \<Rightarrow> options_error + options" where
  "opt_duration key upd o1 v = (case Duration_UnmarshalJSON v of
       None \<Rightarrow> Inl (InvalidDuration key v) | Some d \<Rightarrow> Inr (upd d o1))"

definition opt_bool :: "string \<Rightarrow> (bool \<Rightarrow> options \<Rightarrow> options) \<Rightarrow> options \<Rightarrow> json \<Rightarrow> options_error + options" where
  "opt_bool key upd o1 v = (case decode_bool v of None \<Rightarrow> Inl (NotBoolean key v) | Some b \<Rightarrow> Inr (upd b o1))"

definition opt_stages :: "options \<Rightarrow> json \<Rightarrow> options_error + options" where
  "opt_stages o1 v = (case parseStages v of
       Inl e \<Rightarrow> Inl (BadScenarios e) | Inr st \<Rightarrow> Inr (o1\<lparr>o_Stages := Some (or_default st [])\<rparr>))"

definition opt_http :: "options \<Rightarrow> json \<Rightarrow> options_error + options" where
  "opt_http o1 v = (case decode_string v of
       None \<Rightarrow> Inl (BadHTTPVersion v)
     | Some hv \<Rightarrow> if hv \<in> set HTTPVersions then Inr (o1\<lparr>o_HTTPVersion := Some hv\<rparr>) else Inl (BadHTTPVersion v))"

definition opt_scenarios ::
  "((string \<times> json) list \<Rightarrow> (string \<times> json) list) \<Rightarrow> options \<Rightarrow> json \<Rightarrow> options_error + options" where
  "opt_scenarios ord o1 v = (case parseScenarios ord v of
       Inl e \<Rightarrow> Inl (BadScenarios e) | Inr (sc, extra) \<Rightarrow> Inr (o1\<lparr>o_Scenarios := Some sc\<rparr>))"

definition opt_thresholds ::
  "((string \<times> json) list \<Rightarrow> (string \<times> json) list) \<Rightarrow> options \<Rightarrow> json \<Rightarrow> options_error + options" where
  "opt_thresholds ord o1 v = (case parseThresholds ord v of
       Inl e \<Rightarrow> Inl e | Inr t \<Rightarrow> Inr (o1\<lparr>o_Thresholds := t\<rparr>))"

definition unknown_options ::
  "((string \<times> json) list \<Rightarrow> (string \<times> json) list) \<Rightarrow> (string \<times> json) list \<Rightarrow> string list" where
  "unknown_options ord kvs = sort (filter (\<lambda>k. k \<notin> set knownOptions) (map fst kvs) @
     (case map_of kvs ''scenarios'' of None \<Rightarrow> []
      | Some v \<Rightarrow> (case parseScenarios ord v of Inl _ \<Rightarrow> [] | Inr (_, extra) \<Rightarrow> extra)))"

definition parse_fields ::
  "((string \<times> json) list \<Rightarrow> (string \<times> json) list) \<Rightarrow> (string \<rightharpoonup> json) \<Rightarrow> options_error + options" where
  "parse_fields ord m =
     with_field m ''noConnectionReuse'' (opt_bool ''noConnectionReuse'' (\<lambda>b o1. o1\<lparr>o_NoConnectionReuse := Some b\<rparr>))
     (with_field m ''noCookiesReset'' (opt_bool ''noCookiesReset'' (\<lambda>b o1. o1\<lparr>o_NoCookiesReset := Some b\<rparr>))
     (with_field m ''discardResponseBodies'' (opt_bool ''discardResponseBodies'' (\<lambda>b o1. o1\<lparr>o_DiscardResponseBodies := Some b\<rparr>))
     (with_field m ''thresholds'' (opt_thresholds ord)
     (with_field m ''httpVersion'' opt_http
     (with_field m ''stages'' opt_stages
     (with_field m ''scenarios'' (opt_scenarios ord)
     (with_field m ''teardownTimeout'' (opt_duration ''teardownTimeout'' (\<lambda>d o1. o1\<lparr>o_TeardownTimeout := Some d\<rparr>))
     (with_field m ''setupTimeout'' (opt_duration ''setupTimeout'' (\<lambda>d o1. o1\<lparr>o_SetupTimeout := Some d\<rparr>))
     (with_field m ''duration'' (opt_duration ''duration'' (\<lambda>d o1. o1\<lparr>o_Duration := Some d\<rparr>))
     (with_field m ''vus'' opt_vus (Inr options_zero)))))))))))"

definition ParseOptions ::
  "((string \<times> json) list \<Rightarrow> (string \<times> json) list) \<Rightarrow> raw_options \<Rightarrow> options_error + options \<times> string list" where
  "ParseOptions ord raw = (case raw of
       RawEmpty \<Rightarrow> Inr (options_zero, [])
     | RawInvalid \<Rightarrow> Inl OptionsNotObject
     | RawJson v \<Rightarrow> (case decode_map v of
         None \<Rightarrow> Inl OptionsNotObject
       | Some None \<Rightarrow> Inr (options_zero, [])
       | Some (Some kvs) \<Rightarrow> (case parse_fields ord (map_of kvs) of
           Inl e \<Rightarrow> Inl e
         | Inr o1 \<Rightarrow> Inr (o1, unknown_options ord kvs))))"

section \<open>The run's settings\<close>

record config =
  c_Script :: string
  c_VUs :: int
  c_Duration :: duration
  c_GracefulStop :: duration
  c_DiscardResponseBodies :: bool
  c_NoCookiesReset :: bool
  c_NoConnectionReuse :: bool
  c_HTTPVersion :: string
  c_SetupTimeout :: duration
  c_TeardownTimeout :: duration
  c_Scenarios :: "cfg_scenario list"
  c_ScenariosReplaced :: bool

datatype config_error =
    ScriptRequired
  | VUsAtLeastOne int
  | DurationNotPositive duration
  | GracefulStopNegative duration

definition Config_Validate :: "config \<Rightarrow> config_error list" where
  "Config_Validate c =
     (if c_Script c = [] then [ScriptRequired] else []) @
     (if c_VUs c < 1 then [VUsAtLeastOne (c_VUs c)] else []) @
     (if c_Duration c \<le> 0 then [DurationNotPositive (c_Duration c)] else []) @
     (if c_GracefulStop c < 0 then [GracefulStopNegative (c_GracefulStop c)] else [])"

record overrides =
  ov_VUs :: "int option"
  ov_Duration :: "duration option"

definition EnvVUs :: string where "EnvVUs = ''LOADTOOL_VUS''"
definition EnvDuration :: string where "EnvDuration = ''LOADTOOL_DURATION''"
definition DefaultVUs :: int where "DefaultVUs = 1"
definition DefaultDuration :: duration where "DefaultDuration = 10 * second"
definition DefaultLifecycleTimeout :: duration where "DefaultLifecycleTimeout = 60 * second"

datatype source = FromDefault | FromFlag | FromEnv | FromScript

datatype resolve_error =
    EnvVUsNotWhole string
  | VUsBelowOne int source
  | EnvDurationInvalid string
  | DurationBelowZero duration source
  | BothScenariosAndShorthand
  | NoScenariosDefined
  | InvalidScenarios "(string \<times> scenario_error) list"
  | StagesWithDuration
  | InvalidStages scenario_error
  | TimeoutNotPositive string duration

text \<open>A nil \<open>getenv\<close> is a lookup that finds nothing.\<close>

definition hasEnv :: "(string \<rightharpoonup> string) \<Rightarrow> string \<Rightarrow> bool" where
  "hasEnv getenv name = (case getenv name of None \<Rightarrow> False | Some v \<Rightarrow> TrimSpace v \<noteq> [])"

definition isTrue :: "bool option \<Rightarrow> bool" where
  "isTrue b = (b = Some True)"

definition resolve_vus :: "overrides \<Rightarrow> (string \<rightharpoonup> string) \<Rightarrow> options \<Rightarrow> resolve_error + int" where
  "resolve_vus cli getenv script =
     (let r = (case ov_VUs cli of
            Some n \<Rightarrow> Inr (n, FromFlag)
          | None \<Rightarrow>
              if hasEnv getenv EnvVUs
              then (let s = the (getenv EnvVUs) in case Atoi (TrimSpace s) of
                      None \<Rightarrow> Inl (EnvVUsNotWhole s) | Some n \<Rightarrow> Inr (n, FromEnv))
              else (case o_VUs script of Some n \<Rightarrow> Inr (n, FromScript) | None \<Rightarrow> Inr (DefaultVUs, FromDefault)))
      in case r of Inl e \<Rightarrow> Inl e | Inr (n, src) \<Rightarrow> if n < 1 then Inl (VUsBelowOne n src) else Inr n)"

definition resolve_duration :: "overrides \<Rightarrow> (string \<rightharpoonup> string) \<Rightarrow> options \<Rightarrow> resolve_error + duration" where
  "resolve_duration cli getenv script =
     (let r = (case ov_Duration cli of
            Some d \<Rightarrow> Inr (d, FromFlag)
          | None \<Rightarrow>
              if hasEnv getenv EnvDuration
              then (let s = the (getenv EnvDuration) in case ParseDuration (TrimSpace s) of
                      None \<Rightarrow> Inl (EnvDurationInvalid s) | Some d \<Rightarrow> Inr (d, FromEnv))
              else (case o_Duration script of Some d \<Rightarrow> Inr (d, FromScript) | None \<Rightarrow> Inr (DefaultDuration, FromDefault)))
      in case r of Inl e \<Rightarrow> Inl e | Inr (d, src) \<Rightarrow> if d \<le> 0 then Inl (DurationBelowZero d src) else Inr d)"

text \<open>The script's scenarios in the order of their names, each resolved or an error.\<close>

definition resolve_each :: "(string \<times> scenario_options) list \<Rightarrow> ((string \<times> scenario_error) + cfg_scenario) list" where
  "resolve_each scs = map (\<lambda>name. case resolveScenario name (the (map_of scs name)) of
       Inl e \<Rightarrow> Inl (name, e) | Inr s \<Rightarrow> Inr s) (sort (map fst scs))"

definition shorthand :: "int \<Rightarrow> duration \<Rightarrow> duration \<Rightarrow> cfg_scenario list" where
  "shorthand vus dur gracefulStop = [cfg_scenario_zero\<lparr>cs_Name := DefaultScenario, cs_Executor := exec_ConstantVUs,
     cs_Exec := ''default'', cs_GracefulStop := gracefulStop, cs_VUs := vus, cs_Duration := dur\<rparr>]"

definition resolveScenarios ::
  "options \<Rightarrow> bool \<Rightarrow> int \<Rightarrow> duration \<Rightarrow> duration \<Rightarrow> resolve_error + cfg_scenario list \<times> bool" where
  "resolveScenarios script override vus dur gracefulStop = (case o_Scenarios script of
       Some scs \<Rightarrow>
         if o_VUs script \<noteq> None \<or> o_Duration script \<noteq> None \<or> o_Stages script \<noteq> None then Inl BothScenariosAndShorthand
         else if override then Inr (shorthand vus dur gracefulStop, True)
         else if scs = [] then Inl NoScenariosDefined
         else let rs = resolve_each scs
              in if lefts rs = [] then Inr (rights rs, False) else Inl (InvalidScenarios (lefts rs))
     | None \<Rightarrow> (case o_Stages script of
         Some sts \<Rightarrow>
           if o_Duration script \<noteq> None then Inl StagesWithDuration
           else if override then Inr (shorthand vus dur gracefulStop, True)
           else (case resolveScenario DefaultScenario (scenario_options_zero\<lparr>so_Executor := exec_RampingVUs,
                       so_StartVUs := Some vus, so_Stages := Some sts, so_GracefulStop := Some gracefulStop\<rparr>) of
                   Inl e \<Rightarrow> Inl (InvalidStages e) | Inr s \<Rightarrow> Inr ([s], False))
       | None \<Rightarrow> Inr (shorthand vus dur gracefulStop, False)))"

definition resolve_timeout :: "string \<Rightarrow> duration option \<Rightarrow> resolve_error + duration" where
  "resolve_timeout name src = (case src of
       None \<Rightarrow> Inr DefaultLifecycleTimeout
     | Some d \<Rightarrow> if d \<le> 0 then Inl (TimeoutNotPositive name d) else Inr d)"

definition Resolve :: "config \<Rightarrow> overrides \<Rightarrow> (string \<rightharpoonup> string) \<Rightarrow> options \<Rightarrow> resolve_error + config" where
  "Resolve c cli getenv script = (case resolve_vus cli getenv script of
       Inl e \<Rightarrow> Inl e
     | Inr vus \<Rightarrow> (case resolve_duration cli getenv script of
         Inl e \<Rightarrow> Inl e
       | Inr dur \<Rightarrow>
           let override = ov_VUs cli \<noteq> None \<or> ov_Duration cli \<noteq> None \<or> hasEnv getenv EnvVUs \<or> hasEnv getenv EnvDuration
           in (case resolveScenarios script override vus dur (c_GracefulStop c) of
                Inl e \<Rightarrow> Inl e
              | Inr (scs, replaced) \<Rightarrow>
                  let (n, d) = foldl (\<lambda>(n, d) s. (wrap64 (n + cs_MaxVUs s), max d (wrap64 (cs_StartTime s + cs_Length s)))) (0, 0) scs
                  in (case resolve_timeout ''setupTimeout'' (o_SetupTimeout script) of
                       Inl e \<Rightarrow> Inl e
                     | Inr st \<Rightarrow> (case resolve_timeout ''teardownTimeout'' (o_TeardownTimeout script) of
                         Inl e \<Rightarrow> Inl e
                       | Inr tt \<Rightarrow> Inr (c\<lparr>c_Scenarios := scs, c_ScenariosReplaced := replaced, c_VUs := n, c_Duration := d,
                           c_DiscardResponseBodies := (o_DiscardResponseBodies script \<noteq> Some False),
                           c_NoCookiesReset := isTrue (o_NoCookiesReset script),
                           c_NoConnectionReuse := isTrue (o_NoConnectionReuse script),
                           c_HTTPVersion := or_default (o_HTTPVersion script) ''auto'',
                           c_SetupTimeout := st, c_TeardownTimeout := tt\<rparr>))))))"

end
