(* ===== verification/Executors.thy ===== *)
theory Executors
  imports Go_Prelude
begin

text \<open>
  \<open>internal/engine/executors.go\<close>: the three executors as values. The loops over the stages of
  \<open>RampingVUs\<close> (\<open>crossing\<close>, \<open>activeAt\<close>, \<open>Length\<close>) recurse over the stage list with the loop's
  variables as arguments; arithmetic on \<open>int64\<close> wraps. A division by zero (a panic) is \<open>None\<close>.
  What the executors promise is proved in \<open>Ramping\<close> and \<open>Executor_Contract\<close>.
\<close>

section \<open>Executors\<close>

record stage =
  st_Duration :: duration
  st_Target :: int

record constant_vus =
  cv_VUs :: int
  cv_Duration :: duration

record ramping_vus =
  rv_StartVUs :: int
  rv_Stages :: "stage list"
  rv_GracefulRampDown :: duration

record arrival_rate =
  ar_Rate :: int
  ar_TimeUnit :: duration
  ar_Duration :: duration
  ar_PreAllocatedVUs :: int

datatype executor =
    ConstantVUs constant_vus
  | RampingVUs ramping_vus
  | ConstantArrivalRate arrival_rate

datatype executor_error =
    ConstantVUsInvalid int duration
  | NoStages
  | NegativeStartOrRampDown
  | BadStage nat
  | NoLength
  | BadVUs int
  | TooLong
  | ArrivalInvalid int duration duration int

subsection \<open>ConstantVUs\<close>

definition cv_activeAt :: "constant_vus \<Rightarrow> duration \<Rightarrow> int option" where
  "cv_activeAt e t = Some (if t < cv_Duration e then cv_VUs e else 0)"

definition cv_validate :: "constant_vus \<Rightarrow> executor_error option" where
  "cv_validate e = (if cv_VUs e < 1 \<or> cv_Duration e \<le> 0
     then Some (ConstantVUsInvalid (cv_VUs e) (cv_Duration e)) else None)"

subsection \<open>RampingVUs\<close>

definition rv_MaxVUs :: "ramping_vus \<Rightarrow> int" where
  "rv_MaxVUs e = foldl (\<lambda>n st. max n (st_Target st)) (rv_StartVUs e) (rv_Stages e)"

definition rv_Length :: "ramping_vus \<Rightarrow> duration" where
  "rv_Length e = foldl (\<lambda>d st. wrap64 (d + st_Duration st)) 0 (rv_Stages e)"

definition maxRampingVUs :: int where
  "maxRampingVUs = 1000000"

fun bad_stage :: "nat \<Rightarrow> stage list \<Rightarrow> nat option" where
  "bad_stage i [] = None"
| "bad_stage i (st # sts) =
     (if st_Duration st < 0 \<or> st_Target st < 0 then Some (i + 1) else bad_stage (Suc i) sts)"

definition rv_validate :: "ramping_vus \<Rightarrow> executor_error option" where
  "rv_validate e =
     (if rv_Stages e = [] then Some NoStages
      else if rv_StartVUs e < 0 \<or> rv_GracefulRampDown e < 0 then Some NegativeStartOrRampDown
      else case bad_stage 0 (rv_Stages e) of
             Some i \<Rightarrow> Some (BadStage i)
           | None \<Rightarrow>
               if rv_Length e \<le> 0 then Some NoLength
               else if rv_MaxVUs e < 1 \<or> maxRampingVUs < rv_MaxVUs e then Some (BadVUs (rv_MaxVUs e))
               else if 1000 * hour < rv_Length e then Some TooLong
               else None)"

definition ceilDiv :: "int \<Rightarrow> int \<Rightarrow> int option" where
  "ceilDiv a b = (if b = 0 then None else Some (go_div (wrap64 (wrap64 (a + b) - 1)) b))"

definition mul64 :: "int \<Rightarrow> int \<Rightarrow> int" where
  "mul64 a b = wrap64 (a * b)"

text \<open>\<open>from*d + (to-from)*x\<close>, the stage line's value at \<open>x\<close> times the stage's length \<open>d\<close>.\<close>

definition stage_line :: "int \<Rightarrow> int \<Rightarrow> int \<Rightarrow> int \<Rightarrow> int" where
  "stage_line fr to d x = wrap64 (mul64 fr d + mul64 (to - fr) x)"

text \<open>One stage's part of \<open>crossing\<close>: \<open>Some (Some at)\<close> when it returns, \<open>Some None\<close> when the loop
  goes on.\<close>

definition stage_crossing ::
  "int \<Rightarrow> duration \<Rightarrow> int \<Rightarrow> int \<Rightarrow> duration \<Rightarrow> duration \<Rightarrow> bool \<Rightarrow> duration option option" where
  "stage_crossing level segStart fr to dur t want =
     (let lo = max t segStart;
          d = microseconds dur;
          x = microseconds (wrap64 (lo - segStart))
      in if (mul64 level d \<le> stage_line fr to d x) = want then Some (Some lo)
         else let dx = (if want \<and> level \<le> to then ceilDiv (mul64 (level - fr) d) (to - fr)
                        else if \<not> want \<and> to < level
                          then (if fr - to = 0 then None
                                else Some (wrap64 (go_div (mul64 (fr - level) d) (fr - to) + 1)))
                        else Some (- 1))
              in case dx of None \<Rightarrow> None
                 | Some dx \<Rightarrow> if 0 \<le> dx \<and> dx < d then Some (Some (wrap64 (segStart + mul64 dx microsecond)))
                              else Some None)"

fun crossing_loop ::
  "int \<Rightarrow> duration \<Rightarrow> bool \<Rightarrow> stage list \<Rightarrow> duration \<Rightarrow> int \<Rightarrow> duration option option" where
  "crossing_loop level t want [] segStart fr = Some None"
| "crossing_loop level t want (st # sts) segStart fr =
     (let to = st_Target st; segEnd = wrap64 (segStart + st_Duration st)
      in if 0 < st_Duration st \<and> t < segEnd
         then case stage_crossing level segStart fr to (st_Duration st) t want of
                None \<Rightarrow> None
              | Some (Some at0) \<Rightarrow> Some (Some at0)
              | Some None \<Rightarrow> crossing_loop level t want sts segEnd to
         else crossing_loop level t want sts segEnd to)"

definition crossing :: "ramping_vus \<Rightarrow> int \<Rightarrow> duration \<Rightarrow> bool \<Rightarrow> duration option option" where
  "crossing e i t want = crossing_loop (i + 1) t want (rv_Stages e) 0 (rv_StartVUs e)"

text \<open>\<open>next\<close>: \<open>None\<close> is a panic, \<open>Some None\<close> is "not before the stages end".\<close>

definition rv_next :: "ramping_vus \<Rightarrow> int \<Rightarrow> duration \<Rightarrow> bool \<Rightarrow> duration option option" where
  "rv_next e i t want = (case crossing e i t want of
       None \<Rightarrow> None
     | Some None \<Rightarrow> Some None
     | Some (Some at0) \<Rightarrow> if rv_Length e \<le> at0 then Some None else Some (Some at0))"

fun active_loop :: "duration \<Rightarrow> stage list \<Rightarrow> duration \<Rightarrow> int \<Rightarrow> int option" where
  "active_loop t [] segStart fr = Some 0"
| "active_loop t (st # sts) segStart fr =
     (let to = st_Target st; segEnd = wrap64 (segStart + st_Duration st)
      in if 0 < st_Duration st \<and> t < segEnd
         then let d = microseconds (st_Duration st); x = microseconds (wrap64 (t - segStart))
              in if d = 0 then None else Some (go_div (stage_line fr to d x) d)
         else active_loop t sts segEnd to)"

definition rv_activeAt :: "ramping_vus \<Rightarrow> duration \<Rightarrow> int option" where
  "rv_activeAt e t = active_loop t (rv_Stages e) 0 (rv_StartVUs e)"

text \<open>What a VU of a ramping scenario does at offset \<open>now\<close> (one turn of the loop in \<open>drive\<close>): leave
  for good, sleep until an offset and look again, or run an iteration, with the deadline
  \<open>runIteration\<close> gives it when the VU is due to leave before the scenario's hard stop. Times are
  offsets from the scenario's start.\<close>

datatype vu_action =
    VUExit
  | VUSleepUntil duration
  | VUIterate "duration option"

definition iteration_deadline :: "ramping_vus \<Rightarrow> int \<Rightarrow> duration \<Rightarrow> duration \<Rightarrow> duration option option" where
  "iteration_deadline e i now hardStop = (case rv_next e i now False of
       None \<Rightarrow> None
     | Some None \<Rightarrow> Some None
     | Some (Some off) \<Rightarrow>
         if off < rv_Length e \<and> wrap64 (off + rv_GracefulRampDown e) < hardStop
         then Some (Some (wrap64 (off + rv_GracefulRampDown e))) else Some None)"

definition rv_decide :: "ramping_vus \<Rightarrow> int \<Rightarrow> duration \<Rightarrow> duration \<Rightarrow> vu_action option" where
  "rv_decide e i hardStop now =
     (if rv_Length e \<le> now then Some VUExit
      else case rv_next e i (max now 0) True of
             None \<Rightarrow> None
           | Some None \<Rightarrow> Some VUExit
           | Some (Some on) \<Rightarrow>
               if rv_Length e \<le> on then Some VUExit
               else if now < on then Some (VUSleepUntil on)
               else map_option VUIterate (iteration_deadline e i now hardStop))"

subsection \<open>ConstantArrivalRate\<close>

definition ar_activeAt :: "arrival_rate \<Rightarrow> duration \<Rightarrow> int option" where
  "ar_activeAt e t = Some (if t < ar_Duration e then ar_PreAllocatedVUs e else 0)"

definition ar_validate :: "arrival_rate \<Rightarrow> executor_error option" where
  "ar_validate e =
     (if ar_Rate e < 1 \<or> ar_TimeUnit e \<le> 0 \<or> ar_Duration e \<le> 0 \<or> ar_PreAllocatedVUs e < 1
      then Some (ArrivalInvalid (ar_Rate e) (ar_TimeUnit e) (ar_Duration e) (ar_PreAllocatedVUs e)) else None)"

definition offset :: "arrival_rate \<Rightarrow> int \<Rightarrow> duration" where
  "offset e k = go_div (mul64 k (ar_TimeUnit e)) (ar_Rate e)"

section \<open>The closed set of executors\<close>

fun MaxVUs :: "executor \<Rightarrow> int" where
  "MaxVUs (ConstantVUs e) = cv_VUs e"
| "MaxVUs (RampingVUs e) = rv_MaxVUs e"
| "MaxVUs (ConstantArrivalRate e) = ar_PreAllocatedVUs e"

fun Length :: "executor \<Rightarrow> duration" where
  "Length (ConstantVUs e) = cv_Duration e"
| "Length (RampingVUs e) = rv_Length e"
| "Length (ConstantArrivalRate e) = ar_Duration e"

fun validate :: "executor \<Rightarrow> executor_error option" where
  "validate (ConstantVUs e) = cv_validate e"
| "validate (RampingVUs e) = rv_validate e"
| "validate (ConstantArrivalRate e) = ar_validate e"

fun activeAt :: "executor \<Rightarrow> duration \<Rightarrow> int option" where
  "activeAt (ConstantVUs e) t = cv_activeAt e t"
| "activeAt (RampingVUs e) t = rv_activeAt e t"
| "activeAt (ConstantArrivalRate e) t = ar_activeAt e t"

section \<open>The stage line\<close>

lemma mul64_small: "0 \<le> a \<Longrightarrow> a \<le> 1000000 \<Longrightarrow> 0 \<le> b \<Longrightarrow> b \<le> 3600000000000 \<Longrightarrow> mul64 a b = a * b"
proof -
  assume a: "0 \<le> a" "a \<le> 1000000" and b: "0 \<le> b" "b \<le> 3600000000000"
  have "0 \<le> a * b" using a b by simp
  moreover have "a * b \<le> 1000000 * 3600000000000" using a b by (intro mult_mono) simp_all
  ultimately show ?thesis unfolding mul64_def by (intro wrap64_nonneg_id) simp_all
qed

lemma mul64_small_neg: "\<bar>a\<bar> \<le> 1000000 \<Longrightarrow> 0 \<le> b \<Longrightarrow> b \<le> 3600000000000 \<Longrightarrow> mul64 a b = a * b"
proof -
  assume a: "\<bar>a\<bar> \<le> 1000000" and b: "0 \<le> b" "b \<le> 3600000000000"
  have "\<bar>a * b\<bar> \<le> 1000000 * 3600000000000" unfolding abs_mult using a b by (intro mult_mono) simp_all
  then show ?thesis unfolding mul64_def by (intro wrap64_id) (simp add: in64_def abs_le_iff)
qed

definition line :: "int \<Rightarrow> int \<Rightarrow> int \<Rightarrow> int \<Rightarrow> int" where
  "line fr to d x = fr * d + (to - fr) * x"

lemma line_between:
  assumes "0 \<le> x" "x \<le> d"
  shows "min fr to * d \<le> line fr to d x \<and> line fr to d x \<le> max fr to * d"
proof (cases "fr \<le> to")
  case True
  then have "0 \<le> (to - fr) * x" "(to - fr) * x \<le> (to - fr) * d" using assms by (simp_all add: mult_left_mono)
  then show ?thesis using True by (simp add: line_def algebra_simps)
next
  case False
  then have "0 \<le> (fr - to) * x" "(fr - to) * x \<le> (fr - to) * d" using assms by (simp_all add: mult_left_mono)
  then show ?thesis using False by (simp add: line_def algebra_simps)
qed

lemma stage_line_exact:
  assumes "0 \<le> fr" "fr \<le> 1000000" "0 \<le> to" "to \<le> 1000000" "0 \<le> x" "x \<le> d" "d \<le> 3600000000000"
  shows "stage_line fr to d x = line fr to d x" "0 \<le> line fr to d x" "line fr to d x \<le> 1000000 * d"
proof -
  have b: "0 * d \<le> line fr to d x" "line fr to d x \<le> 1000000 * d"
    using line_between [of x d fr to] assms mult_right_mono [of "max fr to" 1000000 d]
      mult_right_mono [of 0 "min fr to" d] by linarith+
  then have "0 \<le> line fr to d x" "line fr to d x < 2 ^ 63" using assms(7) by simp_all
  then have "wrap64 (line fr to d x) = line fr to d x" by (rule wrap64_nonneg_id)
  then show "stage_line fr to d x = line fr to d x"
    using assms by (simp add: stage_line_def line_def mul64_small mul64_small_neg)
  show "0 \<le> line fr to d x" "line fr to d x \<le> 1000000 * d" using b by simp_all
qed

lemma le_div_iff_int: "0 < b \<Longrightarrow> (x :: int) \<le> a div b \<longleftrightarrow> x * b \<le> a"
proof
  assume b: "0 < b" and "x \<le> a div b"
  then have "x * b \<le> a div b * b" by (intro mult_right_mono) simp_all
  also have "\<dots> \<le> a" using b by (metis add.commute div_mult_mod_eq le_add_same_cancel2 pos_mod_sign)
  finally show "x * b \<le> a" .
next
  assume b: "0 < b" and "x * b \<le> a"
  then have "x * b div b \<le> a div b" by (intro zdiv_mono1)
  then show "x \<le> a div b" using b by simp
qed

text \<open>Inside one stage the line crosses a level at most once, and the two divisions of
  \<open>crossing\<close> find where.\<close>

lemma rising:
  assumes "0 < d" "0 \<le> y" "y \<le> d" "level \<le> to" "line fr to d y < level * d"
  shows "fr < to \<and> fr < level \<and>
    (\<forall>x. level * d \<le> line fr to d x \<longleftrightarrow> ((level - fr) * d + (to - fr) - 1) div (to - fr) \<le> x)"
proof -
  have ft: "fr < level"
  proof (rule ccontr)
    assume "\<not> fr < level"
    then have "level * d \<le> min fr to * d" using assms(1,4) by (intro mult_right_mono) simp_all
    then show False using line_between [OF assms(2,3), of fr to] assms(5) by linarith
  qed
  then have b: "0 < to - fr" using assms(4) by linarith
  have "level * d \<le> line fr to d x \<longleftrightarrow> ((level - fr) * d + (to - fr) - 1) div (to - fr) \<le> x" for x
  proof -
    let ?q = "((level - fr) * d + (to - fr) - 1) div (to - fr)"
    have "x + 1 \<le> ?q \<longleftrightarrow> (x + 1) * (to - fr) \<le> (level - fr) * d + (to - fr) - 1"
      by (rule le_div_iff_int [OF b])
    also have "\<dots> \<longleftrightarrow> x * (to - fr) < (level - fr) * d"
      by (simp only: distrib_right mult_1) linarith
    finally have "?q \<le> x \<longleftrightarrow> (level - fr) * d \<le> x * (to - fr)" by linarith
    moreover have "level * d \<le> line fr to d x \<longleftrightarrow> (level - fr) * d \<le> x * (to - fr)"
      by (simp add: line_def algebra_simps)
    ultimately show ?thesis by blast
  qed
  then show ?thesis using ft b by simp
qed

lemma falling:
  assumes "0 < d" "0 \<le> y" "y \<le> d" "to < level" "level * d \<le> line fr to d y"
  shows "to < fr \<and> level \<le> fr \<and>
    (\<forall>x. level * d \<le> line fr to d x \<longleftrightarrow> x < (fr - level) * d div (fr - to) + 1)"
proof -
  have ft: "level \<le> fr"
  proof (rule ccontr)
    assume "\<not> level \<le> fr"
    then have "max fr to * d < level * d" using assms(1,4) by simp
    then show False using line_between [OF assms(2,3), of fr to] assms(5) by linarith
  qed
  then have b: "0 < fr - to" using assms(4) by linarith
  have "level * d \<le> line fr to d x \<longleftrightarrow> x < (fr - level) * d div (fr - to) + 1" for x
  proof -
    have "level * d \<le> line fr to d x \<longleftrightarrow> x * (fr - to) \<le> (fr - level) * d"
      by (simp add: line_def algebra_simps)
    also have "\<dots> \<longleftrightarrow> x \<le> (fr - level) * d div (fr - to)" by (rule le_div_iff_int [OF b, symmetric])
    finally show ?thesis by linarith
  qed
  then show ?thesis using ft b by simp
qed


section \<open>One stage\<close>

definition on_line :: "int \<Rightarrow> duration \<Rightarrow> int \<Rightarrow> int \<Rightarrow> duration \<Rightarrow> duration \<Rightarrow> bool" where
  "on_line level s fr to dur u \<longleftrightarrow> level * (dur div 1000) \<le> line fr to (dur div 1000) ((u - s) div 1000)"

definition seg_ok :: "int \<Rightarrow> duration \<Rightarrow> int \<Rightarrow> int \<Rightarrow> duration \<Rightarrow> bool" where
  "seg_ok level s fr to dur \<longleftrightarrow> 0 < dur \<and> dur mod 1000 = 0 \<and> 0 \<le> s \<and> s + dur \<le> 3600000000000000 \<and>
     0 \<le> fr \<and> fr \<le> 1000000 \<and> 0 \<le> to \<and> to \<le> 1000000 \<and> 1 \<le> level \<and> level \<le> 1000000"

lemma seg_d:
  assumes "seg_ok level s fr to dur"
  shows "0 < dur div 1000" "dur div 1000 \<le> 3600000000000" "dur = dur div 1000 * 1000"
    and "microseconds dur = dur div 1000"
  using assms by (auto simp: seg_ok_def microseconds_nonneg)

lemma seg_x:
  assumes "seg_ok level s fr to dur" "s \<le> u" "u < s + dur"
  shows "0 \<le> (u - s) div 1000" "(u - s) div 1000 < dur div 1000"
    and "microseconds (wrap64 (u - s)) = (u - s) div 1000" "wrap64 (u - s) = u - s"
proof -
  show "0 \<le> (u - s) div 1000" using assms by (simp add: pos_imp_zdiv_nonneg_iff)
  show "(u - s) div 1000 < dur div 1000" using seg_d [OF assms(1)] assms(3) by (simp add: div_less_iff_less_mult)
  show w: "wrap64 (u - s) = u - s" using assms by (intro wrap64_nonneg_id) (simp_all add: seg_ok_def)
  show "microseconds (wrap64 (u - s)) = (u - s) div 1000" unfolding w using assms(2) by (simp add: microseconds_nonneg)
qed

lemma stage_value:
  assumes "seg_ok level s fr to dur" "s \<le> u" "u < s + dur"
  defines "d \<equiv> dur div 1000" and "x \<equiv> (u - s) div 1000"
  shows "stage_line fr to d x = line fr to d x" "go_div (stage_line fr to d x) d = line fr to d x div d"
    and "0 \<le> line fr to d x div d" "line fr to d x div d \<le> max fr to"
    and "level \<le> line fr to d x div d \<longleftrightarrow> on_line level s fr to dur u"
proof -
  note d = seg_d [OF assms(1), folded d_def] and x = seg_x [OF assms(1-3), folded d_def x_def]
  have r: "0 \<le> fr" "fr \<le> 1000000" "0 \<le> to" "to \<le> 1000000" using assms(1) by (simp_all add: seg_ok_def)
  have le: "x \<le> d" using x(2) by simp
  note sl = stage_line_exact [OF r x(1) le d(2)]
  show "stage_line fr to d x = line fr to d x" by (rule sl)
  show "go_div (stage_line fr to d x) d = line fr to d x div d"
    using sl d(1) by (simp add: go_div_nonneg)
  show "0 \<le> line fr to d x div d" using sl d(1) by (simp add: pos_imp_zdiv_nonneg_iff)
  have "line fr to d x div d \<le> max fr to * d div d" using line_between [OF x(1) le, of fr to] d(1)
    by (intro zdiv_mono1) simp_all
  then show "line fr to d x div d \<le> max fr to" using d(1) by simp
  show "level \<le> line fr to d x div d \<longleftrightarrow> on_line level s fr to dur u"
    using le_div_iff_int [OF d(1), of level "line fr to d x"] by (simp add: on_line_def d_def x_def)
qed

lemma flip_at:
  assumes ok: "seg_ok level s fr to dur" and lo: "s \<le> lo" "lo < s + dur"
    and flip: "\<And>x. (level * (dur div 1000) \<le> line fr to (dur div 1000) x) = want \<longleftrightarrow> q \<le> x"
    and no: "on_line level s fr to dur lo \<noteq> want"
  shows "0 \<le> q" and "q < dur div 1000 \<Longrightarrow>
      wrap64 (s + mul64 q microsecond) = s + q * 1000 \<and> lo \<le> s + q * 1000 \<and> s + q * 1000 < s + dur \<and>
      on_line level s fr to dur (s + q * 1000) = want \<and>
      (\<forall>u. lo \<le> u \<and> u < s + q * 1000 \<longrightarrow> on_line level s fr to dur u \<noteq> want)"
    and "dur div 1000 \<le> q \<Longrightarrow> \<forall>u. lo \<le> u \<and> u < s + dur \<longrightarrow> on_line level s fr to dur u \<noteq> want"
proof -
  have xq: "on_line level s fr to dur u = want \<longleftrightarrow> q \<le> (u - s) div 1000" for u
    by (simp add: on_line_def flip)
  have lq: "(lo - s) div 1000 < q" using no xq [of lo] by simp
  then show q0: "0 \<le> q" using seg_x(1) [OF ok lo] by linarith
  have lo2: "lo \<le> s + q * 1000" using lq by (simp add: div_less_iff_less_mult)
  note d = seg_d [OF ok]
  show "wrap64 (s + mul64 q microsecond) = s + q * 1000 \<and> lo \<le> s + q * 1000 \<and> s + q * 1000 < s + dur \<and>
      on_line level s fr to dur (s + q * 1000) = want \<and>
      (\<forall>u. lo \<le> u \<and> u < s + q * 1000 \<longrightarrow> on_line level s fr to dur u \<noteq> want)" if qd: "q < dur div 1000"
  proof (intro conjI allI impI)
    have q1: "q * 1000 < dur" using qd d(3) by linarith
    have s1: "s + dur \<le> 3600000000000000" "0 \<le> s" using ok by (simp_all add: seg_ok_def)
    have m: "mul64 q microsecond = q * 1000"
      unfolding mul64_def microsecond_def using q0 q1 s1 by (intro wrap64_nonneg_id) simp_all
    show "wrap64 (s + mul64 q microsecond) = s + q * 1000"
      unfolding m using q0 q1 s1 by (intro wrap64_nonneg_id) simp_all
    show "lo \<le> s + q * 1000" by (rule lo2)
    show "s + q * 1000 < s + dur" using q1 by simp
    show "on_line level s fr to dur (s + q * 1000) = want" unfolding xq by simp
    fix u assume "lo \<le> u \<and> u < s + q * 1000"
    then have "(u - s) div 1000 < q" using le_div_iff_int [of 1000 q "u - s"] by linarith
    then show "on_line level s fr to dur u \<noteq> want" using xq [of u] by simp
  qed
  show "\<forall>u. lo \<le> u \<and> u < s + dur \<longrightarrow> on_line level s fr to dur u \<noteq> want" if qd: "dur div 1000 \<le> q"
  proof (intro allI impI)
    fix u assume u: "lo \<le> u \<and> u < s + dur"
    then have "(u - s) div 1000 < dur div 1000" using seg_x(2) [OF ok, of u] lo by simp
    then show "on_line level s fr to dur u \<noteq> want" using qd xq [of u] by linarith
  qed
qed

lemma stage_crossing_spec:
  assumes ok: "seg_ok level s fr to dur" and t: "t < s + dur"
  defines "lo \<equiv> max t s"
  shows "\<exists>r. stage_crossing level s fr to dur t want = Some r \<and>
    (case r of
       Some a \<Rightarrow> lo \<le> a \<and> a < s + dur \<and> on_line level s fr to dur a = want \<and>
                 (\<forall>u. lo \<le> u \<and> u < a \<longrightarrow> on_line level s fr to dur u \<noteq> want)
     | None \<Rightarrow> \<forall>u. lo \<le> u \<and> u < s + dur \<longrightarrow> on_line level s fr to dur u \<noteq> want)"
proof -
  define d where "d = dur div 1000"
  have lo: "s \<le> lo" "lo < s + dur" using ok t by (auto simp: lo_def seg_ok_def)
  have r: "0 \<le> fr" "fr \<le> 1000000" "0 \<le> to" "to \<le> 1000000" "1 \<le> level" "level \<le> 1000000"
    using ok by (simp_all add: seg_ok_def)
  note d = seg_d [OF ok, folded d_def] and x = seg_x [OF ok lo, folded d_def]
  let ?x = "(lo - s) div 1000"
  have xd: "?x \<le> d" using x(2) by simp
  have ml: "mul64 level d = level * d" using r d by (intro mul64_small) simp_all
  have at_lo: "(mul64 level d \<le> stage_line fr to d ?x) = on_line level s fr to dur lo"
    unfolding ml stage_value(1) [OF ok lo, folded d_def] by (simp add: on_line_def d_def)
  have sc: "stage_crossing level s fr to dur t want =
      (if on_line level s fr to dur lo = want then Some (Some lo)
       else case (if want \<and> level \<le> to then ceilDiv (mul64 (level - fr) d) (to - fr)
                  else if \<not> want \<and> to < level
                    then (if fr - to = 0 then None else Some (wrap64 (go_div (mul64 (fr - level) d) (fr - to) + 1)))
                  else Some (- 1)) of
              None \<Rightarrow> None
            | Some dx \<Rightarrow> if 0 \<le> dx \<and> dx < d then Some (Some (wrap64 (s + mul64 dx microsecond))) else Some None)"
    unfolding stage_crossing_def Let_def lo_def [symmetric] d(4) x(3) at_lo ..
  show ?thesis
  proof (cases "on_line level s fr to dur lo = want")
    case True
    then show ?thesis using lo by (intro exI [of _ "Some lo"]) (auto simp: sc)
  next
    case no: False
    have P: "on_line level s fr to dur lo \<longleftrightarrow> level * d \<le> line fr to d ?x" by (simp add: on_line_def d_def)
    consider (rise) "want" "level \<le> to" | (fall) "\<not> want" "to < level" | (up) "want" "to < level" | (down) "\<not> want" "level \<le> to"
      by linarith
    then show ?thesis
    proof cases
      case rise
      have "line fr to d ?x < level * d" using no P rise by simp
      note R = rising [OF d(1) x(1) xd rise(2) this]
      define q where "q = ((level - fr) * d + (to - fr) - 1) div (to - fr)"
      have flip: "(level * (dur div 1000) \<le> line fr to (dur div 1000) y) = want \<longleftrightarrow> q \<le> y" for y
        using R rise by (simp add: d_def q_def)
      note F = flip_at [OF ok lo flip no, folded d_def]
      have b: "0 < to - fr" "0 < level - fr" using R by simp_all
      have m: "mul64 (level - fr) d = (level - fr) * d" using r d b by (intro mul64_small) simp_all
      have "(level - fr) * d \<le> 1000000 * 3600000000000" using r d b by (intro mult_mono) simp_all
      moreover have "0 \<le> (level - fr) * d" using b d by simp
      ultimately have "ceilDiv (mul64 (level - fr) d) (to - fr) = Some q"
        using b r by (simp add: ceilDiv_def m q_def wrap64_nonneg_id go_div_nonneg)
      then have eq: "stage_crossing level s fr to dur t want =
          (if q < d then Some (Some (s + q * 1000)) else Some None)"
        unfolding sc using no rise F(1,2) by simp
      show ?thesis
      proof (cases "q < d")
        case True
        then show ?thesis using eq F(2) by (intro exI [of _ "Some (s + q * 1000)"]) simp
      next
        case False
        then show ?thesis using eq F(3) by (intro exI [of _ None]) simp
      qed
    next
      case fall
      have "level * d \<le> line fr to d ?x" using no P fall by simp
      note R = falling [OF d(1) x(1) xd fall(2) this]
      define q where "q = (fr - level) * d div (fr - to) + 1"
      have flip: "(level * (dur div 1000) \<le> line fr to (dur div 1000) y) = want \<longleftrightarrow> q \<le> y" for y
        using R fall by (auto simp: d_def q_def not_le)
      note F = flip_at [OF ok lo flip no, folded d_def]
      have b: "0 < fr - to" "0 \<le> fr - level" using R by simp_all
      have m: "mul64 (fr - level) d = (fr - level) * d" using r d b by (intro mul64_small) simp_all
      have n: "(fr - level) * d \<le> 1000000 * 3600000000000" using r d b by (intro mult_mono) simp_all
      have n0: "0 \<le> (fr - level) * d" using b d by simp
      have "(fr - level) * d div (fr - to) \<le> (fr - level) * d div 1"
        using b n0 by (intro zdiv_mono2) simp_all
      then have "wrap64 (go_div (mul64 (fr - level) d) (fr - to) + 1) = q"
        unfolding m q_def using b n n0 by (simp add: go_div_nonneg wrap64_nonneg_id pos_imp_zdiv_nonneg_iff)
      then have eq: "stage_crossing level s fr to dur t want =
          (if q < d then Some (Some (s + q * 1000)) else Some None)"
        unfolding sc using no fall b F(1,2) by simp
      show ?thesis
      proof (cases "q < d")
        case True
        then show ?thesis using eq F(2) by (intro exI [of _ "Some (s + q * 1000)"]) simp
      next
        case False
        then show ?thesis using eq F(3) by (intro exI [of _ None]) simp
      qed
    next
      case up
      have "\<not> level * d \<le> line fr to d y" if y: "?x \<le> y" "y \<le> d" for y
      proof
        assume a: "level * d \<le> line fr to d y"
        have "0 \<le> y" using y(1) x(1) by linarith
        from falling [OF d(1) this y(2) up(2) a] a y(1) no P up(1) show False by simp
      qed
      moreover have "?x \<le> (u - s) div 1000 \<and> (u - s) div 1000 \<le> d" if "lo \<le> u" "u < s + dur" for u
        using seg_x(2) [OF ok, of u] lo that by (simp add: zdiv_mono1 d_def)
      ultimately have "\<forall>u. lo \<le> u \<and> u < s + dur \<longrightarrow> on_line level s fr to dur u \<noteq> want"
        using up(1) by (simp add: on_line_def d_def)
      then show ?thesis unfolding sc using no up by (intro exI [of _ None]) simp
    next
      case down
      have "level * d \<le> line fr to d y" if y: "?x \<le> y" "y \<le> d" for y
      proof (rule ccontr)
        assume "\<not> level * d \<le> line fr to d y"
        then have a: "line fr to d y < level * d" by simp
        have "0 \<le> y" using y(1) x(1) by linarith
        note R = rising [OF d(1) this y(2) down(2) a]
        have "level * d \<le> line fr to d ?x" using no P down(1) by simp
        then have "level * d \<le> line fr to d y" using R y(1) order_trans by blast
        then show False using a by simp
      qed
      moreover have "?x \<le> (u - s) div 1000 \<and> (u - s) div 1000 \<le> d" if "lo \<le> u" "u < s + dur" for u
        using seg_x(2) [OF ok, of u] lo that by (simp add: zdiv_mono1 d_def)
      ultimately have "\<forall>u. lo \<le> u \<and> u < s + dur \<longrightarrow> on_line level s fr to dur u \<noteq> want"
        using down(1) by (simp add: on_line_def d_def)
      then show ?thesis unfolding sc using no down by (intro exI [of _ None]) simp
    qed
  qed
qed

end
