(* ===== verification/Ramping.thy ===== *)
theory Ramping
  imports Executors
begin

text \<open>
  \<open>RampingVUs\<close>: the loops over the stages compute what they are meant to. Under what \<open>validate\<close>
  checks, and with stages of whole microseconds, \<open>next\<close> is the least offset at which a VU is in the
  wanted state, in exact agreement with \<open>activeAt\<close>.
\<close>

section \<open>All stages\<close>

definition stage_ok :: "stage \<Rightarrow> bool" where
  "stage_ok st \<longleftrightarrow> 0 \<le> st_Duration st \<and> st_Duration st mod 1000 = 0 \<and> 0 \<le> st_Target st \<and> st_Target st \<le> 1000000"

definition stages_length :: "stage list \<Rightarrow> duration" where
  "stages_length sts = sum_list (map st_Duration sts)"

lemma stages_length_nonneg: "\<forall>st\<in>set sts. stage_ok st \<Longrightarrow> 0 \<le> stages_length sts"
  by (induction sts) (simp_all add: stages_length_def stage_ok_def)

lemma active_loop_range:
  assumes "\<forall>st\<in>set sts. stage_ok st" "0 \<le> s" "s + stages_length sts \<le> 3600000000000000" "0 \<le> fr" "fr \<le> 1000000" "s \<le> u"
  shows "\<exists>v. active_loop u sts s fr = Some v \<and> 0 \<le> v \<and>
    (\<forall>m. fr \<le> m \<and> (\<forall>st\<in>set sts. st_Target st \<le> m) \<longrightarrow> v \<le> m) \<and> (s + stages_length sts \<le> u \<longrightarrow> v = 0)"
  using assms
proof (induction sts arbitrary: s fr)
  case Nil
  then show ?case by auto
next
  case (Cons st sts)
  define dur where "dur = st_Duration st"
  have st: "0 \<le> dur" "dur mod 1000 = 0" "0 \<le> st_Target st" "st_Target st \<le> 1000000"
    using Cons.prems(1) by (simp_all add: stage_ok_def dur_def)
  have tot: "stages_length (st # sts) = dur + stages_length sts" by (simp add: stages_length_def dur_def)
  have t0: "0 \<le> stages_length sts" using Cons.prems(1) by (intro stages_length_nonneg) simp
  have w: "wrap64 (s + dur) = s + dur" using Cons.prems st t0 tot by (intro wrap64_nonneg_id) simp_all
  show ?case
  proof (cases "0 < dur \<and> u < s + dur")
    case True
    have ok: "seg_ok 1 s fr (st_Target st) dur" using Cons.prems st t0 tot True by (simp add: seg_ok_def)
    have u: "s \<le> u" "u < s + dur" using Cons.prems(6) True by simp_all
    note d = seg_d [OF ok] and v = stage_value [OF ok u] and x = seg_x(3) [OF ok u]
    have "active_loop u (st # sts) s fr = Some (line fr (st_Target st) (dur div 1000) ((u - s) div 1000) div (dur div 1000))"
      using True w d(1,4) x v(2) by (simp add: Let_def dur_def [symmetric])
    moreover have "\<not> s + stages_length (st # sts) \<le> u" using True t0 tot by simp
    moreover have "line fr (st_Target st) (dur div 1000) ((u - s) div 1000) div (dur div 1000) \<le> m"
      if "fr \<le> m" "st_Target st \<le> m" for m using v(4) that by linarith
    ultimately show ?thesis using v(3) by (auto simp del: active_loop.simps)
  next
    case False
    then have eq: "active_loop u (st # sts) s fr = active_loop u sts (s + dur) (st_Target st)"
      using w by (auto simp: Let_def dur_def [symmetric])
    have "s + dur \<le> u" using False Cons.prems(6) st by linarith
    from Cons.IH [of "s + dur" "st_Target st", OF _ _ _ st(3,4) this] show ?thesis
      unfolding eq using Cons.prems st t0 tot by (simp add: add.assoc) fastforce
  qed
qed

lemma crossing_loop_spec:
  assumes "\<forall>st\<in>set sts. stage_ok st" "0 \<le> s" "s + stages_length sts \<le> 3600000000000000" "0 \<le> fr" "fr \<le> 1000000"
    and "1 \<le> level" "level \<le> 1000000"
  shows "\<exists>r. crossing_loop level t want sts s fr = Some r \<and>
    (let on = \<lambda>u. level \<le> the (active_loop u sts s fr)
     in case r of
       Some a \<Rightarrow> max t s \<le> a \<and> a < s + stages_length sts \<and> on a = want \<and>
                 (\<forall>u. max t s \<le> u \<and> u < a \<longrightarrow> on u \<noteq> want)
     | None \<Rightarrow> \<forall>u. max t s \<le> u \<and> u < s + stages_length sts \<longrightarrow> on u \<noteq> want)"
  using assms
proof (induction sts arbitrary: s fr)
  case Nil
  then show ?case by (auto simp: stages_length_def)
next
  case (Cons st sts)
  define dur where "dur = st_Duration st"
  define to where "to = st_Target st"
  have st: "0 \<le> dur" "dur mod 1000 = 0" "0 \<le> to" "to \<le> 1000000"
    using Cons.prems(1) by (simp_all add: stage_ok_def dur_def to_def)
  have tot: "stages_length (st # sts) = dur + stages_length sts" by (simp add: stages_length_def dur_def)
  have t0: "0 \<le> stages_length sts" using Cons.prems(1) by (intro stages_length_nonneg) simp
  have w: "wrap64 (s + dur) = s + dur" using Cons.prems st t0 tot by (intro wrap64_nonneg_id) simp_all
  define on where "on = (\<lambda>u. level \<le> the (active_loop u (st # sts) s fr))"
  define on' where "on' = (\<lambda>u. level \<le> the (active_loop u sts (s + dur) to))"
  have later: "on u = on' u" if "s + dur \<le> u" for u
    using that w by (simp add: on_def on'_def Let_def dur_def [symmetric] to_def [symmetric])
  obtain r where r: "crossing_loop level t want sts (s + dur) to = Some r"
    "case r of
       Some a \<Rightarrow> max t (s + dur) \<le> a \<and> a < s + dur + stages_length sts \<and> on' a = want \<and>
                 (\<forall>u. max t (s + dur) \<le> u \<and> u < a \<longrightarrow> on' u \<noteq> want)
     | None \<Rightarrow> \<forall>u. max t (s + dur) \<le> u \<and> u < s + dur + stages_length sts \<longrightarrow> on' u \<noteq> want"
    using Cons.IH [of "s + dur" to] Cons.prems st tot unfolding Let_def on'_def by (auto simp: add.assoc)
  show ?case
  proof (cases "0 < dur \<and> t < s + dur")
    case True
    have ok: "seg_ok level s fr to dur" using Cons.prems st t0 tot True by (simp add: seg_ok_def)
    have inside: "on u = on_line level s fr to dur u" if u: "s \<le> u" "u < s + dur" for u
    proof -
      have "active_loop u (st # sts) s fr = Some (line fr to (dur div 1000) ((u - s) div 1000) div (dur div 1000))"
        using True w seg_d [OF ok] seg_x(3) [OF ok u] stage_value(2) [OF ok u] u(2)
        by (simp add: Let_def dur_def [symmetric] to_def [symmetric])
      then show ?thesis using stage_value(5) [OF ok u] by (simp add: on_def)
    qed
    obtain q where q: "stage_crossing level s fr to dur t want = Some q"
      "case q of
         Some a \<Rightarrow> max t s \<le> a \<and> a < s + dur \<and> on_line level s fr to dur a = want \<and>
                   (\<forall>u. max t s \<le> u \<and> u < a \<longrightarrow> on_line level s fr to dur u \<noteq> want)
       | None \<Rightarrow> \<forall>u. max t s \<le> u \<and> u < s + dur \<longrightarrow> on_line level s fr to dur u \<noteq> want"
      using stage_crossing_spec [OF ok, of t want] True by blast
    show ?thesis
    proof (cases q)
      case (Some a)
      have eq: "crossing_loop level t want (st # sts) s fr = Some (Some a)"
        using True w q(1) Some by (simp add: Let_def dur_def [symmetric] to_def [symmetric])
      have "max t s \<le> a \<and> a < s + stages_length (st # sts) \<and> on a = want \<and> (\<forall>u. max t s \<le> u \<and> u < a \<longrightarrow> on u \<noteq> want)"
        using q(2) Some inside t0 tot by auto
      then show ?thesis unfolding eq on_def by (simp add: Let_def del: active_loop.simps)
    next
      case None
      have eq: "crossing_loop level t want (st # sts) s fr = Some r"
        using True w q(1) None r(1) by (simp add: Let_def dur_def [symmetric] to_def [symmetric])
      have seg: "on u \<noteq> want" if "max t s \<le> u" "u < s + dur" for u using q(2) None inside that by auto
      have m: "max t (s + dur) = s + dur" using True by simp
      have "case r of
         Some a \<Rightarrow> max t s \<le> a \<and> a < s + stages_length (st # sts) \<and> on a = want \<and> (\<forall>u. max t s \<le> u \<and> u < a \<longrightarrow> on u \<noteq> want)
       | None \<Rightarrow> \<forall>u. max t s \<le> u \<and> u < s + stages_length (st # sts) \<longrightarrow> on u \<noteq> want"
        using r(2) seg later True tot unfolding m by (cases r) (auto simp: not_le add.assoc, (metis not_le)+)
      then show ?thesis unfolding eq on_def by (simp add: Let_def del: active_loop.simps)
    qed
  next
    case False
    have eq: "crossing_loop level t want (st # sts) s fr = Some r"
      using False w r(1) by (auto simp: Let_def dur_def [symmetric] to_def [symmetric])
    have m: "max t (s + dur) = max t s" using False st by linarith
    have ge: "max t s \<le> u \<Longrightarrow> s + dur \<le> u" for u using False st by linarith
    have "case r of
       Some a \<Rightarrow> max t s \<le> a \<and> a < s + stages_length (st # sts) \<and> on a = want \<and> (\<forall>u. max t s \<le> u \<and> u < a \<longrightarrow> on u \<noteq> want)
     | None \<Rightarrow> \<forall>u. max t s \<le> u \<and> u < s + stages_length (st # sts) \<longrightarrow> on u \<noteq> want"
      using r(2) later ge tot unfolding m by (cases r) (auto simp: add.assoc)
    then show ?thesis unfolding eq on_def by (simp add: Let_def del: active_loop.simps)
  qed
qed

section \<open>What validation gives\<close>

definition whole_microseconds :: "ramping_vus \<Rightarrow> bool" where
  "whole_microseconds e \<longleftrightarrow> (\<forall>st\<in>set (rv_Stages e). st_Duration st mod 1000 = 0)"

definition no_overflow :: "ramping_vus \<Rightarrow> bool" where
  "no_overflow e \<longleftrightarrow> stages_length (rv_Stages e) < 2 ^ 63"

lemma bad_stage_None:
  "bad_stage i sts = None \<longleftrightarrow> (\<forall>st\<in>set sts. 0 \<le> st_Duration st \<and> 0 \<le> st_Target st)"
  by (induction sts arbitrary: i) auto

lemma foldl_max: "foldl (\<lambda>n st. max n (st_Target st)) n sts \<le> (m :: int) \<longleftrightarrow> n \<le> m \<and> (\<forall>st\<in>set sts. st_Target st \<le> m)"
  by (induction sts arbitrary: n) auto

lemma rv_MaxVUs_le: "rv_MaxVUs e \<le> m \<longleftrightarrow> rv_StartVUs e \<le> m \<and> (\<forall>st\<in>set (rv_Stages e). st_Target st \<le> m)"
  by (simp add: rv_MaxVUs_def foldl_max)

lemma rv_Length_wrap: "rv_Length e = wrap64 (stages_length (rv_Stages e))"
proof -
  have "foldl (\<lambda>d st. wrap64 (d + st_Duration st)) (wrap64 a) sts = wrap64 (a + stages_length sts)" for a sts
    by (induction sts arbitrary: a) (simp_all add: stages_length_def add.assoc)
  from this [of 0] show ?thesis by (simp add: rv_Length_def wrap64_nonneg_id)
qed

lemma rv_valid:
  assumes "rv_validate e = None" "no_overflow e"
  shows "rv_Length e = stages_length (rv_Stages e)" "0 < rv_Length e" "rv_Length e \<le> 3600000000000000"
    and "0 \<le> rv_StartVUs e" "1 \<le> rv_MaxVUs e" "rv_MaxVUs e \<le> 1000000" "0 \<le> rv_GracefulRampDown e"
    and "\<forall>st\<in>set (rv_Stages e). 0 \<le> st_Duration st \<and> 0 \<le> st_Target st"
proof -
  show st: "\<forall>st\<in>set (rv_Stages e). 0 \<le> st_Duration st \<and> 0 \<le> st_Target st"
    using assms(1) bad_stage_None by (force simp: rv_validate_def split: if_splits option.splits)
  show "0 < rv_Length e" "rv_Length e \<le> 3600000000000000" "0 \<le> rv_StartVUs e" "0 \<le> rv_GracefulRampDown e"
    "1 \<le> rv_MaxVUs e" "rv_MaxVUs e \<le> 1000000"
    using assms(1) by (simp_all add: rv_validate_def hour_def maxRampingVUs_def split: if_splits option.splits)
  have "0 \<le> stages_length sts" if "\<forall>st\<in>set sts. 0 \<le> st_Duration st \<and> 0 \<le> st_Target st" for sts
    using that by (induction sts) (simp_all add: stages_length_def)
  then show "rv_Length e = stages_length (rv_Stages e)"
    using assms(2) st by (simp add: rv_Length_wrap wrap64_nonneg_id no_overflow_def)
qed

definition rv_ok :: "ramping_vus \<Rightarrow> bool" where
  "rv_ok e \<longleftrightarrow> rv_validate e = None \<and> whole_microseconds e \<and> no_overflow e"

lemma rv_ok_stages: "rv_ok e \<Longrightarrow> \<forall>st\<in>set (rv_Stages e). stage_ok st"
  using rv_valid(6,8) [of e] rv_MaxVUs_le [of e 1000000] by (auto simp: rv_ok_def whole_microseconds_def stage_ok_def)

lemma rv_ok_facts:
  assumes "rv_ok e"
  shows "rv_Length e = stages_length (rv_Stages e)" "0 < rv_Length e" "rv_Length e \<le> 3600000000000000"
    and "0 \<le> rv_StartVUs e" "rv_StartVUs e \<le> 1000000" "rv_MaxVUs e \<le> 1000000" "0 \<le> rv_GracefulRampDown e"
  using assms rv_valid [of e] rv_MaxVUs_le [of e 1000000] by (simp_all add: rv_ok_def)

lemma rv_activeAt_range:
  assumes "rv_ok e" "0 \<le> u"
  shows "\<exists>v. rv_activeAt e u = Some v \<and> 0 \<le> v \<and> v \<le> rv_MaxVUs e \<and> (rv_Length e \<le> u \<longrightarrow> v = 0)"
proof -
  note f = rv_ok_facts [OF assms(1)]
  obtain v where v: "active_loop u (rv_Stages e) 0 (rv_StartVUs e) = Some v" "0 \<le> v"
    "rv_StartVUs e \<le> rv_MaxVUs e \<and> (\<forall>st\<in>set (rv_Stages e). st_Target st \<le> rv_MaxVUs e) \<longrightarrow> v \<le> rv_MaxVUs e"
    "stages_length (rv_Stages e) \<le> u \<longrightarrow> v = 0"
    using active_loop_range [OF rv_ok_stages [OF assms(1)], of 0 "rv_StartVUs e" u] f assms(2) by auto
  then show ?thesis using rv_MaxVUs_le [of e "rv_MaxVUs e"] f(1) by (auto simp: rv_activeAt_def)
qed

section \<open>The state of a VU\<close>

text \<open>VU \<open>i\<close> is active at \<open>u\<close> while the stage line is at least \<open>i + 1\<close>.\<close>

definition vu_active :: "ramping_vus \<Rightarrow> int \<Rightarrow> duration \<Rightarrow> bool" where
  "vu_active e i u \<longleftrightarrow> (case rv_activeAt e u of Some n \<Rightarrow> i + 1 \<le> n | None \<Rightarrow> False)"

definition first_change :: "ramping_vus \<Rightarrow> int \<Rightarrow> duration \<Rightarrow> bool \<Rightarrow> duration \<Rightarrow> bool" where
  "first_change e i t want a \<longleftrightarrow> t \<le> a \<and> a < rv_Length e \<and> vu_active e i a = want \<and>
     (\<forall>u. t \<le> u \<and> u < a \<longrightarrow> vu_active e i u \<noteq> want)"

lemma first_change_unique: "first_change e i t want a \<Longrightarrow> first_change e i t want b \<Longrightarrow> a = b"
  unfolding first_change_def by (metis linorder_neqE)

lemma first_change_now: "first_change e i t want t \<longleftrightarrow> t < rv_Length e \<and> vu_active e i t = want"
  by (auto simp: first_change_def)

lemma next_first_change:
  assumes "rv_ok e" "0 \<le> i" "i < rv_MaxVUs e" "0 \<le> t"
  shows "\<exists>r. rv_next e i t want = Some r \<and>
    (case r of Some a \<Rightarrow> first_change e i t want a
     | None \<Rightarrow> \<forall>u. t \<le> u \<and> u < rv_Length e \<longrightarrow> vu_active e i u \<noteq> want)"
proof -
  note f = rv_ok_facts [OF assms(1)]
  have act: "vu_active e i u = (i + 1 \<le> the (active_loop u (rv_Stages e) 0 (rv_StartVUs e)))" if "0 \<le> u" for u
    using rv_activeAt_range [OF assms(1) that] by (auto simp: vu_active_def rv_activeAt_def)
  have lvl: "1 \<le> i + 1" "i + 1 \<le> 1000000" using assms f by simp_all
  have len: "0 + stages_length (rv_Stages e) \<le> 3600000000000000" using f by simp
  obtain r where r: "crossing e i t want = Some r" and
    spec: "case r of
       Some a \<Rightarrow> t \<le> a \<and> a < rv_Length e \<and> (i + 1 \<le> the (active_loop a (rv_Stages e) 0 (rv_StartVUs e))) = want \<and>
                 (\<forall>u. t \<le> u \<and> u < a \<longrightarrow> (i + 1 \<le> the (active_loop u (rv_Stages e) 0 (rv_StartVUs e))) \<noteq> want)
     | None \<Rightarrow> \<forall>u. t \<le> u \<and> u < rv_Length e \<longrightarrow> (i + 1 \<le> the (active_loop u (rv_Stages e) 0 (rv_StartVUs e))) \<noteq> want"
    using crossing_loop_spec [OF rv_ok_stages [OF assms(1)] order_refl len f(4,5) lvl, of t want] assms(4)
    unfolding crossing_def f(1) Let_def by (simp only: max_absorb1 add_0) blast
  have "case r of Some a \<Rightarrow> first_change e i t want a
     | None \<Rightarrow> \<forall>u. t \<le> u \<and> u < rv_Length e \<longrightarrow> vu_active e i u \<noteq> want"
    using spec act assms(4) by (cases r) (auto simp: first_change_def)
  then show ?thesis
    by (cases r) (auto simp: rv_next_def r first_change_def)
qed

lemma next_eq:
  assumes "rv_ok e" "0 \<le> i" "i < rv_MaxVUs e" "0 \<le> t"
  shows "first_change e i t want a \<Longrightarrow> rv_next e i t want = Some (Some a)"
    and "\<forall>u. t \<le> u \<and> u < rv_Length e \<longrightarrow> vu_active e i u \<noteq> want \<Longrightarrow> rv_next e i t want = Some None"
proof -
  obtain r where r: "rv_next e i t want = Some r"
    "case r of Some a \<Rightarrow> first_change e i t want a
     | None \<Rightarrow> \<forall>u. t \<le> u \<and> u < rv_Length e \<longrightarrow> vu_active e i u \<noteq> want"
    using next_first_change [OF assms] by blast
  show "rv_next e i t want = Some (Some a)" if a: "first_change e i t want a"
  proof (cases r)
    case None
    have "t \<le> a \<and> a < rv_Length e" "vu_active e i a = want" using a by (simp_all add: first_change_def)
    moreover have "\<forall>u. t \<le> u \<and> u < rv_Length e \<longrightarrow> vu_active e i u \<noteq> want" using r(2) None by simp
    ultimately show ?thesis by blast
  next
    case (Some b)
    then show ?thesis using r a first_change_unique by fastforce
  qed
  show "rv_next e i t want = Some None" if no: "\<forall>u. t \<le> u \<and> u < rv_Length e \<longrightarrow> vu_active e i u \<noteq> want"
  proof (cases r)
    case (Some b)
    then have "t \<le> b \<and> b < rv_Length e" "vu_active e i b = want" using r(2) by (simp_all add: first_change_def)
    then show ?thesis using no by blast
  qed (use r in simp)
qed

section \<open>What a VU does\<close>

lemma rv_decide_eq:
  assumes "rv_ok e" "0 \<le> i" "i < rv_MaxVUs e" "0 \<le> now" "rv_Length e + rv_GracefulRampDown e < 2 ^ 63"
  shows "(\<forall>u. now \<le> u \<and> u < rv_Length e \<longrightarrow> \<not> vu_active e i u) \<Longrightarrow> rv_decide e i hs now = Some VUExit"
    and "first_change e i now True on \<Longrightarrow> now < on \<Longrightarrow> rv_decide e i hs now = Some (VUSleepUntil on)"
    and "first_change e i now True now \<Longrightarrow> first_change e i now False off \<Longrightarrow>
      rv_decide e i hs now = Some (VUIterate
        (if off + rv_GracefulRampDown e < hs then Some (off + rv_GracefulRampDown e) else None))"
    and "first_change e i now True now \<Longrightarrow> \<forall>u. now \<le> u \<and> u < rv_Length e \<longrightarrow> vu_active e i u \<Longrightarrow>
      rv_decide e i hs now = Some (VUIterate None)"
proof -
  have m: "max now 0 = now" using assms(4) by simp
  note nx = next_eq [OF assms(1-4)]
  show "rv_decide e i hs now = Some VUExit"
    if "\<forall>u. now \<le> u \<and> u < rv_Length e \<longrightarrow> \<not> vu_active e i u"
    using nx(2) [of True] that by (simp add: rv_decide_def m)
  show "rv_decide e i hs now = Some (VUSleepUntil on)" if "first_change e i now True on" "now < on"
    using nx(1) [OF that(1)] that by (simp add: rv_decide_def m first_change_def)
  show "rv_decide e i hs now = Some (VUIterate
        (if off + rv_GracefulRampDown e < hs then Some (off + rv_GracefulRampDown e) else None))"
    if "first_change e i now True now" "first_change e i now False off"
  proof -
    have off: "0 \<le> off" "off < rv_Length e" using that(2) assms(4) by (simp_all add: first_change_def)
    have "wrap64 (off + rv_GracefulRampDown e) = off + rv_GracefulRampDown e"
      using off assms(5) rv_ok_facts(7) [OF assms(1)] by (intro wrap64_nonneg_id) simp_all
    then show ?thesis using nx(1) [OF that(1)] nx(1) [OF that(2)] that(1) off
      by (simp add: rv_decide_def m iteration_deadline_def first_change_now)
  qed
  show "rv_decide e i hs now = Some (VUIterate None)"
    if "first_change e i now True now" "\<forall>u. now \<le> u \<and> u < rv_Length e \<longrightarrow> vu_active e i u"
    using nx(1) [OF that(1)] nx(2) [of False] that
    by (simp add: rv_decide_def m iteration_deadline_def first_change_now)
qed

lemma first_change_cases:
  assumes "rv_ok e" "0 \<le> i" "i < rv_MaxVUs e" "0 \<le> t"
  shows "(\<exists>a. first_change e i t want a) \<or> (\<forall>u. t \<le> u \<and> u < rv_Length e \<longrightarrow> vu_active e i u \<noteq> want)"
  using next_first_change [OF assms, of want] by (auto split: option.splits)

lemma rv_decide_iterate:
  assumes "rv_ok e" "0 \<le> i" "i < rv_MaxVUs e" "0 \<le> now" "rv_Length e + rv_GracefulRampDown e < 2 ^ 63"
  shows "(\<exists>dl. rv_decide e i hs now = Some (VUIterate dl)) \<longleftrightarrow> now < rv_Length e \<and> vu_active e i now"
proof (cases "now < rv_Length e \<and> vu_active e i now")
  case True
  then have fc: "first_change e i now True now" by (simp add: first_change_now)
  consider a where "first_change e i now False a" | "\<forall>u. now \<le> u \<and> u < rv_Length e \<longrightarrow> vu_active e i u"
    using first_change_cases [OF assms(1-4), of False] by blast
  then show ?thesis
    using rv_decide_eq(3) [OF assms fc, where hs = hs] rv_decide_eq(4) [OF assms fc, where hs = hs] True by cases auto
next
  case no: False
  consider a where "first_change e i now True a" | "\<forall>u. now \<le> u \<and> u < rv_Length e \<longrightarrow> \<not> vu_active e i u"
    using first_change_cases [OF assms(1-4), of True] by blast
  then show ?thesis
  proof cases
    case (1 a)
    then have "now < a" using no by (cases "now = a") (auto simp: first_change_def)
    then show ?thesis using rv_decide_eq(2) [OF assms 1, where hs = hs] no by simp
  next
    case 2
    then show ?thesis using rv_decide_eq(1) [OF assms, where hs = hs] no by simp
  qed
qed

lemma card_below: "0 \<le> v \<Longrightarrow> v \<le> m \<Longrightarrow> card {i. 0 \<le> i \<and> i < m \<and> i + 1 \<le> v} = nat (v :: int)"
proof -
  assume "0 \<le> v" "v \<le> m"
  then have "{i. 0 \<le> i \<and> i < m \<and> i + 1 \<le> v} = {0..<v}" by auto
  then show ?thesis by simp
qed

section \<open>The properties of the ramping executor\<close>

text \<open>C9: \<open>next(i, t, want)\<close> never panics on a validated scenario whose stages are whole microseconds
  and whose durations do not overflow. It returns an offset exactly when VU \<open>i\<close> is in the wanted
  state at some point of the rest of the scenario, and then the first such offset, in exact
  agreement with \<open>activeAt\<close>: a VU never wakes early, and never late by even a nanosecond.\<close>

theorem rv_next_exact:
  assumes "rv_validate e = None" "whole_microseconds e" "no_overflow e"
    and "0 \<le> i" "i < rv_MaxVUs e" "0 \<le> t"
  shows "\<exists>r. rv_next e i t want = Some r \<and>
      (\<forall>a. r = Some a \<longleftrightarrow> t \<le> a \<and> a < rv_Length e \<and> vu_active e i a = want \<and>
           (\<forall>u. t \<le> u \<and> u < a \<longrightarrow> vu_active e i u \<noteq> want)) \<and>
      (r = None \<longleftrightarrow> (\<forall>u. t \<le> u \<and> u < rv_Length e \<longrightarrow> vu_active e i u \<noteq> want))"
proof -
  have ok: "rv_ok e" using assms(1-3) by (simp add: rv_ok_def)
  note fc = first_change_def [of e i t want, symmetric]
  consider a where "first_change e i t want a" | "\<forall>u. t \<le> u \<and> u < rv_Length e \<longrightarrow> vu_active e i u \<noteq> want"
    using first_change_cases [OF ok assms(4-6)] by blast
  then show ?thesis
  proof cases
    case (1 a)
    have "\<not> (\<forall>u. t \<le> u \<and> u < rv_Length e \<longrightarrow> vu_active e i u \<noteq> want)"
      using 1 unfolding first_change_def by blast
    moreover have "Some a = Some b \<longleftrightarrow> first_change e i t want b" for b
      using 1 first_change_unique by auto
    ultimately show ?thesis unfolding next_eq(1) [OF ok assms(4-6) 1] fc by blast
  next
    case 2
    have "\<not> first_change e i t want b" for b using 2 unfolding first_change_def by blast
    then show ?thesis unfolding next_eq(2) [OF ok assms(4-6) 2] fc using 2 by blast
  qed
qed

definition ramp_example :: ramping_vus where
  "ramp_example = \<lparr>rv_StartVUs = 1,
     rv_Stages = [\<lparr>st_Duration = 10 * second, st_Target = 5\<rparr>, \<lparr>st_Duration = 0, st_Target = 2\<rparr>,
                  \<lparr>st_Duration = 20 * second, st_Target = 0\<rparr>],
     rv_GracefulRampDown = 3 * second\<rparr>"

lemma ramp_example_ok:
  "rv_validate ramp_example = None" "whole_microseconds ramp_example" "no_overflow ramp_example"
  "rv_MaxVUs ramp_example = 5" "rv_Length ramp_example = 30 * second"
  by (code_simp, simp add: whole_microseconds_def ramp_example_def second_def,
      simp add: no_overflow_def stages_length_def ramp_example_def second_def, code_simp, code_simp)

theorem rv_next_exact_witness:
  "rv_next ramp_example 2 0 True = Some (Some (5 * second)) \<and>
   first_change ramp_example 2 0 True (5 * second)"
proof -
  have ev: "rv_next ramp_example 2 0 True = Some (Some (5 * second))" by code_simp
  obtain r where r: "rv_next ramp_example 2 0 True = Some r"
    "\<And>a. r = Some a \<Longrightarrow> first_change ramp_example 2 0 True a"
    using rv_next_exact [OF ramp_example_ok(1-3), of 2 0 True] by (auto simp: ramp_example_ok first_change_def)
  moreover have "r = Some (5 * second)" using ev r(1) by simp
  ultimately show ?thesis using ev by simp
qed

text \<open>One turn of a ramping VU's loop. At every moment of the scenario exactly \<open>activeAt\<close> of the VUs
  run an iteration, VU 0 first; a VU that sleeps wakes at the first moment it is active, and
  then iterates at once rather than sleeping again; it leaves exactly when it is never active
  again; an iteration has a deadline exactly when the VU is deactivated before the end, with
  the graceful ramp-down still before the hard stop, and the deadline is that moment plus the
  ramp-down.\<close>

theorem rv_decide_exact:
  assumes "rv_validate e = None" "whole_microseconds e" "no_overflow e"
    and "rv_Length e + rv_GracefulRampDown e < 2 ^ 63"
    and "0 \<le> now" "now < rv_Length e"
  shows "\<exists>n. rv_activeAt e now = Some n \<and>
      {i. 0 \<le> i \<and> i < rv_MaxVUs e \<and> (\<exists>dl. rv_decide e i hs now = Some (VUIterate dl))} = {0..<n} \<and>
      (\<forall>i. 0 \<le> i \<and> i < rv_MaxVUs e \<longrightarrow>
         (rv_decide e i hs now = Some VUExit \<longleftrightarrow>
            (\<forall>u. now \<le> u \<and> u < rv_Length e \<longrightarrow> \<not> vu_active e i u)) \<and>
         (\<forall>on. rv_decide e i hs now = Some (VUSleepUntil on) \<longrightarrow>
            now < on \<and> first_change e i now True on \<and>
            (\<exists>dl. rv_decide e i hs on = Some (VUIterate dl))) \<and>
         (\<forall>dl. rv_decide e i hs now = Some (VUIterate dl) \<longrightarrow>
            (\<forall>d. dl = Some d \<longleftrightarrow> (\<exists>off. first_change e i now False off \<and>
               d = off + rv_GracefulRampDown e \<and> d < hs))))"
proof -
  have ok: "rv_ok e" using assms(1-3) by (simp add: rv_ok_def)
  obtain n where n: "rv_activeAt e now = Some n" "0 \<le> n" "n \<le> rv_MaxVUs e"
    using rv_activeAt_range [OF ok assms(5)] by blast
  have act: "vu_active e i now \<longleftrightarrow> i < n" for i using n(1) by (auto simp: vu_active_def)
  have it: "(\<exists>dl. rv_decide e i hs now = Some (VUIterate dl)) \<longleftrightarrow> i < n" if "0 \<le> i" "i < rv_MaxVUs e" for i
    using rv_decide_iterate [OF ok that assms(5,4)] assms(6) act by simp
  have set: "{i. 0 \<le> i \<and> i < rv_MaxVUs e \<and> (\<exists>dl. rv_decide e i hs now = Some (VUIterate dl))} = {0..<n}"
  proof -
    have "{i. 0 \<le> i \<and> i < rv_MaxVUs e \<and> (\<exists>dl. rv_decide e i hs now = Some (VUIterate dl))}
        = {i. 0 \<le> i \<and> i < rv_MaxVUs e \<and> i < n}" using it by (intro Collect_cong) blast
    also have "\<dots> = {0..<n}" using n(3) by auto
    finally show ?thesis .
  qed
  have each: "(rv_decide e i hs now = Some VUExit \<longleftrightarrow>
            (\<forall>u. now \<le> u \<and> u < rv_Length e \<longrightarrow> \<not> vu_active e i u)) \<and>
         (\<forall>on. rv_decide e i hs now = Some (VUSleepUntil on) \<longrightarrow>
            now < on \<and> first_change e i now True on \<and>
            (\<exists>dl. rv_decide e i hs on = Some (VUIterate dl))) \<and>
         (\<forall>dl. rv_decide e i hs now = Some (VUIterate dl) \<longrightarrow>
            (\<forall>d. dl = Some d \<longleftrightarrow> (\<exists>off. first_change e i now False off \<and>
               d = off + rv_GracefulRampDown e \<and> d < hs)))"
    if i: "0 \<le> i" "i < rv_MaxVUs e" for i
  proof -
    note D = rv_decide_eq [OF ok i assms(5,4), where hs = hs]
    consider (active) "first_change e i now True now" | (later) on where "first_change e i now True on" "now < on"
      | (never) "\<forall>u. now \<le> u \<and> u < rv_Length e \<longrightarrow> \<not> vu_active e i u"
      using first_change_cases [OF ok i assms(5), of True] by (metis first_change_def order_le_less)
    then show ?thesis
    proof cases
      case active
      then have a: "\<not> (\<forall>u. now \<le> u \<and> u < rv_Length e \<longrightarrow> \<not> vu_active e i u)"
        unfolding first_change_def by blast
      consider off where "first_change e i now False off" | "\<forall>u. now \<le> u \<and> u < rv_Length e \<longrightarrow> vu_active e i u"
        using first_change_cases [OF ok i assms(5), of False] by blast
      then show ?thesis
      proof cases
        case (1 off)
        have "first_change e i now False b \<longleftrightarrow> b = off" for b using 1 first_change_unique by blast
        then show ?thesis using a unfolding D(3) [OF active 1] by auto
      next
        case 2
        then have "\<not> first_change e i now False off" for off unfolding first_change_def by blast
        then show ?thesis using a unfolding D(4) [OF active 2] by simp
      qed
    next
      case (later on)
      have a: "\<not> (\<forall>u. now \<le> u \<and> u < rv_Length e \<longrightarrow> \<not> vu_active e i u)"
        using later(1) unfolding first_change_def by blast
      have "0 \<le> on" "on < rv_Length e" "vu_active e i on" using later assms(5) by (simp_all add: first_change_def)
      then have "\<exists>dl. rv_decide e i hs on = Some (VUIterate dl)"
        using rv_decide_iterate [OF ok i _ assms(4)] by blast
      then show ?thesis using a later unfolding D(2) [OF later] by simp
    next
      case never
      then show ?thesis unfolding D(1) [OF never] by simp
    qed
  qed
  show ?thesis using n(1) set each by blast
qed

theorem rv_decide_exact_witness:
  "rv_decide ramp_example 0 (60 * second) (15 * second) = Some (VUIterate (Some (23 * second + microsecond))) \<and>
   (\<exists>off. first_change ramp_example 0 (15 * second) False off \<and> 23 * second + microsecond = off + 3 * second) \<and>
   {i. 0 \<le> i \<and> i < 5 \<and> (\<exists>dl. rv_decide ramp_example i (60 * second) (15 * second) = Some (VUIterate dl))} = {0..<1}"
proof -
  have ev: "rv_decide ramp_example 0 (60 * second) (15 * second) = Some (VUIterate (Some (23 * second + microsecond)))"
    "rv_activeAt ramp_example (15 * second) = Some 1"
    by code_simp+
  have h: "rv_Length ramp_example + rv_GracefulRampDown ramp_example < 2 ^ 63" "0 \<le> 15 * second"
    "15 * second < rv_Length ramp_example" "rv_GracefulRampDown ramp_example = 3 * second"
    by (simp_all add: ramp_example_ok) (simp_all add: ramp_example_def second_def)
  have third: "\<forall>i. P i \<longrightarrow> A i \<and> B i \<and> C i \<Longrightarrow> \<forall>i. P i \<longrightarrow> C i" for P A B C :: "int \<Rightarrow> bool" by blast
  obtain n where n: "rv_activeAt ramp_example (15 * second) = Some n"
    "{i. 0 \<le> i \<and> i < rv_MaxVUs ramp_example \<and>
        (\<exists>dl. rv_decide ramp_example i (60 * second) (15 * second) = Some (VUIterate dl))} = {0..<n}"
    "\<forall>i. 0 \<le> i \<and> i < rv_MaxVUs ramp_example \<longrightarrow>
       (\<forall>dl. rv_decide ramp_example i (60 * second) (15 * second) = Some (VUIterate dl) \<longrightarrow>
          (\<forall>d. dl = Some d \<longleftrightarrow> (\<exists>off. first_change ramp_example i (15 * second) False off \<and>
             d = off + rv_GracefulRampDown ramp_example \<and> d < 60 * second)))"
    using rv_decide_exact [OF ramp_example_ok(1-3) h(1-3), where hs = "60 * second"]
    by (elim exE conjE) (rule that, assumption, assumption, erule third)
  have i0: "(0 :: int) \<le> 0 \<and> 0 < rv_MaxVUs ramp_example" by (simp add: ramp_example_ok)
  have "\<exists>off. first_change ramp_example 0 (15 * second) False off \<and>
      23 * second + microsecond = off + rv_GracefulRampDown ramp_example"
    using n(3) [THEN spec, THEN mp, OF i0, THEN spec, THEN mp, OF ev(1), THEN spec, of "23 * second + microsecond"]
    by blast
  then show ?thesis using ev n(1,2) unfolding ramp_example_ok h(4) by simp
qed

end
