(* ===== verification/Executor_Contract.thy ===== *)
theory Executor_Contract
  imports Ramping
begin

text \<open>
  The contract of the \<open>Executor\<close> interface of \<open>internal/engine/scenario.go\<close> as the locale
  \<open>paced\<close>: what \<open>activeVUs\<close> (the time series) relies on. It is interpreted on the three
  executors and on the closed set of them. Then the schedule of \<open>ConstantArrivalRate\<close>, and the
  inputs on which the executors' 64-bit arithmetic goes wrong.
\<close>

section \<open>The interface\<close>

text \<open>The loop of \<open>activeVUs\<close>, over each scenario's start time and executor.\<close>

fun active_sum :: "('e \<Rightarrow> duration \<Rightarrow> int option) \<Rightarrow> (duration \<times> 'e) list \<Rightarrow> duration \<Rightarrow> int \<Rightarrow> int option" where
  "active_sum active [] t n = Some n"
| "active_sum active ((start, e) # es) t n =
     (if 0 \<le> wrap64 (t - start)
      then case active e (wrap64 (t - start)) of
             None \<Rightarrow> None
           | Some a \<Rightarrow> active_sum active es t (wrap64 (n + a))
      else active_sum active es t n)"

locale paced =
  fixes ok :: "'e \<Rightarrow> bool"
    and maxVUs :: "'e \<Rightarrow> int"
    and len :: "'e \<Rightarrow> duration"
    and active :: "'e \<Rightarrow> duration \<Rightarrow> int option"
  assumes len_pos: "ok e \<Longrightarrow> 0 < len e"
    and max_pos: "ok e \<Longrightarrow> 1 \<le> maxVUs e"
    and active_range: "ok e \<Longrightarrow> 0 \<le> t \<Longrightarrow> \<exists>n. active e t = Some n \<and> 0 \<le> n \<and> n \<le> maxVUs e"
    and active_end: "ok e \<Longrightarrow> len e \<le> t \<Longrightarrow> active e t = Some 0"
begin

definition contribution :: "duration \<Rightarrow> duration \<times> 'e \<Rightarrow> int" where
  "contribution t se = (if fst se \<le> t then the (active (snd se) (t - fst se)) else 0)"

lemma contribution_range: "ok e \<Longrightarrow> 0 \<le> contribution t (start, e) \<and> contribution t (start, e) \<le> maxVUs e"
  using active_range [of e "t - start"] max_pos [of e] by (auto simp: contribution_def)

lemma contribution_end: "ok e \<Longrightarrow> start + len e \<le> t \<Longrightarrow> contribution t (start, e) = 0"
  using active_end [of e "t - start"] by (auto simp: contribution_def)

lemma sum_exact:
  assumes "\<forall>(start, e)\<in>set es. ok e \<and> 0 \<le> start \<and> start < 2 ^ 63" "0 \<le> t" "t < 2 ^ 63" "0 \<le> n"
    and "n + (\<Sum>(start, e)\<leftarrow>es. maxVUs e) < 2 ^ 63"
  shows "active_sum active es t n = Some (n + (\<Sum>se\<leftarrow>es. contribution t se)) \<and>
    0 \<le> (\<Sum>se\<leftarrow>es. contribution t se) \<and> (\<Sum>se\<leftarrow>es. contribution t se) \<le> (\<Sum>(start, e)\<leftarrow>es. maxVUs e)"
  using assms
proof (induction es arbitrary: n)
  case Nil
  then show ?case by simp
next
  case (Cons se es)
  obtain start e where se: "se = (start, e)" by (cases se)
  have e: "ok e" "0 \<le> start" "start < 2 ^ 63" using Cons.prems(1) se by auto
  define c where "c = contribution t (start, e)"
  have c: "0 \<le> c" "c \<le> maxVUs e" using contribution_range [OF e(1)] by (simp_all add: c_def)
  have rest: "0 \<le> (\<Sum>(start, e)\<leftarrow>es. maxVUs e)"
    using Cons.prems(1) max_pos by (intro sum_list_nonneg) force
  have w: "wrap64 (t - start) = t - start" using e Cons.prems(2,3) by (intro wrap64_id) (simp add: in64_def)
  have bound: "n + maxVUs e + (\<Sum>(start, e)\<leftarrow>es. maxVUs e) < 2 ^ 63" using Cons.prems(5) se by simp
  have IH: "active_sum active es t (n + c) = Some (n + c + (\<Sum>se\<leftarrow>es. contribution t se))"
    "0 \<le> (\<Sum>se\<leftarrow>es. contribution t se)" "(\<Sum>se\<leftarrow>es. contribution t se) \<le> (\<Sum>(start, e)\<leftarrow>es. maxVUs e)"
    using Cons.IH [of "n + c"] Cons.prems c bound by simp_all
  have "active_sum active (se # es) t n = active_sum active es t (n + c)"
  proof (cases "start \<le> t")
    case True
    then obtain a where a: "active e (t - start) = Some a" using active_range [OF e(1), of "t - start"] by auto
    then have "a = c" using True by (simp add: c_def contribution_def)
    moreover have "wrap64 (n + c) = n + c" using c Cons.prems(4) bound rest by (intro wrap64_nonneg_id) simp_all
    ultimately show ?thesis using True a by (simp add: se w)
  qed (simp add: se w c_def contribution_def)
  then show ?case using IH c by (simp add: se c_def)
qed

lemma sum_after_end:
  assumes "\<forall>(start, e)\<in>set es. ok e \<and> start + len e \<le> t"
  shows "(\<Sum>se\<leftarrow>es. contribution t se) = 0"
  using assms contribution_end by (induction es) auto

end

section \<open>Every executor keeps the contract\<close>

interpretation cv: paced "\<lambda>e. cv_validate e = None" cv_VUs cv_Duration cv_activeAt
  by unfold_locales (auto simp: cv_validate_def cv_activeAt_def split: if_splits)

interpretation ar: paced "\<lambda>e. ar_validate e = None" ar_PreAllocatedVUs ar_Duration ar_activeAt
  by unfold_locales (auto simp: ar_validate_def ar_activeAt_def split: if_splits)

lemma rv_active_end: "rv_ok e \<Longrightarrow> rv_Length e \<le> t \<Longrightarrow> rv_activeAt e t = Some 0"
  using rv_activeAt_range [of e t] rv_ok_facts(2) [of e] by fastforce

lemma rv_active_range: "rv_ok e \<Longrightarrow> 0 \<le> t \<Longrightarrow> \<exists>n. rv_activeAt e t = Some n \<and> 0 \<le> n \<and> n \<le> rv_MaxVUs e"
  using rv_activeAt_range [of e t] by blast

lemma rv_max_pos: "rv_ok e \<Longrightarrow> 1 \<le> rv_MaxVUs e"
  by (simp add: rv_ok_def rv_valid(5))

interpretation rv: paced rv_ok rv_MaxVUs rv_Length rv_activeAt
  by unfold_locales (simp_all add: rv_active_range rv_ok_facts(2) rv_active_end rv_max_pos)

fun executor_ok :: "executor \<Rightarrow> bool" where
  "executor_ok (RampingVUs e) \<longleftrightarrow> rv_ok e"
| "executor_ok e \<longleftrightarrow> validate e = None"

interpretation ex: paced executor_ok MaxVUs Length activeAt
proof
  fix e :: executor and t :: duration
  show "executor_ok e \<Longrightarrow> 0 < Length e" by (cases e) (simp_all add: cv.len_pos rv.len_pos ar.len_pos)
  show "executor_ok e \<Longrightarrow> 1 \<le> MaxVUs e" by (cases e) (simp_all add: cv.max_pos rv.max_pos ar.max_pos)
  show "executor_ok e \<Longrightarrow> 0 \<le> t \<Longrightarrow> \<exists>n. activeAt e t = Some n \<and> 0 \<le> n \<and> n \<le> MaxVUs e"
    by (cases e) (simp_all add: cv.active_range rv.active_range ar.active_range)
  show "executor_ok e \<Longrightarrow> Length e \<le> t \<Longrightarrow> activeAt e t = Some 0"
    by (cases e) (simp_all add: cv.active_end rv.active_end ar.active_end)
qed

section \<open>The arrival schedule\<close>

text \<open>How many iterations a \<open>ConstantArrivalRate\<close> scenario starts: \<open>Rate\<close> per \<open>TimeUnit\<close> for
  \<open>Duration\<close>, the last, partial interval rounded up.\<close>

definition due_starts :: "arrival_rate \<Rightarrow> int" where
  "due_starts e = (ar_Duration e * ar_Rate e + ar_TimeUnit e - 1) div ar_TimeUnit e"

definition schedule_ok :: "arrival_rate \<Rightarrow> bool" where
  "schedule_ok e \<longleftrightarrow> ar_validate e = None \<and> ar_Duration e * ar_Rate e + ar_TimeUnit e < 2 ^ 63"

lemma ar_valid:
  "ar_validate e = None \<longleftrightarrow> 1 \<le> ar_Rate e \<and> 0 < ar_TimeUnit e \<and> 0 < ar_Duration e \<and> 1 \<le> ar_PreAllocatedVUs e"
  by (auto simp: ar_validate_def split: if_splits)

lemma due_starts_iff: "0 < ar_TimeUnit e \<Longrightarrow> k < due_starts e \<longleftrightarrow> k * ar_TimeUnit e < ar_Duration e * ar_Rate e"
  using le_div_iff_int [of "ar_TimeUnit e" "k + 1" "ar_Duration e * ar_Rate e + ar_TimeUnit e - 1"]
  by (simp add: due_starts_def add1_zle_eq distrib_right)

lemma due_starts_pos: "ar_validate e = None \<Longrightarrow> 0 < due_starts e"
  using due_starts_iff [of e 0] by (simp add: ar_valid)

lemma offset_div:
  assumes "ar_validate e = None" "0 \<le> k" "k * ar_TimeUnit e < 2 ^ 63"
  shows "offset e k = k * ar_TimeUnit e div ar_Rate e"
proof -
  have "0 \<le> k * ar_TimeUnit e" using assms by (simp add: ar_valid)
  then show ?thesis using assms by (simp add: offset_def mul64_def wrap64_nonneg_id go_div_nonneg ar_valid)
qed

lemma offset_due:
  assumes "ar_validate e = None" "0 \<le> k" "k * ar_TimeUnit e < 2 ^ 63"
  shows "offset e k < ar_Duration e \<longleftrightarrow> k < due_starts e"
proof -
  have "ar_Duration e \<le> k * ar_TimeUnit e div ar_Rate e \<longleftrightarrow> ar_Duration e * ar_Rate e \<le> k * ar_TimeUnit e"
    using assms(1) by (intro le_div_iff_int) (simp add: ar_valid)
  then show ?thesis unfolding offset_div [OF assms]
    using due_starts_iff [of e k] assms(1) by (simp add: ar_valid) linarith
qed

lemma schedule_bound:
  assumes "schedule_ok e" "k \<le> due_starts e"
  shows "k * ar_TimeUnit e < 2 ^ 63"
proof (cases "0 \<le> k - 1")
  case True
  have "k - 1 < due_starts e" using assms(2) by simp
  then have "(k - 1) * ar_TimeUnit e < ar_Duration e * ar_Rate e"
    using due_starts_iff [of e "k - 1"] assms(1) by (simp add: schedule_ok_def ar_valid)
  then show ?thesis using assms(1) by (simp add: schedule_ok_def left_diff_distrib)
next
  case False
  then have "k * ar_TimeUnit e \<le> 0" using assms(1) by (simp add: schedule_ok_def ar_valid mult_nonpos_nonneg)
  also have "\<dots> < 2 ^ 63" by simp
  finally show ?thesis .
qed

text \<open>C10: The arrival schedule does not drift. While \<open>k * TimeUnit\<close> fits in 64 bits for every start of
  the scenario, start \<open>k\<close> is due at the exact floor of \<open>k * TimeUnit / Rate\<close>, in particular
  every \<open>Rate\<close> starts take exactly one \<open>TimeUnit\<close>; the offsets are ordered; and the loop ends
  after exactly the ceiling of \<open>Duration * Rate / TimeUnit\<close> starts.\<close>

theorem offset_exact:
  assumes "schedule_ok e" "0 \<le> k" "k \<le> due_starts e"
  shows "offset e k = k * ar_TimeUnit e div ar_Rate e \<and>
    (offset e k < ar_Duration e \<longleftrightarrow> k < due_starts e) \<and>
    (\<forall>j. 0 \<le> j \<and> j \<le> k \<longrightarrow> offset e j \<le> offset e k) \<and>
    (\<forall>m. k = m * ar_Rate e \<longrightarrow> offset e k = m * ar_TimeUnit e)"
proof -
  have v: "ar_validate e = None" using assms(1) by (simp add: schedule_ok_def)
  have kb: "j * ar_TimeUnit e < 2 ^ 63" if "j \<le> k" for j using schedule_bound [OF assms(1)] that assms(3) by simp
  note off = offset_div [OF v _ kb]
  have "offset e j \<le> offset e k" if "0 \<le> j" "j \<le> k" for j
    using off that v assms(2) by (simp add: ar_valid zdiv_mono1)
  moreover have "offset e k = m * ar_TimeUnit e" if "k = m * ar_Rate e" for m
  proof -
    have "k * ar_TimeUnit e = m * ar_TimeUnit e * ar_Rate e" using that by simp
    then show ?thesis using off [OF assms(2) order_refl] v by (simp add: ar_valid)
  qed
  ultimately show ?thesis using off assms(2) offset_due [OF v assms(2) kb] by simp
qed

definition arrival_example :: arrival_rate where
  "arrival_example = \<lparr>ar_Rate = 7, ar_TimeUnit = 10 * second, ar_Duration = 5 * second, ar_PreAllocatedVUs = 2\<rparr>"

lemma arrival_example_ok: "schedule_ok arrival_example" "due_starts arrival_example = 4"
  by (simp_all add: schedule_ok_def ar_valid due_starts_def arrival_example_def second_def)

theorem offset_exact_witness:
  "offset arrival_example 3 = 3 * (10 * second) div 7 \<and> offset arrival_example 3 < 5 * second \<and>
   \<not> offset arrival_example 4 < 5 * second"
  using offset_exact [OF arrival_example_ok(1), of 3] offset_exact [OF arrival_example_ok(1), of 4]
  by (simp add: arrival_example_ok(2)) (simp add: arrival_example_def)

section \<open>Where 64 bits are not enough\<close>

text \<open>\<open>k * TimeUnit\<close> wraps around: a valid scenario of 10^6 starts an hour has a start that is due
  before the scenario began, after two and a half hours of a four-hour run.\<close>

lemma offset_overflow:
  "ar_validate \<lparr>ar_Rate = 1000000, ar_TimeUnit = hour, ar_Duration = 4 * hour, ar_PreAllocatedVUs = 1\<rparr> = None \<and>
   offset \<lparr>ar_Rate = 1000000, ar_TimeUnit = hour, ar_Duration = 4 * hour, ar_PreAllocatedVUs = 1\<rparr> 2562048 < 0"
  by (simp add: ar_valid hour_def offset_def mul64_def wrap64_def go_div_neg)

text \<open>A stage shorter than a microsecond has zero length in the units of \<open>activeAt\<close>, and sampling
  inside it divides by zero.\<close>

lemma short_stage_panics:
  "rv_validate \<lparr>rv_StartVUs = 1, rv_Stages = [\<lparr>st_Duration = 500, st_Target = 1\<rparr>], rv_GracefulRampDown = 0\<rparr> = None \<and>
   rv_activeAt \<lparr>rv_StartVUs = 1, rv_Stages = [\<lparr>st_Duration = 500, st_Target = 1\<rparr>], rv_GracefulRampDown = 0\<rparr> 0 = None"
  by code_simp

text \<open>The sum of the durations wraps around, so stages of 292 years each pass the check against
  1000 hours.\<close>

lemma length_wraps:
  "rv_validate \<lparr>rv_StartVUs = 1, rv_Stages = [\<lparr>st_Duration = max_int64, st_Target = 1\<rparr>,
      \<lparr>st_Duration = max_int64, st_Target = 1\<rparr>, \<lparr>st_Duration = 3, st_Target = 1\<rparr>], rv_GracefulRampDown = 0\<rparr> = None \<and>
   rv_Length \<lparr>rv_StartVUs = 1, rv_Stages = [\<lparr>st_Duration = max_int64, st_Target = 1\<rparr>,
      \<lparr>st_Duration = max_int64, st_Target = 1\<rparr>, \<lparr>st_Duration = 3, st_Target = 1\<rparr>], rv_GracefulRampDown = 0\<rparr> = 1"
  by code_simp

end
