(* ===== verification/Arrival.thy ===== *)
theory Arrival
  imports Executor_Contract
begin

text \<open>
  \<open>ConstantArrivalRate.drive\<close> (\<open>internal/engine/executors.go\<close>): the scheduler goroutine, the VU
  goroutines, the unbuffered channel \<open>starts\<close> and the buffered channel of tokens \<open>idle\<close>, as a
  step relation. A step is one communication, one guard or one return; a \<open>select\<close> with several
  ready cases may take any of them. The context and the clock are the environment's.
\<close>

section \<open>The machine\<close>

datatype sched =
    SWait
  | SLoop int
  | SSleep int
  | STake int
  | SHand int
  | SDone

datatype vu =
    VRecv
  | VIter
  | VReturn
  | VGone

text \<open>\<open>a_idle\<close> is the number of tokens in the channel \<open>idle\<close> (its capacity is the number of VUs),
  \<open>SDone\<close> has closed \<open>starts\<close>. \<open>a_started\<close> counts the starts handed over; the code keeps only
  \<open>dropped\<close>.\<close>

record arrival =
  a_now :: duration
  a_done :: bool
  a_idle :: nat
  a_sched :: sched
  a_vus :: "vu list"
  a_dropped :: int
  a_started :: int

definition drive_init :: "nat \<Rightarrow> duration \<Rightarrow> arrival" where
  "drive_init n now = \<lparr>a_now = now, a_done = False, a_idle = n, a_sched = SWait, a_vus = replicate n VRecv,
     a_dropped = 0, a_started = 0\<rparr>"

text \<open>What the scheduler goroutine does next when it does not hand a start over; times are offsets
  from the scenario's start.\<close>

inductive sched_step :: "arrival_rate \<Rightarrow> arrival \<Rightarrow> arrival \<Rightarrow> bool" for e where
  begin_ok: "a_sched s = SWait \<Longrightarrow> 0 \<le> a_now s \<Longrightarrow> \<not> a_done s \<Longrightarrow> sched_step e s (s\<lparr>a_sched := SLoop 0\<rparr>)"
| begin_cancelled: "a_sched s = SWait \<Longrightarrow> a_done s \<Longrightarrow> sched_step e s (s\<lparr>a_sched := SDone\<rparr>)"
| loop_end: "a_sched s = SLoop k \<Longrightarrow> \<not> offset e k < ar_Duration e \<Longrightarrow> sched_step e s (s\<lparr>a_sched := SDone\<rparr>)"
| loop_due: "a_sched s = SLoop k \<Longrightarrow> offset e k < ar_Duration e \<Longrightarrow> offset e k \<le> a_now s \<Longrightarrow>
    sched_step e s (s\<lparr>a_sched := STake k\<rparr>)"
| loop_sleep: "a_sched s = SLoop k \<Longrightarrow> offset e k < ar_Duration e \<Longrightarrow> a_now s < offset e k \<Longrightarrow>
    sched_step e s (s\<lparr>a_sched := SSleep k\<rparr>)"
| timer: "a_sched s = SSleep k \<Longrightarrow> offset e k \<le> a_now s \<Longrightarrow> sched_step e s (s\<lparr>a_sched := STake k\<rparr>)"
| sleep_cancelled: "a_sched s = SSleep k \<Longrightarrow> a_done s \<Longrightarrow> sched_step e s (s\<lparr>a_sched := SDone\<rparr>)"
| take: "a_sched s = STake k \<Longrightarrow> 0 < a_idle s \<Longrightarrow>
    sched_step e s (s\<lparr>a_sched := SHand k, a_idle := a_idle s - 1\<rparr>)"
| drop: "a_sched s = STake k \<Longrightarrow> a_idle s = 0 \<Longrightarrow>
    sched_step e s (s\<lparr>a_sched := SLoop (k + 1), a_dropped := a_dropped s + 1\<rparr>)"
| hand_cancelled: "a_sched s = SHand k \<Longrightarrow> a_done s \<Longrightarrow> sched_step e s (s\<lparr>a_sched := SDone\<rparr>)"

inductive vu_step :: "arrival \<Rightarrow> nat \<Rightarrow> arrival \<Rightarrow> bool" where
  receive: "i < length (a_vus s) \<Longrightarrow> a_vus s ! i = VRecv \<Longrightarrow> a_sched s = SHand k \<Longrightarrow>
    vu_step s i (s\<lparr>a_vus := (a_vus s)[i := VIter], a_sched := SLoop (k + 1), a_started := a_started s + 1\<rparr>)"
| closed: "i < length (a_vus s) \<Longrightarrow> a_vus s ! i = VRecv \<Longrightarrow> a_sched s = SDone \<Longrightarrow>
    vu_step s i (s\<lparr>a_vus := (a_vus s)[i := VGone]\<rparr>)"
| cancelled: "i < length (a_vus s) \<Longrightarrow> a_vus s ! i = VRecv \<Longrightarrow> a_done s \<Longrightarrow>
    vu_step s i (s\<lparr>a_vus := (a_vus s)[i := VGone]\<rparr>)"
| iterated: "i < length (a_vus s) \<Longrightarrow> a_vus s ! i = VIter \<Longrightarrow>
    vu_step s i (s\<lparr>a_vus := (a_vus s)[i := VReturn]\<rparr>)"
| token_back: "i < length (a_vus s) \<Longrightarrow> a_vus s ! i = VReturn \<Longrightarrow> a_idle s < length (a_vus s) \<Longrightarrow>
    vu_step s i (s\<lparr>a_vus := (a_vus s)[i := VRecv], a_idle := a_idle s + 1\<rparr>)"

definition prog_step :: "arrival_rate \<Rightarrow> arrival \<Rightarrow> arrival \<Rightarrow> bool" where
  "prog_step e s s' \<longleftrightarrow> sched_step e s s' \<or> (\<exists>i. vu_step s i s')"

inductive env_step :: "arrival \<Rightarrow> arrival \<Rightarrow> bool" where
  clock: "a_now s \<le> t \<Longrightarrow> env_step s (s\<lparr>a_now := t\<rparr>)"
| cancel: "env_step s (s\<lparr>a_done := True\<rparr>)"

inductive drive_reach :: "arrival_rate \<Rightarrow> nat \<Rightarrow> arrival \<Rightarrow> bool" for e n where
  init: "drive_reach e n (drive_init n now)"
| prog: "drive_reach e n s \<Longrightarrow> prog_step e s s' \<Longrightarrow> drive_reach e n s'"
| env: "drive_reach e n s \<Longrightarrow> env_step s s' \<Longrightarrow> drive_reach e n s'"

inductive_cases sched_stepE: "sched_step e s s'"
inductive_cases vu_stepE: "vu_step s i s'"
inductive_cases env_stepE: "env_step s s'"

section \<open>The tokens\<close>

definition weight :: "('v \<Rightarrow> nat) \<Rightarrow> 'v list \<Rightarrow> nat" where
  "weight w vs = sum_list (map w vs)"

lemma weight_update: "i < length vs \<Longrightarrow> weight w (vs[i := v]) + w (vs ! i) = weight w vs + w v"
  unfolding weight_def by (induction vs arbitrary: i) (auto simp: nth_Cons split: nat.splits)

lemma weight_replicate [simp]: "weight w (replicate n v) = n * w v"
  by (simp add: weight_def sum_list_replicate)

lemma weight_elem: "i < length vs \<Longrightarrow> w (vs ! i) \<le> weight w vs"
  using weight_update [of i vs w "vs ! i"] elem_le_sum_list [of i "map w vs"] by (simp add: weight_def)

text \<open>A VU is busy from receiving a start until it has returned its token.\<close>

fun busy1 :: "vu \<Rightarrow> nat" where
  "busy1 VIter = 1"
| "busy1 VReturn = 1"
| "busy1 VRecv = 0"
| "busy1 VGone = 0"

definition busy :: "arrival \<Rightarrow> nat" where
  "busy s = weight busy1 (a_vus s)"

lemma busy1_le: "busy1 v \<le> 1"
  by (cases v) simp_all

lemma busy_le: "weight busy1 vs \<le> length vs"
proof (induction vs)
  case (Cons v vs)
  then show ?case using busy1_le [of v] by (simp add: weight_def)
qed (simp add: weight_def)

lemma busy_all: "weight busy1 vs = length vs \<Longrightarrow> i < length vs \<Longrightarrow> busy1 (vs ! i) = 1"
proof (induction vs arbitrary: i)
  case (Cons v vs)
  then have "busy1 v + weight busy1 vs = Suc (length vs)" by (simp add: weight_def)
  then have "busy1 v = 1 \<and> weight busy1 vs = length vs" using busy1_le [of v] busy_le [of vs] by linarith
  then show ?case using Cons.IH Cons.prems(2) by (cases i) simp_all
qed simp

lemma some_free: "weight busy1 vs < length vs \<Longrightarrow> \<exists>i < length vs. busy1 (vs ! i) = 0"
proof (induction vs)
  case (Cons v vs)
  show ?case
  proof (cases "busy1 v = 0")
    case True
    then show ?thesis by (intro exI [of _ 0]) simp
  next
    case False
    then have "weight busy1 vs < length vs" using Cons.prems by (simp add: weight_def)
    then obtain i where "i < length vs" "busy1 (vs ! i) = 0" using Cons.IH by blast
    then show ?thesis by (intro exI [of _ "Suc i"]) simp
  qed
qed simp

fun in_hand :: "sched \<Rightarrow> nat" where
  "in_hand (SHand k) = 1"
| "in_hand _ = 0"

fun at_start :: "arrival_rate \<Rightarrow> arrival \<Rightarrow> sched \<Rightarrow> bool" where
  "at_start e s SWait \<longleftrightarrow> a_started s + a_dropped s = 0"
| "at_start e s (SLoop k) \<longleftrightarrow> a_started s + a_dropped s = k \<and> k \<le> due_starts e"
| "at_start e s (SSleep k) \<longleftrightarrow> a_started s + a_dropped s = k \<and> k < due_starts e"
| "at_start e s (STake k) \<longleftrightarrow> a_started s + a_dropped s = k \<and> k < due_starts e \<and> offset e k \<le> a_now s"
| "at_start e s (SHand k) \<longleftrightarrow> a_started s + a_dropped s = k \<and> k < due_starts e \<and> offset e k \<le> a_now s"
| "at_start e s SDone \<longleftrightarrow> a_started s + a_dropped s \<le> due_starts e \<and>
     (\<not> a_done s \<longrightarrow> a_started s + a_dropped s = due_starts e)"

definition arr_inv :: "arrival_rate \<Rightarrow> nat \<Rightarrow> arrival \<Rightarrow> bool" where
  "arr_inv e n s \<longleftrightarrow> length (a_vus s) = n \<and> 0 \<le> a_started s \<and> 0 \<le> a_dropped s \<and>
     at_start e s (a_sched s) \<and>
     (a_idle s + busy s + in_hand (a_sched s) = n \<or>
      a_sched s = SDone \<and> a_done s \<and> a_idle s + busy s + 1 = n) \<and>
     (VGone \<in> set (a_vus s) \<longrightarrow> a_done s \<or> a_sched s = SDone)"

lemma arr_inv_init: "schedule_ok e \<Longrightarrow> arr_inv e n (drive_init n now)"
  by (simp add: arr_inv_def drive_init_def busy_def)

lemma offset_due_ok: "schedule_ok e \<Longrightarrow> 0 \<le> k \<Longrightarrow> k \<le> due_starts e \<Longrightarrow> offset e k < ar_Duration e \<longleftrightarrow> k < due_starts e"
  using offset_due [of e k] schedule_bound [of e k] by (simp add: schedule_ok_def)

lemma arr_inv_sched:
  assumes "schedule_ok e" "arr_inv e n s" "sched_step e s s'"
  shows "arr_inv e n s'"
proof -
  have due: "offset e k < ar_Duration e \<longleftrightarrow> k < due_starts e" if "a_started s + a_dropped s = k" "k \<le> due_starts e" for k
    using that assms(2) offset_due_ok [OF assms(1), of k] by (simp add: arr_inv_def)
  have pos: "0 \<le> due_starts e" using due_starts_pos assms(1) by (simp add: schedule_ok_def order_less_imp_le)
  show ?thesis using assms(3) assms(2) due pos
    by cases (auto simp: arr_inv_def busy_def)
qed

lemma arr_inv_vu:
  assumes "arr_inv e n s" "vu_step s i s'"
  shows "arr_inv e n s'"
  using assms(2)
proof cases
  case (receive k)
  then show ?thesis using assms(1) weight_update [of i "a_vus s" busy1 VIter]
    by (auto simp: arr_inv_def busy_def dest!: set_update_subset_insert [THEN subsetD])
next
  case closed
  then show ?thesis using assms(1) weight_update [of i "a_vus s" busy1 VGone]
    by (auto simp: arr_inv_def busy_def)
next
  case cancelled
  then show ?thesis using assms(1) weight_update [of i "a_vus s" busy1 VGone]
    by (cases "a_sched s") (auto simp: arr_inv_def busy_def)
next
  case iterated
  then show ?thesis using assms(1) weight_update [of i "a_vus s" busy1 VReturn]
    by (cases "a_sched s") (auto simp: arr_inv_def busy_def dest!: set_update_subset_insert [THEN subsetD])
next
  case token_back
  then show ?thesis using assms(1) weight_update [of i "a_vus s" busy1 VRecv]
    by (cases "a_sched s") (auto simp: arr_inv_def busy_def dest!: set_update_subset_insert [THEN subsetD])
qed

lemma arr_inv_env: "arr_inv e n s \<Longrightarrow> env_step s s' \<Longrightarrow> arr_inv e n s'"
  by (erule env_stepE; cases "a_sched s") (auto simp: arr_inv_def busy_def)

lemma arr_inv_reach: "schedule_ok e \<Longrightarrow> drive_reach e n s \<Longrightarrow> arr_inv e n s"
  by (rotate_tac, induction rule: drive_reach.induct)
    (auto simp: prog_step_def intro: arr_inv_init arr_inv_sched arr_inv_vu arr_inv_env)

section \<open>No start is lost, no goroutine waits in vain\<close>

lemma free_receives:
  assumes "arr_inv e n s" "a_sched s = SHand k" "\<not> a_done s"
  shows "\<exists>i<n. a_vus s ! i = VRecv"
proof -
  have "weight busy1 (a_vus s) < length (a_vus s)" using assms by (auto simp: arr_inv_def busy_def)
  then obtain i where i: "i < length (a_vus s)" "busy1 (a_vus s ! i) = 0" using some_free by blast
  have "VGone \<notin> set (a_vus s)" using assms by (auto simp: arr_inv_def)
  then have "a_vus s ! i \<noteq> VGone" using i(1) nth_mem by metis
  then have "a_vus s ! i = VRecv" using i(2) by (cases "a_vus s ! i") simp_all
  then show ?thesis using i(1) assms(1) by (auto simp: arr_inv_def)
qed

lemma token_room:
  assumes "arr_inv e n s" "i < n" "a_vus s ! i = VReturn"
  shows "a_idle s < n"
proof -
  have "1 \<le> busy s" using assms weight_elem [of i "a_vus s" busy1] by (simp add: arr_inv_def busy_def)
  then show ?thesis using assms(1) by (auto simp: arr_inv_def)
qed

lemma drop_all_busy:
  assumes "arr_inv e n s" "a_sched s = STake k" "a_idle s = 0" "i < n"
  shows "a_vus s ! i = VIter \<or> a_vus s ! i = VReturn"
proof -
  have "weight busy1 (a_vus s) = length (a_vus s)" using assms(1-3) by (simp add: arr_inv_def busy_def)
  then have "busy1 (a_vus s ! i) = 1" using busy_all assms(1,4) by (simp add: arr_inv_def)
  then show ?thesis by (cases "a_vus s ! i") simp_all
qed

definition finished :: "arrival \<Rightarrow> bool" where
  "finished s \<longleftrightarrow> a_sched s = SDone \<and> (\<forall>v\<in>set (a_vus s). v = VGone)"

definition clock_wait :: "arrival_rate \<Rightarrow> arrival \<Rightarrow> bool" where
  "clock_wait e s \<longleftrightarrow> \<not> a_done s \<and>
     (a_sched s = SWait \<and> a_now s < 0 \<or> (\<exists>k. a_sched s = SSleep k \<and> a_now s < offset e k))"

lemma vu_can_step:
  assumes "arr_inv e n s" "a_sched s = SDone" "i < n" "a_vus s ! i \<noteq> VGone"
  shows "\<exists>s'. prog_step e s s'"
proof -
  have "i < length (a_vus s)" using assms by (simp add: arr_inv_def)
  moreover have "a_vus s ! i = VReturn \<Longrightarrow> a_idle s < length (a_vus s)"
    using token_room [OF assms(1,3)] assms(1) by (simp add: arr_inv_def)
  ultimately show ?thesis using assms(2,4) unfolding prog_step_def
    by (cases "a_vus s ! i") (blast intro: vu_step.intros)+
qed

lemma drive_progress:
  assumes inv: "arr_inv e n s" and stuck: "\<And>s'. \<not> prog_step e s s'"
  shows "finished s \<or> clock_wait e s"
proof -
  have no: "\<not> sched_step e s s'" "\<not> vu_step s i s'" for s' i using stuck by (auto simp: prog_step_def)
  show ?thesis
  proof (cases "a_sched s")
    case SWait
    then have "\<not> a_done s" "a_now s < 0" using no(1) begin_cancelled [of s e] begin_ok [of s e] by (blast, force)
    then show ?thesis using SWait by (simp add: clock_wait_def)
  next
    case (SLoop k)
    then show ?thesis using no(1) loop_end loop_due loop_sleep by (metis not_le)
  next
    case (SSleep k)
    then have "\<not> a_done s" "a_now s < offset e k"
      using no(1) sleep_cancelled [of s k e] timer [of s k e] by (blast, force)
    then show ?thesis using SSleep by (simp add: clock_wait_def)
  next
    case (STake k)
    then show ?thesis using no(1) take drop by (metis gr0I)
  next
    case (SHand k)
    then have nd: "\<not> a_done s" using no(1) hand_cancelled by blast
    then obtain i where "i < n" "a_vus s ! i = VRecv" using free_receives [OF inv SHand] by blast
    then have "\<exists>s'. vu_step s i s'" using receive SHand inv by (auto simp: arr_inv_def)
    then show ?thesis using no(2) by blast
  next
    case SDone
    have "v = VGone" if "v \<in> set (a_vus s)" for v
      using that vu_can_step [OF inv SDone] stuck inv by (auto simp: in_set_conv_nth arr_inv_def)
    then show ?thesis using SDone by (auto simp: finished_def)
  qed
qed

fun vu_rank :: "vu \<Rightarrow> nat" where
  "vu_rank VIter = 3"
| "vu_rank VReturn = 2"
| "vu_rank VRecv = 1"
| "vu_rank VGone = 0"

fun sched_rank :: "int \<Rightarrow> sched \<Rightarrow> nat" where
  "sched_rank m SWait = 6 * nat m + 8"
| "sched_rank m (SLoop k) = 6 * nat (m - k) + 7"
| "sched_rank m (SSleep k) = 6 * nat (m - k) + 6"
| "sched_rank m (STake k) = 6 * nat (m - k) + 5"
| "sched_rank m (SHand k) = 6 * nat (m - k) + 4"
| "sched_rank m SDone = 0"

definition drive_rank :: "arrival_rate \<Rightarrow> arrival \<Rightarrow> nat" where
  "drive_rank e s = sched_rank (due_starts e) (a_sched s) + weight vu_rank (a_vus s)"

lemma sched_rank_next: "k < m \<Longrightarrow> sched_rank m (SLoop (k + 1)) + 2 < sched_rank m (SHand k)"
  by simp

lemma drive_rank_decreases:
  assumes "arr_inv e n s" "prog_step e s s'"
  shows "drive_rank e s' < drive_rank e s"
proof -
  have hand: "k < due_starts e" if "a_sched s = SHand k \<or> a_sched s = STake k" for k
    using assms(1) that by (auto simp: arr_inv_def)
  have nx: "sched_rank (due_starts e) (SLoop (k + 1)) + 2 < sched_rank (due_starts e) (SHand k)"
    if "a_sched s = SHand k \<or> a_sched s = STake k" for k
    using sched_rank_next [OF hand [OF that]] .
  from assms(2) consider "sched_step e s s'" | i where "vu_step s i s'" by (auto simp: prog_step_def)
  then show ?thesis
  proof cases
    case 1
    show ?thesis using 1
    proof cases
      case (drop k)
      then show ?thesis using nx [of k] by (simp add: drive_rank_def)
    qed (simp_all add: drive_rank_def)
  next
    case (2 i)
    then show ?thesis
    proof cases
      case (receive k)
      then show ?thesis using nx [of k] weight_update [of i "a_vus s" vu_rank VIter] by (simp add: drive_rank_def)
    next
      case closed
      then show ?thesis using weight_update [of i "a_vus s" vu_rank VGone] by (simp add: drive_rank_def)
    next
      case cancelled
      then show ?thesis using weight_update [of i "a_vus s" vu_rank VGone] by (simp add: drive_rank_def)
    next
      case iterated
      then show ?thesis using weight_update [of i "a_vus s" vu_rank VReturn] by (simp add: drive_rank_def)
    next
      case token_back
      then show ?thesis using weight_update [of i "a_vus s" vu_rank VRecv] by (simp add: drive_rank_def)
    qed
  qed
qed

section \<open>What the arrival executor promises\<close>

text \<open>C11: In every reachable state of a constant-arrival-rate scenario: the tokens in the channel, in
  the scheduler's hand and with busy VUs are the VUs, so returning a token never blocks; a
  start is dropped only when every VU is in an iteration or returning its token; a start that
  has a token is handed over at once, some VU being at the receive, unless the context has
  ended; no start goes out before it is due; and no start is lost: when the scheduler has run
  to its end with the context live, started plus dropped is exactly the number of starts due.\<close>

theorem arrival_accounting:
  assumes "schedule_ok e" "drive_reach e n s"
  shows "(a_idle s + busy s + in_hand (a_sched s) = n \<or> a_sched s = SDone \<and> a_done s) \<and>
    (\<forall>i<n. a_vus s ! i = VReturn \<longrightarrow> a_idle s < n) \<and>
    (\<forall>s'. sched_step e s s' \<and> a_dropped s' \<noteq> a_dropped s \<longrightarrow>
       (\<forall>i<n. a_vus s ! i = VIter \<or> a_vus s ! i = VReturn)) \<and>
    (\<forall>k. a_sched s = SHand k \<longrightarrow> offset e k \<le> a_now s \<and> (a_done s \<or> (\<exists>i<n. a_vus s ! i = VRecv))) \<and>
    0 \<le> a_started s \<and> 0 \<le> a_dropped s \<and> a_started s + a_dropped s \<le> due_starts e \<and>
    (a_sched s = SDone \<and> \<not> a_done s \<longrightarrow> a_started s + a_dropped s = due_starts e)"
proof -
  have inv: "arr_inv e n s" using assms by (rule arr_inv_reach)
  have drop: "a_vus s ! i = VIter \<or> a_vus s ! i = VReturn"
    if "sched_step e s s'" "a_dropped s' \<noteq> a_dropped s" "i < n" for s' i
    using that(1) by (cases) (use that drop_all_busy [OF inv] in simp_all)
  have hand: "offset e k \<le> a_now s \<and> (a_done s \<or> (\<exists>i<n. a_vus s ! i = VRecv))" if "a_sched s = SHand k" for k
    using free_receives [OF inv that] inv that by (auto simp: arr_inv_def)
  have due: "0 \<le> due_starts e" using due_starts_pos [of e] assms(1) by (simp add: schedule_ok_def)
  have acc: "a_started s + a_dropped s \<le> due_starts e" using inv due by (cases "a_sched s") (auto simp: arr_inv_def)
  show ?thesis using inv token_room [OF inv] drop hand acc by (auto simp: arr_inv_def)
qed

lemma two_starts:
  "\<exists>s. drive_reach arrival_example 1 s \<and> a_sched s = STake 1 \<and> a_idle s = 0 \<and> a_started s = 1"
proof -
  have o: "offset arrival_example 0 = 0" "offset arrival_example 1 < ar_Duration arrival_example"
    "0 < ar_Duration arrival_example" "offset arrival_example 1 \<le> 2 * second" by code_simp+
  let ?s0 = "drive_init 1 (2 * second)"
  let ?s1 = "?s0\<lparr>a_sched := SLoop 0\<rparr>" let ?s2 = "?s1\<lparr>a_sched := STake 0\<rparr>"
  let ?s3 = "?s2\<lparr>a_sched := SHand 0, a_idle := a_idle ?s2 - 1\<rparr>"
  let ?s4 = "?s3\<lparr>a_vus := (a_vus ?s3)[0 := VIter], a_sched := SLoop (0 + 1), a_started := a_started ?s3 + 1\<rparr>"
  let ?s5 = "?s4\<lparr>a_sched := STake (0 + 1)\<rparr>"
  have "drive_reach arrival_example 1 ?s0" by (rule drive_reach.init)
  moreover have "sched_step arrival_example ?s0 ?s1" by (rule begin_ok) (simp_all add: drive_init_def second_def)
  moreover have "sched_step arrival_example ?s1 ?s2"
    using o by (intro loop_due) (simp_all add: drive_init_def second_def)
  moreover have "sched_step arrival_example ?s2 ?s3" by (rule take) (simp_all add: drive_init_def)
  moreover have "vu_step ?s3 0 ?s4" by (rule receive) (simp_all add: drive_init_def)
  moreover have "sched_step arrival_example ?s4 ?s5" using o by (intro loop_due) (simp_all add: drive_init_def)
  ultimately have "drive_reach arrival_example 1 ?s5" unfolding prog_step_def by (meson drive_reach.prog prog_step_def)
  then show ?thesis by (intro exI [of _ ?s5]) (simp add: drive_init_def)
qed

theorem arrival_accounting_witness:
  "\<exists>s. a_started s = 1 \<and> a_vus s ! 0 \<noteq> VRecv \<and> a_started s + a_dropped s \<le> 4 \<and> drive_reach arrival_example 1 s"
proof -
  obtain s where s: "drive_reach arrival_example 1 s" "a_sched s = STake 1" "a_idle s = 0" "a_started s = 1"
    using two_starts by blast
  have "sched_step arrival_example s (s\<lparr>a_sched := SLoop (1 + 1), a_dropped := a_dropped s + 1\<rparr>)"
    using s by (intro drop)
  then have "a_vus s ! 0 = VIter \<or> a_vus s ! 0 = VReturn" "a_started s + a_dropped s \<le> due_starts arrival_example"
    using arrival_accounting [OF arrival_example_ok(1) s(1)] by fastforce+
  then show ?thesis using s by (intro exI [of _ s]) (auto simp: arrival_example_ok(2))
qed

text \<open>C12: The goroutines of a constant-arrival-rate scenario all return. Every step of the scheduler or
  of a VU decreases a rank, so only finitely many lie between two events of the environment;
  and a reachable state in which none of them can step is one in which the scheduler has
  closed the channel and every VU has returned, or, with the context live, the scheduler
  waits for the clock: after the context has ended nothing hangs.\<close>

theorem arrival_terminates:
  assumes "schedule_ok e" "drive_reach e n s"
  shows "(\<forall>s'. prog_step e s s' \<longrightarrow> drive_rank e s' < drive_rank e s) \<and>
    ((\<forall>s'. \<not> prog_step e s s') \<longrightarrow> finished s \<or> clock_wait e s) \<and>
    (a_done s \<and> (\<forall>s'. \<not> prog_step e s s') \<longrightarrow> finished s)"
proof -
  have inv: "arr_inv e n s" using assms by (rule arr_inv_reach)
  show ?thesis using drive_rank_decreases [OF inv] drive_progress [OF inv] by (auto simp: clock_wait_def)
qed

theorem arrival_terminates_witness:
  "finished (drive_init 1 0\<lparr>a_done := True\<rparr>) \<or> (\<exists>s'. prog_step arrival_example (drive_init 1 0\<lparr>a_done := True\<rparr>) s')"
  using arrival_terminates [OF arrival_example_ok(1) drive_reach.env [OF drive_reach.init env_step.cancel], of 1 0]
  by auto

end
