(* ===== verification/Histogram.thy ===== *)
theory Histogram
  imports Go_Float
begin

text \<open>
  \<open>internal/metrics/histogram.go\<close>: the log-linear buckets, the latency histogram with its
  counters, the merged view \<open>combined\<close> and the nearest-rank percentile. Counters are
  \<open>uint64\<close> words; \<open>tally\<close> relates a histogram (or a merged view) to the list of samples
  it stands for, and every operation is shown to act on that list.
\<close>

section \<open>Buckets\<close>

definition subBits :: int where "subBits = 6"
definition subBuckets :: int where "subBuckets = 2 ^ nat subBits"
definition linear :: int where "linear = 2 * subBuckets"
definition maxTracked :: int where "maxTracked = hour"

definition bucketIndex :: "int \<Rightarrow> int" where
  "bucketIndex v =
     (if v < linear then v
      else let shift = int (bit_len (nat v)) - (subBits + 1);
               top = v div 2 ^ nat shift
           in linear + (shift - 1) * subBuckets + (top - subBuckets))"

definition numBuckets :: int where
  "numBuckets = bucketIndex maxTracked + 1"

definition bucketMid :: "int \<Rightarrow> int" where
  "bucketMid i =
     (if i < linear then i
      else let shift = go_div (i - linear) subBuckets + 1;
               top = subBuckets + (i - linear) mod subBuckets;
               lo = wrap64 (top * 2 ^ nat shift)
           in wrap64 (lo + go_div (wrap64 (2 ^ nat shift)) 2))"

lemmas bucket_consts = subBits_def subBuckets_def linear_def maxTracked_def hour_def

lemma linear_val [simp]: "linear = 128" and subBuckets_val [simp]: "subBuckets = 64"
  by (simp_all add: bucket_consts)

text \<open>A value of at least \<open>linear\<close> has a unique scale: \<open>s\<close> with \<open>64 * 2^s \<le> v < 128 * 2^s\<close>.\<close>

lemma bucket_scale:
  assumes "linear \<le> v"
  obtains s where "0 < s" "64 * 2 ^ s \<le> v" "v < 128 * 2 ^ s"
    "int (bit_len (nat v)) - (subBits + 1) = int s"
proof -
  have v: "128 \<le> v" using assms by simp
  define b where "b = bit_len (nat v)"
  have "2 ^ 7 \<le> nat v" using v by simp
  then have b8: "7 < b" unfolding b_def by (simp only: less_bit_len_iff)
  define s where "s = b - 7"
  have bs: "b = Suc (s + 6)" and s0: "0 < s" using b8 by (simp_all add: s_def)
  have "2 ^ (s + 6) \<le> nat v" using bs less_bit_len_iff [of "s + 6" "nat v"] b_def by simp
  then have lo: "2 ^ (s + 6) \<le> v" using v by (metis nat_le_iff int_nat_eq le_nat_iff of_nat_power of_nat_numeral order.trans zero_le_numeral)
  have "nat v < 2 ^ (s + 7)" using bs bit_len_le_iff [of "nat v" "s + 7"] b_def by simp
  then have hi: "v < 2 ^ (s + 7)" using v by (simp add: nat_less_iff)
  show thesis
  proof (rule that [OF s0])
    show "64 * 2 ^ s \<le> v" using lo by (simp add: power_add)
    show "v < 128 * 2 ^ s" using hi by (simp add: power_add)
    show "int (bit_len (nat v)) - (subBits + 1) = int s"
      using bs b_def by (simp add: subBits_def)
  qed
qed

lemma bucketIndex_scale:
  assumes "0 < s" "64 * 2 ^ s \<le> v" "v < 128 * 2 ^ s"
  shows "bucketIndex v = 64 * int s + v div 2 ^ s"
proof -
  have "(2 :: int) * 1 \<le> 2 * 2 ^ (s - 1)" by simp
  also have "\<dots> = 2 ^ s" using assms(1) by (cases s) simp_all
  finally have l: "linear \<le> v" using assms(2) by simp
  obtain t where t: "0 < t" "64 * 2 ^ t \<le> v" "v < 128 * 2 ^ t"
    and e: "int (bit_len (nat v)) - (subBits + 1) = int t"
    using bucket_scale [OF l] by blast
  have "(64 :: int) * 2 ^ s < 64 * 2 ^ Suc t" and "(64 :: int) * 2 ^ t < 64 * 2 ^ Suc s"
    using assms(2,3) t(2,3) by simp_all
  then have "(2 :: int) ^ s < 2 ^ Suc t" and "(2 :: int) ^ t < 2 ^ Suc s" by linarith+
  then have "s < Suc t" and "t < Suc s" by (simp_all only: power_strict_increasing_iff one_less_numeral_iff semiring_norm)
  then have "t = s" by simp
  with e l show ?thesis by (simp add: bucketIndex_def Let_def)
qed

lemma bucketIndex_small: "v < 128 \<Longrightarrow> bucketIndex v = v"
  by (simp add: bucketIndex_def)

lemma scale_top:
  assumes "64 * 2 ^ s \<le> v" "v < 128 * 2 ^ s"
  shows "64 \<le> v div 2 ^ s" "v div 2 ^ s < (128 :: int)"
proof -
  have "64 * 2 ^ s div 2 ^ s \<le> v div (2 ^ s :: int)" using assms(1) by (rule zdiv_mono1) simp
  then show "64 \<le> v div 2 ^ s" by simp
  have "v div 2 ^ s * 2 ^ s \<le> v" by (simp flip: minus_mod_eq_div_mult)
  then have "v div 2 ^ s * 2 ^ s < 128 * 2 ^ s" using assms(2) by linarith
  then show "v div 2 ^ s < 128" by (simp only: mult_less_cancel_right_pos zero_less_power zero_less_numeral)
qed

lemma bucketIndex_mono: "v \<le> w \<Longrightarrow> bucketIndex v \<le> bucketIndex w"
proof (cases "w < 128")
  case True
  assume "v \<le> w"
  with True show ?thesis by (simp add: bucketIndex_small)
next
  case False
  assume vw: "v \<le> w"
  obtain t where t: "0 < t" "64 * 2 ^ t \<le> w" "w < 128 * 2 ^ t"
    using bucket_scale [of w] False by auto
  note w = bucketIndex_scale [OF t] scale_top [OF t(2,3)]
  show ?thesis
  proof (cases "v < 128")
    case True
    then show ?thesis using w t(1) by (simp add: bucketIndex_small)
  next
    case False
    obtain s where s: "0 < s" "64 * 2 ^ s \<le> v" "v < 128 * 2 ^ s"
      using bucket_scale [of v] False by auto
    note v = bucketIndex_scale [OF s] scale_top [OF s(2,3)]
    have "(64 :: int) * 2 ^ s < 64 * 2 ^ Suc t" using s(2) vw t(3) by simp
    then have "s < Suc t"
      by (simp only: power_strict_increasing_iff mult_less_cancel_left_pos zero_less_numeral one_less_numeral_iff semiring_norm)
    then consider "s = t" | "Suc s \<le> t" by linarith
    then show ?thesis
    proof cases
      case 1
      then show ?thesis using v(1) w(1) vw by (simp add: zdiv_mono1)
    next
      case 2
      then have "int s + 1 \<le> int t" by simp
      then show ?thesis using v w by linarith
    qed
  qed
qed

lemma bucketIndex_nonneg: "0 \<le> v \<Longrightarrow> 0 \<le> bucketIndex v"
  using bucketIndex_mono [of 0 v] by (simp add: bucketIndex_small)

lemma numBuckets_val: "numBuckets = 2345"
  using bucketIndex_scale [of 35 maxTracked] by (simp add: numBuckets_def bucket_consts)

lemma bucketIndex_in_range:
  "0 \<le> v \<Longrightarrow> 0 \<le> bucketIndex (min v maxTracked) \<and> bucketIndex (min v maxTracked) < numBuckets"
  using bucketIndex_mono [of "min v maxTracked" maxTracked] bucketIndex_nonneg [of "min v maxTracked"]
  by (auto simp: numBuckets_def bucket_consts)

text \<open>The bucket of scale \<open>s\<close> with top bits \<open>k\<close>: its midpoint, without any overflow.\<close>

lemma bucketMid_scale:
  assumes s: "0 < s" "s < 50" and k: "64 \<le> k" "k < 128"
  shows "bucketMid (64 * int s + k) = k * 2 ^ s + 2 ^ (s - 1)"
proof -
  let ?i = "64 * int s + k"
  have d: "?i - linear = 64 * (int s - 1) + (k - 64)" by (simp add: algebra_simps)
  have nn: "0 \<le> ?i - linear" using s(1) k(1) unfolding d by simp
  have dv: "go_div (?i - linear) subBuckets = int s - 1"
    using nn k unfolding go_div_nonneg [OF nn, of subBuckets, simplified] subBuckets_val
    unfolding d by (simp add: go_div_nonneg)
  have md: "(?i - linear) mod subBuckets = k - 64"
    using k unfolding d subBuckets_val by (simp only: mod_mult_self4) (rule mod_pos_pos_trivial; simp)
  have shift: "nat (go_div (?i - linear) subBuckets + 1) = s" using dv s(1) by simp
  have "(2 :: int) ^ s \<le> 2 ^ 49" using s(2) by (intro power_increasing) auto
  then have p: "(2 :: int) ^ s \<le> 562949953421312" by simp
  have p0: "(0 :: int) < 2 ^ s" by simp
  have "k * 2 ^ s \<le> 127 * 2 ^ s" using k p0 by (intro mult_right_mono) auto
  also have "(127 :: int) * 2 ^ s \<le> 127 * 562949953421312" using p by simp
  also have "\<dots> < 2 ^ 62" by simp
  finally have kp: "k * 2 ^ s < 2 ^ 62" .
  have kp0: "0 \<le> k * 2 ^ s" using k(1) by simp
  have half: "(2 :: int) ^ s = 2 * 2 ^ (s - 1)" using s(1) by (cases s) simp_all
  have w1: "wrap64 (k * 2 ^ s) = k * 2 ^ s" using kp kp0 by (intro wrap64_nonneg_id) simp_all
  have w2: "wrap64 (2 ^ s) = 2 ^ s" using p p0 by (intro wrap64_nonneg_id) simp_all
  have g: "go_div (2 ^ s) 2 = 2 ^ (s - 1)" using half by (simp add: go_div_nonneg)
  have w3: "wrap64 (k * 2 ^ s + 2 ^ (s - 1)) = k * 2 ^ s + 2 ^ (s - 1)"
    using kp kp0 p half by (intro wrap64_nonneg_id) simp_all
  have "\<not> ?i < linear" using nn by linarith
  moreover have "subBuckets + (k - 64) = k" by simp
  ultimately show ?thesis
    by (simp only: bucketMid_def Let_def if_False shift md w2 g w1 w3)
qed

lemma bucket_cases:
  assumes "0 \<le> v" "v \<le> maxTracked"
  obtains (small) "v < 128" "bucketIndex v = v"
  | (scaled) s where "0 < s" "s < 50" "64 * 2 ^ s \<le> v" "v < 128 * 2 ^ s"
      "bucketIndex v = 64 * int s + v div 2 ^ s"
      "64 \<le> v div 2 ^ s" "v div 2 ^ s < 128"
proof (cases "v < 128")
  case True
  then show thesis by (rule small) (simp add: bucketIndex_small True)
next
  case False
  obtain s where s: "0 < s" "64 * 2 ^ s \<le> v" "v < 128 * 2 ^ s"
    using bucket_scale [of v] False by auto
  have "s < 50"
  proof (rule ccontr)
    assume "\<not> s < 50"
    then have "(2 :: int) ^ 50 \<le> 2 ^ s" by (intro power_increasing) auto
    then show False using s(2) assms(2) by (simp add: bucket_consts)
  qed
  then show thesis
    by (rule scaled [OF s(1) _ s(2,3)]) (rule bucketIndex_scale [OF s] scale_top [OF s(2,3)])+
qed

text \<open>The midpoint of a value's bucket is within 1/128 of the value, and this is the
  best possible: it is reached at every power of two above \<open>linear\<close>.\<close>

lemma bucketMid_error:
  assumes "0 \<le> v" "v \<le> maxTracked"
  shows "128 * \<bar>bucketMid (bucketIndex v) - v\<bar> \<le> v"
  using assms
proof (cases rule: bucket_cases)
  case small
  then show ?thesis using assms by (simp add: bucketMid_def)
next
  case (scaled s)
  have m: "bucketMid (bucketIndex v) = v div 2 ^ s * 2 ^ s + 2 ^ (s - 1)"
    using bucketMid_scale [OF scaled(1,2,6,7)] scaled(5) by simp
  have half: "(2 :: int) ^ s = 2 * 2 ^ (s - 1)" using scaled(1) by (cases s) simp_all
  have "v = v div 2 ^ s * 2 ^ s + v mod 2 ^ s" by (simp only: div_mult_mod_eq)
  moreover have "0 \<le> v mod 2 ^ s" "v mod 2 ^ s < 2 ^ s" by simp_all
  ultimately have "\<bar>bucketMid (bucketIndex v) - v\<bar> \<le> 2 ^ (s - 1)"
    unfolding m abs_le_iff using half by linarith
  then have "128 * \<bar>bucketMid (bucketIndex v) - v\<bar> \<le> 128 * 2 ^ (s - 1)" by simp
  also have "\<dots> = 64 * 2 ^ s" using half by simp
  also note scaled(3)
  finally show ?thesis .
qed

lemma bucketMid_in_bucket:
  assumes "0 \<le> v" "v \<le> maxTracked"
  shows "bucketIndex (bucketMid (bucketIndex v)) = bucketIndex v"
  using assms
proof (cases rule: bucket_cases)
  case small
  then show ?thesis by (simp add: bucketMid_def)
next
  case (scaled s)
  let ?k = "v div 2 ^ s"
  have m: "bucketMid (bucketIndex v) = ?k * 2 ^ s + 2 ^ (s - 1)"
    using bucketMid_scale [OF scaled(1,2,6,7)] scaled(5) by simp
  have half: "(2 :: int) ^ s = 2 * 2 ^ (s - 1)" using scaled(1) by (cases s) simp_all
  have p: "(0 :: int) < 2 ^ (s - 1)" by simp
  have "64 * 2 ^ s \<le> ?k * 2 ^ s" using scaled(6) by (rule mult_right_mono) simp
  then have lo: "64 * 2 ^ s \<le> ?k * 2 ^ s + 2 ^ (s - 1)" using p by linarith
  have "?k * 2 ^ s \<le> 127 * 2 ^ s" using scaled(7) by (intro mult_right_mono) simp_all
  then have hi: "?k * 2 ^ s + 2 ^ (s - 1) < 128 * 2 ^ s" using p half by linarith
  have "(?k * 2 ^ s + 2 ^ (s - 1)) div 2 ^ s = ?k + 2 ^ (s - 1) div 2 ^ s" by simp
  also have "(2 :: int) ^ (s - 1) div 2 ^ s = 0"
    using half p by (intro div_pos_pos_trivial) linarith+
  finally have "(?k * 2 ^ s + 2 ^ (s - 1)) div 2 ^ s = ?k" by simp
  then show ?thesis unfolding m using bucketIndex_scale [OF scaled(1) lo hi] scaled(5) by simp
qed

lemma bucketIndex_onto:
  assumes "0 \<le> i" "i < numBuckets"
  shows "\<exists>v. 0 \<le> v \<and> v \<le> maxTracked \<and> bucketIndex v = i"
proof (cases "i < 128")
  case True
  then show ?thesis using assms(1)
    by (intro exI [of _ i]) (simp add: bucketIndex_small bucket_consts)
next
  case False
  define s where "s = nat (i div 64 - 1)"
  define k where "k = 64 + i mod 64"
  have k: "64 \<le> k" "k < 128" by (simp_all add: k_def)
  have "128 div 64 \<le> i div 64" using False by (intro zdiv_mono1) simp_all
  then have i2: "2 \<le> i div 64" by simp
  have i36: "i div 64 \<le> 2344 div 64" using assms(2) by (intro zdiv_mono1) (simp_all add: numBuckets_val)
  have si: "int s = i div 64 - 1" using i2 by (simp add: s_def)
  have s: "0 < s" "s \<le> 35" using si i2 i36 by simp_all
  have ik: "64 * int s + k = i" unfolding si k_def by (simp add: algebra_simps)
  have b: "64 * 2 ^ s \<le> k * 2 ^ s" "k * 2 ^ s < (128 :: int) * 2 ^ s" using k by simp_all
  have bi: "bucketIndex (k * 2 ^ s) = i" using bucketIndex_scale [OF s(1) b] ik by simp
  have "k * 2 ^ s \<le> maxTracked"
  proof (cases "s = 35")
    case True
    then have "k \<le> 104" using ik assms(2) by (simp add: numBuckets_val)
    then have "k * 2 ^ s \<le> 104 * 2 ^ 35" unfolding True by (intro mult_right_mono) simp_all
    then show ?thesis by (simp add: bucket_consts)
  next
    case False
    with s(2) have "(2 :: int) ^ s \<le> 2 ^ 34" by (intro power_increasing) simp_all
    then have "128 * 2 ^ s \<le> (128 :: int) * 2 ^ 34" by simp
    with b(2) have "k * 2 ^ s < 128 * 2 ^ 34" by (rule less_le_trans)
    also have "(128 :: int) * 2 ^ 34 \<le> maxTracked" by (simp add: bucket_consts)
    finally show ?thesis by simp
  qed
  with bi k(1) show ?thesis by (intro exI [of _ "k * 2 ^ s"]) simp
qed

section \<open>The histogram and the merged view\<close>

record histogram =
  hist_counts :: "u64 list"
  hist_n :: u64
  hist_sum :: u64
  hist_min :: int
  hist_max :: int

definition newHistogram :: histogram where
  "newHistogram = \<lparr>hist_counts = replicate (nat numBuckets) 0, hist_n = 0, hist_sum = 0,
                   hist_min = max_int64, hist_max = 0\<rparr>"

definition hist_record :: "histogram \<Rightarrow> duration \<Rightarrow> histogram" where
  "hist_record h d =
     (let v = max d 0;
          i = nat (bucketIndex (min v maxTracked))
      in \<lparr>hist_counts = (hist_counts h)[i := hist_counts h ! i + 1],
          hist_n = hist_n h + 1,
          hist_sum = hist_sum h + word_of_int v,
          hist_min = (if v < hist_min h then v else hist_min h),
          hist_max = (if v > hist_max h then v else hist_max h)\<rparr>)"

record combined =
  com_counts :: "u64 list"
  com_n :: u64
  com_sum :: u64
  com_min :: int
  com_max :: int

definition combined_zero :: combined where
  "combined_zero = \<lparr>com_counts = replicate (nat numBuckets) 0, com_n = 0, com_sum = 0,
                    com_min = max_int64, com_max = 0\<rparr>"

definition combine_one :: "combined \<Rightarrow> histogram \<Rightarrow> combined" where
  "combine_one c h =
     \<lparr>com_counts = map2 (+) (com_counts c) (hist_counts h),
      com_n = com_n c + hist_n h,
      com_sum = com_sum c + hist_sum h,
      com_min = min (com_min c) (hist_min h),
      com_max = max (com_max c) (hist_max h)\<rparr>"

definition combine :: "histogram list \<Rightarrow> combined" where
  "combine hs = foldl combine_one combined_zero hs"

text \<open>\<open>math.Ceil(p*float64(n)/100-1e-9)\<close> as a \<open>uint64\<close>. Go leaves the conversion of a float
  outside the target's range to the implementation; the rank never is.\<close>

fun f64_to_u64 :: "f64 \<Rightarrow> u64" where
  "f64_to_u64 (Fin a) = word_of_int (if 0 \<le> a then \<lfloor>a\<rfloor> else \<lceil>a\<rceil>)"
| "f64_to_u64 _ = 0"

definition pct_rank :: "f64 \<Rightarrow> u64 \<Rightarrow> u64" where
  "pct_rank p n =
     max (f64_to_u64 (f64_ceil (f64_sub (f64_div (f64_mul p (f64_of_int (uint n))) (Fin 100))
                                        (f64_of_rat (1 / 10 ^ 9))))) 1"

fun pct_scan :: "combined \<Rightarrow> u64 \<Rightarrow> u64 \<Rightarrow> nat \<Rightarrow> u64 list \<Rightarrow> duration" where
  "pct_scan c rank seen i [] = com_max c"
| "pct_scan c rank seen i (n # ns) =
     (let seen' = seen + n
      in if rank \<le> seen' then min (max (bucketMid (int i)) (com_min c)) (com_max c)
         else pct_scan c rank seen' (Suc i) ns)"

definition percentile :: "combined \<Rightarrow> f64 \<Rightarrow> duration" where
  "percentile c p = pct_scan c (pct_rank p (com_n c)) 0 0 (com_counts c)"

section \<open>The samples a histogram stands for\<close>

definition clip :: "duration \<Rightarrow> int" where
  "clip d = max d 0"

definition bucket_count :: "int list \<Rightarrow> int \<Rightarrow> nat" where
  "bucket_count L i = length (filter (\<lambda>v. bucketIndex (min v maxTracked) = i) L)"

definition tally :: "u64 list \<Rightarrow> u64 \<Rightarrow> u64 \<Rightarrow> int \<Rightarrow> int \<Rightarrow> int list \<Rightarrow> bool" where
  "tally cs n sm mn mx L \<longleftrightarrow>
     cs = map (\<lambda>i. of_nat (bucket_count L (int i))) [0..<nat numBuckets] \<and>
     n = of_nat (length L) \<and> sm = of_int (sum_list L) \<and>
     mn = Min (insert max_int64 (set L)) \<and> mx = Max (insert 0 (set L)) \<and>
     (\<forall>v\<in>set L. 0 \<le> v \<and> v \<le> max_int64)"

definition hist_tally :: "histogram \<Rightarrow> int list \<Rightarrow> bool" where
  "hist_tally h = tally (hist_counts h) (hist_n h) (hist_sum h) (hist_min h) (hist_max h)"

definition com_tally :: "combined \<Rightarrow> int list \<Rightarrow> bool" where
  "com_tally c = tally (com_counts c) (com_n c) (com_sum c) (com_min c) (com_max c)"

lemma bucket_count_Nil [simp]: "bucket_count [] i = 0"
  by (simp add: bucket_count_def)

lemma bucket_count_Cons:
  "bucket_count (v # L) i = (if bucketIndex (min v maxTracked) = i then 1 else 0) + bucket_count L i"
  by (simp add: bucket_count_def)

lemma bucket_count_append [simp]:
  "bucket_count (L @ M) i = bucket_count L i + bucket_count M i"
  by (simp add: bucket_count_def)

lemma tally_Nil: "tally (replicate (nat numBuckets) 0) 0 0 max_int64 0 []"
  by (simp add: tally_def max_int64_def map_replicate_const)

lemma tally_append:
  assumes "tally cs n sm mn mx L" "tally cs' n' sm' mn' mx' M"
  shows "tally (map2 (+) cs cs') (n + n') (sm + sm') (min mn mn') (max mx mx') (L @ M)"
proof -
  have "Min (insert max_int64 (set L \<union> set M)) =
        min (Min (insert max_int64 (set L))) (Min (insert max_int64 (set M)))"
    using Min_Un [of "insert max_int64 (set L)" "insert max_int64 (set M)"] by (simp add: Un_assoc)
  moreover have "Max (insert 0 (set L \<union> set M)) =
        max (Max (insert 0 (set L))) (Max (insert 0 (set M)))"
    using Max_Un [of "insert 0 (set L)" "insert 0 (set M)"] by (simp add: Un_assoc)
  ultimately show ?thesis using assms unfolding tally_def by (auto simp: map2_add_map)
qed

lemma clip_range: "in64 d \<Longrightarrow> 0 \<le> clip d \<and> clip d \<le> max_int64"
  by (auto simp: clip_def in64_def max_int64_def)

lemma counts_record:
  assumes "0 \<le> v"
    and cs: "cs = map (\<lambda>i. of_nat (bucket_count L (int i)) :: u64) [0..<nat numBuckets]"
  shows "cs[nat (bucketIndex (min v maxTracked)) := cs ! nat (bucketIndex (min v maxTracked)) + 1] =
         map (\<lambda>i. of_nat (bucket_count (L @ [v]) (int i))) [0..<nat numBuckets]"
proof (rule nth_equalityI)
  define b where "b = bucketIndex (min v maxTracked)"
  have b: "0 \<le> b" "b < numBuckets" using bucketIndex_in_range [OF assms(1)] by (simp_all add: b_def)
  fix i
  assume "i < length (cs[nat (bucketIndex (min v maxTracked)) := cs ! nat (bucketIndex (min v maxTracked)) + 1])"
  then have i: "i < nat numBuckets" by (simp add: cs)
  show "cs[nat (bucketIndex (min v maxTracked)) := cs ! nat (bucketIndex (min v maxTracked)) + 1] ! i =
        map (\<lambda>i. of_nat (bucket_count (L @ [v]) (int i))) [0..<nat numBuckets] ! i"
  proof (cases "int i = b")
    case True
    then have "nat b = i" using b by linarith
    then show ?thesis using i True by (simp add: cs bucket_count_Cons b_def [symmetric])
  next
    case False
    then have "nat b \<noteq> i" using b by linarith
    then show ?thesis using i False by (simp add: cs bucket_count_Cons b_def [symmetric])
  qed
qed (simp add: cs)

lemma hist_record_fields:
  "hist_counts (hist_record h d) = (hist_counts h)[nat (bucketIndex (min (clip d) maxTracked)) :=
     hist_counts h ! nat (bucketIndex (min (clip d) maxTracked)) + 1]"
  "hist_n (hist_record h d) = hist_n h + 1"
  "hist_sum (hist_record h d) = hist_sum h + word_of_int (clip d)"
  "hist_min (hist_record h d) = min (clip d) (hist_min h)"
  "hist_max (hist_record h d) = max (clip d) (hist_max h)"
  unfolding hist_record_def Let_def clip_def [symmetric] histogram.simps
  by (rule refl, rule refl, rule refl) (simp_all only: min_def max_def not_le [symmetric] split: if_splits, linarith+)

lemma tally_record:
  assumes t: "hist_tally h L" and d: "in64 d"
  shows "hist_tally (hist_record h d) (L @ [clip d])"
proof -
  let ?v = "clip d"
  note v = clip_range [OF d]
  note h = t [unfolded hist_tally_def tally_def]
  have mn: "Min (insert max_int64 (set (L @ [?v]))) = min ?v (Min (insert max_int64 (set L)))"
    by (simp add: insert_commute [of max_int64])
  have mx: "Max (insert 0 (set (L @ [?v]))) = max ?v (Max (insert 0 (set L)))"
    by (simp add: insert_commute [of 0])
  show ?thesis unfolding hist_tally_def tally_def hist_record_fields mn mx
  proof (intro conjI)
    show "(hist_counts h)[nat (bucketIndex (min ?v maxTracked)) :=
        hist_counts h ! nat (bucketIndex (min ?v maxTracked)) + 1] =
        map (\<lambda>i. of_nat (bucket_count (L @ [?v]) (int i))) [0..<nat numBuckets]"
      by (rule counts_record) (use v h in blast)+
    show "hist_n h + 1 = of_nat (length (L @ [?v]))" using h by simp
    show "hist_sum h + word_of_int ?v = of_int (sum_list (L @ [?v]))" using h by simp
    show "min ?v (hist_min h) = min ?v (Min (insert max_int64 (set L)))" using h by simp
    show "max ?v (hist_max h) = max ?v (Max (insert 0 (set L)))" using h by simp
    show "\<forall>x\<in>set (L @ [?v]). 0 \<le> x \<and> x \<le> max_int64" using h v by auto
  qed
qed

text \<open>
  The contract between a sample store and the code that records into it: the store stands
  for a list of samples, and recording appends one. Recorders, metric families and the
  sampler rely on nothing else.
\<close>

locale sample_store =
  fixes empty_store :: "'s"
    and put :: "'s \<Rightarrow> duration \<Rightarrow> 's"
    and stands_for :: "'s \<Rightarrow> int list \<Rightarrow> bool"
  assumes empty_stands: "stands_for empty_store []"
    and put_stands: "stands_for s L \<Longrightarrow> in64 d \<Longrightarrow> stands_for (put s d) (L @ [clip d])"
begin

lemma puts_stand:
  "stands_for s L \<Longrightarrow> \<forall>d\<in>set ds. in64 d \<Longrightarrow> stands_for (foldl put s ds) (L @ map clip ds)"
proof (induction ds arbitrary: s L)
  case Nil
  then show ?case by simp
next
  case (Cons d ds)
  have "stands_for (put s d) (L @ [clip d])" using Cons.prems by (simp add: put_stands)
  then have "stands_for (foldl put (put s d) ds) ((L @ [clip d]) @ map clip ds)"
    using Cons.prems by (intro Cons.IH) auto
  then show ?case by simp
qed

lemma from_empty: "\<forall>d\<in>set ds. in64 d \<Longrightarrow> stands_for (foldl put empty_store ds) (map clip ds)"
  using puts_stand [OF empty_stands] by simp

end

lemma tally_new: "hist_tally newHistogram []"
  unfolding hist_tally_def newHistogram_def using tally_Nil by simp

interpretation hist: sample_store newHistogram hist_record hist_tally
  by unfold_locales (rule tally_new, rule tally_record)

lemma combine_one_tally:
  "com_tally c L \<Longrightarrow> hist_tally h M \<Longrightarrow> com_tally (combine_one c h) (L @ M)"
  unfolding com_tally_def hist_tally_def combine_one_def by (simp add: tally_append)

lemma foldl_combine_tally:
  "list_all2 hist_tally hs Ls \<Longrightarrow> com_tally c L \<Longrightarrow> com_tally (foldl combine_one c hs) (L @ concat Ls)"
proof (induction hs Ls arbitrary: c L rule: list_all2_induct)
  case Nil
  then show ?case by simp
next
  case (Cons h hs M Ls)
  from Cons.IH [OF combine_one_tally [OF Cons.prems Cons.hyps(1)]]
  show ?case by simp
qed

lemma combine_tally: "list_all2 hist_tally hs Ls \<Longrightarrow> com_tally (combine hs) (concat Ls)"
  using foldl_combine_tally [of hs Ls combined_zero "[]"] tally_Nil
  by (simp add: combine_def com_tally_def combined_zero_def)

lemma bounded_min_max:
  assumes "\<forall>v\<in>set L. 0 \<le> v \<and> v \<le> max_int64" "L \<noteq> []"
  shows "Min (insert max_int64 (set L)) = Min (set L)" "Max (insert 0 (set L)) = Max (set L)"
proof -
  have "Min (set L) \<in> set L" "Max (set L) \<in> set L" using assms(2) by simp_all
  with assms(1) have "Min (set L) \<le> max_int64" "0 \<le> Max (set L)" by blast+
  then show "Min (insert max_int64 (set L)) = Min (set L)" "Max (insert 0 (set L)) = Max (set L)"
    using assms(2) by simp_all
qed

section \<open>Nearest-rank percentiles\<close>

text \<open>How many samples lie in the buckets up to \<open>i\<close>.\<close>

definition upto_count :: "int list \<Rightarrow> nat \<Rightarrow> nat" where
  "upto_count L i = length (filter (\<lambda>v. bucketIndex (min v maxTracked) < int i) L)"

lemma upto_count_Suc: "upto_count L (Suc i) = upto_count L i + bucket_count L (int i)"
  unfolding upto_count_def bucket_count_def by (induction L) auto

lemma upto_count_le: "upto_count L i \<le> length L"
  by (simp add: upto_count_def)

lemma pct_scan_skip:
  assumes "length L < 2 ^ 64" "rank \<le> length L" "k \<le> n" "rank \<le> upto_count L n"
    "upto_count L k < rank"
  shows "\<exists>i. k \<le> i \<and> i < n \<and> upto_count L i < rank \<and> rank \<le> upto_count L (Suc i) \<and>
     pct_scan c (of_nat rank) (of_nat (upto_count L k)) k
       (map (\<lambda>i. of_nat (bucket_count L (int i))) [k..<n]) =
     min (max (bucketMid (int i)) (com_min c)) (com_max c)"
  using assms(3,5)
proof (induction "n - k" arbitrary: k)
  case 0
  then show ?case using assms(4) by simp
next
  case (Suc m)
  then have kn: "k < n" by simp
  have seen: "of_nat (upto_count L k) + of_nat (bucket_count L (int k)) = (of_nat (upto_count L (Suc k)) :: u64)"
    by (simp add: upto_count_Suc)
  have le: "(of_nat rank :: u64) \<le> of_nat (upto_count L (Suc k)) \<longleftrightarrow> rank \<le> upto_count L (Suc k)"
    using assms(1,2) upto_count_le [of L "Suc k"] by (intro of_nat_u64_le_iff) linarith+
  show ?case
  proof (cases "rank \<le> upto_count L (Suc k)")
    case True
    then show ?thesis using kn Suc.prems seen le
      by (intro exI [of _ k]) (simp add: upt_conv_Cons Let_def)
  next
    case False
    then have "upto_count L (Suc k) < rank" by simp
    moreover have "m = n - Suc k" using Suc.hyps(2) by arith
    ultimately obtain i where "Suc k \<le> i" "i < n" "upto_count L i < rank" "rank \<le> upto_count L (Suc i)"
      "pct_scan c (of_nat rank) (of_nat (upto_count L (Suc k))) (Suc k)
         (map (\<lambda>i. of_nat (bucket_count L (int i))) [Suc k..<n]) =
       min (max (bucketMid (int i)) (com_min c)) (com_max c)"
      using Suc.hyps(1) [of "Suc k"] kn by auto
    then show ?thesis using kn seen le False
      by (intro exI [of _ i]) (simp add: upt_conv_Cons Let_def)
  qed
qed

lemma sorted_nth_down:
  assumes "sorted xs" "\<And>x y. x \<le> y \<Longrightarrow> P y \<Longrightarrow> P x" "r < length xs"
  shows "P (xs ! r) \<longleftrightarrow> r < length (filter P xs)"
  using assms(1,3)
proof (induction xs arbitrary: r)
  case Nil
  then show ?case by simp
next
  case (Cons x xs)
  show ?case
  proof (cases "P x")
    case True
    then show ?thesis using Cons by (cases r) auto
  next
    case False
    then have none: "\<forall>y\<in>set (x # xs). \<not> P y" using Cons.prems(1) assms(2) by auto
    then have "\<not> P ((x # xs) ! r)" using Cons.prems(2) nth_mem by blast
    moreover have "filter P (x # xs) = []" using none by (simp add: filter_empty_conv)
    ultimately show ?thesis by simp
  qed
qed

lemma length_filter_sort: "length (filter P (sort L)) = length (filter P L)"
  by (metis mset_filter mset_sort size_mset)

text \<open>The bucket at which the scan stops is the bucket of the sample of that rank.\<close>

lemma rank_bucket:
  assumes "1 \<le> r" "r \<le> length L" "upto_count L i < r" "r \<le> upto_count L (Suc i)"
  shows "bucketIndex (min (sort L ! (r - 1)) maxTracked) = int i"
proof -
  let ?x = "sort L ! (r - 1)"
  have lt: "r - 1 < length (sort L)" using assms(1,2) by simp
  have down: "bucketIndex (min ?x maxTracked) < int k \<longleftrightarrow> r - 1 < upto_count L k" for k
    unfolding upto_count_def
    by (subst sorted_nth_down [of "sort L" "\<lambda>v. bucketIndex (min v maxTracked) < int k", OF _ _ lt])
       (auto simp: length_filter_sort intro: le_less_trans [OF bucketIndex_mono] min.mono)
  have "\<not> bucketIndex (min ?x maxTracked) < int i" using down [of i] assms(1,3) by linarith
  moreover have "bucketIndex (min ?x maxTracked) < int (Suc i)" using down [of "Suc i"] assms(1,4) by linarith
  ultimately show ?thesis by simp
qed

lemma clamp_closer:
  fixes m x lo hi :: int
  assumes "lo \<le> x" "x \<le> hi"
  shows "\<bar>min (max m lo) hi - x\<bar> \<le> \<bar>m - x\<bar>"
  using assms by (auto simp: min_def max_def)

definition nearest_rank :: "combined \<Rightarrow> f64 \<Rightarrow> nat" where
  "nearest_rank c p = unat (pct_rank p (com_n c))"

lemma nearest_rank_pos: "1 \<le> nearest_rank c p"
proof -
  have "(1 :: u64) \<le> pct_rank p (com_n c)" by (simp add: pct_rank_def)
  then show ?thesis by (simp add: nearest_rank_def word_le_nat_alt)
qed

lemma upto_count_all:
  assumes "\<forall>v\<in>set L. 0 \<le> v"
  shows "upto_count L (nat numBuckets) = length L"
proof -
  have "filter (\<lambda>v. bucketIndex (min v maxTracked) < int (nat numBuckets)) L = L"
    using assms bucketIndex_in_range by (force intro: filter_True)
  then show ?thesis by (simp add: upto_count_def)
qed

lemma percentile_bucket:
  assumes cs: "com_counts c = map (\<lambda>i. of_nat (bucket_count L (int i))) [0..<nat numBuckets]"
    and nn: "\<forall>v\<in>set L. 0 \<le> v" and len: "length L < 2 ^ 64" and r: "nearest_rank c p \<le> length L"
  shows "percentile c p =
     min (max (bucketMid (bucketIndex (min (sort L ! (nearest_rank c p - 1)) maxTracked))) (com_min c)) (com_max c)"
proof -
  let ?r = "nearest_rank c p"
  let ?n = "nat numBuckets"
  have rw: "pct_rank p (com_n c) = of_nat ?r" by (simp add: nearest_rank_def)
  have up: "?r \<le> upto_count L ?n" using r upto_count_all [OF nn] by simp
  have "filter (\<lambda>v. bucketIndex (min v maxTracked) < int 0) L = []"
    using nn bucketIndex_in_range by (force simp: filter_empty_conv)
  then have z: "upto_count L 0 = 0" by (simp add: upto_count_def)
  then have "upto_count L 0 < ?r" using nearest_rank_pos [of c p] by simp
  then obtain i where i: "upto_count L i < ?r" "?r \<le> upto_count L (Suc i)"
    "pct_scan c (of_nat ?r) (of_nat (upto_count L 0)) 0
       (map (\<lambda>i. of_nat (bucket_count L (int i))) [0..<?n]) =
     min (max (bucketMid (int i)) (com_min c)) (com_max c)"
    using pct_scan_skip [OF len r _ up, of 0 c] by blast
  have "bucketIndex (min (sort L ! (?r - 1)) maxTracked) = int i"
    by (rule rank_bucket [OF nearest_rank_pos r i(1,2)])
  moreover have "percentile c p = min (max (bucketMid (int i)) (com_min c)) (com_max c)"
    using i(3) z cs by (simp add: percentile_def rw)
  ultimately show ?thesis by simp
qed

lemma percentile_scan:
  assumes t: "com_tally c L" and len: "length L < 2 ^ 64" and r: "nearest_rank c p \<le> length L"
  defines "x \<equiv> sort L ! (nearest_rank c p - 1)"
  shows "percentile c p =
     min (max (bucketMid (bucketIndex (min x maxTracked))) (Min (insert max_int64 (set L))))
         (Max (insert 0 (set L)))"
proof -
  note h = t [unfolded com_tally_def tally_def]
  have "\<forall>v\<in>set L. 0 \<le> v"
    "com_counts c = map (\<lambda>i. of_nat (bucket_count L (int i))) [0..<nat numBuckets]"
    "com_min c = Min (insert max_int64 (set L))" "com_max c = Max (insert 0 (set L))"
    using h by blast+
  then show ?thesis using percentile_bucket [OF _ _ len r] unfolding x_def by metis
qed

text \<open>A percentile is within 1/128 of the sample of its nearest rank whenever that sample is at
  most one hour, and it lies between the smallest and the largest sample.\<close>

lemma percentile_accuracy:
  assumes "com_tally c L" "length L < 2 ^ 64" "nearest_rank c p \<le> length L"
  shows "let x = sort L ! (nearest_rank c p - 1)
         in (x \<le> maxTracked \<longrightarrow> 128 * \<bar>percentile c p - x\<bar> \<le> x) \<and>
            Min (set L) \<le> percentile c p \<and> percentile c p \<le> Max (set L)"
proof -
  define x where "x = sort L ! (nearest_rank c p - 1)"
  have r: "nearest_rank c p - 1 < length (sort L)"
    using nearest_rank_pos [of c p] assms(3) by simp
  have xL: "x \<in> set L" unfolding x_def by (metis nth_mem r set_sort)
  have h: "\<forall>v\<in>set L. 0 \<le> v \<and> v \<le> max_int64" using assms(1) by (simp add: com_tally_def tally_def)
  have "L \<noteq> []" using xL by auto
  note mm = bounded_min_max [OF h this]
  have eq: "percentile c p = min (max (bucketMid (bucketIndex (min x maxTracked))) (Min (set L))) (Max (set L))"
    using percentile_scan [OF assms] mm by (simp add: x_def)
  have lo: "Min (set L) \<le> x" and hi: "x \<le> Max (set L)" using xL by simp_all
  have "128 * \<bar>percentile c p - x\<bar> \<le> x" if "x \<le> maxTracked"
  proof -
    have "128 * \<bar>percentile c p - x\<bar> \<le> 128 * \<bar>bucketMid (bucketIndex x) - x\<bar>"
      unfolding eq using that clamp_closer [OF lo hi] by (simp add: min_absorb1)
    also have "\<dots> \<le> x" using h xL that by (intro bucketMid_error) auto
    finally show ?thesis .
  qed
  moreover have "Min (set L) \<le> percentile c p" "percentile c p \<le> Max (set L)"
    unfolding eq using lo hi by auto
  ultimately show ?thesis by (simp add: x_def)
qed

text \<open>The floating-point rank. Four roundings separate it from the exact \<open>p * n / 100\<close>; with at
  most two million samples their total error stays below the code's tolerance of \<open>1e-9\<close>.\<close>

definition exact_rank :: "rat \<Rightarrow> nat \<Rightarrow> rat" where
  "exact_rank q n = q * of_nat n / 100"

lemma rank_float_error:
  assumes q: "0 < q" "q \<le> 100" and n: "n \<le> 2000000"
  obtains e where
    "f64_sub (f64_div (f64_mul (Fin q) (f64_of_int (int n))) (Fin 100)) (f64_of_rat (1 / 10 ^ 9)) = Fin e"
    "exact_rank q n - 2 / 10 ^ 9 \<le> e" "e \<le> exact_rank q n"
proof -
  let ?N = "of_nat n :: rat"
  have N: "0 \<le> ?N" "?N \<le> 2000000" using n by simp_all
  have fn: "f64_of_int (int n) = Fin ?N" using n by (subst f64_of_int_exact) simp_all
  define u where "u = q * ?N"
  have u: "0 \<le> u" "u \<le> 100 * 2000000"
    using q N mult_mono [of q 100 ?N 2000000] unfolding u_def by simp_all
  define m where "m = f64_round u"
  have m: "\<bar>m - u\<bar> \<le> (100 * 2000000) / 2 ^ 53 + 1 / 10 ^ 30"
    unfolding m_def using u by (intro f64_step_error) simp
  have mb: "\<bar>m / 100\<bar> \<le> 2000001" using m u unfolding abs_le_iff by (simp add: field_simps)
  define d where "d = f64_round (m / 100)"
  have d: "\<bar>d - m / 100\<bar> \<le> 2000001 / 2 ^ 53 + 1 / 10 ^ 30"
    unfolding d_def using mb by (rule f64_step_error)
  define c where "c = f64_round (1 / 10 ^ 9)"
  have c: "\<bar>c - 1 / 10 ^ 9\<bar> \<le> (1 / 10 ^ 9) / 2 ^ 53 + 1 / 10 ^ 30"
    unfolding c_def by (intro f64_step_error) simp
  have dc: "\<bar>d - c\<bar> \<le> 2000003" using d mb c unfolding abs_le_iff by (simp add: field_simps)
  define e where "e = f64_round (d - c)"
  have e: "\<bar>e - (d - c)\<bar> \<le> 2000003 / 2 ^ 53 + 1 / 10 ^ 30"
    unfolding e_def using dc by (rule f64_step_error)
  have "f64_of_rat (q * ?N) = Fin m" unfolding m_def u_def [symmetric]
    using u by (intro f64_bounded_Fin) (simp add: abs_le_iff)
  moreover have "f64_of_rat (m / 100) = Fin d" unfolding d_def
    using mb by (intro f64_bounded_Fin) (simp add: abs_le_iff)
  moreover have "f64_of_rat (1 / 10 ^ 9) = Fin c" unfolding c_def
    by (intro f64_bounded_Fin) simp
  moreover have "f64_of_rat (d - c) = Fin e" unfolding e_def
    using dc by (intro f64_bounded_Fin) (simp add: abs_le_iff)
  ultimately have "f64_sub (f64_div (f64_mul (Fin q) (f64_of_int (int n))) (Fin 100))
      (f64_of_rat (1 / 10 ^ 9)) = Fin e"
    by (simp add: fn f64_sub_def)
  moreover have "exact_rank q n - 2 / 10 ^ 9 \<le> e" "e \<le> exact_rank q n"
    using m d c e unfolding exact_rank_def u_def [symmetric] abs_le_iff by (simp_all add: field_simps)
  ultimately show thesis by (rule that)
qed

lemma pct_rank_nearest:
  assumes q: "0 < q" "q \<le> 100" and n: "0 < n" "n \<le> 2000000"
  defines "r \<equiv> unat (pct_rank (Fin q) (of_nat n))"
  shows "1 \<le> r \<and> r \<le> n \<and> \<lceil>exact_rank q n - 2 / 10 ^ 9\<rceil> \<le> int r \<and>
         int r \<le> max 1 \<lceil>exact_rank q n\<rceil>"
proof -
  obtain e where
    e: "f64_sub (f64_div (f64_mul (Fin q) (f64_of_int (int n))) (Fin 100)) (f64_of_rat (1 / 10 ^ 9)) = Fin e"
    and b: "exact_rank q n - 2 / 10 ^ 9 \<le> e" "e \<le> exact_rank q n"
    using rank_float_error [OF q n(2)] by blast
  have x0: "0 < exact_rank q n" using q(1) n(1) by (simp add: exact_rank_def)
  have "exact_rank q n \<le> 100 * of_nat n / 100" unfolding exact_rank_def
    using q(2) by (intro divide_right_mono mult_right_mono) simp_all
  then have x1: "exact_rank q n \<le> of_nat n" by simp
  define k where "k = \<lceil>e\<rceil>"
  have "- 1 < e" using b(1) x0 by simp
  then have k0: "0 \<le> k" unfolding k_def by linarith
  have kx: "k \<le> \<lceil>exact_rank q n\<rceil>" unfolding k_def using b(2) by (rule ceiling_mono)
  have xk: "\<lceil>exact_rank q n - 2 / 10 ^ 9\<rceil> \<le> k" unfolding k_def using b(1) by (rule ceiling_mono)
  have xn: "\<lceil>exact_rank q n\<rceil> \<le> int n" using x1 by (simp add: ceiling_le_iff)
  have kn: "k \<le> 2000000" using kx xn n(2) by linarith
  have un: "uint (of_nat n :: u64) = int n"
  proof -
    have "unat (of_nat n :: u64) = n" using n(2) by (intro unat_of_nat_u64) simp
    then show ?thesis by (simp only: uint_nat)
  qed
  have "pct_rank (Fin q) (of_nat n) = max (word_of_int k) 1"
    unfolding pct_rank_def un e using k0 by (simp add: k_def)
  also have "\<dots> = of_nat (max (nat k) 1)"
  proof -
    have w: "word_of_int k = (of_nat (nat k) :: u64)" by (rule of_nat_nat [OF k0, symmetric])
    have "(of_nat (nat k) :: u64) \<le> of_nat 1 \<longleftrightarrow> nat k \<le> 1"
      using kn by (intro of_nat_u64_le_iff) simp_all
    then have "max (of_nat (nat k) :: u64) (of_nat 1) = of_nat (max (nat k) 1)"
      by (simp only: max_def if_distrib [of of_nat])
    then show ?thesis unfolding w by (simp only: of_nat_1)
  qed
  finally have rw: "pct_rank (Fin q) (of_nat n) = of_nat (max (nat k) 1)" .
  have "max (nat k) 1 < 2 ^ 64" using kn by simp
  then have "r = max (nat k) 1" unfolding r_def rw by (rule unat_of_nat_u64)
  then have ri: "int r = max k 1" using k0 by simp
  have "1 \<le> int r" "int r \<le> int n" using ri kx xn n(1) by linarith+
  moreover have "\<lceil>exact_rank q n - 2 / 10 ^ 9\<rceil> \<le> int r" unfolding ri using xk by (rule le_max_iff_disj [THEN iffD2, OF disjI1])
  moreover have "int r \<le> max 1 \<lceil>exact_rank q n\<rceil>" unfolding ri using kx by (simp only: max.commute max.mono)
  ultimately show ?thesis by simp
qed

section \<open>Properties\<close>

text \<open>C4: The bucket layout. Every latency up to an hour falls into one of the 2345 buckets,
  larger latencies into larger buckets; a bucket's reported midpoint lies in that bucket and
  within 1/128 (0.78125 %) of every latency in it, and no bucket is unused.\<close>

theorem bucket_layout:
  "0 \<le> v \<and> v \<le> maxTracked \<Longrightarrow>
     (0 \<le> bucketIndex v \<and> bucketIndex v < numBuckets \<and> numBuckets = 2345) \<and>
     (\<forall>w. v \<le> w \<longrightarrow> bucketIndex v \<le> bucketIndex w) \<and>
     bucketIndex (bucketMid (bucketIndex v)) = bucketIndex v \<and>
     128 * \<bar>bucketMid (bucketIndex v) - v\<bar> \<le> v \<and>
     (\<forall>i. 0 \<le> i \<and> i < numBuckets \<longrightarrow> (\<exists>u. 0 \<le> u \<and> u \<le> maxTracked \<and> bucketIndex u = i))"
  using bucketIndex_in_range [of v] bucketIndex_mono bucketMid_in_bucket [of v] bucketMid_error [of v]
    bucketIndex_onto numBuckets_val by (simp add: min_absorb1)

theorem bucket_layout_witness:
  "128 * \<bar>bucketMid (bucketIndex 1500000) - 1500000\<bar> \<le> 1500000"
  using bucket_layout [of 1500000] by (simp add: bucket_consts)

definition record_all :: "duration list \<Rightarrow> histogram" where
  "record_all ds = foldl hist_record newHistogram ds"

lemma record_all_tally: "\<forall>d\<in>set ds. in64 d \<Longrightarrow> hist_tally (record_all ds) (map clip ds)"
  unfolding record_all_def by (rule hist.from_empty)

lemma record_alls_tally:
  assumes "\<forall>ds\<in>set dss. \<forall>d\<in>set ds. in64 d"
  shows "com_tally (combine (map record_all dss)) (map clip (concat dss))"
proof -
  have "list_all2 hist_tally (map record_all dss) (map (map clip) dss)"
    using assms by (induction dss) (simp_all add: record_all_tally)
  from combine_tally [OF this] show ?thesis by (simp add: map_concat)
qed

text \<open>Exact aggregates. Merging any number of histograms yields the number of recorded
  latencies, their sum, minimum and maximum exactly (negative latencies counted as zero, the
  number and the sum modulo \<open>2^64\<close>), however the latencies were spread over the histograms.\<close>

theorem combine_exact:
  assumes "\<forall>ds\<in>set dss. \<forall>d\<in>set ds. in64 d" and "concat dss \<noteq> []"
  shows "com_n (combine (map record_all dss)) = of_nat (length (concat dss)) \<and>
         com_sum (combine (map record_all dss)) = of_int (sum_list (map clip (concat dss))) \<and>
         com_min (combine (map record_all dss)) = Min (set (map clip (concat dss))) \<and>
         com_max (combine (map record_all dss)) = Max (set (map clip (concat dss)))"
proof -
  let ?L = "map clip (concat dss)"
  have t: "com_tally (combine (map record_all dss)) ?L" by (rule record_alls_tally [OF assms(1)])
  have r: "\<forall>v\<in>set ?L. 0 \<le> v \<and> v \<le> max_int64" using t unfolding com_tally_def tally_def by blast
  have "?L \<noteq> []" using assms(2) by simp
  note mm = bounded_min_max [OF r this]
  show ?thesis using t unfolding com_tally_def tally_def mm length_map by blast
qed

theorem combine_exact_witness:
  "com_n (combine (map record_all [[3, 5], [4]])) = 3 \<and>
   com_max (combine (map record_all [[3, 5], [4]])) = 5"
  using combine_exact [of "[[3, 5], [4]]"] by (simp add: in64_def clip_def)

text \<open>Percentile accuracy, end to end. Record any latencies into any number of histograms (at
  most two million samples), merge them and ask for percentile \<open>q\<close>: the answer is within
  1/128 of the sample whose rank is the nearest rank of \<open>q\<close> (the float computation may move
  the rank only where \<open>q * n / 100\<close> is within \<open>2e-9\<close> of an integer), whenever that sample is
  at most one hour, and it always lies between the smallest and the largest sample.\<close>

theorem histogram_percentile:
  assumes "\<forall>ds\<in>set dss. \<forall>d\<in>set ds. in64 d" and "0 < q" "q \<le> 100"
    and "0 < length (concat dss)" "length (concat dss) \<le> 2000000"
  shows "\<exists>r. 1 \<le> r \<and> r \<le> length (concat dss) \<and>
           \<lceil>exact_rank q (length (concat dss)) - 2 / 10 ^ 9\<rceil> \<le> int r \<and>
           int r \<le> max 1 \<lceil>exact_rank q (length (concat dss))\<rceil> \<and>
           (let L = map clip (concat dss); x = sort L ! (r - 1);
                y = percentile (combine (map record_all dss)) (Fin q)
            in (x \<le> maxTracked \<longrightarrow> 128 * \<bar>y - x\<bar> \<le> x) \<and> Min (set L) \<le> y \<and> y \<le> Max (set L))"
proof -
  let ?c = "combine (map record_all dss)"
  let ?L = "map clip (concat dss)"
  let ?n = "length (concat dss)"
  have t: "com_tally ?c ?L" by (rule record_alls_tally [OF assms(1)])
  then have "com_n ?c = of_nat ?n" unfolding com_tally_def tally_def length_map by blast
  then have nr: "nearest_rank ?c (Fin q) = unat (pct_rank (Fin q) (of_nat ?n))"
    by (simp only: nearest_rank_def)
  note rk = pct_rank_nearest [OF assms(2-5), folded nr]
  have "(2000000 :: nat) < 2 ^ 64" by simp
  with assms(5) have "?n < 2 ^ 64" by (rule le_less_trans)
  then have "length ?L < 2 ^ 64" by (simp only: length_map)
  moreover have "nearest_rank ?c (Fin q) \<le> length ?L" using rk unfolding length_map by blast
  ultimately show ?thesis
    using percentile_accuracy [OF t] rk unfolding Let_def by blast
qed

end
