(* ===== verification/Recorder.thy ===== *)
theory Recorder
  imports Histogram
begin

text \<open>
  \<open>internal/metrics/metrics.go\<close> and \<open>checks.go\<close>: recorders, the shards and check-name
  tables they share, and the merge into a \<open>Summary\<close>. Go's pointers to shards and name tables
  are addresses (list positions) in a \<open>mstore\<close>, so recorders that share a shard really share
  it. Event counters (\<open>int\<close> fields that only ever grow by one per event) are mathematical
  integers: a run of fewer than \<open>2^63\<close> events cannot overflow them.
\<close>

section \<open>Shards, recorders and the store they point into\<close>

definition maxStatus :: int where "maxStatus = 599"
definition numShards :: nat where "numShards = 16"

record shard =
  sh_ok :: histogram
  sh_failed :: histogram
  sh_statuses :: "u64 list"

definition newShard :: shard where
  "newShard = \<lparr>sh_ok = newHistogram, sh_failed = newHistogram,
               sh_statuses = replicate (nat (maxStatus + 1)) 0\<rparr>"

record protocols =
  p_HTTP1 :: int
  p_HTTP2 :: int
  p_Other :: int

record checkCount =
  cc_passes :: int
  cc_fails :: int
  cc_firstError :: string

record checkNames =
  cn_names :: "string list"
  cn_index :: "string \<rightharpoonup> nat"

record mstore =
  ms_shards :: "shard list"
  ms_tables :: "checkNames list"

record recorder =
  r_shard :: "nat option"
  r_unsent :: int
  r_scriptErrors :: int
  r_firstScriptError :: string
  r_iterations :: int
  r_protocols :: protocols
  r_checkNames :: "nat option"
  r_checkIndex :: "string \<rightharpoonup> nat"
  r_checks :: "checkCount list"
  r_fams :: bool
  r_shardIndex :: nat

definition zero_recorder :: recorder where
  "zero_recorder = \<lparr>r_shard = None, r_unsent = 0, r_scriptErrors = 0, r_firstScriptError = [],
     r_iterations = 0, r_protocols = \<lparr>p_HTTP1 = 0, p_HTTP2 = 0, p_Other = 0\<rparr>,
     r_checkNames = None, r_checkIndex = Map.empty, r_checks = [], r_fams = False,
     r_shardIndex = 0\<rparr>"

definition newCheckNames :: checkNames where
  "newCheckNames = \<lparr>cn_names = [], cn_index = Map.empty\<rparr>"

definition NewRecorders :: "mstore \<Rightarrow> nat \<Rightarrow> mstore \<times> recorder list" where
  "NewRecorders st n =
     (let base = length (ms_shards st);
          shards = replicate (min n numShards) newShard;
          names = length (ms_tables st)
      in (st\<lparr>ms_shards := ms_shards st @ shards, ms_tables := ms_tables st @ [newCheckNames]\<rparr>,
          map (\<lambda>i. zero_recorder\<lparr>r_shard := Some (base + i mod length shards),
                                 r_checkNames := Some names, r_shardIndex := i mod numShards\<rparr>)
              [0..<n]))"

section \<open>Recording\<close>

text \<open>A zero-value recorder gets a private shard on first use.\<close>

definition with_shard :: "mstore \<times> recorder \<Rightarrow> (mstore \<times> recorder) \<times> nat" where
  "with_shard = (\<lambda>(st, r). case r_shard r of
       Some k \<Rightarrow> ((st, r), k)
     | None \<Rightarrow> let k = length (ms_shards st)
               in ((st\<lparr>ms_shards := ms_shards st @ [newShard]\<rparr>, r\<lparr>r_shard := Some k\<rparr>), k))"

definition upd_shard :: "mstore \<Rightarrow> nat \<Rightarrow> (shard \<Rightarrow> shard) \<Rightarrow> mstore" where
  "upd_shard st k f = st\<lparr>ms_shards := (ms_shards st)[k := f (ms_shards st ! k)]\<rparr>"

definition Record :: "mstore \<times> recorder \<Rightarrow> duration \<Rightarrow> bool \<Rightarrow> mstore \<times> recorder" where
  "Record sr latency ok =
     (let ((st, r), k) = with_shard sr
      in if ok then (upd_shard st k (\<lambda>s. s\<lparr>sh_ok := hist_record (sh_ok s) latency\<rparr>), r)
         else (upd_shard st k (\<lambda>s. s\<lparr>sh_failed := hist_record (sh_failed s) latency\<rparr>), r))"

definition RecordUnsent :: "recorder \<Rightarrow> recorder" where
  "RecordUnsent r = r\<lparr>r_unsent := r_unsent r + 1\<rparr>"

definition RecordStatus :: "mstore \<times> recorder \<Rightarrow> int \<Rightarrow> mstore \<times> recorder" where
  "RecordStatus sr code =
     (let ((st, r), k) = with_shard sr;
          c = nat (if code < 100 \<or> code > maxStatus then 0 else code)
      in (upd_shard st k (\<lambda>s. s\<lparr>sh_statuses := (sh_statuses s)[c := sh_statuses s ! c + 1]\<rparr>), r))"

definition RecordProtocol :: "recorder \<Rightarrow> string \<Rightarrow> recorder" where
  "RecordProtocol r proto =
     (let p = r_protocols r
      in if proto = ''HTTP/2.0'' then r\<lparr>r_protocols := p\<lparr>p_HTTP2 := p_HTTP2 p + 1\<rparr>\<rparr>
         else if proto = ''HTTP/1.1'' \<or> proto = ''HTTP/1.0''
           then r\<lparr>r_protocols := p\<lparr>p_HTTP1 := p_HTTP1 p + 1\<rparr>\<rparr>
         else r\<lparr>r_protocols := p\<lparr>p_Other := p_Other p + 1\<rparr>\<rparr>)"

definition RecordIteration :: "recorder \<Rightarrow> recorder" where
  "RecordIteration r = r\<lparr>r_iterations := r_iterations r + 1\<rparr>"

definition RecordScriptError :: "recorder \<Rightarrow> string \<Rightarrow> recorder" where
  "RecordScriptError r msg =
     (let r' = (if r_scriptErrors r = 0 then r\<lparr>r_firstScriptError := msg\<rparr> else r)
      in r'\<lparr>r_scriptErrors := r_scriptErrors r + 1\<rparr>)"

text \<open>\<open>checkNames.id\<close>: a name's index, assigned on first use.\<close>

definition checkNames_id :: "checkNames \<Rightarrow> string \<Rightarrow> checkNames \<times> nat" where
  "checkNames_id c name = (case cn_index c name of
       Some i \<Rightarrow> (c, i)
     | None \<Rightarrow> let i = length (cn_names c)
               in (\<lparr>cn_names = cn_names c @ [name], cn_index = (cn_index c)(name \<mapsto> i)\<rparr>, i))"

definition zero_count :: checkCount where
  "zero_count = \<lparr>cc_passes = 0, cc_fails = 0, cc_firstError = []\<rparr>"

definition bump_check :: "checkCount \<Rightarrow> bool \<Rightarrow> string \<Rightarrow> checkCount" where
  "bump_check c passed errMsg =
     (if passed then c\<lparr>cc_passes := cc_passes c + 1\<rparr>
      else c\<lparr>cc_fails := cc_fails c + 1,
             cc_firstError := (if cc_firstError c = [] then errMsg else cc_firstError c)\<rparr>)"

definition RecordCheck :: "mstore \<times> recorder \<Rightarrow> string \<Rightarrow> bool \<Rightarrow> string \<Rightarrow> mstore \<times> recorder" where
  "RecordCheck sr name passed errMsg =
     (let (st, r) = (case sr of (st, r) \<Rightarrow> (case r_checkNames r of
              Some t \<Rightarrow> (st, r)
            | None \<Rightarrow> (st\<lparr>ms_tables := ms_tables st @ [newCheckNames]\<rparr>,
                       r\<lparr>r_checkNames := Some (length (ms_tables st))\<rparr>)));
          t = the (r_checkNames r);
          (st, r, i) = (case r_checkIndex r name of
              Some i \<Rightarrow> (st, r, i)
            | None \<Rightarrow> let (c, i) = checkNames_id (ms_tables st ! t) name
                      in (st\<lparr>ms_tables := (ms_tables st)[t := c]\<rparr>,
                          r\<lparr>r_checkIndex := (r_checkIndex r)(name \<mapsto> i)\<rparr>, i));
          checks = (if length (r_checks r) \<le> i
                    then r_checks r @ replicate (i + 1 - length (r_checks r)) zero_count
                    else r_checks r)
      in (st, r\<lparr>r_checks := checks[i := bump_check (checks ! i) passed errMsg]\<rparr>))"

section \<open>The summary\<close>

record checkResult =
  cr_Name :: string
  cr_Passes :: int
  cr_Fails :: int
  cr_FirstError :: string

text \<open>\<open>Kind\<close> is an \<open>int\<close> in Go: 0 is no kind, and values past \<open>Rate\<close> are possible.\<close>

type_synonym kind = int

definition Trend :: kind where "Trend = 1"
definition Counter :: kind where "Counter = 2"
definition Rate :: kind where "Rate = 3"

record familySummary =
  fs_Name :: string
  fs_Kind :: kind
  fs_Count :: int
  fs_Failed :: int
  fs_Trues :: int
  fs_Min :: duration
  fs_Mean :: duration
  fs_Max :: duration
  fs_P50 :: duration
  fs_P90 :: duration
  fs_P95 :: duration
  fs_P99 :: duration
  fs_latency :: "combined option"

record summary =
  s_Requests :: int
  s_Successes :: int
  s_Failures :: int
  s_Sent :: int
  s_ErrorRate :: f64
  s_Min :: duration
  s_Mean :: duration
  s_Max :: duration
  s_P50 :: duration
  s_P90 :: duration
  s_P95 :: duration
  s_P99 :: duration
  s_SuccessP50 :: duration
  s_SuccessP90 :: duration
  s_SuccessP95 :: duration
  s_SuccessP99 :: duration
  s_ScriptErrors :: int
  s_FirstScriptError :: string
  s_Checks :: "checkResult list"
  s_Iterations :: int
  s_Protocols :: protocols
  s_StatusCodes :: "(int \<times> int) list"
  s_DroppedIterations :: int
  s_Families :: "familySummary list"
  s_latency :: "combined option"

definition summary_zero :: summary where
  "summary_zero = \<lparr>s_Requests = 0, s_Successes = 0, s_Failures = 0, s_Sent = 0,
     s_ErrorRate = Fin 0, s_Min = 0, s_Mean = 0, s_Max = 0, s_P50 = 0, s_P90 = 0, s_P95 = 0,
     s_P99 = 0, s_SuccessP50 = 0, s_SuccessP90 = 0, s_SuccessP95 = 0, s_SuccessP99 = 0,
     s_ScriptErrors = 0, s_FirstScriptError = [], s_Checks = [], s_Iterations = 0,
     s_Protocols = \<lparr>p_HTTP1 = 0, p_HTTP2 = 0, p_Other = 0\<rparr>, s_StatusCodes = [],
     s_DroppedIterations = 0, s_Families = [], s_latency = None\<rparr>"

definition Percentile :: "summary \<Rightarrow> f64 \<Rightarrow> duration option" where
  "Percentile s p = (case s_latency s of
       None \<Rightarrow> None
     | Some c \<Rightarrow> if f64_le p (Fin 0) \<or> f64_lt (Fin 100) p then None else Some (percentile c p))"

section \<open>Merging\<close>

text \<open>\<open>mergeChecks\<close>: the first loop lists every name in its table's order, the second adds the
  tallies up. \<open>pos\<close> and \<open>out\<close> are the loops' variables; a missing key of \<open>pos\<close> would read as
  0, and \<open>None\<close> is an index out of range (a panic).\<close>

type_synonym checks_acc = "(string \<rightharpoonup> nat) \<times> checkResult list"

definition list_name :: "checks_acc \<Rightarrow> string \<Rightarrow> checks_acc" where
  "list_name = (\<lambda>(pos, out) name.
     if pos name = None
     then (pos(name \<mapsto> length out),
           out @ [\<lparr>cr_Name = name, cr_Passes = 0, cr_Fails = 0, cr_FirstError = []\<rparr>])
     else (pos, out))"

definition list_table ::
  "mstore \<Rightarrow> checks_acc \<times> (nat \<rightharpoonup> string list) \<Rightarrow> recorder \<Rightarrow> checks_acc \<times> (nat \<rightharpoonup> string list)" where
  "list_table st = (\<lambda>(acc, tables) r. case r_checkNames r of
       None \<Rightarrow> (acc, tables)
     | Some t \<Rightarrow>
         if tables t \<noteq> None \<and> tables t \<noteq> Some [] then (acc, tables)
         else let names = cn_names (ms_tables st ! t)
              in (foldl list_name acc names, tables(t \<mapsto> names)))"

definition add_check :: "checkResult \<Rightarrow> checkCount \<Rightarrow> checkResult" where
  "add_check x c = x\<lparr>cr_Passes := cr_Passes x + cc_passes c, cr_Fails := cr_Fails x + cc_fails c,
     cr_FirstError := (if cr_FirstError x = [] then cc_firstError c else cr_FirstError x)\<rparr>"

fun add_checks ::
  "(string \<rightharpoonup> nat) \<Rightarrow> string list \<Rightarrow> nat \<Rightarrow> checkCount list \<Rightarrow> checkResult list \<Rightarrow> checkResult list option" where
  "add_checks pos names i [] out = Some out"
| "add_checks pos names i (c # cs) out =
     (if length names \<le> i then None
      else let j = (case pos (names ! i) of None \<Rightarrow> 0 | Some j \<Rightarrow> j)
           in if length out \<le> j then None
              else add_checks pos names (Suc i) cs (out[j := add_check (out ! j) c]))"

fun add_recorders ::
  "(string \<rightharpoonup> nat) \<Rightarrow> (nat \<rightharpoonup> string list) \<Rightarrow> recorder list \<Rightarrow> checkResult list \<Rightarrow> checkResult list option" where
  "add_recorders pos tables [] out = Some out"
| "add_recorders pos tables (r # rs) out =
     (let names = (case r_checkNames r of None \<Rightarrow> []
                   | Some t \<Rightarrow> (case tables t of None \<Rightarrow> [] | Some ns \<Rightarrow> ns))
      in case add_checks pos names 0 (r_checks r) out of
           None \<Rightarrow> None
         | Some out' \<Rightarrow> add_recorders pos tables rs out')"

definition mergeChecks :: "mstore \<Rightarrow> recorder list \<Rightarrow> checkResult list option" where
  "mergeChecks st rs =
     (let ((pos, out), tables) = foldl (list_table st) ((Map.empty, []), Map.empty) rs
      in add_recorders pos tables rs out)"

text \<open>The shards the recorders use, each once, in the order they are first met.\<close>

fun seen_shards :: "recorder list \<Rightarrow> nat list \<Rightarrow> nat list" where
  "seen_shards [] seen = seen"
| "seen_shards (r # rs) seen =
     (case r_shard r of
        None \<Rightarrow> seen_shards rs seen
      | Some k \<Rightarrow> seen_shards rs (if k \<in> set seen then seen else seen @ [k]))"

definition mergeStatuses :: "shard list \<Rightarrow> (int \<times> int) list" where
  "mergeStatuses shards =
     (let totals = foldl (\<lambda>t sh. map2 (+) t (sh_statuses sh)) (replicate (nat (maxStatus + 1)) 0) shards
      in map (\<lambda>(c, n). (int c, sint n)) (filter (\<lambda>(c, n). n \<noteq> 0) (enumerate 0 totals)))"

definition merge_recorder :: "summary \<Rightarrow> recorder \<Rightarrow> summary" where
  "merge_recorder s r = s\<lparr>
     s_Failures := s_Failures s + r_unsent r,
     s_ScriptErrors := s_ScriptErrors s + r_scriptErrors r,
     s_Iterations := s_Iterations s + r_iterations r,
     s_Protocols := \<lparr>p_HTTP1 = p_HTTP1 (s_Protocols s) + p_HTTP1 (r_protocols r),
                     p_HTTP2 = p_HTTP2 (s_Protocols s) + p_HTTP2 (r_protocols r),
                     p_Other = p_Other (s_Protocols s) + p_Other (r_protocols r)\<rparr>,
     s_FirstScriptError := (if s_FirstScriptError s = [] then r_firstScriptError r
                            else s_FirstScriptError s)\<rparr>"

definition merge_success :: "combined \<Rightarrow> summary \<Rightarrow> summary" where
  "merge_success ok s =
     (if 0 < com_n ok
      then s\<lparr>s_SuccessP50 := percentile ok (Fin 50), s_SuccessP90 := percentile ok (Fin 90),
             s_SuccessP95 := percentile ok (Fin 95), s_SuccessP99 := percentile ok (Fin 99)\<rparr>
      else s)"

definition merge_latency :: "combined \<Rightarrow> summary \<Rightarrow> summary" where
  "merge_latency al s =
     (if com_n al = 0 then s
      else s\<lparr>s_latency := Some al, s_Min := com_min al, s_Max := com_max al,
             s_Mean := sint (com_sum al div com_n al),
             s_P50 := percentile al (Fin 50), s_P90 := percentile al (Fin 90),
             s_P95 := percentile al (Fin 95), s_P99 := percentile al (Fin 99)\<rparr>)"

definition Merge :: "mstore \<Rightarrow> recorder list \<Rightarrow> summary option" where
  "Merge st rs = (case mergeChecks st rs of
       None \<Rightarrow> None
     | Some checks \<Rightarrow>
         let s = foldl merge_recorder summary_zero rs;
             shards = map (\<lambda>k. ms_shards st ! k) (seen_shards rs []);
             okHists = map sh_ok shards;
             failedHists = map sh_failed shards;
             ok = combine okHists;
             al = combine (okHists @ failedHists);
             successes = sint (com_n ok);
             sent = sint (com_n al);
             failures = s_Failures s + (sent - successes);
             requests = successes + failures;
             s' = s\<lparr>s_Checks := checks, s_StatusCodes := mergeStatuses shards,
                    s_Successes := successes, s_Sent := sent, s_Failures := failures,
                    s_Requests := requests,
                    s_ErrorRate := (if 0 < requests
                       then f64_div (f64_of_int failures) (f64_of_int requests)
                       else Fin 0)\<rparr>
         in Some (merge_latency al (merge_success ok s')))"

section \<open>Runs: events on the recorders of one test\<close>

datatype event =
    EvRequest duration bool
  | EvUnsent
  | EvStatus int
  | EvProtocol string
  | EvIteration
  | EvScriptError string
  | EvCheck string bool string

fun apply_event :: "mstore \<times> recorder \<Rightarrow> event \<Rightarrow> mstore \<times> recorder" where
  "apply_event sr (EvRequest d ok) = Record sr d ok"
| "apply_event sr EvUnsent = (fst sr, RecordUnsent (snd sr))"
| "apply_event sr (EvStatus c) = RecordStatus sr c"
| "apply_event sr (EvProtocol p) = (fst sr, RecordProtocol (snd sr) p)"
| "apply_event sr EvIteration = (fst sr, RecordIteration (snd sr))"
| "apply_event sr (EvScriptError m) = (fst sr, RecordScriptError (snd sr) m)"
| "apply_event sr (EvCheck name passed err) = RecordCheck sr name passed err"

definition run_event :: "mstore \<times> recorder list \<Rightarrow> nat \<times> event \<Rightarrow> mstore \<times> recorder list" where
  "run_event = (\<lambda>(st, rs) (i, e). let (st', r') = apply_event (st, rs ! i) e in (st', rs[i := r']))"

definition mstore_empty :: mstore where
  "mstore_empty = \<lparr>ms_shards = [], ms_tables = []\<rparr>"

definition run_events :: "nat \<Rightarrow> (nat \<times> event) list \<Rightarrow> mstore \<times> recorder list" where
  "run_events n es = foldl run_event (NewRecorders mstore_empty n) es"

definition run_summary :: "nat \<Rightarrow> (nat \<times> event) list \<Rightarrow> summary option" where
  "run_summary n es = (case run_events n es of (st, rs) \<Rightarrow> Merge st rs)"

text \<open>What a trace of events amounts to, independently of who recorded what.\<close>

fun latency_of :: "bool \<Rightarrow> event \<Rightarrow> duration list" where
  "latency_of b (EvRequest d ok) = (if ok = b then [d] else [])"
| "latency_of b _ = []"

definition latencies :: "bool \<Rightarrow> (nat \<times> event) list \<Rightarrow> duration list" where
  "latencies b es = concat (map (latency_of b \<circ> snd) es)"

definition count_ev :: "(event \<Rightarrow> bool) \<Rightarrow> (nat \<times> event) list \<Rightarrow> int" where
  "count_ev P es = int (length (filter (P \<circ> snd) es))"

definition status_slot :: "int \<Rightarrow> int" where
  "status_slot code = (if code < 100 \<or> code > maxStatus then 0 else code)"

fun is_status :: "int \<Rightarrow> event \<Rightarrow> bool" where
  "is_status c (EvStatus code) = (status_slot code = c)"
| "is_status c _ = False"

definition http2_proto :: "string \<Rightarrow> bool" where
  "http2_proto p \<longleftrightarrow> p = ''HTTP/2.0''"

definition http1_proto :: "string \<Rightarrow> bool" where
  "http1_proto p \<longleftrightarrow> p = ''HTTP/1.1'' \<or> p = ''HTTP/1.0''"

fun is_proto :: "(string \<Rightarrow> bool) \<Rightarrow> event \<Rightarrow> bool" where
  "is_proto P (EvProtocol p) = P p"
| "is_proto P _ = False"

fun is_script_error :: "event \<Rightarrow> bool" where
  "is_script_error (EvScriptError _) = True"
| "is_script_error _ = False"

fun is_check :: "string \<Rightarrow> bool \<Rightarrow> event \<Rightarrow> bool" where
  "is_check n b (EvCheck m passed _) = (m = n \<and> passed = b)"
| "is_check n b _ = False"

definition valid_trace :: "nat \<Rightarrow> (nat \<times> event) list \<Rightarrow> bool" where
  "valid_trace n es \<longleftrightarrow> (\<forall>(i, e)\<in>set es. i < n \<and>
     (\<forall>d ok. e = EvRequest d ok \<longrightarrow> in64 d)) \<and> length es < 2 ^ 63"

lemma count_ev_snoc [simp]:
  "count_ev P (es @ [x]) = count_ev P es + (if P (snd x) then 1 else 0)"
  by (simp add: count_ev_def)

lemma count_ev_Nil [simp]: "count_ev P [] = 0"
  by (simp add: count_ev_def)

lemma latencies_snoc [simp]: "latencies b (es @ [x]) = latencies b es @ latency_of b (snd x)"
  by (simp add: latencies_def)

lemma latencies_Nil [simp]: "latencies b [] = []"
  by (simp add: latencies_def)

lemma latencies_append: "latencies b (es @ fs) = latencies b es @ latencies b fs"
  by (simp add: latencies_def)

text \<open>The fields no event changes, and the sharing set up by \<open>NewRecorders\<close>.\<close>

definition shaped :: "nat \<Rightarrow> mstore \<Rightarrow> recorder list \<Rightarrow> bool" where
  "shaped n st rs \<longleftrightarrow> length rs = n \<and> length (ms_shards st) = min n numShards \<and>
     length (ms_tables st) = 1 \<and>
     (\<forall>i<n. r_shard (rs ! i) = Some (i mod min n numShards) \<and> r_checkNames (rs ! i) = Some 0)"

lemma shaped_new: "shaped n (fst (NewRecorders mstore_empty n)) (snd (NewRecorders mstore_empty n))"
  by (simp add: shaped_def NewRecorders_def mstore_empty_def Let_def)

lemma with_shard_Some: "r_shard r = Some k \<Longrightarrow> with_shard (st, r) = ((st, r), k)"
  by (simp add: with_shard_def)

lemma shaped_shard:
  assumes "shaped n st rs" "i < n"
  shows "i mod min n numShards < length (ms_shards st)"
proof -
  have "0 < min n numShards" using assms(2) by (simp add: numShards_def)
  then have "i mod min n numShards < min n numShards" by (rule mod_less_divisor)
  then show ?thesis using assms(1) by (simp add: shaped_def)
qed

lemma Record_shaped:
  "r_shard r = Some k \<Longrightarrow> Record (st, r) d ok =
     (upd_shard st k (\<lambda>s. if ok then s\<lparr>sh_ok := hist_record (sh_ok s) d\<rparr>
                          else s\<lparr>sh_failed := hist_record (sh_failed s) d\<rparr>), r)"
  by (simp add: Record_def with_shard_Some)

lemma RecordStatus_shaped:
  "r_shard r = Some k \<Longrightarrow> RecordStatus (st, r) code =
     (upd_shard st k (\<lambda>s. s\<lparr>sh_statuses := (sh_statuses s)[nat (status_slot code) :=
        sh_statuses s ! nat (status_slot code) + 1]\<rparr>), r)"
  by (simp add: RecordStatus_def with_shard_Some status_slot_def Let_def)

lemma upd_shard_simps [simp]:
  "length (ms_shards (upd_shard st k f)) = length (ms_shards st)"
  "ms_tables (upd_shard st k f) = ms_tables st"
  by (simp_all add: upd_shard_def)

definition check_slot :: "mstore \<Rightarrow> recorder \<Rightarrow> string \<Rightarrow> checkNames \<times> nat" where
  "check_slot st r name = (case r_checkIndex r name of
       Some i \<Rightarrow> (ms_tables st ! 0, i)
     | None \<Rightarrow> checkNames_id (ms_tables st ! 0) name)"

definition grow_checks :: "checkCount list \<Rightarrow> nat \<Rightarrow> checkCount list" where
  "grow_checks cs i = (if length cs \<le> i then cs @ replicate (i + 1 - length cs) zero_count else cs)"

lemma RecordCheck_shaped:
  assumes "r_checkNames r = Some 0" "ms_tables st = [t]"
  shows "RecordCheck (st, r) name passed err =
    (case check_slot st r name of (c, i) \<Rightarrow>
       (st\<lparr>ms_tables := [c]\<rparr>,
        r\<lparr>r_checkIndex := (r_checkIndex r)(name \<mapsto> i),
          r_checks := (grow_checks (r_checks r) i)[i := bump_check (grow_checks (r_checks r) i ! i) passed err]\<rparr>))"
proof (cases "r_checkIndex r name")
  case None
  then show ?thesis using assms
    by (auto simp: RecordCheck_def check_slot_def grow_checks_def Let_def split: prod.splits)
next
  case (Some i)
  then have "(r_checkIndex r)(name \<mapsto> i) = r_checkIndex r" by (auto simp: fun_upd_idem)
  moreover have "st\<lparr>ms_tables := [t]\<rparr> = st" using assms(2) by simp
  ultimately show ?thesis using assms Some
    by (simp add: RecordCheck_def check_slot_def grow_checks_def Let_def)
qed

lemma one_table: "length (ms_tables st) = 1 \<Longrightarrow> ms_tables st = [ms_tables st ! 0]"
  by (cases "ms_tables st") auto

lemma apply_event_frame:
  assumes "r_shard r = Some k" "r_checkNames r = Some 0" "length (ms_tables st) = 1"
    and "apply_event (st, r) e = (st', r')"
  shows "r_shard r' = Some k \<and> r_checkNames r' = Some 0 \<and>
         length (ms_shards st') = length (ms_shards st) \<and> length (ms_tables st') = 1"
proof (cases e)
  case (EvCheck name passed err)
  then show ?thesis using assms RecordCheck_shaped [OF assms(2) one_table [OF assms(3)]]
    by (auto split: prod.splits)
qed (use assms in \<open>auto simp: Record_shaped RecordStatus_shaped RecordUnsent_def RecordProtocol_def
       RecordIteration_def RecordScriptError_def Let_def split: if_splits\<close>)

lemma run_event_shaped:
  assumes "shaped n st rs" "i < n" "run_event (st, rs) (i, e) = (st', rs')"
  shows "shaped n st' rs'"
proof -
  obtain r' where r': "apply_event (st, rs ! i) e = (st', r')" "rs' = rs[i := r']"
    using assms(3) by (auto simp: run_event_def split: prod.splits)
  have "r_shard (rs ! i) = Some (i mod min n numShards)" "r_checkNames (rs ! i) = Some 0"
    "length (ms_tables st) = 1" using assms(1,2) by (simp_all add: shaped_def)
  from apply_event_frame [OF this r'(1)] show ?thesis
    using assms(1,2) r'(2) by (auto simp: shaped_def nth_list_update)
qed

text \<open>Totals over the recorders.\<close>

lemma sum_list_update_int:
  "i < length xs \<Longrightarrow> sum_list (map f (xs[i := y])) = sum_list (map f xs) - f (xs ! i) + (f y :: int)"
proof (induction xs arbitrary: i)
  case Nil
  then show ?case by simp
next
  case (Cons x xs)
  then show ?case by (cases i) simp_all
qed

definition totals_inv :: "recorder list \<Rightarrow> (nat \<times> event) list \<Rightarrow> bool" where
  "totals_inv rs es \<longleftrightarrow>
     sum_list (map r_unsent rs) = count_ev (\<lambda>e. e = EvUnsent) es \<and>
     sum_list (map r_iterations rs) = count_ev (\<lambda>e. e = EvIteration) es \<and>
     sum_list (map r_scriptErrors rs) = count_ev is_script_error es \<and>
     sum_list (map (p_HTTP2 \<circ> r_protocols) rs) = count_ev (is_proto http2_proto) es \<and>
     sum_list (map (p_HTTP1 \<circ> r_protocols) rs) = count_ev (is_proto http1_proto) es \<and>
     sum_list (map (p_Other \<circ> r_protocols) rs) =
       count_ev (is_proto (\<lambda>p. \<not> http1_proto p \<and> \<not> http2_proto p)) es"

lemma totals_new: "totals_inv (snd (NewRecorders mstore_empty n)) []"
  by (simp add: totals_inv_def NewRecorders_def zero_recorder_def Let_def comp_def
      sum_list_triv)

lemma totals_step:
  assumes "shaped n st rs" "i < n" "run_event (st, rs) (i, e) = (st', rs')" "totals_inv rs es"
  shows "totals_inv rs' (es @ [(i, e)])"
proof -
  obtain r' where r': "apply_event (st, rs ! i) e = (st', r')" "rs' = rs[i := r']"
    using assms(3) by (auto simp: run_event_def split: prod.splits)
  have f: "r_shard (rs ! i) = Some (i mod min n numShards)" "r_checkNames (rs ! i) = Some 0"
    "length (ms_tables st) = 1" "i < length rs" using assms(1,2) by (simp_all add: shaped_def)
  show ?thesis
  proof (cases e)
    case (EvCheck name passed err)
    then show ?thesis using assms(4) r' f RecordCheck_shaped [OF f(2) one_table [OF f(3)]]
      by (auto simp: totals_inv_def sum_list_update_int split: prod.splits)
  qed (use assms(4) r' f in \<open>auto simp: totals_inv_def sum_list_update_int Record_shaped
      RecordStatus_shaped RecordUnsent_def RecordProtocol_def RecordIteration_def
      RecordScriptError_def http1_proto_def http2_proto_def Let_def split: if_splits\<close>)
qed

text \<open>The latencies: every shard stands for some of them, all shards together for all.\<close>

definition sh_sel :: "bool \<Rightarrow> shard \<Rightarrow> histogram" where
  "sh_sel b s = (if b then sh_ok s else sh_failed s)"

definition lat_inv :: "bool \<Rightarrow> mstore \<Rightarrow> (nat \<times> event) list \<Rightarrow> bool" where
  "lat_inv b st es \<longleftrightarrow> (\<exists>Ls. list_all2 hist_tally (map (sh_sel b) (ms_shards st)) Ls \<and>
     mset (concat Ls) = mset (map clip (latencies b es)))"

lemma lat_new: "lat_inv b (fst (NewRecorders mstore_empty n)) []"
proof -
  let ?m = "min n numShards"
  have "list_all2 hist_tally (replicate ?m newHistogram) (replicate ?m [])"
    by (simp add: list_all2_conv_all_nth tally_new)
  moreover have "sh_sel b newShard = newHistogram"
    by (simp add: sh_sel_def newShard_def)
  ultimately show ?thesis unfolding lat_inv_def NewRecorders_def mstore_empty_def
    by (intro exI [of _ "replicate ?m []"]) (simp add: Let_def)
qed

lemma mset_concat_append_at:
  "k < length Ls \<Longrightarrow> mset (concat (Ls[k := Ls ! k @ xs])) = mset (concat Ls) + mset xs"
proof (induction Ls arbitrary: k)
  case Nil
  then show ?case by simp
next
  case (Cons L Ls)
  then show ?case by (cases k) simp_all
qed

lemma lat_put:
  assumes inv: "lat_inv b st es" and k: "k < length (ms_shards st)" and d: "in64 d"
    and sel: "sh_sel b (f (ms_shards st ! k)) = hist_record (sh_sel b (ms_shards st ! k)) d"
  shows "lat_inv b (upd_shard st k f) (es @ [(i, EvRequest d b)])"
proof -
  obtain Ls where Ls: "list_all2 hist_tally (map (sh_sel b) (ms_shards st)) Ls"
    "mset (concat Ls) = mset (map clip (latencies b es))"
    using inv unfolding lat_inv_def by blast
  have len: "length Ls = length (ms_shards st)" using list_all2_lengthD [OF Ls(1)] by simp
  have hk: "hist_tally (sh_sel b (ms_shards st ! k)) (Ls ! k)"
    using list_all2_nthD [OF Ls(1), of k] k by simp
  have "list_all2 hist_tally (map (sh_sel b) (ms_shards (upd_shard st k f)))
          (Ls[k := Ls ! k @ [clip d]])"
    unfolding upd_shard_def using Ls(1) hist.put_stands [OF hk d] sel
    by (simp add: map_update list_all2_update_cong)
  then show ?thesis unfolding lat_inv_def using Ls(2) k len
    by (intro exI [of _ "Ls[k := Ls ! k @ [clip d]]"]) (simp add: mset_concat_append_at)
qed

lemma lat_keep:
  assumes "lat_inv b st es" "map (sh_sel b) (ms_shards st') = map (sh_sel b) (ms_shards st)"
    and "latency_of b e = []"
  shows "lat_inv b st' (es @ [(i, e)])"
  using assms by (simp add: lat_inv_def)

lemma map_upd_shard:
  "(\<And>s. g (f s) = g s) \<Longrightarrow> map g (ms_shards (upd_shard st k f)) = map g (ms_shards st)"
  by (cases "k < length (ms_shards st)")
     (auto simp: upd_shard_def map_update list_update_same_conv list_update_beyond)

lemma lat_step:
  assumes "shaped n st rs" "i < n" "run_event (st, rs) (i, e) = (st', rs')" "lat_inv b st es"
    and "\<And>d ok. e = EvRequest d ok \<Longrightarrow> in64 d"
  shows "lat_inv b st' (es @ [(i, e)])"
proof -
  obtain r' where r': "apply_event (st, rs ! i) e = (st', r')"
    using assms(3) by (auto simp: run_event_def split: prod.splits)
  let ?k = "i mod min n numShards"
  have f: "r_shard (rs ! i) = Some ?k" "r_checkNames (rs ! i) = Some 0" "length (ms_tables st) = 1"
    using assms(1,2) by (simp_all add: shaped_def)
  note k = shaped_shard [OF assms(1,2)]
  show ?thesis
  proof (cases e)
    case (EvRequest d ok)
    let ?f = "\<lambda>s. if ok then s\<lparr>sh_ok := hist_record (sh_ok s) d\<rparr> else s\<lparr>sh_failed := hist_record (sh_failed s) d\<rparr>"
    have st': "st' = upd_shard st ?k ?f" using r' f EvRequest by (simp add: Record_shaped)
    show ?thesis
    proof (cases "ok = b")
      case True
      then show ?thesis unfolding st' EvRequest True [symmetric]
        using assms(4,5) EvRequest k True by (intro lat_put) (simp_all add: sh_sel_def)
    next
      case False
      then show ?thesis unfolding st' EvRequest
        by (intro lat_keep [OF assms(4)] map_upd_shard) (simp_all add: sh_sel_def)
    qed
  next
    case (EvStatus c)
    then show ?thesis using r' f
      by (intro lat_keep [OF assms(4)]) (auto simp: RecordStatus_shaped map_upd_shard sh_sel_def)
  next
    case (EvCheck name passed err)
    then show ?thesis using r' f RecordCheck_shaped [OF f(2) one_table [OF f(3)]]
      by (intro lat_keep [OF assms(4)]) (auto split: prod.splits)
  qed (use r' assms(4) in \<open>auto intro!: lat_keep\<close>)
qed

text \<open>The status counts, summed over the shards.\<close>

definition status_inv :: "mstore \<Rightarrow> (nat \<times> event) list \<Rightarrow> bool" where
  "status_inv st es \<longleftrightarrow>
     (\<forall>sh\<in>set (ms_shards st). length (sh_statuses sh) = nat (maxStatus + 1)) \<and>
     (\<forall>c<nat (maxStatus + 1). sum_list (map (\<lambda>sh. sh_statuses sh ! c) (ms_shards st)) =
        of_int (count_ev (is_status (int c)) es))"

lemma status_new: "status_inv (fst (NewRecorders mstore_empty n)) []"
  by (simp add: status_inv_def NewRecorders_def mstore_empty_def newShard_def Let_def sum_list_replicate)

lemma sum_list_update_u64:
  "k < length xs \<Longrightarrow> sum_list (map f (xs[k := y])) = sum_list (map f xs) - f (xs ! k) + (f y :: u64)"
proof (induction xs arbitrary: k)
  case Nil
  then show ?case by simp
next
  case (Cons x xs)
  then show ?case by (cases k) (simp_all add: algebra_simps)
qed

lemma status_slot_range: "0 \<le> status_slot c \<and> status_slot c < maxStatus + 1"
  by (auto simp: status_slot_def maxStatus_def)

lemma status_put:
  assumes "status_inv st es" "k < length (ms_shards st)"
  shows "status_inv (upd_shard st k (\<lambda>s. s\<lparr>sh_statuses := (sh_statuses s)[nat (status_slot code) :=
           sh_statuses s ! nat (status_slot code) + 1]\<rparr>)) (es @ [(i, EvStatus code)])"
proof -
  let ?s = "ms_shards st ! k"
  let ?n = "nat (status_slot code)"
  have len: "length (sh_statuses ?s) = nat (maxStatus + 1)" using assms by (simp add: status_inv_def)
  have nn: "?n < nat (maxStatus + 1)" using status_slot_range [of code] by linarith
  have eq: "int c = status_slot code \<longleftrightarrow> c = ?n" for c using status_slot_range [of code] by linarith
  show ?thesis using assms len nn status_slot_range [of code]
    by (auto simp: status_inv_def upd_shard_def sum_list_update_u64 set_update_subset_insert [THEN subsetD]
        nth_list_update eq dest!: set_update_subset_insert [THEN subsetD])
qed

lemma status_step:
  assumes "shaped n st rs" "i < n" "run_event (st, rs) (i, e) = (st', rs')" "status_inv st es"
  shows "status_inv st' (es @ [(i, e)])"
proof -
  obtain r' where r': "apply_event (st, rs ! i) e = (st', r')"
    using assms(3) by (auto simp: run_event_def split: prod.splits)
  let ?k = "i mod min n numShards"
  have f: "r_shard (rs ! i) = Some ?k" "r_checkNames (rs ! i) = Some 0" "length (ms_tables st) = 1"
    using assms(1,2) by (simp_all add: shaped_def)
  note k = shaped_shard [OF assms(1,2)]
  have keep: "status_inv st'' (es @ [(i, e)])"
    if "map sh_statuses (ms_shards st'') = map sh_statuses (ms_shards st)" "\<And>c. \<not> is_status c e" for st''
  proof -
    have "map (\<lambda>sh. sh_statuses sh ! c) (ms_shards st'') = map (\<lambda>sh. sh_statuses sh ! c) (ms_shards st)" for c
      using arg_cong [OF that(1), of "map (\<lambda>l. l ! c)"] by (simp add: comp_def)
    moreover have "sh_statuses ` set (ms_shards st'') = sh_statuses ` set (ms_shards st)"
      using arg_cong [OF that(1), of set] by simp
    ultimately show ?thesis using assms(4) that(2) unfolding status_inv_def by (auto simp: set_eq_iff image_iff) metis
  qed
  show ?thesis
  proof (cases e)
    case (EvStatus code)
    have "st' = upd_shard st ?k (\<lambda>s. s\<lparr>sh_statuses := (sh_statuses s)[nat (status_slot code) :=
        sh_statuses s ! nat (status_slot code) + 1]\<rparr>)"
      using r' f EvStatus by (simp add: RecordStatus_shaped)
    then show ?thesis unfolding EvStatus by (simp only: status_put [OF assms(4) k])
  next
    case (EvRequest d ok)
    then show ?thesis using r' f by (intro keep) (auto simp: Record_shaped map_upd_shard)
  next
    case (EvCheck name passed err)
    then show ?thesis using r' f RecordCheck_shaped [OF f(2) one_table [OF f(3)]]
      by (intro keep) (auto split: prod.splits)
  qed (rule keep; use r' in simp)+
qed

text \<open>The checks: the shared name table lists the names in first-run order, and the recorders'
  tallies add up to the events.\<close>

fun note_check :: "string list \<Rightarrow> event \<Rightarrow> string list" where
  "note_check ns (EvCheck n _ _) = (if n \<in> set ns then ns else ns @ [n])"
| "note_check ns _ = ns"

definition first_runs :: "(nat \<times> event) list \<Rightarrow> string list" where
  "first_runs es = foldl (\<lambda>ns x. note_check ns (snd x)) [] es"

definition passes_at :: "nat \<Rightarrow> recorder \<Rightarrow> int" where
  "passes_at i r = (if i < length (r_checks r) then cc_passes (r_checks r ! i) else 0)"

definition fails_at :: "nat \<Rightarrow> recorder \<Rightarrow> int" where
  "fails_at i r = (if i < length (r_checks r) then cc_fails (r_checks r ! i) else 0)"

definition index_ok :: "checkNames \<Rightarrow> bool" where
  "index_ok t \<longleftrightarrow> distinct (cn_names t) \<and>
     (\<forall>n i. cn_index t n = Some i \<longleftrightarrow> i < length (cn_names t) \<and> cn_names t ! i = n)"

definition cache_ok :: "string list \<Rightarrow> recorder \<Rightarrow> bool" where
  "cache_ok names r \<longleftrightarrow> length (r_checks r) \<le> length names \<and>
     (\<forall>n i. r_checkIndex r n = Some i \<longrightarrow> i < length names \<and> names ! i = n)"

definition checks_inv :: "mstore \<Rightarrow> recorder list \<Rightarrow> (nat \<times> event) list \<Rightarrow> bool" where
  "checks_inv st rs es \<longleftrightarrow>
     index_ok (ms_tables st ! 0) \<and> cn_names (ms_tables st ! 0) = first_runs es \<and>
     (\<forall>r\<in>set rs. cache_ok (first_runs es) r) \<and>
     (\<forall>i<length (first_runs es).
        sum_list (map (passes_at i) rs) = count_ev (is_check (first_runs es ! i) True) es \<and>
        sum_list (map (fails_at i) rs) = count_ev (is_check (first_runs es ! i) False) es)"

lemma first_runs_snoc [simp]: "first_runs (es @ [x]) = note_check (first_runs es) (snd x)"
  by (simp add: first_runs_def)

lemma first_runs_Nil [simp]: "first_runs [] = []"
  by (simp add: first_runs_def)

lemma not_run_count: "n \<notin> set (first_runs es) \<Longrightarrow> count_ev (is_check n b) es = 0"
proof (induction es rule: rev_induct)
  case Nil
  then show ?case by simp
next
  case (snoc x es)
  then show ?case by (cases "snd x") (auto split: if_splits)
qed

lemma note_check_other: "(\<And>n p m. e \<noteq> EvCheck n p m) \<Longrightarrow> note_check ns e = ns \<and> \<not> is_check n b e"
  by (cases e) auto

lemma checks_new: "checks_inv (fst (NewRecorders mstore_empty n)) (snd (NewRecorders mstore_empty n)) []"
  by (simp add: checks_inv_def NewRecorders_def mstore_empty_def newCheckNames_def index_ok_def
      cache_ok_def zero_recorder_def Let_def)

lemma checkNames_id_ok:
  assumes "index_ok t" "checkNames_id t name = (t', i)"
  shows "index_ok t' \<and> i < length (cn_names t') \<and> cn_names t' ! i = name \<and>
         cn_names t' = (if name \<in> set (cn_names t) then cn_names t else cn_names t @ [name])"
proof (cases "cn_index t name")
  case None
  then have "name \<notin> set (cn_names t)" using assms(1)
    unfolding index_ok_def in_set_conv_nth by (metis option.distinct(1))
  then show ?thesis using assms None
    by (auto simp: checkNames_id_def index_ok_def nth_append less_Suc_eq Let_def split: if_splits)
next
  case (Some j)
  then have "j < length (cn_names t)" "cn_names t ! j = name" using assms(1) by (auto simp: index_ok_def)
  then show ?thesis using assms Some by (auto simp: checkNames_id_def)
qed

lemma check_slot_ok:
  assumes "index_ok (ms_tables st ! 0)" "cache_ok (cn_names (ms_tables st ! 0)) r"
    and "check_slot st r name = (c, i)"
  shows "index_ok c \<and> i < length (cn_names c) \<and> cn_names c ! i = name \<and>
         cn_names c = (if name \<in> set (cn_names (ms_tables st ! 0)) then cn_names (ms_tables st ! 0)
                       else cn_names (ms_tables st ! 0) @ [name])"
proof (cases "r_checkIndex r name")
  case None
  then have "checkNames_id (ms_tables st ! 0) name = (c, i)" using assms(3) by (simp add: check_slot_def)
  then show ?thesis by (rule checkNames_id_ok [OF assms(1)])
next
  case (Some j)
  then have "j < length (cn_names (ms_tables st ! 0)) \<and> cn_names (ms_tables st ! 0) ! j = name"
    using assms(2) by (auto simp: cache_ok_def)
  then show ?thesis using assms Some by (auto simp: check_slot_def)
qed

lemma grow_checks_nth:
  "i < length (grow_checks cs i) \<and> length (grow_checks cs i) = max (length cs) (i + 1) \<and>
   (\<forall>j<length (grow_checks cs i). grow_checks cs i ! j = (if j < length cs then cs ! j else zero_count))"
  by (auto simp: grow_checks_def nth_append)

lemma bumped_at:
  fixes r :: recorder and passed :: bool and err :: string and i :: nat and ci :: "string \<rightharpoonup> nat"
  defines "g \<equiv> grow_checks (r_checks r) i"
  defines "r' \<equiv> r\<lparr>r_checkIndex := ci, r_checks := g[i := bump_check (g ! i) passed err]\<rparr>"
  shows "passes_at j r' = passes_at j r + (if j = i \<and> passed then 1 else 0)"
    and "fails_at j r' = fails_at j r + (if j = i \<and> \<not> passed then 1 else 0)"
  using grow_checks_nth [of i "r_checks r"]
  by (auto simp: passes_at_def fails_at_def r'_def g_def [symmetric] nth_list_update bump_check_def zero_count_def)

lemma sum_list_map_zero: "\<forall>x\<in>set xs. f x = (0 :: int) \<Longrightarrow> sum_list (map f xs) = 0"
  by (induction xs) simp_all

lemma passes_past: "length (r_checks r) \<le> i \<Longrightarrow> passes_at i r = 0 \<and> fails_at i r = 0"
  by (simp add: passes_at_def fails_at_def)

lemma cache_ok_extend:
  "cache_ok names r \<Longrightarrow> cache_ok (names @ ns) r"
  by (force simp: cache_ok_def nth_append)

lemma checks_keep:
  assumes "checks_inv st rs es" "ms_tables st' = ms_tables st" "i < length rs"
    and "r_checks r' = r_checks (rs ! i)" "r_checkIndex r' = r_checkIndex (rs ! i)"
    and "\<And>n p m. e \<noteq> EvCheck n p m"
  shows "checks_inv st' (rs[i := r']) (es @ [(k, e)])"
proof -
  have p: "passes_at j r' = passes_at j (rs ! i)" "fails_at j r' = fails_at j (rs ! i)" for j
    using assms(4) by (simp_all add: passes_at_def fails_at_def)
  have "cache_ok (first_runs es) (rs ! i)" using assms(1,3) by (simp add: checks_inv_def)
  then have c: "cache_ok (first_runs es) r'" using assms(4,5) by (simp add: cache_ok_def)
  have n: "note_check ns e = ns" "\<not> is_check n b e" for ns n b
    using note_check_other [of e] assms(6) by blast+
  show ?thesis using assms(1-3) c
    by (auto simp: checks_inv_def sum_list_update_int p n dest: set_update_subset_insert [THEN subsetD])
qed

lemma checks_put:
  fixes passed :: bool and err :: string
  assumes inv: "checks_inv st rs es" and k: "k < length rs"
    and slot: "check_slot st (rs ! k) name = (c, i)"
  defines "g \<equiv> grow_checks (r_checks (rs ! k)) i"
  defines "r' \<equiv> (rs ! k)\<lparr>r_checkIndex := (r_checkIndex (rs ! k))(name \<mapsto> i),
                 r_checks := g[i := bump_check (g ! i) passed err]\<rparr>"
  shows "checks_inv (st\<lparr>ms_tables := [c]\<rparr>) (rs[k := r']) (es @ [(k, EvCheck name passed err)])"
proof -
  let ?es' = "es @ [(k, EvCheck name passed err)]"
  define N where "N = first_runs es"
  define N' where "N' = first_runs ?es'"
  have N': "N' = (if name \<in> set N then N else N @ [name])" by (simp add: N_def N'_def)
  have ok: "index_ok (ms_tables st ! 0)" "cn_names (ms_tables st ! 0) = N"
    "\<forall>r\<in>set rs. cache_ok N r" using inv by (simp_all add: checks_inv_def N_def)
  have ck: "cache_ok (cn_names (ms_tables st ! 0)) (rs ! k)" using ok k by simp
  have "index_ok c \<and> i < length (cn_names c) \<and> cn_names c ! i = name \<and> cn_names c = N'"
    using check_slot_ok [OF ok(1) ck slot] unfolding ok(2) N' .
  then have co: "index_ok c" "i < length N'" "N' ! i = name" "cn_names c = N'" by auto
  have cache: "\<forall>r\<in>set (rs[k := r']). cache_ok N' r"
  proof
    fix r assume "r \<in> set (rs[k := r'])"
    then consider "r = r'" | "r \<in> set rs" using set_update_subset_insert by fast
    then show "cache_ok N' r"
    proof cases
      case 1
      have "cache_ok N' (rs ! k)" using ck ok(2) N' by (simp add: cache_ok_extend)
      then show ?thesis unfolding 1 r'_def g_def
        using co grow_checks_nth [of i "r_checks (rs ! k)"] by (auto simp: cache_ok_def)
    next
      case 2
      then show ?thesis using ok(3) N' by (simp add: cache_ok_extend)
    qed
  qed
  have old: "sum_list (map (passes_at j) rs) = count_ev (is_check (N' ! j) True) es \<and>
             sum_list (map (fails_at j) rs) = count_ev (is_check (N' ! j) False) es"
    if j: "j < length N'" for j
  proof (cases "j < length N")
    case True
    then show ?thesis using inv N' by (auto simp: checks_inv_def N_def nth_append)
  next
    case False
    then have jn: "name \<notin> set N" "N' ! j = name" using j N' by (auto simp: nth_append split: if_splits)
    have "\<forall>r\<in>set rs. passes_at j r = 0 \<and> fails_at j r = 0"
      using ok(3) False passes_past by (auto simp: cache_ok_def)
    then show ?thesis using not_run_count [of name es] jn by (simp add: N_def sum_list_map_zero)
  qed
  have eq: "name = N' ! j \<longleftrightarrow> j = i" if "j < length N'" for j
    using that co by (auto simp: index_ok_def nth_eq_iff_index_eq)
  have new: "sum_list (map (passes_at j) (rs[k := r'])) = count_ev (is_check (N' ! j) True) ?es' \<and>
             sum_list (map (fails_at j) (rs[k := r'])) = count_ev (is_check (N' ! j) False) ?es'"
    if j: "j < length N'" for j
    using old [OF j] eq [OF j] k
    by (simp add: sum_list_update_int r'_def g_def bumped_at)
  show ?thesis unfolding checks_inv_def N'_def [symmetric]
    using co cache new by simp
qed

lemma checks_step:
  assumes "shaped n st rs" "i < n" "run_event (st, rs) (i, e) = (st', rs')" "checks_inv st rs es"
  shows "checks_inv st' rs' (es @ [(i, e)])"
proof -
  obtain r' where r': "apply_event (st, rs ! i) e = (st', r')" "rs' = rs[i := r']"
    using assms(3) by (auto simp: run_event_def split: prod.splits)
  have f: "r_shard (rs ! i) = Some (i mod min n numShards)" "r_checkNames (rs ! i) = Some 0"
    "length (ms_tables st) = 1" "i < length rs" using assms(1,2) by (simp_all add: shaped_def)
  show ?thesis
  proof (cases e)
    case (EvCheck name passed err)
    obtain c j where sl: "check_slot st (rs ! i) name = (c, j)" by fastforce
    show ?thesis unfolding EvCheck r'(2)
      using checks_put [OF assms(4) f(4) sl, of passed err] r'(1) EvCheck
        RecordCheck_shaped [OF f(2) one_table [OF f(3)], of name passed err]
      by (auto simp: sl)
  qed (unfold r'(2), (rule checks_keep [OF assms(4) _ f(4)]; use r' f in \<open>auto simp: Record_shaped
      RecordStatus_shaped RecordUnsent_def RecordProtocol_def RecordIteration_def
      RecordScriptError_def Let_def split: if_splits\<close>)+)
qed

end
