(* ===== verification/Summary_Merge.thy ===== *)
theory Summary_Merge
  imports Recorder
begin

text \<open>
  What \<open>Merge\<close> (\<open>internal/metrics/metrics.go\<close>) reports of a run: \<open>run_inv\<close> collects the
  invariants of the recorders, and the lemmas after it evaluate each part of the merge
  (the loop over the recorders, \<open>mergeStatuses\<close>, \<open>mergeChecks\<close>, the combined histograms)
  in terms of the events of the run.
\<close>

section \<open>The invariant of a run\<close>

definition run_inv :: "nat \<Rightarrow> mstore \<times> recorder list \<Rightarrow> (nat \<times> event) list \<Rightarrow> bool" where
  "run_inv n s es \<longleftrightarrow> shaped n (fst s) (snd s) \<and> totals_inv (snd s) es \<and>
     lat_inv True (fst s) es \<and> lat_inv False (fst s) es \<and> status_inv (fst s) es \<and>
     checks_inv (fst s) (snd s) es"

lemma run_inv_new: "run_inv n (NewRecorders mstore_empty n) []"
  using shaped_new [of n] totals_new [of n] lat_new [of True n] lat_new [of False n]
    status_new [of n] checks_new [of n]
  by (simp add: run_inv_def)

lemma run_inv_step:
  assumes "run_inv n s es" "i < n" "\<And>d ok. e = EvRequest d ok \<Longrightarrow> in64 d"
  shows "run_inv n (run_event s (i, e)) (es @ [(i, e)])"
proof -
  obtain st rs where s: "s = (st, rs)" by (cases s)
  obtain st' rs' where s': "run_event (st, rs) (i, e) = (st', rs')" by (cases "run_event (st, rs) (i, e)")
  have sh: "shaped n st rs" using assms(1) by (simp add: run_inv_def s)
  show ?thesis unfolding s s'
    using assms(1) run_event_shaped [OF sh assms(2) s'] totals_step [OF sh assms(2) s']
      lat_step [OF sh assms(2) s' _ assms(3)] status_step [OF sh assms(2) s']
      checks_step [OF sh assms(2) s']
    by (simp add: run_inv_def s)
qed

lemma valid_trace_snoc:
  "valid_trace n (es @ [x]) \<Longrightarrow> valid_trace n es \<and> fst x < n \<and> (\<forall>d ok. snd x = EvRequest d ok \<longrightarrow> in64 d)"
  by (cases x) (auto simp: valid_trace_def)

lemma run_inv_all: "valid_trace n es \<Longrightarrow> run_inv n (run_events n es) es"
proof (induction es rule: rev_induct)
  case Nil
  show ?case by (simp add: run_events_def run_inv_new)
next
  case (snoc x es)
  then have "run_inv n (run_event (run_events n es) (fst x, snd x)) (es @ [(fst x, snd x)])"
    using valid_trace_snoc [OF snoc.prems] by (intro run_inv_step) auto
  then show ?case by (simp add: run_events_def)
qed

section \<open>The parts of the merge\<close>

text \<open>The shards the recorders use are all the shards, in order.\<close>

lemma seen_shards_from:
  assumes "\<forall>i<length rs. r_shard (rs ! i) = Some (i mod m)" "0 < m" "k \<le> length rs"
  shows "seen_shards (drop k rs) [0..<min k m] = [0..<min (length rs) m]"
  using assms(3)
proof (induction "length rs - k" arbitrary: k)
  case 0
  then show ?case by simp
next
  case (Suc d)
  then have k: "k < length rs" by simp
  then have d: "drop k rs = rs ! k # drop (Suc k) rs" by (rule Cons_nth_drop_Suc [symmetric])
  have IH: "seen_shards (drop (Suc k) rs) [0..<min (Suc k) m] = [0..<min (length rs) m]"
    using Suc.hyps k by simp
  show ?case
  proof (cases "k < m")
    case True
    then have "min (Suc k) m = Suc k" "min k m = k" by simp_all
    then show ?thesis using IH assms(1) k True by (simp add: d)
  next
    case False
    then have "min (Suc k) m = m" "min k m = m" by simp_all
    then show ?thesis using IH assms(1,2) k by (simp add: d)
  qed
qed

lemma seen_shards_shaped:
  assumes "shaped n st rs"
  shows "map (\<lambda>k. ms_shards st ! k) (seen_shards rs []) = ms_shards st"
proof (cases "n = 0")
  case True
  then show ?thesis using assms by (simp add: shaped_def)
next
  case False
  let ?m = "min n numShards"
  have "0 < ?m" using False by (simp add: numShards_def)
  then have "seen_shards (drop 0 rs) [0..<min 0 ?m] = [0..<min (length rs) ?m]"
    using assms by (intro seen_shards_from) (auto simp: shaped_def)
  then have "seen_shards rs [] = [0..<length (ms_shards st)]" using assms by (simp add: shaped_def)
  then show ?thesis by (simp add: map_nth)
qed

text \<open>The loop over the recorders.\<close>

lemma merge_recorders_totals:
  "s_Failures (foldl merge_recorder s rs) = s_Failures s + sum_list (map r_unsent rs)"
  "s_ScriptErrors (foldl merge_recorder s rs) = s_ScriptErrors s + sum_list (map r_scriptErrors rs)"
  "s_Iterations (foldl merge_recorder s rs) = s_Iterations s + sum_list (map r_iterations rs)"
  "p_HTTP1 (s_Protocols (foldl merge_recorder s rs)) =
     p_HTTP1 (s_Protocols s) + sum_list (map (p_HTTP1 \<circ> r_protocols) rs)"
  "p_HTTP2 (s_Protocols (foldl merge_recorder s rs)) =
     p_HTTP2 (s_Protocols s) + sum_list (map (p_HTTP2 \<circ> r_protocols) rs)"
  "p_Other (s_Protocols (foldl merge_recorder s rs)) =
     p_Other (s_Protocols s) + sum_list (map (p_Other \<circ> r_protocols) rs)"
  "s_latency (foldl merge_recorder s rs) = s_latency s"
  by (induction rs arbitrary: s) (simp_all add: merge_recorder_def)

lemma merge_tail_simps [simp]:
  "s_Failures (merge_latency al (merge_success ok s)) = s_Failures s"
  "s_Requests (merge_latency al (merge_success ok s)) = s_Requests s"
  "s_Successes (merge_latency al (merge_success ok s)) = s_Successes s"
  "s_Sent (merge_latency al (merge_success ok s)) = s_Sent s"
  "s_ErrorRate (merge_latency al (merge_success ok s)) = s_ErrorRate s"
  "s_Iterations (merge_latency al (merge_success ok s)) = s_Iterations s"
  "s_ScriptErrors (merge_latency al (merge_success ok s)) = s_ScriptErrors s"
  "s_Protocols (merge_latency al (merge_success ok s)) = s_Protocols s"
  "s_Checks (merge_latency al (merge_success ok s)) = s_Checks s"
  "s_StatusCodes (merge_latency al (merge_success ok s)) = s_StatusCodes s"
  by (simp_all add: merge_latency_def merge_success_def)

text \<open>The status counts.\<close>

lemma status_fold:
  assumes "\<forall>sh\<in>set shs. length (sh_statuses sh) = n" "length t = n"
  shows "foldl (\<lambda>t sh. map2 (+) t (sh_statuses sh)) t shs =
         map (\<lambda>c. t ! c + sum_list (map (\<lambda>sh. sh_statuses sh ! c) shs)) [0..<n]"
  using assms
proof (induction shs arbitrary: t)
  case Nil
  then show ?case by (auto intro: map_nth [symmetric])
next
  case (Cons sh shs)
  then have "length (map2 (+) t (sh_statuses sh)) = n" by simp
  with Cons show ?case by (auto simp: add.assoc intro!: map_cong)
qed

lemma enumerate_map_upt: "enumerate 0 (map f [0..<n]) = map (\<lambda>c. (c, f c)) [0..<n]"
  by (simp add: enumerate_eq_zip zip_map2 zip_same_conv_map)

definition status_table :: "(nat \<times> event) list \<Rightarrow> (int \<times> int) list" where
  "status_table es = map (\<lambda>c. (c, count_ev (is_status c) es))
     (filter (\<lambda>c. count_ev (is_status c) es \<noteq> 0) (map int [0..<600]))"

lemma count_ev_range: "0 \<le> count_ev P es \<and> count_ev P es \<le> int (length es)"
  by (simp add: count_ev_def)

lemma count_ev_less: "length es < 2 ^ 63 \<Longrightarrow> 0 \<le> count_ev P es \<and> count_ev P es < 2 ^ 63"
proof -
  assume "length es < 2 ^ 63"
  then have "int (length es) < int (2 ^ 63)" by (simp only: of_nat_less_iff)
  then have "int (length es) < 2 ^ 63" by simp
  then show ?thesis using count_ev_range [of P es] by (metis le_less_trans)
qed

lemma of_int_u64_eq_0: "0 \<le> k \<Longrightarrow> k < 2 ^ 63 \<Longrightarrow> (of_int k :: u64) = 0 \<longleftrightarrow> k = 0"
  using sint_of_int_u64 [of k] by auto

lemma mergeStatuses_table:
  assumes "status_inv st es" "length es < 2 ^ 63"
  shows "mergeStatuses (ms_shards st) = status_table es"
proof -
  let ?N = "nat (maxStatus + 1)"
  have N: "?N = 600" by (simp add: maxStatus_def)
  have c: "0 \<le> count_ev P es" "count_ev P es < 2 ^ 63" for P
    using count_ev_less [OF assms(2)] by simp_all
  have "foldl (\<lambda>t sh. map2 (+) t (sh_statuses sh)) (replicate ?N 0) (ms_shards st) =
        map (\<lambda>c. replicate ?N 0 ! c + sum_list (map (\<lambda>sh. sh_statuses sh ! c) (ms_shards st))) [0..<?N]"
    using assms(1) by (intro status_fold) (auto simp: status_inv_def)
  also have "\<dots> = map (\<lambda>c. of_int (count_ev (is_status (int c)) es)) [0..<?N]"
    using assms(1) by (intro map_cong) (auto simp: status_inv_def)
  finally show ?thesis
    by (simp add: mergeStatuses_def status_table_def N enumerate_map_upt filter_map comp_def
        of_int_u64_eq_0 [OF c] sint_of_int_u64 [OF c] del: upt_conv_Cons upt_rec_numeral)
qed

text \<open>The latencies.\<close>

lemma com_tally_mset: "com_tally c L \<Longrightarrow> mset L = mset L' \<Longrightarrow> com_tally c L'"
proof -
  assume "com_tally c L" and m: "mset L = mset L'"
  moreover have "set L = set L'" using m by (rule mset_eq_setD)
  moreover have "length L = length L'" using m by (rule mset_eq_length)
  moreover have "sum_list L = sum_list L'" using m by (metis sum_mset_sum_list)
  moreover have "bucket_count L = bucket_count L'"
    using m by (auto simp: bucket_count_def fun_eq_iff) (metis mset_filter size_mset)
  ultimately show ?thesis by (simp add: com_tally_def tally_def)
qed

definition all_latencies :: "(nat \<times> event) list \<Rightarrow> duration list" where
  "all_latencies es = latencies True es @ latencies False es"

lemma lat_combined:
  assumes "lat_inv True st es" "lat_inv False st es"
  shows "com_tally (combine (map sh_ok (ms_shards st))) (map clip (latencies True es))"
    and "com_tally (combine (map sh_ok (ms_shards st) @ map sh_failed (ms_shards st)))
           (map clip (all_latencies es))"
proof -
  have sel: "sh_sel True = sh_ok" "sh_sel False = sh_failed" by (simp_all add: sh_sel_def fun_eq_iff)
  obtain Ls where Ls: "list_all2 hist_tally (map sh_ok (ms_shards st)) Ls"
    "mset (concat Ls) = mset (map clip (latencies True es))"
    using assms(1) unfolding lat_inv_def sel by blast
  obtain Fs where Fs: "list_all2 hist_tally (map sh_failed (ms_shards st)) Fs"
    "mset (concat Fs) = mset (map clip (latencies False es))"
    using assms(2) unfolding lat_inv_def sel by blast
  show "com_tally (combine (map sh_ok (ms_shards st))) (map clip (latencies True es))"
    using combine_tally [OF Ls(1)] Ls(2) by (rule com_tally_mset)
  have "mset (concat (Ls @ Fs)) = mset (map clip (all_latencies es))"
    using Ls(2) Fs(2) by (simp add: all_latencies_def)
  with combine_tally [OF list_all2_appendI [OF Ls(1) Fs(1)]]
  show "com_tally (combine (map sh_ok (ms_shards st) @ map sh_failed (ms_shards st)))
           (map clip (all_latencies es))"
    by (rule com_tally_mset)
qed


section \<open>The checks\<close>

definition zero_result :: "string \<Rightarrow> checkResult" where
  "zero_result name = \<lparr>cr_Name = name, cr_Passes = 0, cr_Fails = 0, cr_FirstError = []\<rparr>"

definition names_index :: "string list \<Rightarrow> (string \<rightharpoonup> nat) \<Rightarrow> bool" where
  "names_index ns pos \<longleftrightarrow> (\<forall>i<length ns. pos (ns ! i) = Some i) \<and> dom pos = set ns"

lemma list_names:
  assumes "distinct ns"
  shows "\<exists>pos. foldl list_name (Map.empty, []) ns = (pos, map zero_result ns) \<and> names_index ns pos"
  using assms
proof (induction ns rule: rev_induct)
  case Nil
  show ?case by (simp add: names_index_def)
next
  case (snoc n ns)
  then obtain pos where pos: "foldl list_name (Map.empty, []) ns = (pos, map zero_result ns)"
    "names_index ns pos" by auto
  have "pos n = None" using pos(2) snoc.prems by (auto simp: names_index_def)
  moreover have "names_index (ns @ [n]) (pos(n \<mapsto> length ns))"
    using pos(2) snoc.prems by (auto simp: names_index_def nth_append less_Suc_eq in_set_conv_nth)
  ultimately show ?case
    using pos(1) by (simp add: list_name_def zero_result_def)
qed

lemma list_tables:
  assumes "\<forall>r\<in>set rs. r_checkNames r = Some 0" "cn_names (ms_tables st ! 0) = ns"
    and "T 0 = Some ns" "T 0 = Some [] \<Longrightarrow> T = [0 \<mapsto> []]"
  shows "foldl (list_table st) (acc, T) rs = (acc, T)"
  using assms
proof (induction rs)
  case Nil
  then show ?case by simp
next
  case (Cons r rs)
  then have "list_table st (acc, T) r = (acc, T)"
    by (cases "ns = []") (auto simp: list_table_def fun_upd_idem)
  with Cons show ?case by simp
qed

lemma add_checks_nth:
  assumes "names_index ns pos" "i + length cs \<le> length ns" "length out = length ns"
  shows "\<exists>out'. add_checks pos ns i cs out = Some out' \<and> length out' = length ns \<and>
    (\<forall>j<length ns. out' ! j = (if i \<le> j \<and> j < i + length cs then add_check (out ! j) (cs ! (j - i)) else out ! j))"
  using assms
proof (induction cs arbitrary: i out)
  case Nil
  then show ?case by auto
next
  case (Cons c cs)
  have p: "pos (ns ! i) = Some i" "i < length ns" using Cons.prems by (simp_all add: names_index_def)
  obtain out' where out': "add_checks pos ns (Suc i) cs (out[i := add_check (out ! i) c]) = Some out'"
    "length out' = length ns"
    "\<forall>j<length ns. out' ! j = (if Suc i \<le> j \<and> j < Suc i + length cs
       then add_check (out[i := add_check (out ! i) c] ! j) (cs ! (j - Suc i))
       else out[i := add_check (out ! i) c] ! j)"
    using Cons.IH [of "Suc i" "out[i := add_check (out ! i) c]"] Cons.prems by auto
  have "add_checks pos ns i (c # cs) out = Some out'" using out'(1) p Cons.prems by simp
  moreover have "out' ! j = (if i \<le> j \<and> j < i + length (c # cs) then add_check (out ! j) ((c # cs) ! (j - i)) else out ! j)"
    if j: "j < length ns" for j
    using out'(3) j Cons.prems(3) p(2) by (cases "j = i") (auto simp: nth_Cons')
  ultimately show ?case using out'(2) by blast
qed

definition same_counts :: "checkResult \<Rightarrow> checkResult \<Rightarrow> bool" where
  "same_counts a b \<longleftrightarrow> cr_Name a = cr_Name b \<and> cr_Passes a = cr_Passes b \<and> cr_Fails a = cr_Fails b"

lemma add_recorders_nth:
  assumes "\<forall>r\<in>set rs. r_checkNames r = Some 0 \<and> length (r_checks r) \<le> length ns"
    and "names_index ns pos" "length out = length ns" "T 0 = Some ns"
  shows "\<exists>out'. add_recorders pos T rs out = Some out' \<and> length out' = length ns \<and>
    (\<forall>j<length ns. cr_Name (out' ! j) = cr_Name (out ! j) \<and>
       cr_Passes (out' ! j) = cr_Passes (out ! j) + sum_list (map (passes_at j) rs) \<and>
       cr_Fails (out' ! j) = cr_Fails (out ! j) + sum_list (map (fails_at j) rs))"
  using assms
proof (induction rs arbitrary: out)
  case Nil
  then show ?case by simp
next
  case (Cons r rs)
  obtain out1 where out1: "add_checks pos ns 0 (r_checks r) out = Some out1" "length out1 = length ns"
    "\<forall>j<length ns. out1 ! j = (if 0 \<le> j \<and> j < 0 + length (r_checks r)
       then add_check (out ! j) (r_checks r ! (j - 0)) else out ! j)"
    using add_checks_nth [OF Cons.prems(2), of 0 "r_checks r" out] Cons.prems by auto
  obtain out' where out': "add_recorders pos T rs out1 = Some out'" "length out' = length ns"
    "\<forall>j<length ns. cr_Name (out' ! j) = cr_Name (out1 ! j) \<and>
       cr_Passes (out' ! j) = cr_Passes (out1 ! j) + sum_list (map (passes_at j) rs) \<and>
       cr_Fails (out' ! j) = cr_Fails (out1 ! j) + sum_list (map (fails_at j) rs)"
    using Cons.IH [of out1] Cons.prems out1(2) by auto
  have "add_recorders pos T (r # rs) out = Some out'" using out'(1) out1(1) Cons.prems by simp
  moreover have "cr_Name (out1 ! j) = cr_Name (out ! j) \<and>
      cr_Passes (out1 ! j) = cr_Passes (out ! j) + passes_at j r \<and>
      cr_Fails (out1 ! j) = cr_Fails (out ! j) + fails_at j r" if "j < length ns" for j
    using out1(3) that by (simp add: add_check_def passes_at_def fails_at_def)
  ultimately show ?case using out'(2,3) by auto
qed

definition check_counts :: "checkResult \<Rightarrow> string \<times> int \<times> int" where
  "check_counts c = (cr_Name c, cr_Passes c, cr_Fails c)"

definition check_table :: "(nat \<times> event) list \<Rightarrow> (string \<times> int \<times> int) list" where
  "check_table es = map (\<lambda>n. (n, count_ev (is_check n True) es, count_ev (is_check n False) es))
     (first_runs es)"

lemma mergeChecks_table:
  assumes inv: "checks_inv st rs es" and sh: "shaped n st rs" and n: "0 < n"
  shows "\<exists>cs. mergeChecks st rs = Some cs \<and> map check_counts cs = check_table es"
proof -
  let ?ns = "first_runs es"
  have ns: "cn_names (ms_tables st ! 0) = ?ns" "distinct ?ns"
    using inv by (auto simp: checks_inv_def index_ok_def)
  have one: "\<forall>r\<in>set rs. r_checkNames r = Some 0" using sh by (auto simp: shaped_def in_set_conv_nth)
  have "rs \<noteq> []" using sh n by (auto simp: shaped_def)
  then obtain r0 rs0 where rs: "rs = r0 # rs0" by (cases rs) auto
  obtain pos where pos: "foldl list_name (Map.empty, []) ?ns = (pos, map zero_result ?ns)"
    "names_index ?ns pos" using list_names [OF ns(2)] by blast
  have "list_table st ((Map.empty, []), Map.empty) r0 = ((pos, map zero_result ?ns), [0 \<mapsto> ?ns])"
    using one rs ns(1) pos(1) by (simp add: list_table_def Let_def)
  moreover have "foldl (list_table st) ((pos, map zero_result ?ns), [0 \<mapsto> ?ns]) rs0 =
      ((pos, map zero_result ?ns), [0 \<mapsto> ?ns])"
    using one rs ns(1) by (intro list_tables) auto
  ultimately have tab: "foldl (list_table st) ((Map.empty, []), Map.empty) rs =
      ((pos, map zero_result ?ns), [0 \<mapsto> ?ns])" by (simp add: rs)
  have lens: "\<forall>r\<in>set rs. r_checkNames r = Some 0 \<and> length (r_checks r) \<le> length ?ns"
    using inv one by (auto simp: checks_inv_def cache_ok_def)
  obtain cs where cs: "add_recorders pos [0 \<mapsto> ?ns] rs (map zero_result ?ns) = Some cs"
    "length cs = length ?ns"
    "\<forall>j<length ?ns. cr_Name (cs ! j) = cr_Name (map zero_result ?ns ! j) \<and>
       cr_Passes (cs ! j) = cr_Passes (map zero_result ?ns ! j) + sum_list (map (passes_at j) rs) \<and>
       cr_Fails (cs ! j) = cr_Fails (map zero_result ?ns ! j) + sum_list (map (fails_at j) rs)"
    using add_recorders_nth [OF lens pos(2), of "map zero_result ?ns" "[0 \<mapsto> ?ns]"] by auto
  have "map check_counts cs = check_table es"
  proof (rule nth_equalityI)
    show "length (map check_counts cs) = length (check_table es)" using cs(2) by (simp add: check_table_def)
  next
    fix j assume "j < length (map check_counts cs)"
    then have j: "j < length ?ns" using cs(2) by simp
    then show "map check_counts cs ! j = check_table es ! j"
      using cs(2,3) inv by (simp add: check_counts_def check_table_def zero_result_def checks_inv_def)
  qed
  then show ?thesis using cs(1) tab by (simp add: mergeChecks_def)
qed

lemma mergeChecks_none: "shaped 0 st rs \<Longrightarrow> mergeChecks st rs = Some []"
  by (simp add: shaped_def mergeChecks_def)


section \<open>The whole merge\<close>

lemma latencies_length: "length (latencies True es) + length (latencies False es) \<le> length es"
proof (induction es rule: rev_induct)
  case Nil
  then show ?case by simp
next
  case (snoc x es)
  then show ?case by (cases "snd x") auto
qed

lemma tally_size:
  assumes "com_tally c (map clip L)" "length L < 2 ^ 63"
  shows "sint (com_n c) = int (length L)" and "com_n c = 0 \<longleftrightarrow> L = []"
proof -
  have n: "com_n c = of_nat (length L)" using assms(1) by (simp add: com_tally_def tally_def)
  show s: "sint (com_n c) = int (length L)" unfolding n using assms(2) by (rule sint_of_nat_u64)
  have "L = []" if "com_n c = 0" using s that by simp
  then show "com_n c = 0 \<longleftrightarrow> L = []" using n by auto
qed

definition failed_count :: "(nat \<times> event) list \<Rightarrow> int" where
  "failed_count es = int (length (latencies False es)) + count_ev (\<lambda>e. e = EvUnsent) es"

lemma requests_le_events:
  "int (length (latencies True es)) + (int (length (latencies False es)) +
     int (length (filter ((\<lambda>e. e = EvUnsent) \<circ> snd) es))) \<le> int (length es)"
proof (induction es rule: rev_induct)
  case Nil
  then show ?case by simp
next
  case (snoc x es)
  then show ?case by (cases "snd x") auto
qed

definition error_rate :: "int \<Rightarrow> int \<Rightarrow> f64" where
  "error_rate failures requests =
     (if 0 < requests then f64_div (f64_of_int failures) (f64_of_int requests) else Fin 0)"

definition merged_counts :: "summary \<Rightarrow> (nat \<times> event) list \<Rightarrow> bool" where
  "merged_counts s es \<longleftrightarrow>
     s_Successes s = int (length (latencies True es)) \<and>
     s_Sent s = int (length (all_latencies es)) \<and>
     s_Failures s = failed_count es \<and>
     s_Requests s = s_Successes s + s_Failures s \<and>
     s_ErrorRate s = error_rate (s_Failures s) (s_Requests s) \<and>
     s_Iterations s = count_ev (\<lambda>e. e = EvIteration) es \<and>
     s_ScriptErrors s = count_ev is_script_error es \<and>
     p_HTTP1 (s_Protocols s) = count_ev (is_proto http1_proto) es \<and>
     p_HTTP2 (s_Protocols s) = count_ev (is_proto http2_proto) es \<and>
     p_Other (s_Protocols s) = count_ev (is_proto (\<lambda>p. \<not> http1_proto p \<and> \<not> http2_proto p)) es"

lemma merge_run:
  assumes v: "valid_trace n es"
  shows "\<exists>s0 ok al.
    run_summary n es = Some (merge_latency al (merge_success ok s0)) \<and>
    com_tally ok (map clip (latencies True es)) \<and> com_tally al (map clip (all_latencies es)) \<and>
    s_latency s0 = None \<and> map check_counts (s_Checks s0) = check_table es \<and>
    s_StatusCodes s0 = status_table es \<and> merged_counts s0 es"
proof -
  obtain st rs where r: "run_events n es = (st, rs)" by (cases "run_events n es")
  have inv: "shaped n st rs" "totals_inv rs es" "lat_inv True st es" "lat_inv False st es"
    "status_inv st es" "checks_inv st rs es"
    using run_inv_all [OF v] unfolding r run_inv_def by simp_all
  have len: "length es < 2 ^ 63" using v by (simp add: valid_trace_def)
  have "\<exists>cs. mergeChecks st rs = Some cs \<and> map check_counts cs = check_table es"
  proof (cases "n = 0")
    case True
    then have "es = []" using v by (cases es) (auto simp: valid_trace_def)
    then show ?thesis using mergeChecks_none inv(1) True by (simp add: check_table_def)
  next
    case False
    then show ?thesis by (intro mergeChecks_table [OF inv(6,1)]) simp
  qed
  then obtain cs where cs: "mergeChecks st rs = Some cs" "map check_counts cs = check_table es" by blast
  let ?ok = "combine (map sh_ok (ms_shards st))"
  let ?al = "combine (map sh_ok (ms_shards st) @ map sh_failed (ms_shards st))"
  note t = lat_combined [OF inv(3,4)]
  have l: "length (latencies True es) < 2 ^ 63" "length (all_latencies es) < 2 ^ 63"
    using latencies_length [of es] len by (simp_all add: all_latencies_def)
  note sz = tally_size(1) [OF t(1) l(1)] tally_size(1) [OF t(2) l(2)]
  let ?f = "foldl merge_recorder summary_zero rs"
  let ?fail = "s_Failures ?f + (sint (com_n ?al) - sint (com_n ?ok))"
  let ?req = "sint (com_n ?ok) + ?fail"
  define s0 where "s0 = ?f\<lparr>s_Checks := cs, s_StatusCodes := mergeStatuses (ms_shards st),
     s_Successes := sint (com_n ?ok), s_Sent := sint (com_n ?al), s_Failures := ?fail,
     s_Requests := ?req, s_ErrorRate := error_rate ?fail ?req\<rparr>"
  have "run_summary n es = Some (merge_latency ?al (merge_success ?ok s0))"
    unfolding run_summary_def r s0_def using cs(1)
    by (simp add: Merge_def seen_shards_shaped [OF inv(1)] error_rate_def Let_def)
  moreover have "merged_counts s0 es"
    using inv(2) sz by (simp add: s0_def merged_counts_def merge_recorders_totals totals_inv_def
        summary_zero_def failed_count_def all_latencies_def)
  moreover have "s_latency s0 = None" "map check_counts (s_Checks s0) = check_table es"
    "s_StatusCodes s0 = status_table es"
    using cs(2) mergeStatuses_table [OF inv(5) len]
    by (simp_all add: s0_def merge_recorders_totals summary_zero_def)
  ultimately show ?thesis using t by blast
qed

lemma merged_counts_tail: "merged_counts (merge_latency al (merge_success ok s)) es = merged_counts s es"
  by (simp add: merged_counts_def)

lemma error_rate_bounds:
  assumes "0 \<le> f" "f \<le> r" "r \<le> 2 ^ 53"
  shows "\<exists>q. error_rate f r = Fin q \<and> 0 \<le> q \<and> q \<le> 1 \<and> (0 < r \<longrightarrow> q = f64_round (of_int f / of_int r))"
proof (cases "0 < r")
  case False
  then show ?thesis by (simp add: error_rate_def)
next
  case True
  let ?x = "of_int f / of_int r :: rat"
  have x: "0 \<le> ?x" "?x \<le> 1" using assms True by simp_all
  have "error_rate f r = f64_of_rat ?x" using assms True
    by (simp add: error_rate_def f64_of_int_exact)
  also have "\<dots> = Fin (f64_round ?x)" using x by (intro f64_bounded_Fin) simp
  finally show ?thesis
    using True f64_round_nonneg [OF x(1)] f64_round_mono [OF x] f64_round_of_int [of 1] by simp
qed

section \<open>Properties\<close>

text \<open>C1: The counters of a run. Whatever the VUs record, in whatever order and however they share
  shards, the merged summary exists and its counters are exactly the numbers of events of the run:
  successes, requests sent, failures (failed requests and requests never sent), iterations, script
  errors and responses per HTTP version; requests are successes plus failures, and the error rate
  is their quotient correctly rounded, between 0 and 1.\<close>

theorem merge_counts_exact:
  assumes "valid_trace n es" and "length es \<le> 2 ^ 53"
  shows "\<exists>s q. run_summary n es = Some s \<and> merged_counts s es \<and>
           s_ErrorRate s = Fin q \<and> 0 \<le> q \<and> q \<le> 1 \<and>
           (0 < s_Requests s \<longrightarrow> q = f64_round (of_int (s_Failures s) / of_int (s_Requests s)))"
proof -
  obtain s0 ok al where s: "run_summary n es = Some (merge_latency al (merge_success ok s0))"
    "merged_counts s0 es" using merge_run [OF assms(1)] by blast
  have "int (length es) \<le> 2 ^ 53" using assms(2) by (simp flip: of_nat_le_iff)
  moreover have "int (length (latencies True es)) + failed_count es \<le> int (length es)"
    unfolding failed_count_def count_ev_def by (rule requests_le_events)
  ultimately have "\<exists>q. error_rate (s_Failures s0) (s_Requests s0) = Fin q \<and> 0 \<le> q \<and> q \<le> 1 \<and>
      (0 < s_Requests s0 \<longrightarrow> q = f64_round (of_int (s_Failures s0) / of_int (s_Requests s0)))"
    using s(2) by (intro error_rate_bounds) (simp_all add: merged_counts_def failed_count_def count_ev_def)
  moreover have "s_ErrorRate s0 = error_rate (s_Failures s0) (s_Requests s0)"
    using s(2) by (simp add: merged_counts_def)
  ultimately show ?thesis using s by (simp add: merged_counts_tail)
qed


theorem merge_counts_exact_witness:
  "\<exists>s. run_summary 2 [(0, EvRequest 5 True), (1, EvUnsent), (1, EvRequest 9 False)] = Some s \<and>
       s_Requests s = 3 \<and> s_Failures s = 2"
  using merge_counts_exact [of 2 "[(0, EvRequest 5 True), (1, EvUnsent), (1, EvRequest 9 False)]"]
  by (auto simp: valid_trace_def in64_def merged_counts_def latencies_def failed_count_def count_ev_def)

text \<open>Min, Max and Mean of a summary, and its percentiles, in terms of the latencies of the run.\<close>

definition near_rank :: "rat \<Rightarrow> duration list \<Rightarrow> duration \<Rightarrow> bool" where
  "near_rank q L d \<longleftrightarrow> (\<exists>r. 1 \<le> r \<and> r \<le> length L \<and>
     \<lceil>exact_rank q (length L) - 2 / 10 ^ 9\<rceil> \<le> int r \<and> int r \<le> max 1 \<lceil>exact_rank q (length L)\<rceil> \<and>
     (let x = sort L ! (r - 1)
      in (x \<le> maxTracked \<longrightarrow> 128 * \<bar>d - x\<bar> \<le> x) \<and> Min (set L) \<le> d \<and> d \<le> Max (set L)))"

lemma percentile_near_rank:
  assumes t: "com_tally c L" and q: "0 < q" "q \<le> 100" and n: "L \<noteq> []" "length L \<le> 2000000"
  shows "near_rank q L (percentile c (Fin q))"
proof -
  have l0: "0 < length L" using n(1) by simp
  have "com_n c = of_nat (length L)" using t by (simp add: com_tally_def tally_def)
  then have nr: "nearest_rank c (Fin q) = unat (pct_rank (Fin q) (of_nat (length L)))"
    by (simp only: nearest_rank_def)
  note rk = pct_rank_nearest [OF q l0 n(2), folded nr]
  have "(2000000 :: nat) < 2 ^ 64" by simp
  with n(2) have "length L < 2 ^ 64" by (rule le_less_trans)
  moreover have "nearest_rank c (Fin q) \<le> length L" using rk by blast
  ultimately show ?thesis using percentile_accuracy [OF t] rk unfolding near_rank_def Let_def by blast
qed

lemma tally_bounds:
  assumes "com_tally c L" "L \<noteq> []"
  shows "com_min c = Min (set L) \<and> com_max c = Max (set L)"
proof -
  have r: "\<forall>v\<in>set L. 0 \<le> v \<and> v \<le> max_int64" using assms(1) unfolding com_tally_def tally_def by blast
  show ?thesis using assms(1) bounded_min_max [OF r assms(2)] unfolding com_tally_def tally_def by auto
qed

lemma tally_mean:
  assumes "com_tally c L" "L \<noteq> []" "sum_list L < 2 ^ 63" "length L < 2 ^ 63"
  shows "sint (com_sum c div com_n c) = sum_list L div int (length L)"
proof -
  have nn: "\<forall>v\<in>set L. 0 \<le> v" using assms(1) unfolding com_tally_def tally_def by blast
  then have s0: "0 \<le> sum_list L" by (simp add: sum_list_nonneg)
  have cs: "com_sum c = of_int (sum_list L)" "com_n c = of_int (int (length L))"
    using assms(1) by (simp_all add: com_tally_def tally_def)
  have un: "uint (of_int k :: u64) = k" if "0 \<le> k" "k < 2 ^ 63" for k
    using that by (simp add: uint_word_of_int)
  have "int (length L) < int (2 ^ 63)" using assms(4) by (simp only: of_nat_less_iff)
  then have l: "int (length L) < 2 ^ 63" by simp
  have "uint (com_sum c div com_n c) = sum_list L div int (length L)"
    unfolding cs using un [OF s0 assms(3)] un [OF _ l] by (simp add: uint_div_distrib)
  then have "com_sum c div com_n c = of_int (sum_list L div int (length L))" by (metis word_of_int_uint)
  moreover have "0 \<le> sum_list L div int (length L)" using s0 by (simp add: div_int_pos_iff)
  moreover have "sum_list L div int (length L) \<le> sum_list L div 1"
    using s0 assms(2) by (intro zdiv_mono2) (simp_all add: Suc_le_eq)
  ultimately show ?thesis using assms(3) by (simp add: sint_of_int_u64)
qed




text \<open>C3: Checks and status codes of a run. The summary lists every check once, in the order the
  checks were first run by any VU, with exactly its passes and fails over all VUs, although each
  recorder keeps its tallies in a slice indexed by a table shared between the VUs; and it lists the
  status codes of the responses in code order with their counts, codes outside 100 to 599 under 0
  and codes that never occurred left out. The merge never indexes out of range.\<close>

theorem merge_tables_exact:
  assumes "valid_trace n es"
  shows "\<exists>s. run_summary n es = Some s \<and> map check_counts (s_Checks s) = check_table es \<and>
             s_StatusCodes s = status_table es"
  using merge_run [OF assms] by auto

theorem merge_tables_exact_witness:
  "\<exists>s. run_summary 3 [(2, EvCheck ''b'' True []), (0, EvCheck ''a'' False ''boom''),
                      (1, EvCheck ''b'' True []), (1, EvStatus 200), (2, EvStatus 777)] = Some s \<and>
       map check_counts (s_Checks s) = [(''b'', 2, 0), (''a'', 0, 1)]"
  using merge_tables_exact [of 3 "[(2, EvCheck ''b'' True []), (0, EvCheck ''a'' False ''boom''),
                      (1, EvCheck ''b'' True []), (1, EvStatus 200), (2, EvStatus 777)]"]
  by (auto simp: valid_trace_def check_table_def first_runs_def count_ev_def)

end
