(* ===== verification/Sampler.thy ===== *)
theory Sampler
  imports Summary_Merge
begin

text \<open>
  \<open>internal/metrics/sampler.go\<close>: the sampler turns the cumulative histograms of a run into one
  point per interval by subtracting the previous snapshot. \<open>Sample\<close> is split at the line
  between its atomic loads (\<open>sample_load\<close>) and the computation on what they returned
  (\<open>sample_point\<close>), so that a snapshot taken in the middle of a \<open>record\<close>, which is not atomic
  across counters, can be stated as well.
\<close>

section \<open>State and operations\<close>

record point =
  pt_At :: duration
  pt_Requests :: int
  pt_Failed :: int
  pt_Mean :: duration
  pt_P50 :: duration
  pt_P95 :: duration
  pt_P99 :: duration
  pt_VUs :: int

record sampler =
  sa_shards :: "nat list"
  sa_prev :: "u64 list"
  sa_cur :: "u64 list"
  sa_prevFailed :: u64
  sa_curFailed :: u64
  sa_prevSum :: u64
  sa_curSum :: u64

definition NewSampler :: "recorder list \<Rightarrow> sampler" where
  "NewSampler rs = \<lparr>sa_shards = seen_shards rs [],
     sa_prev = replicate (nat numBuckets) 0, sa_cur = replicate (nat numBuckets) 0,
     sa_prevFailed = 0, sa_curFailed = 0, sa_prevSum = 0, sa_curSum = 0\<rparr>"

definition load_hist :: "sampler \<Rightarrow> histogram \<Rightarrow> sampler" where
  "load_hist s h = s\<lparr>sa_cur := map2 (+) (sa_cur s) (hist_counts h),
                     sa_curSum := sa_curSum s + hist_sum h\<rparr>"

definition load_shard :: "mstore \<Rightarrow> sampler \<Rightarrow> nat \<Rightarrow> sampler" where
  "load_shard st s k =
     (let sh = ms_shards st ! k;
          s' = foldl load_hist s [sh_ok sh, sh_failed sh]
      in s'\<lparr>sa_curFailed := sa_curFailed s' + hist_n (sh_failed sh)\<rparr>)"

definition sample_load :: "mstore \<Rightarrow> sampler \<Rightarrow> sampler" where
  "sample_load st s =
     foldl (load_shard st)
       (s\<lparr>sa_cur := replicate (length (sa_cur s)) 0, sa_curFailed := 0, sa_curSum := 0\<rparr>)
       (sa_shards s)"

definition sample_point :: "sampler \<Rightarrow> duration \<Rightarrow> int \<Rightarrow> sampler \<times> point" where
  "sample_point s now vus =
     (let d = map2 (-) (sa_cur s) (sa_prev s);
          n = sum_list d;
          failed = min (sa_curFailed s - sa_prevFailed s) n;
          p = \<lparr>pt_At = now, pt_Requests = sint n, pt_Failed = sint failed, pt_Mean = 0,
               pt_P50 = 0, pt_P95 = 0, pt_P99 = 0, pt_VUs = vus\<rparr>;
          interval = \<lparr>com_counts = d, com_n = n, com_sum = 0, com_min = 0, com_max = maxTracked\<rparr>;
          p' = (if 0 < n
                then p\<lparr>pt_Mean := sint ((sa_curSum s - sa_prevSum s) div n),
                       pt_P50 := percentile interval (Fin 50),
                       pt_P95 := percentile interval (Fin 95),
                       pt_P99 := percentile interval (Fin 99)\<rparr>
                else p)
      in (s\<lparr>sa_prev := sa_cur s, sa_cur := d,
            sa_prevFailed := sa_prevFailed s + of_int (pt_Failed p'),
            sa_prevSum := sa_curSum s\<rparr>, p'))"

definition Sample :: "mstore \<Rightarrow> sampler \<Rightarrow> duration \<Rightarrow> int \<Rightarrow> sampler \<times> point" where
  "Sample st s now vus = sample_point (sample_load st s) now vus"

text \<open>A run of events interrupted by samples, each at the end of a segment of events.\<close>

type_synonym segment = "(nat \<times> event) list \<times> duration \<times> int"

fun sampled :: "sampler \<Rightarrow> mstore \<times> recorder list \<Rightarrow> segment list \<Rightarrow> point list" where
  "sampled sa s [] = []"
| "sampled sa s ((es, now, vus) # segs) =
     (let s' = foldl run_event s es; (sa', p) = Sample (fst s') sa now vus
      in p # sampled sa' s' segs)"

definition sample_run :: "nat \<Rightarrow> segment list \<Rightarrow> point list" where
  "sample_run n segs = (let s = NewRecorders mstore_empty n in sampled (NewSampler (snd s)) s segs)"

section \<open>What the loads return\<close>

definition shard_hists :: "shard list \<Rightarrow> histogram list" where
  "shard_hists shs = concat (map (\<lambda>sh. [sh_ok sh, sh_failed sh]) shs)"

lemma load_shards_rest:
  "sa_curFailed (foldl (load_shard st) s ks) = sa_curFailed s +
     sum_list (map (\<lambda>k. hist_n (sh_failed (ms_shards st ! k))) ks)"
  "sa_prev (foldl (load_shard st) s ks) = sa_prev s"
  "sa_prevSum (foldl (load_shard st) s ks) = sa_prevSum s"
  "sa_prevFailed (foldl (load_shard st) s ks) = sa_prevFailed s"
  "sa_shards (foldl (load_shard st) s ks) = sa_shards s"
  by (induction ks arbitrary: s) (simp_all add: load_shard_def load_hist_def Let_def add.assoc)

lemma load_shards:
  assumes "sa_cur s = com_counts c" "sa_curSum s = com_sum c"
  shows "sa_cur (foldl (load_shard st) s ks) =
           com_counts (foldl combine_one c (shard_hists (map (\<lambda>k. ms_shards st ! k) ks))) \<and>
         sa_curSum (foldl (load_shard st) s ks) =
           com_sum (foldl combine_one c (shard_hists (map (\<lambda>k. ms_shards st ! k) ks)))"
  using assms
proof (induction ks arbitrary: s c)
  case Nil
  then show ?case by (simp add: shard_hists_def)
next
  case (Cons k ks)
  let ?sh = "ms_shards st ! k"
  let ?c = "combine_one (combine_one c (sh_ok ?sh)) (sh_failed ?sh)"
  have "sa_cur (load_shard st s k) = com_counts ?c" "sa_curSum (load_shard st s k) = com_sum ?c"
    using Cons.prems by (simp_all add: load_shard_def load_hist_def combine_one_def Let_def)
  from Cons.IH [OF this] show ?case by (simp add: shard_hists_def)
qed

lemma interleaved_tallies:
  assumes "list_all2 hist_tally (map sh_ok shs) Ls" "list_all2 hist_tally (map sh_failed shs) Fs"
  shows "\<exists>Ms. list_all2 hist_tally (shard_hists shs) Ms \<and> mset (concat Ms) = mset (concat Ls) + mset (concat Fs)"
  using assms
proof (induction shs arbitrary: Ls Fs)
  case Nil
  then show ?case by (auto simp: shard_hists_def)
next
  case (Cons sh shs)
  then obtain L Ls' F Fs' where e: "Ls = L # Ls'" "Fs = F # Fs'" "hist_tally (sh_ok sh) L"
    "hist_tally (sh_failed sh) F" "list_all2 hist_tally (map sh_ok shs) Ls'"
    "list_all2 hist_tally (map sh_failed shs) Fs'" by (auto simp: list_all2_Cons1)
  obtain Ms where "list_all2 hist_tally (shard_hists shs) Ms"
    "mset (concat Ms) = mset (concat Ls') + mset (concat Fs')" using Cons.IH [OF e(5,6)] by blast
  then show ?case using e
    by (intro exI [of _ "L # F # Ms"]) (simp add: shard_hists_def)
qed

lemma failed_total:
  "list_all2 hist_tally (map sh_failed shs) Fs \<Longrightarrow>
     sum_list (map (\<lambda>sh. hist_n (sh_failed sh)) shs) = of_nat (length (concat Fs))"
proof (induction shs arbitrary: Fs)
  case Nil
  then show ?case by simp
next
  case (Cons sh shs)
  then show ?case by (auto simp: list_all2_Cons1 hist_tally_def tally_def)
qed

definition samples_of :: "(nat \<times> event) list \<Rightarrow> int list" where
  "samples_of es = map clip (all_latencies es)"

definition cum_counts :: "(nat \<times> event) list \<Rightarrow> u64 list" where
  "cum_counts es = map (\<lambda>i. of_nat (bucket_count (samples_of es) (int i))) [0..<nat numBuckets]"

definition sampler_inv :: "nat \<Rightarrow> sampler \<Rightarrow> (nat \<times> event) list \<Rightarrow> bool" where
  "sampler_inv n sa es \<longleftrightarrow> sa_shards sa = [0..<min n numShards] \<and>
     sa_prev sa = cum_counts es \<and> length (sa_cur sa) = nat numBuckets \<and>
     sa_prevFailed sa = of_nat (length (latencies False es)) \<and>
     sa_prevSum sa = of_int (sum_list (samples_of es))"

lemma sample_load_run:
  assumes inv: "run_inv n (st, rs) es" and sa: "sampler_inv n sa es0"
  shows "sa_cur (sample_load st sa) = cum_counts es"
    and "sa_curSum (sample_load st sa) = of_int (sum_list (samples_of es))"
    and "sa_curFailed (sample_load st sa) = of_nat (length (latencies False es))"
    and "sa_prev (sample_load st sa) = sa_prev sa" "sa_prevSum (sample_load st sa) = sa_prevSum sa"
    and "sa_prevFailed (sample_load st sa) = sa_prevFailed sa"
    and "sa_shards (sample_load st sa) = sa_shards sa"
proof -
  have sh: "shaped n st rs" and lat: "lat_inv True st es" "lat_inv False st es"
    using inv by (simp_all add: run_inv_def)
  have ks: "map (\<lambda>k. ms_shards st ! k) (sa_shards sa) = ms_shards st"
    using sa sh map_nth [of "ms_shards st"] by (simp add: sampler_inv_def shaped_def)
  have sel: "sh_sel True = sh_ok" "sh_sel False = sh_failed" by (simp_all add: sh_sel_def fun_eq_iff)
  obtain Ls where Ls: "list_all2 hist_tally (map sh_ok (ms_shards st)) Ls"
    "mset (concat Ls) = mset (map clip (latencies True es))"
    using lat(1) unfolding lat_inv_def sel by blast
  obtain Fs where Fs: "list_all2 hist_tally (map sh_failed (ms_shards st)) Fs"
    "mset (concat Fs) = mset (map clip (latencies False es))"
    using lat(2) unfolding lat_inv_def sel by blast
  obtain Ms where Ms: "list_all2 hist_tally (shard_hists (ms_shards st)) Ms"
    "mset (concat Ms) = mset (concat Ls) + mset (concat Fs)"
    using interleaved_tallies [OF Ls(1) Fs(1)] by blast
  have "mset (concat Ms) = mset (samples_of es)"
    using Ms(2) Ls(2) Fs(2) by (simp add: samples_of_def all_latencies_def)
  with combine_tally [OF Ms(1)] have t: "com_tally (combine (shard_hists (ms_shards st))) (samples_of es)"
    by (rule com_tally_mset)
  let ?s = "sa\<lparr>sa_cur := replicate (length (sa_cur sa)) 0, sa_curFailed := 0, sa_curSum := 0\<rparr>"
  have c0: "sa_cur ?s = com_counts combined_zero" "sa_curSum ?s = com_sum combined_zero"
    using sa by (simp_all add: sampler_inv_def combined_zero_def)
  note L = load_shards [OF c0, of st "sa_shards sa", unfolded ks, folded combine_def sample_load_def]
  show "sa_cur (sample_load st sa) = cum_counts es"
    "sa_curSum (sample_load st sa) = of_int (sum_list (samples_of es))"
    using L t by (simp_all add: com_tally_def tally_def cum_counts_def)
  have "map (\<lambda>k. hist_n (sh_failed (ms_shards st ! k))) (sa_shards sa) =
        map (\<lambda>sh. hist_n (sh_failed sh)) (map (\<lambda>k. ms_shards st ! k) (sa_shards sa))" by simp
  then have "map (\<lambda>k. hist_n (sh_failed (ms_shards st ! k))) (sa_shards sa) =
        map (\<lambda>sh. hist_n (sh_failed sh)) (ms_shards st)" by (simp only: ks)
  moreover have "length (concat Fs) = length (latencies False es)"
    using mset_eq_length [OF Fs(2)] by simp
  ultimately show "sa_curFailed (sample_load st sa) = of_nat (length (latencies False es))"
    using failed_total [OF Fs(1)] by (simp add: sample_load_def load_shards_rest)
  show "sa_prev (sample_load st sa) = sa_prev sa" "sa_prevSum (sample_load st sa) = sa_prevSum sa"
    "sa_prevFailed (sample_load st sa) = sa_prevFailed sa" "sa_shards (sample_load st sa) = sa_shards sa"
    by (simp_all add: sample_load_def load_shards_rest)
qed


section \<open>The interval between two samples\<close>

lemma samples_of_append: "mset (samples_of (es @ fs)) = mset (samples_of es) + mset (samples_of fs)"
  by (simp add: samples_of_def all_latencies_def latencies_append)

lemma bucket_count_mset: "mset L = mset M \<Longrightarrow> bucket_count L i = bucket_count M i"
  unfolding bucket_count_def by (metis mset_filter size_mset)

lemma samples_nonneg: "\<forall>v\<in>set (samples_of es). 0 \<le> v"
  by (auto simp: samples_of_def clip_def)

lemma cum_counts_diff: "map2 (-) (cum_counts (es @ fs)) (cum_counts es) = cum_counts fs"
proof -
  have "bucket_count (samples_of (es @ fs)) i = bucket_count (samples_of es) i + bucket_count (samples_of fs) i" for i
    using bucket_count_mset [of "samples_of (es @ fs)" "samples_of es @ samples_of fs"] samples_of_append [of es fs]
    by simp
  then show ?thesis by (intro nth_equalityI) (simp_all add: cum_counts_def)
qed

lemma cum_counts_total: "sum_list (cum_counts es) = of_nat (length (samples_of es))"
proof -
  let ?L = "samples_of es"
  have part: "sum_list (map (\<lambda>i. of_nat (bucket_count ?L (int i))) [0..<k]) + of_nat (upto_count ?L 0) =
        (of_nat (upto_count ?L k) :: u64)" for k
    by (induction k) (simp_all add: upto_count_Suc)
  have "filter (\<lambda>v. bucketIndex (min v maxTracked) < int 0) ?L = []"
    using samples_nonneg bucketIndex_in_range by (force simp: filter_empty_conv)
  then have z: "upto_count ?L 0 = 0" by (simp add: upto_count_def)
  show ?thesis
    using part [of "nat numBuckets"] 
    unfolding cum_counts_def z upto_count_all [OF samples_nonneg] by simp
qed

definition near_capped :: "rat \<Rightarrow> int list \<Rightarrow> duration \<Rightarrow> bool" where
  "near_capped q L d \<longleftrightarrow> (\<exists>r. 1 \<le> r \<and> r \<le> length L \<and>
     \<lceil>exact_rank q (length L) - 2 / 10 ^ 9\<rceil> \<le> int r \<and> int r \<le> max 1 \<lceil>exact_rank q (length L)\<rceil> \<and>
     (let x = min (sort L ! (r - 1)) maxTracked in 128 * \<bar>d - x\<bar> \<le> x))"

lemma interval_percentile:
  assumes c: "com_counts c = cum_counts es" "com_n c = of_nat (length (samples_of es))"
    "com_min c = 0" "com_max c = maxTracked"
    and q: "0 < q" "q \<le> 100" and n: "samples_of es \<noteq> []" "length (samples_of es) \<le> 2000000"
  shows "near_capped q (samples_of es) (percentile c (Fin q))"
proof -
  let ?L = "samples_of es"
  have l0: "0 < length ?L" using n(1) by simp
  have nr: "nearest_rank c (Fin q) = unat (pct_rank (Fin q) (of_nat (length ?L)))"
    by (simp only: nearest_rank_def c(2))
  note rk = pct_rank_nearest [OF q l0 n(2), folded nr]
  have "(2000000 :: nat) < 2 ^ 64" by simp
  with n(2) have len: "length ?L < 2 ^ 64" by (rule le_less_trans)
  define x where "x = min (sort ?L ! (nearest_rank c (Fin q) - 1)) maxTracked"
  have p: "percentile c (Fin q) = min (max (bucketMid (bucketIndex x)) 0) maxTracked"
    unfolding x_def using percentile_bucket [OF c(1) [unfolded cum_counts_def] samples_nonneg len] rk c(3,4) by simp
  have "nearest_rank c (Fin q) - 1 < length (sort ?L)" using rk l0 by (simp, linarith)
  then have "sort ?L ! (nearest_rank c (Fin q) - 1) \<in> set ?L" by (metis nth_mem set_sort)
  then have x: "0 \<le> x" "x \<le> maxTracked" using samples_nonneg [of es] by (auto simp: x_def maxTracked_def hour_def)
  have "128 * \<bar>percentile c (Fin q) - x\<bar> \<le> 128 * \<bar>bucketMid (bucketIndex x) - x\<bar>"
    unfolding p using clamp_closer [OF x, of "bucketMid (bucketIndex x)"] by simp
  also have "\<dots> \<le> x" using x by (rule bucketMid_error)
  finally show ?thesis unfolding near_capped_def x_def Let_def using rk by blast
qed

definition interval_point :: "segment \<Rightarrow> point \<Rightarrow> bool" where
  "interval_point = (\<lambda>(es, now, vus) p. let L = samples_of es in
     pt_At p = now \<and> pt_VUs p = vus \<and> pt_Requests p = int (length L) \<and>
     pt_Failed p = int (length (latencies False es)) \<and>
     (if L = [] then pt_Mean p = 0 \<and> pt_P50 p = 0 \<and> pt_P95 p = 0 \<and> pt_P99 p = 0
      else pt_Mean p = sum_list L div int (length L) \<and>
           near_capped 50 L (pt_P50 p) \<and> near_capped 95 L (pt_P95 p) \<and> near_capped 99 L (pt_P99 p)))"

lemma sint_div_u64:
  assumes "0 \<le> s" "s < 2 ^ 63" "0 < n" "n < 2 ^ 63"
  shows "sint ((of_int s :: u64) div of_int n) = s div n"
proof -
  have un: "uint (of_int k :: u64) = k" if "0 \<le> k" "k < 2 ^ 63" for k
    using that by (simp add: uint_word_of_int)
  have "uint ((of_int s :: u64) div of_int n) = s div n"
    using un [OF assms(1,2)] un [OF _ assms(4)] assms(3) by (simp add: uint_div_distrib)
  then have "(of_int s :: u64) div of_int n = of_int (s div n)" by (metis word_of_int_uint)
  moreover have "0 \<le> s div n" using assms by (simp add: pos_imp_zdiv_nonneg_iff)
  moreover have "s div n \<le> s div 1" using assms by (intro zdiv_mono2) simp_all
  ultimately show ?thesis using assms(2) by (simp add: sint_of_int_u64)
qed

lemma sample_step:
  assumes inv: "run_inv n (st, rs) (es0 @ es)" and sa: "sampler_inv n sa es0"
    and len: "length (samples_of (es0 @ es)) \<le> 2000000" and sum: "sum_list (samples_of (es0 @ es)) < 2 ^ 63"
  shows "sampler_inv n (fst (Sample st sa now vus)) (es0 @ es) \<and>
         interval_point (es, now, vus) (snd (Sample st sa now vus))"
proof -
  let ?L = "samples_of es"
  let ?f = "length (latencies False es)"
  note ld = sample_load_run [OF inv sa]
  have d: "map2 (-) (sa_cur (sample_load st sa)) (sa_prev (sample_load st sa)) = cum_counts es"
    using ld sa by (simp add: sampler_inv_def cum_counts_diff)
  have fl: "?f \<le> length ?L" by (simp add: samples_of_def all_latencies_def)
  have ll: "length ?L \<le> 2000000"
    using len mset_eq_length [OF samples_of_append [of es0 es, folded mset_append]] by simp
  have big: "(2000000 :: nat) < 2 ^ 63" "(2000000 :: nat) < 2 ^ 64" by simp_all
  have n63: "length ?L < 2 ^ 63" "?f < 2 ^ 63" "length ?L < 2 ^ 64" "?f < 2 ^ 64"
    using ll fl big by (meson le_less_trans order_trans)+
  have fd: "sa_curFailed (sample_load st sa) - sa_prevFailed (sample_load st sa) = of_nat ?f"
    using ld sa by (simp add: sampler_inv_def latencies_append)
  have sums: "sum_list (samples_of (es0 @ es)) = sum_list (samples_of es0) + sum_list ?L"
    using samples_of_append [of es0 es] by (metis mset_append sum_list_append sum_mset_sum_list)
  have sd: "sa_curSum (sample_load st sa) - sa_prevSum (sample_load st sa) = of_int (sum_list ?L)"
    using ld sa sums by (simp add: sampler_inv_def)
  have fm: "min (of_nat ?f) (of_nat (length ?L)) = (of_nat ?f :: u64)"
    using of_nat_u64_le_iff [OF n63(4,3)] fl by (simp add: min_def)
  have s0: "0 \<le> sum_list ?L" "0 \<le> sum_list (samples_of es0)" using samples_nonneg by (simp_all add: sum_list_nonneg)
  have si: "sint (of_nat ?f :: u64) = int ?f" "sint (of_nat (length ?L) :: u64) = int (length ?L)"
    using n63 by (simp_all add: sint_of_nat_u64)
  have nz: "(of_nat (length ?L) :: u64) = 0 \<longleftrightarrow> ?L = []" using si(2) by auto
  have mean: "sint ((of_int (sum_list ?L) :: u64) div of_nat (length ?L)) = sum_list ?L div int (length ?L)"
    if "?L \<noteq> []"
  proof -
    have "int (length ?L) < 2 ^ 63" using ll by simp
    then show ?thesis using sint_div_u64 [of "sum_list ?L" "int (length ?L)"] s0 sum sums that by simp
  qed
  note pct = interval_percentile [OF _ _ _ _ _ _ _ ll]
  have "sampler_inv n (fst (Sample st sa now vus)) (es0 @ es)"
    unfolding sampler_inv_def Sample_def sample_point_def d fd
    using ld sa fm si by (simp add: cum_counts_total sampler_inv_def latencies_append Let_def, simp add: cum_counts_def)
  moreover have "interval_point (es, now, vus) (snd (Sample st sa now vus))"
    unfolding Sample_def sample_point_def d fd sd interval_point_def
    using si nz mean pct fl by (auto simp add: Let_def word_gt_0 cum_counts_total fm)
  ultimately show ?thesis ..
qed


lemma sampler_inv_new:
  "sampler_inv n (NewSampler (snd (NewRecorders mstore_empty n))) []"
proof -
  obtain st rs where s: "NewRecorders mstore_empty n = (st, rs)" by (cases "NewRecorders mstore_empty n")
  have sh: "shaped n st rs" using shaped_new [of n] by (simp add: s)
  have "seen_shards rs [] = [0..<min n numShards]"
  proof (cases "n = 0")
    case True
    then show ?thesis using sh by (simp add: shaped_def)
  next
    case False
    then have "0 < min n numShards" by (simp add: numShards_def)
    then show ?thesis using sh seen_shards_from [of rs "min n numShards" 0]
      by (simp add: shaped_def min.assoc [symmetric])
  qed
  then show ?thesis
    by (simp add: sampler_inv_def NewSampler_def s cum_counts_def samples_of_def all_latencies_def
        map_replicate_const)
qed

lemma run_inv_events:
  assumes "run_inv n s es0" "valid_trace n es"
  shows "run_inv n (foldl run_event s es) (es0 @ es)"
  using assms(2)
proof (induction es rule: rev_induct)
  case Nil
  then show ?case using assms(1) by simp
next
  case (snoc x es)
  then have "run_inv n (run_event (foldl run_event s es) (fst x, snd x)) ((es0 @ es) @ [(fst x, snd x)])"
    using valid_trace_snoc [OF snoc.prems] by (intro run_inv_step) auto
  then show ?case by simp
qed

lemma sampled_intervals:
  assumes "run_inv n s es0" "sampler_inv n sa es0" "\<forall>(es, _)\<in>set segs. valid_trace n es"
    and "length (samples_of (es0 @ concat (map fst segs))) \<le> 2000000"
    and "sum_list (samples_of (es0 @ concat (map fst segs))) < 2 ^ 63"
  shows "list_all2 interval_point segs (sampled sa s segs)"
  using assms
proof (induction segs arbitrary: s sa es0)
  case Nil
  then show ?case by simp
next
  case (Cons seg segs)
  obtain es now vus where seg: "seg = (es, now, vus)" by (cases seg)
  obtain st rs where st: "foldl run_event s es = (st, rs)" by (cases "foldl run_event s es")
  have inv: "run_inv n (st, rs) (es0 @ es)"
    using run_inv_events [OF Cons.prems(1), of es] Cons.prems(3) by (simp add: seg st)
  have all: "es0 @ concat (map fst (seg # segs)) = (es0 @ es) @ concat (map fst segs)" by (simp add: seg)
  have ms: "mset (samples_of ((es0 @ es) @ concat (map fst segs))) =
      mset (samples_of (es0 @ es)) + mset (samples_of (concat (map fst segs)))"
    by (rule samples_of_append)
  have "length (samples_of (es0 @ es)) \<le> 2000000"
    using Cons.prems(4) arg_cong [OF ms, of size] unfolding all by simp
  moreover have "0 \<le> sum_list (samples_of (concat (map fst segs)))"
    using samples_nonneg by (simp add: sum_list_nonneg)
  then have "sum_list (samples_of (es0 @ es)) < 2 ^ 63"
    using Cons.prems(5) arg_cong [OF ms, of sum_mset] unfolding all by (simp add: sum_mset_sum_list)
  ultimately have step: "sampler_inv n (fst (Sample st sa now vus)) (es0 @ es)"
    "interval_point (es, now, vus) (snd (Sample st sa now vus))"
    using sample_step [OF inv Cons.prems(2)] by simp_all
  have "list_all2 interval_point segs (sampled (fst (Sample st sa now vus)) (st, rs) segs)"
    using Cons.prems unfolding all by (intro Cons.IH [OF inv step(1)]) simp_all
  then show ?case using step(2) by (cases "Sample st sa now vus") (simp add: seg st Let_def)
qed

section \<open>Snapshots taken while requests are being recorded\<close>

text \<open>\<open>record\<close> updates several counters one after the other, and the sampler's loads are spread
  over time as well: a reading is any value of each counter, non-decreasing from sample to
  sample.\<close>

type_synonym reading = "u64 list \<times> u64 \<times> u64"

definition with_reading :: "sampler \<Rightarrow> reading \<Rightarrow> sampler" where
  "with_reading s = (\<lambda>(c, sm, f). s\<lparr>sa_cur := c, sa_curSum := sm, sa_curFailed := f\<rparr>)"

fun points_of :: "sampler \<Rightarrow> reading list \<Rightarrow> point list" where
  "points_of s [] = []"
| "points_of s (r # rs) = (case sample_point (with_reading s r) 0 0 of (s', p) \<Rightarrow> p # points_of s' rs)"

definition read_total :: "u64 list \<Rightarrow> int" where
  "read_total c = sum_list (map uint c)"

definition failed_at :: "reading \<Rightarrow> int" where
  "failed_at = (\<lambda>(c, sm, f). uint f)"

definition requests_at :: "reading \<Rightarrow> int" where
  "requests_at = (\<lambda>(c, sm, f). read_total c)"

fun reads_mono :: "reading \<Rightarrow> reading list \<Rightarrow> bool" where
  "reads_mono r [] = True"
| "reads_mono r (r' # rs) = (list_all2 (\<le>) (fst r) (fst r') \<and> snd (snd r) \<le> snd (snd r') \<and>
     requests_at r' < 2 ^ 63 \<and> reads_mono r' rs)"

definition reading_zero :: reading where
  "reading_zero = (replicate (nat numBuckets) 0, 0, 0)"

lemma read_diff:
  "list_all2 (\<le>) p c \<Longrightarrow> sum_list (map2 (-) c p) = (of_int (read_total c - read_total p) :: u64) \<and>
     read_total p \<le> read_total c"
proof (induction p c rule: list_all2_induct)
  case Nil
  then show ?case by (simp add: read_total_def)
next
  case (Cons x xs y ys)
  then show ?case by (simp add: read_total_def word_le_def algebra_simps)
qed

lemma read_total_nonneg: "0 \<le> read_total c"
  by (induction c) (simp_all add: read_total_def)

lemma reading_step:
  assumes s: "sa_prev s = fst r" "uint (sa_prevFailed s) \<le> failed_at r"
    and m: "list_all2 (\<le>) (fst r) (fst r')" "snd (snd r) \<le> snd (snd r')" "requests_at r' < 2 ^ 63"
  defines "p \<equiv> snd (sample_point (with_reading s r') 0 0)"
    and "s' \<equiv> fst (sample_point (with_reading s r') 0 0)"
  shows "pt_Requests p = requests_at r' - requests_at r \<and> 0 \<le> pt_Requests p \<and>
         pt_Failed p = min (failed_at r' - uint (sa_prevFailed s)) (pt_Requests p) \<and> 0 \<le> pt_Failed p \<and>
         sa_prev s' = fst r' \<and> uint (sa_prevFailed s') = uint (sa_prevFailed s) + pt_Failed p"
proof -
  obtain c sm f where r': "r' = (c, sm, f)" by (cases r')
  define n where "n = read_total c - read_total (fst r)"
  have rd: "sum_list (map2 (-) c (fst r)) = (of_int n :: u64)" "0 \<le> n" "n < 2 ^ 63"
    using read_diff [OF m(1)] m(3) read_total_nonneg [of "fst r"]
    by (simp_all add: r' n_def requests_at_def)
  have un: "uint (of_int n :: u64) = n" using rd by (simp add: uint_word_of_int)
  have le: "uint (sa_prevFailed s) \<le> uint f" using s(2) m(2) by (cases r) (simp add: r' failed_at_def word_le_def)
  from le have uf: "uint (f - sa_prevFailed s) = uint f - uint (sa_prevFailed s)" by (simp add: uint_sub_lem [THEN iffD1])
  define g where "g = min (f - sa_prevFailed s) (of_int n)"
  have ug: "uint g = min (uint f - uint (sa_prevFailed s)) n"
    unfolding g_def min_def by (simp add: word_le_def un uf)
  have gb: "0 \<le> uint g" "uint g < 2 ^ 63" using ug rd le by simp_all
  have sg: "sint g = uint g" using sint_of_int_u64 [OF gb] by simp
  have sn: "sint (of_int n :: u64) = n" using rd by (simp add: sint_of_int_u64)
  have fl: "uint (sa_prevFailed s + g) = uint (sa_prevFailed s) + uint g"
    using ug le rd uint_lt2p [of f] by (subst uint_add_lem [THEN iffD1]) simp_all
  have gw: "word_of_int (min (uint f - uint (sa_prevFailed s)) n) = g"
    unfolding ug [symmetric] by (rule word_of_int_uint)
  have rt: "requests_at r = read_total (fst r)" by (cases r) (simp add: requests_at_def)
  show ?thesis unfolding p_def s'_def sample_point_def with_reading_def rt
    using s(1) sn sg ug gb fl rd(2) un gw
    by (simp add: r' rd(1) Let_def failed_at_def requests_at_def g_def [symmetric] n_def [symmetric]
        split: prod.splits)
qed


lemma points_totals:
  assumes "sa_prev s = fst r" "uint (sa_prevFailed s) \<le> failed_at r" "reads_mono r rs"
  shows "sum_list (map pt_Requests (points_of s rs)) = requests_at (last (r # rs)) - requests_at r \<and>
    (\<forall>p\<in>set (points_of s rs). 0 \<le> pt_Failed p \<and> pt_Failed p \<le> pt_Requests p) \<and>
    uint (sa_prevFailed s) + sum_list (map pt_Failed (points_of s rs)) \<le> failed_at (last (r # rs)) \<and>
    ((\<forall>x\<in>set (r # rs). failed_at (last (r # rs)) - failed_at x \<le> requests_at (last (r # rs)) - requests_at x) \<longrightarrow>
     failed_at (last (r # rs)) - uint (sa_prevFailed s) \<le> requests_at (last (r # rs)) - requests_at r \<longrightarrow>
     uint (sa_prevFailed s) + sum_list (map pt_Failed (points_of s rs)) = failed_at (last (r # rs)))"
  using assms
proof (induction rs arbitrary: s r)
  case Nil
  then show ?case by auto
next
  case (Cons r' rs)
  obtain s' p where sp: "sample_point (with_reading s r') 0 0 = (s', p)" by (cases "sample_point (with_reading s r') 0 0")
  have m: "list_all2 (\<le>) (fst r) (fst r')" "snd (snd r) \<le> snd (snd r')" "requests_at r' < 2 ^ 63"
    "reads_mono r' rs" using Cons.prems(3) by simp_all
  note st = reading_step [OF Cons.prems(1,2) m(1-3), unfolded sp fst_conv snd_conv]
  have F: "uint (sa_prevFailed s') \<le> failed_at r'" using st by linarith
  note IH = Cons.IH [OF _ F m(4)]
  show ?case using IH st sp by (simp only: points_of.simps last_ConsR list.distinct) (auto simp: min_def)
qed

section \<open>Properties\<close>



text \<open>Totals of the series under concurrent recording. Whatever the loads of the samples return,
  as long as no counter decreases, the points' requests add up to the requests of the last
  snapshot, no point shows more failures than requests, and the points' failures never exceed the
  failures recorded. They add up to them whenever the failed counter never lags behind the buckets
  in a snapshot by more than in the last one (which a quiescent last snapshot alone does not
  ensure: see \<open>clamped_failure_lost\<close>).\<close>

theorem sampler_totals:
  assumes "reads_mono reading_zero rs" and "rs \<noteq> []" and "sa_prev s = fst reading_zero"
    and "sa_prevFailed s = 0"
  shows "sum_list (map pt_Requests (points_of s rs)) = requests_at (last rs) \<and>
    (\<forall>p\<in>set (points_of s rs). 0 \<le> pt_Failed p \<and> pt_Failed p \<le> pt_Requests p) \<and>
    sum_list (map pt_Failed (points_of s rs)) \<le> failed_at (last rs) \<and>
    ((\<forall>x\<in>set (reading_zero # rs). failed_at (last rs) - failed_at x \<le> requests_at (last rs) - requests_at x) \<longrightarrow>
     sum_list (map pt_Failed (points_of s rs)) = failed_at (last rs))"
proof -
  have z: "requests_at reading_zero = 0" "failed_at reading_zero = 0"
    by (simp_all add: reading_zero_def requests_at_def failed_at_def read_total_def sum_list_replicate)
  then have "uint (sa_prevFailed s) \<le> failed_at reading_zero" using assms(4) by simp
  note t = points_totals [OF assms(3) this assms(1)]
  show ?thesis using t assms(2,4) z by simp
qed

definition first_bucket :: "u64 \<Rightarrow> u64 list" where
  "first_bucket n = n # replicate (nat numBuckets - 1) 0"

lemma first_bucket_facts:
  "list_all2 (\<le>) (fst reading_zero) (first_bucket n)" "m \<le> n \<Longrightarrow> list_all2 (\<le>) (first_bucket m) (first_bucket n)"
  "read_total (first_bucket n) = uint n"
proof -
  have z: "replicate (nat numBuckets) (0 :: u64) = 0 # replicate (nat numBuckets - 1) 0"
    using numBuckets_val by (simp flip: replicate_Suc)
  show "list_all2 (\<le>) (fst reading_zero) (first_bucket n)"
    unfolding reading_zero_def fst_conv z first_bucket_def by (simp add: list_all2_refl)
  show "m \<le> n \<Longrightarrow> list_all2 (\<le>) (first_bucket m) (first_bucket n)"
    by (simp add: first_bucket_def list_all2_refl)
  show "read_total (first_bucket n) = uint n"
    by (simp add: first_bucket_def read_total_def sum_list_replicate)
qed

lemma fresh_sampler: "sa_prev (NewSampler rs) = fst reading_zero" "sa_prevFailed (NewSampler rs) = 0"
  by (simp_all add: NewSampler_def reading_zero_def)

theorem sampler_totals_witness:
  "sum_list (map pt_Failed (points_of (NewSampler []) [(first_bucket 1, 4, 0), (first_bucket 2, 9, 1)])) = 1"
  using sampler_totals [of "[(first_bucket 1, 4, 0), (first_bucket 2, 9, 1)]" "NewSampler []"]
    first_bucket_facts fresh_sampler
  by (simp add: requests_at_def failed_at_def reading_zero_def sum_list_replicate read_total_def)

text \<open>A failing request whose bucket was loaded before the failed counter was incremented, with no
  request after it: the clamp drops the failure from the series for good.\<close>

lemma clamped_failure_lost:
  "reads_mono reading_zero [(first_bucket 1, 4, 0), (first_bucket 1, 4, 1)] \<and>
   sum_list (map pt_Failed (points_of (NewSampler []) [(first_bucket 1, 4, 0), (first_bucket 1, 4, 1)])) = 0"
proof -
  have m1: "reads_mono reading_zero [(first_bucket 1, 4, 0)]"
    and m2: "reads_mono reading_zero [(first_bucket 1, 4, 0), (first_bucket 1, 4, 1)]"
    using first_bucket_facts by (simp_all add: requests_at_def reading_zero_def)
  note st1 = reading_step [of "NewSampler []" reading_zero "(first_bucket 1, 4, 0)"]
  obtain s1 p1 where sp: "sample_point (with_reading (NewSampler []) (first_bucket 1, 4, 0)) 0 0 = (s1, p1)"
    by (cases "sample_point (with_reading (NewSampler []) (first_bucket 1, 4, 0)) 0 0")
  have z: "requests_at reading_zero = 0" "failed_at reading_zero = 0"
    by (simp_all add: reading_zero_def requests_at_def failed_at_def read_total_def sum_list_replicate)
  have s1: "pt_Failed p1 = 0" "sa_prev s1 = first_bucket 1" "uint (sa_prevFailed s1) = 0"
    using st1 m1 fresh_sampler z unfolding sp by (simp_all add: failed_at_def)
  note st2 = reading_step [of s1 "(first_bucket 1, 4, 0)" "(first_bucket 1, 4, 1)"]
  have "pt_Failed (snd (sample_point (with_reading s1 (first_bucket 1, 4, 1)) 0 0)) = 0"
    using st2 m2 s1 by (simp add: failed_at_def requests_at_def)
  then show ?thesis using m2 sp s1
    by (cases "sample_point (with_reading s1 (first_bucket 1, 4, 1)) 0 0") simp
qed

end
