(* ===== verification/Scenario.thy ===== *)
theory Scenario
  imports Arrival Sampler
begin

text \<open>
  \<open>internal/engine/scenario.go\<close> and \<open>engine.go\<close>: \<open>RunScenariosSampled\<close> creates the VUs of every
  scenario, hands each scenario its slice of the recorders and its times, and merges what the
  VUs recorded. What the VUs do is the client's: the run is given as the trace of the recorder
  calls, cut where the sampler's ticks fall; \<open>NewVU\<close> and the state of the context are arguments
  too. Times are nanoseconds on the clock \<open>time.Now\<close> reads.
\<close>

section \<open>The code\<close>

record 'i scenario =
  sc_Name :: string
  sc_Executor :: executor
  sc_StartTime :: duration
  sc_GracefulStop :: duration
  sc_NewVU :: "nat \<Rightarrow> string + 'i"

datatype run_error =
    NoScenarios
  | ScenarioInvalid string executor_error
  | Cancelled string
  | InitializeVU nat string

record 'i scenario_run =
  run_start :: int
  run_stopStarting :: int
  run_deadline :: int
  run_iters :: "'i list"
  run_recs :: "nat list"

record run_result =
  res_Summary :: summary
  res_Started :: int
  res_Elapsed :: duration
  res_Series :: "point list"

text \<open>The loop over one scenario's VUs from \<open>j\<close> on, \<open>m\<close> of them left; \<open>ctxErr i\<close> is what \<open>ctx.Err()\<close>
  returns before the \<open>i\<close>th VU of the test.\<close>

fun init_vus :: "(nat \<Rightarrow> string option) \<Rightarrow> (nat \<Rightarrow> string + 'i) \<Rightarrow> nat \<Rightarrow> nat \<Rightarrow> nat \<Rightarrow> run_error + 'i list" where
  "init_vus ctxErr newVU tot j 0 = Inr []"
| "init_vus ctxErr newVU tot j (Suc m) = (case ctxErr (tot + j) of
       Some err \<Rightarrow> Inl (Cancelled err)
     | None \<Rightarrow> (case newVU j of
         Inl err \<Rightarrow> Inl (InitializeVU (tot + j) err)
       | Inr iter \<Rightarrow> (case init_vus ctxErr newVU tot (Suc j) m of
           Inl e \<Rightarrow> Inl e
         | Inr iters \<Rightarrow> Inr (iter # iters))))"

fun init_scenarios :: "(nat \<Rightarrow> string option) \<Rightarrow> nat \<Rightarrow> 'i scenario list \<Rightarrow> run_error + 'i list list" where
  "init_scenarios ctxErr tot [] = Inr []"
| "init_scenarios ctxErr tot (sc # scs) = (case validate (sc_Executor sc) of
       Some err \<Rightarrow> Inl (ScenarioInvalid (sc_Name sc) err)
     | None \<Rightarrow> (case init_vus ctxErr (sc_NewVU sc) tot 0 (nat (MaxVUs (sc_Executor sc))) of
         Inl e \<Rightarrow> Inl e
       | Inr iters \<Rightarrow> (case init_scenarios ctxErr (tot + length iters) scs of
           Inl e \<Rightarrow> Inl e
         | Inr rest \<Rightarrow> Inr (iters # rest))))"

text \<open>The loop that starts the scenarios; recorders are named by their position.\<close>

fun plan_runs :: "int \<Rightarrow> nat \<Rightarrow> 'i scenario list \<Rightarrow> 'i list list \<Rightarrow> 'i scenario_run list" where
  "plan_runs start nxt (sc # scs) (iters # itss) =
     (let begin = start + sc_StartTime sc; stop = begin + Length (sc_Executor sc)
      in \<lparr>run_start = begin, run_stopStarting = stop, run_deadline = stop + sc_GracefulStop sc,
          run_iters = iters, run_recs = [nxt..<nxt + length iters]\<rparr>
         # plan_runs start (nxt + length iters) scs itss)"
| "plan_runs start nxt _ _ = []"

definition activeVUs :: "'i scenario list \<Rightarrow> duration \<Rightarrow> int option" where
  "activeVUs scs t = active_sum activeAt (map (\<lambda>sc. (sc_StartTime sc, sc_Executor sc)) scs) t 0"

text \<open>\<open>sample\<close>: a point per tick and a last one, each after the recorder calls of its interval. A
  panic in \<open>activeVUs\<close> is \<open>None\<close>.\<close>

fun sample_segments :: "'i scenario list \<Rightarrow> ((nat \<times> event) list \<times> duration) list \<Rightarrow> segment list option" where
  "sample_segments scs [] = Some []"
| "sample_segments scs ((es, t) # segs) = (case activeVUs scs t of
       None \<Rightarrow> None
     | Some n \<Rightarrow> map_option (\<lambda>r. (es, t, n) # r) (sample_segments scs segs))"

definition RunScenarios ::
  "(nat \<Rightarrow> string option) \<Rightarrow> 'i scenario list \<Rightarrow> int \<Rightarrow> ((nat \<times> event) list \<times> duration) list \<Rightarrow> int list \<Rightarrow> duration \<Rightarrow>
   (run_error + 'i scenario_run list \<times> run_result) option" where
  "RunScenarios ctxErr scs start segs dropped elapsed =
     (if scs = [] then Some (Inl NoScenarios)
      else case init_scenarios ctxErr 0 scs of
             Inl e \<Rightarrow> Some (Inl e)
           | Inr itss \<Rightarrow>
               let tot = sum_list (map length itss);
                   runs = plan_runs start 0 scs itss
               in case sample_segments scs segs of
                    None \<Rightarrow> None
                  | Some ss \<Rightarrow> (case run_summary tot (concat (map fst segs)) of
                      None \<Rightarrow> None
                    | Some s \<Rightarrow> Some (Inr (runs,
                        \<lparr>res_Summary = s\<lparr>s_DroppedIterations := foldl (+) (s_DroppedIterations s) dropped\<rparr>,
                         res_Started = start, res_Elapsed = elapsed, res_Series = sample_run tot ss\<rparr>))))"

definition Run ::
  "(nat \<Rightarrow> string option) \<Rightarrow> int \<Rightarrow> duration \<Rightarrow> duration \<Rightarrow> (nat \<Rightarrow> string + 'i) \<Rightarrow> int \<Rightarrow>
   ((nat \<times> event) list \<times> duration) list \<Rightarrow> int list \<Rightarrow> duration \<Rightarrow>
   (run_error + 'i scenario_run list \<times> run_result) option" where
  "Run ctxErr vus dur graceful newVU =
     RunScenarios ctxErr [\<lparr>sc_Name = ''default'', sc_Executor = ConstantVUs \<lparr>cv_VUs = vus, cv_Duration = dur\<rparr>,
       sc_StartTime = 0, sc_GracefulStop = graceful, sc_NewVU = newVU\<rparr>]"

text \<open>\<open>iterate\<close> counts an iteration unless its context ended; \<open>waitUntil\<close> reports whether \<open>t\<close> was
  reached with the context live.\<close>

definition iterate :: "(mstore \<times> recorder \<Rightarrow> mstore \<times> recorder) \<Rightarrow> bool \<Rightarrow> mstore \<times> recorder \<Rightarrow> mstore \<times> recorder" where
  "iterate iter ctxEnded sr = (let (st, r) = iter sr in if ctxEnded then (st, r) else (st, RecordIteration r))"

definition waitUntil :: "int \<Rightarrow> int \<Rightarrow> bool \<Rightarrow> bool \<Rightarrow> bool" where
  "waitUntil t now doneFirst ctxErr =
     (if t - now \<le> 0 then \<not> ctxErr else if doneFirst then False else \<not> ctxErr)"

section \<open>Creating the VUs\<close>

text \<open>The steps of the start-up in the order the code takes them, each with the error it can end the
  run with: every scenario is validated, then its VUs are created one by one.\<close>

definition vu_creation_error :: "(nat \<Rightarrow> string option) \<Rightarrow> (nat \<Rightarrow> string + 'i) \<Rightarrow> nat \<Rightarrow> nat \<Rightarrow> run_error option" where
  "vu_creation_error ctxErr newVU tot j = (case ctxErr (tot + j) of
       Some err \<Rightarrow> Some (Cancelled err)
     | None \<Rightarrow> (case newVU j of Inl err \<Rightarrow> Some (InitializeVU (tot + j) err) | Inr _ \<Rightarrow> None))"

fun startup_steps :: "(nat \<Rightarrow> string option) \<Rightarrow> nat \<Rightarrow> 'i scenario list \<Rightarrow> run_error option list" where
  "startup_steps ctxErr tot [] = []"
| "startup_steps ctxErr tot (sc # scs) =
     (let n = nat (MaxVUs (sc_Executor sc))
      in map_option (ScenarioInvalid (sc_Name sc)) (validate (sc_Executor sc))
         # map (vu_creation_error ctxErr (sc_NewVU sc) tot) [0..<n] @ startup_steps ctxErr (tot + n) scs)"

fun first_error :: "'e option list \<Rightarrow> 'e option" where
  "first_error [] = None"
| "first_error (None # xs) = first_error xs"
| "first_error (Some e # xs) = Some e"

lemma first_error_append:
  "first_error (xs @ ys) = (case first_error xs of None \<Rightarrow> first_error ys | Some e \<Rightarrow> Some e)"
  by (induction xs rule: first_error.induct) simp_all

lemma init_vus_first:
  "init_vus ctxErr newVU tot j m =
     (case first_error (map (vu_creation_error ctxErr newVU tot) [j..<j + m]) of
        None \<Rightarrow> Inr (map (\<lambda>j. projr (newVU j)) [j..<j + m])
      | Some e \<Rightarrow> Inl e)"
proof (induction m arbitrary: j)
  case (Suc m)
  define rest where "rest = [Suc j..<Suc j + m]"
  have u: "[j..<j + Suc m] = j # rest" by (simp add: upt_conv_Cons rest_def)
  show ?case
  proof (cases "vu_creation_error ctxErr newVU tot j")
    case None
    then obtain it where "ctxErr (tot + j) = None" "newVU j = Inr it"
      by (auto simp: vu_creation_error_def split: option.splits sum.splits)
    then show ?thesis unfolding u init_vus.simps Suc.IH rest_def [symmetric]
      using None by (simp split: option.splits)
  next
    case (Some e)
    then show ?thesis unfolding u init_vus.simps
      by (auto simp: vu_creation_error_def split: option.splits sum.splits)
  qed
qed simp

definition scenario_iters :: "'i scenario \<Rightarrow> 'i list" where
  "scenario_iters sc = map (\<lambda>j. projr (sc_NewVU sc j)) [0..<nat (MaxVUs (sc_Executor sc))]"

lemma init_scenarios_first:
  "init_scenarios ctxErr tot scs =
     (case first_error (startup_steps ctxErr tot scs) of
        None \<Rightarrow> Inr (map scenario_iters scs)
      | Some e \<Rightarrow> Inl e)"
  by (induction scs arbitrary: tot)
    (simp_all add: init_vus_first first_error_append Let_def scenario_iters_def split: option.splits)

section \<open>Recorders and times\<close>

lemma plan_runs_recs:
  "length scs = length itss \<Longrightarrow>
   concat (map run_recs (plan_runs start nxt scs itss)) = [nxt..<nxt + sum_list (map length itss)]"
proof (induction start nxt scs itss rule: plan_runs.induct)
  case (1 start nxt sc scs iters itss)
  then show ?case using upt_add_eq_append [of nxt "nxt + length iters" "sum_list (map length itss)"]
    by (simp add: Let_def add.assoc)
qed simp_all

definition planned :: "int \<Rightarrow> 'i scenario \<Rightarrow> 'i list \<Rightarrow> 'i scenario_run \<Rightarrow> bool" where
  "planned start sc iters r \<longleftrightarrow> run_start r = start + sc_StartTime sc \<and>
     run_stopStarting r = run_start r + Length (sc_Executor sc) \<and>
     run_deadline r = run_stopStarting r + sc_GracefulStop sc \<and>
     run_iters r = iters \<and> length (run_recs r) = length iters"

lemma plan_runs_times:
  "length scs = length itss \<Longrightarrow> length (plan_runs start nxt scs itss) = length scs \<and>
   (\<forall>i<length scs. planned start (scs ! i) (itss ! i) (plan_runs start nxt scs itss ! i))"
proof (induction start nxt scs itss rule: plan_runs.induct)
  case (1 start nxt sc scs iters itss)
  then show ?case by (auto simp: Let_def planned_def nth_Cons split: nat.splits)
qed simp_all

lemma sampled_times: "map pt_At (sampled sa s segs) = map (fst \<circ> snd) segs"
  "map pt_VUs (sampled sa s segs) = map (snd \<circ> snd) segs"
  by (induction sa s segs rule: sampled.induct)
    (simp_all add: Let_def Sample_def sample_point_def split: prod.splits)

lemma Merge_dropped: "Merge st rs = Some s \<Longrightarrow> s_DroppedIterations s = 0"
proof -
  have z: "s_DroppedIterations (foldl merge_recorder s0 rs) = s_DroppedIterations s0" for s0
    by (induction rs arbitrary: s0) (simp_all add: merge_recorder_def)
  show "Merge st rs = Some s \<Longrightarrow> s_DroppedIterations s = 0"
    by (auto simp: Merge_def Let_def merge_latency_def merge_success_def z summary_zero_def split: option.splits if_splits)
qed

definition total_VUs :: "'i scenario list \<Rightarrow> int" where
  "total_VUs scs = (\<Sum>sc\<leftarrow>scs. MaxVUs (sc_Executor sc))"

text \<open>The number of VUs active at an offset, each scenario on its own clock.\<close>

definition active_at :: "'i scenario list \<Rightarrow> duration \<Rightarrow> int" where
  "active_at scs t = (\<Sum>sc\<leftarrow>scs. ex.contribution t (sc_StartTime sc, sc_Executor sc))"

definition scenarios_ok :: "'i scenario list \<Rightarrow> bool" where
  "scenarios_ok scs \<longleftrightarrow> total_VUs scs < 2 ^ 63 \<and>
     (\<forall>sc\<in>set scs. executor_ok (sc_Executor sc) \<and> 0 \<le> sc_StartTime sc \<and> sc_StartTime sc < 2 ^ 63)"

lemma activeVUs_exact:
  assumes "scenarios_ok scs" "0 \<le> t" "t < 2 ^ 63"
  shows "activeVUs scs t = Some (active_at scs t)" "0 \<le> active_at scs t" "active_at scs t \<le> total_VUs scs"
proof -
  let ?es = "map (\<lambda>sc. (sc_StartTime sc, sc_Executor sc)) scs"
  have "\<forall>(start, e)\<in>set ?es. executor_ok e \<and> 0 \<le> start \<and> start < 2 ^ 63"
    using assms(1) by (auto simp: scenarios_ok_def)
  moreover have "0 + (\<Sum>(start, e)\<leftarrow>?es. MaxVUs e) < 2 ^ 63"
    using assms(1) by (simp add: scenarios_ok_def total_VUs_def o_def)
  ultimately have "active_sum activeAt ?es t 0 = Some (0 + (\<Sum>se\<leftarrow>?es. ex.contribution t se)) \<and>
    0 \<le> (\<Sum>se\<leftarrow>?es. ex.contribution t se) \<and> (\<Sum>se\<leftarrow>?es. ex.contribution t se) \<le> (\<Sum>(start, e)\<leftarrow>?es. MaxVUs e)"
    using assms by (intro ex.sum_exact) simp_all
  then show "activeVUs scs t = Some (active_at scs t)" "0 \<le> active_at scs t" "active_at scs t \<le> total_VUs scs"
    by (simp_all add: activeVUs_def active_at_def total_VUs_def o_def)
qed

lemma sample_segments_exact:
  assumes "scenarios_ok scs" "\<forall>(es, t)\<in>set segs. 0 \<le> t \<and> t < 2 ^ 63"
  shows "sample_segments scs segs = Some (map (\<lambda>(es, t). (es, t, active_at scs t)) segs)"
  using assms(2) by (induction segs) (auto simp: activeVUs_exact [OF assms(1)])

lemma executor_max_pos: "executor_ok e \<Longrightarrow> 1 \<le> MaxVUs e"
  by (rule ex.max_pos)

lemma iters_total:
  assumes "scenarios_ok scs"
  shows "sum_list (map length (map scenario_iters scs)) = nat (total_VUs scs)"
proof -
  have "\<forall>sc\<in>set scs. 0 \<le> MaxVUs (sc_Executor sc)"
    using assms executor_max_pos by (fastforce simp: scenarios_ok_def)
  then have "int (sum_list (map length (map scenario_iters scs))) = total_VUs scs"
    unfolding total_VUs_def by (induction scs) (simp_all add: scenario_iters_def)
  then show ?thesis by simp
qed

section \<open>Properties of a run\<close>

text \<open>How a run fails to start. \<open>RunScenarios\<close> returns an error exactly when there are no scenarios
  or some step of the start-up fails (a scenario that does not validate, the context ending
  before a VU is created, \<open>NewVU\<close> failing), and the error is that of the first step that fails
  in the order of the scenarios and their VUs; a VU is named by its number in the whole test.\<close>

theorem run_start_error:
  "RunScenarios ctxErr scs start segs dropped elapsed = Some (Inl err) \<longleftrightarrow>
     (if scs = [] then err = NoScenarios else first_error (startup_steps ctxErr 0 scs) = Some err)"
  by (auto simp: RunScenarios_def init_scenarios_first Let_def split: option.splits)

text \<open>C13: A run that starts. With valid executors and every VU created, \<open>RunScenarios\<close> returns: the
  recorders are partitioned among the scenarios in order, one per VU; every scenario starts at
  its start time, stops starting iterations after its executor's length and is cancelled its
  graceful stop later; the merged summary counts exactly what the VUs of all scenarios recorded
  and its dropped iterations are the sum of the scenarios'; the time series has one point per
  tick, with the number of active VUs, never negative, never above the VUs of the test.\<close>

theorem run_scenarios_exact:
  assumes "scs \<noteq> []" "scenarios_ok scs" "first_error (startup_steps ctxErr 0 scs) = None"
    and "\<forall>(es, t)\<in>set segs. 0 \<le> t \<and> t < 2 ^ 63"
    and "valid_trace (nat (total_VUs scs)) (concat (map fst segs))"
  shows "\<exists>runs r. RunScenarios ctxErr scs start segs dropped elapsed = Some (Inr (runs, r)) \<and>
    length runs = length scs \<and> concat (map run_recs runs) = [0..<nat (total_VUs scs)] \<and>
    (\<forall>i<length scs. planned start (scs ! i) (scenario_iters (scs ! i)) (runs ! i)) \<and>
    merged_counts (res_Summary r) (concat (map fst segs)) \<and>
    s_DroppedIterations (res_Summary r) = sum_list dropped \<and>
    map pt_At (res_Series r) = map snd segs \<and>
    map pt_VUs (res_Series r) = map (\<lambda>(es, t). active_at scs t) segs \<and>
    (\<forall>p\<in>set (res_Series r). 0 \<le> pt_VUs p \<and> pt_VUs p \<le> total_VUs scs)"
proof -
  let ?n = "nat (total_VUs scs)" and ?es = "concat (map fst segs)"
  let ?ss = "map (\<lambda>(es, t). (es, t, active_at scs t)) segs"
  let ?runs = "plan_runs start 0 scs (map scenario_iters scs)"
  obtain s0 ok al where s: "run_summary ?n ?es = Some (merge_latency al (merge_success ok s0))"
    "merged_counts s0 ?es" using merge_run [OF assms(5)] by blast
  have z: "s_DroppedIterations (merge_latency al (merge_success ok s0)) = 0"
    using s(1) Merge_dropped by (auto simp: run_summary_def split: prod.splits)
  define r where "r = \<lparr>res_Summary = (merge_latency al (merge_success ok s0))\<lparr>s_DroppedIterations := sum_list dropped\<rparr>,
    res_Started = start, res_Elapsed = elapsed, res_Series = sample_run ?n ?ss\<rparr>"
  have fold: "foldl (+) a dropped = a + sum_list dropped" for a :: int
    by (induction dropped arbitrary: a) simp_all
  have tot: "sum_list (map (length \<circ> scenario_iters) scs) = ?n" using iters_total [OF assms(2)] by simp
  have run: "RunScenarios ctxErr scs start segs dropped elapsed = Some (Inr (?runs, r))"
    unfolding RunScenarios_def
    using assms(1,3) s(1) z
    by (simp add: init_scenarios_first Let_def tot sample_segments_exact [OF assms(2,4)] fold r_def)
  have at0: "map pt_At (res_Series r) = map snd segs" and
    vus: "map pt_VUs (res_Series r) = map (\<lambda>(es, t). active_at scs t) segs"
    by (auto simp: r_def sample_run_def Let_def sampled_times)
  have "pt_VUs p \<in> (\<lambda>(es, t). active_at scs t) ` set segs" if "p \<in> set (res_Series r)" for p
    using that vus by (metis image_eqI list.set_map)
  then have range: "0 \<le> pt_VUs p \<and> pt_VUs p \<le> total_VUs scs" if "p \<in> set (res_Series r)" for p
    using that assms(4) activeVUs_exact(2,3) [OF assms(2)] by fastforce
  have "merged_counts (res_Summary r) ?es" using s(2) merged_counts_tail [of al ok s0 ?es]
    by (simp add: r_def merged_counts_def)
  moreover have "concat (map run_recs ?runs) = [0..<?n]"
    using plan_runs_recs [of scs "map scenario_iters scs" start 0] tot by simp
  moreover have "s_DroppedIterations (res_Summary r) = sum_list dropped" by (simp add: r_def)
  ultimately show ?thesis
    using run at0 vus range plan_runs_times [of scs "map scenario_iters scs" start]
    by (intro exI [of _ ?runs] exI [of _ r]) simp
qed

definition two_scenarios :: "nat scenario list" where
  "two_scenarios =
     [\<lparr>sc_Name = ''a'', sc_Executor = ConstantVUs \<lparr>cv_VUs = 1, cv_Duration = 10\<rparr>, sc_StartTime = 5,
       sc_GracefulStop = 2, sc_NewVU = Inr\<rparr>,
      \<lparr>sc_Name = ''b'', sc_Executor = ConstantArrivalRate arrival_example, sc_StartTime = 0,
       sc_GracefulStop = 0, sc_NewVU = Inr\<rparr>]"

lemma two_scenarios_ok:
  "two_scenarios \<noteq> []" "scenarios_ok two_scenarios" "total_VUs two_scenarios = 3"
  "first_error (startup_steps (\<lambda>_. None) 0 two_scenarios) = None" "active_at two_scenarios 7 = 3"
  by (simp_all add: two_scenarios_def scenarios_ok_def total_VUs_def arrival_example_def cv_validate_def
      ar_validate_def vu_creation_error_def active_at_def ex.contribution_def cv_activeAt_def ar_activeAt_def second_def
      upt_rec)

theorem run_scenarios_exact_witness:
  "\<exists>runs r. RunScenarios (\<lambda>_. None) two_scenarios 100 [([(2, EvIteration)], 7)] [0, 4] 20 = Some (Inr (runs, r)) \<and>
     s_Iterations (res_Summary r) = 1 \<and> s_DroppedIterations (res_Summary r) = 4 \<and> map pt_VUs (res_Series r) = [3] \<and>
     run_stopStarting (runs ! 0) = 115"
proof -
  have v: "valid_trace (nat (total_VUs two_scenarios)) (concat (map fst [([(2, EvIteration)], 7 :: int)]))"
    by (simp add: two_scenarios_ok valid_trace_def)
  obtain runs r where r: "RunScenarios (\<lambda>_. None) two_scenarios 100 [([(2, EvIteration)], 7)] [0, 4] 20 = Some (Inr (runs, r))"
    "\<forall>i<length two_scenarios. planned 100 (two_scenarios ! i) (scenario_iters (two_scenarios ! i)) (runs ! i)"
    "merged_counts (res_Summary r) [(2, EvIteration)]" "s_DroppedIterations (res_Summary r) = 4"
    "map pt_VUs (res_Series r) = [active_at two_scenarios 7]"
    using run_scenarios_exact [OF two_scenarios_ok(1,2,4) _ v, of 100 "[0, 4]" 20] by auto
  have "run_stopStarting (runs ! 0) = 115"
    using r(2) [rule_format, of 0] by (simp add: two_scenarios_def planned_def)
  then show ?thesis using r two_scenarios_ok(5)
    by (intro exI [of _ runs] exI [of _ r]) (simp add: merged_counts_def count_ev_def)
qed

end
