(* ===== verification/Config_Engine.thy ===== *)
theory Config_Engine
  imports Config_Options Scenario
begin

text \<open>
  From the settings to the engine: \<open>executor\<close> and \<open>engineScenarios\<close> of
  \<open>internal/runner/runner.go\<close>, what \<open>Resolve\<close> (\<open>internal/config\<close>) promises, and that the engine
  accepts the scenarios it resolves.
\<close>

section \<open>The code\<close>

definition engine_executor :: "cfg_scenario \<Rightarrow> executor" where
  "engine_executor s =
     (if cs_Executor s = exec_RampingVUs
      then RampingVUs \<lparr>rv_StartVUs = cs_StartVUs s,
             rv_Stages = map (\<lambda>st. \<lparr>st_Duration = cst_Duration st, st_Target = cst_Target st\<rparr>) (cs_Stages s),
             rv_GracefulRampDown = cs_GracefulRampDown s\<rparr>
      else if cs_Executor s = exec_ConstantArrivalRate
      then ConstantArrivalRate \<lparr>ar_Rate = cs_Rate s, ar_TimeUnit = cs_TimeUnit s, ar_Duration = cs_Duration s,
             ar_PreAllocatedVUs = cs_PreAllocatedVUs s\<rparr>
      else ConstantVUs \<lparr>cv_VUs = cs_VUs s, cv_Duration = cs_Duration s\<rparr>)"

fun engine_loop :: "(int \<Rightarrow> string \<Rightarrow> string + 'i) \<Rightarrow> int \<Rightarrow> cfg_scenario list \<Rightarrow> 'i scenario list" where
  "engine_loop newVUExec firstVU [] = []"
| "engine_loop newVUExec firstVU (s # ss) =
     \<lparr>sc_Name = cs_Name s, sc_Executor = engine_executor s, sc_StartTime = cs_StartTime s,
      sc_GracefulStop = cs_GracefulStop s, sc_NewVU = (\<lambda>i. newVUExec (firstVU + int i) (cs_Exec s))\<rparr>
     # engine_loop newVUExec (wrap64 (firstVU + cs_MaxVUs s)) ss"

definition engineScenarios :: "(int \<Rightarrow> string \<Rightarrow> string + 'i) \<Rightarrow> cfg_scenario list \<Rightarrow> 'i scenario list" where
  "engineScenarios newVUExec ss = engine_loop newVUExec 1 ss"

section \<open>A resolved scenario\<close>

lemma foldl_map_comp: "foldl f a (map g xs) = foldl (\<lambda>a x. f a (g x)) a xs"
  by (induction xs arbitrary: a) simp_all

lemma engine_executor_MaxVUs: "MaxVUs (engine_executor s) = cs_MaxVUs s"
  by (simp add: engine_executor_def cs_MaxVUs_def rv_MaxVUs_def foldl_map_comp)

lemma engine_executor_Length: "Length (engine_executor s) = cs_Length s"
  by (simp add: engine_executor_def cs_Length_def rv_Length_def foldl_map_comp)

definition within_limits :: "cfg_scenario \<Rightarrow> bool" where
  "within_limits s \<longleftrightarrow> (cs_Executor s = exec_RampingVUs \<longrightarrow>
     cs_MaxVUs s \<le> maxRampingVUs \<and> cs_Length s \<le> 1000 * hour)"

definition scenario_wf :: "cfg_scenario \<Rightarrow> bool" where
  "scenario_wf s \<longleftrightarrow> 0 \<le> cs_StartTime s \<and> 0 \<le> cs_GracefulStop s \<and> 1 \<le> cs_MaxVUs s \<and> 0 < cs_Length s \<and>
     (cs_Exec s = ''default'' \<or> identifier_match (cs_Exec s)) \<and>
     (validate (engine_executor s) = None \<longleftrightarrow> within_limits s)"

lemma bad_stage_copy:
  "stages_ok sts \<Longrightarrow> bad_stage i (map (\<lambda>st. \<lparr>st_Duration = cst_Duration st, st_Target = cst_Target st\<rparr>) sts) = None"
  by (simp add: bad_stage_None stages_ok_def)

lemma scenario_base_simps [simp]:
  "cs_Executor (scenario_base name o1) = so_Executor o1" "cs_Exec (scenario_base name o1) = or_default (so_Exec o1) ''default''"
  "cs_StartTime (scenario_base name o1) = or_default (so_StartTime o1) 0" "cs_Name (scenario_base name o1) = name"
  "cs_GracefulStop (scenario_base name o1) = or_default (so_GracefulStop o1) DefaultGracefulStop"
  by (simp_all add: scenario_base_def cfg_scenario_zero_def)

lemma resolved_kind:
  assumes "resolveScenario name o1 = Inr s"
  shows "1 \<le> cs_MaxVUs s \<and> 0 < cs_Length s \<and> (validate (engine_executor s) = None \<longleftrightarrow> within_limits s) \<and>
    cs_Name s = name \<and> cs_Exec s = or_default (so_Exec o1) ''default'' \<and>
    cs_StartTime s = or_default (so_StartTime o1) 0 \<and>
    cs_GracefulStop s = or_default (so_GracefulStop o1) DefaultGracefulStop \<and> cs_Executor s = so_Executor o1"
proof -
  consider "so_Executor o1 = exec_ConstantVUs" "resolve_constant (scenario_base name o1) o1 = Inr s"
    | "so_Executor o1 = exec_RampingVUs" "resolve_ramping (scenario_base name o1) o1 = Inr s"
    | "so_Executor o1 = exec_ConstantArrivalRate" "resolve_arrival (scenario_base name o1) o1 = Inr s"
    using assms unfolding resolveScenario_Inr by blast
  then show ?thesis
  proof cases
    case 1
    then obtain d where s: "0 < d" "1 \<le> or_default (so_VUs o1) 1"
      "s = (scenario_base name o1)\<lparr>cs_VUs := or_default (so_VUs o1) 1, cs_Duration := d\<rparr>"
      unfolding resolve_constant_Inr by blast
    then show ?thesis using 1(1) exec_distinct
      by (simp add: cs_MaxVUs_def cs_Length_def engine_executor_def within_limits_def cv_validate_def)
  next
    case 2
    then obtain sts where s: "sts \<noteq> []" "stages_ok sts" "0 \<le> or_default (so_StartVUs o1) 1"
      "0 \<le> or_default (so_GracefulRampDown o1) DefaultGracefulRampDown"
      "s = (scenario_base name o1)\<lparr>cs_StartVUs := or_default (so_StartVUs o1) 1,
               cs_GracefulRampDown := or_default (so_GracefulRampDown o1) DefaultGracefulRampDown, cs_Stages := sts\<rparr>"
      "0 < cs_Length s" "1 \<le> cs_MaxVUs s"
      unfolding resolve_ramping_Inr by blast
    have ex: "cs_Executor s = exec_RampingVUs" using s(5) 2(1) by simp
    define rv where "rv = \<lparr>rv_StartVUs = cs_StartVUs s,
             rv_Stages = map (\<lambda>st. \<lparr>st_Duration = cst_Duration st, st_Target = cst_Target st\<rparr>) (cs_Stages s),
             rv_GracefulRampDown = cs_GracefulRampDown s\<rparr>"
    have rv: "engine_executor s = RampingVUs rv" "rv_StartVUs rv = or_default (so_StartVUs o1) 1"
      "rv_Stages rv = map (\<lambda>st. \<lparr>st_Duration = cst_Duration st, st_Target = cst_Target st\<rparr>) sts"
      "rv_GracefulRampDown rv = or_default (so_GracefulRampDown o1) DefaultGracefulRampDown"
      using ex s(5) by (simp_all add: engine_executor_def rv_def)
    have "rv_MaxVUs rv = cs_MaxVUs s" "rv_Length rv = cs_Length s"
      using rv(1) engine_executor_MaxVUs [of s] engine_executor_Length [of s] by simp_all
    then have "rv_validate rv = None \<longleftrightarrow> within_limits s"
      using s(1-4,6,7) rv ex bad_stage_copy [OF s(2), of 0]
      by (auto simp: rv_validate_def within_limits_def)
    then show ?thesis using s 2(1) rv(1) by simp
  next
    case 3
    then obtain r d p where s: "1 \<le> r" "0 < d" "1 \<le> p" "0 < or_default (so_TimeUnit o1) DefaultTimeUnit"
      "s = (scenario_base name o1)\<lparr>cs_Rate := r, cs_Duration := d, cs_PreAllocatedVUs := p,
               cs_TimeUnit := or_default (so_TimeUnit o1) DefaultTimeUnit\<rparr>"
      unfolding resolve_arrival_Inr by blast
    then show ?thesis using 3(1) exec_distinct
      by (simp add: cs_MaxVUs_def cs_Length_def engine_executor_def within_limits_def ar_validate_def)
  qed
qed

lemma resolved_wf:
  assumes "resolveScenario name o1 = Inr s"
  shows "scenario_wf s"
proof -
  have "0 \<le> or_default (so_StartTime o1) 0" "0 \<le> or_default (so_GracefulStop o1) DefaultGracefulStop"
    "so_Exec o1 = None \<or> identifier_match (the (so_Exec o1))"
    using assms unfolding resolveScenario_Inr by blast+
  then show ?thesis using resolved_kind [OF assms] by (cases "so_Exec o1") (simp_all add: scenario_wf_def)
qed

section \<open>The settings\<close>

lemma shorthand_wf:
  "1 \<le> n \<Longrightarrow> 0 < d \<Longrightarrow> 0 \<le> g \<Longrightarrow> s \<in> set (shorthand n d g) \<Longrightarrow> scenario_wf s"
  using exec_distinct
  by (simp add: shorthand_def scenario_wf_def cfg_scenario_zero_def cs_MaxVUs_def cs_Length_def engine_executor_def
      within_limits_def cv_validate_def)

lemma rights_mem: "b \<in> set (rights xs) \<longleftrightarrow> Inr b \<in> set xs"
  by (force simp: rights_def split: sum.splits)

lemma length_rights: "lefts xs = [] \<Longrightarrow> length (rights xs) = length xs"
  by (induction xs) (auto simp: lefts_def rights_def split: sum.splits)

lemma rights_keep:
  "lefts (map f ks) = [] \<Longrightarrow> (\<And>k s. f k = Inr s \<Longrightarrow> h s = k) \<Longrightarrow> map h (rights (map f ks)) = ks"
  by (induction ks) (auto simp: lefts_def rights_def split: sum.splits)

lemma resolve_each_ok:
  assumes "lefts (resolve_each scs) = []"
  shows "\<forall>s\<in>set (rights (resolve_each scs)). scenario_wf s"
    and "map cs_Name (rights (resolve_each scs)) = sort (map fst scs)"
proof -
  show "\<forall>s\<in>set (rights (resolve_each scs)). scenario_wf s"
    using resolved_wf by (force simp: rights_mem resolve_each_def split: sum.splits)
  show "map cs_Name (rights (resolve_each scs)) = sort (map fst scs)"
    using assms unfolding resolve_each_def
    by (rule rights_keep) (auto dest: resolved_kind split: sum.splits)
qed

lemma resolveScenarios_ok:
  assumes "resolveScenarios script ov n d g = Inr (scs, repl)" "1 \<le> n" "0 < d" "0 \<le> g"
  shows "scs \<noteq> [] \<and> (\<forall>s\<in>set scs. scenario_wf s)"
proof (cases "o_Scenarios script")
  case None
  show ?thesis
  proof (cases "o_Stages script")
    case None
    then show ?thesis using assms \<open>o_Scenarios script = None\<close> shorthand_wf
      by (auto simp: resolveScenarios_def shorthand_def)
  next
    case (Some sts)
    then show ?thesis using assms \<open>o_Scenarios script = None\<close> shorthand_wf resolved_wf
      by (auto simp: resolveScenarios_def shorthand_def split: if_splits sum.splits)
  qed
next
  case (Some xs)
  show ?thesis
  proof (cases ov)
    case True
    then show ?thesis using assms Some shorthand_wf
      by (auto simp: resolveScenarios_def shorthand_def split: if_splits)
  next
    case False
    then have r: "xs \<noteq> []" "lefts (resolve_each xs) = []" "scs = rights (resolve_each xs)"
      using assms(1) Some by (auto simp: resolveScenarios_def Let_def split: if_splits)
    then have "length scs = length xs" using length_rights [OF r(2)] by (simp add: resolve_each_def)
    then show ?thesis using r resolve_each_ok(1) [OF r(2)] by auto
  qed
qed

definition cfg_total :: "cfg_scenario list \<Rightarrow> int" where
  "cfg_total scs = sum_list (map cs_MaxVUs scs)"

definition ends :: "cfg_scenario \<Rightarrow> duration" where
  "ends s = cs_StartTime s + cs_Length s"

lemma summarize:
  assumes "\<forall>s\<in>set scs. scenario_wf s \<and> ends s < 2 ^ 63" "0 \<le> n" "n + cfg_total scs < 2 ^ 63"
  shows "foldl (\<lambda>(n, d) s. (wrap64 (n + cs_MaxVUs s), max d (wrap64 (cs_StartTime s + cs_Length s)))) (n, d) scs =
    (n + cfg_total scs, foldl max d (map ends scs)) \<and> 0 \<le> cfg_total scs"
  using assms
proof (induction scs arbitrary: n d)
  case (Cons s scs)
  have s: "1 \<le> cs_MaxVUs s" "0 < ends s" "ends s < 2 ^ 63" using Cons.prems(1) by (auto simp: scenario_wf_def ends_def)
  have "cs_MaxVUs s \<le> cs_MaxVUs s + cfg_total scs"
  proof -
    have "0 \<le> cfg_total scs" using Cons.prems(1) unfolding cfg_total_def
      by (intro sum_list_nonneg) (auto simp: scenario_wf_def intro: order_trans [of 0 1])
    then show ?thesis by simp
  qed
  moreover have t: "cfg_total (s # scs) = cs_MaxVUs s + cfg_total scs" by (simp add: cfg_total_def)
  ultimately have w: "wrap64 (n + cs_MaxVUs s) = n + cs_MaxVUs s"
    using Cons.prems(2,3) s by (intro wrap64_nonneg_id) simp_all
  have w2: "wrap64 (cs_StartTime s + cs_Length s) = ends s"
    using s by (simp add: ends_def wrap64_nonneg_id)
  show ?case using Cons.IH [of "n + cs_MaxVUs s" "max d (ends s)"] Cons.prems s t w w2 by (simp add: add.assoc)
qed (simp add: cfg_total_def)

text \<open>The first of the values that is set.\<close>

definition first_set :: "'a option list \<Rightarrow> 'a option" where
  "first_set xs = foldr (\<lambda>x r. case x of None \<Rightarrow> r | Some _ \<Rightarrow> x) xs None"

definition env_value :: "(string \<rightharpoonup> string) \<Rightarrow> string \<Rightarrow> (string \<Rightarrow> 'a option) \<Rightarrow> 'a option" where
  "env_value getenv name parse = (if hasEnv getenv name then parse (TrimSpace (the (getenv name))) else None)"

lemma resolve_vus_Inr:
  "resolve_vus cli getenv script = Inr n \<Longrightarrow>
   first_set [ov_VUs cli, env_value getenv EnvVUs Atoi, o_VUs script, Some DefaultVUs] = Some n \<and> 1 \<le> n"
  by (auto simp: resolve_vus_def first_set_def env_value_def Let_def split: option.splits if_splits sum.splits)

lemma resolve_duration_Inr:
  "resolve_duration cli getenv script = Inr d \<Longrightarrow>
   first_set [ov_Duration cli, env_value getenv EnvDuration ParseDuration, o_Duration script, Some DefaultDuration] = Some d \<and> 0 < d"
  by (auto simp: resolve_duration_def first_set_def env_value_def Let_def split: option.splits if_splits sum.splits)

definition typed :: "overrides \<Rightarrow> (string \<rightharpoonup> string) \<Rightarrow> bool" where
  "typed cli getenv \<longleftrightarrow> ov_VUs cli \<noteq> None \<or> ov_Duration cli \<noteq> None \<or> hasEnv getenv EnvVUs \<or> hasEnv getenv EnvDuration"

lemma Resolve_Inr:
  assumes "Resolve c cli getenv script = Inr c'"
  shows "\<exists>n d scs repl. resolve_vus cli getenv script = Inr n \<and> resolve_duration cli getenv script = Inr d \<and>
    resolveScenarios script (typed cli getenv) n d (c_GracefulStop c) = Inr (scs, repl) \<and>
    c_Scenarios c' = scs \<and> c_ScenariosReplaced c' = repl \<and> c_Script c' = c_Script c \<and> c_GracefulStop c' = c_GracefulStop c \<and>
    (c_VUs c', c_Duration c') =
      foldl (\<lambda>(n, d) s. (wrap64 (n + cs_MaxVUs s), max d (wrap64 (cs_StartTime s + cs_Length s)))) (0, 0) scs \<and>
    resolve_timeout ''setupTimeout'' (o_SetupTimeout script) = Inr (c_SetupTimeout c') \<and>
    resolve_timeout ''teardownTimeout'' (o_TeardownTimeout script) = Inr (c_TeardownTimeout c')"
  using assms unfolding Resolve_def typed_def [symmetric] Let_def
  by (auto split: sum.splits prod.splits)

section \<open>Properties\<close>

text \<open>Where the settings come from. When the command line or the environment sets VUs or duration,
  or the script has neither scenarios nor stages, the run is one constant-vus scenario whose VUs
  and duration are each the first set of: the flag, the environment variable (trimmed), the
  script, the default; the script's workload is reported replaced exactly when it had one.
  Otherwise the scenarios are the script's, in the order of their names, or its stages as one
  ramping scenario.\<close>

theorem resolve_priority:
  assumes "Resolve c cli getenv script = Inr c'"
  shows "\<exists>n d. first_set [ov_VUs cli, env_value getenv EnvVUs Atoi, o_VUs script, Some DefaultVUs] = Some n \<and>
    first_set [ov_Duration cli, env_value getenv EnvDuration ParseDuration, o_Duration script, Some DefaultDuration] = Some d \<and>
    1 \<le> n \<and> 0 < d \<and>
    (c_ScenariosReplaced c' \<longleftrightarrow> typed cli getenv \<and> (o_Scenarios script \<noteq> None \<or> o_Stages script \<noteq> None)) \<and>
    (if typed cli getenv \<or> o_Scenarios script = None \<and> o_Stages script = None
     then c_Scenarios c' = shorthand n d (c_GracefulStop c)
     else case o_Scenarios script of
            Some scs \<Rightarrow> map cs_Name (c_Scenarios c') = sort (map fst scs)
          | None \<Rightarrow> map cs_Name (c_Scenarios c') = [DefaultScenario] \<and>
                    map cs_Executor (c_Scenarios c') = [exec_RampingVUs])"
proof -
  obtain n d scs repl where r: "resolve_vus cli getenv script = Inr n" "resolve_duration cli getenv script = Inr d"
    "resolveScenarios script (typed cli getenv) n d (c_GracefulStop c) = Inr (scs, repl)"
    "c_Scenarios c' = scs" "c_ScenariosReplaced c' = repl"
    using Resolve_Inr [OF assms] by blast
  have "(repl \<longleftrightarrow> typed cli getenv \<and> (o_Scenarios script \<noteq> None \<or> o_Stages script \<noteq> None)) \<and>
    (if typed cli getenv \<or> o_Scenarios script = None \<and> o_Stages script = None
     then scs = shorthand n d (c_GracefulStop c)
     else case o_Scenarios script of
            Some xs \<Rightarrow> map cs_Name scs = sort (map fst xs)
          | None \<Rightarrow> map cs_Name scs = [DefaultScenario] \<and> map cs_Executor scs = [exec_RampingVUs])"
    using r(3) resolve_each_ok(2) resolved_kind
    by (auto simp: resolveScenarios_def Let_def split: option.splits if_splits sum.splits)
  then show ?thesis using resolve_vus_Inr [OF r(1)] resolve_duration_Inr [OF r(2)] r(4,5) by blast
qed

text \<open>C20: The settings are consistent. The resolved workload is never empty; every scenario is well
  formed and has at least one VU and a positive length; the VUs of the run are the sum of the
  scenarios' and its duration is the end of the last one (barring 64-bit overflow); the timeouts
  are positive; and \<open>Validate\<close> finds nothing more to report.\<close>

theorem resolve_consistent:
  assumes "Resolve c cli getenv script = Inr c'" "c_Script c \<noteq> []" "0 \<le> c_GracefulStop c"
    and "cfg_total (c_Scenarios c') < 2 ^ 63" "\<forall>s\<in>set (c_Scenarios c'). ends s < 2 ^ 63"
  shows "c_Scenarios c' \<noteq> [] \<and> (\<forall>s\<in>set (c_Scenarios c'). scenario_wf s) \<and>
    c_VUs c' = cfg_total (c_Scenarios c') \<and> c_Duration c' = Max (ends ` set (c_Scenarios c')) \<and>
    0 < c_SetupTimeout c' \<and> 0 < c_TeardownTimeout c' \<and> Config_Validate c' = []"
proof -
  obtain n d scs repl where r: "resolve_vus cli getenv script = Inr n" "resolve_duration cli getenv script = Inr d"
    "resolveScenarios script (typed cli getenv) n d (c_GracefulStop c) = Inr (scs, repl)"
    "c_Scenarios c' = scs" "c_Script c' = c_Script c" "c_GracefulStop c' = c_GracefulStop c"
    "(c_VUs c', c_Duration c') =
      foldl (\<lambda>(n, d) s. (wrap64 (n + cs_MaxVUs s), max d (wrap64 (cs_StartTime s + cs_Length s)))) (0, 0) scs"
    "resolve_timeout ''setupTimeout'' (o_SetupTimeout script) = Inr (c_SetupTimeout c')"
    "resolve_timeout ''teardownTimeout'' (o_TeardownTimeout script) = Inr (c_TeardownTimeout c')"
    using Resolve_Inr [OF assms(1)] by blast
  have wf: "scs \<noteq> []" "\<forall>s\<in>set scs. scenario_wf s"
    using resolveScenarios_ok [OF r(3) _ _ assms(3)] resolve_vus_Inr [OF r(1)] resolve_duration_Inr [OF r(2)] by auto
  have sum: "c_VUs c' = cfg_total scs" "c_Duration c' = foldl max 0 (map ends scs)" "0 \<le> cfg_total scs"
    using summarize [of scs 0 0] wf(2) assms(4,5) r(4,7) by auto
  have pos: "0 < ends s" if "s \<in> set scs" for s using wf(2) that by (auto simp: scenario_wf_def ends_def)
  have "(\<lambda>x s. max s x) = (max :: int \<Rightarrow> int \<Rightarrow> int)" by (intro ext) (rule max.commute)
  then have "foldl max 0 (map ends scs) = Max (set (0 # map ends scs))"
    by (simp only: foldl_conv_fold Max.set_eq_fold)
  also have "\<dots> = Max (insert 0 (ends ` set scs))" by simp
  also have "\<dots> = Max (ends ` set scs)"
  proof -
    obtain s where s: "s \<in> set scs" using wf(1) by (cases scs) auto
    then have "ends s \<le> Max (ends ` set scs)" by simp
    then show ?thesis using wf(1) pos [OF s] by (subst Max_insert) auto
  qed
  finally have dur: "c_Duration c' = Max (ends ` set scs)" using sum(2) by simp
  obtain s where s: "s \<in> set scs" using wf(1) by (cases scs) auto
  then have "ends s \<le> Max (ends ` set scs)" by simp
  then have "0 < c_Duration c'" using pos [OF s] dur by simp
  moreover have "1 \<le> cfg_total scs"
  proof -
    have "cs_MaxVUs s \<le> cfg_total scs" unfolding cfg_total_def using s wf(2)
      by (intro member_le_sum_list) (auto simp: scenario_wf_def intro: order_trans [of 0 1])
    then show ?thesis using s wf(2) by (auto simp: scenario_wf_def)
  qed
  moreover have "0 < c_SetupTimeout c'" "0 < c_TeardownTimeout c'"
    using r(8,9) by (auto simp: resolve_timeout_def DefaultLifecycleTimeout_def second_def split: option.splits if_splits)
  moreover from calculation have "Config_Validate c' = []"
    using sum(1) r(5,6) assms(2,3) by (simp add: Config_Validate_def)
  ultimately show ?thesis using wf dur sum(1) r(4) by blast
qed

lemma engine_loop_simps:
  "map sc_Executor (engine_loop f k ss) = map engine_executor ss"
  "map sc_StartTime (engine_loop f k ss) = map cs_StartTime ss"
  by (induction ss arbitrary: k) simp_all

text \<open>The numbers of a scenario's VUs, and the function each runs.\<close>

definition numbered :: "int \<Rightarrow> cfg_scenario \<Rightarrow> (int \<times> string) list" where
  "numbered k s = map (\<lambda>i. (k + int i, cs_Exec s)) [0..<nat (cs_MaxVUs s)]"

fun numbering :: "int \<Rightarrow> cfg_scenario list \<Rightarrow> (int \<times> string) list" where
  "numbering k [] = []"
| "numbering k (s # ss) = numbered k s @ numbering (k + cs_MaxVUs s) ss"

lemma upto_shift: "map (\<lambda>i. k + int i) [0..<nat m] = [k..k + m - 1]"
proof (cases "0 \<le> m")
  case True
  then show ?thesis by (intro nth_equalityI) simp_all
qed simp

lemma numbering_consecutive:
  assumes "\<forall>s\<in>set ss. 1 \<le> cs_MaxVUs s"
  shows "map fst (numbering k ss) = [k..k + cfg_total ss - 1]"
  using assms
proof (induction ss arbitrary: k)
  case (Cons s ss)
  have fst: "map fst (numbered k s) = [k..k + cs_MaxVUs s - 1]"
    using upto_shift [of k "cs_MaxVUs s"] by (simp add: numbered_def o_def)
  have IH: "map fst (numbering (k + cs_MaxVUs s) ss) = [k + cs_MaxVUs s..k + cs_MaxVUs s + cfg_total ss - 1]"
    using Cons by simp
  have tot: "cfg_total (s # ss) = cs_MaxVUs s + cfg_total ss" by (simp add: cfg_total_def)
  show ?case
  proof (cases "ss = []")
    case True
    then show ?thesis using fst by (simp add: cfg_total_def)
  next
    case False
    then obtain t ts where t: "ss = t # ts" by (cases ss) auto
    have "0 \<le> cfg_total ts" using Cons.prems t unfolding cfg_total_def
      by (intro sum_list_nonneg) (auto intro: order_trans [of 0 1])
    then have "1 \<le> cfg_total ss" "1 \<le> cs_MaxVUs s" using Cons.prems t by (simp_all add: cfg_total_def)
    then have "[k..k + cs_MaxVUs s + cfg_total ss - 1] =
        [k..k + cs_MaxVUs s - 1] @ [k + cs_MaxVUs s..k + cs_MaxVUs s + cfg_total ss - 1]"
      by (intro upto_split1) simp_all
    then show ?thesis using fst IH tot by (simp add: add.assoc)
  qed
qed (simp add: cfg_total_def)

lemma first_error_None: "first_error xs = None \<longleftrightarrow> (\<forall>x\<in>set xs. x = None)"
  by (induction xs rule: first_error.induct) auto

lemma engine_startup:
  assumes "\<forall>s\<in>set ss. validate (engine_executor s) = None"
  shows "first_error (startup_steps (\<lambda>_. None) tot (engine_loop (\<lambda>n f. Inr (n, f)) k ss)) = None"
  using assms
  by (induction ss arbitrary: tot k) (auto simp: first_error_None Let_def vu_creation_error_def)

lemma engine_numbers:
  assumes "\<forall>s\<in>set ss. 1 \<le> cs_MaxVUs s" "0 \<le> k" "k + cfg_total ss < 2 ^ 63"
  shows "concat (map scenario_iters (engine_loop (\<lambda>n f. Inr (n, f)) k ss)) = numbering k ss \<and> 0 \<le> cfg_total ss"
  using assms
proof (induction ss arbitrary: k)
  case (Cons s ss)
  have tot: "cfg_total (s # ss) = cs_MaxVUs s + cfg_total ss" by (simp add: cfg_total_def)
  have "0 \<le> cfg_total ss" using Cons.prems unfolding cfg_total_def
    by (intro sum_list_nonneg) (auto intro: order_trans [of 0 1])
  then have "wrap64 (k + cs_MaxVUs s) = k + cs_MaxVUs s"
    using Cons.prems tot by (intro wrap64_nonneg_id) simp_all
  then show ?case using Cons.IH [of "k + cs_MaxVUs s"] Cons.prems tot
    by (simp add: scenario_iters_def numbered_def engine_executor_MaxVUs)
qed (simp add: cfg_total_def)

text \<open>C21: The engine runs what the configuration resolves. For every resolved workload within the
  engine's limits on ramping scenarios, no step of the engine's start-up fails unless a VU's own
  script does; the VUs of all scenarios are numbered 1, 2, 3, ... up to the VUs of the run,
  without a gap or a repetition, each with the function its scenario names; and both sides agree
  on the number of VUs.\<close>

theorem engine_accepts_settings:
  assumes "Resolve c cli getenv script = Inr c'" "0 \<le> c_GracefulStop c" "\<forall>s\<in>set (c_Scenarios c'). within_limits s"
    and "1 + cfg_total (c_Scenarios c') < 2 ^ 63" "\<forall>s\<in>set (c_Scenarios c'). ends s < 2 ^ 63"
  shows "(let scs = engineScenarios (\<lambda>n f. Inr (n, f)) (c_Scenarios c')
    in first_error (startup_steps (\<lambda>_. None) 0 scs) = None \<and> total_VUs scs = c_VUs c' \<and>
       map fst (concat (map scenario_iters scs)) = [1..c_VUs c'] \<and>
       concat (map scenario_iters scs) = numbering 1 (c_Scenarios c'))"
proof -
  obtain n d scs repl where r: "resolve_vus cli getenv script = Inr n" "resolve_duration cli getenv script = Inr d"
    "resolveScenarios script (typed cli getenv) n d (c_GracefulStop c) = Inr (scs, repl)"
    "c_Scenarios c' = scs"
    "(c_VUs c', c_Duration c') =
      foldl (\<lambda>(n, d) s. (wrap64 (n + cs_MaxVUs s), max d (wrap64 (cs_StartTime s + cs_Length s)))) (0, 0) scs"
    using Resolve_Inr [OF assms(1)] by blast
  have wf: "\<forall>s\<in>set scs. scenario_wf s"
    using resolveScenarios_ok [OF r(3) _ _ assms(2)] resolve_vus_Inr [OF r(1)] resolve_duration_Inr [OF r(2)] by auto
  have vus: "c_VUs c' = cfg_total scs" using summarize [of scs 0 0] wf assms(4,5) r(4,5) by auto
  have v: "\<forall>s\<in>set scs. validate (engine_executor s) = None" using wf assms(3) r(4) by (simp add: scenario_wf_def)
  have m: "\<forall>s\<in>set scs. 1 \<le> cs_MaxVUs s" using wf by (simp add: scenario_wf_def)
  let ?scs = "engineScenarios (\<lambda>n f. Inr (n, f)) scs :: (int \<times> string) scenario list"
  have "total_VUs ?scs = cfg_total scs"
  proof -
    have "total_VUs ?scs = sum_list (map MaxVUs (map sc_Executor ?scs))" by (simp add: total_VUs_def o_def)
    also have "\<dots> = cfg_total scs" unfolding engineScenarios_def engine_loop_simps
      by (simp add: o_def engine_executor_MaxVUs cfg_total_def)
    finally show ?thesis .
  qed
  moreover have "concat (map scenario_iters ?scs) = numbering 1 scs"
    using engine_numbers [OF m, of 1] assms(4) r(4) by (simp add: engineScenarios_def)
  moreover have "first_error (startup_steps (\<lambda>_. None) 0 ?scs) = None"
    using engine_startup [OF v] by (simp add: engineScenarios_def)
  ultimately show ?thesis using numbering_consecutive [OF m, of 1] vus r(4) by (simp add: Let_def)
qed

definition settings_example :: options where
  "settings_example = options_zero\<lparr>o_Scenarios := Some
     [(''b'', scenario_options_zero\<lparr>so_Executor := exec_ConstantVUs, so_VUs := Some 3, so_Duration := Some (5 * second)\<rparr>),
      (''a'', scenario_options_zero\<lparr>so_Executor := exec_RampingVUs, so_StartTime := Some second,
         so_Stages := Some [\<lparr>cst_Duration = 10 * second, cst_Target = 2\<rparr>]\<rparr>)]\<rparr>"

definition config_example :: config where
  "config_example = \<lparr>c_Script = ''t.js'', c_VUs = 0, c_Duration = 0, c_GracefulStop = 30 * second,
     c_DiscardResponseBodies = False, c_NoCookiesReset = False, c_NoConnectionReuse = False, c_HTTPVersion = [],
     c_SetupTimeout = 0, c_TeardownTimeout = 0, c_Scenarios = [], c_ScenariosReplaced = False\<rparr>"

lemma settings_example_resolved:
  "\<exists>c'. Resolve config_example \<lparr>ov_VUs = None, ov_Duration = None\<rparr> Map.empty settings_example = Inr c' \<and>
     map cs_Name (c_Scenarios c') = [''a'', ''b''] \<and> map cs_MaxVUs (c_Scenarios c') = [2, 3] \<and>
     map ends (c_Scenarios c') = [11 * second, 5 * second] \<and> list_all within_limits (c_Scenarios c') \<and> c_VUs c' = 5"
proof -
  have "(case Resolve config_example \<lparr>ov_VUs = None, ov_Duration = None\<rparr> Map.empty settings_example of
      Inl e \<Rightarrow> False
    | Inr c' \<Rightarrow> map cs_Name (c_Scenarios c') = [''a'', ''b''] \<and> map cs_MaxVUs (c_Scenarios c') = [2, 3] \<and>
        map ends (c_Scenarios c') = [11 * second, 5 * second] \<and> list_all within_limits (c_Scenarios c') \<and> c_VUs c' = 5)"
    by code_simp
  then show ?thesis by (auto split: sum.splits)
qed

lemma ends_set: "map ends scs = [a, b] \<Longrightarrow> ends ` set scs = {a, b}"
  unfolding set_map [symmetric] by simp

lemma ends_small:
  assumes "map ends scs = [11 * second, 5 * second]"
  shows "\<forall>s\<in>set scs. ends s < 2 ^ 63"
proof
  fix s
  assume "s \<in> set scs"
  then have "ends s \<in> {11 * second, 5 * second}" using ends_set [OF assms] by (metis image_eqI)
  then show "ends s < 2 ^ 63" by (auto simp: second_def)
qed

theorem resolve_priority_witness:
  "\<exists>c'. Resolve config_example \<lparr>ov_VUs = None, ov_Duration = None\<rparr> Map.empty settings_example = Inr c' \<and>
     map cs_Name (c_Scenarios c') = sort [''b'', ''a'']"
proof -
  obtain c' where c: "Resolve config_example \<lparr>ov_VUs = None, ov_Duration = None\<rparr> Map.empty settings_example = Inr c'"
    using settings_example_resolved by blast
  have "map cs_Name (c_Scenarios c') = sort [''b'', ''a'']"
    using resolve_priority [OF c] by (auto simp: typed_def hasEnv_def settings_example_def options_zero_def)
  then show ?thesis using c by blast
qed

theorem resolve_consistent_witness:
  "\<exists>c'. Resolve config_example \<lparr>ov_VUs = None, ov_Duration = None\<rparr> Map.empty settings_example = Inr c' \<and>
     c_Duration c' = 11 * second \<and> Config_Validate c' = []"
proof -
  obtain c' where c: "Resolve config_example \<lparr>ov_VUs = None, ov_Duration = None\<rparr> Map.empty settings_example = Inr c'"
    "map cs_MaxVUs (c_Scenarios c') = [2, 3]" "map ends (c_Scenarios c') = [11 * second, 5 * second]"
    using settings_example_resolved by (elim exE conjE) (rule that; assumption)
  have "cfg_total (c_Scenarios c') = 5" using c(2) by (simp add: cfg_total_def)
  moreover have e: "ends ` set (c_Scenarios c') = {11 * second, 5 * second}" by (rule ends_set [OF c(3)])
  ultimately have "c_Duration c' = Max {11 * second, 5 * second} \<and> Config_Validate c' = []"
    using resolve_consistent [OF c(1)] ends_small [OF c(3)] unfolding e
    by (simp add: config_example_def second_def)
  then show ?thesis using c(1) by (simp add: second_def)
qed

theorem engine_accepts_settings_witness:
  "\<exists>c'. Resolve config_example \<lparr>ov_VUs = None, ov_Duration = None\<rparr> Map.empty settings_example = Inr c' \<and>
     map fst (concat (map scenario_iters (engineScenarios (\<lambda>n f. Inr (n, f)) (c_Scenarios c')))) = [1..5]"
proof -
  obtain c' where c: "Resolve config_example \<lparr>ov_VUs = None, ov_Duration = None\<rparr> Map.empty settings_example = Inr c'"
    "map cs_MaxVUs (c_Scenarios c') = [2, 3]" "map ends (c_Scenarios c') = [11 * second, 5 * second]"
    "list_all within_limits (c_Scenarios c')" "c_VUs c' = 5"
    using settings_example_resolved by (elim exE conjE) (rule that; assumption)
  have "1 + cfg_total (c_Scenarios c') < 2 ^ 63" using c(2) by (simp add: cfg_total_def)
  moreover have "\<forall>s\<in>set (c_Scenarios c'). within_limits s" using c(4) by (simp add: list_all_iff)
  moreover have "0 \<le> c_GracefulStop config_example" by (simp add: config_example_def second_def)
  ultimately have "map fst (concat (map scenario_iters (engineScenarios (\<lambda>n f. Inr (n, f)) (c_Scenarios c')))) = [1..c_VUs c']"
    using engine_accepts_settings [OF c(1) _ _ _ ends_small [OF c(3)]] unfolding Let_def by blast
  then show ?thesis using c(1,5) by auto
qed

end
