(* ===== verification/Families.thy ===== *)
theory Families
  imports Summary_Merge
begin

text \<open>
  \<open>internal/metrics/families.go\<close>: the metric families of protocol modules. The recorders of a run
  share one \<open>Families\<close>, so its operations take and return the \<open>families\<close> value; a recorder only
  says whether it uses them (\<open>r_fams\<close>) and which shard it records into. A call that panics (an
  unknown ID, or a family of another kind) is \<open>None\<close>.
\<close>

section \<open>Definitions and names\<close>

definition Kind_String :: "kind \<Rightarrow> (int \<Rightarrow> string) \<Rightarrow> string" where
  "Kind_String k itoa =
     (if k = Trend then ''trend'' else if k = Counter then ''counter'' else if k = Rate then ''rate''
      else ''Kind('' @ itoa k @ '')'')"

record fdef =
  d_Name :: string
  d_Kind :: kind

text \<open>\<open>familyName\<close> is the regular expression \<open>^[a-z][a-z0-9]*_[a-z0-9_]+$\<close>.\<close>

definition lower :: "char \<Rightarrow> bool" where
  "lower c \<longleftrightarrow> in_range CHR ''a'' CHR ''z'' c"

definition lower_digit :: "char \<Rightarrow> bool" where
  "lower_digit c \<longleftrightarrow> lower c \<or> in_range CHR ''0'' CHR ''9'' c"

definition familyName :: "string \<Rightarrow> bool" where
  "familyName s = (case s of [] \<Rightarrow> False
     | c # cs \<Rightarrow> lower c \<and> (case dropWhile lower_digit cs of
           [] \<Rightarrow> False
         | u # t \<Rightarrow> u = CHR ''_'' \<and> t \<noteq> [] \<and> list_all (\<lambda>x. lower_digit x \<or> x = CHR ''_'') t))"

definition reservedNames :: "string list" where
  "reservedNames = [''http_reqs'', ''http_req_failed'', ''http_req_duration'',
     ''http_req_duration_successful'', ''http_protocols'', ''iterations'', ''dropped_iterations'',
     ''checks'', ''script_errors'']"

section \<open>Families\<close>

record family =
  fa_def :: fdef
  fa_trend :: "shard list"
  fa_counts :: "int list"
  fa_trues :: "int list"

record families =
  fm_fams :: "family list"
  fm_ids :: "string \<rightharpoonup> nat"

datatype fam_error =
    BadFamilyName string
  | BuiltInMetric string
  | UnknownKind string kind
  | DeclaredTwice string

definition new_family :: "fdef \<Rightarrow> family" where
  "new_family d = \<lparr>fa_def = d,
     fa_trend = (if d_Kind d = Trend then replicate numShards newShard else []),
     fa_counts = (if d_Kind d = Counter \<or> d_Kind d = Rate then replicate numShards 0 else []),
     fa_trues = (if d_Kind d = Rate then replicate numShards 0 else [])\<rparr>"

text \<open>One turn of the loop of \<open>NewFamilies\<close>; \<open>fams\<close> is filled in order, a rejected definition
  leaving a family of the zero value.\<close>

definition zero_family :: family where
  "zero_family = \<lparr>fa_def = \<lparr>d_Name = [], d_Kind = 0\<rparr>, fa_trend = [], fa_counts = [], fa_trues = []\<rparr>"

definition declare_family :: "families \<times> fam_error list \<Rightarrow> fdef \<Rightarrow> families \<times> fam_error list" where
  "declare_family = (\<lambda>(f, errs) d.
     let skip = f\<lparr>fm_fams := fm_fams f @ [zero_family]\<rparr>
     in if \<not> familyName (d_Name d) then (skip, errs @ [BadFamilyName (d_Name d)])
        else if d_Name d \<in> set reservedNames then (skip, errs @ [BuiltInMetric (d_Name d)])
        else if d_Kind d < Trend \<or> Rate < d_Kind d then (skip, errs @ [UnknownKind (d_Name d) (d_Kind d)])
        else if fm_ids f (d_Name d) \<noteq> None then (skip, errs @ [DeclaredTwice (d_Name d)])
        else (f\<lparr>fm_fams := fm_fams f @ [new_family d],
                fm_ids := (fm_ids f)(d_Name d \<mapsto> length (fm_fams f))\<rparr>, errs))"

definition no_families :: families where
  "no_families = \<lparr>fm_fams = [], fm_ids = Map.empty\<rparr>"

definition NewFamilies :: "fdef list \<Rightarrow> fam_error list + families" where
  "NewFamilies defs = (case foldl declare_family (no_families, []) defs of
       (f, errs) \<Rightarrow> if errs = [] then Inr f else Inl errs)"

definition family_ID :: "families option \<Rightarrow> string \<Rightarrow> nat option" where
  "family_ID fo name = (case fo of None \<Rightarrow> None | Some f \<Rightarrow> fm_ids f name)"

definition Defs :: "families option \<Rightarrow> fdef list" where
  "Defs fo = (case fo of None \<Rightarrow> [] | Some f \<Rightarrow> map fa_def (fm_fams f))"

section \<open>Recording\<close>

definition UseFamilies :: "recorder \<Rightarrow> bool \<Rightarrow> recorder" where
  "UseFamilies r b = r\<lparr>r_fams := b\<rparr>"

definition rec_family :: "families \<Rightarrow> nat \<Rightarrow> kind \<Rightarrow> family option" where
  "rec_family f i k =
     (if i < length (fm_fams f) \<and> d_Kind (fa_def (fm_fams f ! i)) = k then Some (fm_fams f ! i) else None)"

definition put_family :: "families \<Rightarrow> nat \<Rightarrow> family \<Rightarrow> families" where
  "put_family f i fam = f\<lparr>fm_fams := (fm_fams f)[i := fam]\<rparr>"

definition rec_Trend :: "recorder \<Rightarrow> families \<Rightarrow> nat \<Rightarrow> duration \<Rightarrow> bool \<Rightarrow> families option" where
  "rec_Trend r f i d ok =
     (if \<not> r_fams r then Some f
      else case rec_family f i Trend of None \<Rightarrow> None
        | Some fam \<Rightarrow>
            (let k = r_shardIndex r; s = fa_trend fam ! k;
                 s' = (if ok then s\<lparr>sh_ok := hist_record (sh_ok s) d\<rparr>
                       else s\<lparr>sh_failed := hist_record (sh_failed s) d\<rparr>)
             in if k < length (fa_trend fam) then Some (put_family f i (fam\<lparr>fa_trend := (fa_trend fam)[k := s']\<rparr>))
                else None))"

definition atomic_add :: "int list \<Rightarrow> nat \<Rightarrow> int \<Rightarrow> int list" where
  "atomic_add xs k n = xs[k := wrap64 (xs ! k + n)]"

definition rec_Add :: "recorder \<Rightarrow> families \<Rightarrow> nat \<Rightarrow> int \<Rightarrow> families option" where
  "rec_Add r f i n =
     (if \<not> r_fams r then Some f
      else case rec_family f i Counter of None \<Rightarrow> None
        | Some fam \<Rightarrow>
            if r_shardIndex r < length (fa_counts fam)
            then Some (put_family f i (fam\<lparr>fa_counts := atomic_add (fa_counts fam) (r_shardIndex r) n\<rparr>))
            else None)"

definition rec_Rate :: "recorder \<Rightarrow> families \<Rightarrow> nat \<Rightarrow> bool \<Rightarrow> families option" where
  "rec_Rate r f i v =
     (if \<not> r_fams r then Some f
      else case rec_family f i Rate of None \<Rightarrow> None
        | Some fam \<Rightarrow>
            if r_shardIndex r < length (fa_counts fam) \<and> (v \<longrightarrow> r_shardIndex r < length (fa_trues fam))
            then Some (put_family f i (fam\<lparr>fa_counts := atomic_add (fa_counts fam) (r_shardIndex r) 1,
                   fa_trues := (if v then atomic_add (fa_trues fam) (r_shardIndex r) 1 else fa_trues fam)\<rparr>))
            else None)"

section \<open>Summaries\<close>

definition fs_Used :: "familySummary \<Rightarrow> bool" where
  "fs_Used s \<longleftrightarrow> 0 < fs_Count s"

definition fs_Percentile :: "familySummary \<Rightarrow> f64 \<Rightarrow> duration option" where
  "fs_Percentile s p = (case fs_latency s of
       None \<Rightarrow> None
     | Some c \<Rightarrow> if f64_le p (Fin 0) \<or> f64_lt (Fin 100) p then None else Some (percentile c p))"

definition fs_zero :: "fdef \<Rightarrow> familySummary" where
  "fs_zero d = \<lparr>fs_Name = d_Name d, fs_Kind = d_Kind d, fs_Count = 0, fs_Failed = 0, fs_Trues = 0,
     fs_Min = 0, fs_Mean = 0, fs_Max = 0, fs_P50 = 0, fs_P90 = 0, fs_P95 = 0, fs_P99 = 0,
     fs_latency = None\<rparr>"

definition sum_int :: "int list \<Rightarrow> int" where
  "sum_int xs = foldl (\<lambda>a x. wrap64 (a + x)) 0 xs"

definition summarize_family :: "family \<Rightarrow> familySummary" where
  "summarize_family fam =
     (let s = fs_zero (fa_def fam) in
      if d_Kind (fa_def fam) = Trend then
        let oks = map sh_ok (fa_trend fam); faileds = map sh_failed (fa_trend fam);
            al = combine (oks @ faileds);
            s' = s\<lparr>fs_Count := sint (com_n al), fs_Failed := sint (com_n (combine faileds))\<rparr>
        in if 0 < com_n al
           then s'\<lparr>fs_latency := Some al, fs_Min := com_min al, fs_Max := com_max al,
                   fs_Mean := sint (com_sum al div com_n al),
                   fs_P50 := percentile al (Fin 50), fs_P90 := percentile al (Fin 90),
                   fs_P95 := percentile al (Fin 95), fs_P99 := percentile al (Fin 99)\<rparr>
           else s'
      else if d_Kind (fa_def fam) = Counter \<or> d_Kind (fa_def fam) = Rate then
        s\<lparr>fs_Count := sum_int (fa_counts fam), fs_Trues := sum_int (fa_trues fam)\<rparr>
      else s)"

definition Summarize :: "families option \<Rightarrow> familySummary list" where
  "Summarize fo = (case fo of None \<Rightarrow> [] | Some f \<Rightarrow> map summarize_family (fm_fams f))"

definition summary_Family :: "summary \<Rightarrow> string \<Rightarrow> familySummary option" where
  "summary_Family s name = find (\<lambda>f. fs_Name f = name) (s_Families s)"

text \<open>What a module records during a run, through any of the run's recorders.\<close>

datatype fam_event =
    FTrend nat duration bool
  | FAdd nat int
  | FRate nat bool

fun fam_step :: "recorder list \<Rightarrow> families \<Rightarrow> nat \<times> fam_event \<Rightarrow> families option" where
  "fam_step rs f (w, FTrend i d ok) = rec_Trend (rs ! w) f i d ok"
| "fam_step rs f (w, FAdd i n) = rec_Add (rs ! w) f i n"
| "fam_step rs f (w, FRate i v) = rec_Rate (rs ! w) f i v"

fun fam_run :: "recorder list \<Rightarrow> families \<Rightarrow> (nat \<times> fam_event) list \<Rightarrow> families option" where
  "fam_run rs f [] = Some f"
| "fam_run rs f (e # es) = (case fam_step rs f e of None \<Rightarrow> None | Some f' \<Rightarrow> fam_run rs f' es)"

section \<open>Names\<close>

lemma familyName_iff:
  "familyName s \<longleftrightarrow> (\<exists>c cs t. s = c # cs @ CHR ''_'' # t \<and> lower c \<and> (\<forall>x\<in>set cs. lower_digit x) \<and>
     t \<noteq> [] \<and> (\<forall>x\<in>set t. lower_digit x \<or> x = CHR ''_''))"
proof
  assume f: "familyName s"
  then obtain c cs where s: "s = c # cs" by (cases s) (auto simp: familyName_def)
  with f obtain u t where d: "dropWhile lower_digit cs = u # t"
    by (cases "dropWhile lower_digit cs") (auto simp: familyName_def)
  have "u = CHR ''_''" using f s d by (simp add: familyName_def)
  then have "cs = takeWhile lower_digit cs @ CHR ''_'' # t"
    using takeWhile_dropWhile_id [of lower_digit cs] d by simp
  moreover have "\<forall>x\<in>set (takeWhile lower_digit cs). lower_digit x" by (auto dest: set_takeWhileD)
  ultimately show "\<exists>c cs t. s = c # cs @ CHR ''_'' # t \<and> lower c \<and> (\<forall>x\<in>set cs. lower_digit x) \<and>
     t \<noteq> [] \<and> (\<forall>x\<in>set t. lower_digit x \<or> x = CHR ''_'')"
    using f s d by (auto simp: familyName_def list_all_iff)
next
  assume "\<exists>c cs t. s = c # cs @ CHR ''_'' # t \<and> lower c \<and> (\<forall>x\<in>set cs. lower_digit x) \<and>
     t \<noteq> [] \<and> (\<forall>x\<in>set t. lower_digit x \<or> x = CHR ''_'')"
  then obtain c cs t where s: "s = c # cs @ CHR ''_'' # t" "lower c" "\<forall>x\<in>set cs. lower_digit x"
    "t \<noteq> []" "\<forall>x\<in>set t. lower_digit x \<or> x = CHR ''_''" by blast
  have "\<not> lower_digit CHR ''_''" by (simp add: lower_digit_def lower_def in_range_def byte_def)
  then have "dropWhile lower_digit (cs @ CHR ''_'' # t) = CHR ''_'' # t"
    using s(3) by (subst dropWhile_append2) auto
  then show "familyName s" using s by (simp add: familyName_def list_all_iff)
qed


section \<open>Creating the families\<close>

definition valid_def :: "fdef \<Rightarrow> bool" where
  "valid_def d \<longleftrightarrow> familyName (d_Name d) \<and> d_Name d \<notin> set reservedNames \<and> Trend \<le> d_Kind d \<and> d_Kind d \<le> Rate"

definition indexed_by_name :: "fdef list \<Rightarrow> (string \<rightharpoonup> nat) \<Rightarrow> bool" where
  "indexed_by_name ds ids \<longleftrightarrow> (\<forall>nm i. ids nm = Some i \<longleftrightarrow> i < length ds \<and> d_Name (ds ! i) = nm)"

lemma declare_families:
  "foldl declare_family (no_families, []) ds = (f, errs) \<Longrightarrow>
     length (fm_fams f) = length ds \<and>
     (errs = [] \<longleftrightarrow> (\<forall>d\<in>set ds. valid_def d) \<and> distinct (map d_Name ds)) \<and>
     (errs = [] \<longrightarrow> fm_fams f = map new_family ds \<and> indexed_by_name ds (fm_ids f))"
proof (induction ds arbitrary: f errs rule: rev_induct)
  case Nil
  then show ?case by (auto simp: no_families_def indexed_by_name_def)
next
  case (snoc d ds)
  obtain f0 errs0 where f0: "foldl declare_family (no_families, []) ds = (f0, errs0)"
    by (cases "foldl declare_family (no_families, []) ds")
  note IH = snoc.IH [OF f0]
  have step: "declare_family (f0, errs0) d = (f, errs)" using snoc.prems f0 by simp
  show ?case
  proof (cases "errs0 = []")
    case False
    then have "errs \<noteq> []" "length (fm_fams f) = Suc (length (fm_fams f0))"
      using step by (auto simp: declare_family_def Let_def split: if_splits)
    then show ?thesis using IH False by auto
  next
    case True
    then have ix: "indexed_by_name ds (fm_ids f0)" "fm_fams f0 = map new_family ds" using IH by simp_all
    have "fm_ids f0 (d_Name d) \<noteq> None \<longleftrightarrow> (\<exists>i. fm_ids f0 (d_Name d) = Some i)" by auto
    also have "\<dots> \<longleftrightarrow> (\<exists>i<length ds. d_Name (ds ! i) = d_Name d)"
      using ix(1) by (simp add: indexed_by_name_def)
    also have "\<dots> \<longleftrightarrow> d_Name d \<in> set (map d_Name ds)"
      by (auto simp only: in_set_conv_nth length_map nth_map)
    finally have known: "fm_ids f0 (d_Name d) \<noteq> None \<longleftrightarrow> d_Name d \<in> set (map d_Name ds)" .
    have e: "errs = [] \<longleftrightarrow> valid_def d \<and> d_Name d \<notin> set (map d_Name ds)"
      and l: "length (fm_fams f) = Suc (length ds)"
      using step True IH known by (auto simp: declare_family_def valid_def_def Let_def split: if_splits)
    have "fm_fams f = map new_family (ds @ [d]) \<and> indexed_by_name (ds @ [d]) (fm_ids f)" if "errs = []"
    proof -
      have f: "f = f0\<lparr>fm_fams := fm_fams f0 @ [new_family d],
                      fm_ids := (fm_ids f0)(d_Name d \<mapsto> length (fm_fams f0))\<rparr>"
        using step True that by (auto simp: declare_family_def Let_def split: if_splits)
      have "d_Name d \<notin> set (map d_Name ds)" using e that by simp
      then have "i < length ds \<Longrightarrow> d_Name (ds ! i) \<noteq> d_Name d" for i
        by (metis length_map nth_map nth_mem)
      then show ?thesis using ix by (auto simp: f indexed_by_name_def nth_append less_Suc_eq)
    qed
    then show ?thesis using e l IH True by auto
  qed
qed

lemma NewFamilies_iff:
  "(\<exists>f. NewFamilies ds = Inr f) \<longleftrightarrow> (\<forall>d\<in>set ds. valid_def d) \<and> distinct (map d_Name ds)"
proof -
  obtain f errs where f: "foldl declare_family (no_families, []) ds = (f, errs)"
    by (cases "foldl declare_family (no_families, []) ds")
  show ?thesis using declare_families [OF f] f by (auto simp: NewFamilies_def)
qed

lemma NewFamilies_Inr:
  "NewFamilies ds = Inr f \<Longrightarrow> fm_fams f = map new_family ds \<and> indexed_by_name ds (fm_ids f)"
  using declare_families [of ds] by (auto simp: NewFamilies_def split: prod.splits if_splits)

section \<open>What the families of a run stand for\<close>

definition fam_part :: "(fam_event \<Rightarrow> 'a list) \<Rightarrow> (nat \<times> fam_event) list \<Rightarrow> 'a list" where
  "fam_part g es = concat (map (g \<circ> snd) es)"

fun fam_lat :: "bool \<Rightarrow> nat \<Rightarrow> fam_event \<Rightarrow> duration list" where
  "fam_lat b i (FTrend j d ok) = (if j = i \<and> ok = b then [d] else [])"
| "fam_lat b i _ = []"

fun fam_adds :: "nat \<Rightarrow> fam_event \<Rightarrow> int list" where
  "fam_adds i (FAdd j n) = (if j = i then [n] else [])"
| "fam_adds i _ = []"

fun fam_rates :: "nat \<Rightarrow> fam_event \<Rightarrow> bool list" where
  "fam_rates i (FRate j v) = (if j = i then [v] else [])"
| "fam_rates i _ = []"

lemma fam_part_snoc [simp]: "fam_part g (es @ [x]) = fam_part g es @ g (snd x)"
  by (simp add: fam_part_def)

lemma fam_part_Nil [simp]: "fam_part g [] = []"
  by (simp add: fam_part_def)

definition shards_tally :: "bool \<Rightarrow> shard list \<Rightarrow> duration list \<Rightarrow> bool" where
  "shards_tally b shs L \<longleftrightarrow> (\<exists>Ls. list_all2 hist_tally (map (sh_sel b) shs) Ls \<and>
     mset (concat Ls) = mset (map clip L))"

lemma shards_tally_new: "shards_tally b (replicate m newShard) []"
proof -
  have "sh_sel b newShard = newHistogram" by (simp add: sh_sel_def newShard_def)
  then show ?thesis unfolding shards_tally_def
    by (intro exI [of _ "replicate m []"]) (simp add: list_all2_conv_all_nth tally_new)
qed

lemma shards_tally_put:
  assumes "shards_tally b shs L" "k < length shs" "in64 d"
    and sel: "sh_sel b s' = hist_record (sh_sel b (shs ! k)) d"
  shows "shards_tally b (shs[k := s']) (L @ [d])"
proof -
  obtain Ls where Ls: "list_all2 hist_tally (map (sh_sel b) shs) Ls" "mset (concat Ls) = mset (map clip L)"
    using assms(1) unfolding shards_tally_def by blast
  have len: "length Ls = length shs" using list_all2_lengthD [OF Ls(1)] by simp
  have hk: "hist_tally (sh_sel b (shs ! k)) (Ls ! k)"
    using list_all2_nthD [OF Ls(1), of k] assms(2) by simp
  have "list_all2 hist_tally (map (sh_sel b) (shs[k := s'])) (Ls[k := Ls ! k @ [clip d]])"
    using Ls(1) hist.put_stands [OF hk assms(3)] sel by (simp add: map_update list_all2_update_cong)
  then show ?thesis unfolding shards_tally_def using Ls(2) assms(2) len
    by (intro exI [of _ "Ls[k := Ls ! k @ [clip d]]"]) (simp add: mset_concat_append_at)
qed

lemma shards_tally_keep:
  "shards_tally b shs L \<Longrightarrow> k < length shs \<Longrightarrow> sh_sel b s' = sh_sel b (shs ! k) \<Longrightarrow> shards_tally b (shs[k := s']) L"
  by (simp add: shards_tally_def map_update) (metis length_map list_update_id nth_map)

definition fam_state :: "fdef \<Rightarrow> nat \<Rightarrow> (nat \<times> fam_event) list \<Rightarrow> family \<Rightarrow> bool" where
  "fam_state d i es fam \<longleftrightarrow> fa_def fam = d \<and>
     (d_Kind d = Trend \<longrightarrow> length (fa_trend fam) = numShards \<and>
        (\<forall>b. shards_tally b (fa_trend fam) (fam_part (fam_lat b i) es))) \<and>
     (d_Kind d = Counter \<longrightarrow> length (fa_counts fam) = numShards \<and> fa_trues fam = [] \<and>
        wrap64 (sum_list (fa_counts fam)) = wrap64 (sum_list (fam_part (fam_adds i) es))) \<and>
     (d_Kind d = Rate \<longrightarrow> length (fa_counts fam) = numShards \<and> length (fa_trues fam) = numShards \<and>
        wrap64 (sum_list (fa_counts fam)) = wrap64 (int (length (fam_part (fam_rates i) es))) \<and>
        wrap64 (sum_list (fa_trues fam)) = wrap64 (int (length (filter id (fam_part (fam_rates i) es)))))"

lemma kinds_differ [simp]: "Trend \<noteq> Counter" "Trend \<noteq> Rate" "Counter \<noteq> Rate"
  "Counter \<noteq> Trend" "Rate \<noteq> Trend" "Rate \<noteq> Counter"
  by (simp_all add: Trend_def Counter_def Rate_def)

lemma fam_state_new: "fam_state d i [] (new_family d)"
  by (auto simp: fam_state_def new_family_def shards_tally_new sum_list_replicate)

lemma atomic_add_length [simp]: "length (atomic_add xs k n) = length xs"
  by (simp add: atomic_add_def)

lemma atomic_add_sum:
  "k < length xs \<Longrightarrow> wrap64 (sum_list (atomic_add xs k n)) = wrap64 (wrap64 (sum_list xs) + n)"
proof -
  assume k: "k < length xs"
  then have "sum_list (atomic_add xs k n) = sum_list xs - xs ! k + wrap64 (xs ! k + n)"
    using sum_list_update_int [OF k, of "\<lambda>x. x"] by (simp add: atomic_add_def)
  then have "wrap64 (sum_list (atomic_add xs k n)) = wrap64 (sum_list xs - xs ! k + (xs ! k + n))"
    by (simp only: wrap64_add)
  then show ?thesis by simp
qed

definition fam_ok :: "recorder list \<Rightarrow> fdef list \<Rightarrow> nat \<times> fam_event \<Rightarrow> bool" where
  "fam_ok rs ds = (\<lambda>(w, e). w < length rs \<and> r_fams (rs ! w) \<and> r_shardIndex (rs ! w) < numShards \<and>
     (case e of FTrend i d ok \<Rightarrow> i < length ds \<and> d_Kind (ds ! i) = Trend \<and> in64 d
      | FAdd i n \<Rightarrow> i < length ds \<and> d_Kind (ds ! i) = Counter
      | FRate i v \<Rightarrow> i < length ds \<and> d_Kind (ds ! i) = Rate))"

definition fams_inv :: "fdef list \<Rightarrow> families \<Rightarrow> (nat \<times> fam_event) list \<Rightarrow> bool" where
  "fams_inv ds f es \<longleftrightarrow> length (fm_fams f) = length ds \<and>
     (\<forall>i<length ds. fam_state (ds ! i) i es (fm_fams f ! i))"

lemma fam_other:
  "fam_state d j es fam \<Longrightarrow> (\<And>b. fam_lat b j e = []) \<Longrightarrow> fam_adds j e = [] \<Longrightarrow> fam_rates j e = [] \<Longrightarrow>
     fam_state d j (es @ [(w, e)]) fam"
  by (simp add: fam_state_def)

lemma fams_put:
  assumes "fams_inv ds f es" "i < length (fm_fams f)" "fam_state (ds ! i) i (es @ [(w, e)]) fam"
    and "\<And>j b. j \<noteq> i \<Longrightarrow> fam_lat b j e = [] \<and> fam_adds j e = [] \<and> fam_rates j e = []"
  shows "fams_inv ds (put_family f i fam) (es @ [(w, e)])"
  unfolding fams_inv_def put_family_def
proof (simp add: assms(1) [unfolded fams_inv_def], intro allI impI)
  fix j assume j: "j < length ds"
  show "fam_state (ds ! j) j (es @ [(w, e)]) ((fm_fams f)[i := fam] ! j)"
  proof (cases "j = i")
    case True
    then show ?thesis using assms(2,3) by simp
  next
    case False
    then show ?thesis using assms(1,4) j by (auto simp: fams_inv_def intro!: fam_other)
  qed
qed

lemma fam_step_inv:
  assumes inv: "fams_inv ds f es" and ok: "fam_ok rs ds (w, e)"
  shows "\<exists>f'. fam_step rs f (w, e) = Some f' \<and> fams_inv ds f' (es @ [(w, e)])"
proof (cases e)
  case (FTrend i d b)
  have i: "i < length (fm_fams f)" "fam_state (ds ! i) i es (fm_fams f ! i)" "d_Kind (ds ! i) = Trend" "in64 d"
    "r_fams (rs ! w)" "r_shardIndex (rs ! w) < numShards"
    using inv ok FTrend by (auto simp: fams_inv_def fam_ok_def)
  let ?fam = "fm_fams f ! i" and ?k = "r_shardIndex (rs ! w)"
  let ?s = "fa_trend ?fam ! ?k"
  let ?s' = "if b then ?s\<lparr>sh_ok := hist_record (sh_ok ?s) d\<rparr> else ?s\<lparr>sh_failed := hist_record (sh_failed ?s) d\<rparr>"
  let ?fam' = "?fam\<lparr>fa_trend := (fa_trend ?fam)[?k := ?s']\<rparr>"
  have k: "?k < length (fa_trend ?fam)" "fa_def ?fam = ds ! i" using i by (simp_all add: fam_state_def)
  have "shards_tally c ((fa_trend ?fam)[?k := ?s']) (fam_part (fam_lat c i) (es @ [(w, e)]))" for c
  proof (cases "c = b")
    case True
    then show ?thesis using i k FTrend
      by (auto simp: fam_state_def sh_sel_def intro!: shards_tally_put)
  next
    case False
    then show ?thesis using i k FTrend
      by (auto simp: fam_state_def sh_sel_def intro!: shards_tally_keep)
  qed
  then have "fam_state (ds ! i) i (es @ [(w, e)]) ?fam'" using i k by (simp add: fam_state_def)
  then have "fams_inv ds (put_family f i ?fam') (es @ [(w, e)])"
    by (rule fams_put [OF inv i(1)]) (simp_all add: FTrend)
  moreover have "fam_step rs f (w, e) = Some (put_family f i ?fam')"
    using i k FTrend by (simp add: rec_Trend_def rec_family_def Let_def)
  ultimately show ?thesis by blast
next
  case (FAdd i n)
  have i: "i < length (fm_fams f)" "fam_state (ds ! i) i es (fm_fams f ! i)" "d_Kind (ds ! i) = Counter"
    "r_fams (rs ! w)" "r_shardIndex (rs ! w) < numShards"
    using inv ok FAdd by (auto simp: fams_inv_def fam_ok_def)
  let ?fam = "fm_fams f ! i" and ?k = "r_shardIndex (rs ! w)"
  let ?fam' = "?fam\<lparr>fa_counts := atomic_add (fa_counts ?fam) ?k n\<rparr>"
  have k: "?k < length (fa_counts ?fam)" "fa_def ?fam = ds ! i" using i by (simp_all add: fam_state_def)
  have "fam_state (ds ! i) i (es @ [(w, e)]) ?fam'"
    using i FAdd atomic_add_sum [OF k(1)] by (simp add: fam_state_def)
  then have "fams_inv ds (put_family f i ?fam') (es @ [(w, e)])"
    by (rule fams_put [OF inv i(1)]) (simp_all add: FAdd)
  moreover have "fam_step rs f (w, e) = Some (put_family f i ?fam')"
    using i k FAdd by (simp add: rec_Add_def rec_family_def)
  ultimately show ?thesis by blast
next
  case (FRate i v)
  have i: "i < length (fm_fams f)" "fam_state (ds ! i) i es (fm_fams f ! i)" "d_Kind (ds ! i) = Rate"
    "r_fams (rs ! w)" "r_shardIndex (rs ! w) < numShards"
    using inv ok FRate by (auto simp: fams_inv_def fam_ok_def)
  let ?fam = "fm_fams f ! i" and ?k = "r_shardIndex (rs ! w)"
  let ?fam' = "?fam\<lparr>fa_counts := atomic_add (fa_counts ?fam) ?k 1,
     fa_trues := (if v then atomic_add (fa_trues ?fam) ?k 1 else fa_trues ?fam)\<rparr>"
  have k: "?k < length (fa_counts ?fam)" "?k < length (fa_trues ?fam)" "fa_def ?fam = ds ! i"
    using i by (simp_all add: fam_state_def)
  have "fam_state (ds ! i) i (es @ [(w, e)]) ?fam'"
    using i FRate atomic_add_sum [OF k(1)] atomic_add_sum [OF k(2)] by (simp add: fam_state_def add.commute)
  then have "fams_inv ds (put_family f i ?fam') (es @ [(w, e)])"
    by (rule fams_put [OF inv i(1)]) (simp_all add: FRate)
  moreover have "fam_step rs f (w, e) = Some (put_family f i ?fam')"
    using i k FRate by (simp add: rec_Rate_def rec_family_def)
  ultimately show ?thesis by blast
qed

lemma fam_run_inv:
  assumes "fams_inv ds f es0" "\<forall>e\<in>set es. fam_ok rs ds e"
  shows "\<exists>f'. fam_run rs f es = Some f' \<and> fams_inv ds f' (es0 @ es)"
  using assms
proof (induction es arbitrary: f es0)
  case Nil
  then show ?case by simp
next
  case (Cons e es)
  obtain f1 where f1: "fam_step rs f e = Some f1" "fams_inv ds f1 (es0 @ [e])"
    using fam_step_inv [OF Cons.prems(1), of rs "fst e" "snd e"] Cons.prems(2) by auto
  show ?case using Cons.IH [OF f1(2)] Cons.prems(2) f1(1) by simp
qed


section \<open>Properties\<close>

text \<open>Which families a run accepts. \<open>NewFamilies\<close> succeeds exactly when every name has the form
  protocol, underscore, what in lower case, no name is a built-in metric, every kind is one of the
  three and no name is declared twice; then \<open>Defs\<close> returns the definitions in order and a name's
  ID is its position, every other name being unknown.\<close>

theorem families_accepted:
  "((\<exists>f. NewFamilies ds = Inr f) \<longleftrightarrow> (\<forall>d\<in>set ds. valid_def d) \<and> distinct (map d_Name ds)) \<and>
   (\<forall>f. NewFamilies ds = Inr f \<longrightarrow> Defs (Some f) = ds \<and>
      (\<forall>nm i. family_ID (Some f) nm = Some i \<longleftrightarrow> i < length ds \<and> d_Name (ds ! i) = nm))"
proof -
  have "map fa_def (map new_family ds) = ds" by (simp add: new_family_def comp_def)
  then show ?thesis using NewFamilies_iff [of ds] NewFamilies_Inr [of ds]
    by (auto simp: Defs_def family_ID_def indexed_by_name_def)
qed

theorem families_accepted_witness:
  "(\<exists>f. NewFamilies [\<lparr>d_Name = ''ws_msgs_sent'', d_Kind = Counter\<rparr>] = Inr f) \<and>
   \<not> (\<exists>f. NewFamilies [\<lparr>d_Name = ''http_reqs'', d_Kind = Counter\<rparr>] = Inr f)"
proof -
  have "familyName ''ws_msgs_sent'' \<and> ''ws_msgs_sent'' \<notin> set reservedNames"
    by (simp add: familyName_def lower_digit_def lower_def in_range_def byte_def reservedNames_def)
  then show ?thesis
    using families_accepted [of "[\<lparr>d_Name = ''ws_msgs_sent'', d_Kind = Counter\<rparr>]"]
      families_accepted [of "[\<lparr>d_Name = ''http_reqs'', d_Kind = Counter\<rparr>]"]
    by (simp add: valid_def_def Trend_def Counter_def Rate_def reservedNames_def)
qed

definition fam_samples :: "nat \<Rightarrow> (nat \<times> fam_event) list \<Rightarrow> int list" where
  "fam_samples i es = map clip (fam_part (fam_lat True i) es @ fam_part (fam_lat False i) es)"

definition fam_summary_ok :: "fdef \<Rightarrow> nat \<Rightarrow> (nat \<times> fam_event) list \<Rightarrow> familySummary \<Rightarrow> bool" where
  "fam_summary_ok d i es s \<longleftrightarrow> fs_Name s = d_Name d \<and> fs_Kind s = d_Kind d \<and>
     (d_Kind d = Counter \<longrightarrow> fs_Count s = wrap64 (sum_list (fam_part (fam_adds i) es))) \<and>
     (d_Kind d = Rate \<longrightarrow> fs_Count s = int (length (fam_part (fam_rates i) es)) \<and>
        fs_Trues s = int (length (filter id (fam_part (fam_rates i) es)))) \<and>
     (d_Kind d = Trend \<longrightarrow> (let L = fam_samples i es in
        fs_Count s = int (length L) \<and> fs_Failed s = int (length (fam_part (fam_lat False i) es)) \<and>
        (if L = [] then \<forall>p. fs_Percentile s p = None
         else fs_Min s = Min (set L) \<and> fs_Max s = Max (set L) \<and> fs_Mean s = sum_list L div int (length L) \<and>
              near_rank 50 L (fs_P50 s) \<and> near_rank 90 L (fs_P90 s) \<and>
              near_rank 95 L (fs_P95 s) \<and> near_rank 99 L (fs_P99 s) \<and>
              (\<forall>q. 0 < q \<and> q \<le> 100 \<longrightarrow> (\<exists>x. fs_Percentile s (Fin q) = Some x \<and> near_rank q L x)))))"

lemma sum_int_wrap: "sum_int xs = wrap64 (sum_list xs)"
  using foldl_wrap64 [of 0 xs] by (simp add: sum_int_def wrap64_def)

lemma summarize_trend:
  assumes t: "\<And>b. shards_tally b (fa_trend fam) (fam_part (fam_lat b i) es)" and k: "d_Kind (fa_def fam) = Trend"
    and n: "length (fam_samples i es) \<le> 2000000" and sm: "sum_list (fam_samples i es) < 2 ^ 63"
  shows "fam_summary_ok (fa_def fam) i es (summarize_family fam)"
proof -
  let ?F = "map clip (fam_part (fam_lat False i) es)" and ?L = "fam_samples i es"
  let ?L' = "fam_part (fam_lat True i) es @ fam_part (fam_lat False i) es"
  have sel: "sh_sel True = sh_ok" "sh_sel False = sh_failed" by (simp_all add: sh_sel_def fun_eq_iff)
  obtain Ts where Ts: "list_all2 hist_tally (map sh_ok (fa_trend fam)) Ts"
    "mset (concat Ts) = mset (map clip (fam_part (fam_lat True i) es))"
    using t [of True] unfolding shards_tally_def sel by blast
  obtain Fs where Fs: "list_all2 hist_tally (map sh_failed (fa_trend fam)) Fs" "mset (concat Fs) = mset ?F"
    using t [of False] unfolding shards_tally_def sel by blast
  define al where "al = combine (map sh_ok (fa_trend fam) @ map sh_failed (fa_trend fam))"
  define fl where "fl = combine (map sh_failed (fa_trend fam))"
  have "mset (concat (Ts @ Fs)) = mset ?L" using Ts(2) Fs(2) by (simp add: fam_samples_def)
  with combine_tally [OF list_all2_appendI [OF Ts(1) Fs(1)]] have al: "com_tally al ?L"
    unfolding al_def by (rule com_tally_mset)
  have fl: "com_tally fl ?F" unfolding fl_def using combine_tally [OF Fs(1)] Fs(2) by (rule com_tally_mset)
  have big: "(2000000 :: nat) < 2 ^ 63" by simp
  have l: "length ?L' < 2 ^ 63" "length (fam_part (fam_lat False i) es) < 2 ^ 63" "length ?L < 2 ^ 63"
    using n big by (simp_all only: fam_samples_def length_map length_append)
  note za = tally_size [OF al [unfolded fam_samples_def] l(1)] and zf = tally_size(1) [OF fl l(2)]
  show ?thesis
  proof (cases "?L = []")
    case True
    then have "com_n al = 0" "fam_part (fam_lat False i) es = []" using za(2) by (simp_all add: fam_samples_def)
    then show ?thesis using k zf True
      by (simp add: fam_summary_ok_def summarize_family_def al_def [symmetric] fl_def [symmetric] fs_zero_def
          fs_Percentile_def Let_def)
  next
    case False
    then have nz: "com_n al \<noteq> 0" using za(2) by (simp add: fam_samples_def)
    show ?thesis using k zf za(1) nz False tally_bounds [OF al False] tally_mean [OF al False sm l(3)]
        percentile_near_rank [OF al _ _ False n]
      by (auto simp: fam_summary_ok_def summarize_family_def al_def [symmetric] fl_def [symmetric] fs_zero_def
          fs_Percentile_def fam_samples_def word_gt_0 Let_def)
  qed
qed

lemma summarize_state:
  assumes "fam_state d i es fam" "length es \<le> 2000000" "length (fam_samples i es) \<le> 2000000"
    and "sum_list (fam_samples i es) < 2 ^ 63" "length (fam_part (fam_rates i) es) \<le> 2000000"
  shows "fam_summary_ok d i es (summarize_family fam)"
proof -
  have d: "fa_def fam = d" using assms(1) by (simp add: fam_state_def)
  consider "d_Kind d = Trend" | "d_Kind d = Counter" | "d_Kind d = Rate"
    | "d_Kind d \<noteq> Trend" "d_Kind d \<noteq> Counter" "d_Kind d \<noteq> Rate" by blast
  then show ?thesis
  proof cases
    case 1
    then show ?thesis using assms(1) d summarize_trend [of fam i es] assms(3,4) by (simp add: fam_state_def)
  next
    case 2
    then show ?thesis using assms(1) d
      by (simp add: fam_summary_ok_def summarize_family_def fam_state_def sum_int_wrap fs_zero_def Let_def)
  next
    case 3
    have "int (length (filter id (fam_part (fam_rates i) es))) \<le> 2000000" "int (length (fam_part (fam_rates i) es)) \<le> 2000000"
      using assms(5) length_filter_le [of id "fam_part (fam_rates i) es"] by linarith+
    then show ?thesis using 3 assms(1) d
      by (simp add: fam_summary_ok_def summarize_family_def fam_state_def sum_int_wrap fs_zero_def wrap64_nonneg_id Let_def)
  next
    case 4
    then show ?thesis using d by (simp add: fam_summary_ok_def summarize_family_def fs_zero_def Let_def)
  qed
qed

lemma fam_part_length:
  assumes "\<And>e. length (g e) \<le> 1"
  shows "length (fam_part g es) \<le> length es"
proof (induction es rule: rev_induct)
  case Nil
  then show ?case by simp
next
  case (snoc x es)
  then show ?case using assms [of "snd x"] by simp
qed

lemma fam_samples_length: "length (fam_samples i es) \<le> length es"
proof (induction es rule: rev_induct)
  case Nil
  then show ?case by (simp add: fam_samples_def)
next
  case (snoc x es)
  then show ?case by (cases "snd x") (auto simp: fam_samples_def)
qed

lemma families_summarize:
  assumes "NewFamilies ds = Inr f" and "\<forall>e\<in>set es. fam_ok rs ds e" and "length es \<le> 2000000"
    and "\<forall>i<length ds. sum_list (fam_samples i es) < 2 ^ 63"
  shows "\<exists>f'. fam_run rs f es = Some f' \<and> length (Summarize (Some f')) = length ds \<and>
    (\<forall>i<length ds. fam_summary_ok (ds ! i) i es (Summarize (Some f') ! i))"
proof -
  have "fams_inv ds f []" using NewFamilies_Inr [OF assms(1)] by (simp add: fams_inv_def fam_state_new)
  from fam_run_inv [OF this assms(2)] obtain f' where f': "fam_run rs f es = Some f'" "fams_inv ds f' es" by auto
  have "fam_summary_ok (ds ! i) i es (summarize_family (fm_fams f' ! i))" if "i < length ds" for i
  proof (rule summarize_state)
    show "fam_state (ds ! i) i es (fm_fams f' ! i)" using f'(2) that by (simp add: fams_inv_def)
    have "length (fam_rates i e) \<le> 1" for e by (cases e) auto
    then show "length (fam_part (fam_rates i) es) \<le> 2000000"
      using fam_part_length [of "fam_rates i" es] assms(3) order_trans by blast
    show "length (fam_samples i es) \<le> 2000000" using fam_samples_length [of i es] assms(3) by linarith
  qed (use assms(3,4) that in simp_all)
  then show ?thesis using f' by (auto simp: Summarize_def fams_inv_def)
qed

text \<open>What families report. After any interleaving of well-typed record calls by any recorders of
  the run, no call panics and \<open>Summarize\<close> lists the families in declaration order: a Counter's
  total (wrapped to 64 bits), a Rate's samples and true samples, a Trend's samples and failed
  samples, exact minimum, maximum and mean and percentiles within 1/128 of the nearest rank. A
  record call for one family never changes another.\<close>

theorem families_summarized:
  assumes "NewFamilies ds = Inr f" and "\<forall>e\<in>set es. fam_ok rs ds e" and "length es \<le> 2000000"
    and "\<forall>i<length ds. sum_list (fam_samples i es) < 2 ^ 63"
  shows "\<exists>f'. fam_run rs f es = Some f' \<and> length (Summarize (Some f')) = length ds \<and>
    (\<forall>i<length ds. fam_summary_ok (ds ! i) i es (Summarize (Some f') ! i))"
  using assms by (rule families_summarize)


theorem families_summarized_witness:
  "\<exists>f f'. NewFamilies [\<lparr>d_Name = ''ws_errors'', d_Kind = Rate\<rparr>] = Inr f \<and>
     fam_run [UseFamilies zero_recorder True] f [(0, FRate 0 True), (0, FRate 0 False)] = Some f' \<and>
     fs_Trues (Summarize (Some f') ! 0) = 1 \<and> fs_Count (Summarize (Some f') ! 0) = 2"
proof -
  let ?ds = "[\<lparr>d_Name = ''ws_errors'', d_Kind = Rate\<rparr>]"
  have "familyName ''ws_errors''"
    by (simp add: familyName_def lower_digit_def lower_def in_range_def byte_def)
  then have "\<exists>f. NewFamilies ?ds = Inr f"
    by (simp add: NewFamilies_def declare_family_def reservedNames_def Trend_def Rate_def no_families_def Let_def)
  then obtain f where f: "NewFamilies ?ds = Inr f" by blast
  show ?thesis
    using families_summarized [OF f, of "[(0, FRate 0 True), (0, FRate 0 False)]" "[UseFamilies zero_recorder True]"] f
    by (auto simp: fam_ok_def UseFamilies_def zero_recorder_def numShards_def fam_samples_def fam_part_def
        fam_summary_ok_def)
qed

end
