(* ===== verification/Go_Regexp.thy ===== *)
theory Go_Regexp
  imports Go_Prelude
begin

text \<open>
  Package \<open>regexp\<close> as far as the sources use it: anchored patterns of character classes,
  sequences, alternatives, greedy stars and capturing groups. \<open>rmatch\<close> lists the ways a pattern
  matches a prefix in Go's order of preference (the order a backtracking matcher tries them), each
  with the rest of the text and the captured groups; \<open>FindStringSubmatch\<close> of a pattern anchored
  with \<open>^\<close> and \<open>$\<close> takes the first that leaves nothing. \<open>lang\<close> is the language of a pattern, and
  \<open>rmatch_lang\<close> relates the two.
\<close>

datatype regex =
    Eps
  | Cls "(char \<times> char) list"
  | Seq regex regex
  | Alt regex regex
  | Star regex
  | Grp nat regex

type_synonym caps = "nat \<rightharpoonup> string"
type_synonym rstate = "string \<times> caps"

definition in_cls :: "(char \<times> char) list \<Rightarrow> char \<Rightarrow> bool" where
  "in_cls rs c \<longleftrightarrow> list_ex (\<lambda>(a, b). in_range a b c) rs"

primrec star_iter :: "nat \<Rightarrow> (rstate \<Rightarrow> rstate list) \<Rightarrow> rstate \<Rightarrow> rstate list" where
  "star_iter 0 f x = [x]"
| "star_iter (Suc n) f x =
     concat (map (star_iter n f) (filter (\<lambda>y. length (fst y) < length (fst x)) (f x))) @ [x]"

primrec rmatch :: "regex \<Rightarrow> rstate \<Rightarrow> rstate list" where
  "rmatch Eps x = [x]"
| "rmatch (Cls rs) x = (case fst x of [] \<Rightarrow> [] | c # s \<Rightarrow> if in_cls rs c then [(s, snd x)] else [])"
| "rmatch (Seq a b) x = concat (map (rmatch b) (rmatch a x))"
| "rmatch (Alt a b) x = rmatch a x @ rmatch b x"
| "rmatch (Star a) x = star_iter (length (fst x)) (rmatch a) x"
| "rmatch (Grp i a) x =
     map (\<lambda>(s, c). (s, c(i \<mapsto> take (length (fst x) - length s) (fst x)))) (rmatch a x)"

definition FindStringSubmatch :: "regex \<Rightarrow> string \<Rightarrow> caps option" where
  "FindStringSubmatch r s = map_option snd (find (\<lambda>x. fst x = []) (rmatch r (s, Map.empty)))"

text \<open>Patterns the sources write in longer form.\<close>

primrec rlit :: "string \<Rightarrow> regex" where
  "rlit [] = Eps"
| "rlit (c # s) = Seq (Cls [(c, c)]) (rlit s)"

definition ropt :: "regex \<Rightarrow> regex" where "ropt r = Alt r Eps"
definition rplus :: "regex \<Rightarrow> regex" where "rplus r = Seq r (Star r)"

fun ralts :: "regex list \<Rightarrow> regex" where
  "ralts [] = Cls []"
| "ralts [r] = r"
| "ralts (r # q # rs) = Alt r (ralts (q # rs))"

fun rseqs :: "regex list \<Rightarrow> regex" where
  "rseqs [] = Eps"
| "rseqs [r] = r"
| "rseqs (r # q # rs) = Seq r (rseqs (q # rs))"

section \<open>Languages\<close>

primrec lang :: "regex \<Rightarrow> string set" where
  "lang Eps = {[]}"
| "lang (Cls rs) = {[c] | c. in_cls rs c}"
| "lang (Seq a b) = {u @ v | u v. u \<in> lang a \<and> v \<in> lang b}"
| "lang (Alt a b) = lang a \<union> lang b"
| "lang (Star a) = {concat us | us. set us \<subseteq> lang a}"
| "lang (Grp i a) = lang a"

primrec no_groups :: "regex \<Rightarrow> bool" where
  "no_groups Eps = True"
| "no_groups (Cls rs) = True"
| "no_groups (Seq a b) = (no_groups a \<and> no_groups b)"
| "no_groups (Alt a b) = (no_groups a \<and> no_groups b)"
| "no_groups (Star a) = no_groups a"
| "no_groups (Grp i a) = False"

lemma byte_eq_iff [simp]: "byte a = byte b \<longleftrightarrow> a = b"
  by (simp add: byte_def)

lemma in_range_same [simp]: "in_range c c d \<longleftrightarrow> d = c"
  unfolding in_range_def by (metis byte_eq_iff le_antisym order_refl)

lemma lang_rlit [simp]: "lang (rlit s) = {s}"
  by (induction s) (auto simp: in_cls_def)

lemma no_groups_rlit [simp]: "no_groups (rlit s)"
  by (induction s) simp_all

declare rlit.simps [simp del]

lemma in_cls_single [simp]: "in_cls [(c, c)] d \<longleftrightarrow> d = c"
  by (simp add: in_cls_def)

lemma star_iter_lang:
  assumes f: "\<And>s c s' c'. (s', c') \<in> set (f (s, c)) \<longleftrightarrow> c' = c \<and> (\<exists>u\<in>L. s = u @ s')"
  shows "length s \<le> n \<Longrightarrow> (s', c') \<in> set (star_iter n f (s, c)) \<longleftrightarrow>
           c' = c \<and> (\<exists>us. set us \<subseteq> L \<and> s = concat us @ s')"
proof (induction n arbitrary: s c)
  case 0
  then show ?case by (auto intro: exI [of _ "[]"])
next
  case (Suc n)
  have IH: "length t < length s \<Longrightarrow> (s', c') \<in> set (star_iter n f (t, c)) \<longleftrightarrow>
      c' = c \<and> (\<exists>us. set us \<subseteq> L \<and> t = concat us @ s')" for t
    using Suc.IH [of t c] Suc.prems by simp
  have "(s', c') \<in> set (star_iter (Suc n) f (s, c)) \<longleftrightarrow>
        (s', c') = (s, c) \<or> (\<exists>t d. (t, d) \<in> set (f (s, c)) \<and> length t < length s \<and> (s', c') \<in> set (star_iter n f (t, d)))"
    by auto
  also have "\<dots> \<longleftrightarrow> (s', c') = (s, c) \<or>
      (\<exists>t. (\<exists>u\<in>L. s = u @ t) \<and> length t < length s \<and> (s', c') \<in> set (star_iter n f (t, c)))"
    by (auto simp: f)
  also have "\<dots> \<longleftrightarrow> (s', c') = (s, c) \<or>
      (\<exists>t. (\<exists>u\<in>L. s = u @ t) \<and> length t < length s \<and> c' = c \<and> (\<exists>us. set us \<subseteq> L \<and> t = concat us @ s'))"
    using IH by blast
  also have "\<dots> \<longleftrightarrow> c' = c \<and> (\<exists>us. set us \<subseteq> L \<and> s = concat us @ s')"
  proof (intro iffI)
    assume "(s', c') = (s, c) \<or>
      (\<exists>t. (\<exists>u\<in>L. s = u @ t) \<and> length t < length s \<and> c' = c \<and> (\<exists>us. set us \<subseteq> L \<and> t = concat us @ s'))"
    then show "c' = c \<and> (\<exists>us. set us \<subseteq> L \<and> s = concat us @ s')"
    proof
      assume "(s', c') = (s, c)"
      then show ?thesis by (auto intro: exI [of _ "[]"])
    next
      assume "\<exists>t. (\<exists>u\<in>L. s = u @ t) \<and> length t < length s \<and> c' = c \<and> (\<exists>us. set us \<subseteq> L \<and> t = concat us @ s')"
      then obtain u us where "u \<in> L" "set us \<subseteq> L" "s = u @ concat us @ s'" "c' = c" by blast
      then show ?thesis by (intro conjI exI [of _ "u # us"]) simp_all
    qed
  next
    assume "c' = c \<and> (\<exists>us. set us \<subseteq> L \<and> s = concat us @ s')"
    then obtain us where us: "c' = c" "set us \<subseteq> L" "s = concat us @ s'" by blast
    define vs where "vs = filter (\<lambda>u. u \<noteq> []) us"
    have cf: "concat (filter (\<lambda>u. u \<noteq> []) us) = concat us" by (induction us) simp_all
    have vs: "set vs \<subseteq> L" "s = concat vs @ s'" "\<forall>v\<in>set vs. v \<noteq> []"
      using us cf by (auto simp: vs_def)
    show "(s', c') = (s, c) \<or>
      (\<exists>t. (\<exists>u\<in>L. s = u @ t) \<and> length t < length s \<and> c' = c \<and> (\<exists>us. set us \<subseteq> L \<and> t = concat us @ s'))"
    proof (cases vs)
      case Nil
      then show ?thesis using vs us by simp
    next
      case (Cons v ws)
      then show ?thesis using vs us(1) by (intro disjI2 exI [of _ "concat ws @ s'"]) auto
    qed
  qed
  finally show ?case .
qed

lemma rmatch_Seq:
  "(s', c') \<in> set (rmatch (Seq a b) (s, c)) \<longleftrightarrow>
     (\<exists>t d. (t, d) \<in> set (rmatch a (s, c)) \<and> (s', c') \<in> set (rmatch b (t, d)))"
  by auto

lemma rmatch_lang:
  "no_groups r \<Longrightarrow> (s', c') \<in> set (rmatch r (s, c)) \<longleftrightarrow> c' = c \<and> (\<exists>u\<in>lang r. s = u @ s')"
proof (induction r arbitrary: s c s' c')
  case (Cls rs)
  then show ?case by (cases s) auto
next
  case (Seq a b)
  have "(s', c') \<in> set (rmatch (Seq a b) (s, c)) \<longleftrightarrow>
      (\<exists>t d. (d = c \<and> (\<exists>u\<in>lang a. s = u @ t)) \<and> c' = d \<and> (\<exists>v\<in>lang b. t = v @ s'))"
    using Seq by (simp only: rmatch_Seq no_groups.simps)
  also have "\<dots> \<longleftrightarrow> c' = c \<and> (\<exists>u\<in>lang a. \<exists>v\<in>lang b. s = (u @ v) @ s')" by auto
  also have "\<dots> \<longleftrightarrow> c' = c \<and> (\<exists>w\<in>lang (Seq a b). s = w @ s')"
    unfolding lang.simps by blast
  finally show ?case .
next
  case (Star a)
  have "(s', c') \<in> set (rmatch (Star a) (s, c)) \<longleftrightarrow> c' = c \<and> (\<exists>us. set us \<subseteq> lang a \<and> s = concat us @ s')"
    using star_iter_lang [of "rmatch a" "lang a" s "length s"] Star by simp
  then show ?case by auto
qed auto

text \<open>\<open>consumes r P\<close>: a pattern's matches are the prefixes \<open>u\<close> of the text with \<open>P u c c'\<close>, where
  \<open>c\<close> and \<open>c'\<close> are the groups before and after. It composes along the pattern.\<close>

definition consumes :: "regex \<Rightarrow> (string \<Rightarrow> caps \<Rightarrow> caps \<Rightarrow> bool) \<Rightarrow> bool" where
  "consumes r P \<longleftrightarrow> (\<forall>s c s' c'. (s', c') \<in> set (rmatch r (s, c)) \<longleftrightarrow> (\<exists>u. s = u @ s' \<and> P u c c'))"

lemma consumes_plain: "no_groups r \<Longrightarrow> consumes r (\<lambda>u c c'. u \<in> lang r \<and> c' = c)"
  by (auto simp: consumes_def rmatch_lang)

lemma consumes_Seq:
  assumes "consumes a P" "consumes b Q"
  shows "consumes (Seq a b) (\<lambda>u c c'. \<exists>x y d. u = x @ y \<and> P x c d \<and> Q y d c')"
  unfolding consumes_def
proof (intro allI)
  fix s c s' c'
  have "(s', c') \<in> set (rmatch (Seq a b) (s, c)) \<longleftrightarrow>
      (\<exists>t d. (\<exists>x. s = x @ t \<and> P x c d) \<and> (\<exists>y. t = y @ s' \<and> Q y d c'))"
    unfolding rmatch_Seq using assms by (simp only: consumes_def)
  also have "\<dots> \<longleftrightarrow> (\<exists>x y d. s = x @ y @ s' \<and> P x c d \<and> Q y d c')" by blast
  also have "\<dots> \<longleftrightarrow> (\<exists>u. s = u @ s' \<and> (\<exists>x y d. u = x @ y \<and> P x c d \<and> Q y d c'))"
    unfolding append_assoc [symmetric] by blast
  finally show "(s', c') \<in> set (rmatch (Seq a b) (s, c)) \<longleftrightarrow>
      (\<exists>u. s = u @ s' \<and> (\<exists>x y d. u = x @ y \<and> P x c d \<and> Q y d c'))" .
qed

lemma consumes_Alt:
  "consumes a P \<Longrightarrow> consumes b Q \<Longrightarrow> consumes (Alt a b) (\<lambda>u c c'. P u c c' \<or> Q u c c')"
  unfolding consumes_def by auto

lemma consumes_Grp:
  assumes "consumes a P"
  shows "consumes (Grp i a) (\<lambda>u c c'. \<exists>d. P u c d \<and> c' = d(i \<mapsto> u))"
  unfolding consumes_def
proof (intro allI)
  fix s c s' c'
  have "(s', c') \<in> set (rmatch (Grp i a) (s, c)) \<longleftrightarrow>
      (\<exists>d. (s', d) \<in> set (rmatch a (s, c)) \<and> c' = d(i \<mapsto> take (length s - length s') s))" by auto
  also have "\<dots> \<longleftrightarrow> (\<exists>d u. s = u @ s' \<and> P u c d \<and> c' = d(i \<mapsto> take (length s - length s') s))"
    using assms by (auto simp: consumes_def)
  also have "\<dots> \<longleftrightarrow> (\<exists>u. s = u @ s' \<and> (\<exists>d. P u c d \<and> c' = d(i \<mapsto> u)))" by auto
  finally show "(s', c') \<in> set (rmatch (Grp i a) (s, c)) \<longleftrightarrow>
      (\<exists>u. s = u @ s' \<and> (\<exists>d. P u c d \<and> c' = d(i \<mapsto> u)))" .
qed

lemma consumes_cong: "consumes r P \<Longrightarrow> (\<And>u c c'. P u c c' \<longleftrightarrow> Q u c c') \<Longrightarrow> consumes r Q"
  unfolding consumes_def by simp

text \<open>The same for a sequence whose parts are listed in a tuple.\<close>

lemma consumes_last: "consumes a A \<Longrightarrow> consumes a (\<lambda>u c c'. \<exists>z. u = id z \<and> A z c c')"
  by simp

lemma consumes_front:
  assumes "consumes a A" "consumes b (\<lambda>u c c'. \<exists>z. u = f z \<and> R z c c')"
  shows "consumes (Seq a b)
    (\<lambda>u c c'. \<exists>p. u = fst p @ f (snd p) \<and> (\<exists>d. A (fst p) c d \<and> R (snd p) d c'))"
  by (rule consumes_cong [OF consumes_Seq [OF assms]]) auto

lemma consumes_all: "consumes r P \<Longrightarrow> ([], c') \<in> set (rmatch r (s, c)) \<longleftrightarrow> P s c c'"
  unfolding consumes_def by simp

lemma FindStringSubmatch_None:
  "FindStringSubmatch r s = None \<longleftrightarrow> (\<nexists>c. ([], c) \<in> set (rmatch r (s, Map.empty)))"
  by (auto simp: FindStringSubmatch_def find_None_iff)

lemma FindStringSubmatch_Some:
  "FindStringSubmatch r s = Some c \<Longrightarrow> ([], c) \<in> set (rmatch r (s, Map.empty))"
  unfolding FindStringSubmatch_def find_Some_iff map_option_eq_Some
  by (metis nth_mem prod.collapse)

text \<open>A text splits in at most one way into characters of a class and a rest that does not start
  with one.\<close>

lemma span_unique:
  assumes "u @ x = v @ y" "\<forall>c\<in>set u. P c" "\<forall>c\<in>set v. P c"
    and "x \<noteq> [] \<Longrightarrow> \<not> P (hd x)" "y \<noteq> [] \<Longrightarrow> \<not> P (hd y)"
  shows "u = v \<and> x = y"
proof -
  have "takeWhile P (u @ x) = u" using assms(2,4) by (cases x) (simp_all add: takeWhile_append2)
  moreover have "takeWhile P (v @ y) = v" using assms(3,5) by (cases y) (simp_all add: takeWhile_append2)
  ultimately show ?thesis using assms(1) by simp
qed

lemma lang_star_cls: "lang (Star (Cls rs)) = {s. \<forall>c\<in>set s. in_cls rs c}"
proof (intro set_eqI iffI)
  fix s assume "s \<in> lang (Star (Cls rs))"
  then show "s \<in> {s. \<forall>c\<in>set s. in_cls rs c}" by fastforce
next
  fix s assume s: "s \<in> {s. \<forall>c\<in>set s. in_cls rs c}"
  have "s = concat (map (\<lambda>c. [c]) s)" by (induction s) simp_all
  moreover have "set (map (\<lambda>c. [c]) s) \<subseteq> lang (Cls rs)" using s by auto
  ultimately show "s \<in> lang (Star (Cls rs))" unfolding lang.simps by blast
qed

lemma lang_plus_cls: "lang (rplus (Cls rs)) = {s. s \<noteq> [] \<and> (\<forall>c\<in>set s. in_cls rs c)}"
proof -
  have "lang (Seq (Cls rs) r) = {c # v | c v. in_cls rs c \<and> v \<in> lang r}" for r
    unfolding lang.simps by (simp add: set_eq_iff) (metis append_Cons append_Nil)
  then have "lang (rplus (Cls rs)) = {c # v | c v. in_cls rs c \<and> (\<forall>c\<in>set v. in_cls rs c)}"
    by (simp only: rplus_def lang_star_cls mem_Collect_eq)
  also have "\<dots> = {s. s \<noteq> [] \<and> (\<forall>c\<in>set s. in_cls rs c)}" by (auto simp: neq_Nil_conv)
  finally show ?thesis .
qed

end
