(* ===== verification/Thresholds.thy ===== *)
theory Thresholds
  imports Families Go_Regexp
begin

text \<open>
  \<open>internal/thresholds/thresholds.go\<close>: parsing threshold expressions and evaluating them against
  the merged summary. Aggregates and operators are strings, as in the code; numbers are read by
  \<open>ParseFloat\<close>, the correctly rounded binary64 value of a decimal.
\<close>

section \<open>Metrics\<close>

datatype metric_unit = Milliseconds | Fraction | PerSecond | CountUnit

record metric =
  mt_aggregates :: "string list"
  mt_value :: "string \<Rightarrow> f64 \<Rightarrow> summary \<Rightarrow> duration \<Rightarrow> f64 option"
  mt_unit :: "string \<Rightarrow> metric_unit"

definition to_ms :: "duration \<Rightarrow> f64" where
  "to_ms d = f64_div (f64_of_int d) (f64_of_int millisecond)"

text \<open>\<open>Duration.Seconds\<close>: whole seconds and the rest converted separately.\<close>

definition dur_Seconds :: "duration \<Rightarrow> f64" where
  "dur_Seconds d = f64_add (f64_of_int (go_div d second))
     (f64_div (f64_of_int (d - go_div d second * second)) (f64_of_int second))"

definition percentile_or_zero :: "duration option \<Rightarrow> duration" where
  "percentile_or_zero d = (case d of None \<Rightarrow> 0 | Some x \<Rightarrow> x)"

definition duration_value :: "string \<Rightarrow> f64 \<Rightarrow> summary \<Rightarrow> duration \<Rightarrow> f64 option" where
  "duration_value agg p s elapsed =
     (if s_Sent s = 0 then None
      else let d = (if agg = ''avg'' then s_Mean s else if agg = ''min'' then s_Min s
                    else if agg = ''max'' then s_Max s
                    else if agg = ''med'' then percentile_or_zero (Percentile s (Fin 50))
                    else if agg = ''p'' then percentile_or_zero (Percentile s p) else 0)
           in Some (to_ms d))"

definition failed_value :: "string \<Rightarrow> f64 \<Rightarrow> summary \<Rightarrow> duration \<Rightarrow> f64 option" where
  "failed_value agg p s elapsed = (if 0 < s_Requests s then Some (s_ErrorRate s) else None)"

definition checks_value :: "string \<Rightarrow> f64 \<Rightarrow> summary \<Rightarrow> duration \<Rightarrow> f64 option" where
  "checks_value agg p s elapsed =
     (let passes = sum_list (map cr_Passes (s_Checks s));
          total = sum_list (map (\<lambda>c. cr_Passes c + cr_Fails c) (s_Checks s))
      in if total = 0 then None else Some (f64_div (f64_of_int passes) (f64_of_int total)))"

definition counter_metric :: "(summary \<Rightarrow> int) \<Rightarrow> metric" where
  "counter_metric n = \<lparr>mt_aggregates = [''count'', ''rate''],
     mt_value = (\<lambda>agg p s elapsed.
        if agg = ''count'' then Some (f64_of_int (n s))
        else if elapsed \<le> 0 then None
        else Some (f64_div (f64_of_int (n s)) (dur_Seconds elapsed))),
     mt_unit = (\<lambda>agg. if agg = ''count'' then CountUnit else PerSecond)\<rparr>"

definition duration_aggs :: "string list" where
  "duration_aggs = [''avg'', ''min'', ''max'', ''med'', ''p'']"

definition known :: "(string \<times> metric) list" where
  "known =
     [(''http_req_duration'', \<lparr>mt_aggregates = duration_aggs, mt_value = duration_value,
                               mt_unit = (\<lambda>_. Milliseconds)\<rparr>),
      (''http_req_failed'', \<lparr>mt_aggregates = [''rate''], mt_value = failed_value,
                             mt_unit = (\<lambda>_. Fraction)\<rparr>),
      (''checks'', \<lparr>mt_aggregates = [''rate''], mt_value = checks_value, mt_unit = (\<lambda>_. Fraction)\<rparr>),
      (''http_reqs'', counter_metric s_Requests),
      (''iterations'', counter_metric s_Iterations),
      (''dropped_iterations'', counter_metric s_DroppedIterations)]"

definition family_trend_value :: "string \<Rightarrow> string \<Rightarrow> f64 \<Rightarrow> summary \<Rightarrow> duration \<Rightarrow> f64 option" where
  "family_trend_value name agg p s elapsed = (case summary_Family s name of
       None \<Rightarrow> None
     | Some f \<Rightarrow> if fs_Count f = 0 then None
         else let d = (if agg = ''avg'' then fs_Mean f else if agg = ''min'' then fs_Min f
                       else if agg = ''max'' then fs_Max f
                       else if agg = ''med'' then percentile_or_zero (fs_Percentile f (Fin 50))
                       else if agg = ''p'' then percentile_or_zero (fs_Percentile f p) else 0)
              in Some (to_ms d))"

definition family_rate_value :: "string \<Rightarrow> string \<Rightarrow> f64 \<Rightarrow> summary \<Rightarrow> duration \<Rightarrow> f64 option" where
  "family_rate_value name agg p s elapsed = (case summary_Family s name of
       None \<Rightarrow> None
     | Some f \<Rightarrow> if fs_Count f = 0 then None
                  else Some (f64_div (f64_of_int (fs_Trues f)) (f64_of_int (fs_Count f))))"

definition familyMetric :: "string \<Rightarrow> kind \<Rightarrow> metric" where
  "familyMetric name k =
     (if k = Trend then \<lparr>mt_aggregates = duration_aggs, mt_value = family_trend_value name,
                         mt_unit = (\<lambda>_. Milliseconds)\<rparr>
      else if k = Rate then \<lparr>mt_aggregates = [''rate''], mt_value = family_rate_value name,
                             mt_unit = (\<lambda>_. Fraction)\<rparr>
      else counter_metric (\<lambda>s. case summary_Family s name of None \<Rightarrow> 0 | Some f \<Rightarrow> fs_Count f))"

section \<open>Expressions\<close>

record threshold =
  th_Metric :: string
  th_Expr :: string
  th_agg :: string
  th_p :: f64
  th_op :: string
  th_limit :: f64
  th_kind :: kind

definition no_metric :: metric where
  "no_metric = \<lparr>mt_aggregates = [], mt_value = (\<lambda>_ _ _ _. None), mt_unit = (\<lambda>_. Milliseconds)\<rparr>"

definition threshold_metric :: "threshold \<Rightarrow> metric" where
  "threshold_metric t =
     (if th_kind t \<noteq> 0 then familyMetric (th_Metric t) (th_kind t)
      else case map_of known (th_Metric t) of None \<Rightarrow> no_metric | Some m \<Rightarrow> m)"

definition rspace :: regex where
  "rspace = Star (Cls [(CHR '' '', CHR '' ''), (char_of (9::nat), char_of (10::nat)),
                       (char_of (12::nat), char_of (13::nat))])"

definition rdigits :: regex where
  "rdigits = rplus (Cls [(CHR ''0'', CHR ''9'')])"

definition rdecimal :: regex where
  "rdecimal = Seq rdigits (ropt (Seq (rlit ''.'') rdigits))"

definition agg_pattern :: regex where
  "agg_pattern = Grp 1 (Alt (rlit ''avg'') (Alt (rlit ''min'') (Alt (rlit ''max'') (Alt (rlit ''med'')
     (Alt (rlit ''count'') (Alt (rlit ''rate'')
       (Seq (rlit ''p('') (Seq rspace (Seq (Grp 2 rdecimal) (Seq rspace (rlit '')'')))))))))))"

definition op_pattern :: regex where
  "op_pattern = Grp 3 (Alt (rlit ''<='') (Alt (rlit ''>='') (Alt (rlit ''=='') (Alt (rlit ''!='')
     (Alt (rlit ''<'') (rlit ''>''))))))"

definition exprPattern :: regex where
  "exprPattern = Seq rspace (Seq agg_pattern (Seq rspace (Seq op_pattern (Seq rspace
     (Seq (Grp 4 (Seq (ropt (rlit ''-'')) rdecimal)) rspace)))))"

text \<open>\<open>strconv.ParseFloat\<close> on the decimals the pattern captures.\<close>

definition decimal_val :: "string \<Rightarrow> rat" where
  "decimal_val s = (let w = takeWhile (\<lambda>c. c \<noteq> CHR ''.'') s; f = drop 1 (dropWhile (\<lambda>c. c \<noteq> CHR ''.'') s)
     in of_nat (digits_val w) + of_nat (digits_val f) / 10 ^ length f)"

definition ParseFloat :: "string \<Rightarrow> f64" where
  "ParseFloat s = (case s of
       [] \<Rightarrow> Fin 0
     | c # t \<Rightarrow> if c = CHR ''-'' then f64_of_rat (- decimal_val t) else f64_of_rat (decimal_val s))"

datatype threshold_error =
    UnknownMetric string
  | SubMetric string
  | BadExpr string string
  | BadPercentile string string string
  | BadAggregate string string string "string list"

definition group :: "caps \<Rightarrow> nat \<Rightarrow> string" where
  "group g i = (case g i of None \<Rightarrow> [] | Some s \<Rightarrow> s)"

definition parseExpr :: "string \<Rightarrow> metric \<Rightarrow> string \<Rightarrow> threshold_error + threshold" where
  "parseExpr name m expr = (case FindStringSubmatch exprPattern expr of
       None \<Rightarrow> Inl (BadExpr name expr)
     | Some g \<Rightarrow>
         let isp = has_prefix (group g 1) ''p('';
             agg = (if isp then ''p'' else group g 1);
             p = (if isp then ParseFloat (group g 2) else Fin 0)
         in if isp \<and> (f64_le p (Fin 0) \<or> f64_lt (Fin 100) p) then Inl (BadPercentile name expr (group g 2))
            else if agg \<notin> set (mt_aggregates m) then Inl (BadAggregate name expr agg (mt_aggregates m))
            else Inr \<lparr>th_Metric = name, th_Expr = expr, th_agg = agg, th_p = p, th_op = group g 3,
                      th_limit = ParseFloat (group g 4), th_kind = 0\<rparr>)"

text \<open>\<open>Parse\<close>: the map of definitions is a list with distinct names.\<close>

definition unknownMetric :: "string \<Rightarrow> threshold_error" where
  "unknownMetric name = (if str_contains name ''{'' then SubMetric name else UnknownMetric name)"

definition family_kinds :: "fdef list \<Rightarrow> string \<Rightarrow> kind" where
  "family_kinds fams name = foldl (\<lambda>k f. if d_Name f = name then d_Kind f else k) 0 fams"

definition metric_for :: "fdef list \<Rightarrow> string \<Rightarrow> metric option" where
  "metric_for fams name = (case map_of known name of
       Some m \<Rightarrow> Some m
     | None \<Rightarrow> if family_kinds fams name \<noteq> 0 then Some (familyMetric name (family_kinds fams name)) else None)"

definition parse_one :: "fdef list \<Rightarrow> string \<times> string list \<Rightarrow> (threshold_error + threshold) list" where
  "parse_one fams = (\<lambda>(name, exprs). case metric_for fams name of
       None \<Rightarrow> [Inl (unknownMetric name)]
     | Some m \<Rightarrow> map (\<lambda>e. case parseExpr name m e of
           Inl err \<Rightarrow> Inl err
         | Inr t \<Rightarrow> Inr (t\<lparr>th_kind := family_kinds fams name\<rparr>)) exprs)"

definition Parse :: "(string \<times> string list) list \<Rightarrow> fdef list \<Rightarrow> threshold_error list + threshold list" where
  "Parse defs fams =
     (let rs = concat (map (parse_one fams) (sort_key fst defs))
      in if lefts rs = [] then Inr (rights rs) else Inl (lefts rs))"

section \<open>Evaluation\<close>

record result =
  re_Threshold :: threshold
  re_Observed :: f64
  re_Unit :: metric_unit
  re_NoData :: bool
  re_Passed :: bool
  re_Approximate :: bool

definition compare :: "f64 \<Rightarrow> string \<Rightarrow> f64 \<Rightarrow> bool" where
  "compare v op limit =
     (if op = ''<'' then f64_lt v limit else if op = ''<='' then f64_le v limit
      else if op = ''>'' then f64_lt limit v else if op = ''>='' then f64_le limit v
      else if op = ''=='' then f64_eq v limit else \<not> f64_eq v limit)"

definition histogramError :: f64 where
  "histogramError = f64_of_rat (78 / 10000)"

definition approximate :: "f64 \<Rightarrow> f64 \<Rightarrow> bool" where
  "approximate v limit \<longleftrightarrow> f64_le (f64_abs (f64_sub v limit)) (f64_mul histogramError (f64_abs limit))"

definition evaluate_one :: "summary \<Rightarrow> duration \<Rightarrow> threshold \<Rightarrow> result" where
  "evaluate_one s elapsed t =
     (let m = threshold_metric t;
          r = \<lparr>re_Threshold = t, re_Observed = Fin 0, re_Unit = mt_unit m (th_agg t),
               re_NoData = False, re_Passed = False, re_Approximate = False\<rparr>
      in case mt_value m (th_agg t) (th_p t) s elapsed of
           None \<Rightarrow> r\<lparr>re_NoData := True\<rparr>
         | Some v \<Rightarrow> r\<lparr>re_Observed := v, re_Passed := compare v (th_op t) (th_limit t),
               re_Approximate := ((th_agg t = ''p'' \<or> th_agg t = ''med'') \<and> approximate v (th_limit t))\<rparr>)"

definition Evaluate :: "threshold list \<Rightarrow> summary \<Rightarrow> duration \<Rightarrow> result list" where
  "Evaluate ts s elapsed = map (evaluate_one s elapsed) ts"

definition Failed :: "result list \<Rightarrow> bool" where
  "Failed rs = list_ex (\<lambda>r. \<not> re_Passed r) rs"

section \<open>The grammar of expressions\<close>

definition space :: "char \<Rightarrow> bool" where
  "space = in_cls [(CHR '' '', CHR '' ''), (char_of (9::nat), char_of (10::nat)),
                   (char_of (12::nat), char_of (13::nat))]"

definition ws :: "string \<Rightarrow> bool" where
  "ws w \<longleftrightarrow> (\<forall>c\<in>set w. space c)"

definition digit :: "char \<Rightarrow> bool" where
  "digit = in_cls [(CHR ''0'', CHR ''9'')]"

definition digits :: "string \<Rightarrow> bool" where
  "digits d \<longleftrightarrow> d \<noteq> [] \<and> (\<forall>c\<in>set d. digit c)"

definition decimal :: "string \<Rightarrow> bool" where
  "decimal n \<longleftrightarrow> digits n \<or> (\<exists>a b. n = a @ ''.'' @ b \<and> digits a \<and> digits b)"

definition signed_decimal :: "string \<Rightarrow> bool" where
  "signed_decimal n \<longleftrightarrow> decimal n \<or> (\<exists>d. n = CHR ''-'' # d \<and> decimal d)"

definition simple_aggs :: "string list" where
  "simple_aggs = [''avg'', ''min'', ''max'', ''med'', ''count'', ''rate'']"

definition ops :: "string list" where
  "ops = [''<='', ''>='', ''=='', ''!='', ''<'', ''>'']"

definition agg_form :: "string \<Rightarrow> string option \<Rightarrow> bool" where
  "agg_form a g \<longleftrightarrow> (a \<in> set simple_aggs \<and> g = None) \<or>
     (\<exists>w n w'. a = ''p('' @ w @ n @ w' @ '')'' \<and> ws w \<and> ws w' \<and> decimal n \<and> g = Some n)"

definition expr_form :: "string \<Rightarrow> string \<Rightarrow> string option \<Rightarrow> string \<Rightarrow> string \<Rightarrow> bool" where
  "expr_form e a g op n \<longleftrightarrow> (\<exists>w1 w2 w3 w4. e = w1 @ a @ w2 @ op @ w3 @ n @ w4 \<and>
     ws w1 \<and> ws w2 \<and> ws w3 \<and> ws w4 \<and> agg_form a g \<and> op \<in> set ops \<and> signed_decimal n)"

lemma lang_rspace: "lang rspace = {w. ws w}"
  unfolding rspace_def lang_star_cls by (simp add: ws_def space_def)

lemma lang_rdigits: "lang rdigits = {d. digits d}"
  unfolding rdigits_def lang_plus_cls by (simp add: digits_def digit_def)

lemma lang_rdecimal: "lang rdecimal = {n. decimal n}"
proof -
  have "lang rdecimal = {u @ v | u v. digits u \<and> (v = [] \<or> (\<exists>b. v = ''.'' @ b \<and> digits b))}"
    unfolding rdecimal_def ropt_def lang.simps lang_rlit lang_rdigits by blast
  also have "\<dots> = {n. decimal n}" unfolding decimal_def by (auto simp: set_eq_iff)
  finally show ?thesis .
qed

lemma no_groups_parts [simp]: "no_groups rspace" "no_groups rdigits" "no_groups rdecimal"
  by (simp_all add: rspace_def rdigits_def rdecimal_def rplus_def ropt_def)

lemma consumes_space: "consumes rspace (\<lambda>u c c'. ws u \<and> c' = c)"
  using consumes_plain [of rspace] by (simp add: lang_rspace)

lemma consumes_lit: "consumes (rlit l) (\<lambda>u c c'. u = l \<and> c' = c)"
  using consumes_plain [of "rlit l"] by simp

lemma consumes_decimal: "consumes (Grp i rdecimal) (\<lambda>u c c'. decimal u \<and> c' = c(i \<mapsto> u))"
proof -
  have "consumes rdecimal (\<lambda>u c c'. decimal u \<and> c' = c)"
    using consumes_plain [of rdecimal] by (simp add: lang_rdecimal)
  from consumes_Grp [OF this] show ?thesis by (rule consumes_cong) blast
qed

lemma consumes_p:
  "consumes (Seq (rlit l) (Seq rspace (Seq (Grp 2 rdecimal) (Seq rspace (rlit r)))))
     (\<lambda>u c c'. \<exists>w n w'. u = l @ w @ n @ w' @ r \<and> ws w \<and> ws w' \<and> decimal n \<and> c' = c(2 \<mapsto> n))"
  by (rule consumes_cong [OF consumes_front [OF consumes_lit consumes_front [OF consumes_space
        consumes_front [OF consumes_decimal consumes_front [OF consumes_space consumes_last [OF consumes_lit]]]]]])
     (simp, blast)

definition agg_caps :: "string \<Rightarrow> string option \<Rightarrow> caps \<Rightarrow> caps" where
  "agg_caps a g c = (case g of None \<Rightarrow> c | Some n \<Rightarrow> c(2 \<mapsto> n))(1 \<mapsto> a)"

lemma consumes_agg: "consumes agg_pattern (\<lambda>u c c'. \<exists>g. agg_form u g \<and> c' = agg_caps u g c)"
proof -
  have alts: "consumes (Alt (rlit l1) (Alt (rlit l2) (Alt (rlit l3) (Alt (rlit l4) (Alt (rlit l5) (Alt (rlit l6) P))))))
      (\<lambda>u c c'. u \<in> set [l1, l2, l3, l4, l5, l6] \<and> c' = c \<or> Q u c c')"
    if "consumes P Q" for P Q l1 l2 l3 l4 l5 l6
    by (rule consumes_cong [OF consumes_Alt [OF consumes_lit consumes_Alt [OF consumes_lit consumes_Alt
        [OF consumes_lit consumes_Alt [OF consumes_lit consumes_Alt [OF consumes_lit consumes_Alt
        [OF consumes_lit that]]]]]]]) auto
  have "consumes agg_pattern (\<lambda>u c c'. \<exists>d. (u \<in> set simple_aggs \<and> d = c \<or>
      (\<exists>w n w'. u = ''p('' @ w @ n @ w' @ '')'' \<and> ws w \<and> ws w' \<and> decimal n \<and> d = c(2 \<mapsto> n))) \<and> c' = d(1 \<mapsto> u))"
    unfolding agg_pattern_def simple_aggs_def by (rule consumes_Grp [OF alts [OF consumes_p]])
  then show ?thesis
  proof (rule consumes_cong)
    fix u c and c' :: caps
    have "(\<exists>d. (u \<in> set simple_aggs \<and> d = c \<or> (\<exists>w n w'. U w n w' \<and> d = c(2 \<mapsto> n))) \<and> c' = d(1 \<mapsto> u)) \<longleftrightarrow>
        (\<exists>g. (u \<in> set simple_aggs \<and> g = None \<or> (\<exists>w n w'. U w n w' \<and> g = Some n)) \<and> c' = agg_caps u g c)" for U
    proof (intro iffI)
      assume "\<exists>d. (u \<in> set simple_aggs \<and> d = c \<or> (\<exists>w n w'. U w n w' \<and> d = c(2 \<mapsto> n))) \<and> c' = d(1 \<mapsto> u)"
      then obtain d where d: "c' = d(1 \<mapsto> u)"
        and "u \<in> set simple_aggs \<and> d = c \<or> (\<exists>w n w'. U w n w' \<and> d = c(2 \<mapsto> n))" by blast
      then show "\<exists>g. (u \<in> set simple_aggs \<and> g = None \<or> (\<exists>w n w'. U w n w' \<and> g = Some n)) \<and> c' = agg_caps u g c"
      proof (elim disjE exE)
        assume "u \<in> set simple_aggs \<and> d = c"
        then show ?thesis using d by (intro exI [of _ None]) (simp add: agg_caps_def)
      next
        fix w n w' assume "U w n w' \<and> d = c(2 \<mapsto> n)"
        then show ?thesis using d by (intro exI [of _ "Some n"]) (auto simp: agg_caps_def)
      qed
    next
      assume "\<exists>g. (u \<in> set simple_aggs \<and> g = None \<or> (\<exists>w n w'. U w n w' \<and> g = Some n)) \<and> c' = agg_caps u g c"
      then show "\<exists>d. (u \<in> set simple_aggs \<and> d = c \<or> (\<exists>w n w'. U w n w' \<and> d = c(2 \<mapsto> n))) \<and> c' = d(1 \<mapsto> u)"
      proof (elim exE conjE disjE)
        fix g assume "c' = agg_caps u g c" "u \<in> set simple_aggs" "g = None"
        then show ?thesis by (intro exI [of _ c]) (simp add: agg_caps_def)
      next
        fix g w n w' assume "c' = agg_caps u g c" "U w n w'" "g = Some n"
        then show ?thesis by (intro exI [of _ "c(2 \<mapsto> n)"]) (auto simp: agg_caps_def)
      qed
    qed
    note gen = this
    show "(\<exists>d. (u \<in> set simple_aggs \<and> d = c \<or>
        (\<exists>w n w'. u = ''p('' @ w @ n @ w' @ '')'' \<and> ws w \<and> ws w' \<and> decimal n \<and> d = c(2 \<mapsto> n))) \<and> c' = d(1 \<mapsto> u)) \<longleftrightarrow>
      (\<exists>g. agg_form u g \<and> c' = agg_caps u g c)"
      unfolding agg_form_def conj_assoc [symmetric] by (rule gen)
  qed
qed

lemma consumes_op: "consumes op_pattern (\<lambda>u c c'. u \<in> set ops \<and> c' = c(3 \<mapsto> u))"
proof -
  have alts: "consumes (Alt (rlit l1) (Alt (rlit l2) (Alt (rlit l3) (Alt (rlit l4) (Alt (rlit l5) (rlit l6))))))
      (\<lambda>u c c'. u \<in> set [l1, l2, l3, l4, l5, l6] \<and> c' = c)" for l1 l2 l3 l4 l5 l6
    by (rule consumes_cong [OF consumes_plain]) auto
  show ?thesis unfolding op_pattern_def ops_def
    by (rule consumes_cong [OF consumes_Grp [OF alts]]) simp
qed

lemma consumes_num:
  "consumes (Grp 4 (Seq (ropt (rlit ''-'')) rdecimal)) (\<lambda>u c c'. signed_decimal u \<and> c' = c(4 \<mapsto> u))"
proof -
  have "lang (Seq (ropt (rlit ''-'')) rdecimal) = {u @ v | u v. (u = [] \<or> u = ''-'') \<and> decimal v}"
    unfolding ropt_def lang.simps lang_rlit lang_rdecimal by blast
  also have "\<dots> = {n. signed_decimal n}" unfolding signed_decimal_def by (auto intro: exI [of _ "''-''"])
  finally show ?thesis
    using consumes_Grp [OF consumes_plain, of "Seq (ropt (rlit ''-'')) rdecimal" 4] by (simp add: ropt_def)
qed

definition form_groups :: "string \<Rightarrow> string option \<Rightarrow> string \<Rightarrow> string \<Rightarrow> caps" where
  "form_groups a g op n = (agg_caps a g Map.empty)(3 \<mapsto> op, 4 \<mapsto> n)"

lemma rmatch_expr:
  "([], c) \<in> set (rmatch exprPattern (e, Map.empty)) \<longleftrightarrow>
     (\<exists>a g op n. expr_form e a g op n \<and> c = form_groups a g op n)"
proof -
  note seq = consumes_front [OF consumes_space consumes_front [OF consumes_agg consumes_front [OF consumes_space
    consumes_front [OF consumes_op consumes_front [OF consumes_space consumes_front [OF consumes_num
      consumes_last [OF consumes_space]]]]]]]
  show ?thesis unfolding exprPattern_def consumes_all [OF seq] expr_form_def form_groups_def
    by (simp, blast)
qed

text \<open>An expression has the form in at most one way.\<close>

definition op_char :: "char \<Rightarrow> bool" where
  "op_char c \<longleftrightarrow> c \<in> set ''<>=!''"

definition num_char :: "char \<Rightarrow> bool" where
  "num_char c \<longleftrightarrow> digit c \<or> c = CHR ''-'' \<or> c = CHR ''.''"

lemma digits_chars: "digits d \<Longrightarrow> d \<noteq> [] \<and> (\<forall>c\<in>set d. num_char c) \<and> num_char (hd d)"
  by (auto simp: digits_def num_char_def)

lemma signed_decimal_chars: "signed_decimal n \<Longrightarrow> n \<noteq> [] \<and> (\<forall>c\<in>set n. num_char c)"
  unfolding signed_decimal_def decimal_def by (auto dest!: digits_chars simp: num_char_def)

lemma decimal_signed: "decimal n \<Longrightarrow> signed_decimal n"
  by (simp add: signed_decimal_def)

definition agg_char :: "char \<Rightarrow> bool" where
  "agg_char c \<longleftrightarrow> c \<in> set ''avgminxedcoutr''"

lemma digit_bytes: "digit c \<longleftrightarrow> 48 \<le> byte c \<and> byte c \<le> 57"
  by (simp add: digit_def in_cls_def in_range_def byte_def)

lemma space_bytes: "space c \<longleftrightarrow> byte c \<in> {9, 10, 12, 13, 32}"
  by (auto simp: space_def in_cls_def in_range_def byte_def)

lemma char_byte_neq: "byte c \<noteq> byte d \<Longrightarrow> c \<noteq> d"
  by auto

lemma space_not: "space c \<Longrightarrow> \<not> num_char c \<and> \<not> op_char c \<and> \<not> agg_char c \<and> c \<noteq> CHR '')'' \<and> c \<noteq> CHR ''p''"
  by (auto simp: space_bytes num_char_def op_char_def agg_char_def digit_bytes byte_def)

lemma op_not: "op_char c \<Longrightarrow> \<not> num_char c \<and> \<not> space c \<and> \<not> agg_char c"
  by (auto simp: space_bytes num_char_def op_char_def agg_char_def digit_bytes byte_def)

lemma num_not: "num_char c \<Longrightarrow> \<not> op_char c \<and> \<not> space c"
  using op_not space_not by blast

lemma paren_not: "\<not> num_char CHR '')'' \<and> \<not> space CHR '')''"
  by (simp add: space_bytes num_char_def digit_bytes byte_def)

lemma ops_chars: "op \<in> set ops \<Longrightarrow> op \<noteq> [] \<and> (\<forall>c\<in>set op. op_char c)"
  by (auto simp: ops_def op_char_def)

lemma simple_chars: "a \<in> set simple_aggs \<Longrightarrow> a \<noteq> [] \<and> (\<forall>c\<in>set a. agg_char c)"
  by (auto simp: simple_aggs_def agg_char_def)

lemma agg_not_space: "agg_char c \<or> c = CHR ''p'' \<Longrightarrow> \<not> space c"
  by (auto simp: space_bytes agg_char_def byte_def)

lemma hd_append_ws: "ws w \<Longrightarrow> w @ x \<noteq> [] \<Longrightarrow> space (hd (w @ x)) \<or> (w = [] \<and> x \<noteq> [])"
  by (cases w) (auto simp: ws_def)

lemma ws_span:
  "w @ x = w' @ x' \<Longrightarrow> ws w \<Longrightarrow> ws w' \<Longrightarrow> (x \<noteq> [] \<Longrightarrow> \<not> space (hd x)) \<Longrightarrow> (x' \<noteq> [] \<Longrightarrow> \<not> space (hd x')) \<Longrightarrow>
     w = w' \<and> x = x'"
  by (rule span_unique [of w x w' x' space]) (simp_all add: ws_def)

lemma agg_unique:
  assumes "agg_form a g" "agg_form a' g'" "a @ r = a' @ r'"
    and stop: "r \<noteq> [] \<Longrightarrow> \<not> agg_char (hd r)" "r' \<noteq> [] \<Longrightarrow> \<not> agg_char (hd r')"
  shows "a = a' \<and> g = g' \<and> r = r'"
proof -
  have notp: "\<not> agg_char CHR ''p''" by (simp add: agg_char_def)
  have mixed: False if "b \<in> set simple_aggs" "b @ q = ''p('' @ t" for b q t
    using simple_chars [OF that(1)] that(2) notp by (cases b) auto
  consider (simple) "a \<in> set simple_aggs" "g = None" "a' \<in> set simple_aggs" "g' = None"
    | (p) w n w' v m v' where "a = ''p('' @ w @ n @ w' @ '')''" "ws w" "ws w'" "decimal n" "g = Some n"
        "a' = ''p('' @ v @ m @ v' @ '')''" "ws v" "ws v'" "decimal m" "g' = Some m"
    using assms(1-3) mixed [of a r] mixed [of a' r'] unfolding agg_form_def by (metis append_assoc)
  then show ?thesis
  proof cases
    case simple
    have "a = a' \<and> r = r'"
      by (rule span_unique [OF assms(3), of agg_char]) (use simple simple_chars stop in auto)
    then show ?thesis using simple by simp
  next
    case p
    have nm: "n \<noteq> [] \<and> (\<forall>c\<in>set n. num_char c)" "m \<noteq> [] \<and> (\<forall>c\<in>set m. num_char c)"
      using p signed_decimal_chars decimal_signed by blast+
    have "w @ (n @ w' @ '')'' @ r) = v @ (m @ v' @ '')'' @ r')" using assms(3) p by simp
    then have 1: "w = v \<and> n @ w' @ '')'' @ r = m @ v' @ '')'' @ r'"
      by (rule ws_span) (use p nm num_not in \<open>auto simp: hd_append\<close>)
    have "n = m \<and> w' @ '')'' @ r = v' @ '')'' @ r'"
      by (rule span_unique [OF conjunct2 [OF 1], of num_char])
         (use p nm space_not paren_not in \<open>auto simp: hd_append ws_def\<close>)
    then have 2: "n = m" "w' @ ('')'' @ r) = v' @ ('')'' @ r')" by simp_all
    have "w' = v' \<and> '')'' @ r = '')'' @ r'"
      by (rule ws_span [OF 2(2)]) (use p paren_not in auto)
    then show ?thesis using p 1 2 by simp
  qed
qed

lemma agg_first: "agg_form a g \<Longrightarrow> a \<noteq> [] \<and> \<not> space (hd a)"
proof -
  assume "agg_form a g"
  then consider "a \<in> set simple_aggs" | x where "a = CHR ''p'' # x" unfolding agg_form_def by auto
  then show ?thesis
  proof cases
    case 1
    then have "a \<noteq> [] \<and> agg_char (hd a)" using simple_chars [of a] hd_in_set by blast
    then show ?thesis using agg_not_space by blast
  next
    case 2
    then show ?thesis using agg_not_space by simp
  qed
qed

lemma expr_form_unique:
  assumes "expr_form e a g op n" "expr_form e a' g' op' n'"
  shows "a = a' \<and> g = g' \<and> op = op' \<and> n = n'"
proof -
  obtain w1 w2 w3 w4 where e: "e = w1 @ a @ w2 @ op @ w3 @ n @ w4" "ws w1" "ws w2" "ws w3" "ws w4"
    "agg_form a g" "op \<in> set ops" "signed_decimal n" using assms(1) unfolding expr_form_def by blast
  obtain v1 v2 v3 v4 where e': "e = v1 @ a' @ v2 @ op' @ v3 @ n' @ v4" "ws v1" "ws v2" "ws v3" "ws v4"
    "agg_form a' g'" "op' \<in> set ops" "signed_decimal n'" using assms(2) unfolding expr_form_def by blast
  note chars = ops_chars [OF e(7)] ops_chars [OF e'(7)] signed_decimal_chars [OF e(8)] signed_decimal_chars [OF e'(8)]
  have hop: "\<not> agg_char (hd (w @ o' @ x)) \<and> \<not> num_char (hd (w @ o' @ x))"
    if "ws w" "o' \<noteq> [] \<and> (\<forall>c\<in>set o'. op_char c)" for w o' x
    using that op_not space_not by (cases w; cases o') (auto simp: ws_def)
  have hnum: "\<not> op_char (hd (w @ m @ x))" if "ws w" "m \<noteq> [] \<and> (\<forall>c\<in>set m. num_char c)" for w m x
    using that num_not space_not by (cases w; cases m) (auto simp: ws_def)
  have "w1 @ (a @ w2 @ op @ w3 @ n @ w4) = v1 @ (a' @ v2 @ op' @ v3 @ n' @ v4)" using e(1) e'(1) by simp
  then have "w1 = v1 \<and> a @ w2 @ op @ w3 @ n @ w4 = a' @ v2 @ op' @ v3 @ n' @ v4"
    by (rule ws_span) (use e e' agg_first in \<open>auto simp: hd_append\<close>)
  then have 1: "a @ (w2 @ op @ w3 @ n @ w4) = a' @ (v2 @ op' @ v3 @ n' @ v4)" by simp
  have 2: "a = a' \<and> g = g' \<and> w2 @ op @ w3 @ n @ w4 = v2 @ op' @ v3 @ n' @ v4"
    by (rule agg_unique [OF e(6) e'(6) 1]) (use hop e e' chars in blast)+
  then have 3: "w2 @ (op @ w3 @ n @ w4) = v2 @ (op' @ v3 @ n' @ v4)" by simp
  have 4: "w2 = v2 \<and> op @ w3 @ n @ w4 = op' @ v3 @ n' @ v4"
    by (rule ws_span [OF 3]) (use e e' chars op_not in \<open>auto simp: hd_append\<close>)
  then have 5: "op @ (w3 @ n @ w4) = op' @ (v3 @ n' @ v4)" by simp
  have 6: "op = op' \<and> w3 @ n @ w4 = v3 @ n' @ v4"
    by (rule span_unique [OF 5, of op_char]) (use hnum e e' chars in blast)+
  then have 7: "w3 @ (n @ w4) = v3 @ (n' @ v4)" by simp
  have 8: "w3 = v3 \<and> n @ w4 = n' @ v4"
    by (rule ws_span [OF 7]) (use e e' chars num_not in \<open>auto simp: hd_append\<close>)
  then have 9: "n @ w4 = n' @ v4" by simp
  have "n = n' \<and> w4 = v4"
    by (rule span_unique [OF 9, of num_char]) (use e e' chars space_not in \<open>auto simp: ws_def\<close>)
  then show ?thesis using 2 6 by simp
qed

section \<open>Properties\<close>

text \<open>What \<open>parseExpr\<close> returns for an expression of the grammar.\<close>

definition parsed :: "string \<Rightarrow> metric \<Rightarrow> string \<Rightarrow> string \<Rightarrow> string option \<Rightarrow> string \<Rightarrow> string \<Rightarrow> threshold_error + threshold" where
  "parsed name m e a g op n =
     (let agg = (if g = None then a else ''p'');
          p = (case g of None \<Rightarrow> Fin 0 | Some k \<Rightarrow> ParseFloat k)
      in if g \<noteq> None \<and> (f64_le p (Fin 0) \<or> f64_lt (Fin 100) p) then Inl (BadPercentile name e (the g))
         else if agg \<notin> set (mt_aggregates m) then Inl (BadAggregate name e agg (mt_aggregates m))
         else Inr \<lparr>th_Metric = name, th_Expr = e, th_agg = agg, th_p = p, th_op = op,
                   th_limit = ParseFloat n, th_kind = 0\<rparr>)"

lemma parseExpr_form:
  assumes "expr_form e a g op n"
  shows "parseExpr name m e = parsed name m e a g op n"
proof -
  have ne: "FindStringSubmatch exprPattern e \<noteq> None"
    using assms by (auto simp: FindStringSubmatch_None rmatch_expr)
  then obtain c where c: "FindStringSubmatch exprPattern e = Some c" by blast
  from FindStringSubmatch_Some [OF this] obtain a' g' op' n'
    where "expr_form e a' g' op' n'" "c = form_groups a' g' op' n'" by (auto simp: rmatch_expr)
  with expr_form_unique [OF assms] have cg: "c = form_groups a g op n" by blast
  have af: "agg_form a g" using assms by (auto simp: expr_form_def)
  have isp: "has_prefix a ''p('' \<longleftrightarrow> g \<noteq> None"
  proof (cases "a \<in> set simple_aggs")
    case True
    have "\<not> agg_char CHR ''p''" by (simp add: agg_char_def)
    then have np: "\<nexists>t. a = CHR ''p'' # t" using simple_chars [OF True] by auto
    then have "g = None" using af unfolding agg_form_def by auto
    moreover have "\<not> has_prefix a ''p(''" using np unfolding has_prefix_iff by auto
    ultimately show ?thesis by simp
  next
    case False
    then show ?thesis using af unfolding agg_form_def has_prefix_iff by fastforce
  qed
  have grp: "group c 1 = a" "group c 2 = (case g of None \<Rightarrow> [] | Some k \<Rightarrow> k)" "group c 3 = op" "group c 4 = n"
    by (simp_all add: cg group_def form_groups_def agg_caps_def split: option.split)
  show ?thesis unfolding parseExpr_def parsed_def c grp isp option.case Let_def
    by (cases g) simp_all
qed

lemma parseExpr_malformed: "\<nexists>a g op n. expr_form e a g op n \<Longrightarrow> parseExpr name m e = Inl (BadExpr name e)"
  using FindStringSubmatch_None [of exprPattern e] by (auto simp: parseExpr_def rmatch_expr)

text \<open>C6: The grammar of threshold expressions. \<open>parseExpr\<close> accepts exactly: an aggregate (avg, min,
  max, med, count, rate or p(N) with a decimal N), an operator and a decimal with optional sign,
  with white space allowed around each and inside the parentheses. For such an expression its
  parts are unique and it returns them, the numbers as the nearest binary64, unless the percentile
  is not in (0, 100] or the metric lacks the aggregate, which are reported as such; every other
  text is rejected as malformed.\<close>

theorem parseExpr_grammar:
  "(\<forall>a g op n. expr_form e a g op n \<longrightarrow> parseExpr name m e = parsed name m e a g op n) \<and>
   ((\<nexists>a g op n. expr_form e a g op n) \<longrightarrow> parseExpr name m e = Inl (BadExpr name e))"
  using parseExpr_form parseExpr_malformed by blast

lemma expr_formI:
  "ws w1 \<Longrightarrow> ws w2 \<Longrightarrow> ws w3 \<Longrightarrow> ws w4 \<Longrightarrow> agg_form a g \<Longrightarrow> op \<in> set ops \<Longrightarrow> signed_decimal n \<Longrightarrow>
     expr_form (w1 @ a @ w2 @ op @ w3 @ n @ w4) a g op n"
  unfolding expr_form_def by blast

theorem parseExpr_grammar_witness:
  "\<exists>t. parseExpr ''http_reqs'' (counter_metric s_Requests) '' count  <= 5'' = Inr t \<and>
       th_agg t = ''count'' \<and> th_op t = ''<=''"
proof -
  have "ws '' '' \<and> ws ''  '' \<and> ws []" by (simp add: ws_def space_bytes byte_def)
  moreover have "signed_decimal ''5''" by (simp add: signed_decimal_def decimal_def digits_def digit_bytes byte_def)
  moreover have "agg_form ''count'' None" by (simp add: agg_form_def simple_aggs_def)
  ultimately have "expr_form '' count  <= 5'' ''count'' None ''<='' ''5''"
    using expr_formI [of "'' ''" "''  ''" "'' ''" "[]" "''count''" None "''<=''" "''5''"] by (simp add: ops_def)
  from conjunct1 [OF parseExpr_grammar, rule_format, OF this, of "''http_reqs''" "counter_metric s_Requests"]
  show ?thesis by (simp add: parsed_def counter_metric_def)
qed

text \<open>What \<open>Parse\<close> guarantees of the thresholds it returns.\<close>

definition threshold_wf :: "threshold \<Rightarrow> bool" where
  "threshold_wf t \<longleftrightarrow> th_agg t \<in> set (mt_aggregates (threshold_metric t)) \<and> th_op t \<in> set ops \<and>
     th_limit t \<noteq> NaN \<and> (th_agg t = ''p'' \<longrightarrow> f64_lt (Fin 0) (th_p t) \<and> f64_le (th_p t) (Fin 100))"

lemma f64_of_rat_not_NaN [simp]: "f64_of_rat x \<noteq> NaN"
  by (simp add: f64_of_rat_def Let_def)

lemma ParseFloat_not_NaN [simp]: "ParseFloat s \<noteq> NaN"
  by (cases s) (simp_all add: ParseFloat_def)

lemma not_le_zero: "x \<noteq> NaN \<Longrightarrow> \<not> (f64_le x (Fin 0) \<or> f64_lt (Fin 100) x) \<Longrightarrow>
    f64_lt (Fin 0) x \<and> f64_le x (Fin 100)"
  using f64_lt_trichotomy [of x "Fin 0"] f64_lt_trichotomy [of x "Fin 100"]
  by (cases x) (auto simp: f64_le_def f64_eq_def)

lemma parseExpr_wf:
  assumes "parseExpr name m e = Inr t"
  shows "th_Metric t = name \<and> th_Expr t = e \<and> th_agg t \<in> set (mt_aggregates m) \<and> th_op t \<in> set ops \<and>
    th_limit t \<noteq> NaN \<and> th_kind t = 0 \<and>
    (th_agg t = ''p'' \<longrightarrow> f64_lt (Fin 0) (th_p t) \<and> f64_le (th_p t) (Fin 100))"
proof -
  obtain a g op n where f: "expr_form e a g op n"
    using assms parseExpr_malformed [of e name m] by force
  then have pr: "parsed name m e a g op n = Inr t" and op: "op \<in> set ops"
    using parseExpr_form [OF f, of name m] assms by (simp_all add: expr_form_def) blast
  have np: "g = None \<Longrightarrow> a \<noteq> ''p''" using f by (auto simp: expr_form_def agg_form_def simple_aggs_def)
  show ?thesis
  proof (cases g)
    case None
    then show ?thesis using pr op np by (auto simp: parsed_def Let_def split: if_splits)
  next
    case (Some k)
    then show ?thesis using pr op not_le_zero [OF ParseFloat_not_NaN, of k]
      by (auto simp: parsed_def Let_def split: if_splits)
  qed
qed

lemma known_reserved: "map_of known name = Some m \<Longrightarrow> name \<in> set reservedNames"
  by (auto simp: known_def reservedNames_def split: if_splits)

lemma family_kinds_from:
  "foldl (\<lambda>k f. if d_Name f = name then d_Kind f else k) k0 fams = k0 \<or>
   (\<exists>f\<in>set fams. d_Name f = name \<and> d_Kind f = foldl (\<lambda>k f. if d_Name f = name then d_Kind f else k) k0 fams)"
proof (induction fams arbitrary: k0)
  case Nil
  then show ?case by simp
next
  case (Cons f fams)
  from Cons.IH [of "if d_Name f = name then d_Kind f else k0"] show ?case
    by (cases "d_Name f = name") (simp_all, metis)
qed

lemma lefts_Nil: "lefts xs = [] \<longleftrightarrow> (\<forall>x\<in>set xs. \<exists>b. x = Inr b)"
  by (induction xs) (auto simp: lefts_def split: sum.splits)

lemma rights_Inr: "rights (map Inr ts) = ts"
  by (induction ts) (simp_all add: rights_def)

lemma all_Inr: "lefts xs = [] \<Longrightarrow> xs = map Inr (rights xs)"
  by (induction xs) (auto simp: lefts_def rights_def split: sum.splits)

lemma rights_append: "rights (xs @ ys) = rights xs @ rights ys"
  by (simp add: rights_def)

lemma lefts_append: "lefts (xs @ ys) = lefts xs @ lefts ys"
  by (simp add: lefts_def)

lemma parse_one_wf:
  assumes fams: "\<forall>f\<in>set fams. valid_def f" and ok: "lefts (parse_one fams (name, exprs)) = []"
  shows "map (\<lambda>t. (th_Metric t, th_Expr t)) (rights (parse_one fams (name, exprs))) = map (Pair name) exprs \<and>
         (\<forall>t\<in>set (rights (parse_one fams (name, exprs))). threshold_wf t)"
proof (cases "metric_for fams name")
  case None
  then show ?thesis using ok by (simp add: parse_one_def lefts_def)
next
  case (Some m)
  let ?k = "family_kinds fams name"
  have k: "?k = 0 \<or> (\<exists>f\<in>set fams. d_Name f = name \<and> d_Kind f = ?k)"
    using family_kinds_from [of name 0 fams] by (simp only: family_kinds_def)
  have mt: "threshold_metric (t\<lparr>th_kind := ?k\<rparr>) = m" if "th_Metric t = name" for t
  proof (cases "map_of known name")
    case None
    then show ?thesis using Some that by (auto simp: metric_for_def threshold_metric_def split: if_splits)
  next
    case kn: (Some m')
    then have "name \<in> set reservedNames" by (rule known_reserved)
    then have "?k = 0" using k fams by (auto simp: valid_def_def)
    then show ?thesis using Some kn that by (simp add: metric_for_def threshold_metric_def)
  qed
  show ?thesis using ok
  proof (induction exprs)
    case Nil
    then show ?case by (simp add: parse_one_def Some rights_def)
  next
    case (Cons e exprs)
    obtain t where t: "parseExpr name m e = Inr t"
      using Cons.prems by (cases "parseExpr name m e") (simp_all add: parse_one_def Some lefts_def)
    have "lefts (parse_one fams (name, exprs)) = []" using Cons.prems t by (simp add: parse_one_def Some lefts_def)
    from Cons.IH [OF this] show ?case
      using parseExpr_wf [OF t] mt [of t] t
      by (simp add: parse_one_def Some rights_def threshold_wf_def)
  qed
qed

lemma parse_list_wf:
  assumes "\<forall>f\<in>set fams. valid_def f" and "lefts (concat (map (parse_one fams) defs)) = []"
  shows "map (\<lambda>t. (th_Metric t, th_Expr t)) (rights (concat (map (parse_one fams) defs))) =
           concat (map (\<lambda>(name, exprs). map (Pair name) exprs) defs) \<and>
         (\<forall>t\<in>set (rights (concat (map (parse_one fams) defs))). threshold_wf t)"
  using assms(2)
proof (induction defs)
  case Nil
  then show ?case by (simp add: rights_def)
next
  case (Cons d defs)
  obtain name exprs where d: "d = (name, exprs)" by (cases d)
  then show ?case using Cons parse_one_wf [OF assms(1), of name exprs]
    by (auto simp: lefts_append rights_append)
qed

text \<open>C7: What \<open>Parse\<close> returns. With the families of a run, a successful \<open>Parse\<close> returns one
  threshold per expression, ordered by metric name and then as the script wrote them; each is
  evaluated later against a metric that supports its aggregate (never the empty metric of an
  unknown name, and never a family's metric for a built-in name), with one of the six operators, a
  limit that is a number and, for p(N), an N in (0, 100].\<close>

theorem Parse_wf:
  assumes "NewFamilies fams = Inr f" and "Parse defs fams = Inr ts"
  shows "map (\<lambda>t. (th_Metric t, th_Expr t)) ts =
           concat (map (\<lambda>(name, exprs). map (Pair name) exprs) (sort_key fst defs)) \<and>
         (\<forall>t\<in>set ts. threshold_wf t)"
proof -
  have v: "\<forall>f\<in>set fams. valid_def f" using assms(1) NewFamilies_iff [of fams] by blast
  let ?rs = "concat (map (parse_one fams) (sort_key fst defs))"
  have "lefts ?rs = []" "ts = rights ?rs"
    using assms(2) by (auto simp: Parse_def Let_def split: if_splits)
  then show ?thesis using parse_list_wf [OF v] by blast
qed

theorem Parse_wf_witness:
  "\<exists>ts. Parse [(''http_reqs'', [''count>5''])] [] = Inr ts \<and>
        map (\<lambda>t. (th_Metric t, th_Expr t)) ts = [(''http_reqs'', ''count>5'')]"
proof -
  have "ws []" by (simp add: ws_def)
  moreover have "signed_decimal ''5''" by (simp add: signed_decimal_def decimal_def digits_def digit_bytes byte_def)
  moreover have "agg_form ''count'' None" by (simp add: agg_form_def simple_aggs_def)
  ultimately have "expr_form ''count>5'' ''count'' None ''>'' ''5''"
    using expr_formI [of "[]" "[]" "[]" "[]" "''count''" None "''>''" "''5''"] by (simp add: ops_def)
  then have "\<exists>ts. Parse [(''http_reqs'', [''count>5''])] [] = Inr ts"
    by (simp add: Parse_def parse_one_def metric_for_def known_def parseExpr_form parsed_def
        counter_metric_def lefts_def)
  then obtain ts where ts: "Parse [(''http_reqs'', [''count>5''])] [] = Inr ts" by blast
  have "NewFamilies [] = Inr no_families" by (simp add: NewFamilies_def)
  from Parse_wf [OF this ts] ts show ?thesis by simp
qed

end
