(* ===== verification/Threshold_Verdict.thy ===== *)
theory Threshold_Verdict
  imports Thresholds
begin

text \<open>
  What the verdicts of \<open>Evaluate\<close> (\<open>internal/thresholds/thresholds.go\<close>) mean: the values the
  built-in metrics take on a run, and how far a percentile verdict can be trusted given that the
  percentile itself is only known within 1/128.
\<close>

section \<open>Values on a run\<close>

fun any_check :: "bool \<Rightarrow> event \<Rightarrow> bool" where
  "any_check b (EvCheck _ passed _) = (passed = b)"
| "any_check b _ = False"

lemma check_table_sums:
  "sum_list (map (fst \<circ> snd) (check_table es)) = count_ev (any_check True) es \<and>
   sum_list (map (snd \<circ> snd) (check_table es)) = count_ev (any_check False) es \<and> distinct (first_runs es)"
proof (induction es rule: rev_induct)
  case Nil
  then show ?case by (simp add: check_table_def)
next
  case (snoc x es)
  let ?N = "first_runs es"
  have c: "sum_list (map (\<lambda>n. count_ev (is_check n b) es) ?N) = count_ev (any_check b) es" for b
    using snoc by (cases b) (simp_all add: check_table_def comp_def)
  show ?case
  proof (cases "snd x")
    case (EvCheck n p m)
    have one: "sum_list (map (\<lambda>k. count_ev (is_check k b) es + (if n = k \<and> p = b then 1 else 0)) ns) =
        sum_list (map (\<lambda>k. count_ev (is_check k b) es) ns) + (if n \<in> set ns \<and> p = b then 1 else 0)"
      if "distinct ns" for ns b using that by (induction ns) auto
    show ?thesis
    proof (cases "n \<in> set ?N")
      case True
      then show ?thesis using EvCheck snoc one [of ?N True] one [of ?N False] c [of True] c [of False]
        by (cases p) (simp_all add: check_table_def comp_def)
    next
      case False
      then show ?thesis using EvCheck snoc one [of ?N True] one [of ?N False] c [of True] c [of False]
          not_run_count [OF False]
        by (cases p) (simp_all add: check_table_def comp_def)
    qed
  qed (use snoc in \<open>simp_all add: check_table_def comp_def\<close>)
qed

lemma checks_value_run:
  assumes "map check_counts (s_Checks s) = check_table es"
  shows "checks_value agg p s elapsed =
    (let passes = count_ev (any_check True) es; total = passes + count_ev (any_check False) es
     in if total = 0 then None else Some (f64_div (f64_of_int passes) (f64_of_int total)))"
proof -
  have "map cr_Passes (s_Checks s) = map (fst \<circ> snd) (map check_counts (s_Checks s))"
    "map cr_Fails (s_Checks s) = map (snd \<circ> snd) (map check_counts (s_Checks s))"
    by (simp_all add: check_counts_def)
  then have "sum_list (map cr_Passes (s_Checks s)) = count_ev (any_check True) es"
    "sum_list (map cr_Fails (s_Checks s)) = count_ev (any_check False) es"
    using check_table_sums [of es] unfolding assms by simp_all
  then show ?thesis by (simp add: checks_value_def sum_list_addf Let_def)
qed

definition value_of :: "string \<Rightarrow> string \<Rightarrow> f64 \<Rightarrow> summary \<Rightarrow> duration \<Rightarrow> f64 option" where
  "value_of name agg p s elapsed = (case map_of known name of
       None \<Rightarrow> None | Some m \<Rightarrow> mt_value m agg p s elapsed)"

lemma quotient_rounded:
  assumes "0 \<le> a" "a \<le> b" "0 < b" "b \<le> 2 ^ 53"
  shows "f64_div (f64_of_int a) (f64_of_int b) = Fin (f64_round (of_int a / of_int b))"
  using error_rate_bounds [OF assms(1,2,4)] assms(3) by (auto simp: error_rate_def)



section \<open>How far a percentile verdict can be trusted\<close>

lemma round_near: "\<bar>f64_round x - x\<bar> \<le> \<bar>x\<bar> / 2 ^ 53 + 1 / 10 ^ 30"
  by (rule f64_step_error) simp

lemma to_ms_near:
  assumes "0 \<le> d" "d \<le> 4000000000000"
  shows "\<exists>r. to_ms d = Fin r \<and> \<bar>r - of_int d / 1000000\<bar> \<le> 1 / 10 ^ 9"
proof -
  let ?D = "of_int d / 1000000 :: rat"
  have D: "0 \<le> ?D" "?D \<le> 4000000" using assms by simp_all
  have "to_ms d = f64_of_rat ?D"
    using assms by (simp add: to_ms_def millisecond_def f64_of_int_exact)
  also have "\<dots> = Fin (f64_round ?D)" using D by (intro f64_bounded_Fin) simp
  finally have "to_ms d = Fin (f64_round ?D)" .
  moreover have "\<bar>?D\<bar> / 2 ^ 53 + 1 / 10 ^ 30 \<le> 1 / 10 ^ 9" using D by simp
  then have "\<bar>f64_round ?D - ?D\<bar> \<le> 1 / 10 ^ 9" using round_near [of ?D] order_trans by blast
  ultimately show ?thesis by blast
qed

lemma not_approximate_far:
  assumes r: "0 \<le> r" "r \<le> 5000000" and L: "1 / 1000 \<le> L" "L \<le> 10 ^ 9"
    and na: "\<not> approximate (Fin r) (Fin L)"
  shows "77999 / 10000000 * L \<le> \<bar>r - L\<bar>"
proof -
  define h where "h = f64_round (78 / 10000)"
  have h: "77999999 / 10 ^ 10 \<le> h" "h \<le> 1" using round_near [of "78 / 10000"] unfolding h_def abs_le_iff by (simp_all add: field_simps)
  have hf: "histogramError = Fin h" unfolding histogramError_def h_def by (intro f64_bounded_Fin) simp
  define q where "q = f64_round (r - L)"
  have rl: "\<bar>r - L\<bar> \<le> 10 ^ 9" using r L by simp
  have qf: "f64_sub (Fin r) (Fin L) = Fin q"
    unfolding q_def f64_sub_def using rl by (simp add: f64_bounded_Fin)
  define y where "y = h * L"
  have y: "77999999 / 10 ^ 10 * L \<le> y" "y \<le> 1 * L"
    unfolding y_def using h(1,2) L(1) by (intro mult_right_mono; simp)+
  have y0: "0 \<le> y" using y(1) L(1) by simp
  define m where "m = f64_round y"
  have "\<bar>y\<bar> \<le> 10 ^ 30" using y(2) y0 L(2) by simp
  then have "f64_of_rat y = Fin m" unfolding m_def by (rule f64_bounded_Fin)
  then have mf: "f64_mul (Fin h) (f64_abs (Fin L)) = Fin m" using L by (simp add: y_def)
  have "m < \<bar>q\<bar>" using na unfolding approximate_def qf hf mf by simp
  moreover have "y - (y / 2 ^ 53 + 1 / 10 ^ 30) \<le> m"
    using round_near [of y, folded m_def, unfolded abs_of_nonneg [OF y0]] by linarith
  moreover have "\<bar>q\<bar> \<le> \<bar>r - L\<bar> + (\<bar>r - L\<bar> / 2 ^ 53 + 1 / 10 ^ 30)" using round_near [of "r - L"] unfolding q_def by linarith
  moreover have "77999 / 10000000 * L + L / 10 ^ 9 \<le> y - (y / 2 ^ 53 + 1 / 10 ^ 30)"
    using y L by simp
  ultimately have "77999 / 10000000 * L + L / 10 ^ 9 \<le> \<bar>r - L\<bar> + (\<bar>r - L\<bar> / 2 ^ 53 + 1 / 10 ^ 30)" by linarith
  then show ?thesis using L rl by simp
qed

lemma far_not_approximate:
  assumes r: "0 \<le> r" "r \<le> 5000000" and L: "1 / 1000 \<le> L" "L \<le> 10 ^ 9"
    and far: "78001 / 10000000 * L + 1 / 10 ^ 8 \<le> \<bar>r - L\<bar>"
  shows "\<not> approximate (Fin r) (Fin L)"
proof -
  define h where "h = f64_round (78 / 10000)"
  have h: "0 \<le> h" "h \<le> 78000001 / 10 ^ 10" using round_near [of "78 / 10000"] unfolding h_def abs_le_iff by (simp_all add: field_simps)
  have hf: "histogramError = Fin h" unfolding histogramError_def h_def by (intro f64_bounded_Fin) simp
  define q where "q = f64_round (r - L)"
  have rl: "\<bar>r - L\<bar> \<le> 10 ^ 9" using r L by simp
  have qf: "f64_sub (Fin r) (Fin L) = Fin q"
    unfolding q_def f64_sub_def using rl by (simp add: f64_bounded_Fin)
  define y where "y = h * L"
  have y: "y \<le> 78000001 / 10 ^ 10 * L" "0 * L \<le> y"
    unfolding y_def using h(1,2) L(1) by (intro mult_right_mono; simp)+
  have y0: "0 \<le> y" using y(2) by simp
  define m where "m = f64_round y"
  have "\<bar>y\<bar> \<le> 10 ^ 30" using y(1) y0 L(2) by simp
  then have "f64_of_rat y = Fin m" unfolding m_def by (rule f64_bounded_Fin)
  then have mf: "f64_mul (Fin h) (f64_abs (Fin L)) = Fin m" using L by (simp add: y_def)
  have my: "m \<le> y + (y / 2 ^ 53 + 1 / 10 ^ 30)"
    using round_near [of y, folded m_def, unfolded abs_of_nonneg [OF y0]] by linarith
  have "m < \<bar>q\<bar>"
  proof -
    have a: "(1 - 1 / 2 ^ 53) * \<bar>r - L\<bar> - 1 / 10 ^ 30 \<le> \<bar>q\<bar>"
    proof -
      have "\<bar>r - L\<bar> - (\<bar>r - L\<bar> / 2 ^ 53 + 1 / 10 ^ 30) \<le> \<bar>q\<bar>"
        using round_near [of "r - L"] unfolding q_def by linarith
      then show ?thesis by (simp add: algebra_simps)
    qed
    have "m \<le> (1 + 1 / 2 ^ 53) * (78000001 / 10 ^ 10 * L) + 1 / 10 ^ 30"
      using my y(1) by simp
    then show ?thesis using a far L by simp
  qed
  then show ?thesis unfolding approximate_def qf hf mf by simp
qed

definition same_side :: "rat \<Rightarrow> rat \<Rightarrow> rat \<Rightarrow> bool" where
  "same_side a b L \<longleftrightarrow> (a < L \<and> b < L) \<or> (L < a \<and> L < b)"

lemma compare_same_side: "same_side a b L \<Longrightarrow> compare (Fin a) op (Fin L) = compare (Fin b) op (Fin L)"
  by (auto simp: same_side_def compare_def f64_eq_def)

text \<open>When a percentile verdict can be trusted. If a percentile \<open>d\<close> is within the histogram's
  1/128 of the sample \<open>x\<close> it stands for, its threshold is not marked Approximate and \<open>x\<close> is not
  within 0.002 % of the limit, then the verdict is the one the exact sample would get. (Without
  the last condition this fails: the tolerance 0.0078 is below 1/128, see
  \<open>approximate_misses\<close>.)\<close>

theorem verdict_stable:
  assumes "128 * \<bar>d - x\<bar> \<le> x" and "0 \<le> x" "x \<le> maxTracked"
    and "1 / 1000 \<le> L" "L \<le> 10 ^ 9"
    and "\<not> approximate (to_ms d) (Fin L)" and "2 / 100000 * L < \<bar>of_int x / 1000000 - L\<bar>"
  shows "compare (to_ms d) op (Fin L) = compare (Fin (of_int x / 1000000)) op (Fin L)"
proof -
  have mx: "maxTracked = 3600000000000" by (simp add: maxTracked_def hour_def)
  have ax: "128 * (x - d) \<le> x" "128 * (d - x) \<le> x"
    using assms(1) abs_ge_self [of "d - x"] abs_ge_minus_self [of "d - x"] by simp_all
  have dx: "127 * x \<le> 128 * d" "128 * d \<le> 129 * x" using ax by (simp_all add: algebra_simps)
  have d: "0 \<le> d" using dx(1) assms(2) by linarith
  have d2: "d \<le> 4000000000000" using dx(2) assms(3) mx by linarith
  obtain r where r: "to_ms d = Fin r" "\<bar>r - of_int d / 1000000\<bar> \<le> 1 / 10 ^ 9"
    using to_ms_near [OF d d2] by blast
  define D where "D = (of_int d / 1000000 :: rat)"
  define X where "X = (of_int x / 1000000 :: rat)"
  have D: "0 \<le> D" "D \<le> 4000000" "\<bar>r - D\<bar> \<le> 1 / 10 ^ 9" using d d2 r(2) by (simp_all add: D_def)
  have "of_int (128 * \<bar>d - x\<bar>) \<le> (of_int x :: rat)" using assms(1) by (simp only: of_int_le_iff)
  then have DX: "128 * \<bar>D - X\<bar> \<le> X" by (simp add: D_def X_def abs_le_iff field_simps)
  have r0: "0 \<le> f64_round D" using D(1) by (rule f64_round_nonneg)
  have "to_ms d = f64_of_rat D" using d d2 by (simp add: to_ms_def millisecond_def f64_of_int_exact D_def)
  then have "r = f64_round D" using r(1) D by (simp add: f64_bounded_Fin)
  with r0 have r00: "0 \<le> r" by simp
  have rD: "r - D \<le> 1 / 10 ^ 9" "D - r \<le> 1 / 10 ^ 9" using abs_le_D1 [OF D(3)] abs_le_D2 [OF D(3)] by simp_all
  have r5: "r \<le> 5000000" using D(2) rD by simp
  have DX2: "128 * (D - X) \<le> X" "128 * (X - D) \<le> X" using DX abs_ge_self [of "D - X"] abs_ge_minus_self [of "D - X"] by simp_all
  have far: "77999 / 10000000 * L \<le> \<bar>r - L\<bar>"
    using not_approximate_far [OF r00 r5 assms(4,5)] assms(6) r(1) by simp
  have XL: "2 / 100000 * L < \<bar>X - L\<bar>" using assms(7) by (simp add: X_def)
  have "same_side r X L"
  proof (cases "L < r")
    case True
    then have "L + 77999 / 10000000 * L \<le> r" using far by simp
    then have "X > (1 - 2 / 100000) * L" using D(1,2) rD DX2 assms(4) by simp
    then show ?thesis using XL True assms(4) by (simp add: same_side_def abs_if split: if_splits)
  next
    case False
    then have "r \<le> L - 77999 / 10000000 * L" using far by simp
    then have "X < (1 + 2 / 100000) * L \<and> r < L" using D(1,2) rD DX2 assms(4) by simp
    then show ?thesis using XL assms(4) by (simp add: same_side_def abs_if split: if_splits)
  qed
  then show ?thesis unfolding r(1) X_def [symmetric] by (rule compare_same_side)
qed


theorem verdict_stable_witness:
  "compare (to_ms 1000000) ''<'' (Fin 2) \<and> \<not> approximate (to_ms 1000000) (Fin 2)"
proof -
  have "to_ms 1000000 = Fin 1"
    using f64_round_of_int [of 1] f64_bounded_Fin [of 1]
    by (simp add: to_ms_def millisecond_def f64_of_int_exact)
  then have na: "\<not> approximate (to_ms 1000000) (Fin 2)" using far_not_approximate [of 1 2] by simp
  have "compare (to_ms 1000000) ''<'' (Fin 2) = compare (Fin (of_int 1000000 / 1000000)) ''<'' (Fin 2)"
    by (rule verdict_stable [OF _ _ _ _ _ na]) (simp_all add: maxTracked_def hour_def)
  then show ?thesis using na by (simp add: compare_def)
qed

text \<open>The tolerance 0.0078 is slightly below 1/128: here the bucket's midpoint and a sample of the
  bucket lie on different sides of the limit 1.04858 ms, and the result is not marked.\<close>

lemma approximate_misses:
  "bucketMid (bucketIndex 1048576) = 1056768 \<and> \<not> approximate (to_ms 1056768) (Fin (104858 / 100000)) \<and>
   compare (to_ms 1056768) ''<'' (Fin (104858 / 100000)) \<noteq> compare (Fin (of_int 1048576 / 1000000)) ''<'' (Fin (104858 / 100000))"
proof -
  have D: "\<exists>r. to_ms 1056768 = Fin r \<and> \<bar>r - of_int 1056768 / 1000000\<bar> \<le> 1 / 10 ^ 9" by (rule to_ms_near) simp_all
  then obtain r where r: "to_ms 1056768 = Fin r" "\<bar>r - of_int 1056768 / 1000000\<bar> \<le> 1 / 10 ^ 9" by blast
  have rb: "1056767 / 1000000 \<le> r" "r \<le> 1056769 / 1000000"
    using abs_le_D1 [OF r(2)] abs_le_D2 [OF r(2)] by simp_all
  have "\<not> approximate (Fin r) (Fin (104858 / 100000))"
    by (rule far_not_approximate) (use rb in simp_all)
  moreover have "bucketMid (bucketIndex 1048576) = 1056768" 
    using bucketIndex_scale [of 14 1048576] bucketMid_scale [of 14 64] by simp
  ultimately show ?thesis using r(1) rb by (simp add: compare_def)
qed

end
