(* ===== verification/Outcome.thy ===== *)
theory Outcome
  imports Config_Engine Threshold_Verdict
begin

text \<open>
  \<open>internal/report/outcome.go\<close> and the result of \<open>internal/report/report.go\<close>; \<open>internal/cli/run.go\<close>
  and \<open>exit.go\<close>: from the result of a run to its outputs and the exit code of the process.
\<close>

section \<open>The result and its verdict\<close>

record report =
  rp_Script :: string
  rp_VUs :: int
  rp_Duration :: duration
  rp_GracefulStop :: duration
  rp_Elapsed :: duration
  rp_Interrupted :: bool
  rp_Summary :: summary
  rp_TeardownError :: string
  rp_Thresholds :: "result list"
  rp_Scenarios :: "cfg_scenario list"
  rp_Started :: int
  rp_Series :: "point list"

definition ExitPassed :: int where "ExitPassed = 0"
definition ExitFailed :: int where "ExitFailed = 1"
definition ExitThresholdsFailed :: int where "ExitThresholdsFailed = 99"

lemmas exit_codes = ExitPassed_def ExitFailed_def ExitThresholdsFailed_def

record outcome =
  oc_Passed :: bool
  oc_ExitCode :: int
  oc_Reasons :: "string list"

definition threshold_reason :: "result \<Rightarrow> string" where
  "threshold_reason t = ''threshold failed: '' @ th_Metric (re_Threshold t) @ '' '' @ th_Expr (re_Threshold t)"

definition Verdict :: "report \<Rightarrow> outcome" where
  "Verdict r =
     (let (reasons, code) = ([], ExitPassed);
          (reasons, code) = (if rp_Interrupted r then (reasons @ [''interrupted''], ExitFailed) else (reasons, code));
          (reasons, code) = (if rp_TeardownError r \<noteq> [] then (reasons @ [rp_TeardownError r], ExitFailed) else (reasons, code));
          (reasons, code) = foldl (\<lambda>(reasons, code) t.
              if \<not> re_Passed t
              then (reasons @ [threshold_reason t], if code = ExitPassed then ExitThresholdsFailed else code)
              else (reasons, code)) (reasons, code) (rp_Thresholds r)
      in \<lparr>oc_Passed = (code = ExitPassed), oc_ExitCode = code, oc_Reasons = reasons\<rparr>)"

section \<open>The command line\<close>

text \<open>A Go error of the command: several joined, or one that asks for an exit code. Every other error
  is its text.\<close>

datatype cli_error =
    Joined "cli_error list"
  | ExitError int string
  | PlainError string

text \<open>\<open>errors.AsType\<close>: the first \<open>ExitError\<close> in the tree.\<close>

fun as_exit :: "cli_error \<Rightarrow> int option"
  and as_exit_list :: "cli_error list \<Rightarrow> int option" where
  "as_exit (PlainError m) = None"
| "as_exit (ExitError c m) = Some c"
| "as_exit (Joined es) = as_exit_list es"
| "as_exit_list [] = None"
| "as_exit_list (e # es) = (case as_exit e of Some c \<Rightarrow> Some c | None \<Rightarrow> as_exit_list es)"

definition ExitCode :: "cli_error option \<Rightarrow> int" where
  "ExitCode err = (case err of None \<Rightarrow> 0 | Some e \<Rightarrow> (case as_exit e of Some c \<Rightarrow> c | None \<Rightarrow> 1))"

record json_file =
  jf_flag :: string
  jf_path :: string

record outputs =
  out_jsonStdout :: bool
  out_jsonFiles :: "json_file list"
  out_reportHTML :: string

text \<open>\<open>strings.Cut\<close> at the first \<open>=\<close>.\<close>

definition cut_eq :: "string \<Rightarrow> string \<times> string \<times> bool" where
  "cut_eq s = (let k = takeWhile (\<lambda>c. c \<noteq> CHR ''='') s
     in if k = s then (s, [], False) else (k, drop (Suc (length k)) s, True))"

fun parse_outputs :: "string list \<Rightarrow> outputs \<Rightarrow> string + outputs" where
  "parse_outputs [] out = Inr out"
| "parse_outputs (f # fs) out =
     (case cut_eq f of (kind, path, hasPath) \<Rightarrow>
        if kind = ''json'' \<and> \<not> hasPath then parse_outputs fs (out\<lparr>out_jsonStdout := True\<rparr>)
        else if kind = ''json'' \<and> path \<noteq> []
        then parse_outputs fs (out\<lparr>out_jsonFiles := out_jsonFiles out @ [\<lparr>jf_flag = ''--out '' @ f, jf_path = path\<rparr>]\<rparr>)
        else Inl f)"

definition parseOutputs :: "string list \<Rightarrow> string + outputs" where
  "parseOutputs fs = parse_outputs fs \<lparr>out_jsonStdout = False, out_jsonFiles = [], out_reportHTML = []\<rparr>"

fun env_environ :: "string list \<Rightarrow> (string \<rightharpoonup> string) \<Rightarrow> (string \<rightharpoonup> string)" where
  "env_environ [] env = env"
| "env_environ (kv # kvs) env = (case cut_eq kv of (k, v, ok) \<Rightarrow>
     env_environ kvs (if ok \<and> k \<noteq> [] then env(k \<mapsto> v) else env))"

fun env_flags :: "string list \<Rightarrow> (string \<rightharpoonup> string) \<Rightarrow> string + (string \<rightharpoonup> string)" where
  "env_flags [] env = Inr env"
| "env_flags (kv # kvs) env = (case cut_eq kv of (k, v, ok) \<Rightarrow>
     if \<not> ok \<or> k = [] then Inl kv else env_flags kvs (env(k \<mapsto> v)))"

definition scriptEnv :: "string list \<Rightarrow> string list \<Rightarrow> string + (string \<rightharpoonup> string)" where
  "scriptEnv environ flags = env_flags flags (env_environ environ Map.empty)"

definition thresholdsError :: "result list \<Rightarrow> cli_error option" where
  "thresholdsError rs = (if \<not> Failed rs then None
     else Some (ExitError ExitThresholdsFailed (''thresholds failed: '' @
       str_join (map (\<lambda>r. th_Metric (re_Threshold r) @ '' '' @ th_Expr (re_Threshold r)) (filter (\<lambda>r. \<not> re_Passed r) rs)) '', '')))"

text \<open>What \<open>runTest\<close> writes, in order; whether a write fails is the environment's: \<open>stdoutErr\<close>,
  \<open>fileErr\<close> and \<open>htmlErr\<close> give the error, if any. \<open>cause\<close> is why the context ended.\<close>

datatype written =
    ConsoleReport bool
  | JSONStdout
  | JSONFile string
  | HTMLFile string

definition opt_list :: "'a option \<Rightarrow> 'a list" where
  "opt_list x = (case x of None \<Rightarrow> [] | Some a \<Rightarrow> [a])"

definition flag_error :: "string \<Rightarrow> string \<Rightarrow> cli_error" where
  "flag_error flag m = PlainError (flag @ '': '' @ m)"

definition runTest ::
  "outputs \<Rightarrow> string option \<Rightarrow> (string \<Rightarrow> string option) \<Rightarrow> (string \<Rightarrow> string option) \<Rightarrow> string \<Rightarrow>
   string + report \<Rightarrow> written list \<times> cli_error option" where
  "runTest out stdoutErr fileErr htmlErr cause run = (case run of
       Inl err \<Rightarrow> ([], Some (PlainError err))
     | Inr res \<Rightarrow>
         let w0 = [ConsoleReport (out_jsonStdout out)];
             (w1, e1) = (if out_jsonStdout out
                         then (w0 @ [JSONStdout], map (flag_error ''--out json'') (opt_list stdoutErr))
                         else (w0, []));
             (w2, e2) = foldl (\<lambda>(w, e) f. (w @ [JSONFile (jf_path f)],
                           e @ map (flag_error (jf_flag f)) (opt_list (fileErr (jf_path f)))))
                         (w1, e1) (out_jsonFiles out);
             (w3, e3) = (if out_reportHTML out \<noteq> []
                         then (w2 @ [HTMLFile (out_reportHTML out)],
                               e2 @ map (flag_error ''--report-html'') (opt_list (htmlErr (out_reportHTML out))))
                         else (w2, e2));
             e4 = (if oc_ExitCode (Verdict res) = ExitFailed
                   then e3 @ (if rp_Interrupted res then [PlainError (''test interrupted: '' @ cause)] else [])
                           @ (if rp_TeardownError res \<noteq> [] then [PlainError (rp_TeardownError res)] else [])
                   else e3)
         in (w3, if e4 \<noteq> [] then Some (Joined e4) else thresholdsError (rp_Thresholds res)))"

section \<open>The verdict\<close>

lemma threshold_fold:
  "foldl (\<lambda>(reasons, code) t.
      if \<not> re_Passed t then (reasons @ [threshold_reason t], if code = ExitPassed then ExitThresholdsFailed else code)
      else (reasons, code)) (reasons, code) ts =
   (reasons @ map threshold_reason (filter (\<lambda>t. \<not> re_Passed t) ts),
    if code = ExitPassed \<and> Failed ts then ExitThresholdsFailed else code)"
  by (induction ts arbitrary: reasons code) (auto simp: Failed_def exit_codes)

lemma Verdict_eq:
  "Verdict r =
     (let code = (if rp_Interrupted r \<or> rp_TeardownError r \<noteq> [] then ExitFailed
                  else if Failed (rp_Thresholds r) then ExitThresholdsFailed else ExitPassed)
      in \<lparr>oc_Passed = (code = ExitPassed), oc_ExitCode = code,
          oc_Reasons = (if rp_Interrupted r then [''interrupted''] else []) @
            (if rp_TeardownError r \<noteq> [] then [rp_TeardownError r] else []) @
            map threshold_reason (filter (\<lambda>t. \<not> re_Passed t) (rp_Thresholds r))\<rparr>)"
  by (auto simp: Verdict_def Let_def threshold_fold exit_codes)

lemma Failed_filter: "Failed ts \<longleftrightarrow> filter (\<lambda>t. \<not> re_Passed t) ts \<noteq> []"
  by (induction ts) (auto simp: Failed_def)

text \<open>The verdict. A run passes exactly when there is no reason against it; its exit code is 0 then,
  1 when it was interrupted or its teardown failed, which win over failed thresholds, and 99 when
  only thresholds failed; the reasons are the interruption, the teardown error and one per failed
  threshold, in that order.\<close>

theorem verdict_exact:
  "(oc_Passed (Verdict r) \<longleftrightarrow> oc_Reasons (Verdict r) = []) \<and>
   (oc_Passed (Verdict r) \<longleftrightarrow> oc_ExitCode (Verdict r) = 0) \<and>
   oc_ExitCode (Verdict r) =
     (if \<not> rp_Interrupted r \<and> rp_TeardownError r = [] then if Failed (rp_Thresholds r) then 99 else 0 else 1) \<and>
   oc_Reasons (Verdict r) =
     (if rp_Interrupted r then [''interrupted''] else []) @
     (if rp_TeardownError r \<noteq> [] then [rp_TeardownError r] else []) @
     map threshold_reason (filter (\<lambda>t. \<not> re_Passed t) (rp_Thresholds r))"
  by (auto simp: Verdict_eq Let_def exit_codes Failed_filter)

section \<open>The exit code of the process\<close>

definition all_written :: "outputs \<Rightarrow> string option \<Rightarrow> (string \<Rightarrow> string option) \<Rightarrow> (string \<Rightarrow> string option) \<Rightarrow> bool" where
  "all_written out stdoutErr fileErr htmlErr \<longleftrightarrow>
     (if out_jsonStdout out then stdoutErr = None else True) \<and>
     list_all (\<lambda>f. fileErr (jf_path f) = None) (out_jsonFiles out) \<and>
     (if out_reportHTML out \<noteq> [] then htmlErr (out_reportHTML out) = None else True)"

definition outputs_of :: "outputs \<Rightarrow> written list" where
  "outputs_of out = [ConsoleReport (out_jsonStdout out)] @ (if out_jsonStdout out then [JSONStdout] else []) @
     map (\<lambda>f. JSONFile (jf_path f)) (out_jsonFiles out) @
     (if out_reportHTML out \<noteq> [] then [HTMLFile (out_reportHTML out)] else [])"

definition plain :: "cli_error list \<Rightarrow> bool" where
  "plain es \<longleftrightarrow> (\<forall>e\<in>set es. \<exists>m. e = PlainError m)"

lemma plain_joined: "plain es \<Longrightarrow> as_exit (Joined es) = None"
  by (induction es) (auto simp: plain_def)

lemma plain_simps [simp]: "plain []" "plain (es @ fs) \<longleftrightarrow> plain es \<and> plain fs"
  "plain (map (flag_error f) ms)" "plain [PlainError m]"
  by (auto simp: plain_def flag_error_def)

lemma files_fold:
  "foldl (\<lambda>(w, e) f. (w @ [JSONFile (jf_path f)],
       e @ map (flag_error (jf_flag f)) (opt_list (fileErr (jf_path f))))) (w, e) fs =
   (w @ map (\<lambda>f. JSONFile (jf_path f)) fs,
    e @ concat (map (\<lambda>f. map (flag_error (jf_flag f)) (opt_list (fileErr (jf_path f)))) fs))"
  by (induction fs arbitrary: w e) simp_all

lemma plain_concat: "plain (concat (map (\<lambda>f. map (flag_error (g f)) (ms f)) fs))"
  by (induction fs) simp_all

lemma opt_list_Nil: "opt_list x = [] \<longleftrightarrow> x = None"
  by (cases x) (simp_all add: opt_list_def)

lemma no_file_errors: "concat (map (\<lambda>f. map (g f) (opt_list (h f))) fs) = [] \<longleftrightarrow> list_all (\<lambda>f. h f = None) fs"
  by (induction fs) (simp_all add: opt_list_Nil)

lemma runTest_writes:
  "\<exists>es. plain es \<and> (es = [] \<longleftrightarrow> all_written out stdoutErr fileErr htmlErr) \<and>
     runTest out stdoutErr fileErr htmlErr cause (Inr res) =
       (outputs_of out,
        let e4 = es @ (if oc_ExitCode (Verdict res) = ExitFailed
                       then (if rp_Interrupted res then [PlainError (''test interrupted: '' @ cause)] else [])
                            @ (if rp_TeardownError res \<noteq> [] then [PlainError (rp_TeardownError res)] else [])
                       else [])
        in if e4 \<noteq> [] then Some (Joined e4) else thresholdsError (rp_Thresholds res))"
proof -
  let ?e1 = "if out_jsonStdout out then map (flag_error ''--out json'') (opt_list stdoutErr) else []"
  let ?e2 = "concat (map (\<lambda>f. map (flag_error (jf_flag f)) (opt_list (fileErr (jf_path f)))) (out_jsonFiles out))"
  let ?e3 = "if out_reportHTML out \<noteq> [] then map (flag_error ''--report-html'') (opt_list (htmlErr (out_reportHTML out))) else []"
  have "plain (?e1 @ ?e2 @ ?e3)" by (auto simp: plain_concat)
  moreover have "?e1 @ ?e2 @ ?e3 = [] \<longleftrightarrow> all_written out stdoutErr fileErr htmlErr"
    unfolding append_is_Nil_conv no_file_errors by (auto simp: all_written_def opt_list_Nil list_all_iff)
  moreover have "runTest out stdoutErr fileErr htmlErr cause (Inr res) =
       (outputs_of out,
        let e4 = (?e1 @ ?e2 @ ?e3) @ (if oc_ExitCode (Verdict res) = ExitFailed
                       then (if rp_Interrupted res then [PlainError (''test interrupted: '' @ cause)] else [])
                            @ (if rp_TeardownError res \<noteq> [] then [PlainError (rp_TeardownError res)] else [])
                       else [])
        in if e4 \<noteq> [] then Some (Joined e4) else thresholdsError (rp_Thresholds res))"
    by (cases "out_jsonStdout out"; cases "out_reportHTML out = []")
      (simp_all add: runTest_def files_fold outputs_of_def Let_def del: append_is_Nil_conv concat_eq_Nil_conv map_is_Nil_conv)
  ultimately show ?thesis by blast
qed

text \<open>The process and the report agree. Whenever a run has a result, every requested output is
  attempted, in order, whatever the verdict; when all of them can be written, the exit code of
  the process is the exit code of the verdict, and otherwise it is 1; a run without a result
  exits with 1 and writes nothing.\<close>

theorem exit_code_agrees:
  "(case runTest out stdoutErr fileErr htmlErr cause run of (wr, err) \<Rightarrow>
      (case run of
         Inl e \<Rightarrow> wr = [] \<and> ExitCode err = 1
       | Inr res \<Rightarrow> wr = outputs_of out \<and>
           ExitCode err = (if all_written out stdoutErr fileErr htmlErr then oc_ExitCode (Verdict res) else 1)))"
proof (cases run)
  case (Inl e)
  then show ?thesis by (simp add: runTest_def ExitCode_def)
next
  case (Inr res)
  obtain es where es: "plain es" "es = [] \<longleftrightarrow> all_written out stdoutErr fileErr htmlErr"
    "runTest out stdoutErr fileErr htmlErr cause (Inr res) =
       (outputs_of out,
        let e4 = es @ (if oc_ExitCode (Verdict res) = ExitFailed
                       then (if rp_Interrupted res then [PlainError (''test interrupted: '' @ cause)] else [])
                            @ (if rp_TeardownError res \<noteq> [] then [PlainError (rp_TeardownError res)] else [])
                       else [])
        in if e4 \<noteq> [] then Some (Joined e4) else thresholdsError (rp_Thresholds res))"
    using runTest_writes by blast
  let ?e = "if oc_ExitCode (Verdict res) = ExitFailed
     then (if rp_Interrupted res then [PlainError (''test interrupted: '' @ cause)] else [])
          @ (if rp_TeardownError res \<noteq> [] then [PlainError (rp_TeardownError res)] else []) else []"
  have p: "as_exit (Joined (es @ ?e)) = None" by (rule plain_joined) (use es(1) in auto)
  have code: "oc_ExitCode (Verdict res) = (if rp_Interrupted res \<or> rp_TeardownError res \<noteq> [] then ExitFailed
      else if Failed (rp_Thresholds res) then ExitThresholdsFailed else ExitPassed)"
    by (simp add: Verdict_eq Let_def)
  have e: "?e = [] \<longleftrightarrow> oc_ExitCode (Verdict res) \<noteq> ExitFailed" by (auto simp: code exit_codes)
  have "ExitCode (if es @ ?e \<noteq> [] then Some (Joined (es @ ?e)) else thresholdsError (rp_Thresholds res)) =
      (if es = [] then oc_ExitCode (Verdict res) else 1)"
  proof (cases "es @ ?e = []")
    case True
    then have "es = []" "oc_ExitCode (Verdict res) \<noteq> ExitFailed" using e by simp_all
    then show ?thesis using True code by (auto simp: thresholdsError_def ExitCode_def exit_codes split: if_splits)
  next
    case False
    then have "es \<noteq> [] \<or> oc_ExitCode (Verdict res) = 1" using e by (auto simp: exit_codes)
    then show ?thesis using False p by (auto simp: ExitCode_def)
  qed
  then show ?thesis using es(2) by (simp add: Inr es(3) Let_def)
qed

end
