(* ===== verification/Protocol_Modules.thy ===== *)
theory Protocol_Modules
  imports Families
begin

text \<open>
  The protocol modules of a run: \<open>internal/script/protocols.go\<close> and \<open>modules.go\<close>, and the import rules of
  \<open>scriptPlugin\<close> (\<open>script.go\<close>). A module is what it declares; what its \<open>NewRun\<close>, \<open>NewInstance\<close> and \<open>Close\<close>
  answer are parameters. Every call the code makes on a module is an event of a trace.
\<close>

section \<open>The modules of a program\<close>

record proto_module =
  pm_Name :: string
  pm_Aliases :: "string list"
  pm_Exports :: "string list"
  pm_Metrics :: "fdef list"

definition module_names :: "proto_module \<Rightarrow> string list" where
  "module_names m = pm_Name m # pm_Aliases m"

text \<open>The properties of the builtin object, as their names; \<open>builtinProps\<close> are those of every VU.\<close>

definition builtinProps :: "string list" where "builtinProps = [''http'', ''core'', ''exec'']"

definition reservedBuiltins :: "string list" where "reservedBuiltins = [''http'', ''core'', ''exec'']"

record module_set =
  ms_all :: "proto_module list"
  ms_vuProps :: "string list"
  ms_imported :: "bool list"
  ms_runs :: "bool list"
  ms_families :: "families option"

datatype module_error =
    ReservedName string
  | RegisteredTwice string

fun check_names :: "string list \<Rightarrow> string list \<Rightarrow> module_error + string list" where
  "check_names seen [] = Inr seen"
| "check_names seen (n # ns) =
     (if n \<in> set reservedBuiltins then Inl (ReservedName n)
      else if n \<in> set seen then Inl (RegisteredTwice n)
      else check_names (n # seen) ns)"

fun check_modules :: "string list \<Rightarrow> proto_module list \<Rightarrow> module_error + string list" where
  "check_modules seen [] = Inr seen"
| "check_modules seen (m # ms) = (case check_names seen (module_names m) of
       Inl e \<Rightarrow> Inl e
     | Inr seen' \<Rightarrow> check_modules seen' ms)"

definition newModuleSet :: "proto_module list \<Rightarrow> module_error + module_set" where
  "newModuleSet mods = (case check_modules [] mods of
       Inl e \<Rightarrow> Inl e
     | Inr _ \<Rightarrow> Inr \<lparr>ms_all = mods, ms_vuProps = [], ms_imported = replicate (length mods) False,
         ms_runs = replicate (length mods) False, ms_families = None\<rparr>)"

definition loadtool_prefix :: string where "loadtool_prefix = ''loadtool/''"

fun index_loop :: "string \<Rightarrow> nat \<Rightarrow> proto_module list \<Rightarrow> nat option" where
  "index_loop n i [] = None"
| "index_loop n i (m # ms) = (if pm_Name m = n \<or> n \<in> set (pm_Aliases m) then Some i else index_loop n (Suc i) ms)"

definition ms_index :: "module_set option \<Rightarrow> string \<Rightarrow> nat option" where
  "ms_index mo path = (case mo of None \<Rightarrow> None
     | Some ms \<Rightarrow> if \<not> has_prefix path loadtool_prefix then None
                  else index_loop (drop (length loadtool_prefix) path) 0 (ms_all ms))"

fun seal_loop :: "string list \<Rightarrow> (bool \<times> proto_module) list \<Rightarrow> string list" where
  "seal_loop ps [] = ps"
| "seal_loop ps ((imp, m) # ims) = seal_loop (if imp then ps @ [pm_Name m] else ps) ims"

definition ms_seal :: "module_set \<Rightarrow> module_set" where
  "ms_seal ms = ms\<lparr>ms_vuProps := seal_loop builtinProps (zip (ms_imported ms) (ms_all ms))\<rparr>"

definition importsAny :: "module_set option \<Rightarrow> bool" where
  "importsAny mo = (case mo of None \<Rightarrow> False | Some ms \<Rightarrow> length (ms_vuProps ms) > length builtinProps)"

definition markImported :: "module_set \<Rightarrow> nat \<Rightarrow> module_set" where
  "markImported ms i = ms\<lparr>ms_imported := (ms_imported ms)[i := True]\<rparr>"

definition isClassName :: "string \<Rightarrow> bool" where
  "isClassName name \<longleftrightarrow> name \<noteq> [] \<and> in_range CHR ''A'' CHR ''Z'' (hd name)"

section \<open>Imports\<close>

definition isBuiltinModule :: "string \<Rightarrow> bool" where
  "isBuiltinModule path \<longleftrightarrow> path = ''loadtool'' \<or> has_prefix path loadtool_prefix"

definition isRelativeImport :: "string \<Rightarrow> bool" where
  "isRelativeImport path \<longleftrightarrow> has_prefix path ''./'' \<or> has_prefix path ''../''"

definition scriptImport :: string where "scriptImport = ''loadtool:script''"

datatype resolved =
    UserScript
  | BuiltinModule string
  | RelativeFile
  | NeedsFile string
  | CannotImport string

definition OnResolve :: "string \<Rightarrow> module_set option \<Rightarrow> string \<Rightarrow> string \<Rightarrow> resolved \<times> module_set option" where
  "OnResolve dir mo importer path =
     (if importer = ''<stdin>'' \<and> path = scriptImport then (UserScript, mo)
      else if isBuiltinModule path
      then (BuiltinModule path, case ms_index mo path of None \<Rightarrow> mo
              | Some i \<Rightarrow> map_option (\<lambda>ms. markImported ms i) mo)
      else if isRelativeImport path then ((if dir = [] then NeedsFile path else RelativeFile), mo)
      else (CannotImport path, mo))"

text \<open>The source of a builtin module: a protocol module's, or one of the two the package has.\<close>

datatype module_source =
    ProtocolSource nat
  | BuiltinSource string
  | UnknownModule string

definition OnLoad :: "module_set option \<Rightarrow> string \<Rightarrow> module_source" where
  "OnLoad mo path = (case ms_index mo path of
       Some i \<Rightarrow> ProtocolSource i
     | None \<Rightarrow> if path \<in> {''loadtool/http'', ''loadtool''} then BuiltinSource path else UnknownModule path)"

section \<open>The run of the modules\<close>

datatype mod_event = RunStarted nat | RunClosed nat

datatype start_error =
    BadFamilies "fam_error list"
  | NewRunFailed string string "string list"

text \<open>The loop over the imported modules; \<open>newRun i\<close> is the error of module \<open>i\<close>'s \<open>NewRun\<close>, if it fails.\<close>

fun start_runs :: "(nat \<Rightarrow> string option) \<Rightarrow> nat list \<Rightarrow> module_set \<Rightarrow> mod_event list \<times> (nat \<times> string) option \<times> module_set" where
  "start_runs newRun [] ms = ([], None, ms)"
| "start_runs newRun (i # is) ms =
     (if \<not> ms_imported ms ! i then start_runs newRun is ms
      else case newRun i of
        Some e \<Rightarrow> ([], Some (i, e), ms)
      | None \<Rightarrow> (case start_runs newRun is (ms\<lparr>ms_runs := (ms_runs ms)[i := True]\<rparr>) of
          (tr, err, ms') \<Rightarrow> (RunStarted i # tr, err, ms')))"

fun close_runs :: "(nat \<Rightarrow> string option) \<Rightarrow> nat list \<Rightarrow> module_set \<Rightarrow> mod_event list \<times> string list \<times> module_set" where
  "close_runs closeRun [] ms = ([], [], ms)"
| "close_runs closeRun (i # is) ms =
     (if \<not> ms_runs ms ! i then close_runs closeRun is ms
      else case close_runs closeRun is (ms\<lparr>ms_runs := (ms_runs ms)[i := False]\<rparr>) of
        (tr, errs, ms') \<Rightarrow> (RunClosed i # tr, (case closeRun i of None \<Rightarrow> [] | Some e \<Rightarrow> [e]) @ errs, ms'))"

definition CloseModules :: "(nat \<Rightarrow> string option) \<Rightarrow> module_set option \<Rightarrow> mod_event list \<times> string list \<times> module_set option" where
  "CloseModules closeRun mo = (case mo of None \<Rightarrow> ([], [], None)
     | Some ms \<Rightarrow> (case close_runs closeRun [0..<length (ms_runs ms)] ms of (tr, errs, ms') \<Rightarrow> (tr, errs, Some ms')))"

definition imported_metrics :: "module_set \<Rightarrow> fdef list" where
  "imported_metrics ms = concat (map (\<lambda>(imp, m). if imp then pm_Metrics m else []) (zip (ms_imported ms) (ms_all ms)))"

definition StartModules :: "(nat \<Rightarrow> string option) \<Rightarrow> (nat \<Rightarrow> string option) \<Rightarrow> module_set option \<Rightarrow>
    mod_event list \<times> (start_error + fdef list) \<times> module_set option" where
  "StartModules newRun closeRun mo = (case mo of None \<Rightarrow> ([], Inr [], None)
     | Some ms \<Rightarrow> (let defs = imported_metrics ms in
         if defs = [] then ([], Inr [], Some ms)
         else case NewFamilies defs of
           Inl errs \<Rightarrow> ([], Inl (BadFamilies errs), Some ms)
         | Inr fams \<Rightarrow> (case start_runs newRun [0..<length (ms_all ms)] ms of
             (tr, Some (i, e), ms') \<Rightarrow> (case CloseModules closeRun (Some ms') of
                (ctr, cerrs, mo') \<Rightarrow> (tr @ ctr, Inl (NewRunFailed (pm_Name (ms_all ms ! i)) e cerrs), mo'))
           | (tr, None, ms') \<Rightarrow> (tr, Inr defs, Some (ms'\<lparr>ms_families := Some fams\<rparr>)))))"

definition ModuleFamilies :: "module_set option \<Rightarrow> familySummary list" where
  "ModuleFamilies mo = (case mo of None \<Rightarrow> [] | Some ms \<Rightarrow> Summarize (ms_families ms))"

section \<open>Names\<close>

lemma nth_update: "xs[i := x] ! j = (if i = j \<and> j < length xs then x else xs ! j)"
  by (cases "i < length xs") (auto simp: nth_list_update list_update_beyond)

lemma check_names_Inr:
  "check_names seen ns = Inr seen' \<longleftrightarrow>
     set ns \<inter> set reservedBuiltins = {} \<and> set ns \<inter> set seen = {} \<and> distinct ns \<and> seen' = rev ns @ seen"
  by (induction ns arbitrary: seen) auto

definition all_names :: "proto_module list \<Rightarrow> string list" where
  "all_names mods = concat (map module_names mods)"

lemma check_modules_Inr:
  "check_modules seen mods = Inr seen' \<longleftrightarrow>
     set (all_names mods) \<inter> set reservedBuiltins = {} \<and> set (all_names mods) \<inter> set seen = {} \<and>
     distinct (all_names mods) \<and> seen' = rev (all_names mods) @ seen"
proof (induction mods arbitrary: seen)
  case (Cons m mods)
  show ?case
  proof (cases "check_names seen (module_names m)")
    case (Inl e)
    then have "\<not> (set (module_names m) \<inter> set reservedBuiltins = {} \<and> set (module_names m) \<inter> set seen = {} \<and> distinct (module_names m))"
      using check_names_Inr [of seen "module_names m" "rev (module_names m) @ seen"] by simp
    then show ?thesis using Inl by (auto simp: all_names_def)
  next
    case (Inr s)
    then have c: "set (module_names m) \<inter> set reservedBuiltins = {}" "set (module_names m) \<inter> set seen = {}"
      "distinct (module_names m)" "s = rev (module_names m) @ seen" by (simp_all add: check_names_Inr)
    have step: "check_modules seen (m # mods) = check_modules s mods" by (simp add: Inr)
    show ?thesis unfolding step Cons.IH using c by (auto simp: all_names_def)
  qed
qed (auto simp: all_names_def)

lemma newModuleSet_Inr:
  "newModuleSet mods = Inr ms \<longleftrightarrow>
     distinct (all_names mods) \<and> set (all_names mods) \<inter> set reservedBuiltins = {} \<and>
     ms = \<lparr>ms_all = mods, ms_vuProps = [], ms_imported = replicate (length mods) False,
           ms_runs = replicate (length mods) False, ms_families = None\<rparr>"
proof (cases "check_modules [] mods")
  case (Inl e)
  then have "\<not> (set (all_names mods) \<inter> set reservedBuiltins = {} \<and> distinct (all_names mods))"
    using check_modules_Inr [of "[]" mods "rev (all_names mods)"] by simp
  then show ?thesis using Inl by (auto simp: newModuleSet_def)
next
  case (Inr s)
  then have "set (all_names mods) \<inter> set reservedBuiltins = {}" "distinct (all_names mods)" by (simp_all add: check_modules_Inr)
  then show ?thesis using Inr by (auto simp: newModuleSet_def)
qed

lemma index_loop_Some:
  "index_loop n i ms = Some j \<Longrightarrow> \<exists>k<length ms. j = i + k \<and> n \<in> set (module_names (ms ! k))"
proof (induction ms arbitrary: i)
  case (Cons m ms)
  show ?case
  proof (cases "n \<in> set (module_names m)")
    case True
    then show ?thesis using Cons.prems by (auto simp: module_names_def)
  next
    case False
    then have "index_loop n (Suc i) ms = Some j" using Cons.prems by (auto simp: module_names_def split: if_splits)
    from Cons.IH [OF this] obtain k where "k < length ms" "j = Suc i + k" "n \<in> set (module_names (ms ! k))" by blast
    then show ?thesis by (intro exI [of _ "Suc k"]) simp
  qed
qed simp

lemma index_loop_None: "index_loop n i ms = None \<longleftrightarrow> n \<notin> set (all_names ms)"
  by (induction ms arbitrary: i) (auto simp: module_names_def all_names_def)

lemma names_unique:
  "distinct (all_names ms) \<Longrightarrow> j < length ms \<Longrightarrow> k < length ms \<Longrightarrow> n \<in> set (module_names (ms ! j)) \<Longrightarrow>
   n \<in> set (module_names (ms ! k)) \<Longrightarrow> j = k"
proof (induction ms arbitrary: j k)
  case (Cons m ms)
  have d: "distinct (all_names ms)" "set (module_names m) \<inter> set (all_names ms) = {}"
    using Cons.prems(1) by (auto simp: all_names_def)
  have in_all: "n \<in> set (all_names ms)" if "i < length ms" "n \<in> set (module_names (ms ! i))" for i
    using that by (force simp: all_names_def in_set_conv_nth)
  show ?case using Cons.prems d in_all Cons.IH [OF d(1)] by (cases j; cases k) auto
qed simp

lemma index_exact:
  assumes "distinct (all_names (ms_all ms))"
  shows "ms_index (Some ms) path = Some i \<longleftrightarrow>
    i < length (ms_all ms) \<and> (\<exists>n\<in>set (module_names (ms_all ms ! i)). path = loadtool_prefix @ n)"
proof (cases "has_prefix path loadtool_prefix")
  case False
  then show ?thesis by (auto simp: ms_index_def has_prefix_iff)
next
  case True
  then obtain n where n: "path = loadtool_prefix @ n" by (auto simp: has_prefix_iff)
  have "index_loop n 0 (ms_all ms) = Some i \<longleftrightarrow> i < length (ms_all ms) \<and> n \<in> set (module_names (ms_all ms ! i))"
  proof
    assume "index_loop n 0 (ms_all ms) = Some i"
    then show "i < length (ms_all ms) \<and> n \<in> set (module_names (ms_all ms ! i))" using index_loop_Some by fastforce
  next
    assume i: "i < length (ms_all ms) \<and> n \<in> set (module_names (ms_all ms ! i))"
    then have "n \<in> set (all_names (ms_all ms))" by (force simp: all_names_def in_set_conv_nth)
    then obtain j where j: "index_loop n 0 (ms_all ms) = Some j"
      using index_loop_None by (metis not_None_eq)
    have "i = j" using index_loop_Some [OF j] names_unique [OF assms] i by auto
    then show "index_loop n 0 (ms_all ms) = Some i" using j by simp
  qed
  then show ?thesis using n by (auto simp: ms_index_def)
qed

definition resolve_all :: "string \<Rightarrow> (string \<times> string) list \<Rightarrow> module_set option \<Rightarrow> module_set option" where
  "resolve_all dir imps mo = foldl (\<lambda>mo (importer, path). snd (OnResolve dir mo importer path)) mo imps"

definition imports_module :: "proto_module \<Rightarrow> (string \<times> string) list \<Rightarrow> bool" where
  "imports_module m imps \<longleftrightarrow> list_ex (\<lambda>(_, path). list_ex (\<lambda>n. path = loadtool_prefix @ n) (module_names m)) imps"

lemma OnResolve_index:
  "snd (OnResolve dir (Some ms) importer path) =
     Some (case ms_index (Some ms) path of None \<Rightarrow> ms | Some i \<Rightarrow> markImported ms i)"
proof -
  have "ms_index (Some ms) path = None" if "\<not> has_prefix path loadtool_prefix"
    using that by (simp add: ms_index_def)
  moreover have "\<not> has_prefix scriptImport loadtool_prefix" by code_simp
  ultimately show ?thesis by (auto simp: OnResolve_def isBuiltinModule_def split: option.splits)
qed

lemma resolve_all_imported:
  assumes "distinct (all_names (ms_all ms))" "length (ms_imported ms) = length (ms_all ms)"
  shows "\<exists>ms'. resolve_all dir imps (Some ms) = Some ms' \<and> ms' = ms\<lparr>ms_imported := ms_imported ms'\<rparr> \<and>
     ms_imported ms' = map (\<lambda>(imp, m). imp \<or> imports_module m imps) (zip (ms_imported ms) (ms_all ms))"
  using assms
proof (induction imps arbitrary: ms)
  case Nil
  have "map (\<lambda>(imp, m). imp \<or> imports_module m []) (zip (ms_imported ms) (ms_all ms)) = map fst (zip (ms_imported ms) (ms_all ms))"
    by (rule map_cong) (auto simp: imports_module_def)
  then show ?case using Nil by (simp add: resolve_all_def)
next
  case (Cons ip imps)
  obtain importer path where ip: "ip = (importer, path)" by fastforce
  let ?ms = "case ms_index (Some ms) path of None \<Rightarrow> ms | Some i \<Rightarrow> markImported ms i"
  have ms: "ms_all ?ms = ms_all ms" "length (ms_imported ?ms) = length (ms_imported ms)"
    "?ms\<lparr>ms_imported := x\<rparr> = ms\<lparr>ms_imported := x\<rparr>" for x
    by (simp_all add: markImported_def split: option.split)
  obtain ms' where ms': "resolve_all dir imps (Some ?ms) = Some ms'" "ms' = ?ms\<lparr>ms_imported := ms_imported ms'\<rparr>"
    "ms_imported ms' = map (\<lambda>(imp, m). imp \<or> imports_module m imps) (zip (ms_imported ?ms) (ms_all ?ms))"
    using Cons.IH [of ?ms] Cons.prems ms by auto
  have nth: "ms_imported ?ms ! k = (ms_imported ms ! k \<or> list_ex (\<lambda>n. path = loadtool_prefix @ n) (module_names (ms_all ms ! k)))"
    if "k < length (ms_all ms)" for k
  proof -
    have "ms_imported ?ms ! k = (ms_imported ms ! k \<or> ms_index (Some ms) path = Some k)"
      using that Cons.prems(2) by (cases "ms_index (Some ms) path") (auto simp: markImported_def nth_update)
    then show ?thesis using that index_exact [OF Cons.prems(1), of path k] by (simp add: list_ex_iff)
  qed
  have "ms_imported ms' = map (\<lambda>(imp, m). imp \<or> imports_module m (ip # imps)) (zip (ms_imported ms) (ms_all ms))"
    by (rule nth_equalityI) (use Cons.prems(2) in \<open>auto simp: ms'(3) ms nth ip imports_module_def\<close>)
  moreover have "resolve_all dir (ip # imps) (Some ms) = Some ms'"
    using ms'(1) by (simp add: resolve_all_def ip OnResolve_index)
  ultimately show ?case using ms' ms(3) by metis
qed

lemma seal_loop_eq: "seal_loop ps ims = ps @ map (\<lambda>(_, m). pm_Name m) (filter fst ims)"
  by (induction ps ims rule: seal_loop.induct) auto

lemma distinct_names: "distinct (all_names ms) \<Longrightarrow> distinct (map pm_Name (filter P ms))"
proof (induction ms)
  case (Cons m ms)
  have "pm_Name m \<notin> set (map pm_Name (filter P ms))"
    using Cons.prems by (fastforce simp: all_names_def module_names_def)
  then show ?case using Cons by (auto simp: all_names_def)
qed simp

lemma filter_zip_map: "map snd (filter fst (zip (map P xs) xs)) = filter P xs"
  by (induction xs) auto

text \<open>Imports of protocol modules. A set of modules is accepted exactly when no name or alias is
  used twice or reserved. Then, in whatever order the bundler resolves the imports, a module is
  marked imported exactly when one of its names is imported; a VU's builtin object has the builtin
  properties and one per imported module, all different; and a VU has module state exactly when
  the script imports a module.\<close>

theorem modules_imported:
  assumes "newModuleSet mods = Inr ms0"
  shows "\<exists>ms. resolve_all dir imps (Some ms0) = Some ms \<and> ms_all ms = mods \<and>
    ms_imported ms = map (\<lambda>m. imports_module m imps) mods \<and>
    ms_vuProps (ms_seal ms) = builtinProps @ map pm_Name (filter (\<lambda>m. imports_module m imps) mods) \<and>
    distinct (ms_vuProps (ms_seal ms)) \<and>
    (importsAny (Some (ms_seal ms)) \<longleftrightarrow> list_ex (\<lambda>m. imports_module m imps) mods)"
proof -
  have names: "distinct (all_names mods)" "set (all_names mods) \<inter> set reservedBuiltins = {}"
    and ms0: "ms0 = \<lparr>ms_all = mods, ms_vuProps = [], ms_imported = replicate (length mods) False,
           ms_runs = replicate (length mods) False, ms_families = None\<rparr>"
    using assms by (auto simp: newModuleSet_Inr)
  obtain ms where ms: "resolve_all dir imps (Some ms0) = Some ms" "ms = ms0\<lparr>ms_imported := ms_imported ms\<rparr>"
    "ms_imported ms = map (\<lambda>(imp, m). imp \<or> imports_module m imps) (zip (replicate (length mods) False) mods)"
    using resolve_all_imported [of ms0 dir imps] names(1) by (auto simp: ms0)
  have all: "ms_all ms = mods" by (subst ms(2)) (simp add: ms0)
  have imp: "ms_imported ms = map (\<lambda>m. imports_module m imps) mods"
    unfolding ms(3) by (rule nth_equalityI) simp_all
  let ?used = "filter (\<lambda>m. imports_module m imps) mods"
  have props: "ms_vuProps (ms_seal ms) = builtinProps @ map pm_Name ?used"
    by (simp add: ms_seal_def seal_loop_eq all imp case_prod_unfold filter_zip_map flip: map_map [unfolded o_def])
  have "pm_Name m \<in> set (all_names mods)" if "m \<in> set mods" for m
    using that by (force simp: all_names_def module_names_def)
  then have "distinct (ms_vuProps (ms_seal ms))"
    using names distinct_names [OF names(1)] unfolding props
    by (auto simp: builtinProps_def reservedBuiltins_def)
  moreover have "importsAny (Some (ms_seal ms)) \<longleftrightarrow> list_ex (\<lambda>m. imports_module m imps) mods"
    by (simp add: importsAny_def props list_ex_iff filter_empty_conv)
  ultimately show ?thesis using ms(1) all imp props by blast
qed

definition ws_module :: proto_module where
  "ws_module = \<lparr>pm_Name = ''ws'', pm_Aliases = [''websocket''], pm_Exports = [''connect''],
     pm_Metrics = [\<lparr>d_Name = ''ws_messages'', d_Kind = Counter\<rparr>]\<rparr>"

definition kafka_module :: proto_module where
  "kafka_module = \<lparr>pm_Name = ''kafka'', pm_Aliases = [], pm_Exports = [''Producer''],
     pm_Metrics = [\<lparr>d_Name = ''kafka_writes'', d_Kind = Counter\<rparr>]\<rparr>"

theorem modules_imported_witness:
  "\<exists>ms0 ms. newModuleSet [ws_module, kafka_module] = Inr ms0 \<and>
     resolve_all [] [(''<stdin>'', scriptImport), (''test.ts'', ''loadtool/websocket''), (''test.ts'', ''loadtool'')] (Some ms0) = Some ms \<and>
     ms_imported ms = [True, False] \<and> ms_vuProps (ms_seal ms) = [''http'', ''core'', ''exec'', ''ws'']"
proof -
  obtain ms0 where ms0: "newModuleSet [ws_module, kafka_module] = Inr ms0"
    by (auto simp: newModuleSet_Inr ws_module_def kafka_module_def all_names_def module_names_def reservedBuiltins_def)
  let ?is = "[(''<stdin>'', scriptImport), (''test.ts'', ''loadtool/websocket''), (''test.ts'', ''loadtool'')]"
  have "imports_module ws_module ?is" "\<not> imports_module kafka_module ?is" by code_simp+
  then show ?thesis using ms0 modules_imported [OF ms0, of "[]" ?is]
    by (auto simp: builtinProps_def ws_module_def)
qed

section \<open>Starting and closing the runs\<close>

definition imported_runs :: "module_set \<Rightarrow> nat list" where
  "imported_runs ms = filter (\<lambda>i. ms_imported ms ! i) [0..<length (ms_all ms)]"

lemma start_runs_spec:
  "start_runs newRun is ms = (tr, err, ms') \<Longrightarrow>
   \<exists>js. tr = map RunStarted js \<and> ms' = ms\<lparr>ms_runs := fold (\<lambda>j r. r[j := True]) js (ms_runs ms)\<rparr> \<and>
     list_all (\<lambda>j. newRun j = None) js \<and>
     (case err of None \<Rightarrow> js = filter (\<lambda>i. ms_imported ms ! i) is
      | Some (i, e) \<Rightarrow> newRun i = Some e \<and> (\<exists>rest. filter (\<lambda>i. ms_imported ms ! i) is = js @ i # rest))"
proof (induction newRun "is" ms arbitrary: tr rule: start_runs.induct)
  case (1 newRun ms)
  then show ?case by auto
next
  case (2 newRun i "is" ms)
  consider "\<not> ms_imported ms ! i" | e where "ms_imported ms ! i" "newRun i = Some e"
    | "ms_imported ms ! i" "newRun i = None" by fastforce
  then show ?case
  proof cases
    case 1
    then have "start_runs newRun is ms = (tr, err, ms')" using "2.prems" by simp
    from "2.IH"(1) [OF 1 this] show ?thesis using 1 by (simp cong: option.case_cong)
  next
    case 2
    then show ?thesis using "2.prems" by auto
  next
    case 3
    then obtain tr' where tr': "tr = RunStarted i # tr'"
      "start_runs newRun is (ms\<lparr>ms_runs := (ms_runs ms)[i := True]\<rparr>) = (tr', err, ms')"
      using "2.prems" by (auto split: prod.splits)
    obtain js where js: "tr' = map RunStarted js"
      "ms' = ms\<lparr>ms_runs := fold (\<lambda>j r. r[j := True]) js ((ms_runs ms)[i := True])\<rparr>"
      "list_all (\<lambda>j. newRun j = None) js"
      "case err of None \<Rightarrow> js = filter (\<lambda>i. ms_imported ms ! i) is
       | Some (i, e) \<Rightarrow> newRun i = Some e \<and> (\<exists>rest. filter (\<lambda>i. ms_imported ms ! i) is = js @ i # rest)"
      using "2.IH"(2) [OF _ _ tr'(2)] 3 by (auto cong: option.case_cong)
    show ?thesis by (rule exI [of _ "i # js"]) (use 3 tr' js in \<open>auto split: option.splits\<close>)
  qed
qed

lemma close_runs_spec:
  "distinct is \<Longrightarrow> close_runs closeRun is ms =
     (map RunClosed (filter (\<lambda>i. ms_runs ms ! i) is),
      concat (map (\<lambda>i. case closeRun i of None \<Rightarrow> [] | Some e \<Rightarrow> [e]) (filter (\<lambda>i. ms_runs ms ! i) is)),
      ms\<lparr>ms_runs := fold (\<lambda>j r. r[j := False]) (filter (\<lambda>i. ms_runs ms ! i) is) (ms_runs ms)\<rparr>)"
proof (induction closeRun "is" ms rule: close_runs.induct)
  case (2 closeRun i "is" ms)
  show ?case
  proof (cases "ms_runs ms ! i")
    case True
    have "filter (\<lambda>k. (ms_runs ms)[i := False] ! k) is = filter (\<lambda>k. ms_runs ms ! k) is"
      by (rule filter_cong) (use 2(3) in \<open>auto simp: nth_update\<close>)
    then show ?thesis using True 2 by simp
  qed (use 2 in simp)
qed simp

lemma nth_fold_update: "i < length r \<Longrightarrow> fold (\<lambda>j r. r[j := b]) js r ! i = (if i \<in> set js then b else r ! i)"
  by (induction js arbitrary: r) (auto simp: nth_update)

lemma length_fold_update [simp]: "length (fold (\<lambda>j r. r[j := b]) js r) = length r"
  by (induction js arbitrary: r) simp_all

lemma filter_prefix: "distinct xs \<Longrightarrow> filter P xs = js @ rest \<Longrightarrow> filter (\<lambda>i. i \<in> set js) xs = js"
proof -
  assume d: "distinct xs" and f: "filter P xs = js @ rest"
  have "set js \<subseteq> {x. P x}" using arg_cong [OF f, of set] by auto
  then have "filter (\<lambda>i. i \<in> set js) xs = filter (\<lambda>i. i \<in> set js) (filter P xs)"
    by (auto simp: filter_filter intro!: filter_cong)
  moreover have "distinct (js @ rest)" using d f by (metis distinct_filter)
  then have "filter (\<lambda>i. i \<in> set js) (js @ rest) = js" by (auto simp: filter_empty_conv)
  ultimately show ?thesis using f by simp
qed

definition no_runs :: "module_set \<Rightarrow> bool" where
  "no_runs ms \<longleftrightarrow> length (ms_imported ms) = length (ms_all ms) \<and> ms_runs ms = replicate (length (ms_all ms)) False"

text \<open>Closing after the runs \<open>js\<close> were started, on a set that had none.\<close>

lemma close_started:
  assumes "no_runs ms" "filter P [0..<length (ms_all ms)] = js @ rest"
    and "ms' = ms\<lparr>ms_runs := fold (\<lambda>j r. r[j := True]) js (ms_runs ms), ms_families := f\<rparr>"
  shows "CloseModules closeRun (Some ms') =
    (map RunClosed js, concat (map (\<lambda>i. case closeRun i of None \<Rightarrow> [] | Some e \<Rightarrow> [e]) js), Some (ms\<lparr>ms_families := f\<rparr>))"
proof -
  let ?n = "length (ms_all ms)"
  have runs: "ms_runs ms = replicate ?n False" using assms(1) by (simp add: no_runs_def)
  have len: "length (ms_runs ms') = ?n" by (simp add: assms(3) runs)
  have "filter (\<lambda>i. ms_runs ms' ! i) [0..<?n] = filter (\<lambda>i. i \<in> set js) [0..<?n]"
    by (rule filter_cong) (simp_all add: assms(3) runs nth_fold_update)
  also have "\<dots> = js" by (rule filter_prefix [OF _ assms(2)]) simp
  finally have js: "filter (\<lambda>i. ms_runs ms' ! i) [0..<length (ms_runs ms')] = js" by (simp add: len)
  have "fold (\<lambda>j r. r[j := False]) js (ms_runs ms') = replicate ?n False"
    by (rule nth_equalityI) (simp_all add: assms(3) runs nth_fold_update)
  then show ?thesis by (simp add: CloseModules_def close_runs_spec js) (simp add: assms(3) runs)
qed

lemma start_then_close:
  assumes "no_runs ms"
  shows "(case StartModules newRun closeRun (Some ms) of (tr, r, mo) \<Rightarrow>
     case CloseModules closeRun mo of (ctr, errs, mo') \<Rightarrow>
       (\<exists>js rest. imported_runs ms = js @ rest \<and> list_all (\<lambda>j. newRun j = None) js \<and>
          tr @ ctr = map RunStarted js @ map RunClosed js \<and>
          (case r of
             Inl (BadFamilies es) \<Rightarrow> js = [] \<and> NewFamilies (imported_metrics ms) = Inl es
           | Inl (NewRunFailed n e cerrs) \<Rightarrow> ctr = [] \<and>
               (\<exists>i. take 1 rest = [i] \<and> newRun i = Some e \<and> n = pm_Name (ms_all ms ! i))
           | Inr defs \<Rightarrow> defs = imported_metrics ms \<and> tr = map RunStarted js \<and>
               (if defs = [] then js = [] else rest = []))) \<and>
       CloseModules closeRun mo' = ([], [], mo'))"
proof -
  let ?n = "length (ms_all ms)"
  have fresh: "CloseModules closeRun (Some (ms\<lparr>ms_families := f\<rparr>)) = ([], [], Some (ms\<lparr>ms_families := f\<rparr>))" for f
    using close_started [OF assms, of "\<lambda>_. False" "[]" "[]"] assms by (simp add: no_runs_def)
  then have fresh0: "CloseModules closeRun (Some ms) = ([], [], Some ms)" using fresh [of "ms_families ms"] by simp
  show ?thesis
  proof (cases "imported_metrics ms = []")
    case True
    then show ?thesis by (simp add: StartModules_def fresh0)
  next
    case False
    show ?thesis
    proof (cases "NewFamilies (imported_metrics ms)")
      case (Inl es)
      then show ?thesis using False by (simp add: StartModules_def fresh0)
    next
      case (Inr fams)
      obtain tr err ms' where st: "start_runs newRun [0..<?n] ms = (tr, err, ms')" by (metis prod_cases3)
      obtain js where js: "tr = map RunStarted js" "ms' = ms\<lparr>ms_runs := fold (\<lambda>j r. r[j := True]) js (ms_runs ms)\<rparr>"
        "list_all (\<lambda>j. newRun j = None) js"
        "case err of None \<Rightarrow> js = imported_runs ms
         | Some (i, e) \<Rightarrow> newRun i = Some e \<and> (\<exists>rest. imported_runs ms = js @ i # rest)"
        using start_runs_spec [OF st] unfolding imported_runs_def by blast
      show ?thesis
      proof (cases err)
        case None
        then have imp: "imported_runs ms = js @ []" using js(4) by simp
        have "CloseModules closeRun (Some (ms'\<lparr>ms_families := Some fams\<rparr>)) =
            (map RunClosed js, concat (map (\<lambda>i. case closeRun i of None \<Rightarrow> [] | Some e \<Rightarrow> [e]) js), Some (ms\<lparr>ms_families := Some fams\<rparr>))"
          by (rule close_started [OF assms imp [unfolded imported_runs_def]]) (simp add: js(2))
        then show ?thesis using False Inr st None js(1,3) imp by (simp add: StartModules_def fresh)
      next
        case (Some ie)
        obtain i e where ie: "ie = (i, e)" by fastforce
        then obtain rest where imp: "imported_runs ms = js @ i # rest" "newRun i = Some e" using js(4) Some by auto
        have "CloseModules closeRun (Some ms') =
            (map RunClosed js, concat (map (\<lambda>i. case closeRun i of None \<Rightarrow> [] | Some e \<Rightarrow> [e]) js), Some ms)"
          using close_started [OF assms imp(1) [unfolded imported_runs_def], of ms' "ms_families ms"] js(2) by simp
        then have "StartModules newRun closeRun (Some ms) = (map RunStarted js @ map RunClosed js,
            Inl (NewRunFailed (pm_Name (ms_all ms ! i)) e (concat (map (\<lambda>i. case closeRun i of None \<Rightarrow> [] | Some e \<Rightarrow> [e]) js))), Some ms)"
          using False Inr st Some ie js(1) by (simp add: StartModules_def)
        moreover have "\<exists>js' rest'. imported_runs ms = js' @ rest' \<and> list_all (\<lambda>j. newRun j = None) js' \<and>
            map RunStarted js @ map RunClosed js = map RunStarted js' @ map RunClosed js' \<and>
            (\<exists>k. take 1 rest' = [k] \<and> newRun k = Some e \<and> pm_Name (ms_all ms ! i) = pm_Name (ms_all ms ! k))"
          by (rule exI [of _ js], rule exI [of _ "i # rest"]) (use imp js(3) in simp)
        ultimately show ?thesis by (simp add: fresh0)
      qed
    qed
  qed
qed

lemma modules_released:
  assumes "no_runs ms" "StartModules newRun closeRun (Some ms) = (tr, r, mo)" "CloseModules closeRun mo = (ctr, errs, mo')"
  shows "\<exists>js rest. imported_runs ms = js @ rest \<and> tr @ ctr = map RunStarted js @ map RunClosed js \<and>
    (case r of Inl _ \<Rightarrow> ctr = [] | Inr _ \<Rightarrow> tr = map RunStarted js)"
proof -
  obtain js rest where js: "imported_runs ms = js @ rest" "tr @ ctr = map RunStarted js @ map RunClosed js"
    "(case r of
       Inl (BadFamilies es) \<Rightarrow> js = [] \<and> NewFamilies (imported_metrics ms) = Inl es
     | Inl (NewRunFailed n e cerrs) \<Rightarrow> ctr = [] \<and>
         (\<exists>i. take 1 rest = [i] \<and> newRun i = Some e \<and> n = pm_Name (ms_all ms ! i))
     | Inr defs \<Rightarrow> defs = imported_metrics ms \<and> tr = map RunStarted js \<and>
         (if defs = [] then js = [] else rest = []))"
    using start_then_close [OF assms(1), of newRun closeRun] by (auto simp: assms(2,3))
  then have "case r of Inl _ \<Rightarrow> ctr = [] | Inr _ \<Rightarrow> tr = map RunStarted js"
    by (auto split: sum.splits start_error.splits)
  then show ?thesis using js(1,2) by blast
qed

text \<open>The runs of the modules. \<open>StartModules\<close> starts the imported modules in order until one fails,
  and then closes exactly those it started; otherwise closing afterwards closes each of them once,
  in the same order. Nothing is closed twice, nothing that was not started is closed, nothing stays
  open, and closing again does nothing. The metric families are the definitions of the imported
  modules.\<close>

theorem module_runs_released:
  assumes "no_runs ms"
  shows "(case StartModules newRun closeRun (Some ms) of (tr, r, mo) \<Rightarrow>
     case CloseModules closeRun mo of (ctr, errs, mo') \<Rightarrow>
       (\<exists>js rest. imported_runs ms = js @ rest \<and> list_all (\<lambda>j. newRun j = None) js \<and>
          tr @ ctr = map RunStarted js @ map RunClosed js \<and>
          (case r of
             Inl (BadFamilies es) \<Rightarrow> js = [] \<and> NewFamilies (imported_metrics ms) = Inl es
           | Inl (NewRunFailed n e cerrs) \<Rightarrow> ctr = [] \<and>
               (\<exists>i. take 1 rest = [i] \<and> newRun i = Some e \<and> n = pm_Name (ms_all ms ! i))
           | Inr defs \<Rightarrow> defs = imported_metrics ms \<and> tr = map RunStarted js \<and>
               (if defs = [] then js = [] else rest = []))) \<and>
       CloseModules closeRun mo' = ([], [], mo'))"
  by (rule start_then_close [OF assms])

definition both_imported :: module_set where
  "both_imported = \<lparr>ms_all = [ws_module, kafka_module], ms_vuProps = [], ms_imported = [True, True],
     ms_runs = [False, False], ms_families = None\<rparr>"

definition no_broker :: "nat \<Rightarrow> string option" where
  "no_broker i = (if i = 1 then Some ''no broker'' else None)"

theorem module_runs_released_witness:
  "(case StartModules no_broker (\<lambda>_. None) (Some both_imported) of (tr, r, mo) \<Rightarrow>
     tr = [RunStarted 0, RunClosed 0] \<and> r = Inl (NewRunFailed ''kafka'' ''no broker'' []) \<and>
     (\<exists>js rest. imported_runs both_imported = js @ rest \<and>
        tr @ fst (CloseModules (\<lambda>_. None) mo) = map RunStarted js @ map RunClosed js))"
proof -
  have run: "(case StartModules no_broker (\<lambda>_. None) (Some both_imported) of (tr, r, mo) \<Rightarrow>
     tr = [RunStarted 0, RunClosed 0] \<and> r = Inl (NewRunFailed ''kafka'' ''no broker'' []))" by code_simp
  have "no_runs both_imported" by code_simp
  from module_runs_released [OF this, of no_broker "\<lambda>_. None"] run show ?thesis
    by (auto split: prod.splits)
qed

end
