(* ===== verification/Go_Text.thy ===== *)
theory Go_Text
  imports Go_Prelude
begin

text \<open>
  Text the standard library produces: decimal numbers (\<open>strconv.Itoa\<close>), \<open>time.Duration.String\<close>,
  \<open>strings.ReplaceAll\<close> and the letter cases.
\<close>

definition digit_char :: "int \<Rightarrow> char" where
  "digit_char n = ''0123456789'' ! nat n"

function nat_text :: "int \<Rightarrow> string" where
  "nat_text n = (if n < 10 then [digit_char n] else nat_text (n div 10) @ [digit_char (n mod 10)])"
  by auto
termination by (relation "measure nat") auto

declare nat_text.simps [simp del]

definition itoa :: "int \<Rightarrow> string" where
  "itoa n = (if n < 0 then CHR ''-'' # nat_text (- n) else nat_text n)"

lemma nat_text_not_Nil [simp]: "nat_text n \<noteq> []"
  by (subst nat_text.simps) simp

lemma itoa_not_Nil [simp]: "itoa n \<noteq> []"
  by (simp add: itoa_def)

lemma digits_val_snoc: "digits_val (ds @ [c]) = 10 * digits_val ds + digit_val c"
  by (simp add: digits_val_def)

lemma digit_val_char: "0 \<le> n \<Longrightarrow> n < 10 \<Longrightarrow> digit_val (digit_char n) = nat n"
proof -
  assume "0 \<le> n" "n < 10"
  then have "n \<in> {0, 1, 2, 3, 4, 5, 6, 7, 8, 9}" by (simp, presburger)
  then show ?thesis by (auto simp: digit_char_def digit_val_def byte_def)
qed

lemma digits_val_nat_text: "0 \<le> n \<Longrightarrow> digits_val (nat_text n) = nat n"
proof (induction n rule: nat_text.induct)
  case (1 n)
  show ?case
  proof (cases "n < 10")
    case True
    then show ?thesis using 1(2) by (simp add: nat_text.simps [of n] digits_val_def digit_val_char)
  next
    case False
    then have "digits_val (nat_text n) = 10 * nat (n div 10) + nat (n mod 10)"
      using 1 by (simp add: nat_text.simps [of n] digits_val_snoc digit_val_char)
    moreover have "int (10 * nat (n div 10) + nat (n mod 10)) = int (nat n)"
      using 1(2) by (simp add: pos_imp_zdiv_nonneg_iff)
    then have "10 * nat (n div 10) + nat (n mod 10) = nat n" by (simp only: of_nat_eq_iff)
    ultimately show ?thesis by simp
  qed
qed

text \<open>Decimal numbers are read back, so no two numbers print the same.\<close>

lemma nat_text_inj: "0 \<le> m \<Longrightarrow> 0 \<le> n \<Longrightarrow> nat_text m = nat_text n \<longleftrightarrow> m = n"
  by (metis digits_val_nat_text eq_nat_nat_iff)

text \<open>\<open>fmtFrac\<close>: the fraction of \<open>u\<close> to \<open>prec\<close> digits, without trailing zeros.\<close>

definition frac_text :: "int \<Rightarrow> nat \<Rightarrow> string" where
  "frac_text u prec =
     (let ds = nat_text (u mod 10 ^ prec);
          padded = replicate (prec - length ds) (CHR ''0'') @ ds;
          kept = rev (dropWhile (\<lambda>c. c = CHR ''0'') (rev padded))
      in if kept = [] then [] else CHR ''.'' # kept)"

definition Duration_String :: "duration \<Rightarrow> string" where
  "Duration_String d =
     (let u = abs d; sign = (if d < 0 then ''-'' else []) in
      if u = 0 then ''0s''
      else if u < 1000 then sign @ nat_text u @ ''ns''
      else if u < 1000000 then sign @ nat_text (u div 1000) @ frac_text u 3 @ [CHR 0xC2, CHR 0xB5, CHR ''s'']
      else if u < 1000000000 then sign @ nat_text (u div 1000000) @ frac_text u 6 @ ''ms''
      else let s = u div 1000000000; m = s div 60; h = m div 60 in
        sign @ (if h > 0 then nat_text h @ ''h'' else []) @ (if m > 0 then nat_text (m mod 60) @ ''m'' else []) @
        nat_text (s mod 60) @ frac_text u 9 @ ''s'')"

lemma Duration_String_not_Nil [simp]: "Duration_String d \<noteq> []"
  by (simp add: Duration_String_def Let_def)

section \<open>Package strings\<close>

text \<open>\<open>%q\<close> of a text without quotes, backslashes and control characters.\<close>

definition quoted :: "string \<Rightarrow> string" where
  "quoted s = CHR 0x22 # s @ [CHR 0x22]"

text \<open>\<open>strings.ReplaceAll\<close>: the occurrences from the left that do not overlap. An empty \<open>old\<close>, which no
  caller passes, is left alone.\<close>

function ReplaceAll :: "string \<Rightarrow> string \<Rightarrow> string \<Rightarrow> string" where
  "ReplaceAll old new [] = []"
| "ReplaceAll old new (c # s) =
     (if old \<noteq> [] \<and> has_prefix (c # s) old then new @ ReplaceAll old new (drop (length old) (c # s))
      else c # ReplaceAll old new s)"
  by pat_completeness auto
termination by (relation "measure (\<lambda>(_, _, s). length s)") auto

definition lower_char :: "char \<Rightarrow> char" where
  "lower_char c = (if in_range CHR ''A'' CHR ''Z'' c then char_of (byte c + 32) else c)"

definition upper_char :: "char \<Rightarrow> char" where
  "upper_char c = (if in_range CHR ''a'' CHR ''z'' c then char_of (byte c - 32) else c)"

text \<open>\<open>strings.ToLower\<close> and \<open>ToUpper\<close>, as far as ASCII letters go: the other letters whose other case is an
  ASCII letter are U+0130 and U+212A, and U+0131 and U+017F.\<close>

definition ToLower :: "string \<Rightarrow> string" where
  "ToLower s = map lower_char (ReplaceAll [CHR 0xE2, CHR 0x84, CHR 0xAA] ''k'' (ReplaceAll [CHR 0xC4, CHR 0xB0] ''i'' s))"

definition ToUpper :: "string \<Rightarrow> string" where
  "ToUpper s = map upper_char (ReplaceAll [CHR 0xC5, CHR 0xBF] ''S'' (ReplaceAll [CHR 0xC4, CHR 0xB1] ''I'' s))"

lemma ToLower_fixed:
  "list_all (\<lambda>c. byte c < 65 \<or> 90 < byte c \<and> byte c < 128) s \<Longrightarrow> ToLower s = s"
proof -
  assume a: "list_all (\<lambda>c. byte c < 65 \<or> 90 < byte c \<and> byte c < 128) s"
  have r: "ReplaceAll (c # old) new s = s" if "128 \<le> byte c" for c old new
    using a that by (induction "c # old" new s rule: ReplaceAll.induct) (auto simp: has_prefix_def)
  have "lower_char c = c" if "byte c < 65 \<or> 90 < byte c" for c
    using that by (auto simp: lower_char_def in_range_def byte_def)
  then have "map lower_char s = s" using a by (induction s) auto
  moreover have "ReplaceAll [CHR 0xC4, CHR 0xB0] ''i'' s = s" "ReplaceAll [CHR 0xE2, CHR 0x84, CHR 0xAA] ''k'' s = s"
    by (rule r, simp add: byte_def)+
  ultimately show ?thesis by (simp add: ToLower_def)
qed
section \<open>What ReplaceAll leaves\<close>

lemma replace_hit:
  "old \<noteq> [] \<Longrightarrow> has_prefix (c # s) old \<Longrightarrow> ReplaceAll old new (c # s) = new @ ReplaceAll old new (drop (length old) (c # s))"
  by simp

lemma replace_miss: "\<not> (old \<noteq> [] \<and> has_prefix (c # s) old) \<Longrightarrow> ReplaceAll old new (c # s) = c # ReplaceAll old new s"
  by auto

declare ReplaceAll.simps(2) [simp del]

lemma replace_none: "\<not> str_contains s old \<Longrightarrow> ReplaceAll old new s = s"
  by (induction old new s rule: ReplaceAll.induct) (auto simp: replace_miss)

lemma replace_self: "old \<noteq> [] \<Longrightarrow> ReplaceAll old new old = new"
  by (cases old) (simp_all add: replace_hit has_prefix_def)

lemma contains_self [simp]: "str_contains s s"
  by (cases s) (auto simp: has_prefix_def)

lemma contains_longer: "str_contains s p \<Longrightarrow> length p \<le> length s"
  by (auto simp: str_contains_iff)

lemma contains_drop: "str_contains (drop n s) p \<Longrightarrow> str_contains s p"
  unfolding str_contains_iff by (metis append.assoc append_take_drop_id)

lemma prefix_Cons: "has_prefix (c # s) (d # p) \<longleftrightarrow> c = d \<and> has_prefix s p"
  by (auto simp: has_prefix_def)

lemma prefix_Nil [simp]: "has_prefix s []"
  by (simp add: has_prefix_def)

lemma contains_after:
  "p \<noteq> [] \<Longrightarrow> set p \<inter> set new = {} \<Longrightarrow> str_contains (new @ s) p \<longleftrightarrow> str_contains s p"
proof (induction new)
  case (Cons d new)
  then show ?case by (cases p) (auto simp: prefix_Cons)
qed simp

text \<open>A replacement creates no text without its own characters.\<close>

lemma replace_prefix:
  "set p \<inter> set new = {} \<Longrightarrow> new \<noteq> [] \<Longrightarrow> has_prefix (ReplaceAll old new s) p \<Longrightarrow> has_prefix s p"
proof (induction old new s arbitrary: p rule: ReplaceAll.induct)
  case (2 old new c s)
  show ?case
  proof (cases p)
    case (Cons d q)
    have n: "\<not> (old \<noteq> [] \<and> has_prefix (c # s) old)"
    proof
      assume "old \<noteq> [] \<and> has_prefix (c # s) old"
      then have "has_prefix (new @ ReplaceAll old new (drop (length old) (c # s))) (d # q)" using 2(5) Cons by (simp add: replace_hit)
      then show False using 2(3,4) Cons by (cases new) (auto simp: prefix_Cons)
    qed
    then show ?thesis using "2.IH"(2) [OF n, of q] 2(3-5) Cons by (simp add: replace_miss [OF n] prefix_Cons)
  qed simp
qed simp

lemma replace_contains:
  "set p \<inter> set new = {} \<Longrightarrow> new \<noteq> [] \<Longrightarrow> p \<noteq> [] \<Longrightarrow> str_contains (ReplaceAll old new s) p \<Longrightarrow> str_contains s p"
proof (induction old new s rule: ReplaceAll.induct)
  case (2 old new c s)
  show ?case
  proof (cases "old \<noteq> [] \<and> has_prefix (c # s) old")
    case True
    then have "str_contains (ReplaceAll old new (drop (length old) (c # s))) p"
      using 2(6) by (simp only: replace_hit [OF conjunct1 [OF True] conjunct2 [OF True]] contains_after [OF 2(5,3)])
    then have "str_contains (drop (length old) (c # s)) p" using "2.IH"(1) [OF True] 2(3-5) by simp
    then show ?thesis by (rule contains_drop)
  next
    case False
    then have r: "ReplaceAll old new (c # s) = c # ReplaceAll old new s" by (rule replace_miss)
    have "has_prefix (ReplaceAll old new (c # s)) p \<or> str_contains (ReplaceAll old new s) p"
      using 2(6) unfolding r by simp
    then show ?thesis using replace_prefix [OF 2(3,4)] "2.IH"(2) [OF False] 2(3-5) by auto
  qed
qed simp

lemma replace_removes:
  "set p \<inter> set new = {} \<Longrightarrow> new \<noteq> [] \<Longrightarrow> p \<noteq> [] \<Longrightarrow> \<not> str_contains (ReplaceAll p new s) p"
proof (induction p new s rule: ReplaceAll.induct)
  case (2 old new c s)
  show ?case
  proof (cases "has_prefix (c # s) old")
    case True
    then show ?thesis using "2.IH"(1) 2(3-5) by (simp only: replace_hit [OF 2(5) True] contains_after [OF 2(5,3)] simp_thms)
  next
    case False
    then have r: "ReplaceAll old new (c # s) = c # ReplaceAll old new s" by (simp add: replace_miss)
    have "\<not> has_prefix (ReplaceAll old new (c # s)) old" using False replace_prefix [OF 2(3,4)] by blast
    then show ?thesis using "2.IH"(2) False 2(3-5) unfolding r by simp
  qed
qed simp

end
