(* ===== verification/Script.thy ===== *)
theory Script
  imports Protocol_Modules Go_Text
begin

text \<open>
  Scripts and their VUs: \<open>internal/script/script.go\<close>, \<open>lifecycle.go\<close>, \<open>protocols.go\<close> and \<open>exec.go\<close>. The
  JavaScript engine (goja) and the bundler (esbuild) are not in the repository: what JavaScript does
  when it runs (what it returns or throws, which modules it calls, which resources it registers) is
  an argument, and so is what \<open>JSON.parse\<close> and \<open>JSON.stringify\<close> answer. Every effect of the Go code is
  an event of a trace.
\<close>

section \<open>JavaScript values and errors\<close>

datatype 'v jsval =
    JsUndefined
  | JsNull
  | JsValue 'v
  | JsPromise "'v js_promise"
and 'v js_promise =
    Fulfilled "'v jsval"
  | Rejected string "string option"
  | Pending

record js_error =
  je_text :: string
  je_overflow :: bool

definition isSet :: "'v jsval \<Rightarrow> bool" where
  "isSet v \<longleftrightarrow> v \<noteq> JsUndefined \<and> v \<noteq> JsNull"

definition maxCallStackSize :: int where "maxCallStackSize = 2500"

definition scriptErrorMessage :: "js_error \<Rightarrow> string" where
  "scriptErrorMessage e =
     (if je_overflow e
      then ''maximum call stack size of '' @ itoa maxCallStackSize @ '' frames exceeded'' @ je_text e
      else if str_contains (je_text e) ''ReferenceError: http is not defined''
      then je_text e @ '' (http is a module now: add import http from '' @ [CHR 0x22] @ ''loadtool/http'' @ [CHR 0x22] @ '')''
      else je_text e)"

definition errNeverSettled :: string where
  "errNeverSettled = ''the async function did not finish: it awaits something that never resolves '' @
     ''(LoadTool has no event loop, so await only works on values that are already available)''"

definition rejection :: "string \<Rightarrow> string option \<Rightarrow> string" where
  "rejection msg stack = (case stack of Some s \<Rightarrow> if s \<noteq> [] then s else msg | None \<Rightarrow> msg)"

definition settle :: "'v jsval \<Rightarrow> string + 'v jsval" where
  "settle v = (case v of
       JsPromise p \<Rightarrow> (case p of
           Fulfilled r \<Rightarrow> Inr r
         | Rejected msg stack \<Rightarrow> Inl (rejection msg stack)
         | Pending \<Rightarrow> Inl errNeverSettled)
     | _ \<Rightarrow> Inr v)"

section \<open>Programs: script.go and exec.go\<close>

record program =
  pg_filename :: string
  pg_dir :: string
  pg_execs :: "string list"
  pg_env :: "(string \<times> string) list"
  pg_console :: bool
  pg_discardBodies :: bool
  pg_keepCookies :: bool
  pg_setupData :: "string option"
  pg_warn :: bool
  pg_mods :: "module_set option"

definition WithSetupData :: "string option \<Rightarrow> program \<Rightarrow> program" where
  "WithSetupData data p = p\<lparr>pg_setupData := data\<rparr>"

definition WithKeepCookies :: "bool \<Rightarrow> program \<Rightarrow> program" where
  "WithKeepCookies keep p = p\<lparr>pg_keepCookies := keep\<rparr>"

definition WithDiscardResponseBodies :: "bool \<Rightarrow> program \<Rightarrow> program" where
  "WithDiscardResponseBodies discard p = p\<lparr>pg_discardBodies := discard\<rparr>"

definition WithWarn :: "bool \<Rightarrow> program \<Rightarrow> program" where
  "WithWarn warn p = p\<lparr>pg_warn := warn\<rparr>"

definition WithEnv :: "(string \<times> string) list \<Rightarrow> program \<Rightarrow> program" where
  "WithEnv env p = p\<lparr>pg_env := env\<rparr>"

definition WithConsole :: "bool \<Rightarrow> program \<Rightarrow> program" where
  "WithConsole w p = p\<lparr>pg_console := w\<rparr>"

datatype exec_error =
    ExportsFailed string
  | NotExported string string
  | RecompileFailed string

fun exec_names :: "string list \<Rightarrow> string list \<Rightarrow> string list" where
  "exec_names execs [] = execs"
| "exec_names execs (n # ns) =
     exec_names (if n \<noteq> ''default'' \<and> n \<notin> set execs then execs @ [n] else execs) ns"

fun check_exports :: "string list \<Rightarrow> string \<Rightarrow> string list \<Rightarrow> exec_error option" where
  "check_exports exports filename [] = None"
| "check_exports exports filename (n # ns) =
     (if n \<notin> set exports then Some (NotExported n filename) else check_exports exports filename ns)"

text \<open>\<open>exports\<close> is what the bundler says the script exports, \<open>rebuild\<close> the error of bundling and compiling
  it again for these functions, if any.\<close>

definition WithExecs :: "string + string list \<Rightarrow> (string list \<Rightarrow> string option) \<Rightarrow> string list \<Rightarrow> program \<Rightarrow> exec_error + program" where
  "WithExecs exports rebuild names p =
     (let execs = exec_names [] names in
      if execs = [] then Inr p
      else let execs = sort execs in
        case exports of
          Inl e \<Rightarrow> Inl (ExportsFailed e)
        | Inr ex \<Rightarrow> (case check_exports ex (pg_filename p) execs of
            Some e \<Rightarrow> Inl e
          | None \<Rightarrow> (case rebuild execs of
              Some e \<Rightarrow> Inl (RecompileFailed e)
            | None \<Rightarrow> Inr (p\<lparr>pg_execs := execs\<rparr>))))"

section \<open>The modules of a VU: protocols.go\<close>

record vu_modules =
  vm_insts :: "bool list"
  vm_closers :: "nat list"

datatype vu_event =
    InstanceCreated nat
  | IterationBegun nat
  | IterationEnded nat
  | InstanceClosed nat
  | CloserRegistered nat
  | CloserClosed nat
  | CookiesReset
  | IterSet int
  | ScriptError string

text \<open>What JavaScript does with modules: use module \<open>i\<close> (and what its \<open>NewInstance\<close> answers), or
  register a resource.\<close>

datatype js_op = UseModule nat "string option" | OnClose nat

definition instanceFor :: "module_set \<Rightarrow> vu_modules \<Rightarrow> nat \<Rightarrow> string option \<Rightarrow> vu_event list \<times> bool \<times> vu_modules" where
  "instanceFor ms vm i newInstance =
     (if vm_insts vm ! i then ([], True, vm)
      else if \<not> ms_runs ms ! i then ([], False, vm)
      else case newInstance of
        Some e \<Rightarrow> ([], False, vm)
      | None \<Rightarrow> ([InstanceCreated i], True, vm\<lparr>vm_insts := (vm_insts vm)[i := True]\<rparr>))"

fun run_js :: "module_set \<Rightarrow> js_op list \<Rightarrow> vu_modules \<Rightarrow> vu_event list \<times> vu_modules" where
  "run_js ms [] vm = ([], vm)"
| "run_js ms (UseModule i ni # ops) vm =
     (case instanceFor ms vm i ni of (tr, _, vm1) \<Rightarrow>
       (case run_js ms ops vm1 of (tr', vm2) \<Rightarrow> (tr @ tr', vm2)))"
| "run_js ms (OnClose c # ops) vm =
     (case run_js ms ops (vm\<lparr>vm_closers := vm_closers vm @ [c]\<rparr>) of (tr', vm2) \<Rightarrow> (CloserRegistered c # tr', vm2))"

definition live_insts :: "vu_modules \<Rightarrow> nat list" where
  "live_insts vm = filter (\<lambda>i. vm_insts vm ! i) [0..<length (vm_insts vm)]"

definition beginIteration :: "vu_modules \<Rightarrow> vu_event list" where
  "beginIteration vm = map IterationBegun (live_insts vm)"

definition endIteration :: "vu_modules \<Rightarrow> vu_event list" where
  "endIteration vm = map IterationEnded (live_insts vm)"

fun close_insts :: "nat list \<Rightarrow> vu_modules \<Rightarrow> vu_event list \<times> vu_modules" where
  "close_insts [] vm = ([], vm)"
| "close_insts (i # is) vm =
     (if \<not> vm_insts vm ! i then close_insts is vm
      else case close_insts is (vm\<lparr>vm_insts := (vm_insts vm)[i := False]\<rparr>) of
        (tr, vm') \<Rightarrow> (InstanceClosed i # tr, vm'))"

definition close_modules :: "vu_modules \<Rightarrow> vu_event list \<times> vu_modules" where
  "close_modules vm = (case close_insts [0..<length (vm_insts vm)] vm of
     (tr, vm') \<Rightarrow> (tr @ map CloserClosed (vm_closers vm'), vm'\<lparr>vm_closers := []\<rparr>))"

section \<open>VUs: script.go\<close>

record vu =
  vu_id :: int
  vu_exec :: string
  vu_iter :: int
  vu_running :: bool
  vu_discardBodies :: bool
  vu_keepCookies :: bool
  vu_proto :: "vu_modules option"

text \<open>The VU's runtime: whether its globals can be set, and what it does while its top-level code runs: the modules it uses, its error, what
  \<open>ctx.Err()\<close> is when it returned, whether the default-export slot holds a function, and what
  \<open>JSON.parse\<close> answers for the setup data.\<close>

record js_init =
  ji_setError :: "string option"
  ji_ops :: "js_op list"
  ji_error :: "js_error option"
  ji_ctxErr :: "string option"
  ji_hasFn :: bool
  ji_parse :: "string \<Rightarrow> js_error option"

datatype vu_error =
    NotPrepared string
  | SetFailed string
  | InitInterrupted string
  | InitFailed string
  | ExecNotFunction string
  | NoDefaultExport
  | BadSetupData string

definition parseData :: "(string \<Rightarrow> js_error option) \<Rightarrow> string option \<Rightarrow> string option" where
  "parseData parse data = (case data of None \<Rightarrow> None | Some d \<Rightarrow> map_option scriptErrorMessage (parse d))"

definition new_proto :: "module_set option \<Rightarrow> vu_modules option" where
  "new_proto mo = (if importsAny mo
     then (case mo of None \<Rightarrow> None | Some ms \<Rightarrow> Some \<lparr>vm_insts = replicate (length (ms_all ms)) False, vm_closers = []\<rparr>)
     else None)"

definition with_modules :: "module_set option \<Rightarrow> js_op list \<Rightarrow> vu \<Rightarrow> vu_event list \<times> vu" where
  "with_modules mo ops v = (case (mo, vu_proto v) of
       (Some ms, Some vm) \<Rightarrow> (case run_js ms ops vm of (tr, vm') \<Rightarrow> (tr, v\<lparr>vu_proto := Some vm'\<rparr>))
     | _ \<Rightarrow> ([], v))"

definition NewVUExec :: "program \<Rightarrow> int \<Rightarrow> string \<Rightarrow> js_init \<Rightarrow> vu_event list \<times> (vu_error + vu)" where
  "NewVUExec p n exec rt =
     (if exec \<noteq> ''default'' \<and> exec \<notin> set (pg_execs p) then ([], Inl (NotPrepared exec))
      else let v = \<lparr>vu_id = n, vu_exec = exec, vu_iter = 0, vu_running = False,
                    vu_discardBodies = pg_discardBodies p, vu_keepCookies = pg_keepCookies p,
                    vu_proto = new_proto (pg_mods p)\<rparr>
        in case ji_setError rt of Some e \<Rightarrow> ([], Inl (SetFailed e)) | None \<Rightarrow>
        (case with_modules (pg_mods p) (ji_ops rt) v of (tr, v) \<Rightarrow> (tr,
          (case ji_error rt of
             Some e \<Rightarrow> (case ji_ctxErr rt of
                 Some cause \<Rightarrow> Inl (InitInterrupted cause)
               | None \<Rightarrow> Inl (InitFailed (scriptErrorMessage e)))
           | None \<Rightarrow>
               if \<not> ji_hasFn rt \<and> n \<noteq> 0
               then (if exec \<noteq> ''default'' then Inl (ExecNotFunction exec) else Inl NoDefaultExport)
               else (case parseData (ji_parse rt) (pg_setupData p) of
                   Some e \<Rightarrow> Inl (BadSetupData e)
                 | None \<Rightarrow> Inr v)))))"

text \<open>One iteration: whether the context was done before it, what the function did and returned, and
  whether the context is done after it.\<close>

record 'v js_iteration =
  it_ctxDone :: bool
  it_ops :: "js_op list"
  it_result :: "js_error + 'v jsval"
  it_ctxDoneAfter :: bool

definition call_error :: "js_error + 'v jsval \<Rightarrow> string option" where
  "call_error r = (case r of
       Inl e \<Rightarrow> Some (scriptErrorMessage e)
     | Inr v \<Rightarrow> (case settle v of Inl m \<Rightarrow> Some (scriptErrorMessage \<lparr>je_text = m, je_overflow = False\<rparr>) | Inr _ \<Rightarrow> None))"

definition proto_events :: "(vu_modules \<Rightarrow> vu_event list) \<Rightarrow> vu \<Rightarrow> vu_event list" where
  "proto_events f v = (case vu_proto v of None \<Rightarrow> [] | Some vm \<Rightarrow> f vm)"

definition Iterate :: "module_set option \<Rightarrow> 'v js_iteration \<Rightarrow> vu \<Rightarrow> vu_event list \<times> vu" where
  "Iterate mo it v =
     (if it_ctxDone it then ([], v)
      else let v1 = v\<lparr>vu_running := True\<rparr>;
               reset = (if \<not> vu_keepCookies v1 then [CookiesReset] else []);
               begin = proto_events beginIteration v1;
               set_iter = [IterSet (vu_iter v1)];
               v2 = v1\<lparr>vu_iter := wrap64 (vu_iter v1 + 1)\<rparr>
           in case with_modules mo (it_ops it) v2 of (js, v3) \<Rightarrow>
             (reset @ begin @ set_iter @ js @ proto_events endIteration v3 @
                (case call_error (it_result it) of
                   Some m \<Rightarrow> if \<not> it_ctxDoneAfter it then [ScriptError m] else []
                 | None \<Rightarrow> []),
              v3\<lparr>vu_running := False\<rparr>))"

definition VU_Close :: "vu \<Rightarrow> vu_event list \<times> vu" where
  "VU_Close v = (case vu_proto v of None \<Rightarrow> ([], v)
     | Some vm \<Rightarrow> (case close_modules vm of (tr, vm') \<Rightarrow> (tr, v\<lparr>vu_proto := Some vm'\<rparr>)))"

section \<open>Setup and teardown: lifecycle.go\<close>

text \<open>A call of setup or teardown: the modules it used, what it returned, the cause of the test's
  cancellation, if any, when it had returned, and whether its own deadline had passed.\<close>

record 'v js_call =
  jc_ops :: "js_op list"
  jc_result :: "js_error + 'v jsval"
  jc_ctxErr :: "string option"
  jc_deadline :: bool

definition lc_result :: "string \<Rightarrow> string \<Rightarrow> duration \<Rightarrow> 'v js_call \<Rightarrow> string + 'v jsval" where
  "lc_result name timeoutOption timeout c = (case jc_ctxErr c of
       Some cause \<Rightarrow> Inl (name @ '' interrupted: '' @ cause)
     | None \<Rightarrow> (case jc_result c of
         Inr v \<Rightarrow> (case settle v of Inl e \<Rightarrow> Inl (name @ '': '' @ e) | Inr r \<Rightarrow> Inr r)
       | Inl e \<Rightarrow>
           if jc_deadline c
           then Inl (name @ '' did not finish within '' @ timeoutOption @ '' ('' @ timeoutOption @ '' '' @ Duration_String timeout @ '')'')
           else Inl (name @ '': '' @ scriptErrorMessage e)))"

definition lc_call :: "module_set option \<Rightarrow> string \<Rightarrow> string \<Rightarrow> duration \<Rightarrow> 'v js_call \<Rightarrow> vu \<Rightarrow>
    vu_event list \<times> (string + 'v jsval) \<times> vu" where
  "lc_call mo name timeoutOption timeout c v =
     (case with_modules mo (jc_ops c) (v\<lparr>vu_running := True\<rparr>) of (js, v1) \<Rightarrow>
        (js @ proto_events endIteration v1, lc_result name timeoutOption timeout c, v1\<lparr>vu_running := False\<rparr>))"

definition Setup :: "module_set option \<Rightarrow> ('v jsval \<Rightarrow> js_error + string option) \<Rightarrow> duration \<Rightarrow> 'v js_call option \<Rightarrow> vu \<Rightarrow>
    vu_event list \<times> (string + string option) \<times> vu" where
  "Setup mo stringify timeout fn v = (case fn of
       None \<Rightarrow> ([], Inr None, v)
     | Some c \<Rightarrow> (case lc_call mo ''setup'' ''setupTimeout'' timeout c v of (tr, r, v1) \<Rightarrow>
         (tr, (case r of
            Inl e \<Rightarrow> Inl e
          | Inr val \<Rightarrow>
              if \<not> isSet val then Inr None
              else (case stringify val of
                  Inl e \<Rightarrow> Inl (''setup: the returned data must be JSON-serializable: '' @ scriptErrorMessage e)
                | Inr s \<Rightarrow> Inr s)), v1)))"

text \<open>\<open>fn\<close> is what the teardown function does with the data it is passed.\<close>

definition Teardown :: "module_set option \<Rightarrow> (string \<Rightarrow> js_error option) \<Rightarrow> duration \<Rightarrow> (string option \<Rightarrow> 'v js_call) option \<Rightarrow>
    string option \<Rightarrow> vu \<Rightarrow> vu_event list \<times> string option \<times> vu" where
  "Teardown mo parse timeout fn data v = (case fn of
       None \<Rightarrow> ([], None, v)
     | Some f \<Rightarrow> (case parseData parse data of
         Some e \<Rightarrow> ([], Some (''teardown: parse setup data: '' @ e), v)
       | None \<Rightarrow> (case lc_call mo ''teardown'' ''teardownTimeout'' timeout (f data) v of (tr, r, v1) \<Rightarrow>
           (tr, (case r of Inl e \<Rightarrow> Some e | Inr _ \<Rightarrow> None), v1))))"

section \<open>The lifetime of a VU's instances\<close>

text \<open>What a module and a resource may rely on, as an automaton over the events of a VU: an instance is
  created once, gets iterations only while it is open, and is closed once; resources are closed in
  the order they were registered.\<close>

fun life_step :: "vu_event \<Rightarrow> vu_modules \<Rightarrow> vu_modules option" where
  "life_step (InstanceCreated i) m =
     (if i < length (vm_insts m) \<and> \<not> vm_insts m ! i then Some (m\<lparr>vm_insts := (vm_insts m)[i := True]\<rparr>) else None)"
| "life_step (IterationBegun i) m = (if i < length (vm_insts m) \<and> vm_insts m ! i then Some m else None)"
| "life_step (IterationEnded i) m = (if i < length (vm_insts m) \<and> vm_insts m ! i then Some m else None)"
| "life_step (InstanceClosed i) m =
     (if i < length (vm_insts m) \<and> vm_insts m ! i then Some (m\<lparr>vm_insts := (vm_insts m)[i := False]\<rparr>) else None)"
| "life_step (CloserRegistered c) m = Some (m\<lparr>vm_closers := vm_closers m @ [c]\<rparr>)"
| "life_step (CloserClosed c) m =
     (case vm_closers m of [] \<Rightarrow> None | d # ds \<Rightarrow> if c = d then Some (m\<lparr>vm_closers := ds\<rparr>) else None)"
| "life_step e m = Some m"

fun life :: "vu_event list \<Rightarrow> vu_modules \<Rightarrow> vu_modules option" where
  "life [] m = Some m"
| "life (e # es) m = (case life_step e m of None \<Rightarrow> None | Some m' \<Rightarrow> life es m')"

lemma life_append [simp]: "life (xs @ ys) m = (case life xs m of None \<Rightarrow> None | Some m' \<Rightarrow> life ys m')"
  by (induction xs m rule: life.induct) (auto split: option.split)

definition op_ok :: "module_set \<Rightarrow> js_op \<Rightarrow> bool" where
  "op_ok ms op = (case op of UseModule i _ \<Rightarrow> i < length (ms_all ms) | OnClose _ \<Rightarrow> True)"

lemma run_js_life:
  "list_all (op_ok ms) ops \<Longrightarrow> length (vm_insts m) = length (ms_all ms) \<Longrightarrow> run_js ms ops m = (tr, m') \<Longrightarrow>
   life tr m = Some m' \<and> length (vm_insts m') = length (ms_all ms)"
proof (induction ms ops m arbitrary: tr rule: run_js.induct)
  case (2 ms i ni ops m)
  obtain tr1 ok m1 where i: "instanceFor ms m i ni = (tr1, ok, m1)" by (metis prod_cases3)
  obtain tr2 where r: "run_js ms ops m1 = (tr2, m')" "tr = tr1 @ tr2" using 2(4) i by (auto split: prod.splits)
  have "life tr1 m = Some m1" "length (vm_insts m1) = length (ms_all ms)"
    using i 2(2,3) by (auto simp: instanceFor_def op_ok_def split: if_splits option.splits)
  then show ?case using "2.IH" [OF i [symmetric] refl _ _ r(1)] 2(2) r by simp
next
  case (3 ms c ops m)
  then show ?case by (auto split: prod.splits)
qed auto

lemma life_marks:
  "list_all (\<lambda>i. i < length (vm_insts m) \<and> vm_insts m ! i) is \<Longrightarrow>
   life (map IterationBegun is) m = Some m \<and> life (map IterationEnded is) m = Some m"
  by (induction "is") auto

lemma live_insts_open: "list_all (\<lambda>i. i < length (vm_insts m) \<and> vm_insts m ! i) (live_insts m)"
  by (auto simp: live_insts_def list_all_iff)

lemma life_begin_end: "life (beginIteration m) m = Some m" "life (endIteration m) m = Some m"
  using life_marks [OF live_insts_open] by (auto simp: beginIteration_def endIteration_def)

lemma close_insts_life:
  "list_all (\<lambda>i. i < length (vm_insts m)) is \<Longrightarrow> close_insts is m = (tr, m') \<Longrightarrow>
   life tr m = Some m' \<and> length (vm_insts m') = length (vm_insts m) \<and> vm_closers m' = vm_closers m \<and>
   (\<forall>i < length (vm_insts m). vm_insts m' ! i \<longleftrightarrow> vm_insts m ! i \<and> i \<notin> set is)"
proof (induction "is" m arbitrary: tr rule: close_insts.induct)
  case (2 i "is" m)
  show ?case
  proof (cases "vm_insts m ! i")
    case False
    then show ?thesis using 2 by auto
  next
    case True
    obtain tr1 where r: "close_insts is (m\<lparr>vm_insts := (vm_insts m)[i := False]\<rparr>) = (tr1, m')" "tr = InstanceClosed i # tr1"
      using 2(4) True by (auto split: prod.splits)
    then show ?thesis using "2.IH"(2) [OF _ _ r(1)] True 2(3) by (auto simp: nth_list_update)
  qed
qed simp

lemma life_closers: "vm_closers m = cs \<Longrightarrow> life (map CloserClosed cs) m = Some (m\<lparr>vm_closers := []\<rparr>)"
proof (induction cs arbitrary: m)
  case Nil
  then show ?case by (cases m) simp
next
  case (Cons c cs)
  then show ?case using Cons.IH [of "m\<lparr>vm_closers := cs\<rparr>"] by simp
qed

lemma close_modules_life:
  "life (fst (close_modules m)) m = Some (snd (close_modules m)) \<and>
   snd (close_modules m) = \<lparr>vm_insts = replicate (length (vm_insts m)) False, vm_closers = []\<rparr>"
proof -
  obtain tr m' where c: "close_insts [0..<length (vm_insts m)] m = (tr, m')" by fastforce
  have l: "life tr m = Some m'" "length (vm_insts m') = length (vm_insts m)" "vm_closers m' = vm_closers m"
    "\<forall>i < length (vm_insts m). \<not> vm_insts m' ! i"
    using close_insts_life [OF _ c] by (auto simp: list_all_iff)
  have "vm_insts m' = replicate (length (vm_insts m)) False" by (rule nth_equalityI) (use l in auto)
  then show ?thesis using l life_closers [of m'] by (simp add: close_modules_def c)
qed

datatype 'v vu_op = Iteration "'v js_iteration" | CloseVU

fun vu_op_step :: "module_set option \<Rightarrow> 'v vu_op \<Rightarrow> vu \<Rightarrow> vu_event list \<times> vu" where
  "vu_op_step mo (Iteration it) v = Iterate mo it v"
| "vu_op_step mo CloseVU v = VU_Close v"

fun run_vu :: "module_set option \<Rightarrow> 'v vu_op list \<Rightarrow> vu \<Rightarrow> vu_event list \<times> vu" where
  "run_vu mo [] v = ([], v)"
| "run_vu mo (x # xs) v = (case vu_op_step mo x v of (tr, v1) \<Rightarrow> (case run_vu mo xs v1 of (tr', v2) \<Rightarrow> (tr @ tr', v2)))"

definition iter_sets :: "vu_event list \<Rightarrow> int list" where
  "iter_sets tr = concat (map (\<lambda>e. case e of IterSet n \<Rightarrow> [n] | _ \<Rightarrow> []) tr)"

lemma iter_sets_simps [simp]: "iter_sets [] = []" "iter_sets (xs @ ys) = iter_sets xs @ iter_sets ys"
  "iter_sets (IterSet n # xs) = n # iter_sets xs" "iter_sets [ScriptError m] = []" "iter_sets [CookiesReset] = []"
  by (simp_all add: iter_sets_def)

lemma iter_sets_if [simp]: "iter_sets (if b then [CookiesReset] else []) = []" "iter_sets (if b then [ScriptError e] else []) = []"
  by simp_all

lemma iter_sets_modules [simp]: "iter_sets (beginIteration m) = []" "iter_sets (endIteration m) = []"
  by (simp_all add: iter_sets_def beginIteration_def endIteration_def o_def)

lemma iter_sets_js: "iter_sets (fst (run_js ms ops m)) = []"
  by (induction ms ops m rule: run_js.induct) (auto simp: iter_sets_def instanceFor_def split: prod.splits option.splits)

lemma iter_sets_close: "iter_sets (fst (close_insts is m)) = []" "iter_sets (fst (close_modules m)) = []"
proof -
  show 1: "iter_sets (fst (close_insts is m)) = []" for "is"
    by (induction "is" m rule: close_insts.induct) (auto simp: iter_sets_def split: prod.splits)
  show "iter_sets (fst (close_modules m)) = []"
    using 1 [of "[0..<length (vm_insts m)]"] by (auto simp: close_modules_def iter_sets_def o_def split: prod.splits)
qed

definition vu_op_ok :: "module_set \<Rightarrow> 'v vu_op \<Rightarrow> bool" where
  "vu_op_ok ms x = (case x of Iteration it \<Rightarrow> list_all (op_ok ms) (it_ops it) | CloseVU \<Rightarrow> True)"

definition vu_ok :: "module_set \<Rightarrow> vu \<Rightarrow> bool" where
  "vu_ok ms v \<longleftrightarrow> \<not> vu_running v \<and> (case vu_proto v of None \<Rightarrow> False | Some m \<Rightarrow> length (vm_insts m) = length (ms_all ms))"

lemma vu_step_life:
  assumes "vu_ok ms v" "vu_op_ok ms x" "vu_op_step (Some ms) x v = (tr, v')"
  shows "vu_ok ms v' \<and> life tr (the (vu_proto v)) = vu_proto v' \<and>
    (iter_sets tr = [] \<and> vu_iter v' = vu_iter v \<or> iter_sets tr = [vu_iter v] \<and> vu_iter v' = wrap64 (vu_iter v + 1)) \<and>
    (x = CloseVU \<longrightarrow> vu_proto v' = Some \<lparr>vm_insts = replicate (length (ms_all ms)) False, vm_closers = []\<rparr>)"
proof -
  obtain m where m: "vu_proto v = Some m" "length (vm_insts m) = length (ms_all ms)" "\<not> vu_running v"
    using assms(1) by (auto simp: vu_ok_def split: option.splits)
  show ?thesis
  proof (cases x)
    case CloseVU
    then show ?thesis using assms(3) m close_modules_life [of m] iter_sets_close(2) [of m]
      by (auto simp: VU_Close_def vu_ok_def split: prod.splits)
  next
    case (Iteration it)
    show ?thesis
    proof (cases "it_ctxDone it")
      case True
      then show ?thesis using assms m Iteration by (auto simp: Iterate_def vu_ok_def)
    next
      case False
      obtain js m' where js: "run_js ms (it_ops it) m = (js, m')" by fastforce
      have l: "life js m = Some m'" "length (vm_insts m') = length (ms_all ms)"
        using run_js_life [OF _ m(2) js] assms(2) Iteration by (simp_all add: vu_op_ok_def)
      have "iter_sets js = []" using iter_sets_js [of ms "it_ops it" m] js by simp
      then show ?thesis using assms(3) m l js False Iteration life_begin_end [of m] life_begin_end [of m']
        by (auto simp: Iterate_def with_modules_def proto_events_def vu_ok_def Let_def split: option.splits)
    qed
  qed
qed

lemma run_vu_life:
  "vu_ok ms v \<Longrightarrow> list_all (vu_op_ok ms) xs \<Longrightarrow> run_vu (Some ms) xs v = (tr, v') \<Longrightarrow>
   0 \<le> vu_iter v \<Longrightarrow> vu_iter v + int (length xs) < 2 ^ 63 \<Longrightarrow>
   vu_ok ms v' \<and> life tr (the (vu_proto v)) = vu_proto v' \<and>
   vu_iter v \<le> vu_iter v' \<and> iter_sets tr = [vu_iter v..vu_iter v' - 1]"
proof (induction "Some ms" xs v arbitrary: tr rule: run_vu.induct)
  case (1 v)
  then show ?case by (auto simp: vu_ok_def split: option.splits)
next
  case (2 x xs v)
  obtain tr1 v1 where s: "vu_op_step (Some ms) x v = (tr1, v1)" by fastforce
  obtain tr2 where r: "run_vu (Some ms) xs v1 = (tr2, v')" "tr = tr1 @ tr2" using 2(4) s by (auto split: prod.splits)
  have l: "vu_ok ms v1" "life tr1 (the (vu_proto v)) = vu_proto v1"
    "iter_sets tr1 = [] \<and> vu_iter v1 = vu_iter v \<or> iter_sets tr1 = [vu_iter v] \<and> vu_iter v1 = wrap64 (vu_iter v + 1)"
    using vu_step_life [OF 2(2) _ s] 2(3) by auto
  have w: "wrap64 (vu_iter v + 1) = vu_iter v + 1" using 2(5,6) by (intro wrap64_nonneg_id) auto
  have "vu_ok ms v' \<and> life tr2 (the (vu_proto v1)) = vu_proto v' \<and> vu_iter v1 \<le> vu_iter v' \<and>
      iter_sets tr2 = [vu_iter v1..vu_iter v' - 1]"
    using "2.hyps" [OF s [symmetric] l(1) _ r(1)] 2(3,5,6) l(3) w by auto
  moreover obtain m1 where "vu_proto v1 = Some m1" using l(1) by (auto simp: vu_ok_def split: option.splits)
  ultimately show ?case using l(2,3) r(2) w by (auto simp: upto_rec1 [of "vu_iter v"])
qed

lemma NewVUExec_Inr:
  "NewVUExec p n exec rt = (tr0, Inr v0) \<Longrightarrow> pg_mods p = Some ms \<Longrightarrow> importsAny (Some ms) \<Longrightarrow>
   \<exists>m1. run_js ms (ji_ops rt) \<lparr>vm_insts = replicate (length (ms_all ms)) False, vm_closers = []\<rparr> = (tr0, m1) \<and>
     vu_proto v0 = Some m1 \<and> vu_iter v0 = 0 \<and> \<not> vu_running v0"
  by (auto simp: NewVUExec_def new_proto_def with_modules_def Let_def split: if_splits option.splits prod.splits)

lemma close_none: "close_insts [0..<n] \<lparr>vm_insts = replicate n False, vm_closers = cs\<rparr> = ([], \<lparr>vm_insts = replicate n False, vm_closers = cs\<rparr>)"
proof -
  have "list_all (\<lambda>i. \<not> vm_insts m ! i) is \<Longrightarrow> close_insts is m = ([], m)" for "is" m
    by (induction "is") simp_all
  then show ?thesis by (simp add: list_all_iff)
qed

text \<open>C23: A VU and its module instances. Whatever a script does in its top-level code and its
  iterations, an instance of a module is created at most once while it is open, is told of
  iterations only while it is open, and is closed exactly once; resources are closed once, in the
  order they were registered; the iterations see \<open>__ITER\<close> 0, 1, 2, ... without a gap; outside an
  iteration the VU has no context. Closing the VU leaves nothing open, and closing it again does
  nothing.\<close>

theorem vu_lifetime:
  assumes "NewVUExec p n exec rt = (tr0, Inr v0)" "pg_mods p = Some ms" "importsAny (Some ms)"
    and "list_all (op_ok ms) (ji_ops rt)" "list_all (vu_op_ok ms) xs" "int (length xs) < 2 ^ 63"
  shows "(case run_vu (pg_mods p) xs v0 of (tr, v) \<Rightarrow>
     life (tr0 @ tr) \<lparr>vm_insts = replicate (length (ms_all ms)) False, vm_closers = []\<rparr> = vu_proto v \<and>
     \<not> vu_running v \<and> iter_sets (tr0 @ tr) = [0..vu_iter v - 1] \<and>
     (case VU_Close v of (ctr, v') \<Rightarrow>
        life (tr0 @ tr @ ctr) \<lparr>vm_insts = replicate (length (ms_all ms)) False, vm_closers = []\<rparr> =
          Some \<lparr>vm_insts = replicate (length (ms_all ms)) False, vm_closers = []\<rparr> \<and>
        VU_Close v' = ([], v')))"
proof -
  let ?m0 = "\<lparr>vm_insts = replicate (length (ms_all ms)) False, vm_closers = []\<rparr>"
  obtain m1 where m1: "run_js ms (ji_ops rt) ?m0 = (tr0, m1)" "vu_proto v0 = Some m1" "vu_iter v0 = 0" "\<not> vu_running v0"
    using NewVUExec_Inr [OF assms(1-3)] by blast
  have l: "life tr0 ?m0 = Some m1" "vu_ok ms v0"
    using run_js_life [OF assms(4) _ m1(1)] m1 by (auto simp: vu_ok_def)
  have i0: "iter_sets tr0 = []" using iter_sets_js [of ms "ji_ops rt" ?m0] m1(1) by simp
  obtain tr v where r: "run_vu (Some ms) xs v0 = (tr, v)" by fastforce
  have v: "vu_ok ms v" "life tr m1 = vu_proto v" "iter_sets tr = [0..vu_iter v - 1]"
    using run_vu_life [OF l(2) assms(5) r] assms(6) m1 by auto
  obtain ctr v' where c: "VU_Close v = (ctr, v')" by fastforce
  have c': "vu_ok ms v'" "life ctr (the (vu_proto v)) = vu_proto v'" "vu_proto v' = Some ?m0"
    using vu_step_life [OF v(1), of CloseVU ctr v'] c by (auto simp: vu_op_ok_def)
  obtain m where m: "vu_proto v = Some m" "\<not> vu_running v" using v(1) by (auto simp: vu_ok_def split: option.splits)
  have "close_modules ?m0 = ([], ?m0)"
    using close_none by (simp add: close_modules_def)
  then have "VU_Close v' = ([], v')" using c'(3) by (simp add: VU_Close_def)
  then show ?thesis using r c l v c' m i0 by (simp add: assms(2))
qed

definition vu_example_modules :: module_set where
  "vu_example_modules = ms_seal (both_imported\<lparr>ms_runs := [True, True]\<rparr>)"

definition vu_example_program :: program where
  "vu_example_program = \<lparr>pg_filename = ''test.ts'', pg_dir = [], pg_execs = [], pg_env = [], pg_console = False,
     pg_discardBodies = True, pg_keepCookies = False, pg_setupData = None, pg_warn = False,
     pg_mods = Some vu_example_modules\<rparr>"

definition vu_example_init :: js_init where
  "vu_example_init = \<lparr>ji_setError = None, ji_ops = [UseModule 0 None], ji_error = None, ji_ctxErr = None, ji_hasFn = True, ji_parse = (\<lambda>_. None)\<rparr>"

definition vu_example_ops :: "nat vu_op list" where
  "vu_example_ops = [Iteration \<lparr>it_ctxDone = False, it_ops = [UseModule 1 None, OnClose 7], it_result = Inr JsUndefined, it_ctxDoneAfter = False\<rparr>,
     Iteration \<lparr>it_ctxDone = False, it_ops = [], it_result = Inr (JsPromise Pending), it_ctxDoneAfter = False\<rparr>]"

theorem vu_lifetime_witness:
  "(case NewVUExec vu_example_program 1 ''default'' vu_example_init of (tr0, Inl _) \<Rightarrow> False | (tr0, Inr v0) \<Rightarrow>
     tr0 = [InstanceCreated 0] \<and>
     (case run_vu (pg_mods vu_example_program) vu_example_ops v0 of (tr, v) \<Rightarrow>
        iter_sets tr = [0, 1] \<and> last tr = ScriptError errNeverSettled \<and> vu_iter v = 2 \<and>
        fst (VU_Close v) = [InstanceClosed 0, InstanceClosed 1, CloserClosed 7] \<and>
        iter_sets (tr0 @ tr) = [0..vu_iter v - 1]))"
proof -
  obtain tr0 v0 where n: "NewVUExec vu_example_program 1 ''default'' vu_example_init = (tr0, Inr v0)" "tr0 = [InstanceCreated 0]"
  proof -
    have "(case NewVUExec vu_example_program 1 ''default'' vu_example_init of (tr0, Inl _) \<Rightarrow> False | (tr0, Inr v0) \<Rightarrow> tr0 = [InstanceCreated 0])"
      by code_simp
    then show ?thesis using that by (auto split: prod.splits sum.splits)
  qed
  have e: "(case NewVUExec vu_example_program 1 ''default'' vu_example_init of (tr0, Inl _) \<Rightarrow> False | (tr0, Inr v0) \<Rightarrow>
     (case run_vu (pg_mods vu_example_program) vu_example_ops v0 of (tr, v) \<Rightarrow>
        iter_sets tr = [0, 1] \<and> last tr = ScriptError errNeverSettled \<and> vu_iter v = 2 \<and>
        fst (VU_Close v) = [InstanceClosed 0, InstanceClosed 1, CloserClosed 7]))" by code_simp
  have ok: "importsAny (Some vu_example_modules)" "list_all (op_ok vu_example_modules) (ji_ops vu_example_init)"
    "list_all (vu_op_ok vu_example_modules) vu_example_ops" by code_simp+
  have p: "pg_mods vu_example_program = Some vu_example_modules" by (simp add: vu_example_program_def)
  have "int (length vu_example_ops) < 2 ^ 63" by (simp add: vu_example_ops_def)
  note vu_lifetime [OF n(1) p ok this]
  then show ?thesis using e n by (auto split: prod.splits)
qed

end
