(* ===== verification/Runner.thy ===== *)
theory Runner
  imports Outcome Script
begin

text \<open>
  One test run: \<open>internal/runner/runner.go\<close>. \<open>Run\<close> loads the script, starts its modules, resolves the
  settings, runs setup, the load phase and teardown, and closes what it opened. What the script, the
  modules and the clock do is the \<open>world\<close>; every effect of the runner is an event, tagged with the step
  of the run it belongs to.
\<close>

section \<open>Steps and events\<close>

datatype stage =
    Starting | Initializing | Resolving | SettingUp | CreatingVUs | Loading | ClosingVUs | TearingDown
  | ClosingLifecycle | ClosingConnections | ClosingModules

definition stage_no :: "stage \<Rightarrow> nat" where
  "stage_no s = (case s of Starting \<Rightarrow> 0 | Initializing \<Rightarrow> 1 | Resolving \<Rightarrow> 2 | SettingUp \<Rightarrow> 3 | CreatingVUs \<Rightarrow> 4
     | Loading \<Rightarrow> 5 | ClosingVUs \<Rightarrow> 6 | TearingDown \<Rightarrow> 7 | ClosingLifecycle \<Rightarrow> 8 | ClosingConnections \<Rightarrow> 9 | ClosingModules \<Rightarrow> 10)"

lemma stage_no_inj: "stage_no s = stage_no t \<Longrightarrow> s = t"
  by (cases s; cases t) (simp_all add: stage_no_def)

instantiation stage :: linorder
begin

definition less_eq_stage :: "stage \<Rightarrow> stage \<Rightarrow> bool" where
  "less_eq_stage s t \<longleftrightarrow> stage_no s \<le> stage_no t"

definition less_stage :: "stage \<Rightarrow> stage \<Rightarrow> bool" where
  "less_stage s t \<longleftrightarrow> stage_no s < stage_no t"

instance
  by standard (auto simp: less_eq_stage_def less_stage_def intro: stage_no_inj)

end

datatype warning =
    UnsupportedOption string
  | ReplacedScenarios
  | CloseFailed string string

record client_options =
  co_MaxConnsPerHost :: int
  co_Timeout :: duration
  co_NoConnectionReuse :: bool
  co_HTTPVersion :: string
  co_DialControl :: bool
  co_NoProxy :: bool

datatype run_event =
    ModuleEvent mod_event
  | VUEvent int vu_event
  | ClientCreated client_options
  | SetupDone "string option"
  | LoadStarted
  | TeardownCalled bool "string option"
  | LifecycleClosed
  | IdleConnectionsClosed
  | Warned warning

datatype runner_error =
    NoScript "config_error list"
  | LoadFailed string
  | ModulesFailed start_error
  | LifecycleFailed vu_error
  | OptionsFailed string
  | BadOptions options_error
  | BadSettings resolve_error
  | InvalidSettings "config_error list"
  | BadThresholds "threshold_error list"
  | NoDefaultFor string
  | BadExecs exec_error
  | SetupFailed string
  | StartFailed run_error "string option"

datatype run_outcome =
    Failed_run runner_error
  | Finished report
  | Crashed

record params =
  p_Config :: config
  p_Overrides :: overrides
  p_Getenv :: "string \<rightharpoonup> string"
  p_Env :: "(string \<times> string) list"
  p_Console :: bool
  p_Warn :: bool
  p_DialControl :: bool
  p_NoProxy :: bool
  p_RequestTimeout :: duration

text \<open>Everything outside the runner: what \<open>script.Load\<close> finds, what modules answer, what the script's
  JavaScript does in each of its runtimes, the order in which Go ranges over maps, and the run's
  clock, samples and cancellation. \<open>w_cancelled\<close> is whether the context was cancelled when the load
  phase had ended, \<open>w_cancelledLater\<close> when teardown starts.\<close>

record 'v world =
  w_load :: "string + program"
  w_newRun :: "nat \<Rightarrow> string option"
  w_closeRun :: "nat \<Rightarrow> string option"
  w_init :: "int \<Rightarrow> string \<Rightarrow> js_init"
  w_options :: "js_error + raw_options"
  w_order :: "(string \<times> json) list \<Rightarrow> (string \<times> json) list"
  w_hasDefault :: bool
  w_exports :: "string + string list"
  w_rebuild :: "string list \<Rightarrow> string option"
  w_setup :: "'v js_call option"
  w_stringify :: "'v jsval \<Rightarrow> js_error + string option"
  w_teardown :: "(bool \<Rightarrow> string option \<Rightarrow> 'v js_call) option"
  w_iterations :: "int \<Rightarrow> 'v js_iteration list"
  w_ctxErr :: "nat \<Rightarrow> string option"
  w_start :: int
  w_segments :: "((nat \<times> event) list \<times> duration) list"
  w_dropped :: "int list"
  w_elapsed :: duration
  w_recorded :: "families \<Rightarrow> families"
  w_cancelled :: bool
  w_cancelledLater :: bool
  w_closeVU :: "int \<Rightarrow> string option"

section \<open>The parts of Run\<close>

definition DefaultTimeout :: duration where "DefaultTimeout = 30 * second"

definition vu_error_text :: "vu_error \<Rightarrow> string" where
  "vu_error_text e = (case e of
       NotPrepared exec \<Rightarrow> ''exec '' @ quoted exec @ '' was not prepared with WithExecs''
     | SetFailed m \<Rightarrow> m
     | InitInterrupted cause \<Rightarrow> ''script init: '' @ cause
     | InitFailed m \<Rightarrow> ''script init: '' @ m
     | ExecNotFunction exec \<Rightarrow> ''exec '' @ quoted exec @ '' is not an exported function''
     | NoDefaultExport \<Rightarrow> ''script must export a default function: `export default function () { ... }`''
     | BadSetupData m \<Rightarrow> ''parse setup data: '' @ m)"

definition closeAndWarn :: "bool \<Rightarrow> string \<Rightarrow> string option \<Rightarrow> run_event list" where
  "closeAndWarn warn what err = (case err of None \<Rightarrow> [] | Some e \<Rightarrow> if warn then [Warned (CloseFailed what e)] else [])"

definition joined :: "string list \<Rightarrow> string option" where
  "joined errs = (if errs = [] then None else Some (str_join errs [CHR 0x0A]))"

text \<open>\<open>teardownContext\<close>: whether teardown's context ignores the cancellation of the test's.\<close>

definition teardownContext :: "bool \<Rightarrow> bool" where
  "teardownContext cancelled = cancelled"

fun named_execs :: "bool \<Rightarrow> cfg_scenario list \<Rightarrow> runner_error + string list" where
  "named_execs hasDefault [] = Inr []"
| "named_execs hasDefault (s # ss) =
     (if cs_Exec s = ''default''
      then (if \<not> hasDefault then Inl (NoDefaultFor (cs_Name s)) else named_execs hasDefault ss)
      else (case named_execs hasDefault ss of Inl e \<Rightarrow> Inl e | Inr ns \<Rightarrow> Inr (cs_Exec s # ns)))"

definition prepareExecs :: "'v world \<Rightarrow> program \<Rightarrow> cfg_scenario list \<Rightarrow> runner_error + program" where
  "prepareExecs w prog scs = (case named_execs (w_hasDefault w) scs of
       Inl e \<Rightarrow> Inl e
     | Inr names \<Rightarrow> (case WithExecs (w_exports w) (w_rebuild w) names prog of Inl e \<Rightarrow> Inl (BadExecs e) | Inr p \<Rightarrow> Inr p))"

text \<open>\<open>NewVU\<close> of the engine's scenarios: the VU created, with what creating it did.\<close>

definition new_vu :: "'v world \<Rightarrow> program \<Rightarrow> int \<Rightarrow> string \<Rightarrow> string + vu_event list \<times> vu" where
  "new_vu w prog n exec = (case NewVUExec prog n exec (w_init w n exec) of
       (tr, Inl e) \<Rightarrow> Inl (vu_error_text e)
     | (tr, Inr v) \<Rightarrow> Inr (tr, v))"

text \<open>The VUs appended to \<open>vus\<close>: those the engine created before the first that failed.\<close>

fun made_vus :: "(nat \<Rightarrow> string option) \<Rightarrow> (nat \<Rightarrow> string + 'i) \<Rightarrow> nat \<Rightarrow> nat \<Rightarrow> nat \<Rightarrow> 'i list \<times> bool" where
  "made_vus ctxErr newVU tot j 0 = ([], True)"
| "made_vus ctxErr newVU tot j (Suc m) = (case ctxErr (tot + j) of
       Some _ \<Rightarrow> ([], False)
     | None \<Rightarrow> (case newVU j of
         Inl _ \<Rightarrow> ([], False)
       | Inr v \<Rightarrow> (case made_vus ctxErr newVU tot (Suc j) m of (vs, ok) \<Rightarrow> (v # vs, ok))))"

fun made_scenarios :: "(nat \<Rightarrow> string option) \<Rightarrow> nat \<Rightarrow> 'i scenario list \<Rightarrow> 'i list" where
  "made_scenarios ctxErr tot [] = []"
| "made_scenarios ctxErr tot (sc # scs) = (case validate (sc_Executor sc) of
       Some _ \<Rightarrow> []
     | None \<Rightarrow> (case made_vus ctxErr (sc_NewVU sc) tot 0 (nat (MaxVUs (sc_Executor sc))) of
         (vs, ok) \<Rightarrow> vs @ (if ok then made_scenarios ctxErr (tot + length vs) scs else [])))"

definition tagged :: "stage \<Rightarrow> run_event list \<Rightarrow> (stage \<times> run_event) list" where
  "tagged s evs = map (Pair s) evs"

definition close_vu :: "'v world \<Rightarrow> params \<Rightarrow> vu \<Rightarrow> run_event list" where
  "close_vu w p v = map (VUEvent (vu_id v)) (fst (VU_Close v)) @ closeAndWarn (p_Warn p) (''VU '' @ itoa (vu_id v)) (w_closeVU w (vu_id v))"

text \<open>The load phase: what happened, the VUs and the engine's result; \<open>None\<close> when the sampler panics,
  which ends the process.\<close>

definition load_phase :: "'v world \<Rightarrow> params \<Rightarrow> program \<Rightarrow> cfg_scenario list \<Rightarrow>
    (stage \<times> run_event) list \<times> (run_error + run_result) option" where
  "load_phase w p prog scs =
     (let escs = engineScenarios (new_vu w prog) scs;
          vus = made_scenarios (w_ctxErr w) 0 escs;
          created = concat (map (\<lambda>(tr, v). map (VUEvent (vu_id v)) tr) vus)
      in case RunScenarios (w_ctxErr w) escs (w_start w) (w_segments w) (w_dropped w) (w_elapsed w) of
           None \<Rightarrow> (tagged CreatingVUs created @ tagged Loading [LoadStarted], None)
         | Some (Inl e) \<Rightarrow>
             (tagged CreatingVUs created @ tagged ClosingVUs (concat (map (\<lambda>(_, v). close_vu w p v) vus)), Some (Inl e))
         | Some (Inr (runs, res)) \<Rightarrow>
             (let ran = map (\<lambda>(_, v). run_vu (pg_mods prog) (map Iteration (w_iterations w (vu_id v))) v) vus
              in (tagged CreatingVUs created @
                  tagged Loading (LoadStarted # concat (map (\<lambda>(tr, v). map (VUEvent (vu_id v)) tr) ran)) @
                  tagged ClosingVUs (concat (map (\<lambda>(_, v). close_vu w p v) ran)), Some (Inr res))))"

text \<open>A context that ignores the cancellation never reports one.\<close>

definition teardown_call :: "'v world \<Rightarrow> bool \<Rightarrow> (string option \<Rightarrow> 'v js_call) option" where
  "teardown_call w shielded = (case w_teardown w of None \<Rightarrow> None
     | Some f \<Rightarrow> Some (\<lambda>data. let c = f shielded data in if shielded then c\<lparr>jc_ctxErr := None\<rparr> else c))"

definition summary_families :: "'v world \<Rightarrow> module_set option \<Rightarrow> familySummary list" where
  "summary_families w mo = ModuleFamilies (map_option (\<lambda>ms. ms\<lparr>ms_families := map_option (w_recorded w) (ms_families ms)\<rparr>) mo)"

definition client_created :: "params \<Rightarrow> config \<Rightarrow> run_event" where
  "client_created p cfg = ClientCreated \<lparr>co_MaxConnsPerHost = c_VUs cfg,
     co_Timeout = (if p_RequestTimeout p \<noteq> 0 then p_RequestTimeout p else DefaultTimeout),
     co_NoConnectionReuse = c_NoConnectionReuse cfg, co_HTTPVersion = c_HTTPVersion cfg,
     co_DialControl = p_DialControl p, co_NoProxy = p_NoProxy p\<rparr>"

text \<open>The deferred calls of \<open>Run\<close> after the client was created, in the order they run.\<close>

definition close_run :: "'v world \<Rightarrow> params \<Rightarrow> vu \<Rightarrow> (stage \<times> run_event) list" where
  "close_run w p v = tagged ClosingLifecycle (map (VUEvent 0) (fst (VU_Close v)) @ LifecycleClosed #
     closeAndWarn (p_Warn p) ''setup/teardown'' (w_closeVU w 0)) @ tagged ClosingConnections [IdleConnectionsClosed]"

text \<open>From setup on; \<open>lc\<close> is the lifecycle runtime's VU.\<close>

definition run_test :: "'v world \<Rightarrow> params \<Rightarrow> program \<Rightarrow> config \<Rightarrow> threshold list \<Rightarrow> vu \<Rightarrow>
    (stage \<times> run_event) list \<times> run_outcome" where
  "run_test w p prog cfg ths lc =
     (case Setup (pg_mods prog) (w_stringify w) (c_SetupTimeout cfg) (w_setup w) lc of
           (str, Inl e, lc1) \<Rightarrow> (tagged SettingUp (client_created p cfg # map (VUEvent 0) str) @ close_run w p lc1, Failed_run (SetupFailed e))
         | (str, Inr data, lc1) \<Rightarrow>
             (let prog1 = WithSetupData data prog;
                  setup = tagged SettingUp (client_created p cfg # map (VUEvent 0) str @ [SetupDone data])
              in case load_phase w p prog1 (c_Scenarios cfg) of
                   (ltr, None) \<Rightarrow> (setup @ ltr, Crashed)
                 | (ltr, Some r) \<Rightarrow>
                     (let shielded = teardownContext (w_cancelled w \<or> w_cancelledLater w)
                      in case Teardown (pg_mods prog1) (ji_parse (w_init w 0 ''default'')) (c_TeardownTimeout cfg)
                                (teardown_call w shielded) data lc1 of
                           (ttr, terr, lc2) \<Rightarrow>
                             (setup @ ltr @ tagged TearingDown (TeardownCalled shielded data # map (VUEvent 0) ttr) @ close_run w p lc2,
                              (case r of
                                 Inl e \<Rightarrow> Failed_run (StartFailed e terr)
                               | Inr res \<Rightarrow>
                                   (let summary = (res_Summary res)\<lparr>s_Families := summary_families w (pg_mods prog1)\<rparr>
                                    in Finished \<lparr>rp_Script = c_Script cfg, rp_VUs = c_VUs cfg, rp_Duration = c_Duration cfg,
                                         rp_GracefulStop = c_GracefulStop cfg, rp_Elapsed = res_Elapsed res,
                                         rp_Interrupted = w_cancelled w, rp_Summary = summary,
                                         rp_TeardownError = (case terr of None \<Rightarrow> [] | Some e \<Rightarrow> e),
                                         rp_Thresholds = Evaluate ths summary (res_Elapsed res),
                                         rp_Scenarios = c_Scenarios cfg, rp_Started = res_Started res,
                                         rp_Series = res_Series res\<rparr>))))))"

definition Lifecycle_Options :: "js_error + raw_options \<Rightarrow> string + raw_options" where
  "Lifecycle_Options r = (case r of Inl e \<Rightarrow> Inl (''options: '' @ scriptErrorMessage e) | Inr raw \<Rightarrow> Inr raw)"

definition NewLifecycle :: "'v world \<Rightarrow> program \<Rightarrow> vu_event list \<times> (vu_error + vu)" where
  "NewLifecycle w p = NewVUExec (p\<lparr>pg_discardBodies := False, pg_setupData := None\<rparr>) 0 ''default'' (w_init w 0 ''default'')"

text \<open>The checks between the script's top-level code and setup.\<close>

definition resolve_run :: "'v world \<Rightarrow> params \<Rightarrow> program \<Rightarrow> fdef list \<Rightarrow>
    run_event list \<times> (runner_error + program \<times> config \<times> threshold list)" where
  "resolve_run w p prog fams = (case Lifecycle_Options (w_options w) of
       Inl e \<Rightarrow> ([], Inl (OptionsFailed e))
     | Inr raw \<Rightarrow> (case ParseOptions (w_order w) raw of
         Inl e \<Rightarrow> ([], Inl (BadOptions e))
       | Inr (opts, unknown) \<Rightarrow>
           (let warns = (if p_Warn p then map (Warned \<circ> UnsupportedOption) unknown else [])
            in case Resolve (p_Config p) (p_Overrides p) (p_Getenv p) opts of
                 Inl e \<Rightarrow> (warns, Inl (BadSettings e))
               | Inr cfg \<Rightarrow>
                   if Config_Validate cfg \<noteq> [] then (warns, Inl (InvalidSettings (Config_Validate cfg)))
                   else (case Parse (o_Thresholds opts) fams of
                       Inl es \<Rightarrow> (warns, Inl (BadThresholds es))
                     | Inr ths \<Rightarrow>
                         (case prepareExecs w (WithKeepCookies (c_NoCookiesReset cfg)
                                 (WithDiscardResponseBodies (c_DiscardResponseBodies cfg) prog)) (c_Scenarios cfg) of
                            Inl e \<Rightarrow> (warns, Inl e)
                          | Inr prog1 \<Rightarrow>
                              (warns @ (if c_ScenariosReplaced cfg \<and> p_Warn p then [Warned ReplacedScenarios] else []),
                               Inr (prog1, cfg, ths)))))))"

definition run_script :: "'v world \<Rightarrow> params \<Rightarrow> program \<Rightarrow> fdef list \<Rightarrow> (stage \<times> run_event) list \<times> run_outcome" where
  "run_script w p prog fams = (case NewLifecycle w prog of
       (tr, Inl e) \<Rightarrow> (tagged Initializing (map (VUEvent 0) tr), Failed_run (LifecycleFailed e))
     | (tr, Inr lc) \<Rightarrow> (case resolve_run w p prog fams of
         (wtr, Inl e) \<Rightarrow> (tagged Initializing (map (VUEvent 0) tr) @ tagged Resolving wtr, Failed_run e)
       | (wtr, Inr (prog1, cfg, ths)) \<Rightarrow> (case run_test w p prog1 cfg ths lc of
           (ttr, out) \<Rightarrow> (tagged Initializing (map (VUEvent 0) tr) @ tagged Resolving wtr @ ttr, out))))"

definition Run_test :: "'v world \<Rightarrow> params \<Rightarrow> (stage \<times> run_event) list \<times> run_outcome" where
  "Run_test w p =
     (if c_Script (p_Config p) = [] then ([], Failed_run (NoScript (Config_Validate (p_Config p))))
      else case w_load w of
        Inl e \<Rightarrow> ([], Failed_run (LoadFailed e))
      | Inr prog0 \<Rightarrow>
          (let prog = WithWarn (p_Warn p) (WithConsole (p_Console p) (WithEnv (p_Env p) prog0))
           in case StartModules (w_newRun w) (w_closeRun w) (pg_mods prog) of
                (mtr, Inl e, _) \<Rightarrow> (tagged Starting (map ModuleEvent mtr), Failed_run (ModulesFailed e))
              | (mtr, Inr fams, mo) \<Rightarrow> (case run_script w p (prog\<lparr>pg_mods := mo\<rparr>) fams of
                  (tr, out) \<Rightarrow> (tagged Starting (map ModuleEvent mtr) @ tr @
                    (if out = Crashed then []
                     else (case CloseModules (w_closeRun w) mo of (ctr, errs, _) \<Rightarrow>
                        tagged ClosingModules (map ModuleEvent ctr @ closeAndWarn (p_Warn p) ''protocol modules'' (joined errs)))),
                   out))))"

section \<open>What a trace says\<close>

definition setups :: "(stage \<times> run_event) list \<Rightarrow> string option list" where
  "setups tr = concat (map (\<lambda>(_, e). case e of SetupDone d \<Rightarrow> [d] | _ \<Rightarrow> []) tr)"

definition teardowns :: "(stage \<times> run_event) list \<Rightarrow> (bool \<times> string option) list" where
  "teardowns tr = concat (map (\<lambda>(_, e). case e of TeardownCalled b d \<Rightarrow> [(b, d)] | _ \<Rightarrow> []) tr)"

definition loads :: "(stage \<times> run_event) list \<Rightarrow> nat" where
  "loads tr = length (filter (\<lambda>(_, e). e = LoadStarted) tr)"

definition module_events :: "(stage \<times> run_event) list \<Rightarrow> mod_event list" where
  "module_events tr = concat (map (\<lambda>(_, e). case e of ModuleEvent m \<Rightarrow> [m] | _ \<Rightarrow> []) tr)"

definition clients :: "(stage \<times> run_event) list \<Rightarrow> nat" where
  "clients tr = length (filter (\<lambda>(_, e). case e of ClientCreated _ \<Rightarrow> True | _ \<Rightarrow> False) tr)"

definition clients_closed :: "(stage \<times> run_event) list \<Rightarrow> nat" where
  "clients_closed tr = length (filter (\<lambda>(_, e). e = IdleConnectionsClosed) tr)"

definition lifecycles_closed :: "(stage \<times> run_event) list \<Rightarrow> nat" where
  "lifecycles_closed tr = length (filter (\<lambda>(_, e). e = LifecycleClosed) tr)"

lemmas trace_defs = setups_def teardowns_def loads_def module_events_def clients_def clients_closed_def lifecycles_closed_def

lemma trace_append [simp]:
  "setups (xs @ ys) = setups xs @ setups ys" "teardowns (xs @ ys) = teardowns xs @ teardowns ys"
  "loads (xs @ ys) = loads xs + loads ys" "module_events (xs @ ys) = module_events xs @ module_events ys"
  "clients (xs @ ys) = clients xs + clients ys" "clients_closed (xs @ ys) = clients_closed xs + clients_closed ys"
  "lifecycles_closed (xs @ ys) = lifecycles_closed xs + lifecycles_closed ys"
  by (simp_all add: trace_defs)

text \<open>Events that are none of those the projections look at.\<close>

definition quiet :: "run_event \<Rightarrow> bool" where
  "quiet e = (case e of VUEvent _ _ \<Rightarrow> True | Warned _ \<Rightarrow> True | _ \<Rightarrow> False)"

lemma tagged_simps [simp]: "tagged s [] = []" "tagged s (e # es) = (s, e) # tagged s es"
  "tagged s (xs @ ys) = tagged s xs @ tagged s ys" "map fst (tagged s es) = replicate (length es) s"
  by (induction es) (simp_all add: tagged_def)

lemma trace_Nil [simp]: "setups [] = []" "teardowns [] = []" "loads [] = 0" "module_events [] = []" "clients [] = 0"
  "clients_closed [] = 0" "lifecycles_closed [] = 0"
  by (simp_all add: trace_defs)

lemma trace_Cons [simp]:
  "setups (x # xs) = (case snd x of SetupDone d \<Rightarrow> [d] | _ \<Rightarrow> []) @ setups xs"
  "teardowns (x # xs) = (case snd x of TeardownCalled b d \<Rightarrow> [(b, d)] | _ \<Rightarrow> []) @ teardowns xs"
  "loads (x # xs) = (if snd x = LoadStarted then 1 else 0) + loads xs"
  "module_events (x # xs) = (case snd x of ModuleEvent m \<Rightarrow> [m] | _ \<Rightarrow> []) @ module_events xs"
  "clients (x # xs) = (case snd x of ClientCreated _ \<Rightarrow> 1 | _ \<Rightarrow> 0) + clients xs"
  "clients_closed (x # xs) = (if snd x = IdleConnectionsClosed then 1 else 0) + clients_closed xs"
  "lifecycles_closed (x # xs) = (if snd x = LifecycleClosed then 1 else 0) + lifecycles_closed xs"
  by (cases x; cases "snd x"; simp add: trace_defs)+

lemma trace_quiet:
  "list_all quiet es \<Longrightarrow> setups (tagged s es) = [] \<and> teardowns (tagged s es) = [] \<and> loads (tagged s es) = 0 \<and>
   module_events (tagged s es) = [] \<and> clients (tagged s es) = 0 \<and> clients_closed (tagged s es) = 0 \<and> lifecycles_closed (tagged s es) = 0"
  by (induction es) (auto simp: quiet_def split: run_event.splits)

lemma quiet_simps [simp]: "list_all quiet (map (VUEvent n) es)" "list_all quiet (closeAndWarn b what err)" "list_all quiet (close_vu w p v)"
  by (auto simp: list_all_iff quiet_def closeAndWarn_def close_vu_def split: option.splits)

lemma quiet_vus [simp]: "list_all quiet (concat (map (\<lambda>x. map (VUEvent (f x)) (g x)) vs))"
  "list_all quiet (concat (map (\<lambda>x. close_vu w p (h x)) vs))"
  using quiet_simps by (induction vs) (simp_all add: list_all_append)

lemma trace_modules [simp]:
  "setups (tagged s (map ModuleEvent ms)) = []" "teardowns (tagged s (map ModuleEvent ms)) = []" "loads (tagged s (map ModuleEvent ms)) = 0"
  "module_events (tagged s (map ModuleEvent ms)) = ms" "clients (tagged s (map ModuleEvent ms)) = 0"
  "clients_closed (tagged s (map ModuleEvent ms)) = 0" "lifecycles_closed (tagged s (map ModuleEvent ms)) = 0"
  by (induction ms) simp_all

section \<open>The order of the steps\<close>

definition between :: "stage \<Rightarrow> stage \<Rightarrow> (stage \<times> run_event) list \<Rightarrow> bool" where
  "between a b tr \<longleftrightarrow> sorted (map fst tr) \<and> list_all (\<lambda>(s, _). a \<le> s \<and> s \<le> b) tr"

lemma between_append:
  assumes "between a b xs" "between c d ys" "b \<le> c" "a \<le> c" "b \<le> d"
  shows "between a d (xs @ ys)"
proof -
  have "s \<le> t" if "s \<in> set (map fst xs)" "t \<in> set (map fst ys)" for s t
  proof -
    have "s \<le> b" "c \<le> t" using that assms(1,2) by (auto simp: between_def list_all_iff)
    then show ?thesis using assms(3) by (meson order_trans)
  qed
  then show ?thesis using assms by (auto simp: between_def sorted_append list_all_iff intro: order_trans)
qed

lemma between_tagged: "between s s (tagged s es)"
  by (auto simp: between_def tagged_def list_all_iff o_def map_replicate_const)

lemma between_mono: "between a b xs \<Longrightarrow> c \<le> a \<Longrightarrow> b \<le> d \<Longrightarrow> between c d xs"
  unfolding between_def list_all_iff by (auto intro: order_trans)

lemma stage_less_eq [simp]: "s \<le> t \<longleftrightarrow> stage_no s \<le> stage_no t" for s t :: stage
  by (simp add: less_eq_stage_def)

lemmas stage_nos = stage_no_def

definition load_started :: "(run_error + run_result) option \<Rightarrow> nat" where
  "load_started r = (case r of Some (Inl _) \<Rightarrow> 0 | _ \<Rightarrow> 1)"

lemma load_phase_trace:
  assumes "load_phase w p prog scs = (tr, r)"
  shows "setups tr = []" "teardowns tr = []" "module_events tr = []" "clients tr = 0" "clients_closed tr = 0"
    "lifecycles_closed tr = 0" "loads tr = load_started r" "between CreatingVUs ClosingVUs tr"
proof -
  have b: "between CreatingVUs ClosingVUs (tagged CreatingVUs xs @ tagged Loading ys @ tagged ClosingVUs zs)" for xs ys zs
    by (rule between_append [OF between_tagged between_append [OF between_tagged between_tagged]]) (simp_all add: stage_nos)
  have b2: "between CreatingVUs ClosingVUs (tagged CreatingVUs xs @ tagged Loading ys)" for xs ys
    using b [of xs ys "[]"] by simp
  have b3: "between CreatingVUs ClosingVUs (tagged CreatingVUs xs @ tagged ClosingVUs zs)" for xs zs
    using b [of xs "[]" zs] by simp
  have q: "list_all quiet es \<Longrightarrow> setups (tagged s es) = []" "list_all quiet es \<Longrightarrow> teardowns (tagged s es) = []"
    "list_all quiet es \<Longrightarrow> loads (tagged s es) = 0" "list_all quiet es \<Longrightarrow> module_events (tagged s es) = []"
    "list_all quiet es \<Longrightarrow> clients (tagged s es) = 0" "list_all quiet es \<Longrightarrow> clients_closed (tagged s es) = 0"
    "list_all quiet es \<Longrightarrow> lifecycles_closed (tagged s es) = 0" for s es
    using trace_quiet by blast+
  show "setups tr = []" "teardowns tr = []" "module_events tr = []" "clients tr = 0" "clients_closed tr = 0"
    "lifecycles_closed tr = 0" "loads tr = load_started r" "between CreatingVUs ClosingVUs tr"
    using assms b [of _ "LoadStarted # _"] b2 [of _ "[LoadStarted]"] b3
    by (auto simp: load_phase_def Let_def load_started_def case_prod_unfold o_def q split: option.splits sum.splits)
qed

section \<open>Setup and teardown\<close>

text \<open>A call of setup or teardown succeeds when the test was not cancelled while it ran and the function,
  or the Promise it returned, did not fail.\<close>

definition call_ok :: "'v js_call \<Rightarrow> bool" where
  "call_ok c \<longleftrightarrow> jc_ctxErr c = None \<and>
     (case jc_result c of Inl _ \<Rightarrow> False | Inr v \<Rightarrow> (case settle v of Inl _ \<Rightarrow> False | Inr _ \<Rightarrow> True))"

lemma lc_result_ok: "(\<exists>v. lc_result name opt t c = Inr v) \<longleftrightarrow> call_ok c"
  by (auto simp: lc_result_def call_ok_def split: option.splits sum.splits)

lemma lc_result_text: "lc_result name opt t c = Inl e \<Longrightarrow> name \<noteq> [] \<Longrightarrow> e \<noteq> []"
  by (auto simp: lc_result_def split: option.splits sum.splits if_splits)

definition teardown_ok :: "'v world \<Rightarrow> string option \<Rightarrow> bool" where
  "teardown_ok w data \<longleftrightarrow> (case teardown_call w (w_cancelled w \<or> w_cancelledLater w) of None \<Rightarrow> True
     | Some f \<Rightarrow> parseData (ji_parse (w_init w 0 ''default'')) data = None \<and> call_ok (f data))"

lemma Teardown_error:
  assumes "Teardown mo (ji_parse (w_init w 0 ''default'')) t (teardown_call w (w_cancelled w \<or> w_cancelledLater w)) data v = (tr, e, v')"
  shows "(e = None \<longleftrightarrow> teardown_ok w data) \<and> e \<noteq> Some []"
proof (cases "teardown_call w (w_cancelled w \<or> w_cancelledLater w)")
  case None
  then show ?thesis using assms by (simp add: Teardown_def teardown_ok_def)
next
  case (Some f)
  show ?thesis
  proof (cases "parseData (ji_parse (w_init w 0 ''default'')) data")
    case None
    then have e: "e = (case lc_result ''teardown'' ''teardownTimeout'' t (f data) of Inl e \<Rightarrow> Some e | Inr _ \<Rightarrow> None)"
      using assms Some by (auto simp: Teardown_def lc_call_def split: prod.splits)
    show ?thesis
      using e None Some lc_result_text [of "''teardown''"] lc_result_ok [of "''teardown''" "''teardownTimeout''" t "f data"]
      by (auto simp: teardown_ok_def split: sum.splits)
  next
    case (Some m)
    then show ?thesis using assms \<open>teardown_call w _ = Some f\<close> by (auto simp: Teardown_def teardown_ok_def)
  qed
qed

definition closing_counts :: "run_outcome \<Rightarrow> (stage \<times> run_event) list \<Rightarrow> bool" where
  "closing_counts out tr \<longleftrightarrow> clients_closed tr = (if out = Crashed then 0 else clients tr) \<and>
     lifecycles_closed tr = (if out = Crashed then 0 else clients tr)"

definition teardown_counts :: "'v world \<Rightarrow> run_outcome \<Rightarrow> (stage \<times> run_event) list \<Rightarrow> bool" where
  "teardown_counts w out tr \<longleftrightarrow> length (setups tr) \<le> 1 \<and>
     teardowns tr = (if out = Crashed then [] else map (Pair (w_cancelled w \<or> w_cancelledLater w)) (setups tr)) \<and>
     loads tr = (case out of Failed_run _ \<Rightarrow> 0 | _ \<Rightarrow> 1)"

text \<open>The load phase behind a report: the engine ran the report's scenarios with VUs of a program that
  passes \<open>data\<close> to every iteration.\<close>

definition loaded :: "'v world \<Rightarrow> string option \<Rightarrow> report \<Rightarrow> bool" where
  "loaded w data r \<longleftrightarrow> (\<exists>prog runs res. pg_setupData prog = data \<and>
     RunScenarios (w_ctxErr w) (engineScenarios (new_vu w prog) (rp_Scenarios r)) (w_start w) (w_segments w)
       (w_dropped w) (w_elapsed w) = Some (Inr (runs, res)) \<and>
     rp_Summary r = (res_Summary res)\<lparr>s_Families := summary_families w (pg_mods prog)\<rparr> \<and>
     rp_Series r = res_Series res \<and> rp_Started r = res_Started res \<and> rp_Elapsed r = res_Elapsed res)"

lemma loadedI:
  "RunScenarios (w_ctxErr w) (engineScenarios (new_vu w prog) (rp_Scenarios r)) (w_start w) (w_segments w)
     (w_dropped w) (w_elapsed w) = Some (Inr (runs, res)) \<Longrightarrow> pg_setupData prog = data \<Longrightarrow>
   rp_Summary r = (res_Summary res)\<lparr>s_Families := summary_families w (pg_mods prog)\<rparr> \<Longrightarrow>
   rp_Series r = res_Series res \<Longrightarrow> rp_Started r = res_Started res \<Longrightarrow> rp_Elapsed r = res_Elapsed res \<Longrightarrow> loaded w data r"
  unfolding loaded_def by blast

lemma load_phase_result:
  "load_phase w p prog scs = (tr, Some (Inr res)) \<Longrightarrow>
   \<exists>runs. RunScenarios (w_ctxErr w) (engineScenarios (new_vu w prog) scs) (w_start w) (w_segments w)
     (w_dropped w) (w_elapsed w) = Some (Inr (runs, res))"
  by (auto simp: load_phase_def Let_def split: option.splits sum.splits)

definition result_facts :: "'v world \<Rightarrow> run_outcome \<Rightarrow> (stage \<times> run_event) list \<Rightarrow> bool" where
  "result_facts w out tr \<longleftrightarrow> (case out of
       Finished r \<Rightarrow> rp_Interrupted r = w_cancelled w \<and>
         (\<exists>data. setups tr = [data] \<and> (rp_TeardownError r = [] \<longleftrightarrow> teardown_ok w data) \<and> loaded w data r) \<and>
         (\<exists>ths. rp_Thresholds r = Evaluate ths (rp_Summary r) (rp_Elapsed r))
     | Failed_run e \<Rightarrow> True
     | Crashed \<Rightarrow> True)"

lemma trace_vu [simp]:
  "setups (tagged s (map (VUEvent n) es)) = []" "teardowns (tagged s (map (VUEvent n) es)) = []"
  "loads (tagged s (map (VUEvent n) es)) = 0" "module_events (tagged s (map (VUEvent n) es)) = []"
  "clients (tagged s (map (VUEvent n) es)) = 0" "clients_closed (tagged s (map (VUEvent n) es)) = 0"
  "lifecycles_closed (tagged s (map (VUEvent n) es)) = 0"
  using trace_quiet [of "map (VUEvent n) es"] by auto

lemma trace_warn [simp]:
  "setups (tagged s (closeAndWarn b x y)) = []" "teardowns (tagged s (closeAndWarn b x y)) = []"
  "loads (tagged s (closeAndWarn b x y)) = 0" "module_events (tagged s (closeAndWarn b x y)) = []"
  "clients (tagged s (closeAndWarn b x y)) = 0" "clients_closed (tagged s (closeAndWarn b x y)) = 0"
  "lifecycles_closed (tagged s (closeAndWarn b x y)) = 0"
  using trace_quiet [of "closeAndWarn b x y"] by auto

lemma close_run_trace [simp]:
  "setups (close_run w p v) = []" "teardowns (close_run w p v) = []" "loads (close_run w p v) = 0"
  "module_events (close_run w p v) = []" "clients (close_run w p v) = 0" "clients_closed (close_run w p v) = 1"
  "lifecycles_closed (close_run w p v) = 1"
  by (simp_all add: close_run_def)

lemma close_run_between: "between ClosingLifecycle ClosingConnections (close_run w p v)"
  unfolding close_run_def by (rule between_append [OF between_tagged between_tagged]) (simp_all add: stage_nos)

lemma run_test_trace:
  assumes "run_test w p prog cfg ths lc = (tr, out)"
  shows "between SettingUp ClosingConnections tr \<and> module_events tr = [] \<and> clients tr = 1 \<and>
    closing_counts out tr \<and> teardown_counts w out tr \<and> result_facts w out tr"
proof -
  obtain str r lc1 where su: "Setup (pg_mods prog) (w_stringify w) (c_SetupTimeout cfg) (w_setup w) lc = (str, r, lc1)"
    by (metis prod_cases3)
  show ?thesis
  proof (cases r)
    case (Inl e)
    have tr: "tr = tagged SettingUp (client_created p cfg # map (VUEvent 0) str) @ close_run w p lc1" "out = Failed_run (SetupFailed e)"
      using assms by (simp_all add: run_test_def su Inl del: tagged_simps)
    have "between SettingUp ClosingConnections tr" unfolding tr(1)
      by (rule between_append [OF between_tagged close_run_between]) (simp_all add: stage_nos)
    then show ?thesis by (simp add: tr closing_counts_def teardown_counts_def result_facts_def client_created_def)
  next
    case (Inr data)
    obtain ltr lr where l: "load_phase w p (WithSetupData data prog) (c_Scenarios cfg) = (ltr, lr)" by fastforce
    note lt = load_phase_trace [OF l]
    let ?su = "tagged SettingUp (client_created p cfg # map (VUEvent 0) str @ [SetupDone data])"
    show ?thesis
    proof (cases lr)
      case None
      have tr: "tr = ?su @ ltr" "out = Crashed"
        using assms by (simp_all add: run_test_def su Inr l None Let_def del: tagged_simps)
      have "between SettingUp ClosingConnections tr" unfolding tr(1)
        by (rule between_mono [OF between_append [OF between_tagged lt(8)]]) (simp_all add: stage_nos)
      then show ?thesis using lt
        by (simp add: tr closing_counts_def teardown_counts_def result_facts_def client_created_def load_started_def None)
    next
      case (Some r')
      let ?sh = "w_cancelled w \<or> w_cancelledLater w"
      obtain ttr terr lc2 where td: "Teardown (pg_mods (WithSetupData data prog)) (ji_parse (w_init w 0 ''default''))
          (c_TeardownTimeout cfg) (teardown_call w ?sh) data lc1 = (ttr, terr, lc2)"
        by (metis prod_cases3)
      have tr: "tr = ?su @ ltr @ tagged TearingDown (TeardownCalled ?sh data # map (VUEvent 0) ttr) @ close_run w p lc2"
        using assms td by (simp add: run_test_def su Inr l Some Let_def teardownContext_def del: tagged_simps)
      have out: "(case r' of Inl e \<Rightarrow> out = Failed_run (StartFailed e terr)
         | Inr res \<Rightarrow> \<exists>r. out = Finished r \<and> rp_Interrupted r = w_cancelled w \<and>
             rp_TeardownError r = (case terr of None \<Rightarrow> [] | Some e \<Rightarrow> e) \<and>
             rp_Thresholds r = Evaluate ths (rp_Summary r) (rp_Elapsed r) \<and> loaded w data r)"
      proof (cases r')
        case (Inl e)
        then show ?thesis using assms td by (simp add: run_test_def su Inr l Some Let_def teardownContext_def)
      next
        case r': (Inr res)
        obtain runs where rs: "RunScenarios (w_ctxErr w) (engineScenarios (new_vu w (WithSetupData data prog)) (c_Scenarios cfg)) (w_start w)
            (w_segments w) (w_dropped w) (w_elapsed w) = Some (Inr (runs, res))"
          using load_phase_result [of w p "WithSetupData data prog" "c_Scenarios cfg" ltr res] l Some r' by auto
        note L = loadedI [where prog = "WithSetupData data prog" and runs = runs and res = res]
        have "pg_setupData (WithSetupData data prog) = data" by (simp add: WithSetupData_def)
        then show ?thesis using assms td r' rs
          by (auto simp: run_test_def su Inr l Some Let_def teardownContext_def intro!: L)
      qed
      have "between SettingUp ClosingConnections tr" unfolding tr
        by (rule between_append [OF between_tagged between_append [OF lt(8) between_append [OF between_tagged close_run_between]]])
          (simp_all add: stage_nos)
      moreover have "setups tr = [data]" "teardowns tr = [(?sh, data)]" "loads tr = load_started lr" "module_events tr = []"
        "clients tr = 1" "clients_closed tr = 1" "lifecycles_closed tr = 1"
        using lt by (simp_all add: tr client_created_def)
      ultimately show ?thesis using out Teardown_error [OF td]
        by (cases r') (auto simp: closing_counts_def teardown_counts_def result_facts_def load_started_def Some split: option.splits)
    qed
  qed
qed

section \<open>The run\<close>

lemma resolve_run_quiet: "list_all quiet (fst (resolve_run w p prog fams))"
proof -
  have "list_all quiet (map (Warned \<circ> UnsupportedOption) us)" for us by (simp add: list_all_iff quiet_def)
  then show ?thesis
    by (auto simp: resolve_run_def Let_def list_all_append quiet_def split: sum.splits prod.splits)
qed

lemma run_script_trace:
  assumes "run_script w p prog fams = (tr, out)"
  shows "between Initializing ClosingConnections tr \<and> module_events tr = [] \<and> clients tr \<le> 1 \<and>
    closing_counts out tr \<and> teardown_counts w out tr \<and> result_facts w out tr"
proof -
  obtain itr r where i: "NewLifecycle w prog = (itr, r)" by fastforce
  show ?thesis
  proof (cases r)
    case (Inl e)
    have tr: "tr = tagged Initializing (map (VUEvent 0) itr)" "out = Failed_run (LifecycleFailed e)"
      using assms by (simp_all add: run_script_def i Inl)
    have "between Initializing ClosingConnections tr" unfolding tr(1)
      by (rule between_mono [OF between_tagged]) (simp_all add: stage_nos)
    then show ?thesis by (simp add: tr closing_counts_def teardown_counts_def result_facts_def)
  next
    case (Inr lc)
    obtain wtr rr where w: "resolve_run w p prog fams = (wtr, rr)" by fastforce
    have qw: "list_all quiet wtr" using resolve_run_quiet [of w p prog fams] w by simp
    show ?thesis
    proof (cases rr)
      case (Inl e)
      have tr: "tr = tagged Initializing (map (VUEvent 0) itr) @ tagged Resolving wtr" "out = Failed_run e"
        using assms by (simp_all add: run_script_def i Inr w Inl)
      have "between Initializing ClosingConnections tr" unfolding tr(1)
        by (rule between_mono [OF between_append [OF between_tagged between_tagged]]) (simp_all add: stage_nos)
      then show ?thesis using trace_quiet [OF qw]
        by (simp add: tr closing_counts_def teardown_counts_def result_facts_def)
    next
      case (Inr pct)
      obtain prog1 cfg ths where pct: "pct = (prog1, cfg, ths)" by (metis prod_cases3)
      obtain ttr where t: "run_test w p prog1 cfg ths lc = (ttr, out)"
        "tr = tagged Initializing (map (VUEvent 0) itr) @ tagged Resolving wtr @ ttr"
        using assms by (auto simp: run_script_def i \<open>r = Inr lc\<close> w Inr pct split: prod.splits)
      note tt = run_test_trace [OF t(1)]
      have "between Initializing ClosingConnections tr" unfolding t(2)
        by (rule between_append [OF between_tagged between_append [OF between_tagged conjunct1 [OF tt]]]) (simp_all add: stage_nos)
      then show ?thesis using trace_quiet [OF qw] tt
        by (auto simp: t(2) closing_counts_def teardown_counts_def result_facts_def split: run_outcome.splits)
    qed
  qed
qed

lemma run_trace:
  assumes "Run_test w p = (tr, out)"
  shows "sorted (map fst tr) \<and> clients tr \<le> 1 \<and> closing_counts out tr \<and> teardown_counts w out tr \<and> result_facts w out tr"
proof (cases "c_Script (p_Config p) = [] \<or> (\<exists>e. w_load w = Inl e)")
  case True
  then have "tr = [] \<and> (\<exists>e. out = Failed_run e)" using assms
    by (cases "c_Script (p_Config p) = []") (auto simp: Run_test_def)
  then show ?thesis by (auto simp: closing_counts_def teardown_counts_def result_facts_def)
next
  case False
  then obtain prog0 where p0: "w_load w = Inr prog0" "c_Script (p_Config p) \<noteq> []" by (cases "w_load w") auto
  define prog where "prog = WithWarn (p_Warn p) (WithConsole (p_Console p) (WithEnv (p_Env p) prog0))"
  obtain mtr mr mo where m: "StartModules (w_newRun w) (w_closeRun w) (pg_mods prog) = (mtr, mr, mo)" by (metis prod_cases3)
  show ?thesis
  proof (cases mr)
    case (Inl e)
    then have "tr = tagged Starting (map ModuleEvent mtr)" "out = Failed_run (ModulesFailed e)"
      using assms p0 m by (simp_all add: Run_test_def Let_def flip: prog_def)
    then show ?thesis by (simp add: closing_counts_def teardown_counts_def result_facts_def sorted_replicate)
  next
    case (Inr fams)
    obtain str where s: "run_script w p (prog\<lparr>pg_mods := mo\<rparr>) fams = (str, out)"
      using assms p0 m Inr by (auto simp: Run_test_def Let_def split: prod.splits simp flip: prog_def)
    obtain ctr errs mo' where c: "CloseModules (w_closeRun w) mo = (ctr, errs, mo')" by (metis prod_cases3)
    note st = run_script_trace [OF s]
    let ?close = "if out = Crashed then [] else tagged ClosingModules (map ModuleEvent ctr @ closeAndWarn (p_Warn p) ''protocol modules'' (joined errs))"
    have tr: "tr = tagged Starting (map ModuleEvent mtr) @ str @ ?close"
      using assms p0 m Inr s c
      by (cases "out = Crashed") (simp_all add: Run_test_def Let_def flip: prog_def del: tagged_simps)
    have "between Starting ClosingModules (tagged Starting (map ModuleEvent mtr) @ str @ tagged ClosingModules x)" for x
      by (rule between_append [OF between_tagged between_append [OF conjunct1 [OF st] between_tagged]]) (simp_all add: stage_nos)
    from this [of "[]"] this [of "map ModuleEvent ctr @ closeAndWarn (p_Warn p) ''protocol modules'' (joined errs)"]
    have "sorted (map fst tr)" unfolding tr between_def by (cases "out = Crashed") simp_all
    then show ?thesis using st
      by (auto simp: tr closing_counts_def teardown_counts_def result_facts_def split: run_outcome.splits)
  qed
qed



text \<open>The modules of a run. Whatever happens after them (a script that does not load its options, bad
  settings, a failed setup, an interrupted load phase), the runs of the modules that were started
  are closed, once each and after everything else.\<close>

theorem run_modules_released:
  assumes "w_load w = Inr prog" "pg_mods prog = Some ms" "no_runs ms"
  shows "(case Run_test w p of (tr, out) \<Rightarrow>
     (\<exists>js rest. imported_runs ms = js @ rest \<and>
        module_events tr = map RunStarted js @ (if out = Crashed then [] else map RunClosed js)))"
proof (cases "c_Script (p_Config p) = []")
  case True
  then show ?thesis by (auto simp: Run_test_def intro!: exI [of _ "[]"])
next
  case False
  let ?prog = "WithWarn (p_Warn p) (WithConsole (p_Console p) (WithEnv (p_Env p) prog))"
  have pm: "pg_mods ?prog = Some ms" by (simp add: WithWarn_def WithConsole_def WithEnv_def assms(2))
  obtain mtr mr mo where m: "StartModules (w_newRun w) (w_closeRun w) (Some ms) = (mtr, mr, mo)" by (metis prod_cases3)
  obtain ctr errs mo' where c: "CloseModules (w_closeRun w) mo = (ctr, errs, mo')" by (metis prod_cases3)
  obtain js rest where js: "imported_runs ms = js @ rest" "mtr @ ctr = map RunStarted js @ map RunClosed js"
    "(case mr of Inl _ \<Rightarrow> ctr = [] | Inr _ \<Rightarrow> mtr = map RunStarted js)"
    using modules_released [OF assms(3) m c] by blast
  show ?thesis
  proof (cases mr)
    case (Inl e)
    then have "module_events (fst (Run_test w p)) = mtr" "snd (Run_test w p) \<noteq> Crashed"
      using False assms(1) m by (simp_all add: Run_test_def Let_def pm)
    then show ?thesis unfolding case_prod_unfold using js Inl by - (rule exI [of _ js], rule exI [of _ rest], simp)
  next
    case (Inr fams)
    obtain str out where s: "run_script w p (?prog\<lparr>pg_mods := mo\<rparr>) fams = (str, out)" by fastforce
    have "module_events str = []" using run_script_trace [OF s] by simp
    then have "module_events (fst (Run_test w p)) = mtr @ (if out = Crashed then [] else ctr)" "snd (Run_test w p) = out"
      using False assms(1) m Inr s c by (auto simp: Run_test_def Let_def pm)
    then show ?thesis unfolding case_prod_unfold using js Inr by - (rule exI [of _ js], rule exI [of _ rest], simp)
  qed
qed

text \<open>A run that fails while its settings are resolved closes nothing of what the script's top-level code
  created: the lifecycle runtime is closed only by runs that got as far as setup.\<close>

lemma failed_resolve_closes_nothing:
  assumes "NewLifecycle w prog = (tr, Inr lc)" "resolve_run w p prog fams = (wtr, Inl e)"
  shows "run_script w p prog fams = (tagged Initializing (map (VUEvent 0) tr) @ tagged Resolving wtr, Failed_run e)"
  using assms by (simp add: run_script_def)

end
