(* ===== verification/Cli.thy ===== *)
theory Cli
  imports Runner
begin

text \<open>
  \<open>loadtool run\<close> as a process: \<open>internal/cli/run.go\<close> (\<open>newRunCmd\<close>) and \<open>cmd/loadtool/main.go\<close>. The flags cobra
  has parsed are a record; the command turns them into the parameters of a run and the requested outputs, runs
  the test (\<open>Runner\<close>), writes the outputs (\<open>Outcome\<close>) and exits.
\<close>

section \<open>The command\<close>

text \<open>\<open>rf_changed\<close> holds the names of the flags that were typed.\<close>

record run_flags =
  rf_vus :: int
  rf_duration :: duration
  rf_gracefulStop :: duration
  rf_out :: "string list"
  rf_summaryJSON :: string
  rf_reportHTML :: string
  rf_env :: "string list"
  rf_changed :: "string list"

definition run_flag_defaults :: run_flags where
  "run_flag_defaults = \<lparr>rf_vus = DefaultVUs, rf_duration = DefaultDuration, rf_gracefulStop = 30 * second,
     rf_out = [], rf_summaryJSON = [], rf_reportHTML = [], rf_env = [], rf_changed = []\<rparr>"

definition flag_overrides :: "run_flags \<Rightarrow> overrides" where
  "flag_overrides fl = \<lparr>
     ov_VUs = (if ''vus'' \<in> set (rf_changed fl) then Some (rf_vus fl) else None),
     ov_Duration = (if ''duration'' \<in> set (rf_changed fl) then Some (rf_duration fl) else None)\<rparr>"

definition add_outputs :: "run_flags \<Rightarrow> outputs \<Rightarrow> outputs" where
  "add_outputs fl out =
     (let out = (if rf_summaryJSON fl \<noteq> []
          then out\<lparr>out_jsonFiles := out_jsonFiles out @ [\<lparr>jf_flag = ''--summary-json'', jf_path = rf_summaryJSON fl\<rparr>]\<rparr>
          else out)
      in out\<lparr>out_reportHTML := rf_reportHTML fl\<rparr>)"

text \<open>What the process finds outside: its environment (\<open>os.Environ\<close>, \<open>os.LookupEnv\<close>), the order in which a Go map
  is listed, the texts of the runner's errors, the errors of the three kinds of output, and why its context
  ended.\<close>

record machine =
  m_environ :: "string list"
  m_LookupEnv :: "string \<rightharpoonup> string"
  m_entries :: "(string \<rightharpoonup> string) \<Rightarrow> (string \<times> string) list"
  m_errText :: "runner_error \<Rightarrow> string"
  m_stdoutErr :: "string option"
  m_fileErr :: "string \<Rightarrow> string option"
  m_htmlErr :: "string \<Rightarrow> string option"
  m_cause :: string

text \<open>The configuration the flags build before the settings are resolved: everything else is zero.\<close>

definition flag_config :: "run_flags \<Rightarrow> string \<Rightarrow> config" where
  "flag_config fl script = \<lparr>c_Script = script, c_VUs = 0, c_Duration = 0, c_GracefulStop = rf_gracefulStop fl,
     c_DiscardResponseBodies = False, c_NoCookiesReset = False, c_NoConnectionReuse = False, c_HTTPVersion = [],
     c_SetupTimeout = 0, c_TeardownTimeout = 0, c_Scenarios = [], c_ScenariosReplaced = False\<rparr>"

definition cli_params :: "machine \<Rightarrow> config \<Rightarrow> overrides \<Rightarrow> (string \<rightharpoonup> string) \<Rightarrow> params" where
  "cli_params m cfg cli env = \<lparr>p_Config = cfg, p_Overrides = cli, p_Getenv = m_LookupEnv m, p_Env = m_entries m env,
     p_Console = True, p_Warn = True, p_DialControl = False, p_NoProxy = False, p_RequestTimeout = 0\<rparr>"

text \<open>What the command did: the events of the run, what it wrote, and its error; \<open>None\<close> when the process
  crashed.\<close>

definition run_RunE :: "'v world \<Rightarrow> machine \<Rightarrow> run_flags \<Rightarrow> string \<Rightarrow>
    (Runner.stage \<times> run_event) list \<times> written list \<times> cli_error option option" where
  "run_RunE w m fl script = (case scriptEnv (m_environ m) (rf_env fl) of
       Inl kv \<Rightarrow> ([], [], Some (Some (PlainError (''--env '' @ quoted kv @ '' must have the form KEY=VALUE''))))
     | Inr env \<Rightarrow> (case parseOutputs (rf_out fl) of
         Inl f \<Rightarrow> ([], [], Some (Some (PlainError (''--out '' @ quoted f @
             '': supported outputs are json (to stdout) and json=<file>''))))
       | Inr out \<Rightarrow>
           (let report = (\<lambda>r. case runTest (add_outputs fl out) (m_stdoutErr m) (m_fileErr m) (m_htmlErr m) (m_cause m) r of
                              (wr, err) \<Rightarrow> (wr, Some err))
            in case Run_test w (cli_params m (flag_config fl script) (flag_overrides fl) env) of
                 (tr, Crashed) \<Rightarrow> (tr, [], None)
               | (tr, Failed_run e) \<Rightarrow> (tr, report (Inl (m_errText m e)))
               | (tr, Finished res) \<Rightarrow> (tr, report (Inr res)))))"

text \<open>\<open>main\<close>: the exit status; the Go runtime ends a process that panicked with status 2.\<close>

definition main_exit :: "cli_error option option \<Rightarrow> int" where
  "main_exit e = (case e of None \<Rightarrow> 2 | Some None \<Rightarrow> 0 | Some (Some err) \<Rightarrow> ExitCode (Some err))"

section \<open>What the flags mean\<close>

text \<open>The pair a \<open>KEY=VALUE\<close> text stands for.\<close>

definition entry_of :: "string \<Rightarrow> (string \<times> string) option" where
  "entry_of kv = (case cut_eq kv of (k, v, ok) \<Rightarrow> if ok \<and> k \<noteq> [] then Some (k, v) else None)"

definition pairs_of :: "string list \<Rightarrow> (string \<times> string) list" where
  "pairs_of kvs = concat (map (\<lambda>kv. opt_list (entry_of kv)) kvs)"

text \<open>The last value given for a key counts, and flags count after the environment.\<close>

definition script_env :: "string list \<Rightarrow> string list \<Rightarrow> (string \<rightharpoonup> string)" where
  "script_env environ flags k = map_of (rev (pairs_of (environ @ flags))) k"

definition out_path :: "string \<Rightarrow> string option" where
  "out_path f = (case cut_eq f of (kind, path, has) \<Rightarrow> if kind = ''json'' \<and> path \<noteq> [] then Some path else None)"

definition out_ok :: "string \<Rightarrow> bool" where
  "out_ok f \<longleftrightarrow> f = ''json'' \<or> out_path f \<noteq> None"

definition flags_ok :: "run_flags \<Rightarrow> bool" where
  "flags_ok fl \<longleftrightarrow> list_all (\<lambda>kv. entry_of kv \<noteq> None) (rf_env fl) \<and> list_all out_ok (rf_out fl)"

text \<open>The paths asked for, in order.\<close>

definition json_paths :: "run_flags \<Rightarrow> string list" where
  "json_paths fl = concat (map (\<lambda>f. opt_list (out_path f)) (rf_out fl)) @ (if rf_summaryJSON fl \<noteq> [] then [rf_summaryJSON fl] else [])"

definition asked_outputs :: "run_flags \<Rightarrow> written list" where
  "asked_outputs fl = [ConsoleReport (''json'' \<in> set (rf_out fl))] @ (if ''json'' \<in> set (rf_out fl) then [JSONStdout] else []) @
     map JSONFile (json_paths fl) @ (if rf_reportHTML fl \<noteq> [] then [HTMLFile (rf_reportHTML fl)] else [])"

definition asked_written :: "machine \<Rightarrow> run_flags \<Rightarrow> bool" where
  "asked_written m fl \<longleftrightarrow>
     (if ''json'' \<in> set (rf_out fl) then m_stdoutErr m = None else True) \<and>
     list_all (\<lambda>path. m_fileErr m path = None) (json_paths fl) \<and>
     (if rf_reportHTML fl \<noteq> [] then m_htmlErr m (rf_reportHTML fl) = None else True)"

lemma pairs_of_simps [simp]:
  "pairs_of [] = []" "pairs_of (kv # kvs) = opt_list (entry_of kv) @ pairs_of kvs"
  "pairs_of (xs @ ys) = pairs_of xs @ pairs_of ys"
  by (simp_all add: pairs_of_def)

lemma env_environ_pairs: "env_environ kvs env = env ++ map_of (rev (pairs_of kvs))"
  by (induction kvs arbitrary: env) (auto simp: entry_of_def opt_list_def map_add_def fun_eq_iff split: prod.splits option.splits)

lemma env_flags_pairs:
  "env_flags kvs env = (if list_all (\<lambda>kv. entry_of kv \<noteq> None) kvs then Inr (env ++ map_of (rev (pairs_of kvs)))
     else Inl (the (find (\<lambda>kv. entry_of kv = None) kvs)))"
  by (induction kvs arbitrary: env) (auto simp: entry_of_def opt_list_def map_add_def fun_eq_iff split: prod.splits option.splits)

lemma scriptEnv_pairs:
  "scriptEnv environ flags = (if list_all (\<lambda>kv. entry_of kv \<noteq> None) flags then Inr (script_env environ flags)
     else Inl (the (find (\<lambda>kv. entry_of kv = None) flags)))"
  by (auto simp: scriptEnv_def env_environ_pairs env_flags_pairs script_env_def fun_eq_iff map_add_def split: option.splits)

lemma cut_eq_none: "cut_eq f = (k, v, False) \<Longrightarrow> k = f"
  by (auto simp: cut_eq_def Let_def split: if_splits)

lemma cut_eq_json: "cut_eq ''json'' = (''json'', [], False)"
  by (simp add: cut_eq_def)

lemma parse_outputs_ok:
  "parse_outputs fs out =
     (if list_all out_ok fs
      then Inr (out\<lparr>out_jsonStdout := out_jsonStdout out \<or> ''json'' \<in> set fs,
             out_jsonFiles := out_jsonFiles out @ concat (map (\<lambda>f. map (\<lambda>path. \<lparr>jf_flag = ''--out '' @ f, jf_path = path\<rparr>) (opt_list (out_path f))) fs)\<rparr>)
      else Inl (the (find (\<lambda>f. \<not> out_ok f) fs)))"
proof (induction fs arbitrary: out)
  case (Cons f fs)
  obtain k v h where c: "cut_eq f = (k, v, h)" by (metis prod_cases3)
  have j: "k = ''json'' \<and> \<not> h \<longleftrightarrow> f = ''json''" using c cut_eq_none [of f k v] cut_eq_json by (cases h) auto
  consider (to_stdout) "f = ''json''" "out_path f = None"
    | (to_file) "f \<noteq> ''json''" "out_path f = Some v"
    | (refused) "\<not> out_ok f" "f \<noteq> ''json''" "out_path f = None"
    using c j cut_eq_json by (cases "f = ''json''"; cases "out_path f") (auto simp: out_path_def out_ok_def split: if_splits)
  then show ?case
  proof cases
    case to_stdout
    then show ?thesis using Cons.IH cut_eq_json by (simp add: out_ok_def opt_list_def)
  next
    case to_file
    then have "k = ''json''" "v \<noteq> []" using c by (auto simp: out_path_def split: if_splits)
    then show ?thesis using Cons.IH c j to_file by (simp add: out_ok_def opt_list_def)
  next
    case refused
    then have "\<not> (k = ''json'' \<and> v \<noteq> [])" using c by (auto simp: out_path_def split: if_splits)
    then show ?thesis using c j refused by auto
  qed
qed simp

definition asked :: "run_flags \<Rightarrow> outputs \<Rightarrow> bool" where
  "asked fl out \<longleftrightarrow> out_jsonStdout out = (''json'' \<in> set (rf_out fl)) \<and> map jf_path (out_jsonFiles out) = json_paths fl \<and>
     out_reportHTML out = rf_reportHTML fl"

lemma parseOutputs_asked:
  "list_all out_ok (rf_out fl) \<Longrightarrow> \<exists>out. parseOutputs (rf_out fl) = Inr out \<and> asked fl (add_outputs fl out)"
  "\<not> list_all out_ok (rf_out fl) \<Longrightarrow> \<exists>f. parseOutputs (rf_out fl) = Inl f"
  unfolding parseOutputs_def parse_outputs_ok
  by (simp_all add: asked_def add_outputs_def json_paths_def Let_def map_concat comp_def)

lemma asked_written_outputs:
  assumes "asked fl out"
  shows "outputs_of out = asked_outputs fl" "all_written out (m_stdoutErr m) (m_fileErr m) (m_htmlErr m) = asked_written m fl"
proof -
  have "map (\<lambda>f. JSONFile (jf_path f)) (out_jsonFiles out) = map JSONFile (map jf_path (out_jsonFiles out))" by simp
  then show "outputs_of out = asked_outputs fl" using assms
    by (simp only: outputs_of_def asked_outputs_def asked_def split: if_split)
  have "list_all (\<lambda>f. m_fileErr m (jf_path f) = None) (out_jsonFiles out) =
      list_all (\<lambda>path. m_fileErr m path = None) (map jf_path (out_jsonFiles out))" by (simp add: list_all_iff)
  then show "all_written out (m_stdoutErr m) (m_fileErr m) (m_htmlErr m) = asked_written m fl"
    using assms by (simp add: all_written_def asked_written_def asked_def)
qed

section \<open>What the process does\<close>

lemma verdict_code:
  assumes "Run_test w p = (tr, Finished r)"
  shows "oc_ExitCode (Verdict r) = (if \<not> w_cancelled w \<and> list_all (teardown_ok w) (setups tr)
     then if list_all re_Passed (rp_Thresholds r) then 0 else 99 else 1)"
proof -
  have f: "\<not> Failed ts \<longleftrightarrow> list_all re_Passed ts" for ts by (auto simp: Failed_def list_ex_iff list_all_iff)
  show ?thesis using run_trace [OF assms] f [of "rp_Thresholds r"]
    by (auto simp: result_facts_def Verdict_eq Let_def exit_codes)
qed

text \<open>C22: \<open>loadtool run\<close> from its flags to its exit status. Malformed flags end the process with 1 before anything
  else happens. Otherwise the test is run once, with the typed flags as overrides and an \<open>__ENV\<close> in which
  flags win over the environment and later entries over earlier ones. Without a result nothing is written and
  the status is 1 (2 after a panic). With a result, the console report and every output asked for are attempted
  in order, whatever the verdict; the status is 1 when one cannot be written, when the test was interrupted or
  when its teardown failed; otherwise it is 99 when a threshold failed and 0 when all passed.\<close>

theorem run_command_exact:
  "(case run_RunE w m fl script of (tr, wr, err) \<Rightarrow>
      if \<not> flags_ok fl then tr = [] \<and> wr = [] \<and> main_exit err = 1
      else case Run_test w (cli_params m (flag_config fl script) (flag_overrides fl) (script_env (m_environ m) (rf_env fl))) of
        (events, outcome) \<Rightarrow> tr = events \<and>
          (case outcome of
             Crashed \<Rightarrow> wr = [] \<and> main_exit err = 2
           | Failed_run e \<Rightarrow> wr = [] \<and> main_exit err = 1
           | Finished r \<Rightarrow> wr = asked_outputs fl \<and>
               main_exit err = (if asked_written m fl \<and> \<not> w_cancelled w \<and> list_all (teardown_ok w) (setups events)
                 then if list_all re_Passed (rp_Thresholds r) then 0 else 99
                 else 1)))"
proof (cases "flags_ok fl")
  case False
  then show ?thesis
  proof (cases "list_all (\<lambda>kv. entry_of kv \<noteq> None) (rf_env fl)")
    case True
    then obtain f where "parseOutputs (rf_out fl) = Inl f" using False parseOutputs_asked(2) by (auto simp: flags_ok_def)
    then show ?thesis using False True by (simp add: run_RunE_def scriptEnv_pairs main_exit_def ExitCode_def)
  qed (simp add: run_RunE_def scriptEnv_pairs main_exit_def ExitCode_def)
next
  case True
  let ?env = "script_env (m_environ m) (rf_env fl)"
  let ?p = "cli_params m (flag_config fl script) (flag_overrides fl) ?env"
  have env: "scriptEnv (m_environ m) (rf_env fl) = Inr ?env" using True by (simp add: scriptEnv_pairs flags_ok_def)
  obtain out where out: "parseOutputs (rf_out fl) = Inr out" "asked fl (add_outputs fl out)"
    using parseOutputs_asked(1) True by (auto simp: flags_ok_def)
  obtain tr o' where r: "Run_test w ?p = (tr, o')" by fastforce
  show ?thesis
  proof (cases o')
    case (Failed_run e)
    then show ?thesis using True by (simp add: run_RunE_def env out(1) r runTest_def main_exit_def ExitCode_def)
  next
    case Crashed
    then show ?thesis using True by (simp add: run_RunE_def env out(1) r main_exit_def)
  next
    case (Finished res)
    obtain wr err where w: "runTest (add_outputs fl out) (m_stdoutErr m) (m_fileErr m) (m_htmlErr m) (m_cause m) (Inr res) = (wr, err)"
      by fastforce
    have "main_exit (Some err) = ExitCode err" by (cases err) (simp_all add: main_exit_def ExitCode_def)
    then show ?thesis
      using True exit_code_agrees [where out = "add_outputs fl out" and stdoutErr = "m_stdoutErr m" and fileErr = "m_fileErr m" and
            htmlErr = "m_htmlErr m" and cause = "m_cause m" and run = "Inr res"]
        asked_written_outputs(1) [OF out(2)] asked_written_outputs(2) [OF out(2), of m] verdict_code [OF r [unfolded Finished]] r
      by (simp add: run_RunE_def env out(1) w Finished)
  qed
qed

end
