(* ===== verification/Go_Http.thy ===== *)
theory Go_Http
  imports Go_Text
begin

text \<open>
  What the program uses of \<open>net/url\<close> and \<open>net/http\<close>, written out: query escaping, the maps \<open>url.Values\<close> and
  \<open>http.Header\<close> with the canonical form of header names, and base64.
\<close>

section \<open>Values and headers\<close>

text \<open>\<open>url.Values\<close> and \<open>http.Header\<close>: the values of each key, in the order they were added. The order of
  the keys is the model's; Go's map has none.\<close>

type_synonym url_values = "(string \<times> string list) list"

definition alnum :: "char \<Rightarrow> bool" where
  "alnum c \<longleftrightarrow> in_range CHR ''a'' CHR ''z'' c \<or> in_range CHR ''A'' CHR ''Z'' c \<or> in_range CHR ''0'' CHR ''9'' c"

definition contains_any :: "string \<Rightarrow> string \<Rightarrow> bool" where
  "contains_any s cs \<longleftrightarrow> list_ex (\<lambda>c. c \<in> set cs) s"

fun values_get :: "url_values \<Rightarrow> string \<Rightarrow> string list" where
  "values_get [] k = []"
| "values_get ((k', vs) # h) k = (if k' = k then vs else values_get h k)"

fun values_set :: "url_values \<Rightarrow> string \<Rightarrow> string list \<Rightarrow> url_values" where
  "values_set [] k vs = [(k, vs)]"
| "values_set ((k', vs') # h) k vs = (if k' = k then (k, vs) # h else (k', vs') # values_set h k vs)"

definition values_add :: "url_values \<Rightarrow> string \<Rightarrow> string \<Rightarrow> url_values" where
  "values_add h k v = values_set h k (values_get h k @ [v])"

definition hex_digit :: "nat \<Rightarrow> char" where
  "hex_digit n = ''0123456789ABCDEF'' ! n"

definition escape_byte :: "char \<Rightarrow> string" where
  "escape_byte c = (if alnum c \<or> c \<in> set ''-_.~'' then [c]
     else if c = CHR '' '' then ''+''
     else [CHR ''%'', hex_digit (byte c div 16), hex_digit (byte c mod 16)])"

definition QueryEscape :: "string \<Rightarrow> string" where
  "QueryEscape s = concat (map escape_byte s)"

definition Encode :: "url_values \<Rightarrow> string" where
  "Encode q = str_join (concat (map (\<lambda>k. map (\<lambda>v. QueryEscape k @ ''='' @ QueryEscape v) (values_get q k)) (sort (map fst q)))) ''&''"

definition token_char :: "char \<Rightarrow> bool" where
  "token_char c \<longleftrightarrow> alnum c \<or> c \<in> set ''!#$%&*+-.^_|~'' \<or> c = CHR 0x27 \<or> c = CHR 0x60"

fun canonical_loop :: "bool \<Rightarrow> string \<Rightarrow> string" where
  "canonical_loop upper [] = []"
| "canonical_loop upper (c # s) = (if upper then upper_char c else lower_char c) # canonical_loop (c = CHR ''-'') s"

definition CanonicalHeaderKey :: "string \<Rightarrow> string" where
  "CanonicalHeaderKey s = (if list_all token_char s then canonical_loop True s else s)"

definition header_Add :: "url_values \<Rightarrow> string \<Rightarrow> string \<Rightarrow> url_values" where
  "header_Add h k v = values_add h (CanonicalHeaderKey k) v"

definition header_Set :: "url_values \<Rightarrow> string \<Rightarrow> string \<Rightarrow> url_values" where
  "header_Set h k v = values_set h (CanonicalHeaderKey k) [v]"

definition header_Get :: "url_values \<Rightarrow> string \<Rightarrow> string" where
  "header_Get h k = (case values_get h (CanonicalHeaderKey k) of [] \<Rightarrow> [] | v # _ \<Rightarrow> v)"

definition base64_char :: "nat \<Rightarrow> char" where
  "base64_char n = ''ABCDEFGHIJKLMNOPQRSTUVWXYZabcdefghijklmnopqrstuvwxyz0123456789+/'' ! (n mod 64)"

fun base64 :: "string \<Rightarrow> string" where
  "base64 [] = []"
| "base64 [a] = [base64_char (byte a div 4), base64_char (byte a * 16), CHR ''='', CHR ''='']"
| "base64 [a, b] = [base64_char (byte a div 4), base64_char (byte a * 16 + byte b div 16), base64_char (byte b * 4), CHR ''='']"
| "base64 (a # b # c # s) = base64_char (byte a div 4) # base64_char (byte a * 16 + byte b div 16) #
     base64_char (byte b * 4 + byte c div 64) # base64_char (byte c) # base64 s"

section \<open>Header names\<close>

text \<open>The bytes a token does not have.\<close>

definition token_separators :: string where
  "token_separators = [CHR 0x22, CHR ''('', CHR '')'', CHR '','', CHR ''/'', CHR '':'', CHR '';'', CHR ''<'', CHR ''='', CHR ''>'',
     CHR ''?'', CHR ''@'', CHR ''['', CHR 0x5C, CHR '']'', CHR ''{'', CHR ''}'']"

lemma token_char_separators: "token_char c \<longleftrightarrow> \<not> (byte c > 126 \<or> byte c \<le> byte (CHR '' '') \<or> c \<in> set token_separators)"
proof -
  have "\<forall>c. token_char c = (\<not> (byte c > 126 \<or> byte c \<le> byte (CHR '' '') \<or> c \<in> set token_separators))" by code_simp
  then show ?thesis by blast
qed

lemma byte_inject: "c = d \<longleftrightarrow> byte c = byte d"
  by (simp add: byte_def)

lemma byte_char_of: "n < 256 \<Longrightarrow> byte (char_of n) = n"
  by (simp add: byte_def)

lemma byte_upper: "byte (upper_char c) = (if 97 \<le> byte c \<and> byte c \<le> 122 then byte c - 32 else byte c)"
proof -
  have "byte CHR ''a'' = 97" "byte CHR ''z'' = 122" by (simp_all add: byte_def)
  then show ?thesis by (auto simp: upper_char_def in_range_def intro!: byte_char_of)
qed

lemma byte_lower: "byte (lower_char c) = (if 65 \<le> byte c \<and> byte c \<le> 90 then byte c + 32 else byte c)"
proof -
  have "byte CHR ''A'' = 65" "byte CHR ''Z'' = 90" by (simp_all add: byte_def)
  then show ?thesis by (auto simp: lower_char_def in_range_def intro!: byte_char_of)
qed

lemma case_chars:
  "upper_char (upper_char c) = upper_char c" "lower_char (lower_char c) = lower_char c"
  "upper_char c = CHR ''-'' \<longleftrightarrow> c = CHR ''-''" "lower_char c = CHR ''-'' \<longleftrightarrow> c = CHR ''-''"
proof -
  have dash: "byte CHR ''-'' = 45" by (simp add: byte_def)
  show "upper_char (upper_char c) = upper_char c" "lower_char (lower_char c) = lower_char c"
    unfolding byte_inject [of "upper_char (upper_char c)"] byte_inject [of "lower_char (lower_char c)"]
    by (auto simp: byte_upper byte_lower)
  show "upper_char c = CHR ''-'' \<longleftrightarrow> c = CHR ''-''" "lower_char c = CHR ''-'' \<longleftrightarrow> c = CHR ''-''"
    unfolding byte_inject [of _ "CHR ''-''"] byte_upper byte_lower dash by arith+
qed

lemma token_letter: "97 \<le> byte c \<and> byte c \<le> 122 \<or> 65 \<le> byte c \<and> byte c \<le> 90 \<Longrightarrow> token_char c"
proof -
  assume a: "97 \<le> byte c \<and> byte c \<le> 122 \<or> 65 \<le> byte c \<and> byte c \<le> 90"
  have "byte CHR ''a'' = 97" "byte CHR ''z'' = 122" "byte CHR ''A'' = 65" "byte CHR ''Z'' = 90" by (simp_all add: byte_def)
  then show ?thesis using a unfolding token_char_def alnum_def in_range_def by auto
qed

lemma token_case: "token_char (upper_char c) = token_char c" "token_char (lower_char c) = token_char c"
proof -
  show "token_char (upper_char c) = token_char c"
  proof (cases "97 \<le> byte c \<and> byte c \<le> 122")
    case True
    then have "byte (upper_char c) = byte c - 32" by (simp add: byte_upper)
    then have "token_char (upper_char c)" using True by (intro token_letter) arith
    then show ?thesis using True token_letter by blast
  next
    case False
    then have "upper_char c = c" unfolding byte_inject [of "upper_char c"] byte_upper by auto
    then show ?thesis by simp
  qed
  show "token_char (lower_char c) = token_char c"
  proof (cases "65 \<le> byte c \<and> byte c \<le> 90")
    case True
    then have "byte (lower_char c) = byte c + 32" by (simp add: byte_lower)
    then have "token_char (lower_char c)" using True by (intro token_letter) arith
    then show ?thesis using True token_letter by blast
  next
    case False
    then have "lower_char c = c" unfolding byte_inject [of "lower_char c"] byte_lower by auto
    then show ?thesis by simp
  qed
qed
lemma canonical_loop_idem: "canonical_loop up (canonical_loop up s) = canonical_loop up s"
  by (induction up s rule: canonical_loop.induct) (simp_all add: case_chars)

lemma canonical_loop_token: "list_all token_char (canonical_loop up s) = list_all token_char s"
  by (induction up s rule: canonical_loop.induct) (simp_all add: token_case)

lemma canonical_loop_Nil [simp]: "canonical_loop up s = [] \<longleftrightarrow> s = []"
  by (cases s) simp_all

lemma canonical_idem: "CanonicalHeaderKey (CanonicalHeaderKey name) = CanonicalHeaderKey name"
  by (simp add: CanonicalHeaderKey_def canonical_loop_token canonical_loop_idem)

lemma canonical_fixed [simp]:
  "CanonicalHeaderKey ''Authorization'' = ''Authorization''" "CanonicalHeaderKey ''Content-Type'' = ''Content-Type''"
  "CanonicalHeaderKey ''Cookie'' = ''Cookie''"
  by code_simp+

section \<open>Values\<close>

lemma values_set_keys: "set (map fst (values_set h k vs)) = insert k (set (map fst h))"
  by (induction h k vs rule: values_set.induct) auto

lemma values_set_distinct: "distinct (map fst h) \<Longrightarrow> distinct (map fst (values_set h k vs))"
proof (induction h k vs rule: values_set.induct)
  case (2 k' vs' h k vs)
  then show ?case using values_set_keys [of h k vs] by auto
qed simp

lemma values_get_mem: "values_get h k = [] \<or> (k, values_get h k) \<in> set h"
  by (induction h k rule: values_get.induct) auto

lemma values_get_set: "values_get (values_set h k vs) k' = (if k' = k then vs else values_get h k')"
  by (induction h k vs rule: values_set.induct) auto

section \<open>One line\<close>

definition one_line :: "string \<Rightarrow> bool" where
  "one_line v \<longleftrightarrow> \<not> contains_any v [CHR 0x0D, CHR 0x0A]"

lemma one_line_append [simp]: "one_line (u @ v) \<longleftrightarrow> one_line u \<and> one_line v"
  by (auto simp: one_line_def contains_any_def)

lemma base64_char_line [simp]: "one_line [base64_char n]"
proof -
  let ?a = "''ABCDEFGHIJKLMNOPQRSTUVWXYZabcdefghijklmnopqrstuvwxyz0123456789+/''"
  have "list_all (\<lambda>c. one_line [c]) ?a" by code_simp
  moreover have "base64_char n \<in> set ?a" unfolding base64_char_def by (rule nth_mem) simp
  ultimately show ?thesis by (simp only: list_all_iff)
qed

lemma one_line_Cons: "one_line (c # v) \<longleftrightarrow> one_line [c] \<and> one_line v"
  using one_line_append [of "[c]" v] by simp

lemma base64_line: "one_line (base64 s)"
proof -
  have e: "one_line ''=''" "one_line []" by (simp_all add: one_line_def contains_any_def)
  show ?thesis
  proof (induction s rule: base64.induct)
    case 1 then show ?case by (simp add: e)
  next
    case (2 a) then show ?case using e by (simp add: one_line_Cons [of _ "_ # _"])
  next
    case (3 a b) then show ?case using e by (simp add: one_line_Cons [of _ "_ # _"])
  next
    case (4 a b c s) then show ?case by (simp only: base64.simps one_line_Cons [of _ "_ # _"] one_line_Cons [of _ "base64 _"] base64_char_line simp_thms)
  qed
qed

end
