(* ===== verification/Script_Bundle.thy ===== *)
theory Script_Bundle
  imports Script Go_Http Go_Json
begin

text \<open>
  From a script file to a program: \<open>Load\<close>, \<open>compileIn\<close>, \<open>transpile\<close>, the plugin that answers the bundler, the
  inline source map and the build errors of \<open>internal/script/script.go\<close>, the generated JavaScript of
  \<open>modules.go\<close> and \<open>protocols.go\<close>, and \<open>exportNames\<close>, \<open>entryFor\<close> of \<open>exec.go\<close>. The bundler (esbuild), the
  JavaScript compiler (goja) and the decoding of JSON are arguments; the bundler gets its options and the
  answers of the plugin.
\<close>

section \<open>Generated JavaScript\<close>

definition newline :: string where "newline = [CHR 0x0A]"
definition scriptNamespace :: string where "scriptNamespace = ''loadtool''"
definition defaultExportGlobal :: string where "defaultExportGlobal = ''__loadtool_default''"
definition optionsGlobal :: string where "optionsGlobal = ''__loadtool_options''"
definition setupGlobal :: string where "setupGlobal = ''__loadtool_setup''"
definition teardownGlobal :: string where "teardownGlobal = ''__loadtool_teardown''"
definition builtinGlobal :: string where "builtinGlobal = ''__loadtool_builtin''"
definition builtinNamespace :: string where "builtinNamespace = ''loadtool-builtin''"
definition outfile :: string where "outfile = ''script.js''"

definition lifecycle_lines :: string where
  "lifecycle_lines = ''globalThis.'' @ optionsGlobal @ '' = mod.options;'' @ newline @
     ''if (__VU === 0) { globalThis.'' @ setupGlobal @ '' = mod.setup; globalThis.'' @ teardownGlobal @ '' = mod.teardown; }'' @ newline"

definition entrySource :: string where
  "entrySource = ''import * as mod from '' @ quoted scriptImport @ '';'' @ newline @
     ''globalThis.'' @ defaultExportGlobal @ '' = mod.default;'' @ newline @ lifecycle_lines"

definition entryFor :: "string list \<Rightarrow> string" where
  "entryFor execs = ''import * as mod from '' @ quoted scriptImport @ '';'' @ newline @
     ''const exec = globalThis.'' @ builtinGlobal @ ''.exec;'' @ newline @
     ''globalThis.'' @ defaultExportGlobal @ '' = '' @
     concat (map (\<lambda>n. ''exec === '' @ quoted n @ '' ? mod.'' @ n @ '' : '') execs) @ ''mod.default;'' @ newline @ lifecycle_lines"

text \<open>One re-exported member of the module object \<open>m\<close>.\<close>

definition pure_export :: "string \<Rightarrow> string \<Rightarrow> string" where
  "pure_export e member = ''export const '' @ e @ '' = /* @__PURE__ */ (() => m.'' @ member @ '')();'' @ newline"

definition module_code :: "proto_module \<Rightarrow> string" where
  "module_code m = ''const m = globalThis.'' @ builtinGlobal @ ''['' @ quoted (pm_Name m) @ ''];'' @ newline @
     ''export default m;'' @ newline @ concat (map (\<lambda>e. pure_export e e) (pm_Exports m))"

definition builtinModules :: "string \<Rightarrow> string option" where
  "builtinModules path =
     (if path = ''loadtool/http'' then Some (''const m = globalThis.'' @ builtinGlobal @ ''.http;'' @ newline @
        ''export default m;'' @ newline @ pure_export ''get'' ''get'' @ pure_export ''post'' ''post'' @ pure_export ''put'' ''put'' @
        pure_export ''patch'' ''patch'' @ pure_export ''del'' ''del'' @ pure_export ''request'' ''request'')
      else if path = ''loadtool'' then Some (''const m = globalThis.'' @ builtinGlobal @ ''.core;'' @ newline @
        pure_export ''sleep'' ''sleep'' @ pure_export ''check'' ''check'' @
        ''// group runs fn and returns its result. Tagging metrics with the group'' @ newline @
        ''// name comes with the metrics registry.'' @ newline @
        ''export function group(name, fn) {'' @ newline @
        [CHR 0x09] @ ''if (typeof fn !== '' @ quoted ''function'' @ '') {'' @ newline @
        [CHR 0x09, CHR 0x09] @ ''throw new TypeError('' @ quoted ''group: the second argument must be a function'' @ '');'' @ newline @
        [CHR 0x09] @ ''}'' @ newline @ [CHR 0x09] @ ''return fn();'' @ newline @ ''}'' @ newline @
        ''export default { sleep, check, group };'' @ newline)
      else None)"

text \<open>The importable module paths, quoted, for error messages.\<close>

definition ms_names :: "module_set option \<Rightarrow> string list" where
  "ms_names mo = [quoted ''loadtool'', quoted ''loadtool/http''] @
     (case mo of None \<Rightarrow> [] | Some ms \<Rightarrow> concat (map (\<lambda>m. map (\<lambda>n. quoted (loadtool_prefix @ n)) (module_names m)) (ms_all ms)))"

definition builtinModuleSource :: "string \<Rightarrow> module_set option \<Rightarrow> string + string" where
  "builtinModuleSource path mo = (case builtinModules path of
       None \<Rightarrow> Inl (''unknown module '' @ quoted path @ ''; built-in modules are '' @ str_join (ms_names mo) '', '')
     | Some src \<Rightarrow> Inr src)"

section \<open>The bundler and its plugin\<close>

datatype loader = LoaderJS | LoaderTS

datatype resolve_answer =
    ResolvedIn string string
  | LeftToBundler
  | ResolveError string

datatype load_answer =
    Contents string loader "string option"
  | LoadError string

record location =
  lo_File :: string
  lo_Line :: int
  lo_Column :: int

record build_message =
  bm_Text :: string
  bm_Location :: "location option"

record output_file =
  of_Path :: string
  of_Contents :: "string option"

record build_output =
  bo_Errors :: "build_message list"
  bo_Files :: "output_file list"
  bo_Metafile :: string

datatype build_format = FormatIIFE | FormatESModule

record build_input =
  bi_Entry :: string
  bi_Format :: build_format
  bi_AbsWorkingDir :: string
  bi_SourceMap :: bool
  bi_Metafile :: bool
  bi_Outfile :: string
  bi_resolve :: "string \<Rightarrow> string \<Rightarrow> resolve_answer"
  bi_loadScript :: load_answer
  bi_loadBuiltin :: "string \<Rightarrow> load_answer"

text \<open>The tools: the bundler with the imports (importer and path) it asks the plugin about, JSON decoding and
  encoding of the source map, the export lists in the metafile in the order Go ranges over them, and the
  error of compiling JavaScript.\<close>

record toolchain =
  tc_build :: "build_input \<Rightarrow> build_output"
  tc_imports :: "build_input \<Rightarrow> (string \<times> string) list"
  tc_unmarshal :: "string \<Rightarrow> string + (string \<times> json) list"
  tc_marshal :: "(string \<times> json) list \<Rightarrow> string + string"
  tc_exports :: "string \<Rightarrow> string + string list list"
  tc_compile :: "string \<Rightarrow> string \<Rightarrow> string option"

text \<open>\<open>filepath.Ext\<close>, and \<open>strings.EqualFold\<close> with \<open>.ts\<close>: the long s (U+017F) folds to s.\<close>

definition filepath_Ext :: "string \<Rightarrow> string" where
  "filepath_Ext path = (let r = takeWhile (\<lambda>c. c \<noteq> CHR ''/'' \<and> c \<noteq> CHR ''.'') (rev path)
     in if length r < length path \<and> rev path ! length r = CHR ''.'' then CHR ''.'' # rev r else [])"

definition loader_for :: "string \<Rightarrow> loader" where
  "loader_for filename = (let e = map lower_char (filepath_Ext filename)
     in if e = ''.ts'' \<or> e = ''.t'' @ [CHR 0xC5, CHR 0xBF] then LoaderTS else LoaderJS)"

definition plugin_resolve :: "string \<Rightarrow> string \<Rightarrow> module_set option \<Rightarrow> string \<Rightarrow> string \<Rightarrow> resolve_answer" where
  "plugin_resolve filename dir mo importer path = (case fst (OnResolve dir mo importer path) of
       UserScript \<Rightarrow> ResolvedIn filename scriptNamespace
     | BuiltinModule p \<Rightarrow> ResolvedIn p builtinNamespace
     | RelativeFile \<Rightarrow> LeftToBundler
     | NeedsFile p \<Rightarrow> ResolveError (''relative imports need the script to be loaded from a file (importing '' @ quoted p @ '')'')
     | CannotImport p \<Rightarrow> ResolveError (''cannot import '' @ quoted p @ '': only built-in modules ('' @
         str_join (ms_names mo) '', '' @ '') and relative paths such as '' @ quoted ''./helpers.ts'' @ '' can be imported''))"

definition plugin_load :: "module_set option \<Rightarrow> string \<Rightarrow> load_answer" where
  "plugin_load mo path = (case (ms_index mo path, mo) of
       (Some i, Some ms) \<Rightarrow> Contents (module_code (ms_all ms ! i)) LoaderJS None
     | _ \<Rightarrow> (case builtinModuleSource path mo of Inl e \<Rightarrow> LoadError e | Inr src \<Rightarrow> Contents src LoaderJS None))"

definition build_options :: "string \<Rightarrow> string \<Rightarrow> string \<Rightarrow> module_set option \<Rightarrow> string \<Rightarrow> build_input" where
  "build_options filename dir src mo entry = \<lparr>bi_Entry = entry, bi_Format = FormatIIFE, bi_AbsWorkingDir = dir,
     bi_SourceMap = True, bi_Metafile = False, bi_Outfile = outfile,
     bi_resolve = plugin_resolve filename dir mo, bi_loadScript = Contents src (loader_for filename) (Some dir),
     bi_loadBuiltin = plugin_load mo\<rparr>"

section \<open>Errors and the source map\<close>

definition build_line :: "string \<Rightarrow> build_message \<Rightarrow> string" where
  "build_line filename m = (case bm_Location m of
       Some l \<Rightarrow> trim_prefix (lo_File l) (scriptNamespace @ '':'') @ '':'' @ itoa (lo_Line l) @ '':'' @ itoa (lo_Column l + 1) @ '': '' @ bm_Text m
     | None \<Rightarrow> filename @ '': '' @ bm_Text m)"

definition buildError :: "string \<Rightarrow> build_message list \<Rightarrow> string" where
  "buildError filename msgs = str_join (map (build_line filename) msgs) newline"

fun pick_outputs :: "output_file list \<Rightarrow> string option \<times> string option \<Rightarrow> string option \<times> string option" where
  "pick_outputs [] acc = acc"
| "pick_outputs (f # fs) (code, srcMap) =
     pick_outputs fs (if has_suffix (of_Path f) ''.map'' then (code, of_Contents f) else (of_Contents f, srcMap))"

definition strip_source :: "json \<Rightarrow> json" where
  "strip_source s = (case s of JStr name \<Rightarrow> JStr (trim_prefix name (scriptNamespace @ '':'')) | _ \<Rightarrow> s)"

definition strip_sources :: "(string \<times> json) list \<Rightarrow> (string \<times> json) list" where
  "strip_sources m = map (\<lambda>(k, v). if k = ''sources'' then (k, case v of JArr ss \<Rightarrow> JArr (map strip_source ss) | _ \<Rightarrow> v) else (k, v)) m"

text \<open>\<open>strings.LastIndex\<close>: what comes before the last occurrence.\<close>

definition cut_last :: "string \<Rightarrow> string \<Rightarrow> string" where
  "cut_last s sep = (case filter (\<lambda>i. has_prefix (drop i s) sep) (rev [0..<Suc (length s)]) of [] \<Rightarrow> s | i # _ \<Rightarrow> take i s)"

definition mapComment :: string where "mapComment = ''//# sourceMappingURL=''"
definition mapDataURL :: string where "mapDataURL = ''data:application/json;base64,''"

definition withInlineSourceMap :: "toolchain \<Rightarrow> output_file list \<Rightarrow> string + string" where
  "withInlineSourceMap tc files = (case pick_outputs files (None, None) of
       (Some js, Some srcMap) \<Rightarrow> (case tc_unmarshal tc srcMap of
           Inl e \<Rightarrow> Inl (''read source map: '' @ e)
         | Inr m \<Rightarrow> (case tc_marshal tc (strip_sources m) of
             Inl e \<Rightarrow> Inl (''write source map: '' @ e)
           | Inr t \<Rightarrow> Inr (cut_last js mapComment @ mapComment @ mapDataURL @ base64 t @ newline)))
     | _ \<Rightarrow> Inl (''expected code and source map, got '' @ itoa (int (length files)) @ '' output files''))"

section \<open>Compiling and loading\<close>

text \<open>The result, and the modules after the imports the bundler asked about were marked.\<close>

definition transpileEntry :: "toolchain \<Rightarrow> string \<Rightarrow> string \<Rightarrow> string \<Rightarrow> string \<Rightarrow> module_set option \<Rightarrow>
    (string + string) \<times> module_set option" where
  "transpileEntry tc filename dir src entry mo =
     (let inp = build_options filename dir src mo entry;
          out = tc_build tc inp
      in (if bo_Errors out \<noteq> [] then Inl (buildError filename (bo_Errors out))
          else (case withInlineSourceMap tc (bo_Files out) of
                  Inl e \<Rightarrow> Inl (''compile '' @ filename @ '': '' @ e)
                | Inr code \<Rightarrow> Inr code),
          resolve_all dir (tc_imports tc inp) mo))"

definition transpile :: "toolchain \<Rightarrow> string \<Rightarrow> string \<Rightarrow> string \<Rightarrow> module_set option \<Rightarrow> (string + string) \<times> module_set option" where
  "transpile tc filename dir src mo = transpileEntry tc filename dir src entrySource mo"

definition module_error_text :: "module_error \<Rightarrow> string" where
  "module_error_text e = (case e of
       ReservedName n \<Rightarrow> ''protocol module '' @ quoted n @ '': the name is reserved''
     | RegisteredTwice n \<Rightarrow> ''protocol module name '' @ quoted n @ '' is registered twice'')"

text \<open>A compiled program: the code goja runs, with the rest of \<open>Program\<close>.\<close>

definition compileIn :: "toolchain \<Rightarrow> string \<Rightarrow> string \<Rightarrow> string \<Rightarrow> proto_module list \<Rightarrow> string + string \<times> program" where
  "compileIn tc filename dir src modules =
     (case (if modules \<noteq> [] then map_sum module_error_text Some (newModuleSet modules) else Inr None) of
        Inl e \<Rightarrow> Inl e
      | Inr mo0 \<Rightarrow> (case transpile tc filename dir src mo0 of
          (Inl e, mo) \<Rightarrow> Inl e
        | (Inr code, mo) \<Rightarrow>
            (let mo = map_option ms_seal mo
             in case tc_compile tc filename code of
                  Some e \<Rightarrow> Inl (''compile '' @ filename @ '': '' @ e)
                | None \<Rightarrow> Inr (code, \<lparr>pg_filename = filename, pg_dir = dir, pg_execs = [], pg_env = [], pg_console = False,
                    pg_discardBodies = False, pg_keepCookies = False, pg_setupData = None, pg_warn = False, pg_mods = mo\<rparr>))))"

text \<open>\<open>filepath.Base\<close>, and \<open>filepath.Dir\<close> of a path \<open>filepath.Abs\<close> returned, which is clean and absolute.\<close>

definition filepath_Base :: "string \<Rightarrow> string" where
  "filepath_Base path = (if path = [] then ''.''
     else let r = dropWhile (\<lambda>c. c = CHR ''/'') (rev path)
          in if r = [] then ''/'' else rev (takeWhile (\<lambda>c. c \<noteq> CHR ''/'') r))"

definition dir_of_abs :: "string \<Rightarrow> string" where
  "dir_of_abs full = (let d = rev (tl (dropWhile (\<lambda>c. c \<noteq> CHR ''/'') (rev full))) in if d = [] then ''/'' else d)"

definition Load :: "toolchain \<Rightarrow> (string \<Rightarrow> string + string) \<Rightarrow> (string \<Rightarrow> string + string) \<Rightarrow> string \<Rightarrow> proto_module list \<Rightarrow>
    string + string \<times> program" where
  "Load tc readFile absPath path modules = (case readFile path of
       Inl e \<Rightarrow> Inl e
     | Inr src \<Rightarrow> (case absPath path of
         Inl e \<Rightarrow> Inl e
       | Inr full \<Rightarrow> compileIn tc (filepath_Base path) (dir_of_abs full) src modules))"

section \<open>Named exports: exec.go\<close>

definition exports_input :: "string \<Rightarrow> string \<Rightarrow> string \<Rightarrow> module_set option \<Rightarrow> build_input" where
  "exports_input filename dir src mo = (build_options filename dir src mo (''export * from '' @ quoted scriptImport @ '';'' @ newline))
     \<lparr>bi_Format := FormatESModule, bi_SourceMap := False, bi_Metafile := True\<rparr>"

definition exportNames :: "toolchain \<Rightarrow> string \<Rightarrow> string \<Rightarrow> string \<Rightarrow> module_set option \<Rightarrow> (string + string list) \<times> module_set option" where
  "exportNames tc filename dir src mo =
     (let inp = exports_input filename dir src mo;
          out = tc_build tc inp
      in (if bo_Errors out \<noteq> [] then Inl (buildError filename (bo_Errors out))
          else (case tc_exports tc (bo_Metafile out) of
                  Inl e \<Rightarrow> Inl (''read the exports of '' @ filename @ '': '' @ e)
                | Inr outputs \<Rightarrow> Inr (concat outputs)),
          resolve_all dir (tc_imports tc inp) mo))"

text \<open>Building the program again for the functions \<open>execs\<close>: its code.\<close>

definition rebuild_for :: "toolchain \<Rightarrow> string \<Rightarrow> program \<Rightarrow> string list \<Rightarrow> (string + string) \<times> module_set option" where
  "rebuild_for tc src p execs = (case transpileEntry tc (pg_filename p) (pg_dir p) src (entryFor execs) (pg_mods p) of
       (Inl e, mo) \<Rightarrow> (Inl e, mo)
     | (Inr code, mo) \<Rightarrow> ((case tc_compile tc (pg_filename p) code of
           Some e \<Rightarrow> Inl (''compile '' @ pg_filename p @ '': '' @ e) | None \<Rightarrow> Inr code), mo))"

text \<open>\<open>WithExecs\<close> with the tools: what \<open>Script.WithExecs\<close> leaves as arguments is what bundling answers, and the
  code of the result is the rebuilt code.\<close>

definition exec_program :: "toolchain \<Rightarrow> string \<Rightarrow> string list \<Rightarrow> string \<times> program \<Rightarrow> exec_error + string \<times> program" where
  "exec_program tc src names cp = (case cp of (code, p) \<Rightarrow>
     (case WithExecs (fst (exportNames tc (pg_filename p) (pg_dir p) src (pg_mods p)))
             (\<lambda>execs. case fst (rebuild_for tc src p execs) of Inl e \<Rightarrow> Some e | Inr _ \<Rightarrow> None) names p of
        Inl e \<Rightarrow> Inl e
      | Inr p' \<Rightarrow> Inr (if exec_names [] names = [] then code
                       else (case fst (rebuild_for tc src p (pg_execs p')) of Inl _ \<Rightarrow> code | Inr c \<Rightarrow> c), p')))"

section \<open>The source map can be read back\<close>

text \<open>What a reader of the comment does: base64 decoding.\<close>

definition base64_value :: "char \<Rightarrow> nat" where
  "base64_value c = length (takeWhile (\<lambda>x. x \<noteq> c)
     ''ABCDEFGHIJKLMNOPQRSTUVWXYZabcdefghijklmnopqrstuvwxyz0123456789+/'')"

fun base64_decode :: "string \<Rightarrow> string" where
  "base64_decode (a # b # c # d # s) =
     char_of (base64_value a * 4 + base64_value b div 16) #
     (if c = CHR ''='' then []
      else char_of (base64_value b * 16 + base64_value c div 4) #
        (if d = CHR ''='' then [] else char_of (base64_value c * 64 + base64_value d) # base64_decode s))"
| "base64_decode _ = []"

lemma base64_char_value: "base64_value (base64_char n) = n mod 64" "base64_char n \<noteq> CHR ''=''" "base64_char n \<noteq> CHR ''#''"
proof -
  have "list_all (\<lambda>k. base64_value (base64_char k) = k \<and> base64_char k \<noteq> CHR ''='' \<and> base64_char k \<noteq> CHR ''#'') [0..<64]"
    by code_simp
  moreover have "n mod 64 \<in> set [0..<64]" by simp
  moreover have "base64_char n = base64_char (n mod 64)" by (simp add: base64_char_def)
  ultimately show "base64_value (base64_char n) = n mod 64" "base64_char n \<noteq> CHR ''=''" "base64_char n \<noteq> CHR ''#''"
    unfolding list_all_iff by metis+
qed

lemma byte_less: "byte c < 256"
  by (simp add: byte_def)

lemma char_of_byte: "n mod 256 = byte c \<Longrightarrow> char_of n = c"
  by (metis byte_def char_of_mod_256 char_of_char)

text \<open>The two ways a byte is split.\<close>

lemma sextet_parts:
  fixes x y :: nat
  shows "y < 16 \<Longrightarrow> (x * 16 + y) mod 64 = x mod 4 * 16 + y" "z < 4 \<Longrightarrow> (x * 4 + z) mod 64 = x mod 16 * 4 + z"
proof -
  have "x * 16 + y = (x mod 4 * 16 + y) + 64 * (x div 4)" using div_mult_mod_eq [of x 4] by linarith
  then have "(x * 16 + y) mod 64 = (x mod 4 * 16 + y) mod 64" by (metis mod_mult_self2)
  then show "y < 16 \<Longrightarrow> (x * 16 + y) mod 64 = x mod 4 * 16 + y" by simp
  have "x * 4 + z = (x mod 16 * 4 + z) + 64 * (x div 16)" using div_mult_mod_eq [of x 16] by linarith
  then have "(x * 4 + z) mod 64 = (x mod 16 * 4 + z) mod 64" by (metis mod_mult_self2)
  then show "z < 4 \<Longrightarrow> (x * 4 + z) mod 64 = x mod 16 * 4 + z" by simp
qed

lemma byte_high: "byte a div 4 mod 64 = byte a div 4" "byte a div 16 < 16" "byte a div 64 < 4"
  using byte_less [of a] by simp_all

lemma first_byte:
  assumes "k < 16"
  shows "char_of (byte a div 4 mod 64 * 4 + (byte a * 16 + k) mod 64 div 16) = a"
proof (rule char_of_byte)
  have "(byte a * 16 + k) mod 64 div 16 = byte a mod 4" using assms by (simp add: sextet_parts)
  then show "(byte a div 4 mod 64 * 4 + (byte a * 16 + k) mod 64 div 16) mod 256 = byte a"
    using byte_less [of a] by (simp add: byte_high)
qed

lemma second_byte:
  assumes "k < 4"
  shows "char_of ((x * 16 + byte b div 16) mod 64 * 16 + (byte b * 4 + k) mod 64 div 4) = b"
proof (rule char_of_byte)
  have "(x * 16 + byte b div 16) mod 64 * 16 + (byte b * 4 + k) mod 64 div 4 = 256 * (x mod 4) + byte b"
    using assms by (simp add: sextet_parts byte_high)
  then show "((x * 16 + byte b div 16) mod 64 * 16 + (byte b * 4 + k) mod 64 div 4) mod 256 = byte b"
    using byte_less [of b] by simp
qed

lemma third_byte: "char_of ((x * 4 + byte c div 64) mod 64 * 64 + byte c mod 64) = c"
proof (rule char_of_byte)
  have "(x * 4 + byte c div 64) mod 64 * 64 + byte c mod 64 = 256 * (x mod 16) + byte c"
    by (simp add: sextet_parts byte_high algebra_simps)
  then show "((x * 4 + byte c div 64) mod 64 * 64 + byte c mod 64) mod 256 = byte c" using byte_less [of c] by simp
qed

theorem base64_decodes: "base64_decode (base64 s) = s"
proof (induction s rule: base64.induct)
  case (2 a)
  show ?case using first_byte [of 0 a] by (simp only: base64.simps base64_decode.simps base64_char_value simp_thms if_True add_0_right)
next
  case (3 a b)
  show ?case using first_byte [OF byte_high(2), of a b] second_byte [of 0 "byte a" b]
    by (simp only: base64.simps base64_decode.simps base64_char_value if_True if_False simp_thms add_0_right)
next
  case (4 a b c s)
  show ?case using 4 first_byte [OF byte_high(2), of a b] second_byte [OF byte_high(3), of "byte a" b c] third_byte [of "byte b" c]
    by (simp only: base64.simps base64_decode.simps base64_char_value if_True if_False simp_thms)
qed simp

lemma base64_no_hash: "CHR ''#'' \<notin> set (base64 s)"
  by (induction s rule: base64.induct) (auto simp: base64_char_value dest: sym)

text \<open>The last comment of the code is the one that was added.\<close>

lemma cut_last_eq:
  assumes "has_prefix rest sep" "sep \<noteq> []" "\<And>i. 0 < i \<Longrightarrow> i \<le> length rest \<Longrightarrow> \<not> has_prefix (drop i rest) sep"
  shows "cut_last (js @ rest) sep = js"
proof -
  let ?P = "\<lambda>i. has_prefix (drop i (js @ rest)) sep"
  let ?n = "Suc (length js + length rest)"
  have "[0..<?n] = [0..<length js] @ length js # [Suc (length js)..<?n]"
    using upt_add_eq_append [of 0 "length js" "Suc (length rest)"] upt_conv_Cons [of "length js" ?n] by simp
  then have "rev [0..<?n] = rev [Suc (length js)..<?n] @ length js # rev [0..<length js]" by simp
  moreover have none: "filter ?P (rev [Suc (length js)..<?n]) = []"
    using assms(2,3) by (auto simp: filter_empty_conv has_prefix_def)
  moreover have "?P (length js)" using assms(1) by simp
  ultimately have "filter ?P (rev [0..<?n]) = length js # filter ?P (rev [0..<length js])" by (simp only: filter_append filter.simps append_Nil if_True)
  then show ?thesis by (simp only: cut_last_def length_append list.case append_eq_conv_conj) simp
qed

lemma hash_prefix: "has_prefix s mapComment \<Longrightarrow> 2 < length s \<and> s ! 2 = CHR ''#''"
proof -
  assume "has_prefix s mapComment"
  moreover have "length mapComment = 21" by (simp add: mapComment_def)
  ultimately have t: "take 21 s = mapComment" by (simp only: has_prefix_def)
  have "length (take 21 s) = 21" unfolding t by (simp add: mapComment_def)
  then have "21 \<le> length s" by simp
  moreover have "take 21 s ! 2 = CHR ''#''" unfolding t by (simp add: mapComment_def)
  ultimately show ?thesis by simp
qed

lemma added_comment_last:
  fixes t js :: string
  defines "rest \<equiv> mapComment @ mapDataURL @ base64 t @ newline"
  shows "cut_last (js @ rest) mapComment = js"
proof (rule cut_last_eq)
  show "has_prefix rest mapComment" by (simp add: rest_def)
  show "mapComment \<noteq> []" by (simp add: mapComment_def)
  have tail: "CHR ''#'' \<notin> set (drop 3 rest)"
    using base64_no_hash [of t] by (simp add: rest_def mapComment_def mapDataURL_def newline_def)
  fix i :: nat
  assume i: "0 < i" "i \<le> length rest"
  show "\<not> has_prefix (drop i rest) mapComment"
  proof
    assume "has_prefix (drop i rest) mapComment"
    then have "i + 2 < length rest" "rest ! (i + 2) = CHR ''#''" using hash_prefix [of "drop i rest"] by auto
    then have "drop 3 rest ! (i - 1) = CHR ''#''" "i - 1 < length (drop 3 rest)" using i by (auto simp: add.commute)
    then show False using tail nth_mem by metis
  qed
qed

text \<open>A reader of the last comment: what it decodes from the data URL.\<close>

definition read_map :: "string \<Rightarrow> string" where
  "read_map code = base64_decode (takeWhile (\<lambda>c. c \<noteq> CHR 0x0A)
     (drop (length (cut_last code mapComment) + length mapComment + length mapDataURL) code))"

lemma base64_no_newline: "CHR 0x0A \<notin> set (base64 s)"
  using base64_line [of s] by (auto simp: one_line_def contains_any_def list_ex_iff)

lemma read_inline_map:
  assumes "withInlineSourceMap tc files = Inr code"
  shows "\<exists>js srcMap m. pick_outputs files (None, None) = (Some js, Some srcMap) \<and> tc_unmarshal tc srcMap = Inr m \<and>
    tc_marshal tc (strip_sources m) = Inr (read_map code) \<and> cut_last code mapComment = cut_last js mapComment"
proof -
  obtain js srcMap m t where j: "pick_outputs files (None, None) = (Some js, Some srcMap)" "tc_unmarshal tc srcMap = Inr m"
    "tc_marshal tc (strip_sources m) = Inr t"
    and code: "code = cut_last js mapComment @ mapComment @ mapDataURL @ base64 t @ newline"
    using assms by (auto simp: withInlineSourceMap_def split: prod.splits option.splits sum.splits)
  have last: "cut_last code mapComment = cut_last js mapComment" unfolding code by (rule added_comment_last)
  have "takeWhile (\<lambda>c. c \<noteq> CHR 0x0A) (base64 t @ newline) = base64 t"
    using base64_no_newline [of t] by (subst takeWhile_append2) (auto simp: newline_def)
  then have "read_map code = t" unfolding read_map_def last by (simp add: code base64_decodes)
  then show ?thesis using j last by blast
qed

section \<open>What may be imported\<close>

lemma OnResolve_answers:
  "plugin_resolve filename dir mo importer path =
     (if importer = ''<stdin>'' \<and> path = scriptImport then ResolvedIn filename scriptNamespace
      else if isBuiltinModule path then ResolvedIn path builtinNamespace
      else if isRelativeImport path \<and> dir \<noteq> [] then LeftToBundler
      else plugin_resolve filename dir mo importer path)"
  by (simp add: plugin_resolve_def OnResolve_def)

text \<open>The imports of a script. The generated entry gets the script; \<open>loadtool\<close> paths get the module of that name;
  relative paths are files, of scripts that were loaded from one; every other import is an error. A module path
  is served with the code of the protocol module that has the name or alias, of a builtin module, or not at all.\<close>

theorem imports_served:
  assumes "newModuleSet modules = Inr ms"
  shows "(case plugin_resolve filename dir (Some ms) importer path of
            ResolvedIn p ns \<Rightarrow>
              (if importer = ''<stdin>'' \<and> path = scriptImport then p = filename \<and> ns = scriptNamespace
               else isBuiltinModule path \<and> p = path \<and> ns = builtinNamespace)
          | LeftToBundler \<Rightarrow> isRelativeImport path \<and> dir \<noteq> [] \<and> \<not> isBuiltinModule path
          | ResolveError e \<Rightarrow> \<not> isBuiltinModule path \<and> \<not> (isRelativeImport path \<and> dir \<noteq> [])) \<and>
     (case plugin_load (Some ms) path of
        Contents code l d \<Rightarrow> l = LoaderJS \<and> d = None \<and>
          (if list_ex (\<lambda>m. list_ex (\<lambda>n. path = loadtool_prefix @ n) (module_names m)) modules
           then list_ex (\<lambda>m. list_ex (\<lambda>n. path = loadtool_prefix @ n) (module_names m) \<and> code = module_code m) modules
           else builtinModules path = Some code)
      | LoadError e \<Rightarrow> builtinModules path = None \<and>
          \<not> list_ex (\<lambda>m. list_ex (\<lambda>n. path = loadtool_prefix @ n) (module_names m)) modules)"
proof -
  have names: "distinct (all_names modules)" and all: "ms_all ms = modules"
    using assms by (auto simp: newModuleSet_Inr)
  let ?named = "\<lambda>m. list_ex (\<lambda>n. path = loadtool_prefix @ n) (module_names m)"
  have "\<not> isBuiltinModule scriptImport" by code_simp
  then have r: "case plugin_resolve filename dir (Some ms) importer path of
            ResolvedIn p ns \<Rightarrow>
              (if importer = ''<stdin>'' \<and> path = scriptImport then p = filename \<and> ns = scriptNamespace
               else isBuiltinModule path \<and> p = path \<and> ns = builtinNamespace)
          | LeftToBundler \<Rightarrow> isRelativeImport path \<and> dir \<noteq> [] \<and> \<not> isBuiltinModule path
          | ResolveError e \<Rightarrow> \<not> isBuiltinModule path \<and> \<not> (isRelativeImport path \<and> dir \<noteq> [])"
    by (auto simp: plugin_resolve_def OnResolve_def)
  have idx: "ms_index (Some ms) path = Some i \<longleftrightarrow> i < length modules \<and> ?named (modules ! i)" for i
    using index_exact [of ms path i] names by (simp add: all list_ex_iff)
  show ?thesis
  proof (cases "ms_index (Some ms) path")
    case None
    have "\<not> list_ex ?named modules"
    proof
      assume "list_ex ?named modules"
      then obtain i where "i < length modules" "?named (modules ! i)" unfolding list_ex_iff by (metis in_set_conv_nth)
      then show False using None idx by simp
    qed
    then show ?thesis using r None by (simp add: plugin_load_def builtinModuleSource_def split: option.split)
  next
    case (Some i)
    then have "i < length modules" "?named (modules ! i)" using idx by auto
    then have "list_ex (\<lambda>m. ?named m \<and> module_code (modules ! i) = module_code m) modules" "list_ex ?named modules"
      unfolding list_ex_iff by (metis nth_mem)+
    then show ?thesis using r Some by (simp add: plugin_load_def all)
  qed
qed

section \<open>The loaded program\<close>

definition fresh_modules :: "proto_module list \<Rightarrow> module_set option" where
  "fresh_modules modules = (if modules = [] then None else (case newModuleSet modules of Inl _ \<Rightarrow> None | Inr ms \<Rightarrow> Some ms))"

text \<open>What the bundler is given for the script, and the imports it asks about.\<close>

definition script_build :: "program \<Rightarrow> string \<Rightarrow> proto_module list \<Rightarrow> build_input" where
  "script_build p src modules = build_options (pg_filename p) (pg_dir p) src (fresh_modules modules) entrySource"

definition script_imports :: "toolchain \<Rightarrow> program \<Rightarrow> string \<Rightarrow> proto_module list \<Rightarrow> (string \<times> string) list" where
  "script_imports tc p src modules = tc_imports tc (script_build p src modules)"

text \<open>C24: A loaded script is the one at the path, with the directory its relative imports start from, bundled without
  errors; every module it imports, under its name or an alias, is marked and gets a property of the VUs' builtin
  object, and no other; and the last source map comment of its code decodes to the bundler's map with the
  namespace taken off the file names.\<close>

theorem script_loaded_exact:
  assumes "Load tc readFile absPath path modules = Inr (code, p)"
  shows "\<exists>src full js srcMap m. readFile path = Inr src \<and> absPath path = Inr full \<and>
     pg_filename p = filepath_Base path \<and> pg_dir p = dir_of_abs full \<and> pg_execs p = [] \<and> pg_setupData p = None \<and>
     bo_Errors (tc_build tc (script_build p src modules)) = [] \<and>
     pick_outputs (bo_Files (tc_build tc (script_build p src modules))) (None, None) = (Some js, Some srcMap) \<and>
     tc_unmarshal tc srcMap = Inr m \<and> tc_marshal tc (strip_sources m) = Inr (read_map code) \<and>
     cut_last code mapComment = cut_last js mapComment \<and>
     (case pg_mods p of
        None \<Rightarrow> modules = []
      | Some ms \<Rightarrow> modules \<noteq> [] \<and> ms_all ms = modules \<and>
          ms_imported ms = map (\<lambda>md. imports_module md (script_imports tc p src modules)) modules \<and>
          ms_vuProps ms = builtinProps @ map pm_Name (filter (\<lambda>md. imports_module md (script_imports tc p src modules)) modules) \<and>
          distinct (ms_vuProps ms))"
proof -
  obtain src full where rf: "readFile path = Inr src" "absPath path = Inr full"
    and c: "compileIn tc (filepath_Base path) (dir_of_abs full) src modules = Inr (code, p)"
    using assms by (auto simp: Load_def split: sum.splits)
  let ?inp = "build_options (filepath_Base path) (dir_of_abs full) src (fresh_modules modules) entrySource"
  have ok: "modules = [] \<or> (\<exists>ms. newModuleSet modules = Inr ms)"
    using c by (cases "newModuleSet modules") (auto simp: compileIn_def split: if_splits)
  then have mods: "(if modules \<noteq> [] then map_sum module_error_text Some (newModuleSet modules) else Inr None) = Inr (fresh_modules modules)"
    by (auto simp: fresh_modules_def)
  have p: "pg_filename p = filepath_Base path" "pg_dir p = dir_of_abs full" "pg_execs p = []" "pg_setupData p = None"
    "pg_mods p = map_option ms_seal (resolve_all (dir_of_abs full) (tc_imports tc ?inp) (fresh_modules modules))"
    and w: "withInlineSourceMap tc (bo_Files (tc_build tc ?inp)) = Inr code" "bo_Errors (tc_build tc ?inp) = []"
    using c unfolding compileIn_def mods
    by (auto simp: transpile_def transpileEntry_def Let_def split: sum.splits if_splits option.splits)
  have inp: "script_build p src modules = ?inp" by (simp add: script_build_def p)
  then have imps: "script_imports tc p src modules = tc_imports tc ?inp" by (simp add: script_imports_def)
  obtain js srcMap m where m: "pick_outputs (bo_Files (tc_build tc ?inp)) (None, None) = (Some js, Some srcMap)"
    "tc_unmarshal tc srcMap = Inr m" "tc_marshal tc (strip_sources m) = Inr (read_map code)"
    "cut_last code mapComment = cut_last js mapComment"
    using read_inline_map [OF w(1)] by blast
  have "case pg_mods p of None \<Rightarrow> modules = []
      | Some ms \<Rightarrow> modules \<noteq> [] \<and> ms_all ms = modules \<and>
          ms_imported ms = map (\<lambda>md. imports_module md (script_imports tc p src modules)) modules \<and>
          ms_vuProps ms = builtinProps @ map pm_Name (filter (\<lambda>md. imports_module md (script_imports tc p src modules)) modules) \<and>
          distinct (ms_vuProps ms)"
  proof (cases "modules = []")
    case True
    have "resolve_all d imps None = None" for d imps
      by (induction imps) (auto simp: resolve_all_def OnResolve_def ms_index_def)
    then show ?thesis using True by (simp add: p fresh_modules_def)
  next
    case False
    then obtain ms0 where ms0: "newModuleSet modules = Inr ms0" using ok by blast
    obtain ms where "resolve_all (dir_of_abs full) (tc_imports tc ?inp) (Some ms0) = Some ms" "ms_all ms = modules"
      "ms_imported ms = map (\<lambda>md. imports_module md (tc_imports tc ?inp)) modules"
      "ms_vuProps (ms_seal ms) = builtinProps @ map pm_Name (filter (\<lambda>md. imports_module md (tc_imports tc ?inp)) modules)"
      "distinct (ms_vuProps (ms_seal ms))"
      using modules_imported [OF ms0, of "dir_of_abs full" "tc_imports tc ?inp"] by blast
    moreover have "fresh_modules modules = Some ms0" using False ms0 by (simp add: fresh_modules_def)
    ultimately show ?thesis using False unfolding imps p(5) by (simp add: ms_seal_def)
  qed
  then show ?thesis using rf p(1-4) m w(2) unfolding inp [symmetric]
    by - (rule exI [of _ src], rule exI [of _ full], rule exI [of _ js], rule exI [of _ srcMap], rule exI [of _ m], simp)
qed

definition tool_example :: toolchain where
  "tool_example = \<lparr>
     tc_build = (\<lambda>inp. \<lparr>bo_Errors = [], bo_Files = [\<lparr>of_Path = ''script.js.map'', of_Contents = Some ''{}''\<rparr>,
       \<lparr>of_Path = ''script.js'', of_Contents = Some (''f();'' @ newline @ mapComment @ ''script.js.map'')\<rparr>], bo_Metafile = []\<rparr>),
     tc_imports = (\<lambda>inp. [(''<stdin>'', scriptImport), (''test.ts'', ''loadtool/websocket'')]),
     tc_unmarshal = (\<lambda>t. Inr [(''sources'', JArr [JStr ''loadtool:test.ts''])]),
     tc_marshal = (\<lambda>m. case m of [(k, JArr [JStr name])] \<Rightarrow> Inr name | _ \<Rightarrow> Inl ''no map''),
     tc_exports = (\<lambda>t. Inr []), tc_compile = (\<lambda>filename code. None)\<rparr>"

theorem script_loaded_exact_witness:
  "\<exists>code p ms. Load tool_example (\<lambda>p. Inr ''f();'') (\<lambda>p. Inr ''/home/me/test.ts'') ''me/test.ts'' [ws_module, kafka_module] = Inr (code, p) \<and>
     pg_filename p = ''test.ts'' \<and> pg_dir p = ''/home/me'' \<and> read_map code = ''test.ts'' \<and>
     pg_mods p = Some ms \<and> ms_imported ms = [True, False]"
proof -
  have "\<not> isl (Load tool_example (\<lambda>p. Inr ''f();'') (\<lambda>p. Inr ''/home/me/test.ts'') ''me/test.ts'' [ws_module, kafka_module])"
    by code_simp
  then obtain code p where l: "Load tool_example (\<lambda>p. Inr ''f();'') (\<lambda>p. Inr ''/home/me/test.ts'') ''me/test.ts'' [ws_module, kafka_module] = Inr (code, p)"
    by (metis old.prod.exhaust sum.collapse(2))
  have e: "filepath_Base ''me/test.ts'' = ''test.ts''" "dir_of_abs ''/home/me/test.ts'' = ''/home/me''" by code_simp+
  have i: "imports_module ws_module [(''<stdin>'', scriptImport), (''test.ts'', ''loadtool/websocket'')]"
    "\<not> imports_module kafka_module [(''<stdin>'', scriptImport), (''test.ts'', ''loadtool/websocket'')]" by code_simp+
  have s: "strip_source (JStr ''loadtool:test.ts'') = JStr ''test.ts''" by code_simp
  show ?thesis
    using script_loaded_exact [OF l] l e i s
    by (auto simp: tool_example_def strip_sources_def script_imports_def split: option.splits)
qed

end
