(* ===== verification/Netguard.thy ===== *)
theory Netguard
  imports Go_Text
begin

text \<open>
  \<open>internal/netguard/netguard.go\<close>: the destinations a test started from the UI may reach. Addresses are
  \<open>net/netip\<close>'s: an IPv4 address is 32 bits, an IPv6 address 128 bits and a zone (empty for none).
  \<open>url.Parse\<close>, \<open>net.SplitHostPort\<close> and \<open>netip.ParseAddr\<close> are arguments.
\<close>

unbundle bit_operations_syntax

section \<open>Package netip\<close>

datatype addr =
    NoAddr
  | Addr4 "32 word"
  | Addr6 "128 word" string

text \<open>The \<open>n\<close> highest bits of an address, as a number.\<close>

definition top4 :: "nat \<Rightarrow> 32 word \<Rightarrow> int" where
  "top4 n a = uint (drop_bit (32 - n) a)"

definition top6 :: "nat \<Rightarrow> 128 word \<Rightarrow> int" where
  "top6 n a = uint (drop_bit (128 - n) a)"

fun Unmap :: "addr \<Rightarrow> addr" where
  "Unmap (Addr6 a z) = (if top6 96 a = 0xffff then Addr4 (ucast a) else Addr6 a z)"
| "Unmap a = a"

fun IsLoopback :: "addr \<Rightarrow> bool" where
  "IsLoopback (Addr4 a) \<longleftrightarrow> top4 8 a = 127"
| "IsLoopback (Addr6 a z) \<longleftrightarrow> a = 1"
| "IsLoopback NoAddr \<longleftrightarrow> False"

fun IsPrivate :: "addr \<Rightarrow> bool" where
  "IsPrivate (Addr4 a) \<longleftrightarrow> top4 8 a = 10 \<or> top4 12 a = 172 * 16 + 1 \<or> top4 16 a = 192 * 256 + 168"
| "IsPrivate (Addr6 a z) \<longleftrightarrow> top6 8 a AND 0xfe = 0xfc"
| "IsPrivate NoAddr \<longleftrightarrow> False"

fun IsLinkLocalUnicast :: "addr \<Rightarrow> bool" where
  "IsLinkLocalUnicast (Addr4 a) \<longleftrightarrow> top4 16 a = 169 * 256 + 254"
| "IsLinkLocalUnicast (Addr6 a z) \<longleftrightarrow> top6 16 a AND 0xffc0 = 0xfe80"
| "IsLinkLocalUnicast NoAddr \<longleftrightarrow> False"

fun IsLinkLocalMulticast :: "addr \<Rightarrow> bool" where
  "IsLinkLocalMulticast (Addr4 a) \<longleftrightarrow> top4 24 a = (224 * 256 + 0) * 256 + 0"
| "IsLinkLocalMulticast (Addr6 a z) \<longleftrightarrow> top6 16 a AND 0xff0f = 0xff02"
| "IsLinkLocalMulticast NoAddr \<longleftrightarrow> False"

fun IsInterfaceLocalMulticast :: "addr \<Rightarrow> bool" where
  "IsInterfaceLocalMulticast (Addr6 a z) \<longleftrightarrow> top6 16 a AND 0xff0f = 0xff01"
| "IsInterfaceLocalMulticast _ \<longleftrightarrow> False"

fun IsMulticast :: "addr \<Rightarrow> bool" where
  "IsMulticast (Addr4 a) \<longleftrightarrow> top4 8 a AND 0xf0 = 0xe0"
| "IsMulticast (Addr6 a z) \<longleftrightarrow> top6 8 a = 0xff"
| "IsMulticast NoAddr \<longleftrightarrow> False"

text \<open>Equal to \<open>0.0.0.0\<close> or to \<open>::\<close>, which has no zone.\<close>

fun IsUnspecified :: "addr \<Rightarrow> bool" where
  "IsUnspecified (Addr4 a) \<longleftrightarrow> a = 0"
| "IsUnspecified (Addr6 a z) \<longleftrightarrow> a = 0 \<and> z = []"
| "IsUnspecified NoAddr \<longleftrightarrow> False"

datatype prefix =
    Prefix4 "32 word" nat
  | Prefix6 "128 word" nat

text \<open>\<open>Prefix.Contains\<close>: an address with a zone is in no prefix.\<close>

fun Contains :: "prefix \<Rightarrow> addr \<Rightarrow> bool" where
  "Contains (Prefix4 p n) (Addr4 a) \<longleftrightarrow> drop_bit (32 - n) (a XOR p) = 0"
| "Contains (Prefix6 p n) (Addr6 a z) \<longleftrightarrow> z = [] \<and> drop_bit (128 - n) (a XOR p) = 0"
| "Contains _ _ \<longleftrightarrow> False"

section \<open>The code\<close>

definition num4 :: "int \<Rightarrow> int \<Rightarrow> int \<Rightarrow> int \<Rightarrow> int" where
  "num4 a b c d = ((a * 256 + b) * 256 + c) * 256 + d"

definition ip4 :: "int \<Rightarrow> int \<Rightarrow> int \<Rightarrow> int \<Rightarrow> 32 word" where
  "ip4 a b c d = word_of_int (num4 a b c d)"

text \<open>An IPv6 address by its first two groups and then zeros, but for \<open>64:ff9b:1::\<close>.\<close>

definition ip6 :: "int \<Rightarrow> int \<Rightarrow> int \<Rightarrow> 128 word" where
  "ip6 a b c = word_of_int (((a * 2 ^ 16 + b) * 2 ^ 16 + c) * 2 ^ 80)"

definition refused :: "prefix list" where
  "refused =
    [Prefix4 (ip4 0 0 0 0) 8, Prefix4 (ip4 100 64 0 0) 10, Prefix4 (ip4 192 0 0 0) 24, Prefix4 (ip4 192 0 2 0) 24,
     Prefix4 (ip4 192 88 99 0) 24, Prefix4 (ip4 198 18 0 0) 15, Prefix4 (ip4 198 51 100 0) 24, Prefix4 (ip4 203 0 113 0) 24,
     Prefix4 (ip4 240 0 0 0) 4,
     Prefix6 (ip6 0x64 0xff9b 0) 96, Prefix6 (ip6 0x64 0xff9b 1) 48, Prefix6 (ip6 0x100 0 0) 64,
     Prefix6 (ip6 0x2001 0 0) 23, Prefix6 (ip6 0x2001 0xdb8 0) 32, Prefix6 (ip6 0x2002 0 0) 16]"

datatype guard_error =
    RefusedAddr addr
  | RefusedText string
  | InvalidURL string
  | BadScheme
  | CredentialsInURL
  | NoHost

definition CheckAddr :: "addr \<Rightarrow> guard_error option" where
  "CheckAddr a0 = (let a = Unmap a0 in
     if a = NoAddr \<or> IsLoopback a \<or> IsPrivate a \<or> IsLinkLocalUnicast a \<or>
        IsLinkLocalMulticast a \<or> IsInterfaceLocalMulticast a \<or> IsMulticast a \<or> IsUnspecified a
     then Some (RefusedAddr a)
     else if list_ex (\<lambda>p. Contains p a) refused then Some (RefusedAddr a)
     else None)"

definition Control :: "(string \<Rightarrow> (string \<times> string) option) \<Rightarrow> (string \<Rightarrow> addr option) \<Rightarrow> string \<Rightarrow> guard_error option" where
  "Control splitHostPort parseAddr address = (case splitHostPort address of
       None \<Rightarrow> Some (RefusedText address)
     | Some (host, _) \<Rightarrow> (case parseAddr host of
         None \<Rightarrow> Some (RefusedText address)
       | Some a \<Rightarrow> CheckAddr a))"

text \<open>A \<open>url.URL\<close>: \<open>u_User\<close> is whether it has user information, \<open>u_Hostname\<close> what \<open>Hostname()\<close> answers and
  \<open>u_Rest\<close> the fields the sources do not look at.\<close>

record url =
  u_Scheme :: string
  u_User :: bool
  u_Host :: string
  u_Hostname :: string
  u_Path :: string
  u_RawQuery :: string
  u_Fragment :: string
  u_Rest :: string

definition local_names :: "string list" where
  "local_names = [''localhost'', ''.localhost'', ''.local'', ''.internal'', ''.home.arpa'']"

definition is_local :: "string \<Rightarrow> bool" where
  "is_local host = (let name = trim_suffix (ToLower host) ''.'' in
     list_ex (\<lambda>l. name = trim_prefix l ''.'' \<or> has_prefix l ''.'' \<and> has_suffix name l) local_names)"

definition CheckURL :: "(string \<Rightarrow> string + url) \<Rightarrow> (string \<Rightarrow> addr option) \<Rightarrow> string \<Rightarrow> guard_error + url" where
  "CheckURL parse parseAddr raw = (case parse raw of
       Inl e \<Rightarrow> Inl (InvalidURL e)
     | Inr u \<Rightarrow>
         if u_Scheme u \<noteq> ''http'' \<and> u_Scheme u \<noteq> ''https'' then Inl BadScheme
         else if u_User u then Inl CredentialsInURL
         else if u_Hostname u = [] then Inl NoHost
         else (case parseAddr (u_Hostname u) of
             Some a \<Rightarrow> (case CheckAddr a of Some e \<Rightarrow> Inl e | None \<Rightarrow> Inr u)
           | None \<Rightarrow> if is_local (u_Hostname u) then Inl (RefusedText (u_Hostname u)) else Inr u))"

section \<open>Prefixes are intervals\<close>

lemma div_interval: "0 < n \<Longrightarrow> x div n = c \<longleftrightarrow> c * n \<le> x \<and> x < (c + 1) * n" for x c n :: int
proof
  assume n: "0 < n" and "x div n = c"
  then have "x = c * n + x mod n" by (metis mult_div_mod_eq mult.commute)
  moreover have "0 \<le> x mod n" "x mod n < n" using n by simp_all
  ultimately show "c * n \<le> x \<and> x < (c + 1) * n" by (simp only: distrib_right) linarith
next
  assume n: "0 < n" and a: "c * n \<le> x \<and> x < (c + 1) * n"
  then have "x - c * n < n" "0 \<le> x - c * n" by (auto simp: algebra_simps)
  then have "(x - c * n) div n = 0" by (rule div_pos_pos_trivial [rotated])
  moreover have "(c * n + (x - c * n)) div n = c + (x - c * n) div n"
    by (rule div_mult_self3) (use n in simp)
  ultimately show "x div n = c" by simp
qed

lemma uint_drop: "uint (drop_bit n a) = uint a div 2 ^ n" for a :: "'a::len word"
  by (simp only: unsigned_drop_bit_eq) (simp add: drop_bit_eq_div take_bit_int_eq_self)

lemma uint_top4: "top4 n a = uint a div 2 ^ (32 - n)"
  by (simp add: top4_def uint_drop)

lemma uint_top6: "top6 n a = uint a div 2 ^ (128 - n)"
  by (simp add: top6_def uint_drop)

lemma xor_zero: "a XOR b = 0 \<longleftrightarrow> a = b" for a b :: "'a::len word"
proof
  assume "a XOR b = 0"
  then have "(a XOR b) XOR b = b" by simp
  then show "a = b" by (simp add: xor.assoc)
qed simp

lemma drop_bit_same: "drop_bit n (a XOR p) = 0 \<longleftrightarrow> uint a div 2 ^ n = uint p div 2 ^ n" for a p :: "'a::len word"
  by (simp only: drop_bit_xor xor_zero word_uint_eq_iff [of "drop_bit n a"] uint_drop)

lemma and_high: "t AND push_bit k (mask m) = push_bit k (take_bit m (drop_bit k t))" for t :: int
  by (rule bit_eqI) (auto simp: bit_simps)

section \<open>The public addresses\<close>

text \<open>The addresses outside the public internet, first and last of each range.\<close>

definition blocked4 :: "(int \<times> int) list" where
  "blocked4 =
    [(num4 0 0 0 0, num4 0 255 255 255), (num4 10 0 0 0, num4 10 255 255 255), (num4 100 64 0 0, num4 100 127 255 255),
     (num4 127 0 0 0, num4 127 255 255 255), (num4 169 254 0 0, num4 169 254 255 255), (num4 172 16 0 0, num4 172 31 255 255),
     (num4 192 0 0 0, num4 192 0 0 255), (num4 192 0 2 0, num4 192 0 2 255), (num4 192 88 99 0, num4 192 88 99 255),
     (num4 192 168 0 0, num4 192 168 255 255), (num4 198 18 0 0, num4 198 19 255 255), (num4 198 51 100 0, num4 198 51 100 255),
     (num4 203 0 113 0, num4 203 0 113 255), (num4 224 0 0 0, num4 255 255 255 255)]"

text \<open>The same for IPv6, as a prefix (its leading bits) and its length.\<close>

definition blocked6 :: "(int \<times> nat) list" where
  "blocked6 = [(0, 128), (1, 128), (0x0064ff9b * 2 ^ 64, 96), (0x0064ff9b0001, 48), (0x0100 * 2 ^ 48, 64),
     (0x2001 * 2 ^ 7, 23), (0x20010db8, 32), (0x2002, 16), (0x7e, 7), (0x3fa, 10), (0xff, 8)]"

definition public4 :: "int \<Rightarrow> bool" where
  "public4 x \<longleftrightarrow> list_all (\<lambda>(lo, hi). x < lo \<or> hi < x) blocked4"

definition public6 :: "int \<Rightarrow> bool" where
  "public6 x \<longleftrightarrow> list_all (\<lambda>(p, n). x div 2 ^ (128 - n) \<noteq> p) blocked6"

lemma div_less: "0 < n \<Longrightarrow> x < m * n \<Longrightarrow> x div n < m" for x m n :: int
  by (metis div_interval mult_less_cancel_right_pos order_le_less_trans)

lemma high_mask:
  fixes t v :: int
  assumes "0 \<le> t" "t < 2 ^ (k + m)"
  shows "t AND push_bit k (mask m) = push_bit k v \<longleftrightarrow> t div 2 ^ k = v"
proof -
  have "t div 2 ^ k < 2 ^ m"
    using assms(2) by (intro div_less) (simp_all add: power_add mult.commute)
  moreover have "0 \<le> t div 2 ^ k" using assms(1) by (simp add: pos_imp_zdiv_nonneg_iff)
  ultimately have b: "take_bit m (drop_bit k t) = t div 2 ^ k" by (simp add: drop_bit_eq_div take_bit_int_eq_self)
  show ?thesis unfolding and_high b by (simp add: push_bit_eq_mult)
qed

lemma top_bounds: "0 \<le> top4 n a" "n \<le> 32 \<Longrightarrow> top4 n a < 2 ^ n" "0 \<le> top6 n b" "n \<le> 128 \<Longrightarrow> top6 n b < 2 ^ n"
proof -
  have div: "0 \<le> x div 2 ^ (l - n) \<and> (n \<le> l \<longrightarrow> x div 2 ^ (l - n) < 2 ^ n)" if "0 \<le> x" "x < 2 ^ l" for x :: int and l
  proof -
    have "n \<le> l \<Longrightarrow> (2::int) ^ l = 2 ^ n * 2 ^ (l - n)" by (simp flip: power_add)
    then show ?thesis using that by (auto simp: pos_imp_zdiv_nonneg_iff intro!: div_less)
  qed
  show "0 \<le> top4 n a" "n \<le> 32 \<Longrightarrow> top4 n a < 2 ^ n" using div [of "uint a" 32] uint_bounded [of a] by (simp_all add: uint_top4)
  show "0 \<le> top6 n b" "n \<le> 128 \<Longrightarrow> top6 n b < 2 ^ n" using div [of "uint b" 128] uint_bounded [of b] by (simp_all add: uint_top6)
qed

lemma high4: "top4 8 a AND 0xf0 = 0xe0 \<longleftrightarrow> uint a div 2 ^ 28 = 14"
  using high_mask [of "top4 8 a" 4 4 14] top_bounds(1,2) [of 8 a]
  by (simp add: mask_eq_exp_minus_1 push_bit_eq_mult uint_top4 flip: zdiv_zmult2_eq)

lemma high6:
  "top6 8 a AND 0xfe = 0xfc \<longleftrightarrow> uint a div 2 ^ 121 = 0x7e"
  "top6 16 a AND 0xffc0 = 0xfe80 \<longleftrightarrow> uint a div 2 ^ 118 = 0x3fa"
  using high_mask [of "top6 8 a" 1 7 126] high_mask [of "top6 16 a" 6 10 1018] top_bounds(3,4) [where n = 8 and b = a] top_bounds(3,4) [where n = 16 and b = a]
  by (simp_all add: mask_eq_exp_minus_1 push_bit_eq_mult uint_top6 flip: zdiv_zmult2_eq)

lemma multicast6: "top6 16 a AND 0xff0f = 0xff00 + s \<Longrightarrow> s \<in> {1, 2} \<Longrightarrow> top6 8 a = 0xff"
proof -
  assume t: "top6 16 a AND 0xff0f = 0xff00 + s" "s \<in> {1, 2}"
  have "top6 16 a AND 0xff00 = (top6 16 a AND 0xff0f) AND 0xff00" by (simp add: and.assoc)
  also have "\<dots> = 0xff00" using t by auto
  finally have "top6 16 a div 2 ^ 8 = 0xff"
    using high_mask [of "top6 16 a" 8 8 255] top_bounds(3,4) [where n = 16 and b = a] by (simp add: mask_eq_exp_minus_1 push_bit_eq_mult)
  then show "top6 8 a = 0xff" by (simp add: uint_top6 flip: zdiv_zmult2_eq)
qed

lemma Contains4: "Contains (Prefix4 p n) (Addr4 a) \<longleftrightarrow> uint a div 2 ^ (32 - n) = uint p div 2 ^ (32 - n)"
  by (simp only: Contains.simps drop_bit_same)

lemma uint_ip4: "0 \<le> num4 a b c d \<Longrightarrow> num4 a b c d < 2 ^ 32 \<Longrightarrow> uint (ip4 a b c d) = num4 a b c d"
  by (simp add: ip4_def uint_word_of_int_eq take_bit_int_eq_self)

lemma outside: "0 < n \<Longrightarrow> lo = c * n \<Longrightarrow> hi = c * n + n - 1 \<Longrightarrow> (x < lo \<or> hi < x) = (x div n \<noteq> c)" for x lo hi c n :: int
  by (subst div_interval) (auto simp: algebra_simps)

lemma public4_blocks:
  assumes "0 \<le> x" "x < 2 ^ 32"
  shows "public4 x \<longleftrightarrow> x div 2 ^ 24 \<noteq> 0 \<and> x div 2 ^ 24 \<noteq> 10 \<and> x div 2 ^ 22 \<noteq> 401 \<and> x div 2 ^ 24 \<noteq> 127 \<and>
    x div 2 ^ 16 \<noteq> 43518 \<and> x div 2 ^ 20 \<noteq> 2753 \<and> x div 2 ^ 8 \<noteq> 12582912 \<and> x div 2 ^ 8 \<noteq> 12582914 \<and>
    x div 2 ^ 8 \<noteq> 12605539 \<and> x div 2 ^ 16 \<noteq> 49320 \<and> x div 2 ^ 17 \<noteq> 25353 \<and> x div 2 ^ 8 \<noteq> 12989284 \<and>
    x div 2 ^ 8 \<noteq> 13303921 \<and> x div 2 ^ 28 \<noteq> 14 \<and> x div 2 ^ 28 \<noteq> 15"
proof -
  have top: "(x < 3758096384 \<or> 4294967295 < x) = (x div 2 ^ 28 \<noteq> 14 \<and> x div 2 ^ 28 \<noteq> 15)"
    using assms by (subst (1 2) div_interval) auto
  show ?thesis
    unfolding public4_def blocked4_def num4_def
    by (simp add: top [simplified] outside [where n = "2 ^ 24" and c = 0, simplified] outside [where n = "2 ^ 24" and c = 10]
        outside [where n = "2 ^ 22" and c = 401] outside [where n = "2 ^ 24" and c = 127] outside [where n = "2 ^ 16" and c = 43518]
        outside [where n = "2 ^ 20" and c = 2753] outside [where n = "2 ^ 8" and c = 12582912] outside [where n = "2 ^ 8" and c = 12582914]
        outside [where n = "2 ^ 8" and c = 12605539] outside [where n = "2 ^ 16" and c = 49320] outside [where n = "2 ^ 17" and c = 25353]
        outside [where n = "2 ^ 8" and c = 12989284] outside [where n = "2 ^ 8" and c = 13303921])
qed

lemma CheckAddr4: "CheckAddr (Addr4 a) = None \<longleftrightarrow> public4 (uint a)"
proof -
  define x where "x = uint a"
  have x: "0 \<le> x" "x < 2 ^ 32" using uint_bounded [of a] by (simp_all add: x_def)
  have i1: "x = 0 \<Longrightarrow> x div 16777216 = 0" by simp
  have i2: "x div 256 = 14680064 \<Longrightarrow> x div 268435456 = 14" by (simp add: div_interval)
  have m: "(x div 16777216 AND 240 = 224) = (x div 268435456 = 14)" using high4 [of a] by (simp add: uint_top4 x_def)
  have z: "a = 0 \<longleftrightarrow> x = 0" by (simp add: x_def uint_0_iff)
  show ?thesis
    unfolding CheckAddr_def Unmap.simps Let_def refused_def list_ex_Cons_iff list_ex_Nil_iff Contains4 x_def [symmetric]
      IsLoopback.simps IsPrivate.simps IsLinkLocalUnicast.simps IsLinkLocalMulticast.simps IsInterfaceLocalMulticast.simps
      IsMulticast.simps IsUnspecified.simps z uint_top4
      public4_blocks [OF x]
    using i1 i2 by (simp add: m uint_ip4 num4_def)
qed

lemma Contains6: "Contains (Prefix6 p n) (Addr6 a z) \<longleftrightarrow> z = [] \<and> uint a div 2 ^ (128 - n) = uint p div 2 ^ (128 - n)"
  by (simp only: Contains.simps drop_bit_same)

lemma uint_ip6:
  "0 \<le> ((a * 2 ^ 16 + b) * 2 ^ 16 + c) * 2 ^ 80 \<Longrightarrow> ((a * 2 ^ 16 + b) * 2 ^ 16 + c) * 2 ^ 80 < (2::int) ^ 128 \<Longrightarrow>
   uint (ip6 a b c) = ((a * 2 ^ 16 + b) * 2 ^ 16 + c) * 2 ^ 80"
  unfolding ip6_def uint_word_of_int_eq by (rule take_bit_int_eq_self) simp_all

lemma CheckAddr6: "top6 96 a \<noteq> 0xffff \<Longrightarrow> CheckAddr (Addr6 a []) = None \<longleftrightarrow> public6 (uint a)"
proof -
  assume n: "top6 96 a \<noteq> 0xffff"
  define x where "x = uint a"
  have one: "a = 1 \<longleftrightarrow> x = 1" "a = 0 \<longleftrightarrow> x = 0" by (simp_all add: x_def word_uint_eq_iff)
  have h: "top6 8 a AND 254 = 252 \<longleftrightarrow> x div 2 ^ 121 = 126" "top6 16 a AND 65472 = 65152 \<longleftrightarrow> x div 2 ^ 118 = 1018"
    "top6 8 a = 255 \<longleftrightarrow> x div 2 ^ 120 = 255" using high6 [of a] by (simp_all add: x_def uint_top6)
  have mc: "top6 16 a AND 65295 = 65281 \<Longrightarrow> top6 8 a = 255" "top6 16 a AND 65295 = 65282 \<Longrightarrow> top6 8 a = 255"
    using multicast6 [of a 1] multicast6 [of a 2] by simp_all
  have "CheckAddr (Addr6 a []) = None \<longleftrightarrow> x \<noteq> 0 \<and> x \<noteq> 1 \<and> x div 2 ^ 121 \<noteq> 126 \<and> x div 2 ^ 118 \<noteq> 1018 \<and> x div 2 ^ 120 \<noteq> 255 \<and>
      \<not> list_ex (\<lambda>p. Contains p (Addr6 a [])) refused"
    using n mc h one by (simp add: CheckAddr_def Let_def)
  also have "\<dots> \<longleftrightarrow> public6 x"
    unfolding refused_def list_ex_Cons_iff list_ex_Nil_iff Contains6 x_def [symmetric]
    by (simp add: uint_ip6 public6_def blocked6_def) blast
  finally show ?thesis by (simp add: x_def)
qed

text \<open>What the guard promises: only public unicast addresses, an IPv4 address embedded in an IPv6 one
  (\<open>::ffff:10.0.0.1\<close>) being judged as the IPv4 address.\<close>

fun public :: "addr \<Rightarrow> bool" where
  "public NoAddr \<longleftrightarrow> False"
| "public (Addr4 a) \<longleftrightarrow> public4 (uint a)"
| "public (Addr6 a z) \<longleftrightarrow> (if top6 96 a = 0xffff then public4 (uint a mod 2 ^ 32) else public6 (uint a))"

fun unzoned :: "addr \<Rightarrow> bool" where
  "unzoned (Addr6 a z) \<longleftrightarrow> z = [] \<or> top6 96 a = 0xffff"
| "unzoned a \<longleftrightarrow> True"

lemma CheckAddr_public: "unzoned a \<Longrightarrow> CheckAddr a = None \<longleftrightarrow> public a"
proof (cases a)
  case NoAddr
  then show ?thesis by (simp add: CheckAddr_def)
next
  case (Addr4 x)
  then show ?thesis by (simp add: CheckAddr4)
next
  case (Addr6 x z)
  assume u: "unzoned a"
  show ?thesis
  proof (cases "top6 96 x = 0xffff")
    case True
    then have "CheckAddr a = CheckAddr (Addr4 (ucast x))" by (simp add: CheckAddr_def Addr6)
    moreover have "uint (ucast x :: 32 word) = uint x mod 2 ^ 32" by (simp add: unsigned_ucast_eq take_bit_eq_mod)
    ultimately show ?thesis using True Addr6 by (simp add: CheckAddr4)
  next
    case False
    then show ?thesis using u Addr6 CheckAddr6 [of x] by simp
  qed
qed

text \<open>C27: Where a connection may go. The dialer's control function allows a connection exactly when the
  resolved address, if it has no zone, is outside every range of the special-purpose address
  registries: this network, loopback, private, shared, link-local, documentation, benchmarking,
  relay, translation, multicast and reserved.\<close>

theorem connections_public:
  assumes "splitHostPort address = Some (host, port)" "parseAddr host = Some a" "unzoned a"
  shows "Control splitHostPort parseAddr address = None \<longleftrightarrow> public a"
  using assms CheckAddr_public [OF assms(3)] by (simp add: Control_def)

theorem connections_public_witness:
  "(Control (\<lambda>_. Some (''8.8.8.8'', ''80'')) (\<lambda>_. Some (Addr4 (ip4 8 8 8 8))) ''8.8.8.8:80'' = None) = public (Addr4 (ip4 8 8 8 8)) \<and>
   public (Addr4 (ip4 8 8 8 8)) \<and> \<not> public (Addr4 (ip4 169 254 169 254)) \<and> \<not> public (Addr6 1 [])"
proof -
  have "public (Addr4 (ip4 8 8 8 8))" "\<not> public (Addr4 (ip4 169 254 169 254))" "\<not> public (Addr6 1 [])" by code_simp+
  then show ?thesis using connections_public [of "\<lambda>_. Some (''8.8.8.8'', ''80'')" "''8.8.8.8:80''" "''8.8.8.8''" "''80''" "\<lambda>_. Some (Addr4 (ip4 8 8 8 8))"]
    by simp
qed

text \<open>A zone makes the guard blind: \<open>::%lo\<close> is not \<open>::\<close>, and no prefix contains an address with a zone.\<close>

lemma zoned_accepted:
  "CheckAddr (Addr6 0 ''lo'') = None" "CheckAddr (Addr6 0 []) \<noteq> None"
  "CheckAddr (Addr6 (ip6 0x64 0xff9b 0 + 0x7f000001) ''eth0'') = None" "CheckAddr (Addr6 (ip6 0x64 0xff9b 0 + 0x7f000001) []) \<noteq> None"
  by code_simp+

text \<open>Local host names are refused whatever their case, with or without the final dot.\<close>

lemma local_refused:
  assumes "parse raw = Inr u" "u_Scheme u \<in> {''http'', ''https''}" "\<not> u_User u" "parseAddr (u_Hostname u) = None"
    and "ToLower (u_Hostname u) \<in> {''localhost'', ''localhost.'', ''metadata.google.internal'', ''printer.local''}"
  shows "CheckURL parse parseAddr raw = Inl (RefusedText (u_Hostname u))"
proof -
  let ?loc = "\<lambda>low. let name = trim_suffix low ''.'' in
     list_ex (\<lambda>l. name = trim_prefix l ''.'' \<or> has_prefix l ''.'' \<and> has_suffix name l) local_names"
  have "?loc ''localhost''" "?loc ''localhost.''" "?loc ''metadata.google.internal''" "?loc ''printer.local''" by code_simp+
  then have "is_local (u_Hostname u)" using assms(5) by (auto simp: is_local_def)
  moreover have "u_Hostname u \<noteq> []" using assms(5) by (auto simp: ToLower_def)
  ultimately show ?thesis using assms by (auto simp: CheckURL_def)
qed

end
