(* ===== verification/Redact.thy ===== *)
theory Redact
  imports Go_Text
begin

text \<open>
  \<open>internal/ui/redact.go\<close>: secret values are replaced with \<open>***\<close> in every text the UI shows, logs or
  returns. \<open>sort.Slice\<close> is not stable, so the order of secrets of the same length is not determined:
  the sorting function is an argument.
\<close>

definition minSecret :: nat where "minSecret = 3"

definition newRedactor :: "(string list \<Rightarrow> string list) \<Rightarrow> string list \<Rightarrow> string list" where
  "newRedactor sort_slice secrets = sort_slice (filter (\<lambda>s. minSecret \<le> length s) secrets)"

definition stars :: string where "stars = ''***''"

definition redact_text :: "string list \<Rightarrow> string \<Rightarrow> string" where
  "redact_text secrets s = foldl (\<lambda>s v. ReplaceAll v stars s) s secrets"

definition redact_bytes :: "string list \<Rightarrow> string \<Rightarrow> string" where
  "redact_bytes secrets b = (if length secrets = 0 then b else redact_text secrets b)"

lemma redact_bytes_text [simp]: "redact_bytes secrets b = redact_text secrets b"
  by (simp add: redact_bytes_def redact_text_def)

text \<open>What \<open>sort.Slice\<close> promises for an order by decreasing length, and a function that does so.\<close>

definition sorts_by_length :: "(string list \<Rightarrow> string list) \<Rightarrow> bool" where
  "sorts_by_length f \<longleftrightarrow> (\<forall>xs. mset (f xs) = mset xs \<and> sorted_wrt (\<lambda>a b. length b \<le> length a) (f xs))"

definition longest_first :: "string list \<Rightarrow> string list" where
  "longest_first xs = rev (sort_key length xs)"

lemma longest_first_sorts: "sorts_by_length longest_first"
proof -
  have "sorted_wrt (\<lambda>a b. length b \<le> length a) (rev (sort_key length xs))" for xs :: "string list"
    using sorted_sort_key [of length xs] by (simp add: sorted_wrt_rev sorted_map)
  then show ?thesis by (simp add: sorts_by_length_def longest_first_def)
qed

section \<open>Nothing secret is left\<close>

lemma secret_not_Nil: "minSecret \<le> length v \<Longrightarrow> v \<noteq> []"
  by (auto simp: minSecret_def)

definition starless :: "string \<Rightarrow> bool" where
  "starless v \<longleftrightarrow> CHR ''*'' \<notin> set v"

lemma starless_stars: "starless v \<Longrightarrow> set v \<inter> set stars = {}"
  by (auto simp: starless_def stars_def)

lemma redact_Nil [simp]: "redact_text [] s = s"
  by (simp add: redact_text_def)

lemma redact_Cons [simp]: "redact_text (v # vs) s = redact_text vs (ReplaceAll v stars s)"
  by (simp add: redact_text_def)

lemma redact_contains:
  "starless v \<Longrightarrow> v \<noteq> [] \<Longrightarrow> str_contains (redact_text vs s) v \<Longrightarrow> str_contains s v"
proof (induction vs arbitrary: s)
  case (Cons w vs)
  have "str_contains (ReplaceAll w stars s) v" using Cons.IH [OF Cons.prems(1,2)] Cons.prems(3) by simp
  then show ?case
    using replace_contains [OF starless_stars [OF Cons.prems(1)] _ Cons.prems(2)] by (auto simp: stars_def)
qed simp

lemma redact_removes:
  "starless v \<Longrightarrow> v \<noteq> [] \<Longrightarrow> v \<in> set vs \<Longrightarrow> \<not> str_contains (redact_text vs s) v"
proof (induction vs arbitrary: s)
  case (Cons w vs)
  show ?case
  proof (cases "v = w")
    case True
    then have "\<not> str_contains (ReplaceAll w stars s) v"
      using replace_removes [OF starless_stars [OF Cons.prems(1)] _ Cons.prems(2)] by (auto simp: stars_def)
    then show ?thesis using redact_contains [OF Cons.prems(1,2)] by auto
  next
    case False
    then show ?thesis using Cons by simp
  qed
qed simp

lemma redact_none: "list_all (\<lambda>v. \<not> str_contains s v) vs \<Longrightarrow> redact_text vs s = s"
  by (induction vs) (simp_all add: replace_none)

lemma contains_same_length: "str_contains s p \<Longrightarrow> length s \<le> length p \<Longrightarrow> p = s"
  by (auto simp: str_contains_iff)

lemma redact_stars: "list_all (\<lambda>v. minSecret \<le> length v) vs \<Longrightarrow> redact_text vs stars = stars"
proof (induction vs)
  case (Cons v vs)
  have "ReplaceAll v stars stars = stars"
  proof (cases "str_contains stars v")
    case True
    then have "v = stars" using Cons.prems by (intro contains_same_length) (simp_all add: stars_def minSecret_def)
    then show ?thesis using replace_self [of stars stars] by (simp add: stars_def)
  qed (simp add: replace_none)
  then show ?case using Cons by simp
qed simp

lemma redact_whole:
  "sorted_wrt (\<lambda>a b. length b \<le> length a) vs \<Longrightarrow> list_all (\<lambda>v. minSecret \<le> length v) vs \<Longrightarrow> v \<in> set vs \<Longrightarrow>
   redact_text vs v = stars"
proof (induction vs)
  case (Cons w vs)
  show ?case
  proof (cases "w = v")
    case True
    then show ?thesis using Cons.prems(2) redact_stars [of vs] replace_self [of v stars] secret_not_Nil [of v] by simp
  next
    case False
    then have "v \<in> set vs" "length v \<le> length w" using Cons.prems by auto
    then have "\<not> str_contains v w" using False contains_same_length by blast
    then show ?thesis using Cons \<open>v \<in> set vs\<close> by (simp add: replace_none)
  qed
qed simp

lemma newRedactor_set:
  "sorts_by_length f \<Longrightarrow> set (newRedactor f secrets) = {v \<in> set secrets. minSecret \<le> length v}"
  unfolding sorts_by_length_def newRedactor_def by (metis set_filter set_mset_mset)

text \<open>C28: Redaction. In a redacted text no secret of three or more bytes occurs, unless the secret itself
  contains a star; a text in which no such secret occurs is unchanged; and a secret's own value is
  replaced as a whole, also when another secret is a part of it.\<close>

theorem redact_hides:
  assumes "sorts_by_length sort_slice"
  shows "list_all (\<lambda>v. if minSecret \<le> length v
           then redact_text (newRedactor sort_slice secrets) v = stars \<and>
                (if starless v then \<not> str_contains (redact_text (newRedactor sort_slice secrets) s) v else True)
           else True) secrets \<and>
         (if list_ex (\<lambda>v. minSecret \<le> length v \<and> str_contains s v) secrets then True
          else redact_text (newRedactor sort_slice secrets) s = s)"
proof -
  have st: "set (newRedactor sort_slice secrets) = {v \<in> set secrets. minSecret \<le> length v}"
    by (rule newRedactor_set [OF assms])
  have so: "sorted_wrt (\<lambda>a b. length b \<le> length a) (newRedactor sort_slice secrets)"
    using assms by (simp add: sorts_by_length_def newRedactor_def)
  have long: "list_all (\<lambda>v. minSecret \<le> length v) (newRedactor sort_slice secrets)"
    using st by (simp add: list_all_iff)
  have gone: "\<not> str_contains (redact_text (newRedactor sort_slice secrets) s) v"
    if "v \<in> set secrets" "minSecret \<le> length v" "starless v" for v
    using that st by (intro redact_removes) (auto dest: secret_not_Nil)
  show ?thesis
    using gone redact_whole [OF so long] st redact_none [of s "newRedactor sort_slice secrets"]
    by (auto simp: list_all_iff list_ex_iff)
qed

theorem redact_hides_witness:
  "redact_text (newRedactor longest_first [''abc'', ''abcdef'', ''ab'']) ''abcdef'' = stars \<and>
   \<not> str_contains (redact_text (newRedactor longest_first [''abc'', ''abcdef'', ''ab'']) ''token abcdef, abc and ab'') ''abc''"
proof -
  have len: "minSecret \<le> length ''abc''" "minSecret \<le> length ''abcdef''" "starless ''abc''"
    by (simp_all add: minSecret_def starless_def)
  show ?thesis
    using redact_hides [OF longest_first_sorts, of "[''abc'', ''abcdef'', ''ab'']" "''token abcdef, abc and ab''"] len
    by (simp only: list.pred_inject if_True simp_thms)
qed

end
