(* ===== verification/Ui_Config.thy ===== *)
theory Ui_Config
  imports Go_Http Netguard Redact Config_Engine Threshold_Verdict
begin

text \<open>
  What the page may ask for: \<open>internal/ui/config.go\<close>. A request is checked and turned into what the fixed
  script sends; a run is checked against the limits. \<open>net/url\<close>'s parser and printer, \<open>json.Valid\<close> and
  the \<open>%g\<close> of floating-point numbers are arguments.
\<close>

section \<open>Requests\<close>

definition maxBodyBytes :: int where "maxBodyBytes = 256 * 1024"
definition maxURLBytes :: int where "maxURLBytes = 8 * 1024"
definition maxFields :: int where "maxFields = 50"

record field =
  fd_Name :: string
  fd_Value :: string
  fd_Secret :: bool

record auth =
  au_Type :: string
  au_Token :: string
  au_Username :: string
  au_Password :: string

record api_request =
  ar_Method :: string
  ar_URL :: string
  ar_Query :: "field list"
  ar_Headers :: "field list"
  ar_Body :: string
  ar_Auth :: auth

record run_config =
  rc_Request :: api_request
  rc_VUs :: int
  rc_Duration :: string
  rc_MinStatus :: int
  rc_MaxStatus :: int
  rc_P95Ms :: f64
  rc_MaxErrorPct :: f64
  rc_Authorized :: bool

record limits =
  lim_MaxVUs :: int
  lim_MaxDuration :: duration
  lim_AllowPrivate :: bool
  lim_RequestTimeout :: duration

record request =
  rq_Method :: string
  rq_URL :: string
  rq_Body :: string
  rq_Header :: url_values
  rq_Label :: string
  rq_Secrets :: "string list"

record plan =
  pl_request :: request
  pl_VUs :: int
  pl_Duration :: duration
  pl_MinStatus :: int
  pl_MaxStatus :: int
  pl_Thresholds :: "(string \<times> string list) list"

definition methods :: "string list" where
  "methods = [''GET'', ''POST'', ''PUT'', ''PATCH'', ''DELETE'']"

definition forbiddenHeaders :: "string list" where
  "forbiddenHeaders = [''Host'', ''Content-Length'', ''Transfer-Encoding'', ''Connection'',
     ''Upgrade'', ''Te'', ''Trailer'', ''Proxy-Authorization'', ''Proxy-Connection'']"

section \<open>The standard library\<close>

text \<open>\<open>url.Parse\<close>, \<open>URL.String\<close>, \<open>url.ParseQuery\<close>, \<open>netip.ParseAddr\<close>, \<open>json.Valid\<close> and \<open>%g\<close>.\<close>

record lib =
  lb_Parse :: "string \<Rightarrow> string + url"
  lb_String :: "url \<Rightarrow> string"
  lb_ParseQuery :: "string \<Rightarrow> url_values"
  lb_ParseAddr :: "string \<Rightarrow> addr option"
  lb_Valid :: "string \<Rightarrow> bool"
  lb_format_g :: "f64 \<Rightarrow> string"

section \<open>validateRequest\<close>

datatype request_error =
    BadMethod
  | URLTooLong
  | URLError guard_error
  | HasFragment
  | TooManyFields
  | UnnamedParameter
  | InvalidHeader string
  | ReservedHeader string
  | LineBreakIn string
  | BadToken
  | BadBasic
  | BadAuthType
  | BodyOnGet
  | BodyTooLarge
  | BodyNotJSON

definition ui_checkURL :: "lib \<Rightarrow> string \<Rightarrow> bool \<Rightarrow> guard_error + url" where
  "ui_checkURL lb raw allowPrivate =
     (if \<not> allowPrivate then CheckURL (lb_Parse lb) (lb_ParseAddr lb) raw
      else case lb_Parse lb raw of
        Inl e \<Rightarrow> Inl (InvalidURL e)
      | Inr u \<Rightarrow>
          if u_Scheme u \<noteq> ''http'' \<and> u_Scheme u \<noteq> ''https'' then Inl BadScheme
          else if u_User u then Inl CredentialsInURL
          else if u_Hostname u = [] then Inl NoHost
          else Inr u)"

definition separators :: string where
  "separators = [CHR 0x22, CHR ''('', CHR '')'', CHR '','', CHR ''/'', CHR '':'', CHR '';'', CHR ''<'', CHR ''='', CHR ''>'',
     CHR ''?'', CHR ''@'', CHR ''['', CHR 0x5C, CHR '']'', CHR ''{'', CHR ''}'']"

definition validHeaderName :: "string \<Rightarrow> bool" where
  "validHeaderName name \<longleftrightarrow> name \<noteq> [] \<and>
     list_all (\<lambda>c. \<not> (byte c > 126 \<or> byte c \<le> byte (CHR '' '') \<or> c \<in> set separators)) name"

fun add_query :: "field list \<Rightarrow> url_values \<Rightarrow> string list \<Rightarrow> request_error + url_values \<times> string list" where
  "add_query [] q secrets = Inr (q, secrets)"
| "add_query (f # fs) q secrets =
     (if TrimSpace (fd_Name f) = [] then Inl UnnamedParameter
      else add_query fs (values_add q (fd_Name f) (fd_Value f))
             (if fd_Secret f then secrets @ [fd_Value f, QueryEscape (fd_Value f)] else secrets))"

fun add_headers :: "field list \<Rightarrow> url_values \<Rightarrow> string list \<Rightarrow> request_error + url_values \<times> string list" where
  "add_headers [] h secrets = Inr (h, secrets)"
| "add_headers (f # fs) h secrets =
     (let name = TrimSpace (fd_Name f) in
      if \<not> validHeaderName name then Inl (InvalidHeader name)
      else if CanonicalHeaderKey name \<in> set forbiddenHeaders then Inl (ReservedHeader (CanonicalHeaderKey name))
      else if contains_any (fd_Value f) [CHR 0x0D, CHR 0x0A] then Inl (LineBreakIn name)
      else add_headers fs (header_Add h name (fd_Value f)) (if fd_Secret f then secrets @ [fd_Value f] else secrets))"

definition applyAuth :: "request \<Rightarrow> auth \<Rightarrow> request_error + request" where
  "applyAuth out a =
     (if au_Type a = [] \<or> au_Type a = ''none'' then Inr out
      else if au_Type a = ''bearer''
      then (let tok = TrimSpace (au_Token a) in
            if tok = [] \<or> contains_any tok [CHR 0x0D, CHR 0x0A, CHR '' ''] then Inl BadToken
            else Inr (out\<lparr>rq_Header := header_Set (rq_Header out) ''Authorization'' (''Bearer '' @ tok),
                          rq_Secrets := rq_Secrets out @ [tok]\<rparr>))
      else if au_Type a = ''basic''
      then (if au_Username a = [] \<or> contains_any (au_Username a) [CHR '':'', CHR 0x0D, CHR 0x0A] \<or>
               contains_any (au_Password a) [CHR 0x0D, CHR 0x0A] then Inl BadBasic
            else let enc = base64 (au_Username a @ '':'' @ au_Password a) in
              Inr (out\<lparr>rq_Header := header_Set (rq_Header out) ''Authorization'' (''Basic '' @ enc),
                       rq_Secrets := rq_Secrets out @ [au_Password a, enc]\<rparr>))
      else Inl BadAuthType)"

definition add_body :: "lib \<Rightarrow> request \<Rightarrow> string \<Rightarrow> request_error + request" where
  "add_body lb out raw = (let body = TrimSpace raw in
     if body = [] then Inr out
     else if rq_Method out = ''GET'' then Inl BodyOnGet
     else if maxBodyBytes < int (length body) then Inl BodyTooLarge
     else if \<not> lb_Valid lb body then Inl BodyNotJSON
     else let out = out\<lparr>rq_Body := body\<rparr> in
       Inr (if header_Get (rq_Header out) ''Content-Type'' = []
            then out\<lparr>rq_Header := header_Set (rq_Header out) ''Content-Type'' ''application/json''\<rparr>
            else out))"

definition url_label :: "url \<Rightarrow> url" where
  "url_label u = \<lparr>u_Scheme = u_Scheme u, u_User = False, u_Host = u_Host u, u_Hostname = u_Hostname u, u_Path = u_Path u,
     u_RawQuery = [], u_Fragment = [], u_Rest = []\<rparr>"

definition validateRequest :: "lib \<Rightarrow> limits \<Rightarrow> api_request \<Rightarrow> request_error + request" where
  "validateRequest lb lm r =
     (let m = ToUpper (TrimSpace (ar_Method r)); raw = TrimSpace (ar_URL r) in
      if m \<notin> set methods then Inl BadMethod
      else if maxURLBytes < int (length raw) then Inl URLTooLong
      else case ui_checkURL lb raw (lim_AllowPrivate lm) of
        Inl e \<Rightarrow> Inl (URLError e)
      | Inr u \<Rightarrow>
          if u_Fragment u \<noteq> [] then Inl HasFragment
          else if maxFields < int (length (ar_Query r)) \<or> maxFields < int (length (ar_Headers r)) then Inl TooManyFields
          else (case add_query (ar_Query r) (lb_ParseQuery lb (u_RawQuery u)) [] of
            Inl e \<Rightarrow> Inl e
          | Inr (q, secrets) \<Rightarrow> (case add_headers (ar_Headers r) [] secrets of
              Inl e \<Rightarrow> Inl e
            | Inr (h, secrets) \<Rightarrow> (case applyAuth \<lparr>rq_Method = m, rq_URL = lb_String lb (u\<lparr>u_RawQuery := Encode q\<rparr>),
                     rq_Body = [], rq_Header = h, rq_Label = m @ '' '' @ lb_String lb (url_label u), rq_Secrets = secrets\<rparr> (ar_Auth r) of
                Inl e \<Rightarrow> Inl e
              | Inr out \<Rightarrow> add_body lb out (ar_Body r)))))"

section \<open>validate\<close>

datatype plan_error =
    RequestError request_error
  | NotAuthorized
  | BadVUs int
  | BadDurationText
  | BadDuration duration
  | BadStatusRange
  | BadLimits

definition plan_thresholds :: "lib \<Rightarrow> run_config \<Rightarrow> (string \<times> string list) list" where
  "plan_thresholds lb c =
     (if f64_lt (Fin 0) (rc_P95Ms c) then [(''http_req_duration'', [''p(95)<'' @ lb_format_g lb (rc_P95Ms c)])] else []) @
     (if f64_lt (Fin 0) (rc_MaxErrorPct c)
      then [(''http_req_failed'', [''rate<'' @ lb_format_g lb (f64_div (rc_MaxErrorPct c) (Fin 100))])] else [])"

definition ui_validate :: "lib \<Rightarrow> limits \<Rightarrow> run_config \<Rightarrow> plan_error + plan" where
  "ui_validate lb lm c = (case validateRequest lb lm (rc_Request c) of
       Inl e \<Rightarrow> Inl (RequestError e)
     | Inr req \<Rightarrow>
         if \<not> rc_Authorized c then Inl NotAuthorized
         else if rc_VUs c < 1 \<or> lim_MaxVUs lm < rc_VUs c then Inl (BadVUs (lim_MaxVUs lm))
         else (case ParseDuration (TrimSpace (rc_Duration c)) of
           None \<Rightarrow> Inl BadDurationText
         | Some d \<Rightarrow>
             if d < second \<or> lim_MaxDuration lm < d then Inl (BadDuration (lim_MaxDuration lm))
             else let (lo, hi) = (if rc_MinStatus c = 0 \<and> rc_MaxStatus c = 0 then (200, 299) else (rc_MinStatus c, rc_MaxStatus c)) in
               if lo < 100 \<or> 599 < hi \<or> hi < lo then Inl BadStatusRange
               else if f64_lt (rc_P95Ms c) (Fin 0) \<or> f64_lt (rc_MaxErrorPct c) (Fin 0) \<or> f64_lt (Fin 100) (rc_MaxErrorPct c)
               then Inl BadLimits
               else Inr \<lparr>pl_request = req, pl_VUs = rc_VUs c, pl_Duration = d, pl_MinStatus = lo, pl_MaxStatus = hi,
                         pl_Thresholds = plan_thresholds lb c\<rparr>))"

section \<open>Header names\<close>

lemma token_char_iff: "token_char c \<longleftrightarrow> \<not> (byte c > 126 \<or> byte c \<le> byte (CHR '' '') \<or> c \<in> set separators)"
  unfolding token_char_separators token_separators_def separators_def ..

lemma validHeaderName_token: "validHeaderName name \<longleftrightarrow> name \<noteq> [] \<and> list_all token_char name"
  unfolding validHeaderName_def token_char_iff ..

lemma canonical_valid: "validHeaderName (CanonicalHeaderKey name) = validHeaderName name"
  by (simp add: validHeaderName_token CanonicalHeaderKey_def canonical_loop_token)

section \<open>Well-formed headers\<close>

definition header_ok :: "string \<times> string list \<Rightarrow> bool" where
  "header_ok = (\<lambda>(k, vs). validHeaderName k \<and> CanonicalHeaderKey k = k \<and> k \<notin> set forbiddenHeaders \<and> vs \<noteq> [] \<and> list_all one_line vs)"

definition headers_ok :: "url_values \<Rightarrow> bool" where
  "headers_ok h \<longleftrightarrow> distinct (map fst h) \<and> list_all header_ok h"

lemma headers_ok_set: "headers_ok h \<Longrightarrow> header_ok (k, vs) \<Longrightarrow> headers_ok (values_set h k vs)"
  unfolding headers_ok_def
  by (intro conjI values_set_distinct) (auto, induction h k vs rule: values_set.induct, auto)

lemma headers_ok_add:
  assumes "headers_ok h" "validHeaderName name" "CanonicalHeaderKey name \<notin> set forbiddenHeaders" "one_line v"
  shows "headers_ok (header_Add h name v)"
proof -
  have "list_all one_line (values_get h (CanonicalHeaderKey name))"
    using values_get_mem [of h "CanonicalHeaderKey name"] assms(1)
    by (auto simp: headers_ok_def header_ok_def list_all_iff)
  then show ?thesis
    using assms unfolding header_Add_def values_add_def
    by (intro headers_ok_set) (simp_all add: header_ok_def canonical_valid canonical_idem)
qed

section \<open>What validateRequest guarantees\<close>

definition auth_secrets :: "auth \<Rightarrow> string list" where
  "auth_secrets a = (if au_Type a = ''bearer'' then [TrimSpace (au_Token a)]
     else if au_Type a = ''basic'' then [au_Password a] else [])"

text \<open>What the user marked secret on the page.\<close>

definition form_secrets :: "api_request \<Rightarrow> string list" where
  "form_secrets r = map fd_Value (filter fd_Secret (ar_Query r @ ar_Headers r)) @ auth_secrets (ar_Auth r)"

lemma add_query_secrets:
  "add_query fs q secrets = Inr (q', secrets') \<Longrightarrow>
   set secrets \<union> set (map fd_Value (filter fd_Secret fs)) \<subseteq> set secrets'"
  by (induction fs q secrets rule: add_query.induct) (auto split: if_splits)

lemma add_headers_ok:
  "add_headers fs h secrets = Inr (h', secrets') \<Longrightarrow> headers_ok h \<Longrightarrow>
   headers_ok h' \<and> set secrets' = set secrets \<union> set (map fd_Value (filter fd_Secret fs))"
proof (induction fs h secrets rule: add_headers.induct)
  case (2 f fs h secrets)
  let ?n = "TrimSpace (fd_Name f)"
  let ?s = "if fd_Secret f then secrets @ [fd_Value f] else secrets"
  have v: "validHeaderName ?n" "CanonicalHeaderKey ?n \<notin> set forbiddenHeaders" "one_line (fd_Value f)"
    and r: "add_headers fs (header_Add h ?n (fd_Value f)) ?s = Inr (h', secrets')"
    using 2(2) by (auto simp: Let_def one_line_def split: if_splits)
  have "headers_ok h' \<and> set secrets' = set ?s \<union> set (map fd_Value (filter fd_Secret fs))"
    by (rule "2.IH" [OF refl _ _ _ r]) (use v headers_ok_add [OF 2(3) v] in \<open>auto simp: one_line_def\<close>)
  then show ?case by (cases "fd_Secret f") auto
qed simp

lemma authorization_ok: "one_line v \<Longrightarrow> header_ok (''Authorization'', [v])"
proof -
  have "validHeaderName ''Authorization''" "''Authorization'' \<notin> set forbiddenHeaders" by code_simp+
  then show "one_line v \<Longrightarrow> header_ok (''Authorization'', [v])" by (simp add: header_ok_def)
qed

lemma content_type_ok: "header_ok (''Content-Type'', [''application/json''])"
  by code_simp

lemma one_line_tokens [simp]: "one_line (''Bearer '' @ v) = one_line v" "one_line (''Basic '' @ v) = one_line v"
proof -
  have "one_line ''Bearer ''" "one_line ''Basic ''" by code_simp+
  then show "one_line (''Bearer '' @ v) = one_line v" "one_line (''Basic '' @ v) = one_line v"
    unfolding one_line_append by blast+
qed

lemma applyAuth_ok:
  assumes "applyAuth out a = Inr out'" "headers_ok (rq_Header out)"
  shows "headers_ok (rq_Header out') \<and> rq_Method out' = rq_Method out \<and> rq_Body out' = rq_Body out \<and> rq_Label out' = rq_Label out \<and>
    set (rq_Secrets out) \<union> set (auth_secrets a) \<subseteq> set (rq_Secrets out')"
proof -
  have t: "one_line tok" if "\<not> contains_any tok [CHR 0x0D, CHR 0x0A, CHR '' '']" for tok
    using that by (auto simp: one_line_def contains_any_def list_ex_iff)
  consider "au_Type a = [] \<or> au_Type a = ''none''" | "au_Type a = ''bearer''" | "au_Type a = ''basic''"
    using assms(1) by (auto simp: applyAuth_def split: if_splits)
  then show ?thesis
  proof cases
    case 1
    then show ?thesis using assms by (auto simp: applyAuth_def auth_secrets_def)
  next
    case 2
    then show ?thesis using assms t
      by (auto simp: applyAuth_def auth_secrets_def Let_def header_Set_def
          simp del: one_line_append append.simps intro!: headers_ok_set authorization_ok split: if_splits)
  next
    case 3
    then show ?thesis using assms
      by (auto simp: applyAuth_def auth_secrets_def Let_def header_Set_def base64_line
          simp del: one_line_append append.simps intro!: headers_ok_set authorization_ok split: if_splits)
  qed
qed

lemma add_body_ok:
  assumes "add_body lb out raw = Inr q" "headers_ok (rq_Header out)" "rq_Body out = []"
  shows "headers_ok (rq_Header q) \<and> rq_Method q = rq_Method out \<and> rq_Label q = rq_Label out \<and> rq_Secrets q = rq_Secrets out \<and>
    int (length (rq_Body q)) \<le> maxBodyBytes \<and> (rq_Body q = [] \<or> rq_Method q \<noteq> ''GET'' \<and> lb_Valid lb (rq_Body q) \<and> header_Get (rq_Header q) ''Content-Type'' \<noteq> [])"
proof -
  have "header_Get (header_Set h ''Content-Type'' v) ''Content-Type'' = v" for h v
    by (simp add: header_Get_def header_Set_def values_get_set)
  moreover have "0 \<le> maxBodyBytes" by (simp add: maxBodyBytes_def)
  ultimately show ?thesis using assms headers_ok_set [OF assms(2) content_type_ok]
    by (auto simp: add_body_def Let_def header_Set_def split: if_splits)
qed

lemma validateRequest_Inr:
  assumes "validateRequest lb lm r = Inr q"
  obtains u out where "ui_checkURL lb (TrimSpace (ar_URL r)) (lim_AllowPrivate lm) = Inr u" "u_Fragment u = []"
    "rq_Method q \<in> set methods" "headers_ok (rq_Header q)" "rq_Label q = rq_Method q @ '' '' @ lb_String lb (url_label u)"
    "int (length (rq_Body q)) \<le> maxBodyBytes"
    "rq_Body q = [] \<or> rq_Method q \<noteq> ''GET'' \<and> lb_Valid lb (rq_Body q) \<and> header_Get (rq_Header q) ''Content-Type'' \<noteq> []"
    "set (form_secrets r) \<subseteq> set (rq_Secrets q)"
proof -
  let ?m = "ToUpper (TrimSpace (ar_Method r))"
  obtain u qv s1 h s2 out where m: "?m \<in> set methods"
    and u: "ui_checkURL lb (TrimSpace (ar_URL r)) (lim_AllowPrivate lm) = Inr u" "u_Fragment u = []"
    and q: "add_query (ar_Query r) (lb_ParseQuery lb (u_RawQuery u)) [] = Inr (qv, s1)"
    and h: "add_headers (ar_Headers r) [] s1 = Inr (h, s2)"
    and a: "applyAuth \<lparr>rq_Method = ?m, rq_URL = lb_String lb (u\<lparr>u_RawQuery := Encode qv\<rparr>), rq_Body = [], rq_Header = h,
       rq_Label = ?m @ '' '' @ lb_String lb (url_label u), rq_Secrets = s2\<rparr> (ar_Auth r) = Inr out"
    and b: "add_body lb out (ar_Body r) = Inr q"
    using assms unfolding validateRequest_def Let_def by (simp split: if_splits sum.splits prod.splits)
  have "headers_ok []" by (simp add: headers_ok_def)
  note h' = add_headers_ok [OF h this]
  note a' = applyAuth_ok [OF a, simplified, OF conjunct1 [OF h']]
  have "headers_ok (rq_Header out)" "rq_Body out = []" using a' by simp_all
  note b' = add_body_ok [OF b this]
  have "set (form_secrets r) \<subseteq> set (rq_Secrets q)"
    using add_query_secrets [OF q] h' a' b' by (auto simp: form_secrets_def)
  moreover have "rq_Method q = ?m" using a' b' by simp
  ultimately show ?thesis using that [OF u(1,2)] m a' b' by (elim conjE) simp
qed

text \<open>C29: What the UI sends. A request that passes the checks has one of the five methods, a URL the network
  guard accepted, without a fragment, and headers that cannot smuggle anything: every name is a
  canonical HTTP token the client does not set itself, each name occurs once, and no value contains
  a line break, the Authorization header built from the user's input included. A body is JSON of at most
  256 KB with a content type, and a GET has none. The label shown in reports is the method and the URL
  without query, user and fragment, and every value the user marked secret is registered for redaction.\<close>

theorem request_safe:
  assumes "validateRequest lb lm r = Inr q"
  shows "rq_Method q \<in> set methods \<and> headers_ok (rq_Header q) \<and> int (length (rq_Body q)) \<le> maxBodyBytes \<and>
    (if rq_Body q = [] then True
     else rq_Method q \<noteq> ''GET'' \<and> lb_Valid lb (rq_Body q) \<and> header_Get (rq_Header q) ''Content-Type'' \<noteq> []) \<and>
    (\<exists>u. ui_checkURL lb (TrimSpace (ar_URL r)) (lim_AllowPrivate lm) = Inr u \<and> u_Fragment u = [] \<and>
       rq_Label q = rq_Method q @ '' '' @ lb_String lb (url_label u)) \<and>
    set (form_secrets r) \<subseteq> set (rq_Secrets q)"
  by (rule validateRequest_Inr [OF assms]) auto

text \<open>A request with a secret query parameter, a secret header and a token.\<close>

definition ui_lib :: lib where
  "ui_lib = \<lparr>lb_Parse = (\<lambda>raw. Inr \<lparr>u_Scheme = ''https'', u_User = False, u_Host = ''api.example.com'', u_Hostname = ''api.example.com'',
       u_Path = ''/orders'', u_RawQuery = [], u_Fragment = [], u_Rest = []\<rparr>),
     lb_String = (\<lambda>u. u_Scheme u @ ''://'' @ u_Host u @ u_Path u @ (if u_RawQuery u = [] then [] else ''?'' @ u_RawQuery u)),
     lb_ParseQuery = (\<lambda>_. []), lb_ParseAddr = (\<lambda>_. None), lb_Valid = (\<lambda>_. True), lb_format_g = (\<lambda>_. ''5'')\<rparr>"

definition ui_request :: api_request where
  "ui_request = \<lparr>ar_Method = '' post'', ar_URL = ''https://api.example.com/orders'',
     ar_Query = [\<lparr>fd_Name = ''key'', fd_Value = ''s3 cret'', fd_Secret = True\<rparr>],
     ar_Headers = [\<lparr>fd_Name = ''x-api-key'', fd_Value = ''abcdef'', fd_Secret = True\<rparr>], ar_Body = '' {} '',
     ar_Auth = \<lparr>au_Type = ''bearer'', au_Token = ''tok123'', au_Username = [], au_Password = []\<rparr>\<rparr>"

definition ui_limits :: limits where
  "ui_limits = \<lparr>lim_MaxVUs = 50, lim_MaxDuration = 300 * second, lim_AllowPrivate = False, lim_RequestTimeout = 10 * second\<rparr>"

lemma ui_request_accepted:
  "validateRequest ui_lib ui_limits ui_request = Inr \<lparr>rq_Method = ''POST'', rq_URL = ''https://api.example.com/orders?key=s3+cret'',
     rq_Body = ''{}'', rq_Header = [(''X-Api-Key'', [''abcdef'']), (''Authorization'', [''Bearer tok123'']), (''Content-Type'', [''application/json''])],
     rq_Label = ''POST https://api.example.com/orders'', rq_Secrets = [''s3 cret'', ''s3+cret'', ''abcdef'', ''tok123'']\<rparr>"
  by code_simp

theorem request_safe_witness:
  "\<exists>q. validateRequest ui_lib ui_limits ui_request = Inr q \<and> headers_ok (rq_Header q) \<and> set (form_secrets ui_request) \<subseteq> set (rq_Secrets q)"
  using request_safe [OF ui_request_accepted] ui_request_accepted by blast

section \<open>Thresholds of the form\<close>

text \<open>\<open>%g\<close> prints an exponent below 0.0001 and from 1000000 on, which the grammar of threshold expressions
  does not have: the form accepts the limit, and the run then fails to start.\<close>

lemma no_match: "list_all (\<lambda>x. fst x \<noteq> []) (rmatch r (s, Map.empty)) \<Longrightarrow> FindStringSubmatch r s = None"
  by (auto simp: FindStringSubmatch_None list_all_iff)

lemma exponent_rejected:
  "parseExpr name m ''rate<1e-05'' = Inl (BadExpr name ''rate<1e-05'')"
  "parseExpr name m ''p(95)<1e+06'' = Inl (BadExpr name ''p(95)<1e+06'')"
proof -
  have "FindStringSubmatch exprPattern ''rate<1e-05'' = None" "FindStringSubmatch exprPattern ''p(95)<1e+06'' = None"
    by (rule no_match, code_simp)+
  then show "parseExpr name m ''rate<1e-05'' = Inl (BadExpr name ''rate<1e-05'')"
    "parseExpr name m ''p(95)<1e+06'' = Inl (BadExpr name ''p(95)<1e+06'')" by (simp_all add: parseExpr_def)
qed

end
