(* ===== verification/Ui_Controller.thy ===== *)
theory Ui_Controller
  imports Ui_Config Runner
begin

text \<open>
  The controller behind the UI: \<open>internal/ui/controller.go\<close>. One test at a time: \<open>Start\<close> creates a run,
  the runner's goroutine adds points and warnings and ends it, \<open>Cancel\<close>, \<open>Status\<close> and \<open>Report\<close> may come at
  any moment. Every operation holds the run's lock, so it is one step. \<open>runner.Run\<close> is the field
  \<open>Options.run\<close> of the code and an argument here; so are the files, \<open>json.Marshal\<close>, the report writers and
  the clock.
\<close>

section \<open>Runs\<close>

datatype run_state = StateRunning | StateCompleted | StateFailed | StateCancelled

text \<open>\<open>ur_ctxDone\<close> is whether \<open>cancel\<close> was called on the run's context.\<close>

record ui_run =
  ur_id :: string
  ur_label :: string
  ur_vus :: int
  ur_dur :: duration
  ur_started :: int
  ur_ctxDone :: bool
  ur_redact :: "string list"
  ur_state :: run_state
  ur_ended :: "int option"
  ur_cancelled :: bool
  ur_points :: "point list"
  ur_errMsg :: string
  ur_warnings :: "string list"
  ur_reportJSON :: "string option"
  ur_reportHTML :: "string option"

record ui_options =
  uo_Limits :: limits
  uo_Version :: string

record ui_controller =
  uc_opts :: ui_options
  uc_log :: "string list"
  uc_cur :: "ui_run option"

definition NewController :: "ui_options \<Rightarrow> ui_controller" where
  "NewController opts =
     (let l = uo_Limits opts;
          l = (if lim_MaxVUs l = 0 then l\<lparr>lim_MaxVUs := 50\<rparr> else l);
          l = (if lim_MaxDuration l = 0 then l\<lparr>lim_MaxDuration := 300 * second\<rparr> else l);
          l = (if lim_RequestTimeout l = 0 then l\<lparr>lim_RequestTimeout := 10 * second\<rparr> else l)
      in \<lparr>uc_opts = opts\<lparr>uo_Limits := l\<rparr>, uc_log = [], uc_cur = None\<rparr>)"

definition state_text :: "run_state \<Rightarrow> string" where
  "state_text s = (case s of StateRunning \<Rightarrow> ''running'' | StateCompleted \<Rightarrow> ''completed''
     | StateFailed \<Rightarrow> ''failed'' | StateCancelled \<Rightarrow> ''cancelled'')"

datatype ui_error = InvalidRun plan_error | Busy | NotFound | NotReady

definition started_line :: "ui_run \<Rightarrow> string" where
  "started_line r = ''ui: run '' @ ur_id r @ '' started: '' @ ur_label r @ '', '' @ itoa (ur_vus r) @ '' VUs for '' @
     Duration_String (ur_dur r) @ [CHR 0x0A]"

definition ended_line :: "ui_run \<Rightarrow> string" where
  "ended_line r = ''ui: run '' @ ur_id r @ '' '' @ state_text (ur_state r) @ [CHR 0x0A]"

definition new_run :: "(string list \<Rightarrow> string list) \<Rightarrow> string \<Rightarrow> int \<Rightarrow> plan \<Rightarrow> ui_run" where
  "new_run sort_slice newid now p = \<lparr>ur_id = newid, ur_label = rq_Label (pl_request p), ur_vus = pl_VUs p, ur_dur = pl_Duration p,
     ur_started = now, ur_ctxDone = False, ur_redact = newRedactor sort_slice (rq_Secrets (pl_request p)),
     ur_state = StateRunning, ur_ended = None, ur_cancelled = False, ur_points = [], ur_errMsg = [], ur_warnings = [],
     ur_reportJSON = None, ur_reportHTML = None\<rparr>"

definition is_running :: "ui_controller \<Rightarrow> bool" where
  "is_running ctl = (case uc_cur ctl of None \<Rightarrow> False | Some r \<Rightarrow> ur_state r = StateRunning)"

definition ui_Start :: "lib \<Rightarrow> (string list \<Rightarrow> string list) \<Rightarrow> string \<Rightarrow> int \<Rightarrow> run_config \<Rightarrow> ui_controller \<Rightarrow>
    (ui_error + string) \<times> ui_controller" where
  "ui_Start lb sort_slice newid now c ctl = (case ui_validate lb (uo_Limits (uc_opts ctl)) c of
       Inl e \<Rightarrow> (Inl (InvalidRun e), ctl)
     | Inr p \<Rightarrow>
         if is_running ctl then (Inl Busy, ctl)
         else let r = new_run sort_slice newid now p
           in (Inr (ur_id r), ctl\<lparr>uc_cur := Some r, uc_log := uc_log ctl @ [started_line r]\<rparr>))"

section \<open>Running a plan\<close>

text \<open>The files and the JSON of a run: the temporary directory, the error of writing the script into it,
  and the two texts passed in the environment.\<close>

record ui_files =
  uf_mkdir :: "string + string"
  uf_write :: "string option"
  uf_cfgJSON :: "plan \<Rightarrow> string + string"
  uf_headersJSON :: "(string \<times> string) list \<Rightarrow> string + string"

definition ui_script_path :: "string \<Rightarrow> string" where
  "ui_script_path dir = dir @ ''/ui-run.ts''"

definition config_zero :: config where
  "config_zero = \<lparr>c_Script = [], c_VUs = 0, c_Duration = 0, c_GracefulStop = 0, c_DiscardResponseBodies = False,
     c_NoCookiesReset = False, c_NoConnectionReuse = False, c_HTTPVersion = [], c_SetupTimeout = 0, c_TeardownTimeout = 0,
     c_Scenarios = [], c_ScenariosReplaced = False\<rparr>"

text \<open>The headers of a run: the first value of each.\<close>

definition run_headers :: "plan \<Rightarrow> (string \<times> string) list" where
  "run_headers p = map (\<lambda>(k, vs). (k, hd vs)) (rq_Header (pl_request p))"

definition ui_params :: "ui_options \<Rightarrow> string \<Rightarrow> string \<Rightarrow> string \<Rightarrow> plan \<Rightarrow> params" where
  "ui_params opts path cfgJSON headersJSON p = \<lparr>
     p_Config = config_zero\<lparr>c_Script := path, c_GracefulStop := lim_RequestTimeout (uo_Limits opts)\<rparr>,
     p_Overrides = \<lparr>ov_VUs = Some (pl_VUs p), ov_Duration = Some (pl_Duration p)\<rparr>,
     p_Getenv = Map.empty,
     p_Env = [(''LOADTOOL_UI_RUN'', cfgJSON), (''LOADTOOL_UI_HEADERS'', headersJSON)],
     p_Console = True, p_Warn = True, p_DialControl = (\<not> lim_AllowPrivate (uo_Limits opts)), p_NoProxy = True,
     p_RequestTimeout = lim_RequestTimeout (uo_Limits opts)\<rparr>"

definition runPlan :: "ui_files \<Rightarrow> ui_options \<Rightarrow> (params \<Rightarrow> string + report) \<Rightarrow> plan \<Rightarrow> string + report" where
  "runPlan f opts run p = (case uf_mkdir f of
       Inl e \<Rightarrow> Inl e
     | Inr dir \<Rightarrow> (case uf_write f of
         Some e \<Rightarrow> Inl e
       | None \<Rightarrow> (case uf_cfgJSON f p of
           Inl e \<Rightarrow> Inl e
         | Inr cfg \<Rightarrow> (case uf_headersJSON f (run_headers p) of
             Inl e \<Rightarrow> Inl e
           | Inr hs \<Rightarrow> run (ui_params opts (ui_script_path dir) cfg hs p)))))"

text \<open>The end of \<open>execute\<close>; \<open>json\<close> and \<open>html\<close> write a report, \<open>None\<close> for a failure.\<close>

definition execute_end :: "(report \<Rightarrow> string \<Rightarrow> string option) \<Rightarrow> (report \<Rightarrow> string \<Rightarrow> string option) \<Rightarrow> int \<Rightarrow> string + report \<Rightarrow>
    ui_controller \<Rightarrow> ui_run \<Rightarrow> ui_controller" where
  "execute_end json html now result ctl r0 =
     (let r = r0\<lparr>ur_ended := Some now\<rparr>;
          r = (case result of
                 Inl e \<Rightarrow> r\<lparr>ur_state := StateFailed, ur_errMsg := redact_text (ur_redact r) e\<rparr>
               | Inr _ \<Rightarrow> if ur_cancelled r then r\<lparr>ur_state := StateCancelled\<rparr> else r\<lparr>ur_state := StateCompleted\<rparr>);
          r = (case result of
                 Inl _ \<Rightarrow> r
               | Inr res \<Rightarrow>
                   let res = res\<lparr>rp_Script := ur_label r\<rparr>;
                       v = uo_Version (uc_opts ctl);
                       r = (case json res v of None \<Rightarrow> r | Some j \<Rightarrow> r\<lparr>ur_reportJSON := Some (redact_bytes (ur_redact r) j)\<rparr>)
                   in (case html res v of None \<Rightarrow> r | Some h \<Rightarrow> r\<lparr>ur_reportHTML := Some (redact_bytes (ur_redact r) h)\<rparr>))
      in ctl\<lparr>uc_cur := Some (r\<lparr>ur_ctxDone := True\<rparr>), uc_log := uc_log ctl @ [ended_line r]\<rparr>)"

definition addPoint :: "point \<Rightarrow> ui_run \<Rightarrow> ui_run" where
  "addPoint p r = r\<lparr>ur_points := ur_points r @ [p]\<rparr>"

definition run_warn :: "string \<Rightarrow> ui_run \<Rightarrow> ui_run" where
  "run_warn msg r = (if length (ur_warnings r) < 20
     then r\<lparr>ur_warnings := ur_warnings r @ [redact_text (ur_redact r) msg]\<rparr> else r)"

section \<open>Requests of the page\<close>

definition ui_get :: "string \<Rightarrow> ui_controller \<Rightarrow> ui_run option" where
  "ui_get rid ctl = (case uc_cur ctl of None \<Rightarrow> None | Some r \<Rightarrow> if ur_id r \<noteq> rid then None else Some r)"

definition ui_Cancel :: "string \<Rightarrow> ui_controller \<Rightarrow> ui_error option \<times> ui_controller" where
  "ui_Cancel rid ctl = (case ui_get rid ctl of
       None \<Rightarrow> (Some NotFound, ctl)
     | Some r \<Rightarrow> (let r = (if ur_state r = StateRunning then r\<lparr>ur_cancelled := True\<rparr> else r)
                  in (None, ctl\<lparr>uc_cur := Some (r\<lparr>ur_ctxDone := True\<rparr>)\<rparr>)))"

record live_point =
  lp_AtMs :: f64
  lp_Requests :: int
  lp_Failed :: int
  lp_MeanMs :: f64
  lp_P50Ms :: f64
  lp_P95Ms :: f64
  lp_P99Ms :: f64
  lp_VUs :: int

record live =
  lv_Requests :: int
  lv_Failed :: int
  lv_Points :: "live_point list"

record status =
  st_ID :: string
  st_State :: string
  st_Label :: string
  st_StartedAt :: string
  st_ElapsedMs :: f64
  st_DurationMs :: f64
  st_ConfiguredVUs :: int
  st_ActiveVUs :: int
  st_Live :: live
  st_Error :: string
  st_Warnings :: "string list"
  st_Final :: "string option"

definition ui_ms :: "duration \<Rightarrow> f64" where
  "ui_ms d = f64_div (f64_of_int d) (f64_of_int millisecond)"

definition live_step :: "live \<Rightarrow> point \<Rightarrow> live" where
  "live_step l p = \<lparr>lv_Requests = wrap64 (lv_Requests l + pt_Requests p), lv_Failed = wrap64 (lv_Failed l + pt_Failed p),
     lv_Points = lv_Points l @ [\<lparr>lp_AtMs = ui_ms (pt_At p), lp_Requests = pt_Requests p, lp_Failed = pt_Failed p,
       lp_MeanMs = ui_ms (pt_Mean p), lp_P50Ms = ui_ms (pt_P50 p), lp_P95Ms = ui_ms (pt_P95 p), lp_P99Ms = ui_ms (pt_P99 p),
       lp_VUs = pt_VUs p\<rparr>]\<rparr>"

definition ui_Status :: "(int \<Rightarrow> string) \<Rightarrow> int \<Rightarrow> string \<Rightarrow> ui_controller \<Rightarrow> ui_error + status" where
  "ui_Status rfc3339 now rid ctl = (case ui_get rid ctl of
       None \<Rightarrow> Inl NotFound
     | Some r \<Rightarrow>
         (let fin = (case ur_ended r of Some t \<Rightarrow> t | None \<Rightarrow> now)
          in Inr \<lparr>st_ID = ur_id r, st_State = state_text (ur_state r), st_Label = ur_label r, st_StartedAt = rfc3339 (ur_started r),
               st_ElapsedMs = ui_ms (fin - ur_started r), st_DurationMs = ui_ms (ur_dur r), st_ConfiguredVUs = ur_vus r,
               st_ActiveVUs = (if ur_points r \<noteq> [] \<and> ur_state r = StateRunning then pt_VUs (last (ur_points r)) else 0),
               st_Live = foldl live_step \<lparr>lv_Requests = 0, lv_Failed = 0, lv_Points = []\<rparr> (ur_points r),
               st_Error = ur_errMsg r, st_Warnings = ur_warnings r, st_Final = ur_reportJSON r\<rparr>))"

definition ui_Report :: "string \<Rightarrow> string \<Rightarrow> ui_controller \<Rightarrow> ui_error + string" where
  "ui_Report rid kind ctl = (case ui_get rid ctl of
       None \<Rightarrow> Inl NotFound
     | Some r \<Rightarrow> (case (if kind = ''html'' then ur_reportHTML r else ur_reportJSON r) of
         None \<Rightarrow> Inl NotReady
       | Some b \<Rightarrow> Inr b))"

text \<open>What \<open>httpclient.Send\<close> answers.\<close>

record send_result =
  sr_Status :: int
  sr_Proto :: string
  sr_Duration :: duration
  sr_Err :: "string option"
  sr_Header :: url_values
  sr_Body :: string

record preview =
  pv_Status :: int
  pv_Proto :: string
  pv_DurationMs :: f64
  pv_Headers :: "(string \<times> string) list"
  pv_Body :: string
  pv_Truncated :: bool
  pv_Error :: string

definition previewBytes :: int where "previewBytes = 2048"

definition Preflight :: "lib \<Rightarrow> (string list \<Rightarrow> string list) \<Rightarrow> (request \<Rightarrow> send_result) \<Rightarrow> api_request \<Rightarrow> ui_controller \<Rightarrow>
    request_error + preview" where
  "Preflight lb sort_slice send a ctl = (case validateRequest lb (uo_Limits (uc_opts ctl)) a of
       Inl e \<Rightarrow> Inl e
     | Inr req \<Rightarrow>
         (let res = send req;
              red = newRedactor sort_slice (rq_Secrets req);
              pv = \<lparr>pv_Status = sr_Status res, pv_Proto = sr_Proto res, pv_DurationMs = ui_ms (sr_Duration res),
                    pv_Headers = [], pv_Body = [], pv_Truncated = False, pv_Error = []\<rparr>
          in case sr_Err res of
               Some e \<Rightarrow> Inr (pv\<lparr>pv_Error := redact_text red e\<rparr>)
             | None \<Rightarrow>
                 (let body = sr_Body res;
                      long = previewBytes < int (length body);
                      body = (if long then take (nat previewBytes) body else body)
                  in Inr (pv\<lparr>pv_Headers := map (\<lambda>(k, vs). (k, redact_text red (hd vs))) (sr_Header res),
                             pv_Truncated := long, pv_Body := redact_text red body\<rparr>))))"

section \<open>Histories\<close>

text \<open>What may happen to the controller. The runner calls \<open>OnSample\<close> and \<open>Warn\<close> and returns only while the run
  it works for has not ended.\<close>

datatype ui_event =
    EvStarted run_config
  | EvRefused
  | EvPoint point
  | EvWarned string
  | EvEnded "string + report"
  | EvCancelled string

inductive ui_step :: "lib \<Rightarrow> (string list \<Rightarrow> string list) \<Rightarrow> (report \<Rightarrow> string \<Rightarrow> string option) \<Rightarrow> (report \<Rightarrow> string \<Rightarrow> string option) \<Rightarrow>
    ui_event \<Rightarrow> ui_controller \<Rightarrow> ui_controller \<Rightarrow> bool"
  for lb srt json html where
  start: "ui_Start lb srt newid now c ctl = (Inr rid, ctl') \<Longrightarrow> ui_step lb srt json html (EvStarted c) ctl ctl'"
| refused: "ui_Start lb srt newid now c ctl = (Inl e, ctl') \<Longrightarrow> ui_step lb srt json html EvRefused ctl ctl'"
| point: "uc_cur ctl = Some r \<Longrightarrow> ur_state r = StateRunning \<Longrightarrow>
    ui_step lb srt json html (EvPoint p) ctl (ctl\<lparr>uc_cur := Some (addPoint p r)\<rparr>)"
| warned: "uc_cur ctl = Some r \<Longrightarrow> ur_state r = StateRunning \<Longrightarrow>
    ui_step lb srt json html (EvWarned m) ctl (ctl\<lparr>uc_cur := Some (run_warn m r)\<rparr>)"
| ended: "uc_cur ctl = Some r \<Longrightarrow> ur_state r = StateRunning \<Longrightarrow>
    ui_step lb srt json html (EvEnded res) ctl (execute_end json html now res ctl r)"
| cancelled: "ui_Cancel rid ctl = (err, ctl') \<Longrightarrow> ui_step lb srt json html (EvCancelled rid) ctl ctl'"

inductive_simps ui_step_simps:
  "ui_step lb srt json html (EvStarted c) ctl ctl'" "ui_step lb srt json html (EvPoint p) ctl ctl'"
  "ui_step lb srt json html (EvWarned m) ctl ctl'" "ui_step lb srt json html (EvEnded res) ctl ctl'"
  "ui_step lb srt json html (EvCancelled rid) ctl ctl'"

inductive ui_history :: "lib \<Rightarrow> (string list \<Rightarrow> string list) \<Rightarrow> (report \<Rightarrow> string \<Rightarrow> string option) \<Rightarrow> (report \<Rightarrow> string \<Rightarrow> string option) \<Rightarrow>
    ui_controller \<Rightarrow> ui_event list \<Rightarrow> ui_controller \<Rightarrow> bool"
  for lb srt json html ctl0 where
  begins: "ui_history lb srt json html ctl0 [] ctl0"
| continues: "ui_history lb srt json html ctl0 es ctl \<Longrightarrow> ui_step lb srt json html e ctl ctl' \<Longrightarrow> ui_history lb srt json html ctl0 (es @ [e]) ctl'"

text \<open>The form of the latest run, and how many runs were started and have ended.\<close>

definition last_form :: "ui_event list \<Rightarrow> run_config option" where
  "last_form es = foldl (\<lambda>f e. case e of EvStarted c \<Rightarrow> Some c | _ \<Rightarrow> f) None es"

definition starts :: "ui_event list \<Rightarrow> nat" where
  "starts es = length (filter (\<lambda>e. case e of EvStarted _ \<Rightarrow> True | _ \<Rightarrow> False) es)"

definition endings :: "ui_event list \<Rightarrow> nat" where
  "endings es = length (filter (\<lambda>e. case e of EvEnded _ \<Rightarrow> True | _ \<Rightarrow> False) es)"

text \<open>Every text of a run that anyone is shown, apart from its label.\<close>

definition shown :: "ui_run \<Rightarrow> string list" where
  "shown r = ur_errMsg r # ur_warnings r @ opt_list (ur_reportJSON r) @ opt_list (ur_reportHTML r)"

definition hides :: "string list \<Rightarrow> string list \<Rightarrow> bool" where
  "hides secrets texts = list_all (\<lambda>v. if minSecret \<le> length v \<and> starless v then list_all (\<lambda>s. \<not> str_contains s v) texts else True) secrets"

definition run_ok :: "ui_run \<Rightarrow> bool" where
  "run_ok r \<longleftrightarrow>
     (ur_state r = StateRunning \<longleftrightarrow> ur_ended r = None) \<and>
     (ur_state r = StateRunning \<longrightarrow> ur_errMsg r = [] \<and> ur_reportJSON r = None \<and> ur_reportHTML r = None \<and> ur_ctxDone r = ur_cancelled r) \<and>
     (ur_state r = StateCompleted \<longrightarrow> \<not> ur_cancelled r) \<and> (ur_state r = StateCancelled \<longrightarrow> ur_cancelled r) \<and>
     (ur_state r = StateFailed \<longrightarrow> ur_reportJSON r = None \<and> ur_reportHTML r = None) \<and>
     (ur_state r \<noteq> StateFailed \<longrightarrow> ur_errMsg r = []) \<and>
     (ur_state r \<noteq> StateRunning \<longrightarrow> ur_ctxDone r) \<and> length (ur_warnings r) \<le> 20"

section \<open>One run at a time\<close>

lemma last_form_snoc [simp]: "last_form (es @ [e]) = (case e of EvStarted c \<Rightarrow> Some c | _ \<Rightarrow> last_form es)"
  by (simp add: last_form_def split: ui_event.split)

lemma counts_snoc [simp]:
  "starts (es @ [e]) = starts es + (case e of EvStarted _ \<Rightarrow> 1 | _ \<Rightarrow> 0)"
  "endings (es @ [e]) = endings es + (case e of EvEnded _ \<Rightarrow> 1 | _ \<Rightarrow> 0)"
  by (simp_all add: starts_def endings_def split: ui_event.split)

text \<open>A text that is empty or was redacted.\<close>

definition masked :: "ui_run \<Rightarrow> bool" where
  "masked r \<longleftrightarrow> (\<forall>s\<in>set (shown r). s = [] \<or> (\<exists>t. s = redact_text (ur_redact r) t))"

definition run_of :: "lib \<Rightarrow> (string list \<Rightarrow> string list) \<Rightarrow> limits \<Rightarrow> run_config \<Rightarrow> ui_run \<Rightarrow> bool" where
  "run_of lb srt lm c r \<longleftrightarrow> (\<exists>p. ui_validate lb lm c = Inr p \<and> ur_redact r = newRedactor srt (rq_Secrets (pl_request p)) \<and>
     ur_label r = rq_Label (pl_request p) \<and> ur_vus r = pl_VUs p \<and> ur_dur r = pl_Duration p)"

lemmas run_defs = run_ok_def masked_def shown_def run_of_def opt_list_def

lemma run_ok_new: "run_ok (new_run srt newid now p)" "masked (new_run srt newid now p)"
  by (simp_all add: run_defs new_run_def)

lemma addPoint_ok: "run_ok r \<Longrightarrow> run_ok (addPoint p r)" "masked r \<Longrightarrow> masked (addPoint p r)"
  "run_of lb srt lm c r \<Longrightarrow> run_of lb srt lm c (addPoint p r)" "ur_state (addPoint p r) = ur_state r"
  by (simp_all add: run_defs addPoint_def)

lemma run_warn_ok: "run_ok r \<Longrightarrow> run_ok (run_warn m r)" "masked r \<Longrightarrow> masked (run_warn m r)"
  "run_of lb srt lm c r \<Longrightarrow> run_of lb srt lm c (run_warn m r)" "ur_state (run_warn m r) = ur_state r"
  by (auto simp: run_defs run_warn_def)

lemma execute_end_ok:
  assumes "run_ok r" "masked r" "run_of lb srt lm c r" "ur_state r = StateRunning"
  shows "\<exists>r'. uc_cur (execute_end json html now res ctl r) = Some r' \<and> run_ok r' \<and> masked r' \<and> run_of lb srt lm c r' \<and>
    ur_state r' = (case res of Inl _ \<Rightarrow> StateFailed | Inr _ \<Rightarrow> if ur_cancelled r then StateCancelled else StateCompleted) \<and>
    ur_state r' \<noteq> StateRunning \<and> uc_opts (execute_end json html now res ctl r) = uc_opts ctl"
  using assms by (auto simp: execute_end_def run_defs Let_def split: sum.split option.split)

lemma ui_get_Some: "ui_get rid ctl = Some r \<longleftrightarrow> uc_cur ctl = Some r \<and> ur_id r = rid"
  by (auto simp: ui_get_def split: option.split)

lemma cancel_ok:
  assumes "ui_Cancel rid ctl = (err, ctl')" "uc_cur ctl = Some r" "run_ok r" "masked r" "run_of lb srt lm c r"
  shows "\<exists>r'. uc_cur ctl' = Some r' \<and> run_ok r' \<and> masked r' \<and> run_of lb srt lm c r' \<and> ur_state r' = ur_state r \<and>
    uc_opts ctl' = uc_opts ctl"
proof (cases "ui_get rid ctl")
  case None
  then show ?thesis using assms by (auto simp: ui_Cancel_def)
next
  case (Some r1)
  then have "r1 = r" using assms(2) by (simp add: ui_get_Some)
  then show ?thesis using assms Some
    by (cases "ur_state r = StateRunning") (auto simp: ui_Cancel_def run_defs Let_def)
qed

lemma cancel_none: "ui_Cancel rid ctl = (err, ctl') \<Longrightarrow> uc_cur ctl = None \<Longrightarrow> ctl' = ctl"
  by (auto simp: ui_Cancel_def ui_get_def)

text \<open>The invariant of the controller, with the history that led to it.\<close>

definition ctl_inv :: "lib \<Rightarrow> (string list \<Rightarrow> string list) \<Rightarrow> limits \<Rightarrow> ui_event list \<Rightarrow> ui_controller \<Rightarrow> bool" where
  "ctl_inv lb srt lm es ctl \<longleftrightarrow> uo_Limits (uc_opts ctl) = lm \<and>
     starts es = endings es + (if is_running ctl then 1 else 0) \<and>
     (case uc_cur ctl of None \<Rightarrow> last_form es = None
      | Some r \<Rightarrow> run_ok r \<and> masked r \<and> (\<exists>c. last_form es = Some c \<and> run_of lb srt lm c r))"

lemma ctl_inv_step:
  assumes "ctl_inv lb srt lm es ctl" "ui_step lb srt json html e ctl ctl'"
  shows "ctl_inv lb srt lm (es @ [e]) ctl'"
  using assms(2)
proof (cases rule: ui_step.cases)
  case (start newid now c rid)
  then obtain p where p: "ui_validate lb lm c = Inr p" "\<not> is_running ctl"
    "ctl' = ctl\<lparr>uc_cur := Some (new_run srt newid now p), uc_log := uc_log ctl @ [started_line (new_run srt newid now p)]\<rparr>"
    using assms(1) by (auto simp: ui_Start_def ctl_inv_def Let_def split: sum.splits if_splits)
  have "run_of lb srt lm c (new_run srt newid now p)" using p(1) by (auto simp: run_of_def new_run_def)
  moreover have "is_running ctl'" using p(3) by (simp add: is_running_def new_run_def)
  ultimately show ?thesis using assms(1) p run_ok_new start(1) by (auto simp: ctl_inv_def)
next
  case (refused newid now c err)
  then have "ctl' = ctl" by (auto simp: ui_Start_def Let_def split: sum.splits if_splits)
  then show ?thesis using assms(1) refused(1) by (cases "uc_cur ctl") (simp_all add: ctl_inv_def)
next
  case (point r p)
  then show ?thesis using assms(1) addPoint_ok by (auto simp: ctl_inv_def is_running_def)
next
  case (warned r m)
  then show ?thesis using assms(1) run_warn_ok by (auto simp: ctl_inv_def is_running_def)
next
  case (ended r res now)
  then obtain c where c: "run_ok r" "masked r" "last_form es = Some c" "run_of lb srt lm c r" "starts es = endings es + 1"
    using assms(1) by (auto simp: ctl_inv_def is_running_def)
  from execute_end_ok [OF c(1,2,4) ended(4), of json html now res ctl] obtain r'
    where "uc_cur ctl' = Some r'" "run_ok r'" "masked r'" "run_of lb srt lm c r'" "ur_state r' \<noteq> StateRunning" "uc_opts ctl' = uc_opts ctl"
    using ended(2) by auto
  then show ?thesis using assms(1) c ended(1) by (simp add: ctl_inv_def is_running_def)
next
  case (cancelled rid err)
  show ?thesis
  proof (cases "uc_cur ctl")
    case None
    then show ?thesis using cancel_none [OF cancelled(2) None] assms(1) cancelled(1) by (simp add: ctl_inv_def)
  next
    case (Some r)
    then obtain c where c: "run_ok r" "masked r" "last_form es = Some c" "run_of lb srt lm c r"
      using assms(1) by (auto simp: ctl_inv_def)
    from cancel_ok [OF cancelled(2) Some c(1,2,4)] show ?thesis
      using assms(1) c Some cancelled(1) by (auto simp: ctl_inv_def is_running_def)
  qed
qed

lemma ctl_inv_history:
  assumes "ui_history lb srt json html ctl0 es ctl" "uc_cur ctl0 = None"
  shows "ctl_inv lb srt (uo_Limits (uc_opts ctl0)) es ctl"
  using assms(1)
proof (induction rule: ui_history.induct)
  case begins
  then show ?case using assms(2) by (simp add: ctl_inv_def is_running_def last_form_def starts_def endings_def)
next
  case (continues es ctl e ctl')
  then show ?case using ctl_inv_step by blast
qed

lemma NewController_idle: "uc_cur (NewController opts) = None" "\<not> is_running (NewController opts)"
  by (simp_all add: NewController_def Let_def is_running_def)

lemma no_form: "last_form es = None \<Longrightarrow> starts es = 0"
  by (induction es rule: rev_induct) (auto simp: starts_def split: ui_event.splits)

lemma validated_request: "ui_validate lb lm c = Inr p \<Longrightarrow> validateRequest lb lm (rc_Request c) = Inr (pl_request p)"
  by (auto simp: ui_validate_def Let_def split: sum.splits if_splits option.splits prod.splits)

lemma masked_hides:
  assumes "masked r" "run_of lb srt lm c r" "sorts_by_length srt"
  shows "hides (form_secrets (rc_Request c)) (shown r)"
proof -
  obtain p where p: "ui_validate lb lm c = Inr p" "ur_redact r = newRedactor srt (rq_Secrets (pl_request p))"
    using assms(2) by (auto simp: run_of_def)
  have sub: "set (form_secrets (rc_Request c)) \<subseteq> set (rq_Secrets (pl_request p))"
    by (rule validateRequest_Inr [OF validated_request [OF p(1)]])
  show ?thesis unfolding hides_def list_all_iff
  proof (intro ballI, split if_split, intro conjI impI ballI)
    fix v s
    assume v: "v \<in> set (form_secrets (rc_Request c))" "minSecret \<le> length v \<and> starless v" and s: "s \<in> set (shown r)"
    have "v \<in> set (ur_redact r)" using v sub newRedactor_set [OF assms(3)] p(2) by auto
    moreover have n: "v \<noteq> []" by (rule secret_not_Nil [OF conjunct1 [OF v(2)]])
    ultimately have "\<not> str_contains (redact_text (ur_redact r) t) v" for t
      by (intro redact_removes conjunct2 [OF v(2)])
    moreover have "s = [] \<or> (\<exists>t. s = redact_text (ur_redact r) t)" using assms(1) s by (simp add: masked_def)
    ultimately show "\<not> str_contains s v" using n by (elim disjE exE) simp_all
  qed simp
qed


definition ui_run_config :: run_config where
  "ui_run_config = \<lparr>rc_Request = ui_request, rc_VUs = 5, rc_Duration = ''30s'', rc_MinStatus = 0, rc_MaxStatus = 0,
     rc_P95Ms = Fin 5, rc_MaxErrorPct = Fin 0, rc_Authorized = True\<rparr>"

definition ui_opts :: ui_options where
  "ui_opts = \<lparr>uo_Limits = ui_limits, uo_Version = ''1.0''\<rparr>"

lemma ui_run_config_valid: "\<exists>p. ui_validate ui_lib (uo_Limits (uc_opts (NewController ui_opts))) ui_run_config = Inr p"
proof -
  have l: "uo_Limits (uc_opts (NewController ui_opts)) = ui_limits"
    by (simp add: NewController_def ui_opts_def ui_limits_def second_def)
  note d = ParseDuration_30s
  have f: "rc_Request ui_run_config = ui_request" "rc_VUs ui_run_config = 5" "rc_Duration ui_run_config = ''30s''"
    "rc_MinStatus ui_run_config = 0" "rc_MaxStatus ui_run_config = 0" "rc_P95Ms ui_run_config = Fin 5"
    "rc_MaxErrorPct ui_run_config = Fin 0" "rc_Authorized ui_run_config = True" by (simp_all add: ui_run_config_def)
  have m: "lim_MaxVUs ui_limits = 50" "lim_MaxDuration ui_limits = 300 * second" by (simp_all add: ui_limits_def)
  show ?thesis unfolding l ui_validate_def f ui_request_accepted d m by (simp add: second_def)
qed


section \<open>The controller gets free again\<close>

lemma Start_validated:
  "ui_validate lb (uo_Limits (uc_opts ctl)) c = Inr p \<Longrightarrow>
   fst (ui_Start lb srt newid now c ctl) = (if is_running ctl then Inl Busy else Inr newid)"
  by (simp add: ui_Start_def Let_def new_run_def)

lemma execute_end_idle: "\<not> is_running (execute_end json html now res ctl r)" "uc_opts (execute_end json html now res ctl r) = uc_opts ctl"
  by (auto simp: execute_end_def is_running_def Let_def split: sum.split option.split)

lemma Cancel_ends_context:
  assumes "uc_cur ctl = Some r"
  shows "(case ui_Cancel (ur_id r) ctl of (err, ctl') \<Rightarrow> err = None \<and> (\<exists>r'. uc_cur ctl' = Some r' \<and> ur_ctxDone r'))"
  using assms by (simp add: ui_Cancel_def ui_get_def Let_def)

lemma ended_final:
  assumes "ui_step lb srt json html e ctl ctl'" "uc_cur ctl = Some r" "ur_state r \<noteq> StateRunning" "\<not> (\<exists>c. e = EvStarted c)"
  shows "\<exists>r'. uc_cur ctl' = Some r' \<and> r'\<lparr>ur_ctxDone := True\<rparr> = r\<lparr>ur_ctxDone := True\<rparr>"
  using assms(1)
proof (cases rule: ui_step.cases)
  case (refused newid now c err)
  then have "ctl' = ctl" by (auto simp: ui_Start_def Let_def split: sum.splits if_splits)
  then show ?thesis using assms(2) by blast
next
  case (cancelled rid err)
  then show ?thesis using assms(2,3) by (auto simp: ui_Cancel_def ui_get_def Let_def split: if_splits)
qed (use assms in auto)

text \<open>C31: The controller gets free again. Whenever a run is running, the page can cancel it, which ends its
  context; as soon as the runner returns, whatever it returns, the controller is free and starts the next
  accepted form; until then every accepted form is refused as busy. A run that has ended never
  changes.\<close>

theorem controller_progress:
  assumes "ui_history lb srt json html (NewController opts) es ctl"
    and "ui_validate lb (uo_Limits (uc_opts (NewController opts))) c = Inr p"
  shows "if is_running ctl
    then fst (ui_Start lb srt newid now c ctl) = Inl Busy \<and>
      (\<exists>r. uc_cur ctl = Some r \<and>
         (case ui_Cancel (ur_id r) ctl of (err, ctl') \<Rightarrow> err = None \<and> (\<exists>r'. uc_cur ctl' = Some r' \<and> ur_ctxDone r')) \<and>
         (\<forall>res. \<exists>ctl'. ui_step lb srt json html (EvEnded res) ctl ctl' \<and> fst (ui_Start lb srt newid now c ctl') = Inr newid))
    else fst (ui_Start lb srt newid now c ctl) = Inr newid \<and>
      (\<forall>r e ctl'. if uc_cur ctl = Some r \<and> ui_step lb srt json html e ctl ctl' \<and> (\<nexists>c. e = EvStarted c)
         then \<exists>r'. uc_cur ctl' = Some r' \<and> r'\<lparr>ur_ctxDone := True\<rparr> = r\<lparr>ur_ctxDone := True\<rparr> else True)"
proof -
  have lm: "uo_Limits (uc_opts ctl) = uo_Limits (uc_opts (NewController opts))"
    using ctl_inv_history [OF assms(1) NewController_idle(1)] by (simp add: ctl_inv_def)
  show ?thesis
  proof (cases "is_running ctl")
    case True
    then obtain r where r: "uc_cur ctl = Some r" "ur_state r = StateRunning" by (auto simp: is_running_def split: option.splits)
    have "\<exists>ctl'. ui_step lb srt json html (EvEnded res) ctl ctl' \<and> fst (ui_Start lb srt newid now c ctl') = Inr newid" for res
      using ui_step.ended [OF r, of lb srt json html res now] execute_end_idle [of json html now res ctl r] assms(2) lm
      by (intro exI [of _ "execute_end json html now res ctl r"]) (simp add: Start_validated)
    then show ?thesis using True r(1) assms(2) lm Cancel_ends_context [OF r(1)] by (simp add: Start_validated)
  next
    case False
    then have "ur_state r \<noteq> StateRunning" if "uc_cur ctl = Some r" for r using that by (simp add: is_running_def)
    then show ?thesis using False assms(2) lm ended_final by (auto simp: Start_validated)
  qed
qed

theorem controller_progress_witness:
  "fst (ui_Start ui_lib longest_first ''r1'' 0 ui_run_config (NewController ui_opts)) = Inr ''r1''"
proof -
  obtain p where p: "ui_validate ui_lib (uo_Limits (uc_opts (NewController ui_opts))) ui_run_config = Inr p" using ui_run_config_valid by blast
  show ?thesis
    using controller_progress [OF ui_history.begins [of ui_lib longest_first "\<lambda>_ _. None" "\<lambda>_ _. None" "NewController ui_opts"] p,
        of "''r1''" 0] NewController_idle(2) [of ui_opts] by simp
qed

section \<open>The run of a form\<close>

text \<open>The options the fixed script exports.\<close>

definition run_ts_options :: "plan \<Rightarrow> options" where
  "run_ts_options p = options_zero\<lparr>o_Thresholds := pl_Thresholds p\<rparr>"

lemma plan_bounds:
  "ui_validate lb lm c = Inr p \<Longrightarrow> pl_VUs p = rc_VUs c \<and> 1 \<le> pl_VUs p \<and> pl_VUs p \<le> lim_MaxVUs lm \<and>
   second \<le> pl_Duration p \<and> pl_Duration p \<le> lim_MaxDuration lm \<and> ParseDuration (TrimSpace (rc_Duration c)) = Some (pl_Duration p) \<and>
   100 \<le> pl_MinStatus p \<and> pl_MinStatus p \<le> pl_MaxStatus p \<and> pl_MaxStatus p \<le> 599 \<and> rc_Authorized c \<and>
   pl_Thresholds p = plan_thresholds lb c"
  by (auto simp: ui_validate_def Let_def not_less split: sum.splits if_splits option.splits prod.splits)

lemma hasEnv_none [simp]: "hasEnv Map.empty name = False"
  by (simp add: hasEnv_def)

lemma resolve_flags:
  assumes "1 \<le> n" "n < 2 ^ 63" "0 < d" "d < 2 ^ 63"
  shows "\<exists>cfg. Resolve c \<lparr>ov_VUs = Some n, ov_Duration = Some d\<rparr> Map.empty (options_zero\<lparr>o_Thresholds := ths\<rparr>) = Inr cfg \<and>
    c_VUs cfg = n \<and> c_Duration cfg = d \<and> c_Script cfg = c_Script c \<and> c_GracefulStop cfg = c_GracefulStop c \<and>
    c_Scenarios cfg = shorthand n d (c_GracefulStop c) \<and> \<not> c_ScenariosReplaced cfg"
proof -
  have v: "resolve_vus \<lparr>ov_VUs = Some n, ov_Duration = Some d\<rparr> Map.empty (options_zero\<lparr>o_Thresholds := ths\<rparr>) = Inr n"
    using assms(1) by (simp add: resolve_vus_def)
  have t: "resolve_duration \<lparr>ov_VUs = Some n, ov_Duration = Some d\<rparr> Map.empty (options_zero\<lparr>o_Thresholds := ths\<rparr>) = Inr d"
    using assms(3) by (simp add: resolve_duration_def)
  have s: "resolveScenarios (options_zero\<lparr>o_Thresholds := ths\<rparr>) b n d g = Inr (shorthand n d g, False)" for b g
    by (simp add: resolveScenarios_def options_zero_def)
  have o: "o_SetupTimeout (options_zero\<lparr>o_Thresholds := ths\<rparr>) = None" "o_TeardownTimeout (options_zero\<lparr>o_Thresholds := ths\<rparr>) = None"
    by (simp_all add: options_zero_def)
  have m: "wrap64 n = n" "wrap64 d = d" using assms by (simp_all add: wrap64_nonneg_id)
  have "cs_MaxVUs (hd (shorthand n d g)) = n \<and> cs_StartTime (hd (shorthand n d g)) = 0 \<and> cs_Length (hd (shorthand n d g)) = d" for g
    by (simp add: shorthand_def cs_MaxVUs_def cs_Length_def cfg_scenario_zero_def exec_ConstantVUs_def exec_RampingVUs_def exec_ConstantArrivalRate_def)
  then have f: "foldl (\<lambda>(n, d) s. (wrap64 (n + cs_MaxVUs s), max d (wrap64 (cs_StartTime s + cs_Length s)))) (0, 0) (shorthand n d g) = (n, d)" for g
    using m assms by (simp add: shorthand_def)
  show ?thesis unfolding Resolve_def v t s sum.case Let_def prod.case f o by (simp add: resolve_timeout_def)
qed

lemma form_expr:
  assumes "agg_form a g" "signed_decimal n"
  shows "parseExpr name m (a @ ''<'' @ n) = parsed name m (a @ ''<'' @ n) a g ''<'' n"
proof (rule parseExpr_form)
  have "ws []" by (simp add: ws_def)
  then show "expr_form (a @ ''<'' @ n) a g ''<'' n"
    using expr_formI [of "[]" "[]" "[]" "[]" a g "''<''" n] assms by (simp add: ops_def)
qed

lemma form_aggs: "agg_form ''p(95)'' (Some ''95'')" "agg_form ''rate'' None" "ParseFloat ''95'' = Fin 95"
proof -
  have "decimal ''95''" by (simp add: decimal_def digits_def digit_bytes byte_def)
  moreover have "ws []" by (simp add: ws_def)
  moreover have "''p(95)'' = ''p('' @ [] @ ''95'' @ [] @ '')''" by simp
  ultimately show "agg_form ''p(95)'' (Some ''95'')" unfolding agg_form_def by blast
  show "agg_form ''rate'' None" by (simp add: agg_form_def simple_aggs_def)
  have "ParseFloat ''95'' = f64_of_int 95"
    by (simp add: ParseFloat_def decimal_val_def digits_val_def digit_val_def byte_def f64_of_int_def)
  then show "ParseFloat ''95'' = Fin 95" by (simp add: f64_of_int_exact)
qed

text \<open>What the thresholds of the form say.\<close>

definition form_thresholds :: "lib \<Rightarrow> run_config \<Rightarrow> (string \<times> string \<times> f64 \<times> string \<times> f64) list" where
  "form_thresholds lb c =
     (if f64_lt (Fin 0) (rc_P95Ms c) then [(''http_req_duration'', ''p'', Fin 95, ''<'', ParseFloat (lb_format_g lb (rc_P95Ms c)))] else []) @
     (if f64_lt (Fin 0) (rc_MaxErrorPct c)
      then [(''http_req_failed'', ''rate'', Fin 0, ''<'', ParseFloat (lb_format_g lb (f64_div (rc_MaxErrorPct c) (Fin 100))))] else [])"

lemma known_form: "map_of known ''http_req_duration'' \<noteq> None" "''p'' \<in> set (mt_aggregates (the (map_of known ''http_req_duration'')))"
  "map_of known ''http_req_failed'' \<noteq> None" "''rate'' \<in> set (mt_aggregates (the (map_of known ''http_req_failed'')))"
  by (simp_all add: known_def duration_aggs_def)

lemma form_parse_one:
  assumes "signed_decimal n"
  shows "\<exists>t. parse_one [] (''http_req_duration'', [''p(95)<'' @ n]) = [Inr t] \<and>
      (th_Metric t, th_agg t, th_p t, th_op t, th_limit t) = (''http_req_duration'', ''p'', Fin 95, ''<'', ParseFloat n)"
    "\<exists>t. parse_one [] (''http_req_failed'', [''rate<'' @ n]) = [Inr t] \<and>
      (th_Metric t, th_agg t, th_p t, th_op t, th_limit t) = (''http_req_failed'', ''rate'', Fin 0, ''<'', ParseFloat n)"
proof -
  obtain m1 m2 where m: "map_of known ''http_req_duration'' = Some m1" "''p'' \<in> set (mt_aggregates m1)"
    "map_of known ''http_req_failed'' = Some m2" "''rate'' \<in> set (mt_aggregates m2)" using known_form by auto
  have e: "''p(95)<'' @ n = ''p(95)'' @ ''<'' @ n" "''rate<'' @ n = ''rate'' @ ''<'' @ n" by simp_all
  have r: "\<not> (f64_le (Fin 95) (Fin 0) \<or> f64_lt (Fin 100) (Fin 95))" by (simp add: f64_le_def f64_eq_def)
  show "\<exists>t. parse_one [] (''http_req_duration'', [''p(95)<'' @ n]) = [Inr t] \<and>
      (th_Metric t, th_agg t, th_p t, th_op t, th_limit t) = (''http_req_duration'', ''p'', Fin 95, ''<'', ParseFloat n)"
    unfolding parse_one_def metric_for_def prod.case m option.case list.map e form_expr [OF form_aggs(1) assms] parsed_def Let_def form_aggs(3)
    using r m(2) by simp
  show "\<exists>t. parse_one [] (''http_req_failed'', [''rate<'' @ n]) = [Inr t] \<and>
      (th_Metric t, th_agg t, th_p t, th_op t, th_limit t) = (''http_req_failed'', ''rate'', Fin 0, ''<'', ParseFloat n)"
    unfolding parse_one_def metric_for_def prod.case m option.case list.map e form_expr [OF form_aggs(2) assms] parsed_def Let_def
    using m(4) by simp
qed

lemma form_parse:
  assumes "signed_decimal (lb_format_g lb (rc_P95Ms c))" "signed_decimal (lb_format_g lb (f64_div (rc_MaxErrorPct c) (Fin 100)))"
  shows "\<exists>ts. Parse (plan_thresholds lb c) [] = Inr ts \<and>
    map (\<lambda>t. (th_Metric t, th_agg t, th_p t, th_op t, th_limit t)) ts = form_thresholds lb c"
proof -
  have "''http_req_duration'' \<le> ''http_req_failed''" by code_simp
  then have srt: "sort_key fst (plan_thresholds lb c) = plan_thresholds lb c"
    by (intro sort_key_id_if_sorted) (simp add: plan_thresholds_def)
  show ?thesis
    using form_parse_one(1) [OF assms(1)] form_parse_one(2) [OF assms(2)]
    by (elim exE conjE, simp only: Parse_def srt Let_def)
      (simp add: plan_thresholds_def form_thresholds_def lefts_def rights_def)
qed

text \<open>The run of a form. An accepted form has 1 to the maximum of VUs, a duration of a second to the
  maximum and a status range within 100 to 599. The settings the runner resolves from it are its own:
  its VUs, its duration and one constant-vus scenario with the request timeout as graceful stop, and
  they are valid; the HTTP client has a connection per VU, uses no proxy and connects to public addresses
  only unless private ones are allowed. If \<open>%g\<close> prints the limits as decimals, its thresholds are
  accepted and mean what the form says.\<close>

theorem form_runs:
  assumes "ui_validate lb lm c = Inr p" "uo_Limits opts = lm" "lim_MaxVUs lm < 2 ^ 63" "0 < lim_RequestTimeout lm"
    and "signed_decimal (lb_format_g lb (rc_P95Ms c))" "signed_decimal (lb_format_g lb (f64_div (rc_MaxErrorPct c) (Fin 100)))"
  shows "1 \<le> pl_VUs p \<and> pl_VUs p \<le> lim_MaxVUs lm \<and> second \<le> pl_Duration p \<and> pl_Duration p \<le> lim_MaxDuration lm \<and>
    100 \<le> pl_MinStatus p \<and> pl_MinStatus p \<le> pl_MaxStatus p \<and> pl_MaxStatus p \<le> 599 \<and> rc_Authorized c \<and>
    (let q = ui_params opts (ui_script_path dir) cfgJSON headersJSON p in
      \<exists>cfg. Resolve (p_Config q) (p_Overrides q) (p_Getenv q) (run_ts_options p) = Inr cfg \<and> Config_Validate cfg = [] \<and>
        c_Scenarios cfg = shorthand (pl_VUs p) (pl_Duration p) (lim_RequestTimeout lm) \<and>
        c_VUs cfg = pl_VUs p \<and> c_Duration cfg = pl_Duration p \<and>
        (\<exists>co. client_created q cfg = ClientCreated co \<and> co_MaxConnsPerHost co = pl_VUs p \<and> co_Timeout co = lim_RequestTimeout lm \<and>
           co_NoProxy co \<and> (co_DialControl co \<longleftrightarrow> \<not> lim_AllowPrivate lm))) \<and>
    (\<exists>ts. Parse (o_Thresholds (run_ts_options p)) [] = Inr ts \<and>
       map (\<lambda>t. (th_Metric t, th_agg t, th_p t, th_op t, th_limit t)) ts = form_thresholds lb c)"
proof -
  note b = plan_bounds [OF assms(1)]
  have d: "pl_Duration p < 2 ^ 63" using ParseDuration_in64 b by (auto simp: in64_def)
  have s: "0 < second" by (simp add: second_def)
  let ?c = "config_zero\<lparr>c_Script := ui_script_path dir, c_GracefulStop := lim_RequestTimeout lm\<rparr>"
  obtain cfg where r: "Resolve ?c \<lparr>ov_VUs = Some (pl_VUs p), ov_Duration = Some (pl_Duration p)\<rparr> Map.empty (run_ts_options p) = Inr cfg"
    and f: "c_VUs cfg = pl_VUs p" "c_Duration cfg = pl_Duration p" "c_Script cfg = ui_script_path dir"
      "c_GracefulStop cfg = lim_RequestTimeout lm" "c_Scenarios cfg = shorthand (pl_VUs p) (pl_Duration p) (lim_RequestTimeout lm)"
    using resolve_flags [of "pl_VUs p" "pl_Duration p" ?c "pl_Thresholds p"] b d s assms(3)
    by (auto simp: run_ts_options_def)
  have v: "Config_Validate cfg = []" using b s assms(4) by (simp add: Config_Validate_def f ui_script_path_def)
  have o: "o_Thresholds (run_ts_options p) = plan_thresholds lb c" using b by (simp add: run_ts_options_def)
  have t: "\<exists>ts. Parse (o_Thresholds (run_ts_options p)) [] = Inr ts \<and>
       map (\<lambda>t. (th_Metric t, th_agg t, th_p t, th_op t, th_limit t)) ts = form_thresholds lb c"
    unfolding o by (rule form_parse [OF assms(5,6)])
  show ?thesis using b r v f t assms(2,4) unfolding Let_def
    by (intro conjI exI [of _ cfg]) (simp_all add: ui_params_def client_created_def)
qed

theorem form_runs_witness:
  "\<exists>p cfg. ui_validate ui_lib ui_limits ui_run_config = Inr p \<and> pl_VUs p = 5 \<and>
     Resolve (p_Config (ui_params ui_opts (ui_script_path ''/tmp'') ''{}'' ''{}'' p)) (p_Overrides (ui_params ui_opts (ui_script_path ''/tmp'') ''{}'' ''{}'' p))
       (p_Getenv (ui_params ui_opts (ui_script_path ''/tmp'') ''{}'' ''{}'' p)) (run_ts_options p) = Inr cfg \<and> c_VUs cfg = 5"
proof -
  have l: "uo_Limits (uc_opts (NewController ui_opts)) = ui_limits"
    by (simp add: NewController_def ui_opts_def ui_limits_def second_def)
  obtain p where p: "ui_validate ui_lib ui_limits ui_run_config = Inr p" using ui_run_config_valid l by auto
  have "decimal ''5''" by (simp add: decimal_def digits_def digit_bytes byte_def)
  then have d: "signed_decimal (lb_format_g ui_lib x)" for x by (simp add: ui_lib_def signed_decimal_def)
  have o: "uo_Limits ui_opts = ui_limits" "lim_MaxVUs ui_limits < 2 ^ 63" "0 < lim_RequestTimeout ui_limits"
    by (simp_all add: ui_opts_def ui_limits_def second_def)
  have "pl_VUs p = 5" using plan_bounds [OF p] by (simp add: ui_run_config_def)
  moreover obtain cfg where "Resolve (p_Config (ui_params ui_opts (ui_script_path ''/tmp'') ''{}'' ''{}'' p))
      (p_Overrides (ui_params ui_opts (ui_script_path ''/tmp'') ''{}'' ''{}'' p))
      (p_Getenv (ui_params ui_opts (ui_script_path ''/tmp'') ''{}'' ''{}'' p)) (run_ts_options p) = Inr cfg" "c_VUs cfg = pl_VUs p"
    using form_runs [OF p o d d, of "''/tmp''" "''{}''" "''{}''"] unfolding Let_def by blast
  ultimately show ?thesis using p by (intro exI [of _ p] exI [of _ cfg]) simp
qed

text \<open>The preview is cut before it is redacted, so a secret that the cut splits is shown in part.\<close>

lemma preview_cuts_secrets:
  assumes "send = (\<lambda>_. \<lparr>sr_Status = 200, sr_Proto = ''HTTP/1.1'', sr_Duration = 0, sr_Err = None, sr_Header = [],
      sr_Body = replicate 2045 CHR ''y'' @ ''abcdef''\<rparr>)"
  shows "\<exists>pv. Preflight ui_lib longest_first send ui_request (NewController ui_opts) = Inr pv \<and> str_contains (pv_Body pv) ''abc''"
proof -
  let ?b = "replicate 2045 CHR ''y'' @ ''abc''"
  let ?ss = "[''s3 cret'', ''s3+cret'', ''abcdef'', ''tok123'']"
  have l: "uo_Limits (uc_opts (NewController ui_opts)) = ui_limits"
    by (simp add: NewController_def ui_opts_def ui_limits_def second_def)
  have c: "take (nat previewBytes) (replicate 2045 CHR ''y'' @ ''abcdef'') = ?b"
    "previewBytes < int (length (replicate 2045 CHR ''y'' @ ''abcdef''))"
    by (simp_all add: previewBytes_def)
  have ss: "set (newRedactor longest_first ?ss) \<subseteq> set ?ss" using newRedactor_set [OF longest_first_sorts, of ?ss] by blast
  have "\<not> str_contains ?b v" if "v \<in> set ?ss" for v
  proof -
    have "v \<noteq> []" "set v \<inter> set (replicate 2045 CHR ''y'') = {}" using that by auto
    then have "str_contains ?b v = str_contains ''abc'' v" by (rule contains_after)
    moreover have "\<not> str_contains ''abc'' v" using that contains_longer [of "''abc''" v] by auto
    ultimately show ?thesis by simp
  qed
  then have r: "redact_text (newRedactor longest_first ?ss) ?b = ?b"
    using ss by (intro redact_none) (auto simp: list_all_iff)
  have "str_contains ?b ''abc''" unfolding str_contains_iff by (intro exI [of _ "replicate 2045 CHR ''y''"] exI [of _ "[]"]) simp
  then show ?thesis
    unfolding Preflight_def l ui_request_accepted sum.case assms Let_def send_result.simps option.case request.simps r c if_True
      if_P [OF c(2)] by simp
qed

end
