(* ===== verification/Ui_Server.thy ===== *)
theory Ui_Server
  imports Ui_Controller
begin

text \<open>
  The HTTP interface of the UI: \<open>internal/ui/server.go\<close>. \<open>ServeHTTP\<close> refuses a foreign host, a foreign
  origin, a missing token and a body that is not JSON before it looks at the request; the handlers call
  the controller. \<open>http.ServeMux\<close>, \<open>mime.ParseMediaType\<close> and the JSON decoder are arguments.
\<close>

record server =
  sv_token :: string
  sv_hosts :: "string list"

definition NewServer :: "string \<Rightarrow> string list \<Rightarrow> server" where
  "NewServer token hosts = \<lparr>sv_token = token, sv_hosts = map ToLower hosts\<rparr>"

record http_request =
  hr_Method :: string
  hr_Host :: string
  hr_Path :: string
  hr_Origin :: string
  hr_Token :: string
  hr_ContentType :: string
  hr_Body :: string

text \<open>What the mux matched, with the id of the path; \<open>RouteOther\<close> is a file, a redirect or the mux's own
  refusal.\<close>

datatype route =
    RoutePreflight
  | RouteStart
  | RouteStatus string
  | RouteCancel string
  | RouteReport string
  | RouteOther

datatype ui_body =
    PlainText string
  | ErrorJSON string
  | ErrorOf ui_error
  | RequestErrorOf request_error
  | PreviewJSON preview
  | IdJSON string
  | StatusJSON status
  | ReportFile string string
  | NoBody
  | MuxAnswer

text \<open>The mux, the media type of a Content-Type header, the two decoders (over the limited body, with their
  errors), and what the controller's operations take from outside.\<close>

record server_env =
  se_mux :: "http_request \<Rightarrow> route"
  se_mediaType :: "string \<Rightarrow> string"
  se_decodeRequest :: "string \<Rightarrow> string + api_request"
  se_decodeRun :: "string \<Rightarrow> string + run_config"
  se_lib :: lib
  se_sort :: "string list \<Rightarrow> string list"
  se_send :: "request \<Rightarrow> send_result"
  se_newID :: string
  se_now :: int
  se_rfc3339 :: "int \<Rightarrow> string"

definition handle_preflight :: "server_env \<Rightarrow> http_request \<Rightarrow> ui_controller \<Rightarrow> int \<times> ui_body" where
  "handle_preflight ev r ctl = (case se_decodeRequest ev (hr_Body r) of
       Inl e \<Rightarrow> (400, ErrorJSON (''invalid request: '' @ e))
     | Inr req \<Rightarrow> (case Preflight (se_lib ev) (se_sort ev) (se_send ev) req ctl of
         Inl e \<Rightarrow> (400, RequestErrorOf e)
       | Inr pv \<Rightarrow> (200, PreviewJSON pv)))"

definition handle_start :: "server_env \<Rightarrow> http_request \<Rightarrow> ui_controller \<Rightarrow> (int \<times> ui_body) \<times> ui_controller" where
  "handle_start ev r ctl = (case se_decodeRun ev (hr_Body r) of
       Inl e \<Rightarrow> ((400, ErrorJSON (''invalid request: '' @ e)), ctl)
     | Inr c \<Rightarrow> (case ui_Start (se_lib ev) (se_sort ev) (se_newID ev) (se_now ev) c ctl of
         (Inl e, ctl') \<Rightarrow> ((if e = Busy then 409 else 400, ErrorOf e), ctl')
       | (Inr rid, ctl') \<Rightarrow> ((202, IdJSON rid), ctl')))"

definition handle_status :: "server_env \<Rightarrow> string \<Rightarrow> ui_controller \<Rightarrow> int \<times> ui_body" where
  "handle_status ev rid ctl = (case ui_Status (se_rfc3339 ev) (se_now ev) rid ctl of
       Inl e \<Rightarrow> (404, ErrorOf e)
     | Inr st \<Rightarrow> (200, StatusJSON st))"

definition handle_cancel :: "string \<Rightarrow> ui_controller \<Rightarrow> (int \<times> ui_body) \<times> ui_controller" where
  "handle_cancel rid ctl = (case ui_Cancel rid ctl of
       (Some e, ctl') \<Rightarrow> ((404, ErrorOf e), ctl')
     | (None, ctl') \<Rightarrow> ((204, NoBody), ctl'))"

definition handle_report :: "http_request \<Rightarrow> string \<Rightarrow> ui_controller \<Rightarrow> int \<times> ui_body" where
  "handle_report r rid ctl =
     (let html = has_suffix (hr_Path r) ''.html'';
          kind = (if html then ''html'' else ''json'');
          ctype = (if html then ''text/html; charset=utf-8'' else ''application/json'')
      in case ui_Report rid kind ctl of
           Inl e \<Rightarrow> (if e = NotFound then 404 else 409, ErrorOf e)
         | Inr b \<Rightarrow> (200, ReportFile ctype b))"

definition serve_route :: "server_env \<Rightarrow> http_request \<Rightarrow> ui_controller \<Rightarrow> (int \<times> ui_body) \<times> ui_controller" where
  "serve_route ev r ctl = (case se_mux ev r of
       RoutePreflight \<Rightarrow> (handle_preflight ev r ctl, ctl)
     | RouteStart \<Rightarrow> handle_start ev r ctl
     | RouteStatus rid \<Rightarrow> (handle_status ev rid ctl, ctl)
     | RouteCancel rid \<Rightarrow> handle_cancel rid ctl
     | RouteReport rid \<Rightarrow> (handle_report r rid ctl, ctl)
     | RouteOther \<Rightarrow> ((200, MuxAnswer), ctl))"

definition api_prefix :: string where "api_prefix = ''/api/''"

definition ServeHTTP :: "server_env \<Rightarrow> server \<Rightarrow> http_request \<Rightarrow> ui_controller \<Rightarrow> (int \<times> ui_body) \<times> ui_controller" where
  "ServeHTTP ev s r ctl =
     (if ToLower (hr_Host r) \<notin> set (sv_hosts s) then ((421, PlainText ''unexpected Host''), ctl)
      else if hr_Origin r \<noteq> [] \<and> ToLower (trim_prefix (hr_Origin r) ''http://'') \<notin> set (sv_hosts s)
      then ((403, PlainText ''cross-origin request refused''), ctl)
      else if has_prefix (hr_Path r) api_prefix \<and> hr_Token r \<noteq> sv_token s
      then ((401, ErrorJSON ''missing or wrong session token: open the URL loadtool ui printed''), ctl)
      else if has_prefix (hr_Path r) api_prefix \<and> hr_Method r = ''POST'' \<and> se_mediaType ev (hr_ContentType r) \<noteq> ''application/json''
      then ((415, ErrorJSON ''send JSON''), ctl)
      else serve_route ev r ctl)"

section \<open>Who is served\<close>

definition trusted :: "server \<Rightarrow> http_request \<Rightarrow> bool" where
  "trusted s r \<longleftrightarrow> ToLower (hr_Host r) \<in> set (sv_hosts s) \<and>
     (if hr_Origin r = [] then True else ToLower (trim_prefix (hr_Origin r) ''http://'') \<in> set (sv_hosts s))"

text \<open>The mux serves the API under its prefix only, and starts, cancels and previews for POST only.\<close>

definition mux_ok :: "(http_request \<Rightarrow> route) \<Rightarrow> bool" where
  "mux_ok mux \<longleftrightarrow> (\<forall>r. (mux r \<noteq> RouteOther \<longrightarrow> has_prefix (hr_Path r) api_prefix) \<and>
     ((mux r = RouteStart \<or> mux r = RoutePreflight \<or> (\<exists>rid. mux r = RouteCancel rid)) \<longrightarrow> hr_Method r = ''POST''))"

definition reveals :: "ui_body \<Rightarrow> bool" where
  "reveals b \<longleftrightarrow> (case b of PreviewJSON _ \<Rightarrow> True | IdJSON _ \<Rightarrow> True | StatusJSON _ \<Rightarrow> True | ReportFile _ _ \<Rightarrow> True | ErrorOf _ \<Rightarrow> True
     | RequestErrorOf _ \<Rightarrow> True | _ \<Rightarrow> False)"

lemma route_unchanged: "se_mux ev r \<noteq> RouteStart \<Longrightarrow> (\<And>rid. se_mux ev r \<noteq> RouteCancel rid) \<Longrightarrow> snd (serve_route ev r ctl) = ctl"
  by (simp add: serve_route_def split: route.split)


definition example_server :: server where
  "example_server = NewServer ''t0k'' [''127.0.0.1:7878'']"

definition rebinding_request :: http_request where
  "rebinding_request = \<lparr>hr_Method = ''POST'', hr_Host = ''evil.example'', hr_Path = ''/api/runs'', hr_Origin = [],
     hr_Token = ''t0k'', hr_ContentType = ''application/json'', hr_Body = []\<rparr>"

definition example_env :: server_env where
  "example_env = \<lparr>se_mux = (\<lambda>r. if hr_Path r = ''/api/runs'' \<and> hr_Method r = ''POST'' then RouteStart else RouteOther),
     se_mediaType = (\<lambda>t. t), se_decodeRequest = (\<lambda>_. Inl []), se_decodeRun = (\<lambda>_. Inr ui_run_config), se_lib = ui_lib,
     se_sort = longest_first, se_send = (\<lambda>_. \<lparr>sr_Status = 0, sr_Proto = [], sr_Duration = 0, sr_Err = None, sr_Header = [], sr_Body = []\<rparr>),
     se_newID = ''r1'', se_now = 0, se_rfc3339 = (\<lambda>_. [])\<rparr>"


end
