(* ===== verification/Ui_Command.thy ===== *)
theory Ui_Command
  imports Ui_Server
begin

text \<open>
  \<open>loadtool ui\<close>: \<open>Controller.Close\<close> of \<open>internal/ui/controller.go\<close> and the command of \<open>internal/cli/ui.go\<close>, which
  serves the page on the loopback interface until it is interrupted and then stops the run, the server and itself
  in that order. The listener, the HTTP server and the signals are arguments.
\<close>

section \<open>Closing the controller\<close>

text \<open>Polling: \<open>running n\<close> is what \<open>status\<close> says at the \<open>n\<close>th look, \<open>now n\<close> the clock then; between two looks the
  code sleeps 20 ms. The number of looks at which it stops; \<open>None\<close> when it never does.\<close>

partial_function (option) close_wait :: "(nat \<Rightarrow> bool) \<Rightarrow> (nat \<Rightarrow> int) \<Rightarrow> int \<Rightarrow> nat \<Rightarrow> nat option" where
  [code]: "close_wait running now deadline n =
     (if running n \<and> now n < deadline then close_wait running now deadline (Suc n) else Some n)"

text \<open>The controller after the cancellation, and the looks taken.\<close>

definition ui_Close :: "(nat \<Rightarrow> bool) \<Rightarrow> (nat \<Rightarrow> int) \<Rightarrow> int \<Rightarrow> duration \<Rightarrow> ui_controller \<Rightarrow> ui_controller \<times> nat option" where
  "ui_Close running now start timeout ctl = (case uc_cur ctl of
       None \<Rightarrow> (ctl, Some 0)
     | Some r \<Rightarrow>
         (let ctl = (if ur_state r = StateRunning then snd (ui_Cancel (ur_id r) ctl) else ctl)
          in (ctl, close_wait running now (start + timeout) 0)))"

definition pollEvery :: duration where "pollEvery = 20000000"

lemma close_wait_goes: "running n \<Longrightarrow> now n < deadline \<Longrightarrow> close_wait running now deadline n = close_wait running now deadline (Suc n)"
  by (subst close_wait.simps) simp

lemma close_wait_stops: "\<not> (running n \<and> now n < deadline) \<Longrightarrow> close_wait running now deadline n = Some n"
  by (subst close_wait.simps) auto

text \<open>A clock that advances at least 20 ms per look.\<close>

definition sleeps :: "(nat \<Rightarrow> int) \<Rightarrow> bool" where
  "sleeps now \<longleftrightarrow> (\<forall>n. now n + pollEvery \<le> now (Suc n))"

lemma close_wait_ends:
  assumes "sleeps now"
  shows "\<exists>k\<ge>n. close_wait running now deadline n = Some k \<and> \<not> (running k \<and> now k < deadline) \<and>
    (\<forall>j. n \<le> j \<longrightarrow> j < k \<longrightarrow> running j \<and> now j < deadline)"
proof (induction "nat (deadline - now n)" arbitrary: n rule: less_induct)
  case less
  show ?case
  proof (cases "running n \<and> now n < deadline")
    case True
    have "now n + pollEvery \<le> now (Suc n)" using assms by (simp add: sleeps_def)
    then have "nat (deadline - now (Suc n)) < nat (deadline - now n)" using True by (simp add: pollEvery_def)
    from less [OF this] obtain k where k: "k \<ge> Suc n" "close_wait running now deadline (Suc n) = Some k"
      "\<not> (running k \<and> now k < deadline)" "\<forall>j. Suc n \<le> j \<longrightarrow> j < k \<longrightarrow> running j \<and> now j < deadline" by blast
    have "\<forall>j. n \<le> j \<longrightarrow> j < k \<longrightarrow> running j \<and> now j < deadline" using k(4) True le_less by (metis Suc_leI)
    moreover have "close_wait running now deadline n = Some k" using close_wait_goes True k(2) by simp
    ultimately show ?thesis using k(1,3) by (metis Suc_leD)
  next
    case False
    then show ?thesis using close_wait_stops by (metis order_refl not_less)
  qed
qed

lemma sleeps_from: "sleeps now \<Longrightarrow> now 0 + int k * pollEvery \<le> now k"
proof (induction k)
  case (Suc k)
  then have "now k + pollEvery \<le> now (Suc k)" by (simp add: sleeps_def)
  then show ?case using Suc by (simp add: algebra_simps)
qed simp

text \<open>Closing the controller returns: after at most one look per 20 ms of the timeout and one more. The context of a
  run that was running is cancelled first; when the wait ends, the run has ended or the timeout is over; and the
  run itself is left as it was.\<close>

theorem close_returns:
  assumes "sleeps now" "start \<le> now 0" "0 \<le> timeout"
  shows "(case ui_Close running now start timeout ctl of (ctl', looks) \<Rightarrow>
     (case uc_cur ctl of
        None \<Rightarrow> ctl' = ctl \<and> looks = Some 0
      | Some r \<Rightarrow>
          (\<exists>k. looks = Some k \<and> int k \<le> timeout div pollEvery + 1 \<and> (\<not> running k \<or> start + timeout \<le> now k)) \<and>
          (case uc_cur ctl' of None \<Rightarrow> False
           | Some r' \<Rightarrow> ur_id r' = ur_id r \<and> ur_state r' = ur_state r \<and>
               (if ur_state r = StateRunning then ur_ctxDone r' \<and> ur_cancelled r' else r' = r))))"
proof (cases "uc_cur ctl")
  case (Some r)
  obtain k where k: "close_wait running now (start + timeout) 0 = Some k" "\<not> (running k \<and> now k < start + timeout)"
    "\<forall>j. 0 \<le> j \<longrightarrow> j < k \<longrightarrow> running j \<and> now j < start + timeout"
    using close_wait_ends [OF assms(1), of 0 running "start + timeout"] by blast
  have "int k \<le> timeout div pollEvery + 1"
  proof (cases k)
    case (Suc i)
    then have "now i < start + timeout" using k(3) by simp
    then have "int i * pollEvery \<le> timeout" using sleeps_from [OF assms(1), of i] assms(2) by linarith
    then have "int i \<le> timeout div pollEvery" using zdiv_mono1 [of "int i * pollEvery" timeout pollEvery] by (simp add: pollEvery_def)
    then show ?thesis using Suc by simp
  qed (use assms(3) in \<open>simp add: pollEvery_def\<close>)
  moreover have "\<not> running k \<or> start + timeout \<le> now k" using k(2) by linarith
  ultimately show ?thesis
    using k(1) Some by (cases "ur_state r = StateRunning") (simp_all add: ui_Close_def ui_Cancel_def ui_get_def Let_def)
qed (simp add: ui_Close_def)

section \<open>The command\<close>

record ui_flags =
  uf_port :: int
  uf_limits :: limits

definition ui_flag_defaults :: ui_flags where
  "ui_flag_defaults = \<lparr>uf_port = 0, uf_limits = \<lparr>lim_MaxVUs = 50, lim_MaxDuration = 300 * second,
     lim_AllowPrivate = False, lim_RequestTimeout = 10 * second\<rparr>\<rparr>"

datatype serve_error = ErrServerClosed | ServeFailed string

datatype ui_action =
    Listened string
  | Serving server
  | WarnedPrivate
  | PrintedURL string
  | ControllerClosed duration
  | ShutDown

text \<open>What happens outside: the port the listener got or its error, the token, the error of a server that ends
  before an interrupt, the error of \<open>Shutdown\<close>, and what \<open>Serve\<close> returns after it.\<close>

record ui_world =
  uw_listen :: "string + int"
  uw_token :: string
  uw_ended :: "serve_error option"
  uw_shutdown :: "string option"
  uw_served :: serve_error

definition serve_text :: "serve_error \<Rightarrow> string" where
  "serve_text e = (case e of ErrServerClosed \<Rightarrow> ''http: Server closed'' | ServeFailed m \<Rightarrow> m)"

definition ui_RunE :: "ui_world \<Rightarrow> ui_flags \<Rightarrow> string \<Rightarrow> ui_action list \<times> string option \<times> ui_controller option" where
  "ui_RunE u fl version =
     (let addr = ''127.0.0.1:'' @ itoa (uf_port fl)
      in case uw_listen u of
           Inl e \<Rightarrow> ([Listened addr], Some e, None)
         | Inr p \<Rightarrow>
             (let ctl = NewController \<lparr>uo_Limits = uf_limits fl, uo_Version = version\<rparr>;
                  sv = NewServer (uw_token u) [''127.0.0.1:'' @ itoa p, ''localhost:'' @ itoa p];
                  begun = [Listened addr, Serving sv] @ (if lim_AllowPrivate (uf_limits fl) then [WarnedPrivate] else []) @
                    [PrintedURL (''LoadTool UI: http://127.0.0.1:'' @ itoa p @ ''/#token='' @ uw_token u @ [CHR 0x0A] @
                       ''(Ctrl+C to stop)'' @ [CHR 0x0A])]
              in case uw_ended u of
                   Some e \<Rightarrow> (begun, Some (serve_text e), Some ctl)
                 | None \<Rightarrow>
                     (let acts = begun @ [ControllerClosed (wrap64 (lim_RequestTimeout (uf_limits fl) + 5 * second)), ShutDown]
                      in case uw_shutdown u of
                           Some e \<Rightarrow> (acts, Some e, Some ctl)
                         | None \<Rightarrow> (acts, if uw_served u = ErrServerClosed then None else Some (serve_text (uw_served u)), Some ctl))))"

text \<open>The page is reachable only on the loopback interface, for the two names of the port that was opened, with the
  token that was printed; an interrupt stops the run before the server; the exit is without error exactly
  when an interrupt stopped a server that then closed cleanly.\<close>

lemma ui_command_exact:
  "(case ui_RunE u fl version of (acts, err, ctl) \<Rightarrow>
     (\<forall>sv. Serving sv \<in> set acts \<longrightarrow> sv_token sv = uw_token u \<and>
        (\<exists>p. uw_listen u = Inr p \<and> sv_hosts sv = map ToLower [''127.0.0.1:'' @ itoa p, ''localhost:'' @ itoa p])) \<and>
     (ShutDown \<in> set acts \<longleftrightarrow> (\<exists>p. uw_listen u = Inr p) \<and> uw_ended u = None) \<and>
     (ShutDown \<in> set acts \<longrightarrow> (\<exists>before d. acts = before @ [ControllerClosed d, ShutDown])) \<and>
     (err = None \<longleftrightarrow> (\<exists>p. uw_listen u = Inr p) \<and> uw_ended u = None \<and> uw_shutdown u = None \<and> uw_served u = ErrServerClosed))"
  by (cases "uw_listen u"; cases "uw_ended u"; cases "uw_shutdown u") (auto simp: ui_RunE_def NewServer_def Let_def)

text \<open>A request timeout of 0 means 10 s to the controller, and nothing to the command: it waits 5 s for a run whose
  last request may take 10.\<close>

lemma close_before_request_timeout:
  "lim_RequestTimeout (uf_limits fl) = 0 \<Longrightarrow> uw_listen u = Inr p \<Longrightarrow> uw_ended u = None \<Longrightarrow>
   (case ui_RunE u fl version of (acts, err, ctl) \<Rightarrow> ControllerClosed (5 * second) \<in> set acts \<and>
      (case ctl of None \<Rightarrow> False | Some c \<Rightarrow> lim_RequestTimeout (uo_Limits (uc_opts c)) = 10 * second))"
  by (auto simp: ui_RunE_def NewController_def Let_def second_def wrap64_def split: option.split)

end
