(* ===== verification/Config_Order.thy ===== *)
theory Config_Order
  imports Config_Options
begin

text \<open>
  Decoding the script's options does not depend on the order in which Go iterates its maps: two
  orders accept the same options, warn about the same keys and resolve to the same settings.
\<close>

section \<open>Scenarios and thresholds\<close>

definition permutes :: "((string \<times> json) list \<Rightarrow> (string \<times> json) list) \<Rightarrow> bool" where
  "permutes ord \<longleftrightarrow> (\<forall>xs. mset (ord xs) = mset xs)"

definition is_right :: "'a + 'b \<Rightarrow> bool" where
  "is_right r \<longleftrightarrow> (case r of Inl _ \<Rightarrow> False | Inr _ \<Rightarrow> True)"

lemma is_right_simps [simp]: "is_right (Inr x)" "\<not> is_right (Inl e)"
  by (simp_all add: is_right_def)

lemma is_right_iff: "is_right r \<longleftrightarrow> (\<exists>x. r = Inr x)"
  by (cases r) simp_all

definition entry_ok :: "string \<times> json \<Rightarrow> bool" where
  "entry_ok e \<longleftrightarrow> is_right (parse_entry (fst e) (snd e))"

definition entry_scenario :: "string \<times> json \<Rightarrow> string \<times> scenario_options" where
  "entry_scenario e = (fst e, fst (projr (parse_entry (fst e) (snd e))))"

definition entry_unknown :: "string \<times> json \<Rightarrow> string list" where
  "entry_unknown e = snd (projr (parse_entry (fst e) (snd e)))"

lemma parse_entries_spec:
  "if list_all entry_ok es
   then parse_entries es out unknown = Inr (out @ map entry_scenario es, unknown @ concat (map entry_unknown es))
   else \<not> is_right (parse_entries es out unknown)"
proof (induction es arbitrary: out unknown)
  case (Cons e es)
  obtain name v where e: "e = (name, v)" by (cases e)
  show ?case
  proof (cases "parse_entry name v")
    case (Inl err)
    then show ?thesis by (simp add: e entry_ok_def)
  next
    case (Inr r)
    obtain so ks where r: "r = (so, ks)" by (cases r)
    show ?thesis using Cons.IH [of "out @ [(name, so)]" "unknown @ ks"]
      by (cases "list_all entry_ok es") (simp_all add: e Inr r entry_ok_def [of "(name, v)"] entry_scenario_def entry_unknown_def)
  qed
qed simp

lemma list_all_perm: "mset xs = mset ys \<Longrightarrow> list_all P xs \<longleftrightarrow> list_all P ys"
  by (metis list_all_iff mset_eq_setD)

lemma sort_mset: "mset xs = mset ys \<Longrightarrow> sort xs = sort ys"
  by (metis sorted_list_of_multiset_mset)

lemma mset_concat_cong: "mset es = mset es' \<Longrightarrow> mset (concat (map f es)) = mset (concat (map f es'))"
proof -
  have "mset (concat (map f es)) = \<Sum>\<^sub># (image_mset (mset \<circ> f) (mset es))" for es by (induction es) simp_all
  moreover assume "mset es = mset es'"
  ultimately show ?thesis by simp
qed

lemma parseScenarios_perm:
  assumes "permutes ord" "permutes ord'" "parseScenarios ord raw = Inr (sc, u)"
  shows "\<exists>sc'. parseScenarios ord' raw = Inr (sc', u) \<and> mset sc' = mset sc \<and> distinct (map fst sc)"
proof -
  obtain es where es: "decode_map raw = Some (Some es)"
    using assms(3) by (auto simp: parseScenarios_def split: option.splits)
  have m: "mset (ord es) = mset es" "mset (ord' es) = mset es" using assms by (simp_all add: permutes_def)
  have ok: "list_all entry_ok (ord es)"
    using parse_entries_spec [of "ord es" "[]" "[]"] assms(3) es
    by (auto simp: parseScenarios_def is_right_def split: sum.splits if_splits)
  then have ok': "list_all entry_ok (ord' es)" using m list_all_perm [of "ord es" "ord' es"] by simp
  note p = parse_entries_spec [of "ord es" "[]" "[]", unfolded if_P [OF ok]]
    and p' = parse_entries_spec [of "ord' es" "[]" "[]", unfolded if_P [OF ok']]
  have sc: "sc = map entry_scenario (ord es)" "u = sort (concat (map entry_unknown (ord es)))"
    using assms(3) es p by (simp_all add: parseScenarios_def)
  have "u = sort (concat (map entry_unknown (ord' es)))"
    unfolding sc(2) using m by (intro sort_mset mset_concat_cong) simp
  moreover have "mset (map entry_scenario (ord' es)) = mset sc" using m by (simp add: sc(1))
  moreover have "distinct (map fst sc)"
  proof -
    obtain kvs where "es = go_map kvs" using es by (cases raw) auto
    then have "distinct (map fst es)" using distinct_go_map by simp
    moreover have "mset (map fst (ord es)) = mset (map fst es)" using m by simp
    ultimately have "distinct (map fst (ord es))" by (metis mset_eq_imp_distinct_iff)
    then show ?thesis by (simp add: sc(1) o_def entry_scenario_def)
  qed
  ultimately show ?thesis using es p' by (simp add: parseScenarios_def)
qed

definition metric_ok :: "string \<times> json \<Rightarrow> bool" where
  "metric_ok e \<longleftrightarrow> is_right (parse_metric (fst e) (snd e))"

definition metric_exprs :: "string \<times> json \<Rightarrow> string \<times> string list" where
  "metric_exprs e = (fst e, projr (parse_metric (fst e) (snd e)))"

lemma parse_metrics_spec:
  "if list_all metric_ok ms then parse_metrics ms = Inr (map metric_exprs ms) else \<not> is_right (parse_metrics ms)"
proof (induction ms)
  case (Cons e ms)
  obtain name v where e: "e = (name, v)" by (cases e)
  show ?case
  proof (cases "parse_metric name v")
    case (Inl err)
    then show ?thesis by (simp add: e metric_ok_def)
  next
    case (Inr x)
    then show ?thesis using Cons.IH
      by (cases "parse_metrics ms") (auto simp: e metric_ok_def metric_exprs_def split: if_splits)
  qed
qed simp

lemma parseThresholds_perm:
  assumes "permutes ord" "permutes ord'" "parseThresholds ord raw = Inr t"
  shows "\<exists>t'. parseThresholds ord' raw = Inr t' \<and> mset t' = mset t \<and> distinct (map fst t)"
proof -
  obtain o1 where o1: "decode_map raw = Some o1"
    using assms(3) by (auto simp: parseThresholds_def split: option.splits)
  let ?ms = "or_default o1 []"
  have m: "mset (ord ?ms) = mset ?ms" "mset (ord' ?ms) = mset ?ms" using assms by (simp_all add: permutes_def)
  have ok: "list_all metric_ok (ord ?ms)"
    using parse_metrics_spec [of "ord ?ms"] assms(3) o1
    by (auto simp: parseThresholds_def is_right_def split: sum.splits if_splits)
  then have ok': "list_all metric_ok (ord' ?ms)" using m list_all_perm [of "ord ?ms" "ord' ?ms"] by simp
  note p = parse_metrics_spec [of "ord ?ms", unfolded if_P [OF ok]]
    and p' = parse_metrics_spec [of "ord' ?ms", unfolded if_P [OF ok']]
  have t: "t = map metric_exprs (ord ?ms)" using assms(3) o1 p by (simp add: parseThresholds_def)
  have "mset (map metric_exprs (ord' ?ms)) = mset t" using m by (simp add: t)
  moreover have "distinct (map fst t)"
  proof -
    have "distinct (map fst ?ms)" using o1 distinct_go_map by (cases raw) (auto simp: or_default_def)
    moreover have "mset (map fst (ord ?ms)) = mset (map fst ?ms)" using m by simp
    ultimately have "distinct (map fst (ord ?ms))" by (metis mset_eq_imp_distinct_iff)
    then show ?thesis by (simp add: t o_def metric_exprs_def)
  qed
  ultimately show ?thesis using o1 p' by (simp add: parseThresholds_def)
qed

section \<open>Options\<close>

definition same_scenarios ::
  "(string \<times> scenario_options) list option \<Rightarrow> (string \<times> scenario_options) list option \<Rightarrow> bool" where
  "same_scenarios a b \<longleftrightarrow> (case (a, b) of
       (None, None) \<Rightarrow> True
     | (Some x, Some y) \<Rightarrow> mset x = mset y \<and> distinct (map fst x)
     | _ \<Rightarrow> False)"

definition same_options :: "options \<Rightarrow> options \<Rightarrow> bool" where
  "same_options a b \<longleftrightarrow> same_scenarios (o_Scenarios a) (o_Scenarios b) \<and>
     mset (o_Thresholds a) = mset (o_Thresholds b) \<and> distinct (map fst (o_Thresholds a)) \<and>
     o_VUs a = o_VUs b \<and> o_Duration a = o_Duration b \<and> o_DiscardResponseBodies a = o_DiscardResponseBodies b \<and>
     o_NoCookiesReset a = o_NoCookiesReset b \<and> o_NoConnectionReuse a = o_NoConnectionReuse b \<and>
     o_HTTPVersion a = o_HTTPVersion b \<and> o_SetupTimeout a = o_SetupTimeout b \<and>
     o_TeardownTimeout a = o_TeardownTimeout b \<and> o_Stages a = o_Stages b"

definition same_result :: "options_error + options \<Rightarrow> options_error + options \<Rightarrow> bool" where
  "same_result r r' \<longleftrightarrow> (case r of Inl _ \<Rightarrow> \<not> is_right r' | Inr o1 \<Rightarrow> \<exists>o2. r' = Inr o2 \<and> same_options o1 o2)"

lemma same_zero: "same_options options_zero options_zero"
  by (simp add: same_options_def same_scenarios_def options_zero_def)

lemma with_field_same:
  assumes "same_result r r'" "\<And>o1 o2 v. same_options o1 o2 \<Longrightarrow> same_result (f o1 v) (f' o2 v)"
  shows "same_result (with_field m k f r) (with_field m k f' r')"
proof (cases r)
  case (Inl e)
  then show ?thesis using assms(1) by (auto simp: same_result_def with_field_def is_right_def split: sum.splits)
next
  case (Inr o1)
  then obtain o2 where "r' = Inr o2" "same_options o1 o2" using assms(1) by (auto simp: same_result_def)
  then show ?thesis using Inr assms(2) by (cases "m k") (simp_all add: with_field_def same_result_def)
qed

lemma opt_same:
  assumes "same_options o1 o2"
  shows "same_result (opt_vus o1 v) (opt_vus o2 v)" "same_result (opt_http o1 v) (opt_http o2 v)"
    and "same_result (opt_stages o1 v) (opt_stages o2 v)"
    and "same_result (opt_duration k (\<lambda>d o1. o1\<lparr>o_Duration := Some d\<rparr>) o1 v) (opt_duration k (\<lambda>d o1. o1\<lparr>o_Duration := Some d\<rparr>) o2 v)"
    and "same_result (opt_duration k (\<lambda>d o1. o1\<lparr>o_SetupTimeout := Some d\<rparr>) o1 v) (opt_duration k (\<lambda>d o1. o1\<lparr>o_SetupTimeout := Some d\<rparr>) o2 v)"
    and "same_result (opt_duration k (\<lambda>d o1. o1\<lparr>o_TeardownTimeout := Some d\<rparr>) o1 v) (opt_duration k (\<lambda>d o1. o1\<lparr>o_TeardownTimeout := Some d\<rparr>) o2 v)"
    and "same_result (opt_bool k (\<lambda>b o1. o1\<lparr>o_NoConnectionReuse := Some b\<rparr>) o1 v) (opt_bool k (\<lambda>b o1. o1\<lparr>o_NoConnectionReuse := Some b\<rparr>) o2 v)"
    and "same_result (opt_bool k (\<lambda>b o1. o1\<lparr>o_NoCookiesReset := Some b\<rparr>) o1 v) (opt_bool k (\<lambda>b o1. o1\<lparr>o_NoCookiesReset := Some b\<rparr>) o2 v)"
    and "same_result (opt_bool k (\<lambda>b o1. o1\<lparr>o_DiscardResponseBodies := Some b\<rparr>) o1 v) (opt_bool k (\<lambda>b o1. o1\<lparr>o_DiscardResponseBodies := Some b\<rparr>) o2 v)"
  using assms
  by (auto simp: opt_vus_def opt_http_def opt_stages_def opt_duration_def opt_bool_def same_result_def same_options_def
      split: option.splits sum.splits)

lemma opt_perm:
  assumes "permutes ord" "permutes ord'" "same_options o1 o2"
  shows "same_result (opt_scenarios ord o1 v) (opt_scenarios ord' o2 v)"
    and "same_result (opt_thresholds ord o1 v) (opt_thresholds ord' o2 v)"
proof -
  show "same_result (opt_scenarios ord o1 v) (opt_scenarios ord' o2 v)"
  proof (cases "parseScenarios ord v")
    case (Inl e)
    then have "\<not> is_right (parseScenarios ord' v)"
      using parseScenarios_perm [OF assms(2,1)] by (force simp: is_right_iff)
    then show ?thesis using Inl
      by (auto simp: opt_scenarios_def same_result_def is_right_def split: sum.splits)
  next
    case (Inr r)
    then obtain sc u where sc: "parseScenarios ord v = Inr (sc, u)" by (cases r) simp
    obtain sc' where sc': "parseScenarios ord' v = Inr (sc', u)" "mset sc' = mset sc" "distinct (map fst sc)"
      using parseScenarios_perm [OF assms(1,2) sc] by blast
    then show ?thesis using sc assms(3)
      by (auto simp: opt_scenarios_def same_result_def same_options_def same_scenarios_def)
  qed
  show "same_result (opt_thresholds ord o1 v) (opt_thresholds ord' o2 v)"
  proof (cases "parseThresholds ord v")
    case (Inl e)
    then have "\<not> is_right (parseThresholds ord' v)"
      using parseThresholds_perm [OF assms(2,1)] by (force simp: is_right_iff)
    then show ?thesis using Inl
      by (auto simp: opt_thresholds_def same_result_def is_right_def split: sum.splits)
  next
    case (Inr t)
    obtain t' where "parseThresholds ord' v = Inr t'" "mset t' = mset t" "distinct (map fst t)"
      using parseThresholds_perm [OF assms(1,2) Inr] by blast
    then show ?thesis using Inr assms(3)
      by (auto simp: opt_thresholds_def same_result_def same_options_def)
  qed
qed

lemma parse_fields_same:
  assumes "permutes ord" "permutes ord'"
  shows "same_result (parse_fields ord m) (parse_fields ord' m)"
  unfolding parse_fields_def
  by (intro with_field_same opt_same opt_perm [OF assms])
    (simp_all add: same_result_def same_zero)

lemma unknown_same:
  assumes "permutes ord" "permutes ord'" "parse_fields ord (map_of kvs) = Inr o1"
  shows "unknown_options ord kvs = unknown_options ord' kvs"
proof (cases "map_of kvs ''scenarios''")
  case (Some v)
  then show ?thesis
  proof (cases "parseScenarios ord v")
    case (Inl e)
    then have "\<not> is_right (parseScenarios ord' v)"
      using parseScenarios_perm [OF assms(2,1)] by (force simp: is_right_iff)
    then show ?thesis using Inl Some by (auto simp: unknown_options_def is_right_def split: sum.splits)
  next
    case (Inr r)
    then show ?thesis using parseScenarios_perm [OF assms(1,2), of v "fst r" "snd r"] Some
      by (cases r) (auto simp: unknown_options_def)
  qed
qed (simp add: unknown_options_def)

section \<open>Resolving\<close>

lemma map_of_perm: "mset xs = mset ys \<Longrightarrow> distinct (map fst xs) \<Longrightarrow> map_of xs = map_of ys"
proof
  fix k
  assume m: "mset xs = mset ys" and d: "distinct (map fst xs)"
  have "distinct (map fst ys)" using m d by (metis mset_map mset_eq_imp_distinct_iff)
  moreover have "set xs = set ys" using m by (rule mset_eq_setD)
  ultimately show "map_of xs k = map_of ys k" using d
    by (metis map_of_eq_None_iff map_of_eq_Some_iff not_None_eq)
qed

lemma resolve_each_perm: "mset xs = mset ys \<Longrightarrow> distinct (map fst xs) \<Longrightarrow> resolve_each xs = resolve_each ys"
  using sort_mset [of "map fst xs" "map fst ys"] map_of_perm [of xs ys] by (simp add: resolve_each_def)

lemma sort_key_perm: "mset xs = mset ys \<Longrightarrow> distinct (map fst xs) \<Longrightarrow> sort_key fst xs = sort_key fst ys"
  by (rule sort_key_inj_key_eq) (simp_all add: distinct_map)

lemma Resolve_same:
  assumes "same_options o1 o2"
  shows "Resolve c cli getenv o1 = Resolve c cli getenv o2"
proof -
  have sc: "resolveScenarios o1 ov vus dur g = resolveScenarios o2 ov vus dur g" for ov vus dur g
  proof (cases "o_Scenarios o1")
    case None
    then show ?thesis using assms
      by (auto simp: resolveScenarios_def same_options_def same_scenarios_def split: option.splits)
  next
    case (Some x)
    then obtain y where y: "o_Scenarios o2 = Some y" "mset x = mset y" "distinct (map fst x)"
      using assms by (auto simp: same_options_def same_scenarios_def split: option.splits)
    moreover have "x = [] \<longleftrightarrow> y = []" using y(2) by auto
    ultimately show ?thesis using Some assms resolve_each_perm [OF y(2,3)]
      by (simp add: resolveScenarios_def same_options_def)
  qed
  have "resolve_vus cli getenv o1 = resolve_vus cli getenv o2"
    "resolve_duration cli getenv o1 = resolve_duration cli getenv o2"
  proof -
    have eq: "o_VUs o1 = o_VUs o2" "o_Duration o1 = o_Duration o2" using assms by (simp_all add: same_options_def)
    show "resolve_vus cli getenv o1 = resolve_vus cli getenv o2" unfolding resolve_vus_def eq ..
    show "resolve_duration cli getenv o1 = resolve_duration cli getenv o2" unfolding resolve_duration_def eq ..
  qed
  moreover have "o_SetupTimeout o1 = o_SetupTimeout o2" "o_TeardownTimeout o1 = o_TeardownTimeout o2"
    "o_DiscardResponseBodies o1 = o_DiscardResponseBodies o2" "o_NoCookiesReset o1 = o_NoCookiesReset o2"
    "o_NoConnectionReuse o1 = o_NoConnectionReuse o2" "o_HTTPVersion o1 = o_HTTPVersion o2"
    using assms by (simp_all add: same_options_def)
  ultimately show ?thesis unfolding Resolve_def by (simp only: sc)
qed

text \<open>C19: Go iterates the maps of the options in no particular order, and it makes no difference. If one
  order of the scenarios and of the thresholds accepts the script's options, so does every other,
  with the same keys to warn about; the settings resolved from them, errors included, are the
  same whatever the command line and the environment; and so are the thresholds as their parser
  orders them.\<close>

theorem options_order_irrelevant:
  assumes "permutes ord" "permutes ord'" "ParseOptions ord raw = Inr (o1, u)"
  shows "\<exists>o2. ParseOptions ord' raw = Inr (o2, u) \<and>
    (\<forall>c cli getenv. Resolve c cli getenv o2 = Resolve c cli getenv o1) \<and>
    sort_key fst (o_Thresholds o2) = sort_key fst (o_Thresholds o1)"
proof (cases "\<exists>v kvs. raw = RawJson v \<and> decode_map v = Some (Some kvs)")
  case False
  then show ?thesis using assms(3) by (auto simp: ParseOptions_def split: raw_options.splits option.splits)
next
  case True
  then obtain v kvs where kvs: "raw = RawJson v" "decode_map v = Some (Some kvs)" by blast
  have p: "parse_fields ord (map_of kvs) = Inr o1" "u = unknown_options ord kvs"
    using assms(3) kvs by (auto simp: ParseOptions_def split: sum.splits)
  obtain o2 where o2: "parse_fields ord' (map_of kvs) = Inr o2" "same_options o1 o2"
    using parse_fields_same [OF assms(1,2), of "map_of kvs"] p(1) by (auto simp: same_result_def)
  have "sort_key fst (o_Thresholds o1) = sort_key fst (o_Thresholds o2)"
    using o2(2) by (intro sort_key_perm) (simp_all add: same_options_def)
  then show ?thesis using o2 kvs p unknown_same [OF assms(1,2) p(1)] Resolve_same [OF o2(2)]
    by (simp add: ParseOptions_def)
qed

definition order_example :: raw_options where
  "order_example = RawJson (JObj [(''foo'', JNull), (''scenarios'', JObj [
        (''b'', JObj [(''executor'', JStr ''constant-vus''), (''VUS'', JInt 3)]), (''a'', JObj [(''rate'', JInt 10)])])])"

theorem options_order_irrelevant_witness:
  "\<exists>o1 o2. ParseOptions (\<lambda>xs. xs) order_example = Inr (o1, [''foo'', ''scenarios.b.VUS'']) \<and>
     ParseOptions rev order_example = Inr (o2, [''foo'', ''scenarios.b.VUS'']) \<and>
     (\<forall>c cli getenv. Resolve c cli getenv o2 = Resolve c cli getenv o1)"
proof -
  obtain o1 u where p: "ParseOptions (\<lambda>xs. xs) order_example = Inr (o1, u)" "u = [''foo'', ''scenarios.b.VUS'']"
  proof -
    have "(case ParseOptions (\<lambda>xs. xs) order_example of Inl _ \<Rightarrow> False | Inr (_, u) \<Rightarrow> u = [''foo'', ''scenarios.b.VUS''])"
      by code_simp
    then show ?thesis using that by (auto split: sum.splits)
  qed
  have "permutes (\<lambda>xs. xs)" "permutes rev" by (simp_all add: permutes_def)
  then show ?thesis using options_order_irrelevant [OF _ _ p(1), of rev] p by blast
qed

text \<open>A member of a scenario is matched without regard to case, but the keys to warn about are found
  exactly: a setting the user is told was ignored takes effect.\<close>

lemma folded_key_applies:
  "parse_entry ''b'' (JObj [(''executor'', JStr ''constant-vus''), (''VUS'', JInt 3)]) =
     Inr (scenario_options_zero\<lparr>so_Executor := ''constant-vus'', so_VUs := Some 3\<rparr>, [''scenarios.b.VUS''])"
  by code_simp

end
