(* ===== verification/Script_Objects.thy ===== *)
theory Script_Objects
  imports Go_Prelude "HOL-Library.AList"
begin

text \<open>
  The JavaScript objects a VU's runtime is given by Go: \<open>envObject\<close> (\<open>internal/script/env.go\<close>),
  \<open>lazyObject\<close> (\<open>lazy.go\<close>), and the \<open>warner\<close> all VUs share (\<open>warn.go\<close>). A Go map is an association
  list with distinct keys, in the order a range over it happens to take; JavaScript values are of
  any type.
\<close>

section \<open>The environment: env.go\<close>

record 'v env_object =
  eo_base :: "(string \<times> string) list"
  eo_overlay :: "(string \<times> 'v) list"
  eo_deleted :: "string list"

definition env_Get :: "(string \<Rightarrow> 'v) \<Rightarrow> 'v env_object \<Rightarrow> string \<Rightarrow> 'v option" where
  "env_Get toValue e key = (case map_of (eo_overlay e) key of
       Some v \<Rightarrow> Some v
     | None \<Rightarrow> if key \<in> set (eo_deleted e) then None
               else (case map_of (eo_base e) key of Some v \<Rightarrow> Some (toValue v) | None \<Rightarrow> None))"

definition env_Set :: "'v env_object \<Rightarrow> string \<Rightarrow> 'v \<Rightarrow> 'v env_object" where
  "env_Set e key val = e\<lparr>eo_overlay := AList.update key val (eo_overlay e), eo_deleted := removeAll key (eo_deleted e)\<rparr>"

definition env_Has :: "'v env_object \<Rightarrow> string \<Rightarrow> bool" where
  "env_Has e key = (case map_of (eo_overlay e) key of
       Some _ \<Rightarrow> True
     | None \<Rightarrow> map_of (eo_base e) key \<noteq> None \<and> key \<notin> set (eo_deleted e))"

definition env_Delete :: "'v env_object \<Rightarrow> string \<Rightarrow> 'v env_object" where
  "env_Delete e key = (let e = e\<lparr>eo_overlay := AList.delete key (eo_overlay e)\<rparr> in
     if map_of (eo_base e) key \<noteq> None then e\<lparr>eo_deleted := List.insert key (eo_deleted e)\<rparr> else e)"

definition env_Keys :: "'v env_object \<Rightarrow> string list" where
  "env_Keys e = sort (map fst (filter (\<lambda>(k, _). k \<notin> set (eo_deleted e) \<and> map_of (eo_overlay e) k = None) (eo_base e))
     @ map fst (eo_overlay e))"

definition new_env :: "(string \<times> string) list \<Rightarrow> 'v env_object" where
  "new_env base = \<lparr>eo_base = base, eo_overlay = [], eo_deleted = []\<rparr>"

text \<open>What the code promises: a VU's own copy of the environment.\<close>

datatype 'v env_op = EnvSet string 'v | EnvDelete string

fun env_step :: "'v env_op \<Rightarrow> 'v env_object \<Rightarrow> 'v env_object" where
  "env_step (EnvSet k v) e = env_Set e k v"
| "env_step (EnvDelete k) e = env_Delete e k"

fun copy_step :: "'v env_op \<Rightarrow> (string \<rightharpoonup> 'v) \<Rightarrow> (string \<rightharpoonup> 'v)" where
  "copy_step (EnvSet k v) m = m(k \<mapsto> v)"
| "copy_step (EnvDelete k) m = m(k := None)"

definition env_wf :: "'v env_object \<Rightarrow> bool" where
  "env_wf e \<longleftrightarrow> distinct (map fst (eo_base e)) \<and> distinct (map fst (eo_overlay e))"

lemma env_Get_step: "env_Get f (env_step x e) = copy_step x (env_Get f e)"
  by (cases x) (auto simp: env_Get_def env_Set_def env_Delete_def Let_def update_conv' delete_conv' fun_eq_iff
      split: option.splits)

lemma env_wf_step: "env_wf e \<Longrightarrow> env_wf (env_step x e)"
  by (cases x) (simp_all add: env_wf_def env_Set_def env_Delete_def Let_def distinct_update distinct_delete)

lemma env_base_step [simp]: "eo_base (env_step x e) = eo_base e"
  by (cases x) (simp_all add: env_Set_def env_Delete_def Let_def)

lemma env_Has_dom: "env_Has e k \<longleftrightarrow> k \<in> dom (env_Get f e)"
  by (auto simp: env_Has_def env_Get_def split: option.splits)

lemma env_Keys_dom:
  assumes "env_wf e"
  shows "env_Keys e = sorted_list_of_set (dom (env_Get f e))"
proof -
  let ?ks = "map fst (filter (\<lambda>(k, _). k \<notin> set (eo_deleted e) \<and> map_of (eo_overlay e) k = None) (eo_base e)) @ map fst (eo_overlay e)"
  have "distinct ?ks" using assms
    by (auto simp: env_wf_def distinct_map_filter map_of_eq_None_iff; force)
  moreover have "set ?ks = dom (env_Get f e)"
  proof -
    have "set ?ks = {k. k \<in> fst ` set (eo_base e) \<and> k \<notin> set (eo_deleted e) \<and> map_of (eo_overlay e) k = None} \<union> fst ` set (eo_overlay e)"
      by force
    also have "\<dots> = dom (env_Get f e)" 
      unfolding env_Get_def dom_map_of_conv_image_fst [symmetric] by (auto split: option.splits if_splits)
    finally show ?thesis .
  qed
  ultimately show ?thesis unfolding env_Keys_def
    by (simp only: sorted_list_of_set_sort_remdups distinct_remdups_id flip: \<open>set ?ks = dom (env_Get f e)\<close>)
qed

text \<open>\<open>__ENV\<close> is the VU's own copy. Over the map that all VUs share, with its overlay and its deleted
  keys, a VU's \<open>__ENV\<close> behaves, after any writes and deletes by the script, as a private copy of the
  environment would: reads, tests, and the keys, which are listed in sorted order; and the shared
  map is never written.\<close>

theorem env_refines_copy:
  assumes "distinct (map fst base)"
  shows "(let e = fold env_step ops (new_env base);
              m = fold copy_step ops (\<lambda>k. map_option toValue (map_of base k))
          in (\<forall>k. env_Get toValue e k = m k) \<and> (\<forall>k. env_Has e k = (m k \<noteq> None)) \<and>
             env_Keys e = sorted_list_of_set (dom m) \<and> eo_base e = base)"
proof -
  have "env_wf (fold env_step ops e) \<and> eo_base (fold env_step ops e) = eo_base e \<and>
      env_Get toValue (fold env_step ops e) = fold copy_step ops (env_Get toValue e)" if "env_wf e" for e :: "'a env_object"
    using that by (induction ops arbitrary: e) (simp_all add: env_wf_step env_Get_step)
  moreover have "env_wf (new_env base :: 'a env_object)" using assms by (simp add: env_wf_def new_env_def)
  moreover have "env_Get toValue (new_env base) = (\<lambda>k. map_option toValue (map_of base k))"
    by (auto simp: env_Get_def new_env_def fun_eq_iff split: option.splits)
  moreover have "eo_base (new_env base) = base" by (simp add: new_env_def)
  ultimately show ?thesis
    using env_Keys_dom [of "fold env_step ops (new_env base)" toValue] env_Has_dom [of "fold env_step ops (new_env base)" _ toValue]
    by (simp add: Let_def dom_def)
qed

definition env_example :: "string env_op list" where
  "env_example = [EnvSet ''B'' ''2'', EnvDelete ''A'', EnvSet ''C'' ''3'', EnvDelete ''B'']"

theorem env_refines_copy_witness:
  "(let e = fold env_step env_example (new_env [(''B'', ''1''), (''A'', ''0'')])
    in env_Get id e ''C'' = Some ''3'' \<and> \<not> env_Has e ''B'' \<and> env_Keys e = [''C''] \<and> eo_base e = [(''B'', ''1''), (''A'', ''0'')])"
proof -
  let ?m = "fold copy_step env_example (\<lambda>k. map_option id (map_of [(''B'', ''1''), (''A'', ''0'')] k))"
  have m: "?m = [''C'' \<mapsto> ''3'']" by (auto simp: env_example_def fun_eq_iff)
  show ?thesis using env_refines_copy [of "[(''B'', ''1''), (''A'', ''0'')]" env_example id]
    unfolding m Let_def by simp
qed

section \<open>Lazy objects: lazy.go\<close>

text \<open>\<open>build i\<close> is what the \<open>i\<close>th property's function builds; each call of it is an event.\<close>

record 'v lazy_object =
  lo_props :: "string list"
  lo_vals :: "'v option list"
  lo_built :: "nat list"

fun lazy_index_loop :: "string \<Rightarrow> nat \<Rightarrow> string list \<Rightarrow> int" where
  "lazy_index_loop key i [] = -1"
| "lazy_index_loop key i (p # ps) = (if p = key then int i else lazy_index_loop key (Suc i) ps)"

definition lazy_index :: "'v lazy_object \<Rightarrow> string \<Rightarrow> int" where
  "lazy_index o1 key = lazy_index_loop key 0 (lo_props o1)"

definition lazy_alloc :: "'v lazy_object \<Rightarrow> 'v lazy_object" where
  "lazy_alloc o1 = (if lo_vals o1 = [] then o1\<lparr>lo_vals := replicate (length (lo_props o1)) None\<rparr> else o1)"

definition lazy_Get :: "(nat \<Rightarrow> 'v) \<Rightarrow> 'v lazy_object \<Rightarrow> string \<Rightarrow> 'v option \<times> 'v lazy_object" where
  "lazy_Get build o1 key = (let i = lazy_index o1 key in
     if i < 0 then (None, o1)
     else let o2 = lazy_alloc o1; k = nat i;
              o3 = (if lo_vals o2 ! k = None then o2\<lparr>lo_vals := (lo_vals o2)[k := Some (build k)], lo_built := lo_built o2 @ [k]\<rparr> else o2)
          in (lo_vals o3 ! k, o3))"

definition lazy_Set :: "'v lazy_object \<Rightarrow> string \<Rightarrow> 'v \<Rightarrow> bool \<times> 'v lazy_object" where
  "lazy_Set o1 key val = (let i = lazy_index o1 key in
     if i < 0 then (False, o1)
     else let o2 = lazy_alloc o1 in (True, o2\<lparr>lo_vals := (lo_vals o2)[nat i := Some val]\<rparr>))"

definition lazy_Has :: "'v lazy_object \<Rightarrow> string \<Rightarrow> bool" where
  "lazy_Has o1 key \<longleftrightarrow> 0 \<le> lazy_index o1 key"

definition lazy_Keys :: "'v lazy_object \<Rightarrow> string list" where
  "lazy_Keys o1 = map id (lo_props o1)"

definition lazy_wf :: "'v lazy_object \<Rightarrow> bool" where
  "lazy_wf o1 \<longleftrightarrow> (lo_vals o1 = [] \<or> length (lo_vals o1) = length (lo_props o1)) \<and>
     distinct (lo_built o1) \<and> (\<forall>k\<in>set (lo_built o1). k < length (lo_vals o1) \<and> lo_vals o1 ! k \<noteq> None)"

lemma lazy_index_loop_bounds: "lazy_index_loop key i ps = -1 \<or> int i \<le> lazy_index_loop key i ps \<and> lazy_index_loop key i ps < int (i + length ps)"
  by (induction key i ps rule: lazy_index_loop.induct) auto

lemma lazy_index_bound: "0 \<le> lazy_index o1 key \<Longrightarrow> nat (lazy_index o1 key) < length (lo_props o1)"
  using lazy_index_loop_bounds [of key 0 "lo_props o1"] by (auto simp: lazy_index_def)

lemma lazy_alloc_wf: "lazy_wf o1 \<Longrightarrow> lazy_wf (lazy_alloc o1) \<and> length (lo_vals (lazy_alloc o1)) = length (lo_props o1)"
  by (auto simp: lazy_wf_def lazy_alloc_def)

text \<open>Each property is built at most once, and not at all once the script replaced it.\<close>

lemma lazy_Get_wf:
  assumes "lazy_wf o1"
  shows "lazy_wf (snd (lazy_Get build o1 key)) \<and> lo_props (snd (lazy_Get build o1 key)) = lo_props o1 \<and>
    (fst (lazy_Get build o1 key) \<noteq> None \<longleftrightarrow> lazy_Has o1 key)"
proof (cases "lazy_index o1 key < 0")
  case True
  then show ?thesis using assms by (simp add: lazy_Get_def lazy_Has_def)
next
  case False
  let ?k = "nat (lazy_index o1 key)"
  have k: "?k < length (lo_vals (lazy_alloc o1))" "lazy_wf (lazy_alloc o1)" "lo_props (lazy_alloc o1) = lo_props o1"
    using lazy_alloc_wf [OF assms] lazy_index_bound [of o1 key] False by (auto simp: lazy_alloc_def)
  have unbuilt: "?k \<notin> set (lo_built (lazy_alloc o1))" if "lo_vals (lazy_alloc o1) ! ?k = None"
    using k(2) that by (auto simp: lazy_wf_def)
  show ?thesis
  proof (cases "lo_vals (lazy_alloc o1) ! ?k = None")
    case True
    then have "lazy_wf (lazy_alloc o1\<lparr>lo_vals := (lo_vals (lazy_alloc o1))[?k := Some (build ?k)],
        lo_built := lo_built (lazy_alloc o1) @ [?k]\<rparr>)"
      using k unbuilt by (auto simp: lazy_wf_def nth_list_update)
    then show ?thesis using True False k by (simp add: lazy_Get_def Let_def lazy_Has_def)
  next
    case nb: False
    then show ?thesis using False k by (auto simp: lazy_Get_def Let_def lazy_Has_def)
  qed
qed

lemma lazy_Set_wf:
  assumes "lazy_wf o1"
  shows "lazy_wf (snd (lazy_Set o1 key v)) \<and> lo_built (snd (lazy_Set o1 key v)) = lo_built o1 \<and>
    (fst (lazy_Set o1 key v) \<longleftrightarrow> lazy_Has o1 key) \<and>
    (lazy_Has o1 key \<longrightarrow> fst (lazy_Get build (snd (lazy_Set o1 key v)) key) = Some v)"
proof (cases "lazy_index o1 key < 0")
  case True
  then show ?thesis using assms by (simp add: lazy_Set_def lazy_Has_def)
next
  case False
  let ?k = "nat (lazy_index o1 key)" and ?o = "lazy_alloc o1"
  have k: "?k < length (lo_vals ?o)" "lazy_wf ?o" "lo_props ?o = lo_props o1" "lo_built ?o = lo_built o1"
    using lazy_alloc_wf [OF assms] lazy_index_bound [of o1 key] False by (auto simp: lazy_alloc_def)
  let ?o' = "?o\<lparr>lo_vals := (lo_vals ?o)[?k := Some v]\<rparr>"
  have set: "lazy_Set o1 key v = (True, ?o')" using False by (simp add: lazy_Set_def Let_def)
  have "lazy_wf ?o'" using k by (auto simp: lazy_wf_def nth_list_update)
  moreover have "lazy_alloc ?o' = ?o'" using k(1) by (auto simp: lazy_alloc_def)
  moreover have "lazy_index ?o' key = lazy_index o1 key" by (simp add: lazy_index_def k(3))
  ultimately show ?thesis using k False unfolding set
    by (simp add: lazy_Has_def lazy_Get_def Let_def)
qed

section \<open>Warnings: warn.go\<close>

record warner =
  wa_seen :: "string list"
  wa_reported :: "string list"

definition newWarner :: "bool \<Rightarrow> warner option" where
  "newWarner fn = (if \<not> fn then None else Some \<lparr>wa_seen = [], wa_reported = []\<rparr>)"

definition warn_once :: "warner option \<Rightarrow> string \<Rightarrow> warner option" where
  "warn_once wo msg = (case wo of None \<Rightarrow> None
     | Some w \<Rightarrow> if msg \<in> set (wa_seen w) then Some w
                 else Some \<lparr>wa_seen = List.insert msg (wa_seen w), wa_reported = wa_reported w @ [msg]\<rparr>)"

text \<open>Each distinct message is reported once, when it is first seen, in that order.\<close>

lemma warnings_once:
  "foldl warn_once (newWarner True) msgs = Some \<lparr>wa_seen = remdups (rev msgs), wa_reported = rev (remdups (rev msgs))\<rparr>"
proof (induction msgs rule: rev_induct)
  case Nil
  show ?case by (simp add: newWarner_def)
next
  case (snoc m msgs)
  then show ?case by (simp add: warn_once_def List.insert_def)
qed

end
