(* ===== verification/Go_Fmt.thy ===== *)
theory Go_Fmt
  imports Go_Text Go_Float
begin

text \<open>
  What the reports use of packages \<open>fmt\<close> and \<open>unicode/utf8\<close>: the count of a text's runes, padding to a
  width, and \<open>%.nf\<close>. Lemmas: a number printed to \<open>n\<close> decimals is read back as the number rounded, half
  to even, to \<open>n\<close> decimals.
\<close>

section \<open>Runes\<close>

definition cont :: "nat \<Rightarrow> bool" where
  "cont b \<longleftrightarrow> 128 \<le> b \<and> b \<le> 191"

text \<open>\<open>utf8.DecodeRune\<close>: the bytes of the rune a text begins with; 1 for a byte that begins none.\<close>

definition rune_len :: "string \<Rightarrow> nat" where
  "rune_len s = (case map byte (take 4 s) of
       b # c # bs \<Rightarrow>
         if 194 \<le> b \<and> b \<le> 223 \<and> cont c then 2
         else (case bs of [] \<Rightarrow> 1 | d # bs \<Rightarrow>
           if 224 \<le> b \<and> b \<le> 239 \<and> cont c \<and> (b = 224 \<longrightarrow> 160 \<le> c) \<and> (b = 237 \<longrightarrow> c \<le> 159) \<and> cont d then 3
           else (case bs of [] \<Rightarrow> 1 | e # bs \<Rightarrow>
             if 240 \<le> b \<and> b \<le> 244 \<and> cont c \<and> (b = 240 \<longrightarrow> 144 \<le> c) \<and> (b = 244 \<longrightarrow> c \<le> 143) \<and> cont d \<and> cont e
             then 4 else 1))
     | _ \<Rightarrow> 1)"

lemma rune_len_pos [simp]: "0 < rune_len s"
  by (auto simp: rune_len_def split: list.splits)

lemma rune_len_ascii: "byte c < 128 \<Longrightarrow> rune_len (c # s) = 1"
  by (auto simp: rune_len_def split: list.splits)

function rune_count :: "string \<Rightarrow> nat" where
  "rune_count s = (if s = [] then 0 else Suc (rune_count (drop (rune_len s) s)))"
  by auto
termination by (relation "measure length") auto

declare rune_count.simps [simp del]

lemma rune_count_Nil [simp]: "rune_count [] = 0"
  by (simp add: rune_count.simps)

lemma rune_count_ascii: "list_all (\<lambda>c. byte c < 128) s \<Longrightarrow> rune_count s = length s"
proof (induction s)
  case (Cons c s)
  then show ?case by (subst rune_count.simps) (simp add: rune_len_ascii)
qed simp

lemma rune_count_le: "rune_count s \<le> length s"
proof (induction s rule: rune_count.induct)
  case (1 s)
  show ?case
  proof (cases "s = []")
    case False
    have "rune_count s = Suc (rune_count (drop (rune_len s) s))" using False by (subst rune_count.simps) simp
    moreover have "length (drop (rune_len s) s) < length s" using False by simp
    ultimately show ?thesis using 1 [OF False] by linarith
  qed simp
qed

text \<open>\<open>%-*s\<close> and \<open>%*s\<close> pad with spaces, counting runes.\<close>

definition pad_right :: "nat \<Rightarrow> string \<Rightarrow> string" where
  "pad_right w s = s @ replicate (w - rune_count s) CHR '' ''"

definition pad_left :: "nat \<Rightarrow> string \<Rightarrow> string" where
  "pad_left w s = replicate (w - rune_count s) CHR '' '' @ s"

section \<open>Decimals\<close>

definition zero_pad :: "nat \<Rightarrow> string \<Rightarrow> string" where
  "zero_pad n ds = replicate (n - length ds) CHR ''0'' @ ds"

text \<open>\<open>k / 10^n\<close>.\<close>

definition decimal_text :: "nat \<Rightarrow> int \<Rightarrow> string" where
  "decimal_text n k = nat_text (k div 10 ^ n) @ (if n = 0 then [] else CHR ''.'' # zero_pad n (nat_text (k mod 10 ^ n)))"

text \<open>\<open>%.nf\<close>: the exact value of the float, rounded to \<open>n\<close> decimals, half to even.\<close>

fun fixed_text :: "nat \<Rightarrow> f64 \<Rightarrow> string" where
  "fixed_text n (Fin a) = (if a < 0 then ''-'' else []) @ decimal_text n (round_even (\<bar>a\<bar> * 10 ^ n))"
| "fixed_text n PosInf = ''+Inf''"
| "fixed_text n NegInf = ''-Inf''"
| "fixed_text n NaN = ''NaN''"

definition decimal_digit :: "char \<Rightarrow> bool" where
  "decimal_digit c \<longleftrightarrow> c \<in> set ''0123456789''"

lemma digit_char_digit: "0 \<le> n \<Longrightarrow> n < 10 \<Longrightarrow> decimal_digit (digit_char n)"
proof -
  assume "0 \<le> n" "n < 10"
  then have "nat n < length ''0123456789''" by simp
  then show ?thesis unfolding decimal_digit_def digit_char_def by (rule nth_mem)
qed

lemma nat_text_digits: "0 \<le> n \<Longrightarrow> list_all decimal_digit (nat_text n)"
proof (induction n rule: nat_text.induct)
  case (1 n)
  show ?case
  proof (cases "n < 10")
    case True
    then show ?thesis using 1(2) by (simp add: nat_text.simps [of n] digit_char_digit)
  next
    case False
    then show ?thesis using 1 by (simp add: nat_text.simps [of n] digit_char_digit)
  qed
qed

lemma nat_text_length: "0 \<le> n \<Longrightarrow> n < 10 ^ k \<Longrightarrow> 0 < k \<Longrightarrow> length (nat_text n) \<le> k"
proof (induction n arbitrary: k rule: nat_text.induct)
  case (1 n)
  show ?case
  proof (cases "n < 10")
    case True
    then show ?thesis using 1(4) by (simp add: nat_text.simps [of n])
  next
    case False
    then obtain j where j: "k = Suc j" "0 < j" using 1(3,4) by (cases k; cases "k - 1") auto
    have "n div 10 < 10 ^ j"
    proof (rule ccontr)
      assume "\<not> n div 10 < 10 ^ j"
      then have "10 * 10 ^ j \<le> 10 * (n div 10)" by simp
      also have "\<dots> \<le> n" by simp
      finally show False using 1(3) j by simp
    qed
    then show ?thesis using 1 False j by (simp add: nat_text.simps [of n])
  qed
qed

lemma digits_val_append: "digits_val (a @ b) = digits_val a * 10 ^ length b + digits_val b"
proof (induction b rule: rev_induct)
  case (snoc c b)
  have "digits_val ((a @ b) @ [c]) = 10 * digits_val (a @ b) + digit_val c" by (rule digits_val_snoc)
  then show ?case using snoc by (simp add: digits_val_snoc algebra_simps)
qed (simp add: digits_val_def)

lemma digits_val_zeros: "digits_val (replicate n CHR ''0'' @ b) = digits_val b"
proof -
  have "digits_val (replicate n CHR ''0'') = 0"
    by (induction n) (simp_all add: digits_val_def digit_val_def byte_def)
  then show ?thesis by (simp add: digits_val_append)
qed

text \<open>A number in decimals is read back, and has \<open>n\<close> digits after the point.\<close>

lemma decimal_text_read:
  assumes "0 \<le> k"
  shows "digits_val (filter (\<lambda>c. c \<noteq> CHR ''.'') (decimal_text n k)) = nat k \<and>
    (if n = 0 then CHR ''.'' \<notin> set (decimal_text n k)
     else \<exists>a b. decimal_text n k = a @ CHR ''.'' # b \<and> length b = n \<and> a \<noteq> [] \<and> list_all decimal_digit (a @ b))"
proof -
  have dot: "decimal_digit c \<Longrightarrow> c \<noteq> CHR ''.''" for c by (auto simp: decimal_digit_def)
  have keep: "list_all decimal_digit s \<Longrightarrow> filter (\<lambda>c. c \<noteq> CHR ''.'') s = s" for s
    using dot by (auto simp: list_all_iff filter_id_conv)
  have a: "list_all decimal_digit (nat_text (k div 10 ^ n))" "list_all decimal_digit (nat_text (k mod 10 ^ n))"
    using assms by (auto intro!: nat_text_digits simp: pos_imp_zdiv_nonneg_iff)
  have z: "decimal_digit CHR ''0''" by (simp add: decimal_digit_def)
  have v: "digits_val (nat_text (k div 10 ^ n)) = nat (k div 10 ^ n)" "digits_val (nat_text (k mod 10 ^ n)) = nat (k mod 10 ^ n)"
    using assms by (simp_all add: digits_val_nat_text pos_imp_zdiv_nonneg_iff)
  show ?thesis
  proof (cases "n = 0")
    case True
    then show ?thesis using keep [OF a(1)] v a(1) dot by (auto simp: decimal_text_def list_all_iff)
  next
    case False
    let ?b = "zero_pad n (nat_text (k mod 10 ^ n))"
    have "length (nat_text (k mod 10 ^ n)) \<le> n" using False by (intro nat_text_length) simp_all
    then have l: "length ?b = n" by (simp add: zero_pad_def)
    have b: "list_all decimal_digit ?b" "digits_val ?b = nat (k mod 10 ^ n)"
      using a(2) z v(2) by (auto simp: zero_pad_def digits_val_zeros list_all_iff)
    have "filter (\<lambda>c. c \<noteq> CHR ''.'') (decimal_text n k) = nat_text (k div 10 ^ n) @ ?b"
      using False keep [OF a(1)] keep [OF b(1)] by (simp add: decimal_text_def)
    moreover have "digits_val (nat_text (k div 10 ^ n) @ ?b) = nat (k div 10 ^ n) * 10 ^ n + nat (k mod 10 ^ n)"
      unfolding digits_val_append l v b ..
    moreover have "int (nat (k div 10 ^ n) * 10 ^ n + nat (k mod 10 ^ n)) = int (nat k)"
      using assms div_mult_mod_eq [of k "10 ^ n"] by (simp add: pos_imp_zdiv_nonneg_iff del: div_mult_mod_eq)
    then have "nat (k div 10 ^ n) * 10 ^ n + nat (k mod 10 ^ n) = nat k" by (simp only: of_nat_eq_iff)
    ultimately have "digits_val (filter (\<lambda>c. c \<noteq> CHR ''.'') (decimal_text n k)) = nat k" by (simp only:)
    moreover have "decimal_text n k = nat_text (k div 10 ^ n) @ CHR ''.'' # ?b" using False by (simp add: decimal_text_def)
    moreover have "nat_text (k div 10 ^ n) \<noteq> [] \<and> list_all decimal_digit (nat_text (k div 10 ^ n) @ ?b)"
      using a(1) b(1) by simp
    ultimately show ?thesis using False l by - (rule conjI, assumption, simp only: if_False, blast)
  qed
qed

text \<open>\<open>strconv.ParseFloat\<close> of such a text, before it is rounded to a float.\<close>

definition read_decimal :: "nat \<Rightarrow> string \<Rightarrow> rat" where
  "read_decimal n s =
     (let v = of_nat (digits_val (filter (\<lambda>c. c \<noteq> CHR ''.'' \<and> c \<noteq> CHR ''-'') s)) / 10 ^ n
      in if has_prefix s ''-'' then - v else v)"

lemma decimal_chars: "0 \<le> k \<Longrightarrow> c \<in> set (decimal_text n k) \<Longrightarrow> decimal_digit c \<or> c = CHR ''.''"
proof -
  assume k: "0 \<le> k" "c \<in> set (decimal_text n k)"
  have "list_all decimal_digit (nat_text (k div 10 ^ n))" "list_all decimal_digit (nat_text (k mod 10 ^ n))"
    using k(1) by (auto intro!: nat_text_digits simp: pos_imp_zdiv_nonneg_iff)
  moreover have "decimal_digit CHR ''0''" by (simp add: decimal_digit_def)
  ultimately show ?thesis using k(2)
    by (auto simp: decimal_text_def zero_pad_def list_all_iff split: if_splits)
qed

theorem fixed_read: "\<bar>read_decimal n (fixed_text n (Fin a)) - a\<bar> \<le> 1 / (2 * 10 ^ n)"
proof -
  let ?k = "round_even (\<bar>a\<bar> * 10 ^ n)"
  have k: "0 \<le> ?k" using round_even_mono [of 0 "\<bar>a\<bar> * 10 ^ n"] by (simp add: round_even_def)
  have dash: "c \<noteq> CHR ''-''" if "c \<in> set (decimal_text n ?k)" for c
    using decimal_chars [OF k that] by (auto simp: decimal_digit_def)
  have f: "filter (\<lambda>c. c \<noteq> CHR ''.'' \<and> c \<noteq> CHR ''-'') (decimal_text n ?k) = filter (\<lambda>c. c \<noteq> CHR ''.'') (decimal_text n ?k)"
    using dash by (auto intro!: filter_cong)
  have v: "digits_val (filter (\<lambda>c. c \<noteq> CHR ''.'') (decimal_text n ?k)) = nat ?k" using decimal_text_read [OF k] by blast
  have np: "\<not> has_prefix (decimal_text n ?k) ''-''"
    using dash by (cases "decimal_text n ?k") (auto simp: has_prefix_def)
  have "read_decimal n (fixed_text n (Fin a)) = (if a < 0 then - (of_int ?k / 10 ^ n) else of_int ?k / 10 ^ n)"
  proof (cases "a < 0")
    case True
    then show ?thesis using f v k by (simp add: read_decimal_def has_prefix_def)
  next
    case False
    then show ?thesis using f v np k by (simp add: read_decimal_def)
  qed
  then have "\<bar>read_decimal n (fixed_text n (Fin a)) - a\<bar> = \<bar>of_int ?k / 10 ^ n - \<bar>a\<bar>\<bar>" by auto
  also have "\<dots> = \<bar>of_int ?k - \<bar>a\<bar> * 10 ^ n\<bar> / 10 ^ n"
    by (simp add: field_simps abs_divide flip: abs_mult)
  also have "\<dots> \<le> (1 / 2) / 10 ^ n" by (intro divide_right_mono round_even_error) simp
  finally show ?thesis by simp
qed

end
