(* ===== verification/Report_Text.thy ===== *)
theory Report_Text
  imports Go_Fmt Outcome
begin

text \<open>
  \<open>internal/report/report.go\<close>: the console report, as the lines it writes, and the texts every report
  shares: counts, durations, percentages, the observed value of a threshold, the lines of families,
  protocols and status codes; \<open>Scenario.Describe\<close> of \<open>internal/config/scenarios.go\<close>. Totals of the counts of
  a run are below \<open>2^63\<close>, as in \<open>checks_value\<close>. Lemmas: where the separators of a count are, and that it
  reads back; how close a printed duration is.
\<close>

section \<open>Counts, durations, percentages\<close>

function insert_commas :: "nat \<Rightarrow> string \<Rightarrow> string" where
  "insert_commas i s = (if i = 0 then s else insert_commas (i - 3) (take i s @ '','' @ drop i s))"
  by auto
termination by (relation "measure fst") auto

declare insert_commas.simps [simp del]

definition formatCount :: "int \<Rightarrow> string" where
  "formatCount n = (let s = itoa n in insert_commas (length s - 3) s)"

definition formatDuration :: "duration \<Rightarrow> string" where
  "formatDuration d =
     (if second \<le> d then fixed_text 2 (dur_Seconds d) @ ''s''
      else if millisecond \<le> d then fixed_text 2 (f64_div (f64_of_int d) (f64_of_int millisecond)) @ ''ms''
      else fixed_text 2 (f64_div (f64_of_int d) (f64_of_int microsecond)) @ [CHR 0xC2, CHR 0xB5, CHR ''s''])"

definition percent :: "int \<Rightarrow> int \<Rightarrow> string" where
  "percent part whole =
     (if whole = 0 then ''-'' else fixed_text 2 (f64_div (f64_mul (f64_of_int part) (Fin 100)) (f64_of_int whole)) @ ''%'')"

text \<open>\<open>n\<close> per second of a run; 0 when no time passed.\<close>

definition rate_of :: "int \<Rightarrow> duration \<Rightarrow> f64" where
  "rate_of n elapsed = (let secs = dur_Seconds elapsed in if f64_lt (Fin 0) secs then f64_div (f64_of_int n) secs else Fin 0)"

section \<open>Lines shared by the formats\<close>

definition protocolsLine :: "protocols \<Rightarrow> string" where
  "protocolsLine p =
     (if p_HTTP2 p = 0 then []
      else str_join ([''HTTP/2 '' @ formatCount (p_HTTP2 p)] @
        (if 0 < p_HTTP1 p then [''HTTP/1.1 '' @ formatCount (p_HTTP1 p)] else []) @
        (if 0 < p_Other p then [''other '' @ formatCount (p_Other p)] else [])) '', '')"

definition statusName :: "int \<Rightarrow> string" where
  "statusName code = (if code = 0 then ''other'' else itoa code)"

definition statusLine :: "(int \<times> int) list \<Rightarrow> string" where
  "statusLine codes = str_join (map (\<lambda>(code, count). statusName code @ '' '' @ formatCount count) codes) '', ''"

definition familyLine :: "familySummary \<Rightarrow> duration \<Rightarrow> string" where
  "familyLine f elapsed =
     (if fs_Kind f = Trend then
        formatCount (fs_Count f) @ '' samples'' @ (if 0 < fs_Failed f then '', '' @ formatCount (fs_Failed f) @ '' failed'' else []) @
        ''  avg='' @ formatDuration (fs_Mean f) @ '' p50='' @ formatDuration (fs_P50 f) @ '' p95='' @ formatDuration (fs_P95 f) @
        '' p99='' @ formatDuration (fs_P99 f) @ '' max='' @ formatDuration (fs_Max f)
      else if fs_Kind f = Rate then
        percent (fs_Trues f) (fs_Count f) @ '' ('' @ formatCount (fs_Trues f) @ '' of '' @ formatCount (fs_Count f) @ '')''
      else formatCount (fs_Count f) @ '' ('' @ fixed_text 1 (rate_of (fs_Count f) elapsed) @ ''/s)'')"

definition isShorthand :: "cfg_scenario list \<Rightarrow> bool" where
  "isShorthand scenarios \<longleftrightarrow> (case scenarios of [] \<Rightarrow> True
     | [s] \<Rightarrow> cs_Executor s = exec_ConstantVUs \<and> cs_Name s = DefaultScenario
     | _ \<Rightarrow> False)"

definition Describe :: "cfg_scenario \<Rightarrow> string" where
  "Describe s =
     cs_Name s @ '': '' @ cs_Executor s @
     (if cs_Executor s = exec_ConstantVUs then
        '', '' @ itoa (cs_VUs s) @ '' VUs for '' @ Duration_String (cs_Duration s)
      else if cs_Executor s = exec_RampingVUs then
        '', up to '' @ itoa (cs_MaxVUs s) @ '' VUs over '' @ Duration_String (cs_Length s)
      else if cs_Executor s = exec_ConstantArrivalRate then
        '', '' @ itoa (cs_Rate s) @ '' iterations per '' @ Duration_String (cs_TimeUnit s) @ '' for '' @
        Duration_String (cs_Duration s) @ '', '' @ itoa (cs_PreAllocatedVUs s) @ '' VUs''
      else []) @
     (if 0 < cs_StartTime s then '', starting at '' @ Duration_String (cs_StartTime s) else []) @
     (if cs_Exec s \<noteq> ''default'' then '', exec '' @ cs_Exec s else [])"

definition observed :: "result \<Rightarrow> string" where
  "observed r =
     (if re_NoData r then ''no data''
      else ''observed '' @ (if re_Approximate r then [CHR 0xE2, CHR 0x89, CHR 0x88] else []) @
        (case re_Unit r of
           Milliseconds \<Rightarrow> fixed_text 2 (re_Observed r) @ ''ms''
         | Fraction \<Rightarrow> fixed_text 4 (re_Observed r) @ '' ('' @ fixed_text 2 (f64_mul (re_Observed r) (Fin 100)) @ ''%)''
         | PerSecond \<Rightarrow> fixed_text 2 (re_Observed r) @ ''/s''
         | CountUnit \<Rightarrow> formatCount (f64_to_i64 (re_Observed r))))"

section \<open>The console\<close>

definition tick_mark :: string where
  "tick_mark = [CHR 0xE2, CHR 0x9C, CHR 0x93]"

definition cross_mark :: string where
  "cross_mark = [CHR 0xE2, CHR 0x9C, CHR 0x97]"

definition max_width :: "('a \<Rightarrow> nat) \<Rightarrow> 'a list \<Rightarrow> nat" where
  "max_width w xs = foldl (\<lambda>n x. max n (w x)) 0 xs"

definition printChecks :: "checkResult list \<Rightarrow> string list" where
  "printChecks checks =
     (if checks = [] then []
      else let passes = sum_list (map cr_Passes checks);
               tot = sum_list (map (\<lambda>c. cr_Passes c + cr_Fails c) checks);
               width = max_width (\<lambda>c. rune_count (cr_Name c)) checks
           in [''  Checks:      '' @ formatCount passes @ '' / '' @ formatCount tot @ '' passed ('' @ percent passes tot @ '')''] @
              concat (map (\<lambda>c. let n = cr_Passes c + cr_Fails c in
                [''    '' @ (if 0 < cr_Fails c then cross_mark else tick_mark) @ '' '' @ pad_right width (cr_Name c) @ ''  '' @
                   formatCount (cr_Passes c) @ '' / '' @ formatCount n @ ''  '' @ percent (cr_Passes c) n] @
                (if cr_FirstError c \<noteq> [] then [''        first error: '' @ cr_FirstError c] else [])) checks) @
              [[]])"

definition threshold_line :: "nat \<Rightarrow> nat \<Rightarrow> result \<Rightarrow> string" where
  "threshold_line mw ew r =
     ''    '' @ (if re_Passed r then tick_mark else cross_mark) @ '' '' @ pad_right mw (th_Metric (re_Threshold r)) @ ''  '' @
     pad_right ew (th_Expr (re_Threshold r)) @ ''  '' @ observed r"

definition printThresholds :: "result list \<Rightarrow> string list" where
  "printThresholds rs =
     (if rs = [] then []
      else let passed = length (filter re_Passed rs);
               mw = max_width (\<lambda>r. length (th_Metric (re_Threshold r))) rs;
               ew = max_width (\<lambda>r. rune_count (th_Expr (re_Threshold r))) rs
           in [''  Thresholds:  '' @ itoa (int passed) @ '' of '' @ itoa (int (length rs)) @ '' passed''] @
              map (threshold_line mw ew) rs @ [[]])"

definition printLatencies :: "(string \<times> duration) list \<Rightarrow> string list" where
  "printLatencies rows = map (\<lambda>(name, d). ''    '' @ pad_right 5 name @ '' '' @ pad_left 10 (formatDuration d)) rows"

definition printHTTPLatency :: "summary \<Rightarrow> string list" where
  "printHTTPLatency s =
     (if s_Sent s = 0 then [''  Latency:     no requests were sent'']
      else [''  Latency (all requests sent, failed included):''] @
        printLatencies [(''min'', s_Min s), (''mean'', s_Mean s), (''p50'', s_P50 s), (''p90'', s_P90 s), (''p95'', s_P95 s),
          (''p99'', s_P99 s), (''max'', s_Max s)] @
        (if s_Successes s = 0 then [''  Latency (successful requests): none succeeded'']
         else [''  Latency (successful requests):''] @
           printLatencies [(''p50'', s_SuccessP50 s), (''p90'', s_SuccessP90 s), (''p95'', s_SuccessP95 s), (''p99'', s_SuccessP99 s)]))"

definition family_text :: "nat \<Rightarrow> duration \<Rightarrow> familySummary \<Rightarrow> string" where
  "family_text width elapsed f = ''    '' @ pad_right width (fs_Name f) @ ''  '' @ familyLine f elapsed"

definition printFamilies :: "familySummary list \<Rightarrow> duration \<Rightarrow> string list" where
  "printFamilies fams elapsed =
     (let width = max_width (\<lambda>f. length (fs_Name f)) (filter fs_Used fams)
      in if width = 0 then []
         else [''  Protocol metrics:''] @ map (family_text width elapsed) (filter fs_Used fams))"

definition status_text :: "report \<Rightarrow> string" where
  "status_text r = (if rp_Interrupted r then ''interrupted (partial results)'' else ''completed'')"

definition scenario_lines :: "cfg_scenario list \<Rightarrow> string list" where
  "scenario_lines scs = (if isShorthand scs then []
     else map (\<lambda>(i, sc). ''  '' @ pad_right 12 (if i = 0 then ''Scenarios:'' else []) @ '' '' @ Describe sc) (zip [0..<length scs] scs))"

definition Console_lines :: "report \<Rightarrow> string list" where
  "Console_lines r =
     (let s = rp_Summary r in
      [[], ''LoadTool summary'', [],
       ''  Script:      '' @ rp_Script r,
       ''  VUs:         '' @ itoa (rp_VUs r),
       ''  Duration:    '' @ Duration_String (rp_Duration r) @ '' (elapsed '' @ formatDuration (rp_Elapsed r) @ '')''] @
      scenario_lines (rp_Scenarios r) @
      [''  Status:      '' @ status_text r] @
      (if rp_TeardownError r \<noteq> [] then [''  Teardown:    failed ('' @ rp_TeardownError r @ '')''] else []) @
      [[],
       ''  Requests:    '' @ formatCount (s_Requests s) @ '' ('' @ fixed_text 1 (rate_of (s_Requests s) (rp_Elapsed r)) @ '' req/s)'',
       ''  Success:     '' @ formatCount (s_Successes s),
       ''  Errors:      '' @ formatCount (s_Failures s) @ '' ('' @ fixed_text 2 (f64_mul (s_ErrorRate s) (Fin 100)) @ ''%)'',
       ''  Script errs: '' @ formatCount (s_ScriptErrors s)] @
      (if protocolsLine (s_Protocols s) \<noteq> [] then [''  Protocols:   '' @ protocolsLine (s_Protocols s)] else []) @
      (if statusLine (s_StatusCodes s) \<noteq> [] then [''  Statuses:    '' @ statusLine (s_StatusCodes s)] else []) @
      (if s_FirstScriptError s \<noteq> [] then [''    first:     '' @ s_FirstScriptError s] else []) @
      (if 0 < s_DroppedIterations s
       then [''  Dropped:     '' @ formatCount (s_DroppedIterations s) @ '' iterations (no free VU; raise preAllocatedVUs)''] else []) @
      [[]] @ printChecks (s_Checks s) @ printThresholds (rp_Thresholds r) @ printHTTPLatency s @
      printFamilies (s_Families s) (rp_Elapsed r))"

definition Console :: "report \<Rightarrow> string" where
  "Console r = concat (map (\<lambda>l. l @ [CHR 0x0A]) (Console_lines r))"

section \<open>What the texts say\<close>

text \<open>Threes from the end of a text: what \<open>insert_commas\<close> leaves of a reversed text.\<close>

fun group3 :: "string \<Rightarrow> string" where
  "group3 (a # b # c # d # r) = a # b # c # CHR '','' # group3 (d # r)"
| "group3 r = r"

lemma group3_step: "length q = 3 \<Longrightarrow> p \<noteq> [] \<Longrightarrow> group3 (q @ p) = q @ CHR '','' # group3 p"
  by (cases p; cases q; cases "tl q"; cases "tl (tl q)") auto

lemma group3_short: "length q \<le> 3 \<Longrightarrow> group3 q = q"
  by (induction q rule: group3.induct) auto

lemma insert_commas_group:
  "insert_commas (length p) (p @ q) = (if p = [] then q else rev (group3 (rev p)) @ CHR '','' # q)"
proof (induction "length p" arbitrary: p q rule: less_induct)
  case less
  show ?case
  proof (cases "p = []")
    case True
    then show ?thesis by (simp add: insert_commas.simps)
  next
    case False
    let ?p1 = "take (length p - 3) p" and ?p2 = "drop (length p - 3) p"
    have s: "insert_commas (length p) (p @ q) = insert_commas (length ?p1) (?p1 @ (?p2 @ CHR '','' # q))"
    proof -
      have "insert_commas (length p) (p @ q) = insert_commas (length p - 3) (take (length p) (p @ q) @ '','' @ drop (length p) (p @ q))"
        using False by (subst insert_commas.simps) simp
      moreover have "take (length p) (p @ q) @ '','' @ drop (length p) (p @ q) = ?p1 @ (?p2 @ CHR '','' # q)" by simp
      moreover have "length ?p1 = length p - 3" by simp
      ultimately show ?thesis by (simp only:)
    qed
    have l: "length ?p1 < length p" using False by simp
    show ?thesis
    proof (cases "length p \<le> 3")
      case True
      then have "?p1 = []" "?p2 = p" by simp_all
      then have "insert_commas (length p) (p @ q) = insert_commas 0 (p @ CHR '','' # q)" using s by (simp only: list.size append_Nil)
      then have "insert_commas (length p) (p @ q) = p @ CHR '','' # q" by (simp add: insert_commas.simps [of 0])
      then show ?thesis using False True by (simp add: group3_short)
    next
      case large: False
      then have n: "?p1 \<noteq> []" "length (rev ?p2) = 3" by auto
      have "rev p = rev ?p2 @ rev ?p1" by (simp flip: rev_append)
      then have "group3 (rev p) = rev ?p2 @ CHR '','' # group3 (rev ?p1)"
        using group3_step [OF n(2), of "rev ?p1"] n(1) by simp
      then have g: "rev (group3 (rev p)) = rev (group3 (rev ?p1)) @ CHR '','' # ?p2" by simp
      show ?thesis unfolding s less [OF l] g using n(1) False by simp
    qed
  qed
qed

lemma formatCount_group: "formatCount n = rev (group3 (rev (itoa n)))"
proof -
  let ?s = "itoa n"
  let ?p = "take (length ?s - 3) ?s" and ?q = "drop (length ?s - 3) ?s"
  have s: "formatCount n = (if ?p = [] then ?q else rev (group3 (rev ?p)) @ CHR '','' # ?q)"
    using insert_commas_group [of ?p ?q] by (simp add: formatCount_def Let_def)
  show ?thesis
  proof (cases "length ?s \<le> 3")
    case True
    then show ?thesis unfolding s by (simp add: group3_short)
  next
    case False
    then have n: "?p \<noteq> []" "length (rev ?q) = 3" by simp_all
    have "rev ?s = rev ?q @ rev ?p" by (simp flip: rev_append)
    then show ?thesis unfolding s using group3_step [OF n(2), of "rev ?p"] n(1) by simp
  qed
qed

lemma group3_commas:
  "CHR '','' \<notin> set r \<Longrightarrow> filter (\<lambda>c. c \<noteq> CHR '','') (group3 r) = r \<and>
     (\<forall>i<length (group3 r). group3 r ! i = CHR '','' \<longleftrightarrow> i mod 4 = 3) \<and> (r \<noteq> [] \<longrightarrow> last (group3 r) \<noteq> CHR '','')"
proof (induction r rule: group3.induct)
  case (1 a b c d r)
  have g: "group3 (a # b # c # d # r) = [a, b, c, CHR '',''] @ group3 (d # r)" by simp
  have IH: "filter (\<lambda>c. c \<noteq> CHR '','') (group3 (d # r)) = d # r"
    "\<And>i. i < length (group3 (d # r)) \<Longrightarrow> group3 (d # r) ! i = CHR '','' \<longleftrightarrow> i mod 4 = 3"
    "last (group3 (d # r)) \<noteq> CHR '',''" using 1 by auto
  have ne: "group3 (d # r) \<noteq> []" using IH(1) by auto
  have "group3 (a # b # c # d # r) ! i = CHR '','' \<longleftrightarrow> i mod 4 = 3" if i: "i < length (group3 (a # b # c # d # r))" for i
  proof (cases "i < 4")
    case True
    then consider "i = 0" | "i = 1" | "i = 2" | "i = 3" by linarith
    then show ?thesis using 1(2) by cases auto
  next
    case False
    then obtain j where j: "i = 4 + j" using le_Suc_ex by (metis not_less)
    then have "group3 (a # b # c # d # r) ! i = group3 (d # r) ! j" "j < length (group3 (d # r))"
      using i unfolding g by (simp_all add: nth_append)
    then show ?thesis using IH(2) [of j] j by simp
  qed
  moreover have "filter (\<lambda>c. c \<noteq> CHR '','') (group3 (a # b # c # d # r)) = a # b # c # d # r"
    unfolding g using IH(1) 1(2) by auto
  moreover have "last (group3 (a # b # c # d # r)) \<noteq> CHR '',''" unfolding g using ne IH(3) by simp
  ultimately show ?case by blast
qed (auto simp: less_Suc_eq nth_Cons split: nat.splits)

text \<open>C14: A printed count is read back. Without its separators it is the decimal number, which reads as the
  count, so two counts never print alike; and the separators stand exactly where they should: every
  fourth place from the end is a comma, no other place is, and the text does not begin with one.\<close>

theorem count_roundtrip:
  assumes "0 \<le> n"
  shows "filter (\<lambda>c. c \<noteq> CHR '','') (formatCount n) = itoa n \<and>
    digits_val (filter (\<lambda>c. c \<noteq> CHR '','') (formatCount n)) = nat n \<and>
    (\<forall>i<length (formatCount n). rev (formatCount n) ! i = CHR '','' \<longleftrightarrow> i mod 4 = 3) \<and> hd (formatCount n) \<noteq> CHR '',''"
proof -
  have i: "itoa n = nat_text n" using assms by (simp add: itoa_def)
  have "\<not> decimal_digit CHR '',''" by (simp add: decimal_digit_def)
  then have "CHR '','' \<notin> set (rev (itoa n))" using nat_text_digits [OF assms] by (auto simp: i list_all_iff)
  note g = group3_commas [OF this]
  have "filter (\<lambda>c. c \<noteq> CHR '','') (formatCount n) = itoa n"
    using g by (simp add: formatCount_group flip: rev_filter)
  moreover have "hd (formatCount n) \<noteq> CHR '',''" using g by (simp add: formatCount_group hd_rev)
  moreover have "\<forall>i<length (formatCount n). rev (formatCount n) ! i = CHR '','' \<longleftrightarrow> i mod 4 = 3"
    using g by (simp add: formatCount_group)
  ultimately show ?thesis using digits_val_nat_text [OF assms] by (simp add: i)
qed

theorem count_roundtrip_witness:
  "filter (\<lambda>c. c \<noteq> CHR '','') (formatCount 125430) = itoa 125430 \<and> formatCount 125430 = ''125,430'' \<and>
   rev (formatCount 125430) ! 3 = CHR '',''"
proof -
  have f: "formatCount 125430 = ''125,430''" by code_simp
  have "filter (\<lambda>c. c \<noteq> CHR '','') (formatCount 125430) = itoa 125430" using count_roundtrip [of 125430] by simp
  then show ?thesis using f by simp
qed

section \<open>How close a printed duration is\<close>

lemma f64_quotient:
  assumes "0 \<le> a" "a \<le> 2 ^ 53" "0 < b" "b \<le> 2 ^ 53"
  shows "\<exists>x. f64_div (f64_of_int a) (f64_of_int b) = Fin x \<and> \<bar>x - of_int a / of_int b\<bar> \<le> of_int a / of_int b / 2 ^ 53 + 1 / 10 ^ 30"
proof -
  let ?x = "(of_int a :: rat) / of_int b"
  have e: "f64_of_int a = Fin (of_int a)" "f64_of_int b = Fin (of_int b)"
    using assms by (auto intro!: f64_of_int_exact)
  have x0: "0 \<le> ?x" using assms by simp
  have "1 \<le> (of_int b :: rat)" using assms(3) by simp
  then have "?x \<le> of_int a" using assms(1,3) by (simp add: divide_le_eq mult_le_cancel_left1)
  also have "(of_int a :: rat) \<le> of_int (2 ^ 53)" using assms(2) unfolding of_int_le_iff .
  also have "\<dots> \<le> 10 ^ 30" by simp
  finally have "\<bar>?x\<bar> \<le> 10 ^ 30" using x0 by (simp only: abs_of_nonneg)
  then have "f64_of_rat ?x = Fin (f64_round ?x)" by (rule f64_bounded_Fin)
  moreover have "(of_int b :: rat) \<noteq> 0" using assms(3) by simp
  ultimately have "f64_div (f64_of_int a) (f64_of_int b) = Fin (f64_round ?x)" unfolding e by simp
  then show ?thesis using f64_step_error [of ?x ?x] x0 by (simp only: abs_of_nonneg order_refl) blast
qed

lemma two_roundings:
  fixes a b x :: rat
  assumes "\<bar>a - b\<bar> \<le> (x + x / 2 ^ 53 + 1 / 10 ^ 30) / 2 ^ 53 + 1 / 10 ^ 30" "\<bar>b - x\<bar> \<le> x / 2 ^ 53 + 1 / 10 ^ 30" "0 \<le> x"
  shows "\<bar>a - x\<bar> \<le> x / 2 ^ 51 + 4 / 10 ^ 30"
proof -
  have "\<bar>a - x\<bar> \<le> \<bar>a - b\<bar> + \<bar>b - x\<bar>" by linarith
  also have "\<dots> \<le> ((x + x / 2 ^ 53 + 1 / 10 ^ 30) / 2 ^ 53 + 1 / 10 ^ 30) + (x / 2 ^ 53 + 1 / 10 ^ 30)"
    by (rule add_mono [OF assms(1,2)])
  also have "\<dots> \<le> x / 2 ^ 51 + 4 / 10 ^ 30" using assms(3) by (simp add: field_simps)
  finally show ?thesis .
qed

lemma dur_Seconds_close:
  assumes "0 \<le> d" "in64 d"
  shows "\<exists>x. dur_Seconds d = Fin x \<and> \<bar>x - of_int d / 10 ^ 9\<bar> \<le> of_int d / 10 ^ 9 / 2 ^ 51 + 4 / 10 ^ 30"
proof -
  let ?q = "d div second" and ?r = "d mod second" and ?X = "(of_int d :: rat) / 10 ^ 9"
  have q: "0 \<le> ?q" "?q \<le> 10 ^ 10" "0 \<le> ?r" "?r < second" "(0 :: int) < second" using assms by (simp_all add: second_def in64_def)
  have g: "go_div d second = ?q" "d - ?q * second = ?r" using assms(1) q(5) by (simp_all add: go_div_nonneg minus_div_mult_eq_mod)
  have qe: "f64_of_int ?q = Fin (of_int ?q)" using q by (intro f64_of_int_exact) simp
  let ?f = "(of_int ?r :: rat) / of_int second"
  have s: "second \<le> 2 ^ 53" by (simp add: second_def)
  then have "?r \<le> 2 ^ 53" using q(4) by simp
  then obtain y where y: "f64_div (f64_of_int ?r) (f64_of_int second) = Fin y" "\<bar>y - ?f\<bar> \<le> ?f / 2 ^ 53 + 1 / 10 ^ 30"
    using f64_quotient [OF q(3) _ q(5) s] by blast
  have dr: "(of_int d :: rat) = of_int ?q * of_int second + of_int ?r"
    unfolding of_int_mult [symmetric] of_int_add [symmetric] by simp
  then have X1: "of_int ?q + ?f = ?X" by (simp add: second_def field_simps)
  have f0: "0 \<le> ?f" using q(3,5) by simp
  have f1: "?f \<le> ?X" using X1 q(1) by (metis le_add_same_cancel2 of_int_0_le_iff)
  have "(of_int d :: rat) \<le> of_int (2 ^ 63)" using assms(2) unfolding in64_def of_int_le_iff by simp
  then have X2: "?X \<le> 10 ^ 11" by simp
  have "y + of_int ?q - ?X = y - ?f" using X1 by linarith
  then have e1: "\<bar>of_int ?q + y - ?X\<bar> \<le> ?X / 2 ^ 53 + 1 / 10 ^ 30"
    using y(2) divide_right_mono [OF f1, of "2 ^ 53"] by (simp add: add.commute)
  have X0: "0 \<le> ?X" using assms(1) by simp
  have b: "\<bar>of_int ?q + y\<bar> \<le> ?X + ?X / 2 ^ 53 + 1 / 10 ^ 30" using e1 X0 unfolding abs_le_iff by linarith
  then have "\<bar>of_int ?q + y\<bar> \<le> 10 ^ 30" using X2 by simp
  then have "dur_Seconds d = Fin (f64_round (of_int ?q + y))"
    unfolding dur_Seconds_def g qe y(1) by (simp add: f64_bounded_Fin)
  moreover have "\<bar>f64_round (of_int ?q + y) - (of_int ?q + y)\<bar> \<le> (?X + ?X / 2 ^ 53 + 1 / 10 ^ 30) / 2 ^ 53 + 1 / 10 ^ 30"
    by (rule f64_step_error [OF b])
  then have "\<bar>f64_round (of_int ?q + y) - ?X\<bar> \<le> ?X / 2 ^ 51 + 4 / 10 ^ 30"
    using e1 X0 by (rule two_roundings)
  ultimately show ?thesis by blast
qed

text \<open>A printed duration, in the unit it is printed in.\<close>

definition duration_unit :: "duration \<Rightarrow> string \<times> duration" where
  "duration_unit d = (if second \<le> d then (''s'', second) else if millisecond \<le> d then (''ms'', millisecond)
     else ([CHR 0xC2, CHR 0xB5, CHR ''s''], microsecond))"

lemma duration_in_unit:
  assumes "0 \<le> d" "in64 d" "duration_unit d = (u, unit)"
  shows "\<exists>x. formatDuration d = fixed_text 2 (Fin x) @ u \<and>
    \<bar>x - of_int d / of_int unit\<bar> \<le> of_int d / of_int unit / 2 ^ 51 + 4 / 10 ^ 30"
proof (cases "second \<le> d")
  case True
  obtain x where "dur_Seconds d = Fin x" "\<bar>x - of_int d / 10 ^ 9\<bar> \<le> of_int d / 10 ^ 9 / 2 ^ 51 + 4 / 10 ^ 30"
    using dur_Seconds_close [OF assms(1,2)] by blast
  then show ?thesis using True assms(3) by (auto simp: duration_unit_def formatDuration_def second_def)
next
  case False
  have unit: "0 < unit" "unit \<le> 2 ^ 53" "u = (if millisecond \<le> d then ''ms'' else [CHR 0xC2, CHR 0xB5, CHR ''s''])"
    "unit = (if millisecond \<le> d then millisecond else microsecond)"
    using False assms(3) by (auto simp: duration_unit_def millisecond_def microsecond_def split: if_splits)
  have "d \<le> 2 ^ 53" using False by (simp add: second_def)
  then obtain x where x: "f64_div (f64_of_int d) (f64_of_int unit) = Fin x"
    "\<bar>x - of_int d / of_int unit\<bar> \<le> of_int d / of_int unit / 2 ^ 53 + 1 / 10 ^ 30"
    using f64_quotient [OF assms(1) _ unit(1,2)] by blast
  have p: "0 \<le> (of_int d :: rat) / of_int unit" using assms(1) unit(1) by simp
  have w: "z / 2 ^ 53 + 1 / 10 ^ 30 \<le> z / 2 ^ 51 + 4 / 10 ^ 30" if "0 \<le> z" for z :: rat using that by simp
  have "\<bar>x - of_int d / of_int unit\<bar> \<le> of_int d / of_int unit / 2 ^ 51 + 4 / 10 ^ 30"
    by (rule order_trans [OF x(2) w [OF p]])
  moreover have "formatDuration d = fixed_text 2 (Fin x) @ u"
    using False x(1) unit(3,4) by (cases "millisecond \<le> d") (simp_all add: formatDuration_def del: fixed_text.simps)
  ultimately show ?thesis by blast
qed

text \<open>A printed duration is close. It is printed in seconds, milliseconds or microseconds, by its size;
  the number read back, in that unit, differs from the duration by at most half a hundredth of the
  unit and the rounding of the floats, a part in \<open>2^50\<close>.\<close>

theorem duration_text_close:
  assumes "0 \<le> d" "in64 d"
  shows "case duration_unit d of (u, unit) \<Rightarrow> \<exists>t. formatDuration d = t @ u \<and>
     \<bar>read_decimal 2 t * of_int unit - of_int d\<bar> \<le> of_int unit / 200 + of_int d / 2 ^ 50 + 1 / 10 ^ 20"
proof -
  obtain u unit where u: "duration_unit d = (u, unit)" by fastforce
  have un: "0 < unit" "unit \<le> 10 ^ 9"
    using u by (auto simp: duration_unit_def second_def millisecond_def microsecond_def split: if_splits)
  obtain x where x: "formatDuration d = fixed_text 2 (Fin x) @ u"
    "\<bar>x - of_int d / of_int unit\<bar> \<le> of_int d / of_int unit / 2 ^ 51 + 4 / 10 ^ 30"
    using duration_in_unit [OF assms u] by blast
  let ?r = "read_decimal 2 (fixed_text 2 (Fin x))" and ?u = "of_int unit :: rat"
  have "?u \<le> of_int (10 ^ 9)" unfolding of_int_le_iff by (rule un(2))
  then have u0: "0 < ?u" "?u \<le> 10 ^ 9" using un(1) by simp_all
  have "\<bar>?r - x\<bar> \<le> 1 / 200" using fixed_read [of 2 x] by simp
  then have "\<bar>?r - of_int d / ?u\<bar> \<le> 1 / 200 + (of_int d / ?u / 2 ^ 51 + 4 / 10 ^ 30)"
    using x(2) by linarith
  then have "\<bar>?r - of_int d / ?u\<bar> * ?u \<le> (1 / 200 + (of_int d / ?u / 2 ^ 51 + 4 / 10 ^ 30)) * ?u"
    using u0(1) by (intro mult_right_mono) simp_all
  moreover have "\<bar>?r - of_int d / ?u\<bar> * ?u = \<bar>(?r - of_int d / ?u) * ?u\<bar>"
    unfolding abs_mult using u0(1) by simp
  moreover have "(?r - of_int d / ?u) * ?u = ?r * ?u - of_int d" using u0(1) by (simp add: left_diff_distrib)
  moreover have "(1 / 200 + (of_int d / ?u / 2 ^ 51 + 4 / 10 ^ 30)) * ?u = ?u / 200 + of_int d / 2 ^ 51 + 4 / 10 ^ 30 * ?u"
    using u0(1) by (simp add: distrib_right)
  moreover have "4 / 10 ^ 30 * ?u \<le> 1 / 10 ^ 20" using u0(2) by simp
  moreover have "(of_int d :: rat) / 2 ^ 51 \<le> of_int d / 2 ^ 50" using assms(1) by simp
  ultimately have "\<bar>?r * ?u - of_int d\<bar> \<le> ?u / 200 + of_int d / 2 ^ 50 + 1 / 10 ^ 20" by linarith
  then show ?thesis unfolding u split using x(1) by blast
qed

theorem duration_text_close_witness:
  "duration_unit 1500000 = (''ms'', millisecond) \<and>
   (\<exists>t. formatDuration 1500000 = t @ ''ms'' \<and> \<bar>read_decimal 2 t * of_int millisecond - 1500000\<bar> \<le> 5001)"
proof -
  have u: "duration_unit 1500000 = (''ms'', millisecond)" by (simp add: duration_unit_def second_def millisecond_def)
  obtain t where t: "formatDuration 1500000 = t @ ''ms''"
    "\<bar>read_decimal 2 t * of_int millisecond - of_int 1500000\<bar> \<le> of_int millisecond / 200 + of_int 1500000 / 2 ^ 50 + 1 / 10 ^ 20"
  proof -
    have "case duration_unit 1500000 of (u, unit) \<Rightarrow> \<exists>t. formatDuration 1500000 = t @ u \<and>
       \<bar>read_decimal 2 t * of_int unit - of_int 1500000\<bar> \<le> of_int unit / 200 + of_int 1500000 / 2 ^ 50 + 1 / 10 ^ 20"
      by (rule duration_text_close) (simp_all add: in64_def)
    then show thesis unfolding u split using that by blast
  qed
  have "\<bar>read_decimal 2 t * of_int millisecond - 1500000\<bar> \<le> 5001" using t(2) by (simp add: millisecond_def)
  then show ?thesis using u t(1) by blast
qed

end
