(* ===== verification/Go_Time.thy ===== *)
theory Go_Time
  imports Go_Fmt
begin

text \<open>
  What the reports use of package \<open>time\<close>: the calendar date and the time of day of a moment in UTC. A
  moment is the nanoseconds since 1970; the zero \<open>time.Time\<close> is January 1 of the year 1. Evaluated on
  days around the leap days of the calendar.
\<close>

definition day_ns :: int where "day_ns = 86400 * 1000000000"

definition zero_time :: int where "zero_time = - 62135596800 * 1000000000"

text \<open>The year, month and day of the day \<open>n\<close> days after January 1, 1970; years run from March, in eras of 400.\<close>

definition date_of_day :: "int \<Rightarrow> int \<times> int \<times> int" where
  "date_of_day n =
     (let z = n + 719468; era = z div 146097; doe = z mod 146097;
          yoe = (doe - doe div 1460 + doe div 36524 - doe div 146096) div 365;
          doy = doe - (365 * yoe + yoe div 4 - yoe div 100);
          mp = (5 * doy + 2) div 153;
          d = doy - (153 * mp + 2) div 5 + 1;
          m = (if mp < 10 then mp + 3 else mp - 9)
      in (yoe + era * 400 + (if m \<le> 2 then 1 else 0), m, d))"

definition two :: "int \<Rightarrow> string" where
  "two n = zero_pad 2 (nat_text n)"

definition date_text :: "int \<Rightarrow> string" where
  "date_text t = (case date_of_day (t div day_ns) of
     (y, m, d) \<Rightarrow> (if y < 0 then ''-'' else []) @ zero_pad 4 (nat_text \<bar>y\<bar>) @ ''-'' @ two m @ ''-'' @ two d)"

definition clock_text :: "int \<Rightarrow> string" where
  "clock_text t = (let s = t mod day_ns div 1000000000
     in two (s div 3600) @ '':'' @ two (s div 60 mod 60) @ '':'' @ two (s mod 60))"

text \<open>\<open>Format("2006-01-02T15:04:05.000Z07:00")\<close> and \<open>Format("2006-01-02 15:04:05 UTC")\<close> of a UTC time.\<close>

definition rfc3339_millis :: "int \<Rightarrow> string" where
  "rfc3339_millis t = date_text t @ ''T'' @ clock_text t @ ''.'' @ zero_pad 3 (nat_text (t mod 1000000000 div 1000000)) @ ''Z''"

definition plain_utc :: "int \<Rightarrow> string" where
  "plain_utc t = date_text t @ '' '' @ clock_text t @ '' UTC''"

lemma date_examples:
  "date_of_day 0 = (1970, 1, 1)" "date_of_day 11016 = (2000, 2, 29)" "date_of_day 20513 = (2026, 3, 1)"
  "date_of_day (zero_time div day_ns) = (1, 1, 1)"
  "rfc3339_millis 1772366645123456789 = ''2026-03-01T12:04:05.123Z''"
  by code_simp+

end
