(* ===== verification/Report_Json.thy ===== *)
theory Report_Json
  imports Report_Text Go_Time "HOL-Library.AList"
begin

text \<open>
  \<open>internal/report/json.go\<close>: the JSON summary. \<open>buildJSON\<close> fills the document's structs, one record each;
  their encoding, with the names of the struct tags and \<open>omitempty\<close>, is a value of \<open>jout\<close>, and \<open>JSON\<close> fails,
  as \<open>encoding/json\<close> does, when it has a float that is not finite. Lemmas: every number of a summary whose
  fields are 64-bit integers is finite, so the summary is always written; which keys of the metrics object
  can occur twice.
\<close>

section \<open>Encoding\<close>

datatype jout =
    ONull
  | OBool bool
  | OInt int
  | OFloat f64
  | OStr string
  | OArr "jout list"
  | OObj "(string \<times> jout) list"

fun finite_float :: "f64 \<Rightarrow> bool" where
  "finite_float (Fin _) = True"
| "finite_float _ = False"

fun encodable :: "jout \<Rightarrow> bool" where
  "encodable (OFloat x) = finite_float x"
| "encodable (OArr vs) = list_all encodable vs"
| "encodable (OObj kvs) = list_all (\<lambda>(k, v). encodable v) kvs"
| "encodable _ = True"

definition float_or_null :: "f64 option \<Rightarrow> jout" where
  "float_or_null x = (case x of None \<Rightarrow> ONull | Some v \<Rightarrow> OFloat v)"

definition omit_float :: "string \<Rightarrow> f64 option \<Rightarrow> (string \<times> jout) list" where
  "omit_float k x = (case x of None \<Rightarrow> [] | Some v \<Rightarrow> [(k, OFloat v)])"

definition omit_int :: "string \<Rightarrow> int option \<Rightarrow> (string \<times> jout) list" where
  "omit_int k x = (case x of None \<Rightarrow> [] | Some v \<Rightarrow> [(k, OInt v)])"

section \<open>The structs\<close>

record jsonPtDur =
  jd_Avg :: f64
  jd_P50 :: f64
  jd_P95 :: f64
  jd_P99 :: f64

definition ptDur_value :: "jsonPtDur \<Rightarrow> jout" where
  "ptDur_value d = OObj [(''avg'', OFloat (jd_Avg d)), (''p50'', OFloat (jd_P50 d)), (''p95'', OFloat (jd_P95 d)),
     (''p99'', OFloat (jd_P99 d))]"

record jsonPoint =
  jp_AtMs :: f64
  jp_VUs :: int
  jp_HTTPReqs :: int
  jp_HTTPReqFailed :: int
  jp_Duration :: "jsonPtDur option"

definition point_value :: "jsonPoint \<Rightarrow> jout" where
  "point_value p = OObj [(''atMs'', OFloat (jp_AtMs p)), (''vus'', OInt (jp_VUs p)), (''http_reqs'', OInt (jp_HTTPReqs p)),
     (''http_req_failed'', OInt (jp_HTTPReqFailed p)),
     (''http_req_duration'', case jp_Duration p of None \<Rightarrow> ONull | Some d \<Rightarrow> ptDur_value d)]"

record jsonOutcome =
  jo_Passed :: bool
  jo_ExitCode :: int
  jo_Reasons :: "string list"

definition outcome_value :: "jsonOutcome \<Rightarrow> jout" where
  "outcome_value x = OObj [(''passed'', OBool (jo_Passed x)), (''exitCode'', OInt (jo_ExitCode x)),
     (''reasons'', OArr (map OStr (jo_Reasons x)))]"

record jsonStage =
  jg_DurationMs :: f64
  jg_Target :: int

definition stage_value :: "jsonStage \<Rightarrow> jout" where
  "stage_value g = OObj [(''durationMs'', OFloat (jg_DurationMs g)), (''target'', OInt (jg_Target g))]"

record jsonScenario =
  jsc_Name :: string
  jsc_Executor :: string
  jsc_Exec :: string
  jsc_StartTimeMs :: f64
  jsc_GracefulStopMs :: f64
  jsc_VUs :: "int option"
  jsc_DurationMs :: "f64 option"
  jsc_StartVUs :: "int option"
  jsc_Stages :: "jsonStage list"
  jsc_GracefulRampDownMs :: "f64 option"
  jsc_Rate :: "int option"
  jsc_TimeUnitMs :: "f64 option"
  jsc_PreAllocatedVUs :: "int option"

definition scenario_value :: "jsonScenario \<Rightarrow> jout" where
  "scenario_value j = OObj ([(''name'', OStr (jsc_Name j)), (''executor'', OStr (jsc_Executor j)), (''exec'', OStr (jsc_Exec j)),
     (''startTimeMs'', OFloat (jsc_StartTimeMs j)), (''gracefulStopMs'', OFloat (jsc_GracefulStopMs j))] @
     omit_int ''vus'' (jsc_VUs j) @ omit_float ''durationMs'' (jsc_DurationMs j) @ omit_int ''startVUs'' (jsc_StartVUs j) @
     (if jsc_Stages j = [] then [] else [(''stages'', OArr (map stage_value (jsc_Stages j)))]) @
     omit_float ''gracefulRampDownMs'' (jsc_GracefulRampDownMs j) @ omit_int ''rate'' (jsc_Rate j) @
     omit_float ''timeUnitMs'' (jsc_TimeUnitMs j) @ omit_int ''preAllocatedVUs'' (jsc_PreAllocatedVUs j))"

record jsonConfig =
  jc_VUs :: int
  jc_DurationMs :: f64
  jc_Scenarios :: "jsonScenario list"

definition config_value :: "jsonConfig \<Rightarrow> jout" where
  "config_value c = OObj [(''vus'', OInt (jc_VUs c)), (''durationMs'', OFloat (jc_DurationMs c)),
     (''scenarios'', OArr (map scenario_value (jc_Scenarios c)))]"

record jsonCounter =
  jk_Count :: int
  jk_Rate :: f64

definition counter_value :: "jsonCounter \<Rightarrow> jout" where
  "counter_value c = OObj [(''count'', OInt (jk_Count c)), (''rate'', OFloat (jk_Rate c))]"

record jsonRate =
  jr_Rate :: "f64 option"
  jr_Passes :: int
  jr_Fails :: int
  jr_Count :: int

definition rate_value :: "jsonRate \<Rightarrow> jout" where
  "rate_value r = OObj [(''rate'', float_or_null (jr_Rate r)), (''passes'', OInt (jr_Passes r)), (''fails'', OInt (jr_Fails r)),
     (''count'', OInt (jr_Count r))]"

record jsonTrend =
  jt_Count :: int
  jt_Min :: "f64 option"
  jt_Avg :: "f64 option"
  jt_Max :: "f64 option"
  jt_P50 :: f64
  jt_P90 :: f64
  jt_P95 :: f64
  jt_P99 :: f64

definition trend_value :: "jsonTrend \<Rightarrow> jout" where
  "trend_value t = OObj ([(''count'', OInt (jt_Count t))] @ omit_float ''min'' (jt_Min t) @ omit_float ''avg'' (jt_Avg t) @
     omit_float ''max'' (jt_Max t) @ [(''p50'', OFloat (jt_P50 t)), (''p90'', OFloat (jt_P90 t)), (''p95'', OFloat (jt_P95 t)),
     (''p99'', OFloat (jt_P99 t))])"

record jsonFailed =
  jf_Rate :: "f64 option"
  jf_Failed :: int
  jf_Count :: int

definition failed_json :: "jsonFailed \<Rightarrow> jout" where
  "failed_json f = OObj [(''rate'', float_or_null (jf_Rate f)), (''failed'', OInt (jf_Failed f)), (''count'', OInt (jf_Count f))]"

text \<open>The value of a family: \<open>jsonFamilyTrend\<close>, \<open>jsonFamilyCounter\<close> or \<open>jsonFamilyRate\<close>.\<close>

datatype family_json =
    FamilyTrend (ft_Count: int) (ft_Failed: int) (ft_Min: f64) (ft_Avg: f64) (ft_Max: f64) (ft_P50: f64) (ft_P90: f64) (ft_P95: f64) (ft_P99: f64)
  | FamilyCounter (fc_Count: int) (fc_Rate: f64)
  | FamilyRate (fr_Rate: f64) (fr_Trues: int) (fr_Count: int)

fun family_value :: "family_json \<Rightarrow> jout" where
  "family_value (FamilyTrend n failed mn avg mx p50 p90 p95 p99) = OObj [(''kind'', OStr ''trend''), (''count'', OInt n),
     (''failed'', OInt failed), (''min'', OFloat mn), (''avg'', OFloat avg), (''max'', OFloat mx), (''p50'', OFloat p50),
     (''p90'', OFloat p90), (''p95'', OFloat p95), (''p99'', OFloat p99)]"
| "family_value (FamilyCounter n rate) = OObj [(''kind'', OStr ''counter''), (''count'', OInt n), (''rate'', OFloat rate)]"
| "family_value (FamilyRate rate trues n) = OObj [(''kind'', OStr ''rate''), (''rate'', OFloat rate), (''trues'', OInt trues),
     (''count'', OInt n)]"

record jsonMetrics =
  jm_HTTPReqs :: jsonCounter
  jm_HTTPReqFailed :: jsonFailed
  jm_HTTPReqDuration :: "jsonTrend option"
  jm_SuccessDuration :: "jsonTrend option"
  jm_Iterations :: jsonCounter
  jm_DroppedIterations :: jsonCounter
  jm_Checks :: jsonRate
  jm_ScriptErrors :: "int \<times> string"
  jm_HTTPProtocols :: protocols
  jm_HTTPStatusCodes :: "(string \<times> int) list"
  jm_families :: "(string \<times> family_json) list"

text \<open>The fixed metrics, then the families. The encoder sorts the keys of a map.\<close>

definition metrics_value :: "jsonMetrics \<Rightarrow> jout" where
  "metrics_value m = OObj ([(''http_reqs'', counter_value (jm_HTTPReqs m)), (''http_req_failed'', failed_json (jm_HTTPReqFailed m)),
     (''http_req_duration'', case jm_HTTPReqDuration m of None \<Rightarrow> ONull | Some t \<Rightarrow> trend_value t),
     (''http_req_duration_successful'', case jm_SuccessDuration m of None \<Rightarrow> ONull | Some t \<Rightarrow> trend_value t),
     (''iterations'', counter_value (jm_Iterations m)), (''dropped_iterations'', counter_value (jm_DroppedIterations m)),
     (''checks'', rate_value (jm_Checks m)),
     (''script_errors'', OObj [(''count'', OInt (fst (jm_ScriptErrors m))), (''first'', OStr (snd (jm_ScriptErrors m)))]),
     (''http_protocols'', OObj [(''http1'', OInt (p_HTTP1 (jm_HTTPProtocols m))), (''http2'', OInt (p_HTTP2 (jm_HTTPProtocols m))),
        (''other'', OInt (p_Other (jm_HTTPProtocols m)))]),
     (''http_status_codes'', OObj (map (\<lambda>(k, n). (k, OInt n)) (sort_key fst (jm_HTTPStatusCodes m))))] @
     map (\<lambda>(name, v). (name, family_value v)) (jm_families m))"

record jsonCheck =
  jh_Name :: string
  jh_Passes :: int
  jh_Fails :: int
  jh_Rate :: "f64 option"
  jh_FirstError :: string

definition check_value :: "jsonCheck \<Rightarrow> jout" where
  "check_value c = OObj [(''name'', OStr (jh_Name c)), (''passes'', OInt (jh_Passes c)), (''fails'', OInt (jh_Fails c)),
     (''rate'', float_or_null (jh_Rate c)), (''firstError'', OStr (jh_FirstError c))]"

record jsonThreshold =
  jth_Metric :: string
  jth_Expression :: string
  jth_Passed :: bool
  jth_NoData :: bool
  jth_Observed :: "f64 option"
  jth_Unit :: string
  jth_Approximate :: bool

definition threshold_json :: "jsonThreshold \<Rightarrow> jout" where
  "threshold_json t = OObj [(''metric'', OStr (jth_Metric t)), (''expression'', OStr (jth_Expression t)), (''passed'', OBool (jth_Passed t)),
     (''noData'', OBool (jth_NoData t)), (''observed'', float_or_null (jth_Observed t)), (''unit'', OStr (jth_Unit t)),
     (''approximate'', OBool (jth_Approximate t))]"

record jsonSummary =
  js_SchemaVersion :: int
  js_Tool :: "string \<times> string"
  js_Script :: string
  js_Status :: string
  js_Outcome :: jsonOutcome
  js_StartedAt :: string
  js_ElapsedMs :: f64
  js_TeardownError :: string
  js_Config :: jsonConfig
  js_Metrics :: jsonMetrics
  js_Checks :: "jsonCheck list"
  js_Thresholds :: "jsonThreshold list"
  js_Series :: "jsonPoint list"

definition summary_value :: "jsonSummary \<Rightarrow> jout" where
  "summary_value d = OObj [(''schemaVersion'', OInt (js_SchemaVersion d)),
     (''tool'', OObj [(''name'', OStr (fst (js_Tool d))), (''version'', OStr (snd (js_Tool d)))]), (''script'', OStr (js_Script d)),
     (''status'', OStr (js_Status d)), (''outcome'', outcome_value (js_Outcome d)), (''startedAt'', OStr (js_StartedAt d)),
     (''elapsedMs'', OFloat (js_ElapsedMs d)), (''teardownError'', OStr (js_TeardownError d)), (''config'', config_value (js_Config d)),
     (''metrics'', metrics_value (js_Metrics d)), (''checks'', OArr (map check_value (js_Checks d))),
     (''thresholds'', OArr (map threshold_json (js_Thresholds d))), (''series'', OArr (map point_value (js_Series d)))]"

section \<open>Building the document\<close>

definition SchemaVersion :: int where "SchemaVersion = 1"

text \<open>\<open>ms\<close> is \<open>to_ms\<close> of the thresholds.\<close>

definition fraction :: "int \<Rightarrow> int \<Rightarrow> f64 option" where
  "fraction part whole = (if whole = 0 then None else Some (f64_div (f64_of_int part) (f64_of_int whole)))"

definition perSecond :: "duration \<Rightarrow> int \<Rightarrow> f64" where
  "perSecond elapsed n = (if elapsed \<le> 0 then Fin 0 else f64_div (f64_of_int n) (dur_Seconds elapsed))"

definition familiesJSON :: "familySummary list \<Rightarrow> (int \<Rightarrow> f64) \<Rightarrow> (string \<times> family_json) list" where
  "familiesJSON fams per = map (\<lambda>f. (fs_Name f,
     if fs_Kind f = Trend then FamilyTrend (fs_Count f) (fs_Failed f) (to_ms (fs_Min f)) (to_ms (fs_Mean f)) (to_ms (fs_Max f))
          (to_ms (fs_P50 f)) (to_ms (fs_P90 f)) (to_ms (fs_P95 f)) (to_ms (fs_P99 f))
     else if fs_Kind f = Rate then FamilyRate (f64_div (f64_of_int (fs_Trues f)) (f64_of_int (fs_Count f))) (fs_Trues f) (fs_Count f)
     else FamilyCounter (fs_Count f) (per (fs_Count f)))) (filter fs_Used fams)"

text \<open>A Go map: the last count of a name.\<close>

definition statusCodesJSON :: "(int \<times> int) list \<Rightarrow> (string \<times> int) list" where
  "statusCodesJSON codes = foldl (\<lambda>m (code, count). AList.update (statusName code) count m) [] codes"

definition outcomeJSON :: "outcome \<Rightarrow> jsonOutcome" where
  "outcomeJSON x = \<lparr>jo_Passed = oc_Passed x, jo_ExitCode = oc_ExitCode x, jo_Reasons = oc_Reasons x\<rparr>"

definition scenarioJSON :: "cfg_scenario \<Rightarrow> jsonScenario" where
  "scenarioJSON sc =
     (let j = \<lparr>jsc_Name = cs_Name sc, jsc_Executor = cs_Executor sc, jsc_Exec = cs_Exec sc, jsc_StartTimeMs = to_ms (cs_StartTime sc),
               jsc_GracefulStopMs = to_ms (cs_GracefulStop sc), jsc_VUs = None, jsc_DurationMs = None, jsc_StartVUs = None,
               jsc_Stages = [], jsc_GracefulRampDownMs = None, jsc_Rate = None, jsc_TimeUnitMs = None, jsc_PreAllocatedVUs = None\<rparr>
      in if cs_Executor sc = exec_ConstantVUs
         then j\<lparr>jsc_VUs := Some (cs_VUs sc), jsc_DurationMs := Some (to_ms (cs_Duration sc))\<rparr>
         else if cs_Executor sc = exec_RampingVUs
         then j\<lparr>jsc_StartVUs := Some (cs_StartVUs sc), jsc_GracefulRampDownMs := Some (to_ms (cs_GracefulRampDown sc)),
                jsc_Stages := map (\<lambda>st. \<lparr>jg_DurationMs = to_ms (cst_Duration st), jg_Target = cst_Target st\<rparr>) (cs_Stages sc)\<rparr>
         else if cs_Executor sc = exec_ConstantArrivalRate
         then j\<lparr>jsc_Rate := Some (cs_Rate sc), jsc_TimeUnitMs := Some (to_ms (cs_TimeUnit sc)),
                jsc_DurationMs := Some (to_ms (cs_Duration sc)), jsc_PreAllocatedVUs := Some (cs_PreAllocatedVUs sc)\<rparr>
         else j)"

definition unitName :: "metric_unit \<Rightarrow> string" where
  "unitName u = (case u of Milliseconds \<Rightarrow> ''ms'' | Fraction \<Rightarrow> ''fraction'' | PerSecond \<Rightarrow> ''per-second'' | CountUnit \<Rightarrow> ''count'')"

definition pointJSON :: "point \<Rightarrow> jsonPoint" where
  "pointJSON p = \<lparr>jp_AtMs = to_ms (pt_At p), jp_VUs = pt_VUs p, jp_HTTPReqs = pt_Requests p, jp_HTTPReqFailed = pt_Failed p,
     jp_Duration = (if 0 < pt_Requests p
        then Some \<lparr>jd_Avg = to_ms (pt_Mean p), jd_P50 = to_ms (pt_P50 p), jd_P95 = to_ms (pt_P95 p), jd_P99 = to_ms (pt_P99 p)\<rparr>
        else None)\<rparr>"

definition thresholdJSON :: "result \<Rightarrow> jsonThreshold" where
  "thresholdJSON t = \<lparr>jth_Metric = th_Metric (re_Threshold t), jth_Expression = th_Expr (re_Threshold t), jth_Passed = re_Passed t,
     jth_NoData = re_NoData t, jth_Observed = (if re_NoData t then None else Some (re_Observed t)), jth_Unit = unitName (re_Unit t),
     jth_Approximate = re_Approximate t\<rparr>"

definition checkJSON :: "checkResult \<Rightarrow> jsonCheck" where
  "checkJSON c = \<lparr>jh_Name = cr_Name c, jh_Passes = cr_Passes c, jh_Fails = cr_Fails c,
     jh_Rate = fraction (cr_Passes c) (cr_Passes c + cr_Fails c), jh_FirstError = cr_FirstError c\<rparr>"

definition trendJSON :: "summary \<Rightarrow> jsonTrend option" where
  "trendJSON s = (if 0 < s_Sent s
     then Some \<lparr>jt_Count = s_Sent s, jt_Min = Some (to_ms (s_Min s)), jt_Avg = Some (to_ms (s_Mean s)), jt_Max = Some (to_ms (s_Max s)),
       jt_P50 = to_ms (s_P50 s), jt_P90 = to_ms (s_P90 s), jt_P95 = to_ms (s_P95 s), jt_P99 = to_ms (s_P99 s)\<rparr>
     else None)"

definition successJSON :: "summary \<Rightarrow> jsonTrend option" where
  "successJSON s = (if 0 < s_Successes s
     then Some \<lparr>jt_Count = s_Successes s, jt_Min = None, jt_Avg = None, jt_Max = None, jt_P50 = to_ms (s_SuccessP50 s),
       jt_P90 = to_ms (s_SuccessP90 s), jt_P95 = to_ms (s_SuccessP95 s), jt_P99 = to_ms (s_SuccessP99 s)\<rparr>
     else None)"

definition metricsJSON :: "summary \<Rightarrow> (int \<Rightarrow> f64) \<Rightarrow> jsonMetrics" where
  "metricsJSON s per =
     (let passes = sum_list (map cr_Passes (s_Checks s));
          tot = sum_list (map (\<lambda>c. cr_Passes c + cr_Fails c) (s_Checks s))
      in \<lparr>jm_HTTPReqs = \<lparr>jk_Count = s_Requests s, jk_Rate = per (s_Requests s)\<rparr>,
          jm_HTTPReqFailed = \<lparr>jf_Rate = fraction (s_Failures s) (s_Requests s), jf_Failed = s_Failures s, jf_Count = s_Requests s\<rparr>,
          jm_HTTPReqDuration = trendJSON s, jm_SuccessDuration = successJSON s,
          jm_Iterations = \<lparr>jk_Count = s_Iterations s, jk_Rate = per (s_Iterations s)\<rparr>,
          jm_DroppedIterations = \<lparr>jk_Count = s_DroppedIterations s, jk_Rate = per (s_DroppedIterations s)\<rparr>,
          jm_Checks = \<lparr>jr_Rate = fraction passes tot, jr_Passes = passes, jr_Fails = tot - passes, jr_Count = tot\<rparr>,
          jm_ScriptErrors = (s_ScriptErrors s, s_FirstScriptError s), jm_HTTPProtocols = s_Protocols s,
          jm_HTTPStatusCodes = statusCodesJSON (s_StatusCodes s), jm_families = familiesJSON (s_Families s) per\<rparr>)"

definition buildJSON :: "report \<Rightarrow> string \<Rightarrow> jsonSummary" where
  "buildJSON r version =
     \<lparr>js_SchemaVersion = SchemaVersion, js_Tool = (''loadtool'', version), js_Script = rp_Script r,
      js_Status = (if rp_Interrupted r then ''interrupted'' else ''completed''),
      js_Outcome = outcomeJSON (Verdict r),
      js_StartedAt = (if rp_Started r = zero_time then [] else rfc3339_millis (rp_Started r)),
      js_ElapsedMs = to_ms (rp_Elapsed r), js_TeardownError = rp_TeardownError r,
      js_Config = \<lparr>jc_VUs = rp_VUs r, jc_DurationMs = to_ms (rp_Duration r), jc_Scenarios = map scenarioJSON (rp_Scenarios r)\<rparr>,
      js_Metrics = metricsJSON (rp_Summary r) (perSecond (rp_Elapsed r)),
      js_Checks = map checkJSON (s_Checks (rp_Summary r)), js_Thresholds = map thresholdJSON (rp_Thresholds r),
      js_Series = map pointJSON (rp_Series r)\<rparr>"

lemma buildJSON_fields:
  "js_Outcome (buildJSON r version) = outcomeJSON (Verdict r)"
  "js_Status (buildJSON r version) = (if rp_Interrupted r then ''interrupted'' else ''completed'')"
  "js_TeardownError (buildJSON r version) = rp_TeardownError r"
  "js_ElapsedMs (buildJSON r version) = to_ms (rp_Elapsed r)"
  "js_Config (buildJSON r version) = \<lparr>jc_VUs = rp_VUs r, jc_DurationMs = to_ms (rp_Duration r), jc_Scenarios = map scenarioJSON (rp_Scenarios r)\<rparr>"
  "js_Metrics (buildJSON r version) = metricsJSON (rp_Summary r) (perSecond (rp_Elapsed r))"
  "js_Checks (buildJSON r version) = map checkJSON (s_Checks (rp_Summary r))"
  "js_Thresholds (buildJSON r version) = map thresholdJSON (rp_Thresholds r)"
  "js_Series (buildJSON r version) = map pointJSON (rp_Series r)"
  by (simp_all add: buildJSON_def)

text \<open>\<open>JSON\<close>: the document, or the encoder's error.\<close>

definition JSON :: "report \<Rightarrow> string \<Rightarrow> jout option" where
  "JSON r version = (let v = summary_value (buildJSON r version) in if encodable v then Some v else None)"

section \<open>Every number is finite\<close>

definition count_ok :: "int \<Rightarrow> bool" where
  "count_ok n \<longleftrightarrow> 0 \<le> n \<and> n < 2 ^ 63"

definition latency_ok :: "combined option \<Rightarrow> bool" where
  "latency_ok x \<longleftrightarrow> (case x of None \<Rightarrow> True | Some c \<Rightarrow> in64 (com_min c) \<and> in64 (com_max c))"

definition family_ok :: "familySummary \<Rightarrow> bool" where
  "family_ok f \<longleftrightarrow> list_all count_ok [fs_Count f, fs_Failed f, fs_Trues f] \<and>
     list_all in64 [fs_Min f, fs_Mean f, fs_Max f, fs_P50 f, fs_P90 f, fs_P95 f, fs_P99 f] \<and> latency_ok (fs_latency f)"

text \<open>A summary whose counts are not negative and whose numbers fit the types of their fields.\<close>

definition summary_ok :: "summary \<Rightarrow> bool" where
  "summary_ok s \<longleftrightarrow>
     list_all count_ok [s_Requests s, s_Successes s, s_Failures s, s_Sent s, s_Iterations s, s_DroppedIterations s] \<and>
     finite_float (s_ErrorRate s) \<and>
     list_all in64 [s_Min s, s_Mean s, s_Max s, s_P50 s, s_P90 s, s_P95 s, s_P99 s, s_SuccessP50 s, s_SuccessP90 s, s_SuccessP95 s, s_SuccessP99 s] \<and>
     list_all (\<lambda>c. 0 \<le> cr_Passes c \<and> 0 \<le> cr_Fails c) (s_Checks s) \<and>
     count_ok (sum_list (map (\<lambda>c. cr_Passes c + cr_Fails c) (s_Checks s))) \<and>
     list_all family_ok (s_Families s) \<and> latency_ok (s_latency s)"

lemma int_float: "in64 a \<Longrightarrow> \<exists>x. f64_of_int a = Fin x \<and> \<bar>x\<bar> \<le> 2 ^ 64"
proof -
  assume a: "in64 a"
  have "\<bar>(of_int a :: rat)\<bar> = of_int \<bar>a\<bar>" by simp
  also have "\<dots> \<le> of_int (2 ^ 63)" unfolding of_int_le_iff using a by (auto simp: in64_def)
  finally have b: "\<bar>(of_int a :: rat)\<bar> \<le> 2 ^ 63" by simp
  have "(2 :: rat) ^ 63 \<le> 10 ^ 30" by simp
  then have "f64_of_int a = Fin (f64_round (of_int a))"
    unfolding f64_of_int_def by (rule f64_bounded_Fin [OF order_trans [OF b]])
  moreover have "\<bar>f64_round (of_int a)\<bar> \<le> \<bar>of_int a\<bar> + \<bar>f64_round (of_int a) - of_int a\<bar>" by linarith
  then have "\<bar>f64_round (of_int a)\<bar> \<le> 2 ^ 63 + (2 ^ 63 / 2 ^ 53 + 1 / 10 ^ 30)"
    using b f64_step_error [OF b] by linarith
  then have "\<bar>f64_round (of_int a)\<bar> \<le> 2 ^ 64" by (rule order_trans) simp
  ultimately show ?thesis by blast
qed

lemma finite_quotient:
  assumes "in64 a" "1 / 10 ^ 10 \<le> y"
  shows "finite_float (f64_div (f64_of_int a) (Fin y))"
proof -
  obtain x where x: "f64_of_int a = Fin x" "\<bar>x\<bar> \<le> 2 ^ 64" using int_float [OF assms(1)] by blast
  have y: "0 < y" using assms(2) by (rule less_le_trans [rotated]) simp
  have "\<bar>x / y\<bar> = \<bar>x\<bar> / y" using y by (simp add: abs_divide)
  also have "\<dots> \<le> 2 ^ 64 / (1 / 10 ^ 10)" using x(2) assms(2) y by (intro frac_le) simp_all
  also have "\<dots> \<le> 10 ^ 30" by simp
  finally show ?thesis using y by (simp add: x(1) f64_bounded_Fin)
qed

lemma count_in64: "count_ok n \<Longrightarrow> in64 n"
  by (simp add: count_ok_def in64_def)

lemma finite_to_ms: "in64 d \<Longrightarrow> finite_float (to_ms d)"
proof -
  assume d: "in64 d"
  have "f64_of_int millisecond = Fin 1000000" using f64_of_int_exact [of millisecond] by (simp add: millisecond_def)
  then show ?thesis using finite_quotient [OF d, of 1000000] by (simp add: to_ms_def)
qed

lemma finite_fraction: "in64 a \<Longrightarrow> count_ok b \<Longrightarrow> b \<noteq> 0 \<Longrightarrow> finite_float (f64_div (f64_of_int a) (f64_of_int b))"
proof -
  assume a: "in64 a" "count_ok b" "b \<noteq> 0"
  obtain y where y: "f64_of_int b = Fin y" using int_float [OF count_in64 [OF a(2)]] by blast
  have "y = f64_round (of_int b)" using y by (simp add: f64_of_int_def f64_of_rat_def Let_def split: if_splits)
  moreover have "1 \<le> (of_int b :: rat)" using a(2,3) by (simp add: count_ok_def)
  then have "f64_round 1 \<le> f64_round (of_int b)" by (intro f64_round_mono) simp_all
  moreover have "f64_round 1 = 1" using f64_round_of_int [of 1] by simp
  ultimately have "1 / 10 ^ 10 \<le> y" by simp
  then show ?thesis unfolding y by (rule finite_quotient [OF a(1)])
qed

lemma finite_per_second: "in64 n \<Longrightarrow> in64 d \<Longrightarrow> 0 < d \<Longrightarrow> finite_float (f64_div (f64_of_int n) (dur_Seconds d))"
proof -
  assume a: "in64 n" "in64 d" "0 < d"
  obtain x where x: "dur_Seconds d = Fin x" "\<bar>x - of_int d / 10 ^ 9\<bar> \<le> of_int d / 10 ^ 9 / 2 ^ 51 + 4 / 10 ^ 30"
    using dur_Seconds_close [of d] a by auto
  have "1 \<le> (of_int d :: rat)" using a(3) by simp
  then have "1 / 10 ^ 10 \<le> of_int d / 10 ^ 9 - (of_int d / 10 ^ 9 / 2 ^ 51 + 4 / 10 ^ 30 :: rat)" by simp
  also have "\<dots> \<le> x" using x(2) unfolding abs_le_iff by linarith
  finally show ?thesis unfolding x(1) by (rule finite_quotient [OF a(1)])
qed

lemma finite_perSecond: "in64 n \<Longrightarrow> in64 d \<Longrightarrow> finite_float (perSecond d n)"
  by (simp add: perSecond_def finite_per_second)

lemma percentile_in64: "in64 (com_min c) \<Longrightarrow> in64 (com_max c) \<Longrightarrow> in64 (percentile c p)"
proof -
  assume a: "in64 (com_min c)" "in64 (com_max c)"
  have "in64 (min (max v (com_min c)) (com_max c))" for v using a by (auto simp: in64_def min_def max_def)
  then have "in64 (pct_scan c rank seen i ns)" for rank seen i ns
    using a by (induction c rank seen i ns rule: pct_scan.induct) (simp_all add: Let_def)
  then show ?thesis by (simp add: percentile_def)
qed

lemma percentiles_in64:
  "latency_ok (s_latency s) \<Longrightarrow> in64 (percentile_or_zero (Percentile s p))"
  "latency_ok (fs_latency f) \<Longrightarrow> in64 (percentile_or_zero (fs_Percentile f p))"
  by (auto simp: latency_ok_def Percentile_def fs_Percentile_def percentile_or_zero_def percentile_in64 in64_def [of 0] split: option.splits)

text \<open>Every value a threshold sees.\<close>

lemma summary_okD:
  assumes "summary_ok s"
  shows "count_ok (s_Requests s)" "count_ok (s_Successes s)" "count_ok (s_Failures s)" "count_ok (s_Sent s)" "count_ok (s_Iterations s)"
    "count_ok (s_DroppedIterations s)" "finite_float (s_ErrorRate s)"
    "in64 (s_Min s)" "in64 (s_Mean s)" "in64 (s_Max s)" "in64 (s_P50 s)" "in64 (s_P90 s)" "in64 (s_P95 s)" "in64 (s_P99 s)"
    "in64 (s_SuccessP50 s)" "in64 (s_SuccessP90 s)" "in64 (s_SuccessP95 s)" "in64 (s_SuccessP99 s)"
    "count_ok (sum_list (map (\<lambda>c. cr_Passes c + cr_Fails c) (s_Checks s)))" "list_all family_ok (s_Families s)" "latency_ok (s_latency s)"
  using assms by (simp_all add: summary_ok_def)

lemma family_okD:
  assumes "family_ok f"
  shows "count_ok (fs_Count f)" "count_ok (fs_Failed f)" "count_ok (fs_Trues f)" "in64 (fs_Min f)" "in64 (fs_Mean f)" "in64 (fs_Max f)"
    "in64 (fs_P50 f)" "in64 (fs_P90 f)" "in64 (fs_P95 f)" "in64 (fs_P99 f)" "latency_ok (fs_latency f)"
  using assms by (simp_all add: family_ok_def)

lemma family_found: "list_all family_ok (s_Families s) \<Longrightarrow> summary_Family s name = Some f \<Longrightarrow> family_ok f"
  by (auto simp: summary_Family_def find_Some_iff list_all_iff)

lemma check_passes: "summary_ok s \<Longrightarrow> count_ok (sum_list (map cr_Passes (s_Checks s)))"
proof -
  assume s: "summary_ok s"
  then have "\<forall>c\<in>set (s_Checks s). 0 \<le> cr_Passes c \<and> 0 \<le> cr_Fails c" by (simp add: summary_ok_def list_all_iff)
  then have "0 \<le> sum_list (map cr_Passes (s_Checks s)) \<and>
      sum_list (map cr_Passes (s_Checks s)) \<le> sum_list (map (\<lambda>c. cr_Passes c + cr_Fails c) (s_Checks s))"
    by (induction "s_Checks s" arbitrary: s) (auto intro!: sum_list_nonneg sum_list_mono)
  then show ?thesis using summary_okD(19) [OF s] by (simp add: count_ok_def)
qed

lemma counter_value_finite:
  assumes "in64 (n s)" "in64 elapsed" "mt_value (counter_metric n) agg p s elapsed = Some v"
  shows "finite_float v"
proof (cases "agg = ''count''")
  case True
  then show ?thesis using assms(3) int_float [OF assms(1)] by (auto simp: counter_metric_def)
next
  case False
  then have "0 < elapsed" "v = f64_div (f64_of_int (n s)) (dur_Seconds elapsed)"
    using assms(3) by (auto simp: counter_metric_def split: if_splits)
  then show ?thesis using finite_per_second [OF assms(1,2)] by simp
qed

lemma family_value_finite:
  assumes "summary_ok s" "in64 elapsed" "mt_value (familyMetric name k) agg p s elapsed = Some v"
  shows "finite_float v"
proof -
  note fams = summary_okD(20) [OF assms(1)]
  have z: "in64 0" "in64 (case summary_Family s name of None \<Rightarrow> 0 | Some f \<Rightarrow> fs_Count f)"
    using family_found [OF fams, of name] by (auto simp: in64_def [of 0] split: option.splits dest: count_in64 [OF family_okD(1)])
  consider "k = Trend" | "k = Rate" | "k \<noteq> Trend" "k \<noteq> Rate" by blast
  then show ?thesis
  proof cases
    case 1
    then obtain f d where f: "summary_Family s name = Some f" "v = to_ms d"
      "d \<in> {fs_Mean f, fs_Min f, fs_Max f, percentile_or_zero (fs_Percentile f (Fin 50)), percentile_or_zero (fs_Percentile f p), 0}"
      using assms(3) by (auto simp: familyMetric_def family_trend_value_def Let_def split: option.splits if_splits)
    note ok = family_okD [OF family_found [OF fams f(1)]]
    have "in64 d" using f(3) ok percentiles_in64(2) [OF ok(11)] z(1) by auto
    then show ?thesis unfolding f(2) by (rule finite_to_ms)
  next
    case 2
    then obtain f where f: "summary_Family s name = Some f" "fs_Count f \<noteq> 0" "v = f64_div (f64_of_int (fs_Trues f)) (f64_of_int (fs_Count f))"
      using assms(3) by (auto simp: familyMetric_def family_rate_value_def Trend_def Rate_def split: option.splits if_splits)
    note ok = family_okD [OF family_found [OF fams f(1)]]
    show ?thesis unfolding f(3) by (rule finite_fraction [OF count_in64 [OF ok(3)] ok(1) f(2)])
  next
    case 3
    then show ?thesis using counter_value_finite [where n = "\<lambda>s. case summary_Family s name of None \<Rightarrow> 0 | Some f \<Rightarrow> fs_Count f", OF z(2) assms(2)] assms(3)
      by (simp add: familyMetric_def)
  qed
qed

lemma known_value_finite:
  assumes "summary_ok s" "in64 elapsed" "map_of known name = Some m" "mt_value m agg p s elapsed = Some v"
  shows "finite_float v"
proof -
  note ok = summary_okD [OF assms(1)]
  have "m \<in> snd ` set known" using map_of_SomeD [OF assms(3)] by force
  then consider "mt_value m = duration_value" | "mt_value m = failed_value" | "mt_value m = checks_value" | "m = counter_metric s_Requests"
    | "m = counter_metric s_Iterations" | "m = counter_metric s_DroppedIterations"
    by (auto simp: known_def)
  then show ?thesis
  proof cases
    case 1
    then obtain d where d: "v = to_ms d"
      "d \<in> {s_Mean s, s_Min s, s_Max s, percentile_or_zero (Percentile s (Fin 50)), percentile_or_zero (Percentile s p), 0}"
      using assms(4) by (auto simp: duration_value_def Let_def split: if_splits)
    have "in64 d" using d(2) ok(8-10) percentiles_in64(1) [OF ok(21)] by (auto simp: in64_def [of 0])
    then show ?thesis unfolding d(1) by (rule finite_to_ms)
  next
    case 2
    then show ?thesis using assms(4) ok(7) by (auto simp: failed_value_def split: if_splits)
  next
    case 3
    then show ?thesis using assms(4) finite_fraction [OF count_in64 [OF check_passes [OF assms(1)]] ok(19)]
      by (auto simp: checks_value_def Let_def split: if_splits)
  next
    case 4
    then show ?thesis using counter_value_finite [where n = s_Requests, OF count_in64 [OF ok(1)] assms(2)] assms(4) by blast
  next
    case 5
    then show ?thesis using counter_value_finite [where n = s_Iterations, OF count_in64 [OF ok(5)] assms(2)] assms(4) by blast
  next
    case 6
    then show ?thesis using counter_value_finite [where n = s_DroppedIterations, OF count_in64 [OF ok(6)] assms(2)] assms(4) by blast
  qed
qed

lemma observed_finite:
  assumes "summary_ok s" "in64 elapsed"
  shows "list_all (\<lambda>t. finite_float (re_Observed t)) (Evaluate ths s elapsed)"
proof -
  have "finite_float (re_Observed (evaluate_one s elapsed t))" for t
  proof (cases "mt_value (threshold_metric t) (th_agg t) (th_p t) s elapsed")
    case None
    then show ?thesis by (simp add: evaluate_one_def)
  next
    case (Some v)
    have "finite_float v"
    proof (cases "th_kind t \<noteq> 0")
      case True
      then show ?thesis using family_value_finite [OF assms] Some by (simp add: threshold_metric_def)
    next
      case False
      then have "map_of known (th_Metric t) = Some (threshold_metric t)"
        using Some by (auto simp: threshold_metric_def no_metric_def split: option.splits)
      then show ?thesis using known_value_finite [OF assms] Some by blast
    qed
    then show ?thesis using Some by (simp add: evaluate_one_def Let_def)
  qed
  then show ?thesis by (simp add: Evaluate_def list_all_iff)
qed

section \<open>The summary is written\<close>

definition scenario_ok :: "cfg_scenario \<Rightarrow> bool" where
  "scenario_ok sc \<longleftrightarrow> list_all in64 [cs_StartTime sc, cs_GracefulStop sc, cs_Duration sc, cs_GracefulRampDown sc, cs_TimeUnit sc] \<and>
     list_all (\<lambda>st. in64 (cst_Duration st)) (cs_Stages sc)"

definition point_ok :: "point \<Rightarrow> bool" where
  "point_ok p \<longleftrightarrow> list_all in64 [pt_At p, pt_Mean p, pt_P50 p, pt_P95 p, pt_P99 p]"

definition report_ok :: "report \<Rightarrow> bool" where
  "report_ok r \<longleftrightarrow> summary_ok (rp_Summary r) \<and> in64 (rp_Elapsed r) \<and> in64 (rp_Duration r) \<and>
     list_all scenario_ok (rp_Scenarios r) \<and> list_all point_ok (rp_Series r)"

lemmas value_defs = ptDur_value_def point_value_def outcome_value_def stage_value_def scenario_value_def config_value_def counter_value_def
  rate_value_def trend_value_def failed_json_def check_value_def threshold_json_def float_or_null_def omit_float_def omit_int_def

lemma strings_encode: "list_all encodable (map OStr xs)" "list_all (\<lambda>(k, v). encodable v) (map (\<lambda>(k, n). (k, OInt n)) ks)"
  by (auto simp: list_all_iff)

lemma point_encodes: "point_ok p \<Longrightarrow> encodable (point_value (pointJSON p))"
  by (simp add: point_ok_def pointJSON_def value_defs finite_to_ms)

lemma scenario_encodes: "scenario_ok sc \<Longrightarrow> encodable (scenario_value (scenarioJSON sc))"
  by (auto simp: scenario_ok_def scenarioJSON_def value_defs finite_to_ms Let_def list_all_iff)

lemma family_encodes:
  assumes "family_ok f" "fs_Used f" "in64 elapsed"
  shows "list_all (\<lambda>(k, v). encodable v) (map (\<lambda>(name, v). (name, family_value v)) (familiesJSON [f] (perSecond elapsed)))"
proof -
  note ok = family_okD [OF assms(1)]
  have "finite_float (f64_div (f64_of_int (fs_Trues f)) (f64_of_int (fs_Count f)))"
    using assms(2) by (intro finite_fraction [OF count_in64 [OF ok(3)] ok(1)]) (simp add: fs_Used_def)
  then show ?thesis using ok assms(2) finite_perSecond [OF count_in64 [OF ok(1)] assms(3)]
    by (simp add: familiesJSON_def finite_to_ms)
qed

lemma fraction_encodes: "in64 a \<Longrightarrow> count_ok b \<Longrightarrow> encodable (float_or_null (fraction a b))"
  by (simp add: fraction_def float_or_null_def finite_fraction)

lemma trends_encode:
  "summary_ok s \<Longrightarrow> encodable (case trendJSON s of None \<Rightarrow> ONull | Some t \<Rightarrow> trend_value t)"
  "summary_ok s \<Longrightarrow> encodable (case successJSON s of None \<Rightarrow> ONull | Some t \<Rightarrow> trend_value t)"
proof -
  assume s: "summary_ok s"
  note ok = summary_okD [OF s]
  show "encodable (case trendJSON s of None \<Rightarrow> ONull | Some t \<Rightarrow> trend_value t)"
    by (simp add: trendJSON_def trend_value_def omit_float_def finite_to_ms ok)
  show "encodable (case successJSON s of None \<Rightarrow> ONull | Some t \<Rightarrow> trend_value t)"
    by (simp add: successJSON_def trend_value_def omit_float_def finite_to_ms ok)
qed

lemma families_encode:
  assumes "list_all family_ok fams" "in64 elapsed"
  shows "list_all (\<lambda>(k, v). encodable v) (map (\<lambda>(name, v). (name, family_value v)) (familiesJSON fams (perSecond elapsed)))"
  using assms(1)
proof (induction fams)
  case (Cons f fams)
  have "familiesJSON (f # fams) per = (if fs_Used f then familiesJSON [f] per else []) @ familiesJSON fams per" for per
    by (simp add: familiesJSON_def)
  then show ?case using Cons family_encodes [OF _ _ assms(2), of f] by simp
qed (simp add: familiesJSON_def)

lemma metrics_encode:
  assumes "summary_ok s" "in64 elapsed"
  shows "encodable (metrics_value (metricsJSON s (perSecond elapsed)))"
proof -
  note ok = summary_okD [OF assms(1)]
  have fr: "encodable (float_or_null (fraction (s_Failures s) (s_Requests s)))"
    by (rule fraction_encodes [OF count_in64 [OF ok(3)] ok(1)])
  have ch: "encodable (float_or_null (fraction (sum_list (map cr_Passes (s_Checks s))) (sum_list (map (\<lambda>c. cr_Passes c + cr_Fails c) (s_Checks s)))))"
    by (rule fraction_encodes [OF count_in64 [OF check_passes [OF assms(1)]] ok(19)])
  have per: "count_ok n \<Longrightarrow> encodable (counter_value \<lparr>jk_Count = n, jk_Rate = perSecond elapsed n\<rparr>)" for n
    by (simp add: counter_value_def finite_perSecond [OF count_in64 assms(2)])
  show ?thesis
    unfolding metrics_value_def metricsJSON_def Let_def jsonMetrics.simps encodable.simps list_all_append
    using fr ch per [OF ok(1)] per [OF ok(5)] per [OF ok(6)] trends_encode [OF assms(1)] families_encode [OF ok(20) assms(2)]
    by (simp add: failed_json_def rate_value_def strings_encode)
qed

definition metric_keys :: "jsonMetrics \<Rightarrow> string list" where
  "metric_keys m = (case metrics_value m of OObj kvs \<Rightarrow> map fst kvs | _ \<Rightarrow> [])"

definition fixed_keys :: "string list" where
  "fixed_keys = [''http_reqs'', ''http_req_failed'', ''http_req_duration'', ''http_req_duration_successful'', ''iterations'',
     ''dropped_iterations'', ''checks'', ''script_errors'', ''http_protocols'', ''http_status_codes'']"

lemma metric_keys_families: "metric_keys m = fixed_keys @ map fst (jm_families m)"
  by (simp add: metric_keys_def metrics_value_def fixed_keys_def comp_def case_prod_beta)

text \<open>Families do not take the name of a metric that is reserved; all the fixed keys are, but one.\<close>

lemma reserved_keys: "set fixed_keys - set reservedNames = {''http_status_codes''}" "distinct fixed_keys"
proof -
  have "filter (\<lambda>k. k \<notin> set reservedNames) fixed_keys = [''http_status_codes'']" by code_simp
  then have "set (filter (\<lambda>k. k \<notin> set reservedNames) fixed_keys) = {''http_status_codes''}" by simp
  then show "set fixed_keys - set reservedNames = {''http_status_codes''}" by (auto simp only: set_filter)
  show "distinct fixed_keys" by code_simp
qed

lemma only_left: "A - B = {k} \<Longrightarrow> U \<inter> B = {} \<Longrightarrow> A \<inter> U = {} \<longleftrightarrow> k \<notin> U"
proof
  assume a: "A - B = {k}" "A \<inter> U = {}"
  have "k \<in> A" using a(1) by (metis DiffD1 singletonI)
  then show "k \<notin> U" using a(2) by (metis IntI empty_iff)
next
  assume a: "A - B = {k}" "U \<inter> B = {}" "k \<notin> U"
  have "x \<notin> U" if "x \<in> A" for x
    using a that by (metis DiffI IntI empty_iff singletonD)
  then show "A \<inter> U = {}" by (simp add: disjoint_iff)
qed

lemma used_name: "k \<notin> set (map fs_Name (filter fs_Used fams)) \<longleftrightarrow> \<not> list_ex (\<lambda>f. fs_Used f \<and> fs_Name f = k) fams"
  by (auto simp: list_ex_iff)

lemma checks_encode:
  assumes "summary_ok s"
  shows "list_all encodable (map check_value (map checkJSON (s_Checks s)))"
proof -
  have nn: "\<forall>c\<in>set (s_Checks s). 0 \<le> cr_Passes c \<and> 0 \<le> cr_Fails c" using assms by (simp add: summary_ok_def list_all_iff)
  have "encodable (check_value (checkJSON c))" if c: "c \<in> set (s_Checks s)" for c
  proof -
    have "cr_Passes c + cr_Fails c \<le> sum_list (map (\<lambda>c. cr_Passes c + cr_Fails c) (s_Checks s))"
      using nn c by (intro member_le_sum_list) auto
    then have "count_ok (cr_Passes c + cr_Fails c)" "count_ok (cr_Passes c)" using nn c summary_okD(19) [OF assms] by (auto simp: count_ok_def)
    then show ?thesis using fraction_encodes [OF count_in64] by (simp add: check_value_def checkJSON_def)
  qed
  then show ?thesis by (simp add: list_all_iff)
qed

text \<open>C15: The JSON summary of a run is written. Every float in it is finite, so encoding cannot fail: the
  averages, percentiles and rates, the observed values of the thresholds on any metric, and the
  fractions, which are null exactly where they would divide by 0. In the object of metrics no key occurs
  twice, unless a protocol module declares a family named \<open>http_status_codes\<close>, which is the one fixed key
  that is not reserved.\<close>

theorem json_summary_written:
  assumes "report_ok r" "rp_Thresholds r = Evaluate ths (rp_Summary r) (rp_Elapsed r)"
    and "NewFamilies ds = Inr fams" "map fs_Name (s_Families (rp_Summary r)) = map d_Name ds"
  shows "JSON r version = Some (summary_value (buildJSON r version)) \<and>
    (distinct (metric_keys (js_Metrics (buildJSON r version))) \<longleftrightarrow>
       \<not> list_ex (\<lambda>f. fs_Used f \<and> fs_Name f = ''http_status_codes'') (s_Families (rp_Summary r)))"
proof
  define s where "s = rp_Summary r"
  have so: "summary_ok s" and e: "in64 (rp_Elapsed r)" "in64 (rp_Duration r)" and l: "list_all scenario_ok (rp_Scenarios r)" "list_all point_ok (rp_Series r)"
    using assms(1) by (simp_all add: report_ok_def s_def)
  have "list_all encodable (map threshold_json (map thresholdJSON (rp_Thresholds r)))"
    using observed_finite [OF so e(1), of ths] unfolding assms(2) s_def
    by (simp add: list_all_iff threshold_json_def thresholdJSON_def float_or_null_def)
  moreover have "list_all encodable (map point_value (map pointJSON (rp_Series r)))" "list_all encodable (map scenario_value (map scenarioJSON (rp_Scenarios r)))"
    using l point_encodes scenario_encodes by (simp_all add: list_all_iff)
  moreover have "encodable (config_value \<lparr>jc_VUs = rp_VUs r, jc_DurationMs = to_ms (rp_Duration r), jc_Scenarios = scs\<rparr>)"
    if "list_all encodable (map scenario_value scs)" for scs
    using that finite_to_ms [OF e(2)] by (simp add: config_value_def)
  moreover have "encodable (outcome_value x)" for x by (simp add: outcome_value_def strings_encode(1))
  moreover have "finite_float (to_ms (rp_Elapsed r))" by (rule finite_to_ms [OF e(1)])
  ultimately have "encodable (summary_value (buildJSON r version))"
    using checks_encode [OF so] metrics_encode [OF so e(1)]
    unfolding summary_value_def buildJSON_fields s_def
    by (simp only: encodable.simps list.pred_inject prod.case simp_thms)
  then show "JSON r version = Some (summary_value (buildJSON r version))" by (simp add: JSON_def)
  let ?u = "map fs_Name (filter fs_Used (s_Families s))"
  have k: "metric_keys (js_Metrics (buildJSON r version)) = fixed_keys @ ?u"
    by (simp add: metric_keys_families buildJSON_fields metricsJSON_def Let_def s_def familiesJSON_def comp_def)
  have v: "\<forall>d\<in>set ds. valid_def d" "distinct (map d_Name ds)" using NewFamilies_iff assms(3) by blast+
  have "distinct ?u" using v(2) assms(4) by (metis distinct_map_filter s_def)
  moreover have "set ?u \<subseteq> set (map d_Name ds)" unfolding assms(4) [symmetric] s_def by auto
  then have "set ?u \<inter> set reservedNames = {}" using v(1) by (auto simp: valid_def_def)
  then have "set fixed_keys \<inter> set ?u = {} \<longleftrightarrow> ''http_status_codes'' \<notin> set ?u" by (rule only_left [OF reserved_keys(1)])
  ultimately show "distinct (metric_keys (js_Metrics (buildJSON r version))) \<longleftrightarrow>
       \<not> list_ex (\<lambda>f. fs_Used f \<and> fs_Name f = ''http_status_codes'') (s_Families (rp_Summary r))"
    unfolding k distinct_append s_def [symmetric] used_name [symmetric] by (simp only: reserved_keys(2) simp_thms)
qed

definition shadowing_report :: report where
  "shadowing_report = \<lparr>rp_Script = ''t.js'', rp_VUs = 1, rp_Duration = 5 * second, rp_GracefulStop = 0, rp_Elapsed = 5 * second,
     rp_Interrupted = False,
     rp_Summary = summary_zero\<lparr>s_Families := [(fs_zero \<lparr>d_Name = ''http_status_codes'', d_Kind = Counter\<rparr>)\<lparr>fs_Count := 1\<rparr>]\<rparr>,
     rp_TeardownError = [], rp_Thresholds = [], rp_Scenarios = [], rp_Started = zero_time, rp_Series = []\<rparr>"

theorem json_summary_written_witness:
  "JSON shadowing_report ''1.0'' = Some (summary_value (buildJSON shadowing_report ''1.0'')) \<and>
   \<not> distinct (metric_keys (js_Metrics (buildJSON shadowing_report ''1.0'')))"
proof -
  let ?ds = "[\<lparr>d_Name = ''http_status_codes'', d_Kind = Counter\<rparr>]"
  have "familyName ''http_status_codes'' \<and> ''http_status_codes'' \<notin> set reservedNames" by code_simp
  then obtain f where f: "NewFamilies ?ds = Inr f"
    using NewFamilies_iff [of ?ds] by (auto simp: valid_def_def Trend_def Counter_def Rate_def)
  have "report_ok shadowing_report"
    by (simp add: report_ok_def shadowing_report_def summary_ok_def summary_zero_def fs_zero_def family_ok_def latency_ok_def count_ok_def
        in64_def second_def)
  moreover have "rp_Thresholds shadowing_report = Evaluate [] (rp_Summary shadowing_report) (rp_Elapsed shadowing_report)"
    by (simp add: shadowing_report_def Evaluate_def)
  moreover have fams: "s_Families (rp_Summary shadowing_report) = [(fs_zero \<lparr>d_Name = ''http_status_codes'', d_Kind = Counter\<rparr>)\<lparr>fs_Count := 1\<rparr>]"
    by (simp add: shadowing_report_def)
  ultimately show ?thesis using json_summary_written [of shadowing_report "[]", OF _ _ f, of "''1.0''"]
    by (simp add: fs_zero_def fs_Used_def)
qed

end
