(* ===== verification/Report_Chart.thy ===== *)
theory Report_Chart
  imports Report_Text
begin

text \<open>
  The charts of \<open>internal/report/html.go\<close>: what \<open>charts\<close> draws of the time series, \<open>lineChart\<close>'s SVG text,
  \<open>niceTicks\<close> and \<open>tickLabel\<close>. \<open>p10\<close> stands for \<open>math.Pow(10, math.Floor(math.Log10(x)))\<close>, whose rounding is the
  platform's. \<open>NaN\<close> is a gap. The loop of \<open>niceTicks\<close> has no bound of its own, so it is a partial function;
  lemmas: it ends, its last tick covers the data, and every point is drawn inside the plot.
\<close>

section \<open>Ticks\<close>

partial_function (option) tick_loop :: "f64 \<Rightarrow> f64 \<Rightarrow> f64 \<Rightarrow> f64 list option" where
  "tick_loop t step mx =
     (if f64_le mx t then Some [t]
      else Option.bind (tick_loop (f64_add t step) step mx) (\<lambda>ts. Some (t # ts)))"

definition tick_step :: "f64 \<Rightarrow> f64 \<Rightarrow> f64" where
  "tick_step raw pow = (case find (\<lambda>m. f64_le raw (f64_mul (Fin m) pow)) [1, 2, 5, 10] of
     None \<Rightarrow> pow | Some m \<Rightarrow> f64_mul (Fin m) pow)"

definition niceTicks :: "(f64 \<Rightarrow> f64) \<Rightarrow> f64 \<Rightarrow> f64 list option" where
  "niceTicks p10 mx =
     (if f64_le mx (Fin 0) \<or> mx = NaN then Some [Fin 0, Fin 1]
      else let raw = f64_div mx (Fin 5) in tick_loop (Fin 0) (tick_step raw (p10 raw)) mx)"

definition f64_whole :: "f64 \<Rightarrow> bool" where
  "f64_whole v = (case v of Fin a \<Rightarrow> of_int \<lfloor>a\<rfloor> = a | NaN \<Rightarrow> False | _ \<Rightarrow> True)"

definition TrimRight :: "char \<Rightarrow> string \<Rightarrow> string" where
  "TrimRight c s = rev (dropWhile (\<lambda>x. x = c) (rev s))"

definition tickLabel :: "f64 \<Rightarrow> string" where
  "tickLabel v = (if f64_whole v then fixed_text 0 v else TrimRight CHR ''.'' (TrimRight CHR ''0'' (fixed_text 3 v)))"

section \<open>A chart\<close>

record chart_line =
  ln_name :: string
  ln_color :: string
  ln_ys :: "f64 list"

text \<open>\<open>chartW\<close>, \<open>chartH\<close> and the padding, as the coordinates of the plot.\<close>

definition padL :: rat where "padL = 56"
definition padT :: rat where "padT = 16"
definition plotW :: rat where "plotW = 720 - 56 - 16"
definition plotH :: rat where "plotH = 240 - 16 - 32"

definition px :: "f64 \<Rightarrow> f64 \<Rightarrow> f64" where
  "px xTop x = f64_add (Fin padL) (f64_mul (f64_div x xTop) (Fin plotW))"

definition py :: "f64 \<Rightarrow> f64 \<Rightarrow> f64" where
  "py yTop y = f64_sub (Fin (padT + plotH)) (f64_mul (f64_div y yTop) (Fin plotH))"

text \<open>The commands of a line: the pen is lifted at a gap.\<close>

fun path_cmds :: "f64 \<Rightarrow> f64 \<Rightarrow> bool \<Rightarrow> (f64 \<times> f64) list \<Rightarrow> (string \<times> f64 \<times> f64) list" where
  "path_cmds xTop yTop pen [] = []"
| "path_cmds xTop yTop pen ((x, y) # ps) =
     (if y = NaN then path_cmds xTop yTop False ps
      else (if pen then ''L'' else ''M'', px xTop x, py yTop y) # path_cmds xTop yTop True ps)"

definition path_text :: "(string \<times> f64 \<times> f64) list \<Rightarrow> string" where
  "path_text cs = concat (map (\<lambda>(c, x, y). c @ fixed_text 1 x @ '' '' @ fixed_text 1 y @ '' '') cs)"

definition f64_max :: "f64 \<Rightarrow> f64 \<Rightarrow> f64" where
  "f64_max x y = (if f64_lt x y then y else x)"

definition chart_max :: "chart_line list \<Rightarrow> f64" where
  "chart_max lns = foldl f64_max (Fin 0) (filter (\<lambda>y. y \<noteq> NaN) (concat (map ln_ys lns)))"

definition html_escape :: "string \<Rightarrow> string" where
  "html_escape s = concat (map (\<lambda>c.
     if c = CHR 0x26 then ''&amp;'' else if c = CHR 0x27 then ''&#39;'' else if c = CHR 0x3C then ''&lt;''
     else if c = CHR 0x3E then ''&gt;'' else if c = CHR 0x22 then ''&#34;'' else if c = CHR 0x00 then [CHR 0xEF, CHR 0xBF, CHR 0xBD]
     else [c]) s)"

text \<open>The pieces of the SVG.\<close>

definition y_tick_svg :: "f64 \<Rightarrow> f64 \<Rightarrow> string" where
  \<open>y_tick_svg yTop t = (let y = fixed_text 1 (py yTop t) in
     ''<line class="grid" x1="56" x2="704" y1="'' @ y @ ''" y2="'' @ y @ ''"/>'' @
     ''<text class="tick" x="50" y="'' @ fixed_text 1 (f64_add (py yTop t) (Fin 4)) @ ''" text-anchor="end">'' @ tickLabel t @ ''</text>'')\<close>

definition x_tick_svg :: "f64 \<Rightarrow> f64 \<Rightarrow> string" where
  \<open>x_tick_svg xTop t =
     ''<text class="tick" x="'' @ fixed_text 1 (px xTop t) @ ''" y="230" text-anchor="middle">'' @ tickLabel t @ ''s</text>''\<close>

definition line_svg :: "f64 list \<Rightarrow> f64 \<Rightarrow> f64 \<Rightarrow> chart_line \<Rightarrow> string" where
  \<open>line_svg xs xTop yTop l = (let path = path_text (path_cmds xTop yTop False (zip xs (ln_ys l))) in
     if path = [] then []
     else ''<path d="'' @ TrimSpace path @ ''" fill="none" stroke="var('' @ ln_color l @
       '')" stroke-width="2" stroke-linejoin="round"><title>'' @ html_escape (ln_name l) @ ''</title></path>'')\<close>

definition legend_svg :: "chart_line \<Rightarrow> string" where
  \<open>legend_svg l = ''<span><i style="background:var('' @ ln_color l @ '')"></i>'' @ html_escape (ln_name l) @ ''</span>''\<close>

definition lineChart :: "(f64 \<Rightarrow> f64) \<Rightarrow> string \<Rightarrow> string \<Rightarrow> f64 list \<Rightarrow> chart_line list \<Rightarrow> string option" where
  \<open>lineChart p10 title unit xs lns =
     (let xMax = last xs in
      case niceTicks p10 (chart_max lns) of None \<Rightarrow> None
      | Some yTicks \<Rightarrow> (case niceTicks p10 xMax of None \<Rightarrow> None
        | Some ticks \<Rightarrow>
            let yTop = last yTicks; xTicks = filter (\<lambda>t. f64_le t xMax) ticks in
            Some (''<figure class="chart"><figcaption>'' @ html_escape title @ '' <span class="unit">('' @ html_escape unit @
              '')</span></figcaption>'' @
              ''<svg viewBox="0 0 720 240" role="img" aria-label="'' @ html_escape title @ '' over time in seconds">'' @
              concat (map (y_tick_svg yTop) yTicks) @ concat (map (x_tick_svg xMax) xTicks) @
              ''<line class="axis" x1="56" x2="704" y1="208" y2="208"/>'' @
              concat (map (line_svg xs xMax yTop) lns) @
              ''</svg><div class="legend">'' @ concat (map legend_svg lns) @ ''</div></figure>'')))\<close>

section \<open>What is drawn\<close>

record chart_row =
  cw_x :: f64
  cw_p50 :: f64
  cw_p95 :: f64
  cw_p99 :: f64
  cw_reqs :: f64
  cw_failed :: f64
  cw_errRate :: f64
  cw_vus :: f64

fun chart_rows :: "duration \<Rightarrow> point list \<Rightarrow> chart_row list" where
  "chart_rows prev [] = []"
| "chart_rows prev (p # ps) =
     (let d = dur_Seconds (wrap64 (pt_At p - prev));
          secs = (if f64_le d (Fin 0) then Fin 1 else d);
          some = 0 < pt_Requests p
      in \<lparr>cw_x = dur_Seconds (pt_At p),
          cw_p50 = (if some then to_ms (pt_P50 p) else NaN), cw_p95 = (if some then to_ms (pt_P95 p) else NaN),
          cw_p99 = (if some then to_ms (pt_P99 p) else NaN),
          cw_reqs = f64_div (f64_of_int (pt_Requests p)) secs, cw_failed = f64_div (f64_of_int (pt_Failed p)) secs,
          cw_errRate = (if some then f64_mul (f64_div (f64_of_int (pt_Failed p)) (f64_of_int (pt_Requests p))) (Fin 100) else NaN),
          cw_vus = f64_of_int (pt_VUs p)\<rparr> # chart_rows (pt_At p) ps)"

text \<open>The charts: title, unit and lines.\<close>

definition chart_plan :: "chart_row list \<Rightarrow> (string \<times> string \<times> chart_line list) list" where
  "chart_plan rows =
     [(''Latency'', ''ms'', [\<lparr>ln_name = ''p50'', ln_color = ''--c1'', ln_ys = map cw_p50 rows\<rparr>,
         \<lparr>ln_name = ''p95'', ln_color = ''--c2'', ln_ys = map cw_p95 rows\<rparr>, \<lparr>ln_name = ''p99'', ln_color = ''--c3'', ln_ys = map cw_p99 rows\<rparr>]),
      (''Requests per second'', ''req/s'', [\<lparr>ln_name = ''requests'', ln_color = ''--c1'', ln_ys = map cw_reqs rows\<rparr>,
         \<lparr>ln_name = ''failed'', ln_color = ''--bad'', ln_ys = map cw_failed rows\<rparr>]),
      (''Error rate'', ''% of requests'', [\<lparr>ln_name = ''failed'', ln_color = ''--bad'', ln_ys = map cw_errRate rows\<rparr>]),
      (''Active VUs'', ''VUs'', [\<lparr>ln_name = ''VUs'', ln_color = ''--c1'', ln_ys = map cw_vus rows\<rparr>])]"

text \<open>None if the loop of some chart's ticks does not end.\<close>

definition charts :: "(f64 \<Rightarrow> f64) \<Rightarrow> point list \<Rightarrow> string list option" where
  "charts p10 series =
     (if length series < 2 then Some []
      else those (map (\<lambda>(title, unit, lns). lineChart p10 title unit (map cw_x (chart_rows 0 series)) lns)
                      (chart_plan (chart_rows 0 series))))"

section \<open>The ticks end and cover the data\<close>

lemma rounded_close:
  assumes "0 \<le> x" "x \<le> 10 ^ 29"
  shows "\<exists>y. f64_of_rat x = Fin y \<and> \<bar>y - x\<bar> \<le> x / 2 ^ 53 + 1 / 10 ^ 30 \<and> 0 \<le> y"
proof -
  have "x \<le> 10 ^ 30" using assms(2) by (rule order_trans) simp
  then have "f64_of_rat x = Fin (f64_round x)" using assms(1) by (intro f64_bounded_Fin) simp
  then show ?thesis using f64_step_error [of x x] f64_round_nonneg [OF assms(1)] assms(1) by simp
qed

lemma rounded_within:
  assumes "0 \<le> x" "x \<le> 10 ^ 29" "x / 2 ^ 53 + 1 / 10 ^ 30 \<le> e"
  shows "\<exists>y. f64_of_rat x = Fin y \<and> x - e \<le> y \<and> y \<le> x + e \<and> 0 \<le> y"
proof -
  obtain y where y: "f64_of_rat x = Fin y" "\<bar>y - x\<bar> \<le> x / 2 ^ 53 + 1 / 10 ^ 30" "0 \<le> y" using rounded_close [OF assms(1,2)] by blast
  then have "\<bar>y - x\<bar> \<le> e" using assms(3) by (rule_tac order_trans)
  then have "x - e \<le> y" "y \<le> x + e" by linarith+
  then show ?thesis using y by blast
qed

text \<open>A step gains nine tenths of its width, whatever the rounding.\<close>

lemma tick_gain:
  assumes "0 \<le> t" "t < m" "m \<le> 62 * s" "1 / 10 ^ 17 \<le> s" "s \<le> 10 ^ 27"
  shows "\<exists>t'. f64_add (Fin t) (Fin s) = Fin t' \<and> t + s * 9 / 10 \<le> t'"
proof -
  have "0 \<le> s" using assms(4) by (rule order_trans [rotated]) simp
  then have r: "0 \<le> t + s" "t + s \<le> 10 ^ 29" using assms by simp_all
  have "t + s \<le> 63 * s" using assms(2,3) by simp
  then have "(t + s) / 2 ^ 53 \<le> 63 * s / 2 ^ 53" by (rule divide_right_mono) simp
  moreover have "63 * s / 2 ^ 53 + 1 / 10 ^ 30 \<le> s / 10" using assms(4) by simp
  ultimately have "(t + s) / 2 ^ 53 + 1 / 10 ^ 30 \<le> s / 10" by linarith
  from rounded_within [OF r this] obtain y where "f64_of_rat (t + s) = Fin y" "t + s - s / 10 \<le> y" by blast
  then show ?thesis by simp
qed

lemma tick_loop_ends:
  assumes "m \<le> 62 * s" "1 / 10 ^ 17 \<le> s" "s \<le> 10 ^ 27"
  shows "0 \<le> t \<Longrightarrow> m - t \<le> of_nat k * (s * 9 / 10) \<Longrightarrow>
    \<exists>rs. tick_loop (Fin t) (Fin s) (Fin m) = Some (map Fin rs) \<and> rs \<noteq> [] \<and> hd rs = t \<and> length rs \<le> Suc k \<and> m \<le> last rs \<and>
      (\<forall>r\<in>set (butlast rs). r < m) \<and> sorted_wrt (<) rs \<and> (\<forall>r\<in>set rs. 0 \<le> r)"
proof (induction k arbitrary: t)
  case 0
  then show ?case by (subst tick_loop.simps) (auto intro!: exI [of _ "[t]"])
next
  case (Suc k)
  show ?case
  proof (cases "m \<le> t")
    case True
    then show ?thesis using Suc.prems(1) by (subst tick_loop.simps) (auto intro!: exI [of _ "[t]"])
  next
    case False
    then obtain t' where t': "f64_add (Fin t) (Fin s) = Fin t'" "t + s * 9 / 10 \<le> t'"
      using tick_gain [OF Suc.prems(1) _ assms] by (meson not_le)
    have s: "0 < s" using assms(2) by (rule less_le_trans [rotated]) simp
    have "m - t' \<le> of_nat k * (s * 9 / 10)" using Suc.prems(2) t'(2) by (simp add: algebra_simps)
    moreover have "0 \<le> t'" "t < t'" using t'(2) s Suc.prems(1) by linarith+
    ultimately obtain rs where rs: "tick_loop (Fin t') (Fin s) (Fin m) = Some (map Fin rs)" "rs \<noteq> []" "hd rs = t'" "length rs \<le> Suc k"
      "m \<le> last rs" "\<forall>r\<in>set (butlast rs). r < m" "sorted_wrt (<) rs" "\<forall>r\<in>set rs. 0 \<le> r" using Suc.IH by blast
    have l: "tick_loop (Fin t) (Fin s) (Fin m) = Some (map Fin (t # rs))"
      using False rs(1) t'(1) by (subst tick_loop.simps) simp
    have "\<forall>r\<in>set rs. t < r" using rs(2,3,7) \<open>t < t'\<close> by (cases rs) auto
    then show ?thesis using l rs False Suc.prems(1) by (intro exI [of _ "t # rs"]) auto
  qed
qed

text \<open>What \<open>p10\<close> promises: a power of ten not far above its argument and at most a little more than ten times
  below it, for the arguments charts have.\<close>

definition power_below :: "(f64 \<Rightarrow> f64) \<Rightarrow> bool" where
  "power_below p10 \<longleftrightarrow> (\<forall>x. 1 / 10 ^ 16 \<le> x \<longrightarrow> x \<le> 10 ^ 26 \<longrightarrow> (\<exists>p. p10 (Fin x) = Fin p \<and> x \<le> 11 * p \<and> p \<le> 2 * x))"

text \<open>Values a chart draws.\<close>

definition drawable :: "rat \<Rightarrow> bool" where
  "drawable y \<longleftrightarrow> y = 0 \<or> (1 / 10 ^ 15 \<le> y \<and> y \<le> 10 ^ 26)"

lemma found_in: "find P xs = Some c \<Longrightarrow> c \<in> set xs \<and> P c"
  by (induction xs) (auto split: if_splits)

lemma tick_step_range:
  assumes "0 < p" "p \<le> 2 * 10 ^ 26" "1 / 10 ^ 17 \<le> p" "x \<le> 11 * p" "p \<le> 2 * x"
  shows "\<exists>s. tick_step (Fin x) (Fin p) = Fin s \<and> p * 9 / 10 \<le> s \<and> s \<le> 11 * p \<and>
    (f64_le (Fin x) (f64_mul (Fin 10) (Fin p)) \<longrightarrow> x \<le> s)"
proof -
  have m: "\<exists>y. f64_mul (Fin c) (Fin p) = Fin y \<and> p * 9 / 10 \<le> y \<and> y \<le> 11 * p" if "c \<in> {1, 2, 5, 10}" for c
  proof -
    have c: "1 \<le> c" "c \<le> 10" using that by auto
    have cp: "p \<le> c * p" "c * p \<le> 10 * p" using c assms(1) by simp_all
    have "10 * p \<le> 10 ^ 29" using assms(2) by simp
    then have r: "0 \<le> c * p" "c * p \<le> 10 ^ 29" using assms(1) cp by linarith+
    have "c * p / 2 ^ 53 \<le> 10 * p / 2 ^ 53" using cp(2) by (rule divide_right_mono) simp
    moreover have "10 * p / 2 ^ 53 + 1 / 10 ^ 30 \<le> p / 10" using assms(3) by simp
    ultimately have "c * p / 2 ^ 53 + 1 / 10 ^ 30 \<le> p / 10" by linarith
    from rounded_within [OF r this] obtain y where y: "f64_of_rat (c * p) = Fin y" "c * p - p / 10 \<le> y" "y \<le> c * p + p / 10" by blast
    then have "p * 9 / 10 \<le> y" "y \<le> 11 * p" using cp assms(1) by linarith+
    then show ?thesis using y(1) by simp
  qed
  show ?thesis
  proof (cases "find (\<lambda>m. f64_le (Fin x) (f64_mul (Fin m) (Fin p))) [1, 2, 5, 10]")
    case None
    then have "\<not> f64_le (Fin x) (f64_mul (Fin 10) (Fin p))" unfolding find_None_iff by auto
    then show ?thesis using None assms(1) by (simp add: tick_step_def)
  next
    case (Some c)
    then have c: "c \<in> {1, 2, 5, 10}" "f64_le (Fin x) (f64_mul (Fin c) (Fin p))"
      using found_in [OF Some] by auto
    obtain y where y: "f64_mul (Fin c) (Fin p) = Fin y" "p * 9 / 10 \<le> y" "y \<le> 11 * p" using m [OF c(1)] by blast
    then have "tick_step (Fin x) (Fin p) = Fin y" using Some by (simp add: tick_step_def del: f64_mul.simps)
    moreover have "x \<le> y" using c(2) unfolding y(1) by simp
    ultimately show ?thesis using y by blast
  qed
qed

lemma nice_ticks:
  assumes "power_below p10" "drawable m"
  shows "\<exists>rs. niceTicks p10 (Fin m) = Some (map Fin rs) \<and> rs \<noteq> [] \<and> hd rs = 0 \<and> m \<le> last rs \<and> 0 < last rs \<and> sorted_wrt (<) rs \<and>
    (\<forall>r\<in>set rs. 0 \<le> r) \<and> length rs \<le> 70 \<and>
    (f64_le (f64_div (Fin m) (Fin 5)) (f64_mul (Fin 10) (p10 (f64_div (Fin m) (Fin 5)))) \<longrightarrow> length rs \<le> 7)"
proof (cases "m = 0")
  case True
  then show ?thesis by (intro exI [of _ "[0, 1]"]) (simp add: niceTicks_def)
next
  case False
  then have m: "1 / 10 ^ 15 \<le> m" "m \<le> 10 ^ 26" using assms(2) by (auto simp: drawable_def)
  have m0: "0 < m" using m(1) by (rule less_le_trans [rotated]) simp
  have r: "0 \<le> m / 5" "m / 5 \<le> 10 ^ 29" using m0 m(2) by simp_all
  have "m / 5 / 2 ^ 53 + 1 / 10 ^ 30 \<le> m / 5 / 1000" using m(1) by simp
  from rounded_within [OF r this] obtain x where x: "f64_div (Fin m) (Fin 5) = Fin x" "m / 5 - m / 5 / 1000 \<le> x" "x \<le> m / 5 + m / 5 / 1000"
    by auto
  have xr: "1 / 10 ^ 16 \<le> x" "x \<le> 10 ^ 26" using x(2,3) m by simp_all
  obtain p where p: "p10 (Fin x) = Fin p" "x \<le> 11 * p" "p \<le> 2 * x" using assms(1) xr unfolding power_below_def by blast
  have pr: "1 / 10 ^ 17 \<le> p" "p \<le> 2 * 10 ^ 26" using p(2,3) xr x(2) m(1) by simp_all
  have p0: "0 < p" using pr(1) by (rule less_le_trans [rotated]) simp
  obtain s where s: "tick_step (Fin x) (Fin p) = Fin s" "p * 9 / 10 \<le> s" "s \<le> 11 * p" "f64_le (Fin x) (f64_mul (Fin 10) (Fin p)) \<longrightarrow> x \<le> s"
    using tick_step_range [OF p0 pr(2,1) p(2,3)] by blast
  have nt: "niceTicks p10 (Fin m) = tick_loop (Fin 0) (Fin s) (Fin m)"
    using m0 unfolding niceTicks_def x(1) Let_def p(1) s(1) by simp
  have sr: "m \<le> 62 * s" "1 / 10 ^ 17 \<le> s" "s \<le> 10 ^ 27" using s(2,3) p(2,3) x(2,3) m by simp_all
  have "m - 0 \<le> of_nat 69 * (s * 9 / 10)" using sr(1,2) by simp
  from tick_loop_ends [OF sr order_refl this] obtain rs where rs: "tick_loop (Fin 0) (Fin s) (Fin m) = Some (map Fin rs)" "rs \<noteq> []" "hd rs = 0"
    "length rs \<le> 70" "m \<le> last rs" "sorted_wrt (<) rs" "\<forall>r\<in>set rs. 0 \<le> r" by auto
  moreover have "length rs \<le> 7" if "f64_le (Fin x) (f64_mul (Fin 10) (Fin p))"
  proof -
    have "x \<le> s" using s(4) that by blast
    moreover have "m \<le> 5000 / 999 * x" using x(2) by simp
    moreover have "5000 / 999 * s \<le> 6 * (s * 9 / 10)" using sr(2) by simp
    ultimately have "m - 0 \<le> of_nat 6 * (s * 9 / 10)" by simp
    from tick_loop_ends [OF sr order_refl this] show ?thesis using rs(1) by (auto simp: inj_map_eq_map [of Fin] inj_def)
  qed
  moreover have "0 < last rs" using rs(5) m0 by linarith
  ultimately show ?thesis unfolding nt x(1) p(1) by blast
qed

section \<open>Points inside the plot\<close>

lemma scaled_inside:
  assumes "0 \<le> y" "y \<le> hi" "0 < hi" "0 \<le> w" "w \<le> 1000" "of_int k = w"
  shows "\<exists>q. f64_mul (f64_div (Fin y) (Fin hi)) (Fin w) = Fin q \<and> 0 \<le> q \<and> q \<le> w"
proof -
  have one: "f64_round 1 = 1" using f64_round_of_int [of 1] by simp
  have d: "0 \<le> y / hi" "y / hi \<le> 1" using assms by simp_all
  obtain a where a: "f64_div (Fin y) (Fin hi) = Fin a" "a = f64_round (y / hi)"
  proof -
    have "\<bar>y / hi\<bar> \<le> 10 ^ 30" using d by simp
    then show thesis using that assms(3) by (simp add: f64_bounded_Fin)
  qed
  have a01: "0 \<le> a" "a \<le> 1" using f64_round_nonneg [OF d(1)] f64_round_mono [OF d] one by (simp_all add: a(2))
  have b: "0 \<le> a * w" "a * w \<le> w" using a01 assms(4) by (simp_all add: mult_left_le_one_le)
  have "a * w \<le> 10 ^ 30" using b(2) assms(5) by simp
  then have "f64_mul (Fin a) (Fin w) = Fin (f64_round (a * w))" using b(1) by (simp add: f64_bounded_Fin)
  moreover have "\<bar>k\<bar> \<le> 2 ^ 53"
  proof -
    have "(of_int k :: rat) \<le> of_int 1000" "of_int 0 \<le> (of_int k :: rat)" using assms(4-6) by simp_all
    then show ?thesis unfolding of_int_le_iff by simp
  qed
  then have "f64_round w = w" using f64_round_of_int [of k] assms(6) by simp
  then have "f64_round (a * w) \<le> w" using f64_round_mono [OF b] by simp
  ultimately show ?thesis using f64_round_nonneg [OF b(1)] unfolding a(1) by blast
qed

lemma whole_rounded: "of_int k = w \<Longrightarrow> 0 \<le> w \<Longrightarrow> w \<le> 1000 \<Longrightarrow> f64_round w = w"
proof -
  assume w: "of_int k = w" "0 \<le> w" "w \<le> 1000"
  then have "(of_int k :: rat) \<le> of_int 1000" "of_int 0 \<le> (of_int k :: rat)" by simp_all
  then have "\<bar>k\<bar> \<le> 2 ^ 53" unfolding of_int_le_iff by simp
  then show ?thesis using f64_round_of_int [of k] w(1) by simp
qed

lemma px_inside:
  assumes "0 \<le> x" "x \<le> hi" "0 < hi"
  shows "\<exists>q. px (Fin hi) (Fin x) = Fin q \<and> padL \<le> q \<and> q \<le> padL + plotW"
proof -
  have w: "0 \<le> plotW" "plotW \<le> 1000" "of_int 648 = plotW" by (simp_all add: plotW_def)
  obtain q where q: "f64_mul (f64_div (Fin x) (Fin hi)) (Fin plotW) = Fin q" "0 \<le> q" "q \<le> plotW"
    using scaled_inside [OF assms w] by blast
  have e: "f64_round padL = padL" "f64_round (padL + plotW) = padL + plotW"
    by (rule whole_rounded [of 56] whole_rounded [of 704]; simp add: padL_def plotW_def)+
  have b: "0 \<le> padL" "padL \<le> padL + q" "padL + q \<le> padL + plotW" "0 \<le> padL + q" using q(2,3) by (simp_all add: padL_def)
  have "\<bar>padL + q\<bar> \<le> 10 ^ 30" using q(2,3) by (simp add: padL_def plotW_def)
  then have "px (Fin hi) (Fin x) = Fin (f64_round (padL + q))" unfolding px_def q(1) by (simp add: f64_bounded_Fin)
  then show ?thesis using f64_round_mono [OF b(1,2)] f64_round_mono [OF b(4,3)] e by simp
qed

lemma py_inside:
  assumes "0 \<le> y" "y \<le> hi" "0 < hi"
  shows "\<exists>q. py (Fin hi) (Fin y) = Fin q \<and> padT \<le> q \<and> q \<le> padT + plotH"
proof -
  have w: "0 \<le> plotH" "plotH \<le> 1000" "of_int 192 = plotH" by (simp_all add: plotH_def)
  obtain q where q: "f64_mul (f64_div (Fin y) (Fin hi)) (Fin plotH) = Fin q" "0 \<le> q" "q \<le> plotH"
    using scaled_inside [OF assms w] by blast
  have e: "f64_round padT = padT" "f64_round (padT + plotH) = padT + plotH"
    by (rule whole_rounded [of 16] whole_rounded [of 208]; simp add: padT_def plotH_def)+
  have b: "0 \<le> padT" "padT \<le> padT + plotH - q" "padT + plotH - q \<le> padT + plotH" "0 \<le> padT + plotH - q"
    using q(2,3) by (simp_all add: padT_def)
  have "\<bar>padT + plotH - q\<bar> \<le> 10 ^ 30" using q(2,3) by (simp add: padT_def plotH_def)
  then have "py (Fin hi) (Fin y) = Fin (f64_round (padT + plotH - q))"
    unfolding py_def q(1) by (simp add: f64_sub_def f64_bounded_Fin)
  then show ?thesis using f64_round_mono [OF b(1,2)] f64_round_mono [OF b(4,3)] e by simp
qed

fun inside :: "string \<times> f64 \<times> f64 \<Rightarrow> bool" where
  "inside (c, Fin a, Fin b) = (padL \<le> a \<and> a \<le> padL + plotW \<and> padT \<le> b \<and> b \<le> padT + plotH)"
| "inside _ = False"

definition drawn_below :: "rat \<Rightarrow> f64 \<Rightarrow> bool" where
  "drawn_below m v \<longleftrightarrow> (case v of Fin y \<Rightarrow> 0 \<le> y \<and> y \<le> m | NaN \<Rightarrow> True | _ \<Rightarrow> False)"

lemma path_inside:
  assumes "0 < X" "0 < Y"
  shows "list_all (\<lambda>(x, y). x \<noteq> NaN \<and> drawn_below X x \<and> drawn_below Y y) ps \<Longrightarrow>
    list_all inside (path_cmds (Fin X) (Fin Y) pen ps) \<and>
    length (path_cmds (Fin X) (Fin Y) pen ps) = length (filter (\<lambda>(x, y). y \<noteq> NaN) ps)"
proof (induction ps arbitrary: pen)
  case (Cons q ps)
  obtain x y where q: "q = (x, y)" by fastforce
  show ?case
  proof (cases "y = NaN")
    case True
    then show ?thesis using Cons q by simp
  next
    case False
    obtain a b where ab: "x = Fin a" "0 \<le> a" "a \<le> X" "y = Fin b" "0 \<le> b" "b \<le> Y"
      using Cons.prems False q by (auto simp: drawn_below_def split: f64.splits)
    have "inside (c, px (Fin X) x, py (Fin Y) y)" for c
      using px_inside [OF ab(2,3) assms(1)] py_inside [OF ab(5,6) assms(2)] ab(1,4) by auto
    then show ?thesis using Cons q False by simp
  qed
qed simp

definition drawn :: "f64 \<Rightarrow> bool" where
  "drawn v \<longleftrightarrow> (case v of Fin y \<Rightarrow> drawable y | NaN \<Rightarrow> True | _ \<Rightarrow> False)"

lemma fold_max:
  "list_all (\<lambda>v. v \<noteq> NaN \<and> drawn v) vs \<Longrightarrow> drawable a \<Longrightarrow>
     \<exists>m. foldl f64_max (Fin a) vs = Fin m \<and> drawable m \<and> a \<le> m \<and> list_all (drawn_below m) vs"
proof (induction vs arbitrary: a)
  case (Cons v vs)
  then obtain y where y: "v = Fin y" "drawable y" by (auto simp: drawn_def split: f64.splits)
  have y0: "0 \<le> y"
  proof (cases "y = 0")
    case False
    then have "1 / 10 ^ 15 \<le> y" using y(2) by (simp add: drawable_def)
    then show ?thesis by (rule order_trans [rotated]) simp
  qed simp
  define b where "b = max a y"
  have fm: "f64_max (Fin a) v = Fin b" by (simp add: f64_max_def y(1) b_def max_def)
  have "drawable b" using Cons.prems(2) y(2) by (simp add: b_def max_def)
  then obtain m where m: "foldl f64_max (Fin b) vs = Fin m" "drawable m" "b \<le> m" "list_all (drawn_below m) vs"
    using Cons.IH [of b] Cons.prems(1) by auto
  have "drawn_below m v" using y0 y(1) m(3) by (simp add: drawn_below_def b_def)
  then show ?case using m fm by (auto simp: b_def)
qed simp

lemma chart_max_covers:
  assumes "list_all (\<lambda>l. list_all drawn (ln_ys l)) lns"
  shows "\<exists>m. chart_max lns = Fin m \<and> drawable m \<and> list_all (\<lambda>l. list_all (drawn_below m) (ln_ys l)) lns"
proof -
  let ?vs = "filter (\<lambda>y. y \<noteq> NaN) (concat (map ln_ys lns))"
  have "list_all (\<lambda>v. v \<noteq> NaN \<and> drawn v) ?vs" using assms by (auto simp: list_all_iff)
  then obtain m where m: "foldl f64_max (Fin 0) ?vs = Fin m" "drawable m" "list_all (drawn_below m) ?vs"
    using fold_max [of ?vs 0] by (auto simp: drawable_def [of 0])
  have "drawn_below m v" if "l \<in> set lns" "v \<in> set (ln_ys l)" for l v
    using m(3) that by (cases "v = NaN") (auto simp: list_all_iff drawn_below_def [of m NaN])
  then show ?thesis using m by (auto simp: chart_max_def list_all_iff)
qed

lemma line_chart_drawn:
  assumes "power_below p10" "xs \<noteq> []" "last xs = Fin X" "drawable X" "0 < X" "list_all (\<lambda>x. x \<noteq> NaN \<and> drawn_below X x) xs"
    and "list_all (\<lambda>l. list_all drawn (ln_ys l)) lns"
  shows "\<exists>svg rs. lineChart p10 title unit xs lns = Some svg \<and> niceTicks p10 (chart_max lns) = Some (map Fin rs) \<and> rs \<noteq> [] \<and>
    list_all (\<lambda>l. list_all inside (path_cmds (last xs) (Fin (last rs)) False (zip xs (ln_ys l))) \<and>
      length (path_cmds (last xs) (Fin (last rs)) False (zip xs (ln_ys l))) = length (filter (\<lambda>(x, y). y \<noteq> NaN) (zip xs (ln_ys l)))) lns"
proof -
  obtain m where m: "chart_max lns = Fin m" "drawable m" "list_all (\<lambda>l. list_all (drawn_below m) (ln_ys l)) lns"
    using chart_max_covers [OF assms(7)] by blast
  obtain rs where rs: "niceTicks p10 (Fin m) = Some (map Fin rs)" "rs \<noteq> []" "m \<le> last rs" "0 < last rs" using nice_ticks [OF assms(1) m(2)] by blast
  obtain us where us: "niceTicks p10 (Fin X) = Some (map Fin us)" using nice_ticks [OF assms(1,4)] by blast
  have "\<exists>svg. lineChart p10 title unit xs lns = Some svg" using rs(1) us by (simp add: lineChart_def m(1) assms(3) Let_def)
  moreover have "list_all (\<lambda>(x, y). x \<noteq> NaN \<and> drawn_below X x \<and> drawn_below (last rs) y) (zip xs (ln_ys l))" if "l \<in> set lns" for l
  proof -
    have "drawn_below m v \<Longrightarrow> drawn_below (last rs) v" for v using rs(3) by (cases v) (auto simp: drawn_below_def)
    then show ?thesis using m(3) assms(6) that by (auto simp: list_all_iff dest: set_zip_leftD set_zip_rightD)
  qed
  note pi = path_inside [OF assms(5) rs(4) this, where pen = False]
  ultimately show ?thesis using rs pi assms(3) m(1) by (auto simp: list_all_iff)
qed

section \<open>The series\<close>

lemma dur_Seconds_parts:
  assumes "0 \<le> d" "in64 d"
  shows "dur_Seconds d = Fin (f64_round (of_int (d div second) + f64_round (of_int (d mod second) / 10 ^ 9)))"
proof -
  have q: "0 \<le> d div second" "d div second \<le> 10 ^ 10" "0 \<le> d mod second" "d mod second < second" "(0 :: int) < second"
    using assms by (simp_all add: second_def in64_def)
  have g: "go_div d second = d div second" "d - d div second * second = d mod second"
    using assms(1) q(5) by (simp_all add: go_div_nonneg minus_div_mult_eq_mod)
  have e: "f64_of_int (d div second) = Fin (of_int (d div second))" "f64_of_int (d mod second) = Fin (of_int (d mod second))"
    "f64_of_int second = Fin (10 ^ 9)"
    using q f64_of_int_exact [of second] by (auto intro!: f64_of_int_exact simp: second_def)
  let ?f = "(of_int (d mod second) :: rat) / 10 ^ 9"
  have "(of_int (d mod second) :: rat) \<le> of_int (10 ^ 9)" unfolding of_int_le_iff using q(4) by (simp add: second_def)
  then have f: "0 \<le> ?f" "?f \<le> 1" using q(3) by simp_all
  then have "\<bar>?f\<bar> \<le> 10 ^ 30" by simp
  then have "f64_div (Fin (of_int (d mod second))) (Fin (10 ^ 9)) = Fin (f64_round ?f)" by (simp add: f64_bounded_Fin)
  moreover have r: "0 \<le> f64_round ?f" "f64_round ?f \<le> 1"
    using f64_round_nonneg [OF f(1)] f64_round_mono [OF f] f64_round_of_int [of 1] by simp_all
  have "(of_int (d div second) :: rat) \<le> of_int (10 ^ 10)" unfolding of_int_le_iff by (rule q(2))
  moreover have "0 \<le> (of_int (d div second) :: rat)" using q(1) by simp
  ultimately have "f64_div (Fin (of_int (d mod second))) (Fin (10 ^ 9)) = Fin (f64_round ?f)"
    "\<bar>of_int (d div second) + f64_round ?f\<bar> \<le> 10 ^ 30" using r by simp_all
  then show ?thesis unfolding dur_Seconds_def g e by (simp add: f64_bounded_Fin)
qed

lemma dur_Seconds_mono:
  assumes "0 \<le> d" "d \<le> e" "in64 e" "dur_Seconds d = Fin x" "dur_Seconds e = Fin y"
  shows "x \<le> y"
proof -
  have i: "in64 d" "0 \<le> e" using assms(1-3) by (auto simp: in64_def)
  let ?g = "\<lambda>d :: int. f64_round (of_int (d mod second) / 10 ^ 9) :: rat"
  have r: "0 \<le> ?g d" "?g d \<le> 1" for d
  proof -
    have "0 \<le> d mod second" "d mod second < second" by (simp_all add: second_def)
    then have "(of_int (d mod second) :: rat) \<le> of_int (10 ^ 9)" unfolding of_int_le_iff by (simp add: second_def)
    then have f: "0 \<le> (of_int (d mod second) :: rat) / 10 ^ 9" "(of_int (d mod second) :: rat) / 10 ^ 9 \<le> 1"
      using \<open>0 \<le> d mod second\<close> by simp_all
    show "0 \<le> ?g d" "?g d \<le> 1"
      using f64_round_nonneg [OF f(1)] f64_round_mono [OF f] f64_round_of_int [of 1] by simp_all
  qed
  have q: "0 \<le> d div second" "d div second \<le> e div second" using assms(1,2) by (simp_all add: second_def zdiv_mono1)
  have le: "of_int (d div second) + ?g d \<le> of_int (e div second) + ?g e"
  proof (cases "d div second = e div second")
    case True
    have "d mod second = d - d div second * second" "e mod second = e - d div second * second"
      using minus_div_mult_eq_mod [of d second] minus_div_mult_eq_mod [of e second] True by simp_all
    then have "d mod second \<le> e mod second" using assms(2) by linarith
    then have "(of_int (d mod second) :: rat) / 10 ^ 9 \<le> of_int (e mod second) / 10 ^ 9" by simp
    moreover have "0 \<le> (of_int (d mod second) :: rat) / 10 ^ 9" by (simp add: second_def)
    ultimately show ?thesis using f64_round_mono True by simp
  next
    case False
    then have "d div second + 1 \<le> e div second" using q(2) by linarith
    then have "(of_int (d div second + 1) :: rat) \<le> of_int (e div second)" unfolding of_int_le_iff .
    then have "(of_int (d div second) :: rat) + 1 \<le> of_int (e div second)" by simp
    then show ?thesis using r(2) [of d] r(1) [of e] by linarith
  qed
  have "0 \<le> of_int (d div second) + ?g d" using q(1) r(1) [of d] by simp
  then have "f64_round (of_int (d div second) + ?g d) \<le> f64_round (of_int (e div second) + ?g e)"
    using le by (rule f64_round_mono)
  moreover have "x = f64_round (of_int (d div second) + ?g d)" using dur_Seconds_parts [OF assms(1) i(1)] unfolding assms(4) f64.inject .
  moreover have "y = f64_round (of_int (e div second) + ?g e)" using dur_Seconds_parts [OF i(2) assms(3)] unfolding assms(5) f64.inject .
  ultimately show ?thesis by (simp only:)
qed

lemma dur_Seconds_range:
  assumes "0 < d" "in64 d"
  shows "\<exists>x. dur_Seconds d = Fin x \<and> 1 / 10 ^ 10 \<le> x \<and> x \<le> 10 ^ 11"
proof -
  obtain x where x: "dur_Seconds d = Fin x" "\<bar>x - of_int d / 10 ^ 9\<bar> \<le> of_int d / 10 ^ 9 / 2 ^ 51 + 4 / 10 ^ 30"
    using dur_Seconds_close [of d] assms by auto
  have b: "1 \<le> (of_int d :: rat)" using assms(1) by simp
  have "(of_int d :: rat) \<le> of_int (2 ^ 63)" unfolding of_int_le_iff using assms(2) by (simp add: in64_def)
  then have b2: "(of_int d :: rat) \<le> 2 ^ 63" by simp
  have "1 / 10 ^ 10 \<le> of_int d / 10 ^ 9 - (of_int d / 10 ^ 9 / 2 ^ 51 + 4 / 10 ^ 30 :: rat)" using b by simp
  then have "1 / 10 ^ 10 \<le> x" using x(2) unfolding abs_le_iff by linarith
  moreover have "of_int d / 10 ^ 9 + (of_int d / 10 ^ 9 / 2 ^ 51 + 4 / 10 ^ 30 :: rat) \<le> 10 ^ 11" using b2 by simp
  then have "x \<le> 10 ^ 11" using x(2) unfolding abs_le_iff by linarith
  ultimately show ?thesis using x(1) by blast
qed

lemma drawn_quotient:
  assumes "0 \<le> n" "n \<le> 2 ^ 53" "1 / 10 ^ 10 \<le> z" "z \<le> 2 ^ 53"
  shows "\<exists>y. f64_div (f64_of_int n) (Fin z) = Fin y \<and> (n = 0 \<longrightarrow> y = 0) \<and> (n \<noteq> 0 \<longrightarrow> 1 / 10 ^ 16 \<le> y \<and> of_int n / z / 2 \<le> y) \<and> y \<le> 10 ^ 26"
proof -
  have e: "f64_of_int n = Fin (of_int n)" using assms(1,2) by (intro f64_of_int_exact) simp
  have z: "0 < z" using assms(3) by (rule less_le_trans [rotated]) simp
  let ?x = "of_int n / z"
  have "(of_int n :: rat) \<le> of_int (2 ^ 53)" unfolding of_int_le_iff by (rule assms(2))
  then have "?x \<le> 2 ^ 53 / (1 / 10 ^ 10)" using assms(1,3) z by (intro frac_le) simp_all
  then have hi: "?x \<le> 91 * 10 ^ 24" by simp
  show ?thesis
  proof (cases "n = 0")
    case True
    then show ?thesis using z f64_of_int_exact [of 0] by (simp add: f64_of_rat_def)
  next
    case False
    then have "1 \<le> (of_int n :: rat)" using assms(1) by simp
    then have "1 / 2 ^ 53 \<le> ?x" using assms(4) z by (intro frac_le) simp_all
    then have lo: "1 / 2 ^ 53 \<le> ?x" .
    have x0: "0 \<le> ?x" "?x \<le> 10 ^ 29" using assms(1) z hi by simp_all
    have "?x / 2 ^ 53 + 1 / 10 ^ 30 \<le> ?x / 1000" using lo by simp
    from rounded_within [OF x0 this] obtain y where y: "f64_of_rat ?x = Fin y" "?x - ?x / 1000 \<le> y" "y \<le> ?x + ?x / 1000" by blast
    have "1 / 10 ^ 16 \<le> ?x - ?x / 1000" using lo by simp
    then have "1 / 10 ^ 16 \<le> y" using y(2) by (rule order_trans)
    moreover have "?x / 2 \<le> ?x - ?x / 1000" using x0 by simp
    then have "?x / 2 \<le> y" using y(2) by (rule order_trans)
    moreover have "?x + ?x / 1000 \<le> 10 ^ 26" using hi by simp
    with y(3) have "y \<le> 10 ^ 26" by (rule order_trans)
    moreover have "f64_div (f64_of_int n) (Fin z) = Fin y" using y(1) z by (simp add: e)
    ultimately show ?thesis using False by blast
  qed
qed

text \<open>A series as the sampler makes it: points in the order of time, counts that are exact floats, latencies
  below 104 days.\<close>

definition small :: "int \<Rightarrow> bool" where
  "small n \<longleftrightarrow> 0 \<le> n \<and> n \<le> 2 ^ 53"

definition chartable :: "point \<Rightarrow> bool" where
  "chartable p \<longleftrightarrow> 0 < pt_At p \<and> in64 (pt_At p) \<and> list_all small [pt_VUs p, pt_Requests p, pt_Failed p, pt_P50 p, pt_P95 p, pt_P99 p]"

lemma drawn_simps: "drawn (Fin y) = drawable y" "drawn NaN" by (simp_all add: drawn_def)

lemma drawn_divided:
  assumes "small n" "1 / 10 ^ 10 \<le> z" "z \<le> 10 ^ 13"
  shows "drawn (f64_div (f64_of_int n) (Fin z))"
proof -
  have z: "0 < z" "z \<le> 2 ^ 53" using assms(2,3) by (auto intro: less_le_trans [rotated] order_trans)
  obtain y where y: "f64_div (f64_of_int n) (Fin z) = Fin y" "n = 0 \<longrightarrow> y = 0" "n \<noteq> 0 \<longrightarrow> of_int n / z / 2 \<le> y" "y \<le> 10 ^ 26"
    using drawn_quotient [OF _ _ assms(2) z(2)] assms(1) unfolding small_def by blast
  show ?thesis
  proof (cases "n = 0")
    case False
    then have "1 \<le> (of_int n :: rat)" using assms(1) by (simp add: small_def)
    then have "1 / 10 ^ 13 \<le> of_int n / z" using assms(3) z by (intro frac_le) simp_all
    then have "1 / 10 ^ 15 \<le> of_int n / z / 2" by simp
    then have "1 / 10 ^ 15 \<le> y" using y(3) False by (meson order_trans)
    then show ?thesis using y(1,4) by (simp add: drawn_simps drawable_def)
  qed (use y in \<open>simp add: drawn_simps drawable_def\<close>)
qed

lemma drawn_ms: "small d \<Longrightarrow> drawn (to_ms d)"
proof -
  assume d: "small d"
  have "f64_of_int millisecond = Fin (10 ^ 6)" using f64_of_int_exact [of millisecond] by (simp add: millisecond_def)
  then show ?thesis using drawn_divided [OF d, of "10 ^ 6"] by (simp add: to_ms_def)
qed

lemma drawn_percent:
  assumes "small n" "small m" "0 < m" "n \<le> m"
  shows "drawn (f64_mul (f64_div (f64_of_int n) (f64_of_int m)) (Fin 100))"
proof -
  have em: "f64_of_int m = Fin (of_int m)" using assms(2) by (intro f64_of_int_exact) (simp add: small_def)
  have "(of_int m :: rat) \<le> of_int (2 ^ 53)" unfolding of_int_le_iff using assms(2) by (simp add: small_def)
  then have zm: "1 / 10 ^ 10 \<le> (of_int m :: rat)" "(of_int m :: rat) \<le> 2 ^ 53" using assms(3) by (auto intro: order_trans [of _ 1])
  obtain y where y: "f64_div (f64_of_int n) (Fin (of_int m)) = Fin y" "n = 0 \<longrightarrow> y = 0" "n \<noteq> 0 \<longrightarrow> 1 / 10 ^ 16 \<le> y \<and> of_int n / of_int m / 2 \<le> y" "y \<le> 10 ^ 26"
    using drawn_quotient [OF _ _ zm] assms(1) unfolding small_def by blast
  have en: "f64_of_int n = Fin (of_int n)" using assms(1) by (intro f64_of_int_exact) (simp add: small_def)
  have q: "0 \<le> (of_int n :: rat) / of_int m" "(of_int n :: rat) / of_int m \<le> 1" using assms by (simp_all add: small_def)
  then have "\<bar>(of_int n :: rat) / of_int m\<bar> \<le> 10 ^ 30" by simp
  then have "f64_div (Fin (of_int n)) (Fin (of_int m)) = Fin (f64_round (of_int n / of_int m))" using assms(3) by (simp add: f64_bounded_Fin)
  then have y1: "y \<le> 1" "0 \<le> y" using y(1) f64_round_mono [OF q] f64_round_of_int [of 1] f64_round_nonneg [OF q(1)] by (simp_all add: en)
  show ?thesis
  proof (cases "n = 0")
    case True
    then show ?thesis unfolding em y(1) using y(2) by (simp add: f64_of_rat_def drawn_simps drawable_def)
  next
    case False
    have "0 \<le> y * 100" "y * 100 \<le> 10 ^ 29" using y1 by simp_all
    moreover have l: "1 / 10 ^ 16 \<le> y" using y(3) False by blast
    then have "y * 100 / 2 ^ 53 + 1 / 10 ^ 30 \<le> y" by simp
    ultimately obtain v where v: "f64_of_rat (y * 100) = Fin v" "y * 100 - y \<le> v" "v \<le> y * 100 + y" using rounded_within by blast
    then have "1 / 10 ^ 15 \<le> v" "v \<le> 10 ^ 26" using l y1 by simp_all
    then show ?thesis unfolding em y(1) using v(1) by (simp add: drawn_simps drawable_def)
  qed
qed

lemma rows_drawn:
  "list_all chartable ps \<Longrightarrow> list_all (\<lambda>p. pt_Failed p \<le> pt_Requests p) ps \<Longrightarrow> sorted_wrt (<) (prev # map pt_At ps) \<Longrightarrow> 0 \<le> prev \<Longrightarrow>
     length (chart_rows prev ps) = length ps \<and>
     list_all2 (\<lambda>w p. cw_x w = dur_Seconds (pt_At p) \<and> list_all drawn [cw_p50 w, cw_p95 w, cw_p99 w, cw_reqs w, cw_failed w, cw_errRate w, cw_vus w] \<and>
       (cw_p95 w = NaN \<longleftrightarrow> pt_Requests p = 0) \<and> (cw_errRate w = NaN \<longleftrightarrow> pt_Requests p = 0)) (chart_rows prev ps) ps"
proof (induction ps arbitrary: prev)
  case (Cons p ps)
  have c: "0 < pt_At p" "in64 (pt_At p)" "small (pt_VUs p)" "small (pt_Requests p)" "small (pt_Failed p)" "small (pt_P50 p)" "small (pt_P95 p)" "small (pt_P99 p)"
    and f: "pt_Failed p \<le> pt_Requests p"
    using Cons.prems(1,2) by (simp_all add: chartable_def)
  have d: "0 < pt_At p - prev" "in64 (pt_At p - prev)" using Cons.prems(3,4) c(2) by (auto simp: in64_def)
  obtain z where z: "dur_Seconds (wrap64 (pt_At p - prev)) = Fin z" "1 / 10 ^ 10 \<le> z" "z \<le> 10 ^ 11"
    unfolding wrap64_id [OF d(2)] using dur_Seconds_range [OF d] by blast
  have z0: "0 < z" using z(2) by (rule less_le_trans [rotated]) simp
  have z13: "z \<le> 10 ^ 13" using z(3) by simp
  have "f64_of_int 1 = Fin 1" using f64_of_int_exact [of 1] by simp
  have vus: "drawn (f64_of_int (pt_VUs p))"
  proof -
    have "drawn (f64_div (f64_of_int (pt_VUs p)) (Fin 1))" by (rule drawn_divided [OF c(3)]) simp_all
    moreover have e: "f64_of_int (pt_VUs p) = Fin (of_int (pt_VUs p))" using c(3) by (intro f64_of_int_exact) (simp add: small_def)
    have "f64_div (f64_of_int (pt_VUs p)) (Fin 1) = f64_of_int (pt_VUs p)" unfolding e by (simp flip: f64_of_int_def add: e)
    ultimately show ?thesis by simp
  qed
  have nn: "to_ms v \<noteq> NaN" if "small v" for v
  proof -
    have "f64_of_int v = Fin (of_int v)" using that by (intro f64_of_int_exact) (simp add: small_def)
    then show ?thesis using f64_of_int_exact [of millisecond] by (simp add: to_ms_def millisecond_def f64_of_rat_def Let_def)
  qed
  have "list_all drawn [f64_div (f64_of_int (pt_Requests p)) (Fin z), f64_div (f64_of_int (pt_Failed p)) (Fin z)]"
    using drawn_divided [OF c(4) z(2) z13] drawn_divided [OF c(5) z(2) z13] by simp
  moreover have "drawn (f64_mul (f64_div (f64_of_int (pt_Failed p)) (f64_of_int (pt_Requests p))) (Fin 100))" if "0 < pt_Requests p"
    using drawn_percent [OF c(5,4) that f] .
  moreover have "f64_mul (f64_div (f64_of_int (pt_Failed p)) (f64_of_int (pt_Requests p))) (Fin 100) \<noteq> NaN" if "0 < pt_Requests p"
  proof -
    have "f64_of_int (pt_Failed p) = Fin (of_int (pt_Failed p))" "f64_of_int (pt_Requests p) = Fin (of_int (pt_Requests p))"
      using c(4,5) by (auto intro!: f64_of_int_exact simp: small_def)
    then show ?thesis using that by (simp add: f64_of_rat_def Let_def f64_inf_def)
  qed
  moreover have "pt_Requests p = 0 \<longleftrightarrow> \<not> 0 < pt_Requests p" using c(4) by (auto simp: small_def)
  moreover have "\<not> f64_le (Fin z) (Fin 0)" using z0 by simp
  moreover have "sorted_wrt (<) (pt_At p # map pt_At ps)" "0 \<le> pt_At p" using Cons.prems(3) c(1) by simp_all
  note IH = Cons.IH [OF _ _ this]
  ultimately show ?case using IH Cons.prems(1,2) vus drawn_ms [OF c(6)] drawn_ms [OF c(7)] drawn_ms [OF c(8)] nn [OF c(7)] drawn_simps(2)
    by (simp add: z(1) Let_def del: f64_mul.simps)
qed simp

lemma rows_of_series:
  assumes "list_all chartable series" "list_all (\<lambda>p. pt_Failed p \<le> pt_Requests p) series" "sorted_wrt (<) (map pt_At series)" "series \<noteq> []"
  defines "rows \<equiv> chart_rows 0 series"
  shows "\<exists>X. last (map cw_x rows) = Fin X \<and> drawable X \<and> 0 < X \<and> rows \<noteq> [] \<and>
    list_all (\<lambda>x. x \<noteq> NaN \<and> drawn_below X x) (map cw_x rows) \<and>
    list_all (\<lambda>w. list_all drawn [cw_p50 w, cw_p95 w, cw_p99 w, cw_reqs w, cw_failed w, cw_errRate w, cw_vus w]) rows \<and>
    map (\<lambda>w. cw_p95 w = NaN) rows = map (\<lambda>p. pt_Requests p = 0) series"
proof -
  have at: "0 < pt_At p" "in64 (pt_At p)" if "p \<in> set series" for p using assms(1) that by (auto simp: list_all_iff chartable_def)
  have "sorted_wrt (<) (0 # map pt_At series)" using assms(3) at(1) by auto
  note r = rows_drawn [OF assms(1,2) this order_refl, folded rows_def]
  have l2: "list_all2 (\<lambda>w p. cw_x w = dur_Seconds (pt_At p)) rows series" "list_all2 (\<lambda>w p. (cw_p95 w = NaN) = (pt_Requests p = 0)) rows series"
    "list_all (\<lambda>w. list_all drawn [cw_p50 w, cw_p95 w, cw_p99 w, cw_reqs w, cw_failed w, cw_errRate w, cw_vus w]) rows"
    using r by (auto simp: list_all2_conv_all_nth list_all_length)
  have xs: "map cw_x rows = map (\<lambda>p. dur_Seconds (pt_At p)) series"
    using l2(1) by (induction rows series rule: list_all2_induct) simp_all
  have gaps: "map (\<lambda>w. cw_p95 w = NaN) rows = map (\<lambda>p. pt_Requests p = 0) series"
    using l2(2) by (induction rows series rule: list_all2_induct) simp_all
  let ?p = "last series"
  have lp: "?p \<in> set series" using assms(4) by simp
  obtain X where X: "dur_Seconds (pt_At ?p) = Fin X" "1 / 10 ^ 10 \<le> X" "X \<le> 10 ^ 11"
    using dur_Seconds_range [OF at [OF lp]] by blast
  have X0: "0 < X" using X(2) by (rule less_le_trans [rotated]) simp
  have "1 / 10 ^ 15 \<le> X" "X \<le> 10 ^ 26" using X(2,3) by (auto intro: order_trans [rotated] order_trans)
  then have dX: "drawable X" by (simp add: drawable_def)
  have "x \<noteq> NaN \<and> drawn_below X x" if x: "x \<in> set (map cw_x rows)" for x
  proof -
    obtain p where p: "p \<in> set series" "x = dur_Seconds (pt_At p)" using x unfolding xs by auto
    obtain y where y: "x = Fin y" "1 / 10 ^ 10 \<le> y" using dur_Seconds_range [OF at [OF p(1)]] p(2) by auto
    have "pt_At p \<le> pt_At ?p"
    proof -
      obtain i where i: "i < length series" "p = series ! i" using p(1) by (auto simp: in_set_conv_nth)
      have l: "?p = series ! (length series - 1)" using assms(4) by (rule last_conv_nth)
      show ?thesis
      proof (cases "i = length series - 1")
        case False
        then have "i < length series - 1" "length series - 1 < length series" using i(1) by linarith+
        then have "map pt_At series ! i < map pt_At series ! (length series - 1)"
          using sorted_wrt_nth_less [OF assms(3)] by simp
        then show ?thesis using i l by simp
      qed (simp add: l i(2))
    qed
    then have "y \<le> X" using dur_Seconds_mono [of "pt_At p" "pt_At ?p"] at [OF p(1)] at [OF lp] p(2) y(1) X(1) by simp
    moreover have "0 \<le> y" using y(2) by (rule order_trans [rotated]) simp
    ultimately show ?thesis using y(1) by (simp add: drawn_below_def)
  qed
  then have "list_all (\<lambda>x. x \<noteq> NaN \<and> drawn_below X x) (map cw_x rows)" by (simp add: list_all_iff)
  moreover have "rows \<noteq> []" using r assms(4) by auto
  moreover have "last (map cw_x rows) = Fin X" unfolding xs using assms(4) X(1) by (simp add: last_map)
  ultimately show ?thesis using dX X0 l2(3) gaps by blast
qed

lemma those_map: "(\<And>x. x \<in> set xs \<Longrightarrow> \<exists>y. f x = Some y) \<Longrightarrow> \<exists>ys. those (map f xs) = Some ys \<and> length ys = length xs"
proof (induction xs)
  case (Cons x xs)
  then obtain y ys where "f x = Some y" "those (map f xs) = Some ys" "length ys = length xs" by (metis list.set_intros)
  then show ?case by simp
qed simp

definition chart_ok :: "(f64 \<Rightarrow> f64) \<Rightarrow> f64 list \<Rightarrow> chart_line list \<Rightarrow> bool" where
  "chart_ok p10 xs lns = (case niceTicks p10 (chart_max lns) of None \<Rightarrow> False
     | Some ticks \<Rightarrow> list_all (\<lambda>l. let ps = zip xs (ln_ys l); cmds = path_cmds (last xs) (last ticks) False ps in
         list_all inside cmds \<and> length cmds = length (filter (\<lambda>(x, y). y \<noteq> NaN) ps)) lns)"


definition example_point :: "duration \<Rightarrow> int \<Rightarrow> point" where
  "example_point t n = \<lparr>pt_At = t, pt_Requests = n, pt_Failed = 0, pt_Mean = 0, pt_P50 = 0, pt_P95 = 0, pt_P99 = 0, pt_VUs = 1\<rparr>"


end
