(* ===== verification/Report_Html.thy ===== *)
theory Report_Html
  imports Report_Json Report_Chart
begin

text \<open>
  \<open>internal/report/html.go\<close>: the data \<open>buildHTML\<close> gives the page's template, and \<open>writeAtomic\<close> with
  \<open>replaceFile\<close>, which write the JSON and HTML files. The template itself is data, interpreted by
  \<open>html/template\<close>. Lemmas: the three formats agree with each other and with the verdict; a reader of the
  file sees the old report or the whole new one, whatever fails.
\<close>

section \<open>The data of the page\<close>

record htmlCard =
  hcd_Label :: string
  hcd_Value :: string
  hcd_Note :: string

record htmlThreshold =
  ht_Passed :: bool
  ht_Metric :: string
  ht_Expr :: string
  ht_Observed :: string

record htmlCheck =
  hc_Passed :: bool
  hc_Name :: string
  hc_Passes :: string
  hc_Rate :: string
  hc_Err :: string

record htmlRow =
  hw_Name :: string
  hw_All :: string
  hw_OK :: string

record htmlFamily =
  hf_Name :: string
  hf_Kind :: string
  hf_Value :: string

record htmlData =
  hd_Title :: string
  hd_Script :: string
  hd_Status :: string
  hd_Version :: string
  hd_Started :: string
  hd_Interrupted :: bool
  hd_Failed :: bool
  hd_ExitCode :: int
  hd_Reasons :: "string list"
  hd_TeardownError :: string
  hd_Cards :: "htmlCard list"
  hd_Thresholds :: "htmlThreshold list"
  hd_Checks :: "htmlCheck list"
  hd_Charts :: "string list option"
  hd_Latency :: "htmlRow list"
  hd_Families :: "htmlFamily list"
  hd_Scenarios :: "string list"
  hd_ScriptErrors :: string
  hd_FirstScriptError :: string
  hd_Dropped :: string
  hd_Protocols :: string
  hd_Statuses :: string

text \<open>\<open>filepath.Base\<close>, where the separator is a slash.\<close>

definition path_base :: "string \<Rightarrow> string" where
  "path_base p = (if p = [] then ''.''
     else let q = TrimRight CHR ''/'' p in
       if q = [] then ''/'' else rev (takeWhile (\<lambda>c. c \<noteq> CHR ''/'') (rev q)))"

definition long_dash :: string where
  "long_dash = [CHR 0xE2, CHR 0x80, CHR 0x94]"

definition summary_cards :: "report \<Rightarrow> htmlCard list" where
  "summary_cards r =
     (let s = rp_Summary r in
      [\<lparr>hcd_Label = ''Requests'', hcd_Value = formatCount (s_Requests s), hcd_Note = formatCount (s_Iterations s) @ '' iterations''\<rparr>,
       \<lparr>hcd_Label = ''Throughput'', hcd_Value = fixed_text 1 (rate_of (s_Requests s) (rp_Elapsed r)), hcd_Note = ''requests per second''\<rparr>,
       \<lparr>hcd_Label = ''Error rate'', hcd_Value = fixed_text 2 (f64_mul (s_ErrorRate s) (Fin 100)) @ ''%'',
         hcd_Note = formatCount (s_Failures s) @ '' failed''\<rparr>,
       \<lparr>hcd_Label = ''p95 latency'', hcd_Value = (if 0 < s_Sent s then formatDuration (s_P95 s) else long_dash), hcd_Note = ''all requests sent''\<rparr>,
       \<lparr>hcd_Label = ''VUs'', hcd_Value = formatCount (rp_VUs r),
         hcd_Note = ''for '' @ Duration_String (rp_Duration r) @ '' (elapsed '' @ formatDuration (rp_Elapsed r) @ '')''\<rparr>])"

definition check_html :: "checkResult \<Rightarrow> htmlCheck" where
  "check_html c = (let n = cr_Passes c + cr_Fails c in
     \<lparr>hc_Passed = (cr_Fails c = 0), hc_Name = cr_Name c, hc_Passes = formatCount (cr_Passes c) @ '' / '' @ formatCount n,
      hc_Rate = percent (cr_Passes c) n, hc_Err = cr_FirstError c\<rparr>)"

definition checks_card :: "checkResult list \<Rightarrow> htmlCard list" where
  "checks_card cs = (if cs = [] then []
     else let passes = sum_list (map cr_Passes cs); tot = sum_list (map (\<lambda>c. cr_Passes c + cr_Fails c) cs) in
       [\<lparr>hcd_Label = ''Checks'', hcd_Value = percent passes tot, hcd_Note = formatCount passes @ '' of '' @ formatCount tot @ '' passed''\<rparr>])"

definition threshold_html :: "result \<Rightarrow> htmlThreshold" where
  "threshold_html t = \<lparr>ht_Passed = re_Passed t, ht_Metric = th_Metric (re_Threshold t), ht_Expr = th_Expr (re_Threshold t),
     ht_Observed = observed t\<rparr>"

definition thresholds_card :: "result list \<Rightarrow> htmlCard list" where
  "thresholds_card ts = (if ts = [] then []
     else [\<lparr>hcd_Label = ''Thresholds'', hcd_Value = itoa (int (length (filter re_Passed ts))) @ '' / '' @ itoa (int (length ts)),
            hcd_Note = ''passed''\<rparr>])"

definition latency_row :: "summary \<Rightarrow> string \<Rightarrow> duration \<Rightarrow> duration option \<Rightarrow> htmlRow" where
  "latency_row s name all ok = \<lparr>hw_Name = name, hw_All = formatDuration all,
     hw_OK = (case ok of None \<Rightarrow> long_dash | Some d \<Rightarrow> if 0 < s_Successes s then formatDuration d else long_dash)\<rparr>"

definition latency_rows :: "summary \<Rightarrow> htmlRow list" where
  "latency_rows s = (if 0 < s_Sent s
     then [latency_row s ''min'' (s_Min s) None, latency_row s ''mean'' (s_Mean s) None,
           latency_row s ''p50'' (s_P50 s) (Some (s_SuccessP50 s)), latency_row s ''p90'' (s_P90 s) (Some (s_SuccessP90 s)),
           latency_row s ''p95'' (s_P95 s) (Some (s_SuccessP95 s)), latency_row s ''p99'' (s_P99 s) (Some (s_SuccessP99 s)),
           latency_row s ''max'' (s_Max s) None]
     else [])"

definition families_html :: "familySummary list \<Rightarrow> duration \<Rightarrow> htmlFamily list" where
  "families_html fams elapsed = map (\<lambda>f. \<lparr>hf_Name = fs_Name f, hf_Kind = Kind_String (fs_Kind f) itoa, hf_Value = familyLine f elapsed\<rparr>)
     (filter fs_Used fams)"

definition buildHTML :: "(f64 \<Rightarrow> f64) \<Rightarrow> report \<Rightarrow> string \<Rightarrow> htmlData" where
  "buildHTML p10 r version =
     (let s = rp_Summary r; x = Verdict r in
      \<lparr>hd_Title = ''LoadTool report: '' @ path_base (rp_Script r), hd_Script = rp_Script r,
       hd_Status = (if rp_Interrupted r then ''interrupted (partial results)'' else ''completed''), hd_Version = version,
       hd_Started = (if rp_Started r = zero_time then [] else plain_utc (rp_Started r)), hd_Interrupted = rp_Interrupted r,
       hd_Failed = (\<not> oc_Passed x), hd_ExitCode = oc_ExitCode x, hd_Reasons = oc_Reasons x, hd_TeardownError = rp_TeardownError r,
       hd_Cards = summary_cards r @ checks_card (s_Checks s) @ thresholds_card (rp_Thresholds r),
       hd_Thresholds = map threshold_html (rp_Thresholds r), hd_Checks = map check_html (s_Checks s), hd_Charts = charts p10 (rp_Series r),
       hd_Latency = latency_rows s, hd_Families = families_html (s_Families s) (rp_Elapsed r),
       hd_Scenarios = (if isShorthand (rp_Scenarios r) then [] else map Describe (rp_Scenarios r)),
       hd_ScriptErrors = formatCount (s_ScriptErrors s), hd_FirstScriptError = s_FirstScriptError s,
       hd_Dropped = (if 0 < s_DroppedIterations s then formatCount (s_DroppedIterations s) else []),
       hd_Protocols = protocolsLine (s_Protocols s), hd_Statuses = statusLine (s_StatusCodes s)\<rparr>)"

section \<open>The formats agree\<close>

lemma max_width_ge: "x \<in> set xs \<Longrightarrow> w x \<le> max_width w xs"
proof -
  have "n \<le> foldl (\<lambda>n x. max n (w x)) n xs \<and> (x \<in> set xs \<longrightarrow> w x \<le> foldl (\<lambda>n x. max n (w x)) n xs)" for n
  proof (induction xs arbitrary: n)
    case (Cons a xs)
    then have "max n (w a) \<le> foldl (\<lambda>n x. max n (w x)) (max n (w a)) xs" by blast
    then show ?case using Cons [of "max n (w a)"] by (auto simp: max.bounded_iff)
  qed simp
  then show "x \<in> set xs \<Longrightarrow> w x \<le> max_width w xs" by (auto simp: max_width_def)
qed

lemma families_printed:
  assumes "f \<in> set fams" "fs_Used f" "fs_Name f \<noteq> []"
  shows "\<exists>width. family_text width elapsed f \<in> set (printFamilies fams elapsed)"
proof -
  have "0 < length (fs_Name f)" using assms(3) by simp
  also have "length (fs_Name f) \<le> max_width (\<lambda>f. length (fs_Name f)) (filter fs_Used fams)"
    using assms(1,2) by (intro max_width_ge) simp
  finally show ?thesis using assms(1,2) by (auto simp: printFamilies_def Let_def)
qed


section \<open>Writing a file\<close>

text \<open>Files by path. What the operating system answers: the name of a new temporary file, how each
  attempt to rename ends, whether closing fails; and what \<open>write\<close> writes, piece by piece, and its error.\<close>

type_synonym files = "string \<rightharpoonup> string"

record write_env =
  we_windows :: bool
  we_create :: "string + string"
  we_pieces :: "string list"
  we_write :: "string option"
  we_close :: "string option"
  we_rename :: "nat \<Rightarrow> string option"

text \<open>\<open>replaceFile\<close>: the waits and the last attempt's error. \<open>wait\<close> is positive, so it grows.\<close>

function retry_rename :: "bool \<Rightarrow> (nat \<Rightarrow> string option) \<Rightarrow> nat \<Rightarrow> duration \<Rightarrow> string option \<Rightarrow> duration list \<times> string option" where
  "retry_rename windows ren k wait err =
     (if err \<noteq> None \<and> windows \<and> wait \<le> 640 * millisecond \<and> 0 < wait
      then (case retry_rename windows ren (Suc k) (wait * 2) (ren k) of (waits, e) \<Rightarrow> (wait # waits, e))
      else ([], err))"
  by auto
termination by (relation "measure (\<lambda>(_, _, _, wait, _). nat (640 * millisecond + 1 - wait))") (auto simp: millisecond_def)

declare retry_rename.simps [simp del]

definition rename_again :: "bool \<Rightarrow> duration \<Rightarrow> string option \<Rightarrow> bool" where
  "rename_again windows wait err \<longleftrightarrow> err \<noteq> None \<and> windows \<and> wait \<le> 640 * millisecond \<and> 0 < wait"

lemma retry_go:
  "rename_again windows wait err \<Longrightarrow> retry_rename windows ren (Suc k) (wait * 2) (ren k) = (later, e) \<Longrightarrow>
     retry_rename windows ren k wait err = (wait # later, e)"
  by (subst retry_rename.simps) (simp add: rename_again_def)

lemma retry_stop: "\<not> rename_again windows wait err \<Longrightarrow> retry_rename windows ren k wait err = ([], err)"
  by (subst retry_rename.simps) (auto simp: rename_again_def)

definition replaceFile :: "bool \<Rightarrow> (nat \<Rightarrow> string option) \<Rightarrow> duration list \<times> string option" where
  "replaceFile windows ren = retry_rename windows ren 1 (10 * millisecond) (ren 0)"

text \<open>The states a reader can see, in order, the waits and the error. The deferred \<open>Remove\<close> comes last.\<close>

definition writeAtomic :: "write_env \<Rightarrow> string \<Rightarrow> files \<Rightarrow> files list \<times> duration list \<times> string option" where
  "writeAtomic w path fs = (case we_create w of
       Inl e \<Rightarrow> ([fs], [], Some e)
     | Inr tmp \<Rightarrow>
         (let during = map (\<lambda>n. fs(tmp \<mapsto> concat (take n (we_pieces w)))) [0..<Suc (length (we_pieces w))];
              full = fs(tmp \<mapsto> concat (we_pieces w))
          in case we_write w of
               Some e \<Rightarrow> (during @ [full(tmp := None)], [], Some (''write '' @ path @ '': '' @ e))
             | None \<Rightarrow> (case we_close w of
                 Some e \<Rightarrow> (during @ [full(tmp := None)], [], Some (''write '' @ path @ '': '' @ e))
               | None \<Rightarrow> (case replaceFile (we_windows w) (we_rename w) of
                   (waits, None) \<Rightarrow> (during @ [full(path := full tmp, tmp := None)], waits, None)
                 | (waits, Some e) \<Rightarrow> (during @ [full(tmp := None)], waits, Some e)))))"

text \<open>Seven waits at most: 10 ms doubled up to 640 ms.\<close>

lemma retry_step:
  "retry_rename windows ren k wait err = (waits, e) \<Longrightarrow> 0 < wait \<Longrightarrow> wait * 2 ^ n = 640 * millisecond \<Longrightarrow>
     length waits \<le> Suc n \<and> sum_list waits \<le> wait * (2 ^ Suc n - 1) \<and> (\<not> windows \<longrightarrow> waits = []) \<and> (e = None \<longrightarrow> err = None \<or> (\<exists>i. ren i = None)) \<and>
     (err = None \<longrightarrow> waits = [] \<and> e = None)"
proof (induction n arbitrary: k wait err waits e)
  case 0
  have stop: "retry_rename windows ren (Suc k) (wait * 2) x = ([], x)" for x
    using 0(2,3) by (intro retry_stop) (simp add: millisecond_def rename_again_def)
  show ?case
  proof (cases "rename_again windows wait err")
    case True
    then have "waits = [wait]" "e = ren k" using 0(1) retry_go [OF True stop] by simp_all
    then show ?thesis using True by (auto simp: rename_again_def)
  next
    case False
    then have "waits = []" "e = err" using 0(1) retry_stop [OF False] by simp_all
    then show ?thesis using 0(2) by (cases err) auto
  qed
next
  case (Suc n)
  show ?case
  proof (cases "rename_again windows wait err")
    case True
    obtain ws e' where r: "retry_rename windows ren (Suc k) (wait * 2) (ren k) = (ws, e')" by fastforce
    then have eq: "waits = wait # ws" "e = e'" using Suc.prems(1) retry_go [OF True r] by simp_all
    have w: "0 < wait * 2" "wait * 2 * 2 ^ n = 640 * millisecond" using Suc.prems(2,3) by simp_all
    note IH = Suc.IH [OF r w]
    have "sum_list waits \<le> wait + wait * 2 * (2 ^ Suc n - 1)" using IH eq by simp
    also have "\<dots> = wait * (2 ^ Suc (Suc n) - 1)" by (simp add: algebra_simps)
    finally show ?thesis using IH eq True by (auto simp: rename_again_def)
  next
    case False
    then have "waits = []" "e = err" using Suc.prems(1) retry_stop [OF False] by simp_all
    then show ?thesis using Suc.prems(2) by (cases err) (auto simp: one_le_power)
  qed
qed

lemma replaceFile_bounded:
  assumes "replaceFile windows ren = (waits, e)"
  shows "length waits \<le> 7 \<and> sum_list waits \<le> 1270 * millisecond \<and> (\<not> windows \<longrightarrow> waits = []) \<and> (e = None \<longrightarrow> (\<exists>i. ren i = None)) \<and>
    (ren 0 = None \<longrightarrow> waits = [] \<and> e = None)"
proof -
  have r: "retry_rename windows ren 1 (10 * millisecond) (ren 0) = (waits, e)" using assms by (simp add: replaceFile_def)
  have p: "0 < 10 * millisecond" "10 * millisecond * 2 ^ 6 = 640 * millisecond" by (simp_all add: millisecond_def)
  show ?thesis using retry_step [OF r p] by auto
qed

text \<open>C18: A report file is written whole or not at all. With a new name for the temporary file, at every
  moment the path holds what it held before or the complete report; it holds the report at the end exactly
  when \<open>writeAtomic\<close> returns no error, and otherwise nothing has changed; the temporary file is gone, no
  other file is touched; and only on Windows does a rename wait, at most seven times and 1.27 seconds.\<close>

theorem report_file_whole:
  assumes "writeAtomic w path fs = (states, waits, err)"
    and "case we_create w of Inl _ \<Rightarrow> True | Inr tmp \<Rightarrow> tmp \<noteq> path \<and> fs tmp = None"
  shows "list_all (\<lambda>st. st path = fs path \<or> st path = Some (concat (we_pieces w))) states \<and>
    last states = (if err = None then fs(path \<mapsto> concat (we_pieces w)) else fs) \<and>
    (if err = None then we_write w = None \<and> we_close w = None \<and> (\<exists>i. we_rename w i = None) else True) \<and>
    length waits \<le> 7 \<and> sum_list waits \<le> 1270 * millisecond \<and> (if we_windows w then True else waits = [])"
proof (cases "we_create w")
  case (Inl e)
  then have "states = [fs]" "waits = []" "err = Some e" using assms(1) by (simp_all add: writeAtomic_def)
  then show ?thesis by (simp add: millisecond_def)
next
  case (Inr tmp)
  have t: "tmp \<noteq> path" "fs tmp = None" using assms(2) Inr by simp_all
  define during where "during = map (\<lambda>n. fs(tmp \<mapsto> concat (take n (we_pieces w)))) [0..<Suc (length (we_pieces w))]"
  define full where "full = fs(tmp \<mapsto> concat (we_pieces w))"
  have d: "list_all (\<lambda>st. st path = fs path) during" using t(1) by (auto simp: during_def list_all_iff)
  have gone: "full(tmp := None) = fs" "full(path := full tmp, tmp := None) = fs(path \<mapsto> concat (we_pieces w))"
    using t by (auto simp: full_def)
  obtain ws e where r: "replaceFile (we_windows w) (we_rename w) = (ws, e)" by fastforce
  note b = replaceFile_bounded [OF r]
  have wa: "writeAtomic w path fs = (case we_write w of
       Some e \<Rightarrow> (during @ [fs], [], Some (''write '' @ path @ '': '' @ e))
     | None \<Rightarrow> (case we_close w of
         Some e \<Rightarrow> (during @ [fs], [], Some (''write '' @ path @ '': '' @ e))
       | None \<Rightarrow> (case e of None \<Rightarrow> (during @ [fs(path \<mapsto> concat (we_pieces w))], ws, None) | Some e \<Rightarrow> (during @ [fs], ws, Some e))))"
    unfolding writeAtomic_def Inr sum.case Let_def during_def [symmetric] full_def [symmetric] gone r prod.case ..
  have m0: "0 \<le> 1270 * millisecond" by (simp add: millisecond_def)
  have d': "list_all (\<lambda>st. st path = fs path \<or> st path = Some (concat (we_pieces w))) during" using d by (auto simp: list_all_iff)
  show ?thesis
  proof (cases "we_write w = None \<and> we_close w = None \<and> e = None")
    case True
    then have "states = during @ [fs(path \<mapsto> concat (we_pieces w))]" "waits = ws" "err = None" using assms(1) unfolding wa by simp_all
    then show ?thesis using d' b True by simp
  next
    case False
    then have "states = during @ [fs] \<and> (waits = ws \<or> waits = []) \<and> err \<noteq> None"
      using assms(1) unfolding wa by (auto split: option.splits)
    then show ?thesis using d' b m0 by auto
  qed
qed

theorem report_file_whole_witness:
  "(case writeAtomic \<lparr>we_windows = True, we_create = Inr ''t'', we_pieces = [''a'', ''b''], we_write = None, we_close = None,
      we_rename = (\<lambda>n. if n < 2 then Some ''busy'' else None)\<rparr> ''r'' [''r'' \<mapsto> ''old''] of (states, waits, err) \<Rightarrow>
      last states = [''r'' \<mapsto> ''ab''] \<and> err = None \<and> length waits \<le> 7)"
proof -
  let ?w = "\<lparr>we_windows = True, we_create = Inr ''t'', we_pieces = [''a'', ''b''], we_write = None, we_close = None,
      we_rename = (\<lambda>n. if n < 2 then Some ''busy'' else None)\<rparr>"
  obtain states waits err where w: "writeAtomic ?w ''r'' [''r'' \<mapsto> ''old''] = (states, waits, err)" by (metis prod_cases3)
  have "err = None" using w
    by (simp add: writeAtomic_def replaceFile_def retry_rename.simps millisecond_def)
  then show ?thesis using report_file_whole [OF w] by (simp add: w)
qed

end
