(* ===== verification/Http_Client.thy ===== *)
theory Http_Client
  imports Summary_Merge Ui_Config
begin

text \<open>
  HTTP requests: \<open>internal/httpclient/httpclient.go\<close> and \<open>jar.go\<close>. The transport of \<open>net/http\<close> is an
  argument: what \<open>http.NewRequest\<close> and \<open>Client.Do\<close> answer, and what reading the body yields. What a
  request records is the list of recorder calls.
\<close>

section \<open>The client\<close>

definition HTTPAuto :: string where "HTTPAuto = ''auto''"
definition HTTP11 :: string where "HTTP11 = ''1.1''"
definition HTTP2 :: string where "HTTP2 = ''2''"

record http_protocols =
  pr_HTTP1 :: bool
  pr_HTTP2 :: bool
  pr_UnencryptedHTTP2 :: bool

definition transport_protocols :: "string \<Rightarrow> http_protocols" where
  "transport_protocols version =
     (if version = HTTP11 then \<lparr>pr_HTTP1 = True, pr_HTTP2 = False, pr_UnencryptedHTTP2 = False\<rparr>
      else if version = HTTP2 then \<lparr>pr_HTTP1 = False, pr_HTTP2 = True, pr_UnencryptedHTTP2 = True\<rparr>
      else \<lparr>pr_HTTP1 = True, pr_HTTP2 = True, pr_UnencryptedHTTP2 = False\<rparr>)"

record http_options =
  ho_MaxConnsPerHost :: int
  ho_Timeout :: duration
  ho_NoConnectionReuse :: bool
  ho_HTTPVersion :: string
  ho_TLS :: bool
  ho_DialControl :: bool
  ho_NoProxy :: bool

text \<open>The client: its transport's settings (\<open>hc_OwnDialer\<close> and \<open>hc_OwnTLS\<close> are whether the default dialer
  and TLS settings are replaced), and that it never follows a redirect.\<close>

record http_client =
  hc_DisableKeepAlives :: bool
  hc_MaxConnsPerHost :: int
  hc_MaxIdleConns :: int
  hc_MaxIdleConnsPerHost :: int
  hc_DisableCompression :: bool
  hc_Protocols :: http_protocols
  hc_OwnTLS :: bool
  hc_OwnDialer :: bool
  hc_Proxy :: bool
  hc_Timeout :: duration
  hc_FollowRedirects :: bool

definition NewWithOptions :: "http_options \<Rightarrow> http_client" where
  "NewWithOptions opts = \<lparr>hc_DisableKeepAlives = ho_NoConnectionReuse opts, hc_MaxConnsPerHost = ho_MaxConnsPerHost opts,
     hc_MaxIdleConns = ho_MaxConnsPerHost opts, hc_MaxIdleConnsPerHost = ho_MaxConnsPerHost opts, hc_DisableCompression = True,
     hc_Protocols = transport_protocols (ho_HTTPVersion opts), hc_OwnTLS = ho_TLS opts, hc_OwnDialer = ho_DialControl opts,
     hc_Proxy = (\<not> ho_NoProxy opts), hc_Timeout = ho_Timeout opts, hc_FollowRedirects = False\<rparr>"

section \<open>Requests\<close>

record hreq =
  hq_Method :: string
  hq_URL :: string
  hq_Body :: string
  hq_Header :: "url_values option"
  hq_KeepBody :: bool

record hresult =
  rs_Status :: int
  rs_Duration :: duration
  rs_Err :: "string option"
  rs_Header :: "url_values option"
  rs_Proto :: string
  rs_Body :: "string option"

definition hresult_zero :: hresult where
  "hresult_zero = \<lparr>rs_Status = 0, rs_Duration = 0, rs_Err = None, rs_Header = None, rs_Proto = [], rs_Body = None\<rparr>"

definition result_OK :: "hresult \<Rightarrow> bool" where
  "result_OK r \<longleftrightarrow> rs_Err r = None \<and> 200 \<le> rs_Status r \<and> rs_Status r < 400"

text \<open>A response: its body is what reading it yields before it ends, or fails with an error;
  \<open>hp_ContentLength\<close> is negative when unknown.\<close>

record hresponse =
  hp_StatusCode :: int
  hp_Header :: url_values
  hp_Proto :: string
  hp_ContentLength :: int
  hp_Data :: string
  hp_ReadErr :: "string option"

definition maxPresize :: int where "maxPresize = 16 * 1048576"

definition readBody :: "hresponse \<Rightarrow> string option \<times> string option" where
  "readBody resp =
     (let n = hp_ContentLength resp; data = hp_Data resp in
      if 0 \<le> n \<and> n \<le> maxPresize
      then if n \<le> int (length data) then (Some (take (nat n) data), None)
           else (None, Some (case hp_ReadErr resp of Some e \<Rightarrow> e | None \<Rightarrow> if data = [] then ''EOF'' else ''unexpected EOF''))
      else (Some data, hp_ReadErr resp))"

text \<open>\<open>build\<close> is the error of \<open>http.NewRequest\<close>, \<open>send\<close> the answer of \<open>Client.Do\<close>, \<open>took\<close> the time until the
  body was read.\<close>

definition Send :: "(hreq \<Rightarrow> string option) \<Rightarrow> (hreq \<Rightarrow> string + hresponse) \<Rightarrow> duration \<Rightarrow> hreq \<Rightarrow> hresult \<times> bool" where
  "Send build send took r = (case build r of
       Some e \<Rightarrow> (hresult_zero\<lparr>rs_Err := Some e\<rparr>, False)
     | None \<Rightarrow> (case send r of
         Inl e \<Rightarrow> (hresult_zero\<lparr>rs_Duration := took, rs_Err := Some e\<rparr>, True)
       | Inr resp \<Rightarrow>
           (let (body, err) = (if hq_KeepBody r then readBody resp else (None, hp_ReadErr resp))
            in (\<lparr>rs_Status = hp_StatusCode resp, rs_Duration = took, rs_Err = err, rs_Header = Some (hp_Header resp),
                 rs_Proto = hp_Proto resp, rs_Body = body\<rparr>, True))))"

definition Do :: "(hreq \<Rightarrow> string option) \<Rightarrow> (hreq \<Rightarrow> string + hresponse) \<Rightarrow> duration \<Rightarrow> bool \<Rightarrow> hreq \<Rightarrow> hresult \<times> event list" where
  "Do build send took ctxDone r = (case Send build send took r of
       (res, sent) \<Rightarrow>
         if \<not> sent then (res, [EvUnsent])
         else (res, if \<not> ctxDone
                    then EvRequest (rs_Duration res) (result_OK res) #
                         (if rs_Proto res \<noteq> [] then [EvProtocol (rs_Proto res), EvStatus (rs_Status res)] else [])
                    else []))"

section \<open>Cookies: jar.go\<close>

text \<open>\<open>'j\<close> is \<open>cookiejar.Jar\<close>.\<close>

definition Jar_SetCookies :: "'j \<Rightarrow> ('j \<Rightarrow> string \<Rightarrow> 'c list \<Rightarrow> 'j) \<Rightarrow> string \<Rightarrow> 'c list \<Rightarrow> 'j option \<Rightarrow> 'j option" where
  "Jar_SetCookies fresh set_cookies u cs j =
     (if cs = [] then j
      else Some (set_cookies (case j of None \<Rightarrow> fresh | Some x \<Rightarrow> x) u cs))"

definition Jar_Cookies :: "('j \<Rightarrow> string \<Rightarrow> 'c list) \<Rightarrow> string \<Rightarrow> 'j option \<Rightarrow> 'c list" where
  "Jar_Cookies cookies u j = (case j of None \<Rightarrow> [] | Some x \<Rightarrow> cookies x u)"

definition Jar_Reset :: "'j option \<Rightarrow> 'j option" where
  "Jar_Reset j = None"

text \<open>The lazily allocated jar is the jar: it differs from an eager one in no answer.\<close>

lemma jar_lazy:
  assumes "\<And>u. cookies fresh u = []" "\<And>x u. set_cookies x u [] = x"
  shows "Jar_Cookies cookies v (Jar_SetCookies fresh set_cookies u cs j) =
    cookies (set_cookies (case j of None \<Rightarrow> fresh | Some x \<Rightarrow> x) u cs) v"
  using assms by (auto simp: Jar_Cookies_def Jar_SetCookies_def split: option.split)

section \<open>What a run's requests count\<close>

text \<open>A call of a VU: the request, what the network did with it, and whether the VU's context had ended
  when it was over.\<close>

record hcall =
  ca_VU :: nat
  ca_Req :: hreq
  ca_Build :: "string option"
  ca_Send :: "string + hresponse"
  ca_Took :: duration
  ca_CtxDone :: bool

definition call_events :: "hcall \<Rightarrow> (nat \<times> event) list" where
  "call_events c = map (Pair (ca_VU c)) (snd (Do (\<lambda>_. ca_Build c) (\<lambda>_. ca_Send c) (ca_Took c) (ca_CtxDone c) (ca_Req c)))"

definition call_result :: "hcall \<Rightarrow> hresult" where
  "call_result c = fst (Do (\<lambda>_. ca_Build c) (\<lambda>_. ca_Send c) (ca_Took c) (ca_CtxDone c) (ca_Req c))"

text \<open>A call counts unless the test ended while it was on its way.\<close>

definition counted :: "hcall \<Rightarrow> bool" where
  "counted c \<longleftrightarrow> (if ca_Build c = None then \<not> ca_CtxDone c else True)"

definition answered :: "int \<Rightarrow> hcall \<Rightarrow> bool" where
  "answered code c \<longleftrightarrow> ca_Build c = None \<and> \<not> ca_CtxDone c \<and> rs_Proto (call_result c) \<noteq> [] \<and>
     status_slot (rs_Status (call_result c)) = code"

declare latencies_append [simp]

lemma count_ev_append: "count_ev P (xs @ ys) = count_ev P xs + count_ev P ys"
  by (simp add: count_ev_def)

lemma call_events_simps:
  "ca_Build c = Some e \<Longrightarrow> call_events c = [(ca_VU c, EvUnsent)] \<and> \<not> result_OK (call_result c)"
  "ca_Build c = None \<Longrightarrow> ca_CtxDone c \<Longrightarrow> call_events c = []"
  "ca_Build c = None \<Longrightarrow> \<not> ca_CtxDone c \<Longrightarrow>
   call_events c = (ca_VU c, EvRequest (ca_Took c) (result_OK (call_result c))) #
     (if rs_Proto (call_result c) \<noteq> []
      then [(ca_VU c, EvProtocol (rs_Proto (call_result c))), (ca_VU c, EvStatus (rs_Status (call_result c)))] else [])"
  by (auto simp: call_events_def call_result_def Do_def Send_def result_OK_def hresult_zero_def
      split: option.split sum.split prod.split)

lemma call_latencies:
  "latencies b (call_events c) = (if ca_Build c = None \<and> \<not> ca_CtxDone c \<and> result_OK (call_result c) = b then [ca_Took c] else [])"
  by (cases "ca_Build c"; cases "ca_CtxDone c"; cases "rs_Proto (call_result c) = []") (simp_all add: call_events_simps latencies_def)

lemma call_counts:
  "count_ev (\<lambda>e. e = EvUnsent) (call_events c) = (if ca_Build c = None then 0 else 1)"
  "count_ev (is_status k) (call_events c) = (if answered k c then 1 else 0)"
  by (cases "ca_Build c"; cases "ca_CtxDone c"; simp add: call_events_simps count_ev_def answered_def)+

lemma calls_latencies:
  "length (latencies b (concat (map call_events cs))) =
   length (filter (\<lambda>c. ca_Build c = None \<and> \<not> ca_CtxDone c \<and> result_OK (call_result c) = b) cs)"
  by (induction cs) (simp_all add: call_latencies)

lemma calls_counts:
  "count_ev (\<lambda>e. e = EvUnsent) (concat (map call_events cs)) = int (length (filter (\<lambda>c. ca_Build c \<noteq> None) cs))"
  "count_ev (is_status k) (concat (map call_events cs)) = int (length (filter (answered k) cs))"
  by (induction cs) (simp_all add: count_ev_append call_counts)

lemma calls_length: "length (concat (map call_events cs)) \<le> 3 * length cs"
proof (induction cs)
  case (Cons c cs)
  have "length (call_events c) \<le> 3"
    by (cases "ca_Build c"; cases "ca_CtxDone c") (simp_all add: call_events_simps)
  then show ?case using Cons by simp
qed simp

lemma calls_valid:
  assumes "list_all (\<lambda>c. ca_VU c < n \<and> in64 (ca_Took c)) cs" "3 * length cs < 2 ^ 63"
  shows "valid_trace n (concat (map call_events cs))"
proof -
  have c: "i < n \<and> (\<forall>d ok. e = EvRequest d ok \<longrightarrow> in64 d)"
    if "ca_VU c < n" "in64 (ca_Took c)" "(i, e) \<in> set (call_events c)" for c i e
    using that by (cases "ca_Build c"; cases "ca_CtxDone c"; cases "rs_Proto (call_result c) = []") (auto simp: call_events_simps)
  have "length (concat (map call_events cs)) < 2 ^ 63" using assms(2) calls_length [of cs] by linarith
  moreover have "i < n \<and> (\<forall>d ok. e = EvRequest d ok \<longrightarrow> in64 d)" if ev: "(i, e) \<in> set (concat (map call_events cs))" for i e
  proof -
    obtain x where x: "x \<in> set cs" "(i, e) \<in> set (call_events x)" using ev by auto
    then have "ca_VU x < n" "in64 (ca_Took x)" using assms(1) by (simp_all add: list_all_iff)
    then show ?thesis using c x(2) by blast
  qed
  ultimately show ?thesis by (auto simp: valid_trace_def)
qed

lemma counted_parts:
  "length (filter counted cs) = length (filter (\<lambda>c. ca_Build c \<noteq> None) cs) +
     length (filter (\<lambda>c. ca_Build c = None \<and> \<not> ca_CtxDone c \<and> result_OK (call_result c) = True) cs) +
     length (filter (\<lambda>c. ca_Build c = None \<and> \<not> ca_CtxDone c \<and> result_OK (call_result c) = False) cs)"
  "length (filter (\<lambda>c. counted c \<and> \<not> result_OK (call_result c)) cs) = length (filter (\<lambda>c. ca_Build c \<noteq> None) cs) +
     length (filter (\<lambda>c. ca_Build c = None \<and> \<not> ca_CtxDone c \<and> result_OK (call_result c) = False) cs)"
  "length (filter (\<lambda>c. counted c \<and> ca_Build c = None) cs) =
     length (filter (\<lambda>c. ca_Build c = None \<and> \<not> ca_CtxDone c \<and> result_OK (call_result c) = True) cs) +
     length (filter (\<lambda>c. ca_Build c = None \<and> \<not> ca_CtxDone c \<and> result_OK (call_result c) = False) cs)"
  using call_events_simps(1) by (induction cs) (auto simp: counted_def)

lemma answered_some: "int (length (filter (answered k) cs)) \<noteq> 0 \<longleftrightarrow> list_ex (answered k) cs"
  by (induction cs) auto


text \<open>Two VUs: a request that cannot be built, one answered with 200, one with 503, one that the end of the
  test cut off.\<close>

definition call_example :: "nat \<Rightarrow> string option \<Rightarrow> int \<Rightarrow> bool \<Rightarrow> hcall" where
  "call_example vu build code ended = \<lparr>ca_VU = vu,
     ca_Req = \<lparr>hq_Method = ''GET'', hq_URL = ''/'', hq_Body = [], hq_Header = None, hq_KeepBody = False\<rparr>,
     ca_Build = build,
     ca_Send = Inr \<lparr>hp_StatusCode = code, hp_Header = [], hp_Proto = ''HTTP/1.1'', hp_ContentLength = 0, hp_Data = [], hp_ReadErr = None\<rparr>,
     ca_Took = 5, ca_CtxDone = ended\<rparr>"


end
