(* ===== verification/Script_Http.thy ===== *)
theory Script_Http
  imports Http_Client Script "HOL-Library.AList"
begin

text \<open>
  What a script's iteration does through the built-in modules: the requests of \<open>internal/script/http.go\<close>,
  the response objects of \<open>response.go\<close>, \<open>check\<close> (\<open>check.go\<close>), \<open>sleep\<close> (\<open>core.go\<close>) and the console
  (\<open>console.go\<close>). A JavaScript value is what Go asks of it: whether it is a string, its text, and its own
  enumerable properties in order. JavaScript functions, JSON and the cookie parser are arguments.
\<close>

section \<open>JavaScript values\<close>

datatype js_view = JsView (vw_IsString: bool) (vw_Text: string) (vw_Props: "(string \<times> js_view jsval) list")

type_synonym jsv = "js_view jsval"

definition js_text :: "jsv \<Rightarrow> string" where
  "js_text v = (case v of JsUndefined \<Rightarrow> ''undefined'' | JsNull \<Rightarrow> ''null'' | JsValue x \<Rightarrow> vw_Text x
     | JsPromise _ \<Rightarrow> ''[object Promise]'')"

definition js_props :: "jsv \<Rightarrow> (string \<times> jsv) list" where
  "js_props v = (case v of JsValue x \<Rightarrow> vw_Props x | _ \<Rightarrow> [])"

definition js_isString :: "jsv \<Rightarrow> bool" where
  "js_isString v = (case v of JsValue x \<Rightarrow> vw_IsString x | _ \<Rightarrow> False)"

definition js_string :: "string \<Rightarrow> jsv" where
  "js_string s = JsValue (JsView True s [])"

text \<open>What Go code throws; a message that quotes with \<open>%q\<close> is a constructor of its own.\<close>

datatype js_throw =
    TypeError string
  | GoError string
  | BadResponseType string
  | ConditionNotFunction string

section \<open>Requests: http.go\<close>

definition discardedHint :: string where
  "discardedHint = ''response bodies are discarded by default; set options.discardResponseBodies: false, or pass '' @
     ''{ responseType: '' @ quoted ''text'' @ '' } in this request''@ [CHR 0x27] @ ''s params''"

definition body_hint :: string where
  "body_hint = ''res.body is null: '' @ discardedHint"

definition errInitRequest :: string where
  "errInitRequest = ''http requests are not allowed in the script''@ [CHR 0x27] @ ''s top-level code; make them inside the default function''"

fun headers_loop :: "(string \<times> jsv) list \<Rightarrow> url_values \<Rightarrow> url_values" where
  "headers_loop [] h = h"
| "headers_loop ((k, v) # kvs) h = headers_loop kvs (header_Set h k (js_text v))"

definition headersFrom :: "jsv \<Rightarrow> url_values option" where
  "headersFrom v = (if \<not> isSet v then None else Some (headers_loop (js_props v) []))"

definition responseType :: "jsv \<Rightarrow> js_throw + bool option" where
  "responseType v =
     (if \<not> isSet v then Inr None
      else if js_text v = ''text'' then Inr (Some True)
      else if js_text v = ''none'' then Inr (Some False)
      else Inl (BadResponseType (js_text v)))"

definition unsupported_key :: "string \<Rightarrow> string" where
  "unsupported_key k = ''http params key '' @ quoted k @ '' is not supported yet and was ignored''"

record params_read =
  pr_h :: "url_values option"
  pr_cookies :: jsv
  pr_keep :: "bool option"
  pr_warned :: "string list"

definition no_params :: params_read where
  "no_params = \<lparr>pr_h = None, pr_cookies = JsUndefined, pr_keep = None, pr_warned = []\<rparr>"

fun params_loop :: "(string \<times> jsv) list \<Rightarrow> params_read \<Rightarrow> js_throw + params_read" where
  "params_loop [] r = Inr r"
| "params_loop ((k, v) # kvs) r =
     (if k = ''headers'' then params_loop kvs (r\<lparr>pr_h := headersFrom v\<rparr>)
      else if k = ''cookies'' then params_loop kvs (r\<lparr>pr_cookies := v\<rparr>)
      else if k = ''responseType'' then
        (case responseType v of Inl e \<Rightarrow> Inl e | Inr keep \<Rightarrow> params_loop kvs (r\<lparr>pr_keep := keep\<rparr>))
      else params_loop kvs (r\<lparr>pr_warned := pr_warned r @ [unsupported_key k]\<rparr>))"

text \<open>\<open>http.Request.AddCookie\<close> of the standard library.\<close>

definition sanitizeCookieName :: "string \<Rightarrow> string" where
  "sanitizeCookieName n = map (\<lambda>c. if c = CHR 0x0A \<or> c = CHR 0x0D then CHR ''-'' else c) n"

definition validCookieValueByte :: "char \<Rightarrow> bool" where
  "validCookieValueByte b \<longleftrightarrow> 32 \<le> byte b \<and> byte b < 127 \<and> b \<noteq> CHR 0x22 \<and> b \<noteq> CHR '';'' \<and> b \<noteq> CHR 0x5C"

definition sanitizeCookieValue :: "string \<Rightarrow> string" where
  "sanitizeCookieValue v = (let v = filter validCookieValueByte v in
     if v = [] then v else if CHR '' '' \<in> set v \<or> CHR '','' \<in> set v then quoted v else v)"

definition cookie_pair :: "string \<Rightarrow> string \<Rightarrow> string" where
  "cookie_pair name v = sanitizeCookieName name @ ''='' @ sanitizeCookieValue v"

definition AddCookie :: "url_values \<Rightarrow> string \<Rightarrow> string \<Rightarrow> url_values" where
  "AddCookie h name v = (let s = cookie_pair name v; c = header_Get h ''Cookie'' in
     header_Set h ''Cookie'' (if c \<noteq> [] then c @ ''; '' @ s else s))"

fun cookies_loop :: "(string \<times> jsv) list \<Rightarrow> url_values \<Rightarrow> url_values" where
  "cookies_loop [] h = h"
| "cookies_loop ((name, v) # kvs) h = cookies_loop kvs (AddCookie h name (js_text v))"

definition readParams :: "jsv \<Rightarrow> js_throw + (url_values option \<times> bool option \<times> string list)" where
  "readParams params = (case params_loop (js_props params) no_params of
       Inl e \<Rightarrow> Inl e
     | Inr r \<Rightarrow>
         (let h = (if isSet (pr_cookies r)
                   then Some (cookies_loop (js_props (pr_cookies r)) (case pr_h r of None \<Rightarrow> [] | Some h \<Rightarrow> h))
                   else pr_h r)
          in Inr (h, pr_keep r, pr_warned r)))"

text \<open>The request a script's call makes, with the warnings it gives, or what it throws.
  \<open>recording\<close> is whether the VU has a recorder.\<close>

definition vu_request :: "bool \<Rightarrow> bool \<Rightarrow> string \<Rightarrow> jsv \<Rightarrow> jsv \<Rightarrow> jsv \<Rightarrow> js_throw + (hreq \<times> string list)" where
  "vu_request recording discardBodies method url body params =
     (if \<not> recording then Inl (GoError errInitRequest)
      else if \<not> isSet url then Inl (TypeError ''http: url is required'')
      else
        let req = \<lparr>hq_Method = method, hq_URL = js_text url, hq_Body = [], hq_Header = None, hq_KeepBody = \<not> discardBodies\<rparr>
        in if isSet body \<and> \<not> js_isString body
           then Inl (TypeError ''http: the request body must be a string; use JSON.stringify(...) to send JSON'')
           else
             let req = (if isSet body then req\<lparr>hq_Body := js_text body\<rparr> else req)
             in if isSet params
                then (case readParams params of
                    Inl e \<Rightarrow> Inl e
                  | Inr (h, keep, warned) \<Rightarrow>
                      Inr (req\<lparr>hq_Header := h, hq_KeepBody := (case keep of Some b \<Rightarrow> b | None \<Rightarrow> hq_KeepBody req)\<rparr>, warned))
                else Inr (req, []))"

definition js_argument :: "jsv list \<Rightarrow> nat \<Rightarrow> jsv" where
  "js_argument args i = (if i < length args then args ! i else JsUndefined)"

definition httpMethod :: "bool \<Rightarrow> bool \<Rightarrow> string \<Rightarrow> bool \<Rightarrow> jsv list \<Rightarrow> js_throw + (hreq \<times> string list)" where
  "httpMethod recording discardBodies method hasBody args =
     (if hasBody
      then vu_request recording discardBodies method (js_argument args 0) (js_argument args 1) (js_argument args 2)
      else vu_request recording discardBodies method (js_argument args 0) JsUndefined (js_argument args 1))"

definition http_call :: "bool \<Rightarrow> bool \<Rightarrow> string \<Rightarrow> jsv list \<Rightarrow> (js_throw + (hreq \<times> string list)) option" where
  "http_call recording discardBodies f args =
     (if f = ''get'' then Some (httpMethod recording discardBodies ''GET'' False args)
      else if f = ''post'' then Some (httpMethod recording discardBodies ''POST'' True args)
      else if f = ''put'' then Some (httpMethod recording discardBodies ''PUT'' True args)
      else if f = ''patch'' then Some (httpMethod recording discardBodies ''PATCH'' True args)
      else if f = ''del'' then Some (httpMethod recording discardBodies ''DELETE'' True args)
      else if f = ''request'' then Some (let method = js_argument args 0 in
        if \<not> isSet method then Inl (TypeError ''http.request: method is required'')
        else vu_request recording discardBodies (ToUpper (js_text method)) (js_argument args 1) (js_argument args 2) (js_argument args 3))
      else None)"

section \<open>Checks: check.go\<close>

text \<open>A condition of a check: not a function, or what calling it does.\<close>

datatype js_cond =
    NotFunction
  | Returns bool
  | Throws js_error
  | Interrupted string

datatype check_end = CheckReturns bool | CheckThrows js_throw | CheckInterrupted string

definition errInitCheck :: string where
  "errInitCheck = ''check is not allowed in the script''@ [CHR 0x27] @ ''s top-level code; call it inside the default function''"

fun check_loop :: "(string \<times> js_cond) list \<Rightarrow> bool \<Rightarrow> event list \<times> check_end" where
  "check_loop [] all = ([], CheckReturns all)"
| "check_loop ((name, c) # cs) all = (case c of
       NotFunction \<Rightarrow> ([], CheckThrows (ConditionNotFunction name))
     | Interrupted e \<Rightarrow> ([], CheckInterrupted e)
     | Throws e \<Rightarrow> (case check_loop cs False of (es, r) \<Rightarrow> (EvCheck name False (scriptErrorMessage e) # es, r))
     | Returns passed \<Rightarrow> (case check_loop cs (all \<and> passed) of (es, r) \<Rightarrow> (EvCheck name passed [] # es, r)))"

text \<open>\<open>conds\<close> are the conditions of the second argument; none when it is undefined or null.\<close>

definition vu_check :: "bool \<Rightarrow> (string \<times> js_cond) list option \<Rightarrow> event list \<times> check_end" where
  "vu_check recording conds =
     (if \<not> recording then ([], CheckThrows (GoError errInitCheck))
      else case conds of
        None \<Rightarrow> ([], CheckThrows (TypeError ''check: the second argument must be an object of { name: condition }''))
      | Some cs \<Rightarrow> check_loop cs True)"

section \<open>Sleep: core.go\<close>

definition errInitSleep :: string where
  "errInitSleep = ''sleep is not allowed in the script''@ [CHR 0x27] @ ''s top-level code; call it inside the default function''"

text \<open>The truncation of a float to \<open>int64\<close>; out of range its result depends on the machine (\<open>wild\<close>).\<close>

definition int64_of_f64 :: "(f64 \<Rightarrow> int) \<Rightarrow> f64 \<Rightarrow> int" where
  "int64_of_f64 wild x = (case x of
       Fin q \<Rightarrow> (let n = (if 0 \<le> q then floor q else ceiling q) in if in64 n then n else wild x)
     | _ \<Rightarrow> wild x)"

text \<open>How long \<open>sleep\<close> waits, unless the context ends first; \<open>num\<close> is the argument as a number.\<close>

definition vu_sleep :: "(f64 \<Rightarrow> int) \<Rightarrow> bool \<Rightarrow> jsv \<Rightarrow> f64 \<Rightarrow> js_throw + duration" where
  "vu_sleep wild context arg secs =
     (if \<not> context then Inl (GoError errInitSleep)
      else if \<not> isSet arg \<or> secs = NaN \<or> secs = PosInf \<or> secs = NegInf \<or> f64_lt secs (Fin 0)
      then Inl (TypeError (''sleep: seconds must be a non-negative number, got '' @ js_text arg))
      else Inr (int64_of_f64 wild (f64_mul secs (f64_of_int second))))"

section \<open>The console: console.go\<close>

text \<open>An argument of the console: a value, or an object that is not a function with its JSON, if it has one.\<close>

datatype console_arg = ConsoleValue jsv | ConsoleObject jsv "string option"

definition formatConsoleArg :: "console_arg \<Rightarrow> string" where
  "formatConsoleArg a = (case a of
       ConsoleObject v (Some json) \<Rightarrow> json
     | ConsoleObject v None \<Rightarrow> js_text v
     | ConsoleValue v \<Rightarrow> js_text v)"

definition consoleWrite :: "bool \<Rightarrow> int \<Rightarrow> string \<Rightarrow> console_arg list \<Rightarrow> string" where
  "consoleWrite console vu level args =
     (if \<not> console then []
      else level @ '' [VU '' @ itoa vu @ '']'' @ concat (map (\<lambda>a. '' '' @ formatConsoleArg a) args) @ [CHR 0x0A])"

definition consoleMethod :: "string \<Rightarrow> string option" where
  "consoleMethod f = map_of [(''log'', ''INFO ''), (''info'', ''INFO ''), (''warn'', ''WARN ''), (''error'', ''ERROR''), (''debug'', ''DEBUG'')] f"

section \<open>The response object: response.go\<close>

record set_cookie =
  ck_Name :: string
  ck_Value :: string
  ck_Domain :: string
  ck_Path :: string
  ck_Expires :: "int option"
  ck_MaxAge :: int
  ck_HttpOnly :: bool
  ck_Secure :: bool

record cookie_entry =
  ce_name :: string
  ce_value :: string
  ce_domain :: string
  ce_path :: string
  ce_expires :: int
  ce_max_age :: int
  ce_http_only :: bool
  ce_secure :: bool

text \<open>The value of a property: one built by Go, or one the script set.\<close>

datatype 'v rvalue =
    RNumber int
  | RString string
  | RNull
  | RHeaders "(string \<times> string) list"
  | RTimings f64
  | RCookies "(string \<times> cookie_entry list) list"
  | RJson
  | RScript 'v

text \<open>\<open>http.Response.Cookies\<close>, and the names that every JavaScript object inherits a value for.\<close>

record resp_lib =
  rl_Cookies :: "url_values \<Rightarrow> set_cookie list"
  rl_inherited :: "string \<Rightarrow> bool"

record 'v response =
  rp_res :: hresult
  rp_url :: string
  rp_discarded :: bool
  rp_headers :: "'v rvalue option"
  rp_body :: "'v rvalue option"
  rp_timings :: "'v rvalue option"
  rp_json :: "'v rvalue option"
  rp_cookies :: "'v rvalue option"
  rp_extra :: "(string \<times> 'v) list"

definition responseKeys :: "string list" where
  "responseKeys = [''status'', ''proto'', ''error'', ''headers'', ''body'', ''timings'', ''url'', ''cookies'']"

definition new_response :: "hresult \<Rightarrow> hreq \<Rightarrow> 'v response" where
  "new_response res req = \<lparr>rp_res = res, rp_url = hq_URL req, rp_discarded = (\<not> hq_KeepBody req), rp_headers = None,
     rp_body = None, rp_timings = None, rp_json = None, rp_cookies = None, rp_extra = []\<rparr>"

definition headersObject :: "hresult \<Rightarrow> (string \<times> string) list" where
  "headersObject res = (case rs_Header res of None \<Rightarrow> []
     | Some h \<Rightarrow> map (\<lambda>name. (name, str_join (values_get h name) '', '')) (sort (remdups (map fst h))))"

definition cookie_entry_of :: "set_cookie \<Rightarrow> cookie_entry" where
  "cookie_entry_of c = \<lparr>ce_name = ck_Name c, ce_value = ck_Value c, ce_domain = ck_Domain c, ce_path = ck_Path c,
     ce_expires = (case ck_Expires c of None \<Rightarrow> 0 | Some ms \<Rightarrow> ms), ce_max_age = ck_MaxAge c,
     ce_http_only = ck_HttpOnly c, ce_secure = ck_Secure c\<rparr>"

text \<open>\<open>o.Get\<close> also finds what \<open>o\<close> inherits, which has no \<open>push\<close>: calling it is a nil function call (\<open>None\<close>).\<close>

fun cookies_group :: "(string \<Rightarrow> bool) \<Rightarrow> set_cookie list \<Rightarrow> (string \<times> cookie_entry list) list \<Rightarrow> (string \<times> cookie_entry list) list option" where
  "cookies_group inherited [] g = Some g"
| "cookies_group inherited (c # cs) g = (case map_of g (ck_Name c) of
       Some l \<Rightarrow> cookies_group inherited cs (AList.update (ck_Name c) (l @ [cookie_entry_of c]) g)
     | None \<Rightarrow> if inherited (ck_Name c) then None
               else cookies_group inherited cs (AList.update (ck_Name c) [cookie_entry_of c] g))"

definition cookiesObject :: "resp_lib \<Rightarrow> hresult \<Rightarrow> (string \<times> cookie_entry list) list option" where
  "cookiesObject lib res = (case rs_Header res of None \<Rightarrow> Some []
     | Some h \<Rightarrow> cookies_group (rl_inherited lib) (rl_Cookies lib h) [])"

text \<open>A read: the value (\<open>None\<close>: no such property), the response after it, and the messages for \<open>warn.once\<close>.\<close>

definition resp_Get :: "resp_lib \<Rightarrow> 'v response \<Rightarrow> string \<Rightarrow> ('v rvalue option \<times> 'v response \<times> string list) option" where
  "resp_Get lib r key = (case map_of (rp_extra r) key of
       Some v \<Rightarrow> Some (Some (RScript v), r, [])
     | None \<Rightarrow>
         if key = ''status'' then Some (Some (RNumber (rs_Status (rp_res r))), r, [])
         else if key = ''error'' then Some (Some (RString (case rs_Err (rp_res r) of None \<Rightarrow> [] | Some e \<Rightarrow> e)), r, [])
         else if key = ''url'' then Some (Some (RString (rp_url r)), r, [])
         else if key = ''proto'' then Some (Some (RString (rs_Proto (rp_res r))), r, [])
         else if key = ''headers'' then (case rp_headers r of
             Some v \<Rightarrow> Some (Some v, r, [])
           | None \<Rightarrow> let v = RHeaders (headersObject (rp_res r)) in Some (Some v, r\<lparr>rp_headers := Some v\<rparr>, []))
         else if key = ''body'' then (case rp_body r of
             Some v \<Rightarrow> Some (Some v, r, [])
           | None \<Rightarrow> (case rs_Body (rp_res r) of
                 Some b \<Rightarrow> Some (Some (RString b), r\<lparr>rp_body := Some (RString b)\<rparr>, [])
               | None \<Rightarrow> Some (Some RNull, r\<lparr>rp_body := Some RNull\<rparr>,
                   if rp_discarded r then [body_hint] else [])))
         else if key = ''timings'' then (case rp_timings r of
             Some v \<Rightarrow> Some (Some v, r, [])
           | None \<Rightarrow> let v = RTimings (f64_div (f64_of_int (rs_Duration (rp_res r))) (f64_of_int 1000000))
                     in Some (Some v, r\<lparr>rp_timings := Some v\<rparr>, []))
         else if key = ''cookies'' then (case rp_cookies r of
             Some v \<Rightarrow> Some (Some v, r, [])
           | None \<Rightarrow> (case cookiesObject lib (rp_res r) of None \<Rightarrow> None
               | Some g \<Rightarrow> Some (Some (RCookies g), r\<lparr>rp_cookies := Some (RCookies g)\<rparr>, [])))
         else if key = ''json'' then (case rp_json r of
             Some v \<Rightarrow> Some (Some v, r, [])
           | None \<Rightarrow> Some (Some RJson, r\<lparr>rp_json := Some RJson\<rparr>, []))
         else Some (None, r, []))"

text \<open>\<open>text_of\<close> is a value's \<open>String()\<close>; \<open>parse\<close> is the script's \<open>JSON.parse\<close> if it still is a function.\<close>

definition parseJSON :: "resp_lib \<Rightarrow> ('v rvalue \<Rightarrow> string) \<Rightarrow> ('v rvalue \<Rightarrow> 't + 'w) option \<Rightarrow> 'v response \<Rightarrow>
    ((js_throw + 't) + 'w) option \<times> 'v response" where
  "parseJSON lib text_of parse r =
     (if rs_Body (rp_res r) = None
      then (if rp_discarded r then (Some (Inl (Inl (TypeError (''res.json(): the body was discarded: '' @ discardedHint)))), r)
            else (case resp_Get lib r ''error'' of
                Some (Some v, r', _) \<Rightarrow> (Some (Inl (Inl (TypeError (''res.json(): no response was received ('' @ text_of v @ '')'')))), r')
              | _ \<Rightarrow> (None, r)))
      else (case parse of
          None \<Rightarrow> (Some (Inl (Inl (TypeError ''res.json(): JSON.parse is not available''))), r)
        | Some p \<Rightarrow> (case resp_Get lib r ''body'' of
              Some (Some v, r', _) \<Rightarrow> (case p v of Inl t \<Rightarrow> (Some (Inl (Inr t)), r') | Inr w \<Rightarrow> (Some (Inr w), r'))
            | _ \<Rightarrow> (None, r))))"

definition resp_Set :: "'v response \<Rightarrow> string \<Rightarrow> 'v \<Rightarrow> 'v response" where
  "resp_Set r key val = r\<lparr>rp_extra := AList.update key val (rp_extra r)\<rparr>"

definition resp_Has :: "'v response \<Rightarrow> string \<Rightarrow> bool" where
  "resp_Has r key \<longleftrightarrow> (if map_of (rp_extra r) key \<noteq> None then True else key = ''json'' \<or> key \<in> set responseKeys)"

definition resp_Delete :: "'v response \<Rightarrow> string \<Rightarrow> 'v response" where
  "resp_Delete r key = r\<lparr>rp_extra := AList.delete key (rp_extra r)\<rparr>"

definition resp_Keys :: "'v response \<Rightarrow> string list" where
  "resp_Keys r = responseKeys @ filter (\<lambda>k. k \<notin> set responseKeys) (map fst (rp_extra r))"

section \<open>The request a script asks for\<close>

definition js_get :: "jsv \<Rightarrow> string \<Rightarrow> jsv" where
  "js_get obj k = (case map_of (js_props obj) k of Some v \<Rightarrow> v | None \<Rightarrow> JsUndefined)"

text \<open>The values given for a header, whatever the case of its name, in order.\<close>

definition header_values :: "jsv \<Rightarrow> string \<Rightarrow> string list" where
  "header_values headers k =
     (if isSet headers then map (js_text \<circ> snd) (filter (\<lambda>kv. CanonicalHeaderKey (fst kv) = k) (js_props headers)) else [])"

definition last_value :: "string list \<Rightarrow> string list" where
  "last_value vs = (if vs = [] then [] else [last vs])"

definition cookie_pairs :: "jsv \<Rightarrow> string list" where
  "cookie_pairs cookies = (if isSet cookies then map (\<lambda>(n, v). cookie_pair n (js_text v)) (js_props cookies) else [])"

lemma isSet_undef [simp]: "\<not> isSet JsUndefined" "\<not> isSet JsNull"
  by (simp_all add: isSet_def)

lemma headers_loop_get:
  "values_get (headers_loop kvs h) k =
     (case filter (\<lambda>kv. CanonicalHeaderKey (fst kv) = k) kvs of [] \<Rightarrow> values_get h k | xs \<Rightarrow> [js_text (snd (last xs))])"
  by (induction kvs h rule: headers_loop.induct) (auto simp: header_Set_def values_get_set split: list.split)

lemma headersFrom_get:
  "values_get (case headersFrom v of None \<Rightarrow> [] | Some h \<Rightarrow> h) k = last_value (header_values v k)"
  by (auto simp: headersFrom_def headers_loop_get header_values_def last_value_def last_map split: list.split)

lemma cookie_pair_Cons: "cookie_pair n v \<noteq> []"
  by (simp add: cookie_pair_def)

lemma str_join_Cons2: "xs \<noteq> [] \<Longrightarrow> str_join (x # xs) sep = x @ sep @ str_join xs sep"
  by (cases xs) simp_all

lemma str_join_merge: "str_join (x # y # ys) sep = str_join ((x @ sep @ y) # ys) sep"
  by (cases ys) simp_all

lemma AddCookie_get:
  "values_get (AddCookie h n v) k = (if k = ''Cookie''
     then [if header_Get h ''Cookie'' = [] then cookie_pair n v else header_Get h ''Cookie'' @ ''; '' @ cookie_pair n v]
     else values_get h k)"
  by (simp add: AddCookie_def header_Set_def values_get_set Let_def)

lemma AddCookie_Cookie:
  "header_Get (AddCookie h n v) ''Cookie'' =
     (if header_Get h ''Cookie'' = [] then cookie_pair n v else header_Get h ''Cookie'' @ ''; '' @ cookie_pair n v)"
  unfolding header_Get_def [of "AddCookie h n v"] by (simp add: AddCookie_get)

lemma cookies_loop_Cookie:
  "header_Get (cookies_loop kvs h) ''Cookie'' =
     str_join ((if header_Get h ''Cookie'' = [] then [] else [header_Get h ''Cookie'']) @ map (\<lambda>(n, v). cookie_pair n (js_text v)) kvs) ''; ''"
proof (induction kvs h rule: cookies_loop.induct)
  case (2 n v kvs h)
  show ?case
    unfolding cookies_loop.simps 2 AddCookie_Cookie
    using cookie_pair_Cons [of n "js_text v"] by (simp add: str_join_merge del: str_join.simps)
qed simp

lemma cookies_loop_other: "k \<noteq> ''Cookie'' \<Longrightarrow> values_get (cookies_loop kvs h) k = values_get h k"
  by (induction kvs h rule: cookies_loop.induct) (simp_all add: AddCookie_get)

lemma responseType_undefined: "responseType JsUndefined = Inr None"
  by (simp add: responseType_def)

definition params_result :: "(string \<times> jsv) list \<Rightarrow> params_read \<Rightarrow> bool option \<Rightarrow> params_read" where
  "params_result kvs r keep = \<lparr>pr_h = (case map_of kvs ''headers'' of Some v \<Rightarrow> headersFrom v | None \<Rightarrow> pr_h r),
     pr_cookies = (case map_of kvs ''cookies'' of Some v \<Rightarrow> v | None \<Rightarrow> pr_cookies r), pr_keep = keep,
     pr_warned = pr_warned r @ map unsupported_key (filter (\<lambda>k. k \<notin> {''headers'', ''cookies'', ''responseType''}) (map fst kvs))\<rparr>"

lemma params_result_Cons:
  assumes "map_of kvs k = None"
  shows "k = ''headers'' \<Longrightarrow> params_result kvs (r\<lparr>pr_h := headersFrom v\<rparr>) keep = params_result ((k, v) # kvs) r keep"
    and "k = ''cookies'' \<Longrightarrow> params_result kvs (r\<lparr>pr_cookies := v\<rparr>) keep = params_result ((k, v) # kvs) r keep"
    and "k = ''responseType'' \<Longrightarrow> params_result kvs (r\<lparr>pr_keep := b\<rparr>) keep = params_result ((k, v) # kvs) r keep"
    and "k \<notin> {''headers'', ''cookies'', ''responseType''} \<Longrightarrow>
      params_result kvs (r\<lparr>pr_warned := pr_warned r @ [unsupported_key k]\<rparr>) keep = params_result ((k, v) # kvs) r keep"
  using assms by (auto simp: params_result_def cong: option.case_cong)

lemma params_loop_exact:
  assumes "distinct (map fst kvs)"
  shows "params_loop kvs r =
    (case (case map_of kvs ''responseType'' of Some v \<Rightarrow> responseType v | None \<Rightarrow> Inr (pr_keep r)) of
       Inl e \<Rightarrow> Inl e | Inr keep \<Rightarrow> Inr (params_result kvs r keep))"
  using assms
proof (induction kvs r rule: params_loop.induct)
  case (1 r)
  then show ?case by (simp add: params_result_def)
next
  case (2 k v kvs r)
  have n: "map_of kvs k = None" "distinct (map fst kvs)" using "2.prems" by (auto simp: map_of_eq_None_iff)
  consider (h) "k = ''headers''" | (c) "k = ''cookies''" | (t) "k = ''responseType''"
    | (u) "k \<noteq> ''headers''" "k \<noteq> ''cookies''" "k \<noteq> ''responseType''" by blast
  then show ?case
  proof cases
    case h
    then show ?thesis using "2.IH"(1) [OF h n(2)] params_result_Cons(1) [OF n(1) h] by (simp cong: option.case_cong sum.case_cong)
  next
    case c
    then show ?thesis using "2.IH"(2) n(2) params_result_Cons(2) [OF n(1) c] by (simp cong: option.case_cong sum.case_cong)
  next
    case t
    then show ?thesis using "2.IH"(3) n params_result_Cons(3) [OF n(1) t] by (simp split: sum.split)
  next
    case u
    then show ?thesis using "2.IH"(4) [OF u n(2)] params_result_Cons(4) [OF n(1)] by (simp cong: option.case_cong sum.case_cong)
  qed
qed

text \<open>What the call asks for: its parameters by name, in whatever order the script wrote them.\<close>

definition asked_keep :: "bool \<Rightarrow> jsv \<Rightarrow> bool" where
  "asked_keep discardBodies params = (let t = js_get params ''responseType'' in
     if isSet t then js_text t = ''text'' else \<not> discardBodies)"

definition asked_cookies :: "jsv \<Rightarrow> string list" where
  "asked_cookies params = (let c = last_value (header_values (js_get params ''headers'') ''Cookie'') in
     (if c = [] then [] else if hd c = [] then [] else c) @ cookie_pairs (js_get params ''cookies''))"

lemma js_props_unset: "\<not> isSet v \<Longrightarrow> js_props v = []"
  by (cases v) (auto simp: isSet_def js_props_def)

lemma readParams_exact:
  assumes "distinct (map fst (js_props params))"
  shows "readParams params =
    (case responseType (js_get params ''responseType'') of Inl e \<Rightarrow> Inl e
     | Inr keep \<Rightarrow>
        (let h = headersFrom (js_get params ''headers''); c = js_get params ''cookies''
         in Inr (if isSet c then Some (cookies_loop (js_props c) (case h of None \<Rightarrow> [] | Some h \<Rightarrow> h)) else h, keep,
              map unsupported_key (filter (\<lambda>k. k \<notin> {''headers'', ''cookies'', ''responseType''}) (map fst (js_props params))))))"
proof -
  have "headersFrom JsUndefined = None" by (simp add: headersFrom_def)
  then show ?thesis
    unfolding readParams_def params_loop_exact [OF assms] js_get_def
    by (cases "map_of (js_props params) ''responseType''"; cases "map_of (js_props params) ''headers''"; cases "map_of (js_props params) ''cookies''")
      (simp_all add: params_result_def no_params_def responseType_undefined Let_def split: sum.split)
qed


definition params_example :: jsv where
  "params_example = JsValue (JsView False ''[object Object]''
     [(''cookies'', JsValue (JsView False [] [(''b'', js_string ''x y'')])), (''tags'', JsNull), (''responseType'', js_string ''text''),
      (''headers'', JsValue (JsView False [] [(''cookie'', js_string ''a=1''), (''x-id'', js_string ''7'')]))])"


text \<open>Names are not checked: a name with a semicolon in it makes two cookies.\<close>

lemma cookie_name_splits: "cookie_pair ''a=1; b'' ''2'' = str_join [cookie_pair ''a'' ''1'', cookie_pair ''b'' ''2''] ''; ''"
  by code_simp

section \<open>What a check records\<close>

fun cond_runs :: "js_cond \<Rightarrow> bool" where
  "cond_runs (Returns _) = True"
| "cond_runs (Throws _) = True"
| "cond_runs _ = False"

fun cond_event :: "string \<times> js_cond \<Rightarrow> event" where
  "cond_event (n, Returns b) = EvCheck n b []"
| "cond_event (n, Throws e) = EvCheck n False (scriptErrorMessage e)"
| "cond_event (n, _) = EvCheck n False []"

lemma check_loop_exact:
  "check_loop cs all =
    (map cond_event (takeWhile (cond_runs \<circ> snd) cs),
     case dropWhile (cond_runs \<circ> snd) cs of
       [] \<Rightarrow> CheckReturns (all \<and> list_all (\<lambda>(n, c). c = Returns True) cs)
     | (n, c) # _ \<Rightarrow> (case c of Interrupted e \<Rightarrow> CheckInterrupted e | _ \<Rightarrow> CheckThrows (ConditionNotFunction n)))"
proof (induction cs all rule: check_loop.induct)
  case (2 name c cs all)
  then show ?case by (cases c) (simp_all add: comp_def cong: list.case_cong)
qed simp

section \<open>The response is an object\<close>

text \<open>The properties of a response before the script changes any.\<close>

definition resp_builtin :: "resp_lib \<Rightarrow> hresult \<Rightarrow> string \<Rightarrow> string \<Rightarrow> 'v rvalue option" where
  "resp_builtin lib res url = map_of
     [(''status'', RNumber (rs_Status res)), (''error'', RString (case rs_Err res of None \<Rightarrow> [] | Some e \<Rightarrow> e)),
      (''url'', RString url), (''proto'', RString (rs_Proto res)), (''headers'', RHeaders (headersObject res)),
      (''body'', case rs_Body res of Some b \<Rightarrow> RString b | None \<Rightarrow> RNull),
      (''timings'', RTimings (f64_div (f64_of_int (rs_Duration res)) (f64_of_int 1000000))),
      (''cookies'', RCookies (case cookiesObject lib res of Some g \<Rightarrow> g | None \<Rightarrow> [])), (''json'', RJson)]"

datatype 'v resp_op = RespGet string | RespSet string 'v | RespDelete string

fun resp_run :: "resp_lib \<Rightarrow> 'v response \<Rightarrow> 'v resp_op list \<Rightarrow> ('v response \<times> 'v rvalue option list \<times> string list) option" where
  "resp_run lib r [] = Some (r, [], [])"
| "resp_run lib r (RespGet k # xs) = (case resp_Get lib r k of None \<Rightarrow> None
     | Some (v, r', w) \<Rightarrow> (case resp_run lib r' xs of None \<Rightarrow> None | Some (r2, vs, ms) \<Rightarrow> Some (r2, v # vs, w @ ms)))"
| "resp_run lib r (RespSet k v # xs) = resp_run lib (resp_Set r k v) xs"
| "resp_run lib r (RespDelete k # xs) = resp_run lib (resp_Delete r k) xs"

fun object_reads :: "(string \<Rightarrow> 'v rvalue option) \<Rightarrow> (string \<rightharpoonup> 'v) \<Rightarrow> 'v resp_op list \<Rightarrow> 'v rvalue option list" where
  "object_reads b m [] = []"
| "object_reads b m (RespGet k # xs) = (case m k of Some v \<Rightarrow> Some (RScript v) | None \<Rightarrow> b k) # object_reads b m xs"
| "object_reads b m (RespSet k v # xs) = object_reads b (m(k \<mapsto> v)) xs"
| "object_reads b m (RespDelete k # xs) = object_reads b (m(k := None)) xs"

fun object_after :: "(string \<rightharpoonup> 'v) \<Rightarrow> 'v resp_op list \<Rightarrow> (string \<rightharpoonup> 'v)" where
  "object_after m [] = m"
| "object_after m (RespGet k # xs) = object_after m xs"
| "object_after m (RespSet k v # xs) = object_after (m(k \<mapsto> v)) xs"
| "object_after m (RespDelete k # xs) = object_after (m(k := None)) xs"

definition cached :: "(string \<Rightarrow> 'v rvalue option) \<Rightarrow> 'v response \<Rightarrow> bool" where
  "cached b r \<longleftrightarrow> rp_headers r \<in> {None, b ''headers''} \<and> rp_body r \<in> {None, b ''body''} \<and> rp_timings r \<in> {None, b ''timings''} \<and>
     rp_cookies r \<in> {None, b ''cookies''} \<and> rp_json r \<in> {None, b ''json''}"

text \<open>A response stands for the properties the script set over the built-in ones.\<close>

definition resp_stands :: "resp_lib \<Rightarrow> hresult \<Rightarrow> hreq \<Rightarrow> 'v response \<Rightarrow> (string \<rightharpoonup> 'v) \<Rightarrow> bool" where
  "resp_stands lib res req r m \<longleftrightarrow> rp_res r = res \<and> rp_url r = hq_URL req \<and> rp_discarded r = (\<not> hq_KeepBody req) \<and>
     cached (resp_builtin lib res (hq_URL req)) r \<and> map_of (rp_extra r) = m \<and> distinct (map fst (rp_extra r))"

lemma resp_new_stands: "resp_stands lib res req (new_response res req) Map.empty"
  by (simp add: resp_stands_def new_response_def cached_def)

lemma resp_write_stands:
  assumes "resp_stands lib res req r m"
  shows "resp_stands lib res req (resp_Set r k v) (m(k \<mapsto> v))" "resp_stands lib res req (resp_Delete r k) (m(k := None))"
  using assms by (auto simp: resp_stands_def resp_Set_def resp_Delete_def cached_def update_conv' delete_conv'
      distinct_update distinct_delete)

text \<open>A read takes what the object has, and warns only when it first finds a discarded body.\<close>

definition body_warned :: "'v response \<Rightarrow> string list \<Rightarrow> bool" where
  "body_warned r ms \<longleftrightarrow> ms = [] \<or> (ms = [body_hint] \<and> rp_discarded r \<and> rp_body r = None)"

lemma resp_builtin_simps [simp]:
  "resp_builtin lib res url ''status'' = Some (RNumber (rs_Status res))"
  "resp_builtin lib res url ''error'' = Some (RString (case rs_Err res of None \<Rightarrow> [] | Some e \<Rightarrow> e))"
  "resp_builtin lib res url ''url'' = Some (RString url)"
  "resp_builtin lib res url ''proto'' = Some (RString (rs_Proto res))"
  "resp_builtin lib res url ''headers'' = Some (RHeaders (headersObject res))"
  "resp_builtin lib res url ''body'' = Some (case rs_Body res of Some b \<Rightarrow> RString b | None \<Rightarrow> RNull)"
  "resp_builtin lib res url ''timings'' = Some (RTimings (f64_div (f64_of_int (rs_Duration res)) (f64_of_int 1000000)))"
  "resp_builtin lib res url ''cookies'' = Some (RCookies (case cookiesObject lib res of Some g \<Rightarrow> g | None \<Rightarrow> []))"
  "resp_builtin lib res url ''json'' = Some RJson"
  by (simp_all add: resp_builtin_def)

lemma resp_builtin_None: "resp_builtin lib res url k = None \<longleftrightarrow> k \<notin> set responseKeys \<and> k \<noteq> ''json''"
  by (auto simp: resp_builtin_def responseKeys_def)

lemma resp_cached:
  assumes "resp_stands lib res req r m"
  shows "rp_headers r = Some v \<Longrightarrow> resp_builtin lib res (hq_URL req) ''headers'' = Some v"
    "rp_body r = Some v \<Longrightarrow> resp_builtin lib res (hq_URL req) ''body'' = Some v"
    "rp_timings r = Some v \<Longrightarrow> resp_builtin lib res (hq_URL req) ''timings'' = Some v"
    "rp_cookies r = Some v \<Longrightarrow> resp_builtin lib res (hq_URL req) ''cookies'' = Some v"
    "rp_json r = Some v \<Longrightarrow> resp_builtin lib res (hq_URL req) ''json'' = Some v"
  using assms unfolding resp_stands_def cached_def by auto

lemma resp_fill:
  assumes "resp_stands lib res req r m"
  shows "resp_stands lib res req (r\<lparr>rp_headers := resp_builtin lib res (hq_URL req) ''headers''\<rparr>) m"
    "resp_stands lib res req (r\<lparr>rp_body := resp_builtin lib res (hq_URL req) ''body''\<rparr>) m"
    "resp_stands lib res req (r\<lparr>rp_timings := resp_builtin lib res (hq_URL req) ''timings''\<rparr>) m"
    "resp_stands lib res req (r\<lparr>rp_cookies := resp_builtin lib res (hq_URL req) ''cookies''\<rparr>) m"
    "resp_stands lib res req (r\<lparr>rp_json := resp_builtin lib res (hq_URL req) ''json''\<rparr>) m"
  using assms unfolding resp_stands_def cached_def by auto

lemma resp_Get_stands:
  assumes r: "resp_stands lib res req r m" and g: "cookiesObject lib res = Some g"
  shows "\<exists>r' w. resp_Get lib r k = Some (case m k of Some v \<Rightarrow> Some (RScript v) | None \<Rightarrow> resp_builtin lib res (hq_URL req) k, r', w) \<and>
    resp_stands lib res req r' m \<and> body_warned r w \<and>
    (if w = [] then rp_body r \<noteq> None \<longrightarrow> rp_body r' \<noteq> None else rp_body r' \<noteq> None)"
proof -
  have m: "map_of (rp_extra r) = m" "rp_res r = res" "rp_url r = hq_URL req" using r by (simp_all add: resp_stands_def)
  consider (h) "k = ''headers''" | (b) "k = ''body''" | (t) "k = ''timings''" | (c) "k = ''cookies''" | (j) "k = ''json''"
    | (p) "k \<in> {''status'', ''error'', ''url'', ''proto''}" | (n) "k \<notin> set responseKeys" "k \<noteq> ''json''"
    by (auto simp: responseKeys_def)
  note K = this
  show ?thesis
  proof (cases "m k")
    case (Some v)
    then show ?thesis using r m by (simp add: resp_Get_def body_warned_def)
  next
    case None
    from K show ?thesis
    proof cases
      case h
      with None show ?thesis using r m resp_cached(1) [OF r] resp_fill(1) [OF r]
        by (cases "rp_headers r") (simp_all add: resp_Get_def body_warned_def Let_def)
    next
      case b
      with None show ?thesis using r m resp_cached(2) [OF r] resp_fill(2) [OF r]
        by (cases "rp_body r"; cases "rs_Body res") (simp_all add: resp_Get_def body_warned_def)
    next
      case t
      with None show ?thesis using r m resp_cached(3) [OF r] resp_fill(3) [OF r]
        by (cases "rp_timings r") (simp_all add: resp_Get_def body_warned_def Let_def)
    next
      case c
      with None show ?thesis using r m g resp_cached(4) [OF r] resp_fill(4) [OF r]
        by (cases "rp_cookies r") (simp_all add: resp_Get_def body_warned_def)
    next
      case j
      with None show ?thesis using r m resp_cached(5) [OF r] resp_fill(5) [OF r]
        by (cases "rp_json r") (simp_all add: resp_Get_def body_warned_def)
    next
      case p
      with None show ?thesis using r m by (auto simp: resp_Get_def body_warned_def)
    next
      case n
      with None show ?thesis using r m iffD2 [OF resp_builtin_None]
        by (simp add: resp_Get_def body_warned_def responseKeys_def resp_builtin_def)
    qed
  qed
qed

lemma resp_run_stands:
  assumes "cookiesObject lib res = Some g" "resp_stands lib res req r m"
  shows "\<exists>r' ms. resp_run lib r xs = Some (r', object_reads (resp_builtin lib res (hq_URL req)) m xs, ms) \<and>
    resp_stands lib res req r' (object_after m xs) \<and> body_warned r ms"
  using assms(2)
proof (induction xs arbitrary: r m)
  case Nil
  then show ?case by (simp add: body_warned_def)
next
  case (Cons x xs)
  show ?case
  proof (cases x)
    case (RespGet k)
    obtain r1 w where w: "resp_Get lib r k = Some (case m k of Some v \<Rightarrow> Some (RScript v) | None \<Rightarrow> resp_builtin lib res (hq_URL req) k, r1, w)"
      "resp_stands lib res req r1 m" "body_warned r w"
      "if w = [] then rp_body r \<noteq> None \<longrightarrow> rp_body r1 \<noteq> None else rp_body r1 \<noteq> None"
      using resp_Get_stands [OF Cons.prems assms(1)] by blast
    obtain r2 ms where ms: "resp_run lib r1 xs = Some (r2, object_reads (resp_builtin lib res (hq_URL req)) m xs, ms)"
      "resp_stands lib res req r2 (object_after m xs)" "body_warned r1 ms"
      using Cons.IH [OF w(2)] by blast
    have "rp_discarded r1 = rp_discarded r" using w(2) Cons.prems by (simp add: resp_stands_def)
    then have "body_warned r (w @ ms)" using w(3,4) ms(3) by (auto simp: body_warned_def split: if_splits)
    then show ?thesis using RespGet w(1) ms by simp
  next
    case (RespSet k v)
    have "body_warned (resp_Set r k v) ms = body_warned r ms" for ms by (simp add: body_warned_def resp_Set_def)
    then show ?thesis unfolding RespSet resp_run.simps object_reads.simps object_after.simps
      using Cons.IH [OF resp_write_stands(1) [OF Cons.prems]] by blast
  next
    case (RespDelete k)
    have "body_warned (resp_Delete r k) ms = body_warned r ms" for ms by (simp add: body_warned_def resp_Delete_def)
    then show ?thesis unfolding RespDelete resp_run.simps object_reads.simps object_after.simps
      using Cons.IH [OF resp_write_stands(2) [OF Cons.prems]] by blast
  qed
qed

text \<open>A response is an object. Whatever a script reads, sets and deletes on a response, in whatever order, it
  behaves as an object whose properties are those the script set over the ones the response came
  with: what is built on the first read is what every read gives, a property the script deletes is
  back to what it was, \<open>in\<close> and the keys agree with the reads, and the missing body of a discarded
  response is warned about at most once, and only if the response was discarded.\<close>

theorem response_is_object:
  fixes xs :: "'v resp_op list"
  assumes "cookiesObject lib res \<noteq> None"
  shows "\<exists>r ms. resp_run lib (new_response res req) xs =
      Some (r, object_reads (resp_builtin lib res (hq_URL req)) Map.empty xs, ms) \<and>
    (ms = [] \<or> ms = [body_hint] \<and> \<not> hq_KeepBody req) \<and>
    (let m = object_after Map.empty xs in
       (\<forall>k. resp_Has r k = (m k \<noteq> None \<or> resp_builtin lib res (hq_URL req) k \<noteq> (None :: 'v rvalue option))) \<and>
       distinct (resp_Keys r) \<and> set (resp_Keys r) = set responseKeys \<union> dom m)"
proof -
  obtain g where g: "cookiesObject lib res = Some g" using assms by blast
  obtain r ms where run: "resp_run lib (new_response res req) xs = Some (r, object_reads (resp_builtin lib res (hq_URL req)) Map.empty xs, ms)"
    "resp_stands lib res req r (object_after Map.empty xs)" "body_warned (new_response res req :: 'v response) ms"
    using resp_run_stands [OF g resp_new_stands] by blast
  have x: "map_of (rp_extra r) = object_after Map.empty xs" "distinct (map fst (rp_extra r))"
    using run(2) by (simp_all add: resp_stands_def)
  have "set (map fst (rp_extra r)) = dom (object_after Map.empty xs)" by (simp add: dom_map_of_conv_image_fst flip: x(1))
  then have "set (resp_Keys r) = set responseKeys \<union> dom (object_after Map.empty xs)" by (auto simp: resp_Keys_def)
  moreover have "distinct (resp_Keys r)" using x(2) by (auto simp: resp_Keys_def responseKeys_def)
  moreover have "resp_Has r k = (object_after Map.empty xs k \<noteq> None \<or> resp_builtin lib res (hq_URL req) k \<noteq> (None :: 'v rvalue option))" for k
    using resp_builtin_None [of lib res "hq_URL req" k] x(1) by (auto simp: resp_Has_def)
  moreover have "ms = [] \<or> ms = [body_hint] \<and> \<not> hq_KeepBody req"
    using run(3) by (auto simp: body_warned_def new_response_def)
  ultimately show ?thesis using run(1) by (auto simp: Let_def)
qed

definition response_lib_example :: resp_lib where
  "response_lib_example = \<lparr>rl_Cookies = (\<lambda>_. []), rl_inherited = (\<lambda>n. n = ''constructor'')\<rparr>"

theorem response_is_object_witness:
  "let res = hresult_zero\<lparr>rs_Status := 200\<rparr>;
       req = \<lparr>hq_Method = ''GET'', hq_URL = ''/'', hq_Body = [], hq_Header = None, hq_KeepBody = False\<rparr>
   in \<exists>r ms. resp_run response_lib_example (new_response res req)
        [RespGet ''body'', RespSet ''status'' (7::int), RespGet ''status'', RespDelete ''status'', RespGet ''status'', RespGet ''x''] =
      Some (r, [Some RNull, Some (RScript 7), Some (RNumber 200), None], ms) \<and> (ms = [] \<or> ms = [body_hint]) \<and> resp_Has r ''url''"
proof -
  define res where "res = hresult_zero\<lparr>rs_Status := 200\<rparr>"
  define req where "req = \<lparr>hq_Method = ''GET'', hq_URL = ''/'', hq_Body = [], hq_Header = None, hq_KeepBody = False\<rparr>"
  have c: "cookiesObject response_lib_example res \<noteq> None" by (simp add: cookiesObject_def res_def hresult_zero_def)
  have n: "resp_builtin response_lib_example res u ''x'' = (None :: int rvalue option)" for u
    by (simp add: resp_builtin_None responseKeys_def)
  have f: "rs_Status res = 200" "rs_Body res = None" by (simp_all add: res_def hresult_zero_def)
  show ?thesis
    using response_is_object [OF c, of req "[RespGet ''body'', RespSet ''status'' (7::int), RespGet ''status'', RespDelete ''status'', RespGet ''status'', RespGet ''x'']"]
      n [of "hq_URL req"] f
    unfolding Let_def res_def [symmetric] req_def [symmetric]
    by (auto simp del: resp_run.simps)
qed

text \<open>A server can name a cookie after something every object inherits: reading the cookies then panics.\<close>

lemma cookie_inherited_panics:
  assumes "rs_Header (rp_res r) = Some h" "rl_Cookies lib h = c # cs" "rl_inherited lib (ck_Name c)"
    and "rp_cookies r = None" "map_of (rp_extra r) ''cookies'' = None"
  shows "resp_Get lib r ''cookies'' = None"
  using assms by (simp add: resp_Get_def cookiesObject_def)

end
