(* ===== verification/Protocol_Record.thy ===== *)
theory Protocol_Record
  imports Families
begin

text \<open>
  What protocol modules record: \<open>internal/protocol/errors.go\<close> and \<open>record.go\<close>. A Go error is the list of
  the layers that \<open>errors.Is\<close> and \<open>errors.As\<close> visit, in that order; for each layer, which of the known
  errors it is, its operation when it is a \<open>net.OpError\<close>, and what \<open>Timeout()\<close> answers when it has one.
\<close>

section \<open>Error codes: errors.go\<close>

definition CodeNone :: string where "CodeNone = []"
definition CodeDNS :: string where "CodeDNS = ''dns''"
definition CodeDial :: string where "CodeDial = ''dial''"
definition CodeTLS :: string where "CodeTLS = ''tls''"
definition CodeTimeout :: string where "CodeTimeout = ''timeout''"
definition CodeProtocol :: string where "CodeProtocol = ''protocol''"
definition CodeServer :: string where "CodeServer = ''server''"
definition CodeClosed :: string where "CodeClosed = ''closed''"
definition CodeInvalid :: string where "CodeInvalid = ''invalid''"

lemmas code_defs = CodeNone_def CodeDNS_def CodeDial_def CodeTLS_def CodeTimeout_def CodeProtocol_def
  CodeServer_def CodeClosed_def CodeInvalid_def

datatype known_error =
    DNSError
  | CertificateVerificationError
  | UnknownAuthorityError
  | HostnameError
  | CertificateInvalidError
  | RecordHeaderError
  | AlertError
  | ContextDeadlineExceeded
  | OsDeadlineExceeded
  | IoEOF
  | UnexpectedEOF
  | NetErrClosed
  | ECONNRESET
  | ECONNABORTED
  | EPIPE

record err_layer =
  el_is :: "known_error list"
  el_Op :: "string option"
  el_Timeout :: "bool option"

type_synonym go_error = "err_layer list"

definition errors_is :: "known_error \<Rightarrow> go_error \<Rightarrow> bool" where
  "errors_is k e \<longleftrightarrow> list_ex (\<lambda>l. k \<in> set (el_is l)) e"

text \<open>\<open>errors.As\<close> takes the first layer of the type.\<close>

fun first_some :: "('a \<Rightarrow> 'b option) \<Rightarrow> 'a list \<Rightarrow> 'b option" where
  "first_some g [] = None"
| "first_some g (x # xs) = (case g x of Some y \<Rightarrow> Some y | None \<Rightarrow> first_some g xs)"

definition Classify :: "go_error option \<Rightarrow> string" where
  "Classify err = (case err of None \<Rightarrow> CodeNone
     | Some e \<Rightarrow>
         if errors_is DNSError e then CodeDNS
         else if errors_is CertificateVerificationError e \<or> errors_is UnknownAuthorityError e \<or> errors_is HostnameError e \<or>
                 errors_is CertificateInvalidError e \<or> errors_is RecordHeaderError e \<or> errors_is AlertError e then CodeTLS
         else if errors_is ContextDeadlineExceeded e \<or> errors_is OsDeadlineExceeded e \<or>
                 first_some el_Timeout e = Some True then CodeTimeout
         else if first_some el_Op e = Some ''dial'' then CodeDial
         else if errors_is IoEOF e \<or> errors_is UnexpectedEOF e \<or> errors_is NetErrClosed e \<or>
                 errors_is ECONNRESET e \<or> errors_is ECONNABORTED e \<or> errors_is EPIPE e then CodeClosed
         else CodeProtocol)"

text \<open>No error is taken for success, and a dial that times out is a timeout.\<close>

lemma Classify_none: "Classify err = CodeNone \<longleftrightarrow> err = None"
  by (simp add: Classify_def code_defs split: option.split)

lemma Classify_dial_timeout:
  assumes "\<not> errors_is DNSError e" "Classify (Some e) \<noteq> CodeTLS" "first_some el_Timeout e = Some True"
  shows "Classify (Some e) = CodeTimeout"
  using assms by (simp add: Classify_def split: if_splits)

section \<open>Recording an operation: record.go\<close>

text \<open>A family ID; \<open>NoFamily\<close> is \<open>None\<close>.\<close>

record op_families =
  ff_Duration :: "nat option"
  ff_Count :: "nat option"
  ff_Failed :: "nat option"

record outcome =
  oc_Duration :: duration
  oc_Err :: "go_error option"
  oc_Code :: string
  oc_Sent :: bool

text \<open>The VU's context: none in top-level code, and whether it has ended.\<close>

record vu_context =
  cx_Context :: "bool option"
  cx_Recorder :: bool

definition outcome_code :: "outcome \<Rightarrow> string" where
  "outcome_code out =
     (if oc_Code out = CodeNone \<and> oc_Err out \<noteq> None
      then (if \<not> oc_Sent out then CodeInvalid else Classify (oc_Err out)) else oc_Code out)"

definition Record_op :: "vu_context \<Rightarrow> op_families \<Rightarrow> outcome \<Rightarrow> string \<times> fam_event list" where
  "Record_op vu f out =
     (let code = outcome_code out; failed = (code \<noteq> CodeNone)
      in if cx_Context vu = None \<or> cx_Context vu = Some True \<or> \<not> cx_Recorder vu then (code, [])
         else (code,
           (case ff_Duration f of Some i \<Rightarrow> if oc_Sent out then [FTrend i (oc_Duration out) (\<not> failed)] else [] | None \<Rightarrow> []) @
           (case ff_Count f of Some i \<Rightarrow> [FAdd i 1] | None \<Rightarrow> []) @
           (case ff_Failed f of Some i \<Rightarrow> [FRate i failed] | None \<Rightarrow> [])))"

definition missingFamilyError :: "string \<Rightarrow> string" where
  "missingFamilyError name = ''protocol: metric family '' @ name @ '' is not declared in the run's families''"

fun FamilyIDs :: "families option \<Rightarrow> string list \<Rightarrow> string + nat list" where
  "FamilyIDs fams [] = Inr []"
| "FamilyIDs fams (n # names) = (case family_ID fams n of
       None \<Rightarrow> Inl (missingFamilyError n)
     | Some i \<Rightarrow> (case FamilyIDs fams names of Inl e \<Rightarrow> Inl e | Inr ids \<Rightarrow> Inr (i # ids)))"

lemma FamilyIDs_lookup:
  "FamilyIDs fams names = Inr ids \<longleftrightarrow> map (family_ID fams) names = map Some ids"
  by (induction names arbitrary: ids) (auto split: option.splits sum.splits, blast)

section \<open>What a run's operations count\<close>

text \<open>An operation of the VU with recorder \<open>po_VU\<close>.\<close>

record proto_op =
  po_VU :: nat
  po_Context :: vu_context
  po_Families :: op_families
  po_Outcome :: outcome

definition op_events :: "proto_op \<Rightarrow> (nat \<times> fam_event) list" where
  "op_events p = map (Pair (po_VU p)) (snd (Record_op (po_Context p) (po_Families p) (po_Outcome p)))"

definition op_live :: "proto_op \<Rightarrow> bool" where
  "op_live p \<longleftrightarrow> cx_Context (po_Context p) = Some False \<and> cx_Recorder (po_Context p)"

definition op_failed :: "proto_op \<Rightarrow> bool" where
  "op_failed p \<longleftrightarrow> oc_Err (po_Outcome p) \<noteq> None \<or> oc_Code (po_Outcome p) \<noteq> CodeNone"

lemma outcome_failed: "outcome_code (po_Outcome p) = CodeNone \<longleftrightarrow> \<not> op_failed p"
  by (auto simp: outcome_code_def op_failed_def Classify_none) (simp add: code_defs)

definition some_kind :: "fdef list \<Rightarrow> kind \<Rightarrow> nat option \<Rightarrow> bool" where
  "some_kind ds k io = (case io of None \<Rightarrow> True | Some i \<Rightarrow> i < length ds \<and> d_Kind (ds ! i) = k)"

text \<open>A well-typed operation: its recorder exists and uses the run's families, and its families are of the
  kinds the module declared them with.\<close>

definition op_ok :: "recorder list \<Rightarrow> fdef list \<Rightarrow> proto_op \<Rightarrow> bool" where
  "op_ok rs ds p \<longleftrightarrow> po_VU p < length rs \<and> r_fams (rs ! po_VU p) \<and> r_shardIndex (rs ! po_VU p) < numShards \<and>
     in64 (oc_Duration (po_Outcome p)) \<and> some_kind ds Trend (ff_Duration (po_Families p)) \<and>
     some_kind ds Counter (ff_Count (po_Families p)) \<and> some_kind ds Rate (ff_Failed (po_Families p))"

lemma op_events_dead: "\<not> op_live p \<Longrightarrow> op_events p = []"
  by (auto simp: op_events_def op_live_def Record_op_def Let_def)

lemma op_events_live:
  "op_live p \<Longrightarrow> op_events p = map (Pair (po_VU p)) (
     (case ff_Duration (po_Families p) of Some i \<Rightarrow>
        if oc_Sent (po_Outcome p) then [FTrend i (oc_Duration (po_Outcome p)) (\<not> op_failed p)] else [] | None \<Rightarrow> []) @
     (case ff_Count (po_Families p) of Some i \<Rightarrow> [FAdd i 1] | None \<Rightarrow> []) @
     (case ff_Failed (po_Families p) of Some i \<Rightarrow> [FRate i (op_failed p)] | None \<Rightarrow> []))"
  by (simp add: op_events_def op_live_def Record_op_def Let_def outcome_failed cong: option.case_cong if_cong)

lemma op_events_ok: "op_ok rs ds p \<Longrightarrow> x \<in> set (op_events p) \<Longrightarrow> fam_ok rs ds x"
  by (cases "op_live p") (auto simp: op_events_live op_events_dead op_ok_def some_kind_def fam_ok_def split: option.splits if_splits)

lemma op_events_length: "length (op_events p) \<le> 3"
  by (cases "op_live p") (auto simp: op_events_live op_events_dead split: option.split)

lemma ops_events_length: "length (concat (map op_events ps)) \<le> 3 * length ps"
proof (induction ps)
  case (Cons p ps)
  then show ?case using op_events_length [of p] by simp
qed simp

lemma fam_part_append: "fam_part g (xs @ ys) = fam_part g xs @ fam_part g ys"
  by (simp add: fam_part_def)

definition timed_ops :: "nat \<Rightarrow> proto_op list \<Rightarrow> proto_op list" where
  "timed_ops i ps = filter (\<lambda>p. op_live p \<and> oc_Sent (po_Outcome p) \<and> ff_Duration (po_Families p) = Some i) ps"

lemma op_parts:
  "fam_part (fam_lat b i) (op_events p) =
     map (oc_Duration \<circ> po_Outcome) (filter (\<lambda>p. op_failed p \<noteq> b) (timed_ops i [p]))"
  "fam_part (fam_adds i) (op_events p) = (if op_live p \<and> ff_Count (po_Families p) = Some i then [1] else [])"
  "fam_part (fam_rates i) (op_events p) = (if op_live p \<and> ff_Failed (po_Families p) = Some i then [op_failed p] else [])"
  by (cases "op_live p"; cases "ff_Duration (po_Families p)"; cases "ff_Count (po_Families p)"; cases "ff_Failed (po_Families p)";
      auto simp: fam_part_def op_events_live op_events_dead timed_ops_def)+

lemma ops_parts:
  "fam_part (fam_lat b i) (concat (map op_events ps)) =
     map (oc_Duration \<circ> po_Outcome) (filter (\<lambda>p. op_failed p \<noteq> b) (timed_ops i ps))"
  "fam_part (fam_adds i) (concat (map op_events ps)) =
     map (\<lambda>_. 1) (filter (\<lambda>p. op_live p \<and> ff_Count (po_Families p) = Some i) ps)"
  "fam_part (fam_rates i) (concat (map op_events ps)) =
     map op_failed (filter (\<lambda>p. op_live p \<and> ff_Failed (po_Families p) = Some i) ps)"
  by (induction ps) (simp_all add: fam_part_append op_parts timed_ops_def)

lemma filter_split: "length (filter (\<lambda>p. P p \<noteq> True) xs) + length (filter (\<lambda>p. P p \<noteq> False) xs) = length xs"
  by (induction xs) auto


text \<open>A module that declares a Counter, a Rate and a Trend: an operation that succeeds, one the server
  closed, an invalid one, and one that the end of the test cut short.\<close>

definition op_defs :: "fdef list" where
  "op_defs = [\<lparr>d_Name = ''ws_ops'', d_Kind = Counter\<rparr>, \<lparr>d_Name = ''ws_failed'', d_Kind = Rate\<rparr>, \<lparr>d_Name = ''ws_time'', d_Kind = Trend\<rparr>]"

definition op_example :: "bool \<Rightarrow> go_error option \<Rightarrow> bool \<Rightarrow> proto_op" where
  "op_example ended err sent = \<lparr>po_VU = 0, po_Context = \<lparr>cx_Context = Some ended, cx_Recorder = True\<rparr>,
     po_Families = \<lparr>ff_Duration = Some 2, ff_Count = Some 0, ff_Failed = Some 1\<rparr>,
     po_Outcome = \<lparr>oc_Duration = 5, oc_Err = err, oc_Code = [], oc_Sent = sent\<rparr>\<rparr>"


end
