(* ===== verification/Ws_Session.thy ===== *)
theory Ws_Session
  imports Protocol_Record Script_Http
begin

text \<open>
  WebSocket sessions with handlers: \<open>internal/protocols/ws/session.go\<close> and \<open>socket.go\<close>, and what \<open>module.go\<close> sets
  up for every session (\<open>Ws_Blocking\<close> has the sessions of \<open>blocking.go\<close>). The
  connection (what the handshake, a write and a read answer, and when) and the script's handlers (what
  they do with the socket, and whether they throw) are arguments. A session's state holds what it has
  recorded, the clock, and whether its context has ended.
\<close>

section \<open>Metrics: module.go\<close>

definition ws_metrics :: "fdef list" where
  "ws_metrics =
     [\<lparr>d_Name = ''ws_connecting'', d_Kind = Trend\<rparr>, \<lparr>d_Name = ''ws_sessions'', d_Kind = Counter\<rparr>,
      \<lparr>d_Name = ''ws_session_failed'', d_Kind = Rate\<rparr>, \<lparr>d_Name = ''ws_session_duration'', d_Kind = Trend\<rparr>,
      \<lparr>d_Name = ''ws_msgs_sent'', d_Kind = Counter\<rparr>, \<lparr>d_Name = ''ws_msgs_received'', d_Kind = Counter\<rparr>,
      \<lparr>d_Name = ''ws_msg_latency'', d_Kind = Trend\<rparr>, \<lparr>d_Name = ''ws_errors'', d_Kind = Counter\<rparr>]"

record ws_ids =
  wi_connecting :: nat
  wi_sessions :: nat
  wi_sessionFailed :: nat
  wi_sessionDuration :: nat
  wi_msgsSent :: nat
  wi_msgsReceived :: nat
  wi_msgLatency :: nat
  wi_errors :: nat

definition ws_new_run :: "families option \<Rightarrow> string + ws_ids" where
  "ws_new_run fams = (case FamilyIDs fams (map d_Name ws_metrics) of
       Inl e \<Rightarrow> Inl e
     | Inr ids \<Rightarrow> Inr \<lparr>wi_connecting = ids ! 0, wi_sessions = ids ! 1, wi_sessionFailed = ids ! 2, wi_sessionDuration = ids ! 3,
         wi_msgsSent = ids ! 4, wi_msgsReceived = ids ! 5, wi_msgLatency = ids ! 6, wi_errors = ids ! 7\<rparr>)"

definition maxPendingReplies :: nat where "maxPendingReplies = 1024"

section \<open>The session: session.go\<close>

record ws_timer =
  wt_id :: int
  wt_at :: int
  wt_every :: duration

text \<open>\<open>ss_handlers\<close> is how many handlers each event has; \<open>ss_now\<close> the clock; \<open>ss_ended\<close> whether the context has
  ended; \<open>ss_rec\<close> what was recorded, \<open>ss_emitted\<close> the events fired; \<open>ss_warned\<close> whether the script was warned.\<close>

record session =
  ss_status :: int
  ss_connecting :: duration
  ss_opened :: int
  ss_duration :: duration
  ss_err :: "go_error option"
  ss_code :: string
  ss_closeCode :: int
  ss_handlers :: "string \<Rightarrow> nat"
  ss_timers :: "ws_timer list"
  ss_nextID :: int
  ss_pending :: "int list"
  ss_closing :: bool
  ss_done :: bool
  ss_thrown :: bool
  ss_now :: int
  ss_ended :: bool
  ss_rec :: "fam_event list"
  ss_emitted :: "string list"
  ss_warned :: bool

definition new_session :: "int \<Rightarrow> bool \<Rightarrow> session" where
  "new_session now ended = \<lparr>ss_status = 0, ss_connecting = 0, ss_opened = 0, ss_duration = 0, ss_err = None, ss_code = CodeNone,
     ss_closeCode = 0, ss_handlers = (\<lambda>_. 0), ss_timers = [], ss_nextID = 0, ss_pending = [], ss_closing = False,
     ss_done = False, ss_thrown = False, ss_now = now, ss_ended = ended, ss_rec = [], ss_emitted = [], ss_warned = False\<rparr>"

text \<open>\<open>recorder\<close> is nil once the test is ending.\<close>

definition ss_record :: "fam_event list \<Rightarrow> session \<Rightarrow> session" where
  "ss_record es s = (if ss_ended s then s else s\<lparr>ss_rec := ss_rec s @ es\<rparr>)"

definition ss_add :: "nat \<Rightarrow> int \<Rightarrow> session \<Rightarrow> session" where
  "ss_add i n s = ss_record [FAdd i n] s"

definition ss_fail :: "string \<Rightarrow> go_error \<Rightarrow> session \<Rightarrow> session" where
  "ss_fail code err s = s\<lparr>ss_err := Some err, ss_code := code\<rparr>"

definition recordSessionFailed :: "ws_ids \<Rightarrow> bool \<Rightarrow> session \<Rightarrow> session" where
  "recordSessionFailed ids failed s = ss_record [FRate (wi_sessionFailed ids) failed] s"

definition recordSessionEnd :: "ws_ids \<Rightarrow> session \<Rightarrow> session" where
  "recordSessionEnd ids s = (let failed = (ss_err s \<noteq> None) in
     recordSessionFailed ids failed (ss_record [FTrend (wi_sessionDuration ids) (ss_duration s) (\<not> failed)] s))"

text \<open>Time passes, and the test may end.\<close>

definition ss_pass :: "nat \<Rightarrow> bool \<Rightarrow> session \<Rightarrow> session" where
  "ss_pass d en s = s\<lparr>ss_now := ss_now s + int d, ss_ended := (ss_ended s \<or> en)\<rparr>"

text \<open>The handshake: an error that keeps the URL from being used, or what the server answered: a status (0
  without a response), an error, and the time it took.\<close>

record dial_answer =
  da_Invalid :: "go_error option"
  da_Status :: int
  da_Err :: "go_error option"
  da_Took :: nat
  da_Ends :: bool

definition ws_protocol_record :: "ws_ids \<Rightarrow> outcome \<Rightarrow> session \<Rightarrow> string \<times> session" where
  "ws_protocol_record ids out s =
     (case Record_op \<lparr>cx_Context = Some (ss_ended s), cx_Recorder = True\<rparr>
             \<lparr>ff_Duration = Some (wi_connecting ids), ff_Count = Some (wi_sessions ids), ff_Failed = None\<rparr> out of
        (code, es) \<Rightarrow> (code, s\<lparr>ss_rec := ss_rec s @ es\<rparr>))"

definition ws_dial :: "ws_ids \<Rightarrow> dial_answer \<Rightarrow> session \<Rightarrow> bool \<times> session" where
  "ws_dial ids a s = (case da_Invalid a of
       Some err \<Rightarrow>
         (let (code, s) = ws_protocol_record ids \<lparr>oc_Duration = 0, oc_Err = Some err, oc_Code = CodeNone, oc_Sent = False\<rparr> s
          in (False, recordSessionFailed ids True (ss_fail code err s)))
     | None \<Rightarrow>
         (let s = (ss_pass (da_Took a) (da_Ends a) s)\<lparr>ss_connecting := int (da_Took a), ss_status := da_Status a\<rparr>;
              code = (if da_Err a \<noteq> None \<and> 400 \<le> ss_status s then CodeServer
                      else if da_Err a \<noteq> None \<and> ss_status s \<noteq> 0 then CodeProtocol else CodeNone);
              out = \<lparr>oc_Duration = ss_connecting s, oc_Err = da_Err a, oc_Code = code, oc_Sent = True\<rparr>
          in case da_Err a of
               Some err \<Rightarrow>
                 (let (code, s) = ws_protocol_record ids out s
                  in (False, recordSessionFailed ids True (ss_fail code err s)))
             | None \<Rightarrow> (let (_, s) = ws_protocol_record ids out s in (True, s\<lparr>ss_opened := ss_now s\<rparr>))))"

section \<open>Handlers and the socket: socket.go\<close>

text \<open>What a handler does with the socket before it returns or throws. A send carries what the write answered
  (the error, how long it took, whether the test ended meanwhile) and what the handlers of the events it
  fires do.\<close>

datatype act =
    ActPass nat bool
  | ActOn string
  | ActSend "go_error option" nat bool bool "script list" "script list"
  | ActClose
  | ActTimer f64 bool
and script = Script "act list" bool

definition eventNames :: "string list" where
  "eventNames = [''open'', ''message'', ''close'', ''error'']"

definition handleThrow :: "session \<Rightarrow> session" where
  "handleThrow s = (let s = s\<lparr>ss_done := True\<rparr> in if ss_ended s then s else s\<lparr>ss_thrown := True\<rparr>)"

definition statusNormal :: int where "statusNormal = 1000"
definition statusGoingAway :: int where "statusGoingAway = 1001"
definition statusAbnormal :: int where "statusAbnormal = 1006"

text \<open>The part of \<open>end\<close> before it fires \<open>close\<close>.\<close>

definition end_mark :: "go_error option \<Rightarrow> int \<Rightarrow> session \<Rightarrow> session" where
  "end_mark err closeCode s =
     (let s = s\<lparr>ss_done := True, ss_duration := ss_now s - ss_opened s, ss_closeCode := closeCode\<rparr>
      in if err \<noteq> None \<and> ss_err s = None
         then s\<lparr>ss_err := err, ss_code := (if ss_code s = CodeNone then Classify err else ss_code s)\<rparr> else s)"

definition addTimer :: "(f64 \<Rightarrow> int) \<Rightarrow> f64 \<Rightarrow> bool \<Rightarrow> session \<Rightarrow> session" where
  "addTimer wild ms repeat s =
     (let ms = (if f64_lt ms (Fin 0) \<or> ms = NaN then Fin 0 else ms);
          d = int64_of_f64 wild (f64_mul ms (f64_of_int millisecond))
      in if repeat \<and> d \<le> 0 then s
         else s\<lparr>ss_nextID := ss_nextID s + 1,
                ss_timers := ss_timers s @ [\<lparr>wt_id = ss_nextID s + 1, wt_at = ss_now s + d, wt_every = (if repeat then d else 0)\<rparr>]\<rparr>)"

definition closeSocket :: "session \<Rightarrow> session" where
  "closeSocket s = (if ss_closing s \<or> ss_done s then s else s\<lparr>ss_closing := True\<rparr>)"

definition add_pending :: "int \<Rightarrow> session \<Rightarrow> session" where
  "add_pending start s =
     (let s = (if maxPendingReplies \<le> length (ss_pending s) then s\<lparr>ss_pending := tl (ss_pending s), ss_warned := True\<rparr> else s)
      in s\<lparr>ss_pending := ss_pending s @ [start]\<rparr>)"

definition on_event :: "string \<Rightarrow> session \<Rightarrow> session" where
  "on_event name s = (if name \<in> set eventNames then s\<lparr>ss_handlers := (ss_handlers s)(name := Suc (ss_handlers s name))\<rparr> else s)"

definition emitting :: "string \<Rightarrow> session \<Rightarrow> session" where
  "emitting name s = s\<lparr>ss_emitted := ss_emitted s @ [name]\<rparr>"

text \<open>\<open>run_handlers n\<close> calls the first \<open>n\<close> handlers of an event, in the order they were registered: the scripts
  say what they do, those without one just return.\<close>

fun run_acts :: "(f64 \<Rightarrow> int) \<Rightarrow> ws_ids \<Rightarrow> act list \<Rightarrow> session \<Rightarrow> session"
  and run_act :: "(f64 \<Rightarrow> int) \<Rightarrow> ws_ids \<Rightarrow> act \<Rightarrow> session \<Rightarrow> session"
  and run_handlers :: "(f64 \<Rightarrow> int) \<Rightarrow> ws_ids \<Rightarrow> nat \<Rightarrow> script list \<Rightarrow> session \<Rightarrow> session" where
  "run_acts wild ids [] s = s"
| "run_acts wild ids (a # as) s = run_acts wild ids as (run_act wild ids a s)"
| "run_act wild ids (ActPass d en) s = ss_pass d en s"
| "run_act wild ids (ActOn name) s = on_event name s"
| "run_act wild ids ActClose s = closeSocket s"
| "run_act wild ids (ActTimer ms repeat) s = addTimer wild ms repeat s"
| "run_act wild ids (ActSend err d en reply on_error on_close) s =
     (if ss_done s \<or> ss_closing s
      then let s1 = emitting ''error'' (ss_add (wi_errors ids) 1 s)
           in run_handlers wild ids (ss_handlers s1 ''error'') on_error s1
      else let start = ss_now s; s1 = ss_pass d en s in
        (case err of
           Some e \<Rightarrow>
             if ss_ended s1 then s1\<lparr>ss_done := True\<rparr>
             else let s2 = emitting ''error'' (ss_add (wi_errors ids) 1 s1);
                      s3 = run_handlers wild ids (ss_handlers s2 ''error'') on_error s2;
                      s4 = (if ss_done s3 then s3
                            else let s' = emitting ''close'' (end_mark (Some e) statusAbnormal s3)
                                 in run_handlers wild ids (ss_handlers s' ''close'') on_close s')
                  in s4\<lparr>ss_code := Classify (Some e)\<rparr>
         | None \<Rightarrow> (let s2 = ss_add (wi_msgsSent ids) 1 s1 in if reply then add_pending start s2 else s2)))"
| "run_handlers wild ids 0 scs s = s"
| "run_handlers wild ids (Suc n) [] s = s"
| "run_handlers wild ids (Suc n) (Script as throws # scs) s =
     (if ss_thrown s then s
      else let s1 = run_acts wild ids as s
           in if throws then handleThrow s1 else run_handlers wild ids n scs s1)"

definition emit :: "(f64 \<Rightarrow> int) \<Rightarrow> ws_ids \<Rightarrow> string \<Rightarrow> script list \<Rightarrow> session \<Rightarrow> session" where
  "emit wild ids name scs s = (let s = emitting name s in run_handlers wild ids (ss_handlers s name) scs s)"

definition ss_end :: "(f64 \<Rightarrow> int) \<Rightarrow> ws_ids \<Rightarrow> go_error option \<Rightarrow> int \<Rightarrow> script list \<Rightarrow> session \<Rightarrow> session" where
  "ss_end wild ids err closeCode scs s = (if ss_done s then s else emit wild ids ''close'' scs (end_mark err closeCode s))"

text \<open>\<open>emitError\<close> fires nothing when there is no handler: the event then only shows in \<open>ss_emitted\<close>.\<close>

lemma run_send:
  "run_act wild ids (ActSend err d en reply on_error on_close) s =
     (if ss_done s \<or> ss_closing s then emit wild ids ''error'' on_error (ss_add (wi_errors ids) 1 s)
      else let s1 = ss_pass d en s in
        (case err of
           Some e \<Rightarrow>
             if ss_ended s1 then s1\<lparr>ss_done := True\<rparr>
             else (ss_end wild ids (Some e) statusAbnormal on_close
                     (emit wild ids ''error'' on_error (ss_add (wi_errors ids) 1 s1)))\<lparr>ss_code := Classify (Some e)\<rparr>
         | None \<Rightarrow> (let s2 = ss_add (wi_msgsSent ids) 1 s1 in if reply then add_pending (ss_now s) s2 else s2)))"
  by (simp add: emit_def ss_end_def Let_def split: option.split)

section \<open>The event loop: session.go\<close>

definition pop_pending :: "ws_ids \<Rightarrow> int \<Rightarrow> session \<Rightarrow> session" where
  "pop_pending ids arrived s = (case ss_pending s of [] \<Rightarrow> s
     | sent # rest \<Rightarrow> ss_record [FTrend (wi_msgLatency ids) (arrived - sent) True] (s\<lparr>ss_pending := rest\<rparr>))"

text \<open>What the reader passes on: a message and when it arrived, or why reading failed, with the status of the
  peer's close frame (-1 without one).\<close>

datatype ws_event = WsMessage int | WsReadErr int go_error

definition wrapped :: "go_error \<Rightarrow> go_error" where
  "wrapped e = \<lparr>el_is = [], el_Op = None, el_Timeout = None\<rparr> # e"

definition readFailed :: "(f64 \<Rightarrow> int) \<Rightarrow> ws_ids \<Rightarrow> int \<Rightarrow> go_error \<Rightarrow> script list \<Rightarrow> script list \<Rightarrow> session \<Rightarrow> session" where
  "readFailed wild ids code err on_error on_close s =
     (if code = statusNormal \<or> code = statusGoingAway then ss_end wild ids None code on_close s
      else if 0 \<le> code then (ss_end wild ids (Some (wrapped err)) code on_close s)\<lparr>ss_code := CodeServer\<rparr>
      else if ss_closing s then ss_end wild ids None statusNormal on_close s
      else let s1 = emit wild ids ''error'' on_error (ss_add (wi_errors ids) 1 s)
           in (ss_end wild ids (Some err) statusAbnormal on_close s1)\<lparr>ss_code := Classify (Some err)\<rparr>)"

definition ws_handle :: "(f64 \<Rightarrow> int) \<Rightarrow> ws_ids \<Rightarrow> ws_event \<Rightarrow> script list \<Rightarrow> script list \<Rightarrow> session \<Rightarrow> session" where
  "ws_handle wild ids ev scs on_close s = (case ev of
       WsReadErr code err \<Rightarrow> readFailed wild ids code err scs on_close s
     | WsMessage arrived \<Rightarrow>
         (let s = pop_pending ids arrived (ss_add (wi_msgsReceived ids) 1 s)
          in if ss_handlers s ''message'' = 0 then s else emit wild ids ''message'' scs s))"

text \<open>\<open>nextTimer\<close> and \<open>fireTimers\<close>; a timer is known by its number.\<close>

fun next_loop :: "ws_timer list \<Rightarrow> int option \<Rightarrow> int option" where
  "next_loop [] next_at = next_at"
| "next_loop (t # ts) next_at = next_loop ts (case next_at of None \<Rightarrow> Some (wt_at t) | Some n \<Rightarrow> if wt_at t < n then Some (wt_at t) else Some n)"

definition nextTimer :: "session \<Rightarrow> int option" where
  "nextTimer s = next_loop (ss_timers s) None"

definition rearm :: "int \<Rightarrow> ws_timer \<Rightarrow> ws_timer" where
  "rearm now t = (let t = t\<lparr>wt_at := wt_at t + wt_every t\<rparr> in if wt_at t < now then t\<lparr>wt_at := now + wt_every t\<rparr> else t)"

definition take_timer :: "int \<Rightarrow> ws_timer \<Rightarrow> session \<Rightarrow> session" where
  "take_timer now t s =
     (if 0 < wt_every t then s\<lparr>ss_timers := map (\<lambda>x. if wt_id x = wt_id t then rearm now x else x) (ss_timers s)\<rparr>
      else s\<lparr>ss_timers := filter (\<lambda>x. wt_id x \<noteq> wt_id t) (ss_timers s)\<rparr>)"

fun fire_due :: "(f64 \<Rightarrow> int) \<Rightarrow> ws_ids \<Rightarrow> int \<Rightarrow> ws_timer list \<Rightarrow> script list \<Rightarrow> session \<Rightarrow> session" where
  "fire_due wild ids now [] scs s = s"
| "fire_due wild ids now (t # ts) scs s =
     (if ss_done s then s
      else case (case scs of [] \<Rightarrow> Script [] False | sc # _ \<Rightarrow> sc) of
             Script as throws \<Rightarrow>
               (let s1 = run_acts wild ids as (take_timer now t s)
                in if throws then handleThrow s1 else fire_due wild ids now ts (tl scs) s1))"

definition due_timers :: "session \<Rightarrow> ws_timer list" where
  "due_timers s = sort_key wt_at (filter (\<lambda>t. wt_at t \<le> ss_now s) (ss_timers s))"

definition fireTimers :: "(f64 \<Rightarrow> int) \<Rightarrow> ws_ids \<Rightarrow> script list \<Rightarrow> session \<Rightarrow> session" where
  "fireTimers wild ids scs s = fire_due wild ids (ss_now s) (due_timers s) scs s"

text \<open>What a turn of the loop waits for; a branch that cannot be taken is \<open>None\<close>.\<close>

datatype loop_event =
    Passes nat bool
  | Received ws_event "script list" "script list"
  | ReaderClosed "script list"
  | TimerFires "script list"
  | ContextDone

definition loop_step :: "(f64 \<Rightarrow> int) \<Rightarrow> ws_ids \<Rightarrow> loop_event \<Rightarrow> session \<Rightarrow> session option" where
  "loop_step wild ids e s = (case e of
       Passes d en \<Rightarrow> Some (ss_pass d en s)
     | Received ev scs on_close \<Rightarrow> Some (ws_handle wild ids ev scs on_close s)
     | ReaderClosed on_close \<Rightarrow> Some (ss_end wild ids None statusAbnormal on_close s)
     | TimerFires scs \<Rightarrow> (case nextTimer s of None \<Rightarrow> None
         | Some t \<Rightarrow> if t \<le> ss_now s then Some (fireTimers wild ids scs s) else None)
     | ContextDone \<Rightarrow> if ss_ended s then Some (s\<lparr>ss_done := True\<rparr>) else None)"

fun ws_loop :: "(f64 \<Rightarrow> int) \<Rightarrow> ws_ids \<Rightarrow> loop_event list \<Rightarrow> session \<Rightarrow> session option" where
  "ws_loop wild ids [] s = (if ss_done s then Some s else None)"
| "ws_loop wild ids (e # es) s = (if ss_done s then None
     else case loop_step wild ids e s of None \<Rightarrow> None | Some s' \<Rightarrow> ws_loop wild ids es s')"

definition ws_run :: "(f64 \<Rightarrow> int) \<Rightarrow> ws_ids \<Rightarrow> script \<Rightarrow> script list \<Rightarrow> loop_event list \<Rightarrow> session \<Rightarrow> session option" where
  "ws_run wild ids setup on_open es s = (case setup of Script as throws \<Rightarrow>
     (let s1 = run_acts wild ids as (s\<lparr>ss_handlers := (\<lambda>_. 0)\<rparr>)
      in if throws then Some (handleThrow s1)
         else case ws_loop wild ids es (emit wild ids ''open'' on_open s1) of
                None \<Rightarrow> None
              | Some s2 \<Rightarrow> Some (if \<not> ss_ended s2 then recordSessionEnd ids s2 else s2)))"

definition ws_session :: "(f64 \<Rightarrow> int) \<Rightarrow> ws_ids \<Rightarrow> dial_answer \<Rightarrow> script \<Rightarrow> script list \<Rightarrow> loop_event list \<Rightarrow> session \<Rightarrow> session option" where
  "ws_session wild ids a setup on_open es s = (case ws_dial ids a s of
       (False, s1) \<Rightarrow> Some s1
     | (True, s1) \<Rightarrow> ws_run wild ids setup on_open es s1)"

text \<open>The arguments of \<open>connect\<close>, of which some are functions.\<close>

datatype js_arg = ArgFunction | ArgValue jsv

definition arg_isSet :: "js_arg \<Rightarrow> bool" where
  "arg_isSet a = (case a of ArgFunction \<Rightarrow> True | ArgValue v \<Rightarrow> isSet v)"

definition errInitConnect :: string where
  "errInitConnect = ''ws.connect is not allowed in the script''@ [CHR 0x27] @ ''s top-level code; call it inside the default function''"

datatype connect_style = CallbackStyle js_arg | BlockingStyle js_arg

definition ws_connect :: "bool \<Rightarrow> jsv \<Rightarrow> js_arg \<Rightarrow> js_arg \<Rightarrow> js_throw + string \<times> connect_style" where
  "ws_connect context rawURL params cbArg =
     (if \<not> context then Inl (GoError errInitConnect)
      else if \<not> isSet rawURL then Inl (TypeError ''ws.connect: url is required'')
      else
        let (params, cbArg) = (if params = ArgFunction \<and> \<not> arg_isSet cbArg then (ArgValue JsUndefined, params) else (params, cbArg))
        in if \<not> arg_isSet cbArg then Inr (js_text rawURL, BlockingStyle params)
           else if cbArg \<noteq> ArgFunction
           then Inl (TypeError ''ws.connect: the third argument must be a function that sets up the socket, or left out for a blocking socket'')
           else Inr (js_text rawURL, CallbackStyle params))"

definition ws_headersFrom :: "jsv \<Rightarrow> url_values option" where
  "ws_headersFrom params = (if \<not> isSet params then None else headersFrom (js_get params ''headers''))"

record ws_result =
  wr_url :: string
  wr_status :: int
  wr_error :: string
  wr_error_code :: string
  wr_connecting :: f64
  wr_duration :: f64

definition ws_ms :: "duration \<Rightarrow> f64" where
  "ws_ms d = f64_div (f64_of_int d) (f64_of_int millisecond)"

definition session_result :: "(go_error \<Rightarrow> string) \<Rightarrow> string \<Rightarrow> session \<Rightarrow> ws_result" where
  "session_result text url s = \<lparr>wr_url = url, wr_status = ss_status s,
     wr_error = (case ss_err s of None \<Rightarrow> [] | Some e \<Rightarrow> text e), wr_error_code = ss_code s,
     wr_connecting = ws_ms (ss_connecting s), wr_duration = ws_ms (ss_duration s)\<rparr>"

section \<open>What can happen to a session\<close>

text \<open>What a session becomes while handlers run or the connection delivers: nothing is undone, what is recorded
  is of the kinds \<open>P\<close>, \<open>close\<close> is fired once, when the session ends otherwise than by an exception or with
  the test, at most 1024 sends wait for a reply, and the error code says whether there is an error.\<close>

definition act_event :: "ws_ids \<Rightarrow> fam_event \<Rightarrow> bool" where
  "act_event ids e \<longleftrightarrow> e = FAdd (wi_msgsSent ids) 1 \<or> e = FAdd (wi_errors ids) 1"

definition cut_short :: "session \<Rightarrow> bool" where
  "cut_short s \<longleftrightarrow> ss_thrown s \<or> ss_ended s"

definition coded :: "session \<Rightarrow> bool" where
  "coded s \<longleftrightarrow> cut_short s \<or> (ss_err s = None \<longleftrightarrow> ss_code s = CodeNone)"

definition closes :: "session \<Rightarrow> nat" where
  "closes s = count_list (ss_emitted s) ''close''"

definition grows :: "(fam_event \<Rightarrow> bool) \<Rightarrow> session \<Rightarrow> session \<Rightarrow> bool" where
  "grows P s s' \<longleftrightarrow> (ss_ended s \<longrightarrow> ss_ended s') \<and> (ss_done s \<longrightarrow> ss_done s') \<and> (ss_thrown s \<longrightarrow> ss_thrown s') \<and>
     (ss_err s \<noteq> None \<longrightarrow> ss_err s' \<noteq> None) \<and> (\<exists>xs. ss_rec s' = ss_rec s @ xs \<and> list_all P xs) \<and>
     (if ss_done s then closes s' = closes s
      else if \<not> ss_done s' then closes s' = closes s
      else closes s' \<le> Suc (closes s) \<and> (\<not> cut_short s' \<longrightarrow> closes s' = Suc (closes s))) \<and>
     (length (ss_pending s) \<le> maxPendingReplies \<longrightarrow> length (ss_pending s') \<le> maxPendingReplies) \<and>
     (coded s \<longrightarrow> coded s') \<and> (ss_ended s \<longrightarrow> ss_rec s' = ss_rec s)"

text \<open>Handlers end a session only by an error, an exception or with the test.\<close>

definition breaks :: "session \<Rightarrow> session \<Rightarrow> bool" where
  "breaks s s' \<longleftrightarrow> (ss_done s' \<longrightarrow> ss_done s \<or> cut_short s' \<or> ss_err s' \<noteq> None)"

lemma grows_refl: "grows P s s"
  by (auto simp: grows_def)

lemma grows_trans:
  assumes "grows P s s1" "grows P s1 s2"
  shows "grows P s s2"
proof -
  have c: "cut_short s1 \<longrightarrow> cut_short s2" using assms(2) by (auto simp: grows_def cut_short_def)
  have r: "\<exists>xs. ss_rec s2 = ss_rec s @ xs \<and> list_all P xs"
  proof -
    obtain xs ys where "ss_rec s1 = ss_rec s @ xs" "list_all P xs" "ss_rec s2 = ss_rec s1 @ ys" "list_all P ys"
      using assms unfolding grows_def by blast
    then show ?thesis by (intro exI [of _ "xs @ ys"]) simp
  qed
  have k: "if ss_done s then closes s2 = closes s else if \<not> ss_done s2 then closes s2 = closes s
      else closes s2 \<le> Suc (closes s) \<and> (\<not> cut_short s2 \<longrightarrow> closes s2 = Suc (closes s))"
    using assms c unfolding grows_def
    by (cases "ss_done s"; cases "ss_done s1"; cases "ss_done s2"; cases "cut_short s1"; cases "cut_short s2") simp_all
  have e: "ss_ended s \<longrightarrow> ss_ended s2 \<and> ss_rec s2 = ss_rec s" using assms unfolding grows_def by simp
  show ?thesis unfolding grows_def
    using assms [unfolded grows_def] r k e by (intro conjI) blast+
qed

lemma breaks_trans: "breaks s s1 \<Longrightarrow> breaks s1 s2 \<Longrightarrow> grows P s1 s2 \<Longrightarrow> breaks s s2"
  by (auto simp: breaks_def grows_def cut_short_def)

definition acts_ok :: "ws_ids \<Rightarrow> session \<Rightarrow> session \<Rightarrow> bool" where
  "acts_ok ids s s' \<longleftrightarrow> grows (act_event ids) s s' \<and> breaks s s'"

lemma acts_refl: "acts_ok ids s s"
  by (simp add: acts_ok_def grows_refl breaks_def)

lemma acts_trans [trans]: "acts_ok ids s s1 \<Longrightarrow> acts_ok ids s1 s2 \<Longrightarrow> acts_ok ids s s2"
  unfolding acts_ok_def by (blast intro: grows_trans breaks_trans)

lemma Classify_some [simp]: "Classify (Some e) \<noteq> CodeNone"
  by (simp add: Classify_none)

lemmas rel_defs = acts_ok_def grows_def breaks_def cut_short_def coded_def closes_def

lemma acts_steps:
  "acts_ok ids s (ss_pass d en s)" "acts_ok ids s (on_event name s)" "acts_ok ids s (closeSocket s)"
  "acts_ok ids s (addTimer wild ms repeat s)" "acts_ok ids s (handleThrow s)"
  "acts_ok ids s (s\<lparr>ss_timers := ts\<rparr>)" "acts_ok ids s (s\<lparr>ss_handlers := hs\<rparr>)"
  "name \<noteq> ''close'' \<Longrightarrow> acts_ok ids s (emitting name s)"
  by (auto simp: rel_defs ss_pass_def on_event_def closeSocket_def addTimer_def handleThrow_def emitting_def Let_def)

lemma acts_add:
  "n = 1 \<Longrightarrow> acts_ok ids s (ss_add (wi_errors ids) n s)" "n = 1 \<Longrightarrow> acts_ok ids s (ss_add (wi_msgsSent ids) n s)"
  by (auto simp: rel_defs ss_add_def ss_record_def act_event_def)

lemma acts_error: "acts_ok ids s (emitting ''error'' (ss_add (wi_errors ids) 1 s))"
  by (rule acts_trans [OF acts_add(1) acts_steps(8)]) simp_all

lemma acts_pending: "acts_ok ids s (add_pending start s)"
  by (auto simp: rel_defs add_pending_def Let_def maxPendingReplies_def)

lemma acts_end:
  assumes "\<not> ss_done s" "err \<noteq> None"
  shows "acts_ok ids s (emitting ''close'' (end_mark err cc s))"
  using assms Classify_none [of err] by (auto simp: rel_defs emitting_def end_mark_def Let_def)

lemma acts_code:
  assumes "acts_ok ids s s'" "\<not> ss_done s" "ss_done s'" "code \<noteq> CodeNone"
  shows "acts_ok ids s (s'\<lparr>ss_code := code\<rparr>)"
  using assms by (auto simp: rel_defs)

lemma acts_done_ended: "ss_ended s \<Longrightarrow> acts_ok ids s (s\<lparr>ss_done := True\<rparr>)"
  by (auto simp: rel_defs)

lemma send_error_acts:
  assumes "\<not> ss_done s" "acts_ok ids s s3"
    and close: "\<And>s'. \<not> ss_done s3 \<Longrightarrow> s' = emitting ''close'' (end_mark (Some e) cc s3) \<Longrightarrow>
      acts_ok ids s' (run_handlers wild ids (ss_handlers s' ''close'') on_close s')"
    and code: "code \<noteq> CodeNone"
  shows "acts_ok ids s ((if ss_done s3 then s3
      else let s' = emitting ''close'' (end_mark (Some e) cc s3) in run_handlers wild ids (ss_handlers s' ''close'') on_close s')\<lparr>ss_code := code\<rparr>)"
proof (cases "ss_done s3")
  case True
  then show ?thesis using acts_code [OF assms(2,1) _ code] by simp
next
  case False
  define s' where "s' = emitting ''close'' (end_mark (Some e) cc s3)"
  define s4 where "s4 = run_handlers wild ids (ss_handlers s' ''close'') on_close s'"
  have s4: "acts_ok ids s' s4" unfolding s4_def by (rule close [OF False s'_def])
  then have "acts_ok ids s s4" using assms(2) acts_end [OF False, of "Some e" ids cc] unfolding s'_def by (blast intro: acts_trans)
  moreover have "ss_done s4" using s4 by (simp add: acts_ok_def grows_def s'_def emitting_def end_mark_def Let_def)
  ultimately show ?thesis using acts_code [OF _ assms(1) _ code] False by (simp add: Let_def flip: s'_def s4_def)
qed

lemma handlers_acts:
  "acts_ok ids s (run_acts wild ids as s)" "acts_ok ids s (run_act wild ids a s)" "acts_ok ids s (run_handlers wild ids n scs s)"
proof (induction wild ids as s and wild ids a s and wild ids n scs s rule: run_acts_run_act_run_handlers.induct)
  case (7 wild ids err d en reply on_error on_close s)
  let ?case_ok = "acts_ok ids s (run_act wild ids (ActSend err d en reply on_error on_close) s)"
  show ?case
  proof (cases "ss_done s \<or> ss_closing s")
    case True
    then show ?thesis using acts_trans [OF acts_error 7(1) [OF True refl]] by (simp add: Let_def)
  next
    case False
    define s1 where "s1 = ss_pass d en s"
    have s1: "acts_ok ids s s1" "\<not> ss_done s1" using False by (simp_all add: s1_def acts_steps, simp add: ss_pass_def)
    show ?thesis
    proof (cases err)
      case None
      have "acts_ok ids s1 (let s2 = ss_add (wi_msgsSent ids) 1 s1 in if reply then add_pending (ss_now s) s2 else s2)"
        by (auto simp: Let_def intro: acts_trans acts_add acts_pending)
      then show ?thesis using False None acts_trans [OF s1(1)] by (simp add: Let_def flip: s1_def)
    next
      case (Some e)
      show ?thesis
      proof (cases "ss_ended s1")
        case True
        then show ?thesis using False Some acts_trans [OF s1(1) acts_done_ended] by (simp add: Let_def flip: s1_def)
      next
        case nend: False
        define s2 where "s2 = emitting ''error'' (ss_add (wi_errors ids) 1 s1)"
        define s3 where "s3 = run_handlers wild ids (ss_handlers s2 ''error'') on_error s2"
        have "acts_ok ids s1 s2" unfolding s2_def by (rule acts_error)
        moreover have "acts_ok ids s2 s3" unfolding s3_def
          by (rule 7(2) [OF False refl s1_def Some nend s2_def])
        ultimately have "acts_ok ids s1 s3" by (rule acts_trans)
        then have "acts_ok ids s1 ((if ss_done s3 then s3
            else let s' = emitting ''close'' (end_mark (Some e) statusAbnormal s3)
                 in run_handlers wild ids (ss_handlers s' ''close'') on_close s')\<lparr>ss_code := Classify (Some e)\<rparr>)"
          by (rule send_error_acts [OF s1(2)]) (rule 7(3) [OF False refl s1_def Some nend s2_def s3_def], simp_all)
        moreover have "run_act wild ids (ActSend err d en reply on_error on_close) s = ((if ss_done s3 then s3
            else let s' = emitting ''close'' (end_mark (Some e) statusAbnormal s3)
                 in run_handlers wild ids (ss_handlers s' ''close'') on_close s')\<lparr>ss_code := Classify (Some e)\<rparr>)"
          unfolding run_act.simps Let_def s3_def s2_def s1_def using False Some nend [unfolded s1_def] by simp
        ultimately have "acts_ok ids s1 (run_act wild ids (ActSend err d en reply on_error on_close) s)" by simp
        then show ?thesis by (rule acts_trans [OF s1(1)])
      qed
    qed
  qed
qed (auto simp: acts_refl Let_def intro: acts_trans acts_steps)

lemma emit_acts: "name \<noteq> ''close'' \<Longrightarrow> acts_ok ids s (emit wild ids name scs s)"
  unfolding emit_def Let_def by (rule acts_trans [OF acts_steps(8) handlers_acts(3)])

lemma error_ends:
  assumes "\<not> ss_done s" "code \<noteq> CodeNone"
  shows "acts_ok ids s ((ss_end wild ids (Some e) cc on_close (emit wild ids ''error'' scs (ss_add (wi_errors ids) 1 s)))\<lparr>ss_code := code\<rparr>)"
proof -
  have "acts_ok ids s (emit wild ids ''error'' scs (ss_add (wi_errors ids) 1 s))"
    by (rule acts_trans [OF acts_add(1) emit_acts]) simp_all
  from send_error_acts [OF assms(1) this _ assms(2), of e cc wild on_close] show ?thesis
    by (cases "ss_done (emit wild ids ''error'' scs (ss_add (wi_errors ids) 1 s))")
      (simp_all add: ss_end_def emit_def [of _ _ "''close''"] handlers_acts Let_def)
qed

text \<open>What the loop records.\<close>

definition live_event :: "ws_ids \<Rightarrow> fam_event \<Rightarrow> bool" where
  "live_event ids e \<longleftrightarrow> act_event ids e \<or> e = FAdd (wi_msgsReceived ids) 1 \<or> (\<exists>d. e = FTrend (wi_msgLatency ids) d True)"

definition loop_ok :: "ws_ids \<Rightarrow> session \<Rightarrow> session \<Rightarrow> bool" where
  "loop_ok ids = grows (live_event ids)"

lemma grows_mono:
  assumes "\<And>e. P e \<Longrightarrow> Q e" "grows P s s'"
  shows "grows Q s s'"
proof -
  have "list_all P xs \<Longrightarrow> list_all Q xs" for xs using assms(1) by (simp add: list_all_iff)
  then have "\<exists>xs. ss_rec s' = ss_rec s @ xs \<and> list_all Q xs" using assms(2) unfolding grows_def by blast
  then show ?thesis unfolding grows_def using assms(2) [unfolded grows_def] by (intro conjI) blast+
qed

lemma acts_loop: "acts_ok ids s s' \<Longrightarrow> loop_ok ids s s'"
  unfolding acts_ok_def loop_ok_def using grows_mono [of "act_event ids" "live_event ids" s s'] by (auto simp: live_event_def)

lemma loop_trans [trans]: "loop_ok ids s s1 \<Longrightarrow> loop_ok ids s1 s2 \<Longrightarrow> loop_ok ids s s2"
  unfolding loop_ok_def by (rule grows_trans)

lemma loop_end:
  assumes "\<not> ss_done s"
  shows "loop_ok ids s (ss_end wild ids err cc scs s)" "ss_done (ss_end wild ids err cc scs s)"
    "err \<noteq> None \<Longrightarrow> ss_err (ss_end wild ids err cc scs s) \<noteq> None"
proof -
  let ?s = "emitting ''close'' (end_mark err cc s)"
  have "loop_ok ids s ?s" using assms Classify_none [of err]
    by (auto simp: loop_ok_def grows_def cut_short_def coded_def closes_def emitting_def end_mark_def Let_def)
  moreover have r: "acts_ok ids ?s (ss_end wild ids err cc scs s)"
    using assms by (simp add: ss_end_def emit_def Let_def handlers_acts)
  ultimately show "loop_ok ids s (ss_end wild ids err cc scs s)" using acts_loop loop_trans by blast
  show "ss_done (ss_end wild ids err cc scs s)" "err \<noteq> None \<Longrightarrow> ss_err (ss_end wild ids err cc scs s) \<noteq> None"
    using r by (auto simp: acts_ok_def grows_def emitting_def end_mark_def Let_def split: if_splits)
qed

lemma loop_code:
  assumes "loop_ok ids s s'" "ss_err s' \<noteq> None" "code \<noteq> CodeNone"
  shows "loop_ok ids s (s'\<lparr>ss_code := code\<rparr>)"
proof -
  have "closes (s'\<lparr>ss_code := code\<rparr>) = closes s'" "cut_short (s'\<lparr>ss_code := code\<rparr>) = cut_short s'"
    "coded (s'\<lparr>ss_code := code\<rparr>)" using assms(2,3) by (simp_all add: closes_def cut_short_def coded_def)
  then show ?thesis using assms(1) unfolding loop_ok_def grows_def by simp
qed

lemma readFailed_loop:
  assumes "\<not> ss_done s"
  shows "loop_ok ids s (readFailed wild ids code err scs on_close s)"
proof -
  have "loop_ok ids s ((ss_end wild ids (Some (wrapped err)) code on_close s)\<lparr>ss_code := CodeServer\<rparr>)"
    by (rule loop_code [OF loop_end(1) [OF assms] loop_end(3) [OF assms]]) (simp_all add: CodeServer_def CodeNone_def)
  moreover have "loop_ok ids s ((ss_end wild ids (Some err) statusAbnormal on_close
      (emit wild ids ''error'' scs (ss_add (wi_errors ids) 1 s)))\<lparr>ss_code := Classify (Some err)\<rparr>)"
    by (rule acts_loop [OF error_ends [OF assms Classify_some]])
  ultimately show ?thesis unfolding readFailed_def using loop_end(1) [OF assms] by (simp add: Let_def)
qed

lemma pop_loop: "loop_ok ids s (pop_pending ids t s)"
  by (auto simp: pop_pending_def ss_record_def loop_ok_def grows_def cut_short_def coded_def closes_def live_event_def split: list.split)

lemma received_loop: "loop_ok ids s (ss_add (wi_msgsReceived ids) 1 s)"
  by (auto simp: ss_add_def ss_record_def loop_ok_def grows_def cut_short_def coded_def closes_def live_event_def)

lemma fire_due_acts: "acts_ok ids s (fire_due wild ids now ts scs s)"
proof (induction wild ids now ts scs s rule: fire_due.induct)
  case (1 wild ids now scs s)
  then show ?case by (simp add: acts_refl)
next
  case (2 wild ids now t ts scs s)
  obtain as throws where sc: "(case scs of [] \<Rightarrow> Script [] False | sc # _ \<Rightarrow> sc) = Script as throws" by (rule script.exhaust)
  have "acts_ok ids s (take_timer now t s)" by (simp add: take_timer_def acts_steps)
  then have s1: "acts_ok ids s (run_acts wild ids as (take_timer now t s))" using handlers_acts(1) by (rule acts_trans)
  show ?case
  proof (cases "ss_done s")
    case True
    then show ?thesis by (simp add: acts_refl)
  next
    case False
    show ?thesis
    proof (cases throws)
      case True
      then show ?thesis using False acts_trans [OF s1 acts_steps(5)] by (simp add: sc Let_def)
    next
      case nt: False
      then show ?thesis using False acts_trans [OF s1 2(1) [OF False sc refl nt]] by (simp add: sc Let_def)
    qed
  qed
qed

definition is_message :: "loop_event \<Rightarrow> bool" where
  "is_message e = (case e of Received (WsMessage _) _ _ \<Rightarrow> True | _ \<Rightarrow> False)"

definition received :: "ws_ids \<Rightarrow> session \<Rightarrow> nat" where
  "received ids s = length (filter (\<lambda>e. e = FAdd (wi_msgsReceived ids) 1) (ss_rec s))"

definition ids_apart :: "ws_ids \<Rightarrow> bool" where
  "ids_apart ids \<longleftrightarrow> distinct [wi_connecting ids, wi_sessions ids, wi_sessionFailed ids, wi_sessionDuration ids,
     wi_msgsSent ids, wi_msgsReceived ids, wi_msgLatency ids, wi_errors ids]"

lemma acts_received:
  assumes "ids_apart ids" "acts_ok ids s s'"
  shows "received ids s' = received ids s"
proof -
  obtain xs where xs: "ss_rec s' = ss_rec s @ xs" "list_all (act_event ids) xs" using assms(2) by (auto simp: acts_ok_def grows_def)
  then have "filter (\<lambda>e. e = FAdd (wi_msgsReceived ids) 1) xs = []"
    using assms(1) by (auto simp: filter_empty_conv list_all_iff act_event_def ids_apart_def)
  then show ?thesis using xs(1) by (simp add: received_def)
qed

lemma end_received:
  assumes "ids_apart ids"
  shows "received ids (ss_end wild ids err cc scs s) = received ids s"
proof (cases "ss_done s")
  case False
  have "received ids (ss_end wild ids err cc scs s) = received ids (emitting ''close'' (end_mark err cc s))"
    using False by (intro acts_received [OF assms]) (simp add: ss_end_def emit_def Let_def handlers_acts)
  then show ?thesis by (simp add: received_def emitting_def end_mark_def Let_def)
qed (simp add: ss_end_def)

lemma loop_step_ok:
  assumes "ids_apart ids" "\<not> ss_done s" "loop_step wild ids e s = Some s'"
  shows "loop_ok ids s s'" "\<not> ss_ended s' \<Longrightarrow> received ids s' = received ids s + (if is_message e then 1 else 0)"
proof -
  have err: "acts_ok ids s s'" if "e = Received (WsReadErr c r) a b" "\<not> (c = statusNormal \<or> c = statusGoingAway)" "\<not> 0 \<le> c" "\<not> ss_closing s" for c r a b
    using assms that error_ends [OF assms(2), of "Classify (Some r)" ids wild r statusAbnormal b a]
    by (auto simp: loop_step_def ws_handle_def readFailed_def Let_def)
  have code: "received ids (s\<lparr>ss_code := c\<rparr>) = received ids s" for c s by (simp add: received_def)
  show "loop_ok ids s s'"
  proof (cases e)
    case (Received ev scs on_close)
    show ?thesis
    proof (cases ev)
      case (WsMessage t)
      have p: "loop_ok ids s (pop_pending ids t (ss_add (wi_msgsReceived ids) 1 s))"
        by (rule loop_trans [OF received_loop pop_loop])
      show ?thesis using assms(3) Received WsMessage p loop_trans [OF p acts_loop [OF emit_acts [of "''message''"]]]
        by (auto simp: loop_step_def ws_handle_def Let_def)
    next
      case (WsReadErr c r)
      then show ?thesis using assms(2,3) Received by (auto simp: loop_step_def ws_handle_def intro: readFailed_loop)
    qed
  next
    case ContextDone
    then show ?thesis using assms(3) by (auto simp: loop_step_def split: if_splits intro!: acts_loop acts_done_ended)
  qed (use assms in \<open>auto simp: loop_step_def fireTimers_def split: option.splits if_splits
        intro!: acts_loop acts_steps fire_due_acts loop_end\<close>)
  assume alive: "\<not> ss_ended s'"
  show "received ids s' = received ids s + (if is_message e then 1 else 0)"
  proof (cases e)
    case (Received ev scs on_close)
    show ?thesis
    proof (cases ev)
      case (WsMessage t)
      have "loop_ok ids s s'" by fact
      then have "\<not> ss_ended s" using alive by (auto simp: loop_ok_def grows_def)
      then have r: "received ids (pop_pending ids t (ss_add (wi_msgsReceived ids) 1 s)) = Suc (received ids s)"
        by (simp add: received_def pop_pending_def ss_add_def ss_record_def split: list.split)
      then show ?thesis using assms(3) Received WsMessage acts_received [OF assms(1) emit_acts [of "''message''"]]
        by (auto simp: loop_step_def ws_handle_def Let_def is_message_def split: if_splits)
    next
      case (WsReadErr c r)
      then show ?thesis
        using assms(3) Received err [OF Received [unfolded WsReadErr]] acts_received [OF assms(1), of s s']
        by (auto simp: loop_step_def ws_handle_def readFailed_def is_message_def end_received [OF assms(1)] code split: if_splits)
    qed
  qed (use assms acts_received [OF assms(1) acts_steps(1)] acts_received [OF assms(1) fire_due_acts] end_received [OF assms(1)] in
      \<open>auto simp: loop_step_def is_message_def fireTimers_def received_def split: option.splits if_splits\<close>)
qed

lemma ws_loop_ok:
  assumes "ids_apart ids" "ws_loop wild ids es s = Some s'"
  shows "loop_ok ids s s' \<and> ss_done s' \<and> (\<not> ss_ended s' \<longrightarrow> received ids s' = received ids s + length (filter is_message es))"
  using assms(2)
proof (induction es arbitrary: s)
  case Nil
  then show ?case by (auto simp: loop_ok_def grows_refl split: if_splits)
next
  case (Cons e es)
  then have nd: "\<not> ss_done s" by auto
  with Cons.prems obtain s1 where s1: "loop_step wild ids e s = Some s1" "ws_loop wild ids es s1 = Some s'"
    by (auto split: option.splits)
  note st = loop_step_ok [OF assms(1) nd s1(1)] and ih = Cons.IH [OF s1(2)]
  have "\<not> ss_ended s' \<Longrightarrow> \<not> ss_ended s1" using ih by (auto simp: loop_ok_def grows_def)
  then show ?case using st ih loop_trans by (auto split: if_splits)
qed

section \<open>What a session records\<close>

fun trend_samples :: "nat \<Rightarrow> fam_event \<Rightarrow> (duration \<times> bool) list" where
  "trend_samples i (FTrend j d ok) = (if j = i then [(d, ok)] else [])"
| "trend_samples i _ = []"

definition samples :: "(fam_event \<Rightarrow> 'a list) \<Rightarrow> session \<Rightarrow> 'a list" where
  "samples g s = concat (map g (ss_rec s))"

lemma live_sample:
  assumes "ids_apart ids" "live_event ids e"
  shows "fam_rates (wi_sessionFailed ids) e = [] \<and> trend_samples (wi_sessionDuration ids) e = [] \<and>
    trend_samples (wi_connecting ids) e = [] \<and> fam_adds (wi_sessions ids) e = []"
proof -
  have n: "wi_msgLatency ids \<noteq> wi_sessionDuration ids" "wi_msgLatency ids \<noteq> wi_connecting ids" "wi_msgsSent ids \<noteq> wi_sessions ids"
    "wi_msgsReceived ids \<noteq> wi_sessions ids" "wi_errors ids \<noteq> wi_sessions ids"
    using assms(1) by (auto simp: ids_apart_def)
  consider "e = FAdd (wi_msgsSent ids) 1" | "e = FAdd (wi_errors ids) 1" | "e = FAdd (wi_msgsReceived ids) 1"
    | d where "e = FTrend (wi_msgLatency ids) d True" using assms(2) by (auto simp: live_event_def act_event_def)
  then show ?thesis by cases (simp_all add: n)
qed

lemma live_samples:
  assumes "ids_apart ids" "list_all (live_event ids) xs"
  shows "concat (map (fam_rates (wi_sessionFailed ids)) xs) = []" "concat (map (trend_samples (wi_sessionDuration ids)) xs) = []"
    "concat (map (trend_samples (wi_connecting ids)) xs) = []" "concat (map (fam_adds (wi_sessions ids)) xs) = []"
  using live_sample [OF assms(1)] assms(2) by (simp_all add: list_all_iff)

lemma loop_samples:
  assumes "ids_apart ids" "loop_ok ids s s'"
  shows "samples (fam_rates (wi_sessionFailed ids)) s' = samples (fam_rates (wi_sessionFailed ids)) s"
    "samples (trend_samples (wi_sessionDuration ids)) s' = samples (trend_samples (wi_sessionDuration ids)) s"
    "samples (trend_samples (wi_connecting ids)) s' = samples (trend_samples (wi_connecting ids)) s"
    "samples (fam_adds (wi_sessions ids)) s' = samples (fam_adds (wi_sessions ids)) s"
proof -
  obtain xs where "ss_rec s' = ss_rec s @ xs" "list_all (live_event ids) xs" using assms(2) by (auto simp: loop_ok_def grows_def)
  then show "samples (fam_rates (wi_sessionFailed ids)) s' = samples (fam_rates (wi_sessionFailed ids)) s"
    "samples (trend_samples (wi_sessionDuration ids)) s' = samples (trend_samples (wi_sessionDuration ids)) s"
    "samples (trend_samples (wi_connecting ids)) s' = samples (trend_samples (wi_connecting ids)) s"
    "samples (fam_adds (wi_sessions ids)) s' = samples (fam_adds (wi_sessions ids)) s"
    using live_samples [OF assms(1)] by (simp_all add: samples_def)
qed

text \<open>The handshake records one session, failed when there is none.\<close>

definition dial_ok :: "dial_answer \<Rightarrow> bool" where
  "dial_ok a \<longleftrightarrow> da_Invalid a = None \<and> da_Err a = None"

definition dial_recorded :: "ws_ids \<Rightarrow> dial_answer \<Rightarrow> session \<Rightarrow> bool" where
  "dial_recorded ids a s \<longleftrightarrow> ss_rec s = (if ss_ended s then []
     else (if da_Invalid a = None then [FTrend (wi_connecting ids) (int (da_Took a)) (da_Err a = None)] else []) @
       [FAdd (wi_sessions ids) 1] @ (if dial_ok a then [] else [FRate (wi_sessionFailed ids) True]))"

lemma dial_exact:
  assumes "ws_dial ids a (new_session now False) = (ok, s)"
  shows "ok = dial_ok a" "dial_recorded ids a s" "ss_pending s = []" "ss_emitted s = []" "\<not> ss_done s" "\<not> ss_thrown s"
    "(ss_err s = None) = (ss_code s = CodeNone)" "(ss_err s = None) = dial_ok a"
  using assms
  by (auto simp: ws_dial_def new_session_def ws_protocol_record_def Record_op_def outcome_code_def ss_fail_def ss_pass_def
      recordSessionFailed_def ss_record_def dial_recorded_def dial_ok_def Let_def code_defs Classify_some [unfolded CodeNone_def] split: option.splits if_splits)


definition ws_ids_example :: ws_ids where
  "ws_ids_example = \<lparr>wi_connecting = 0, wi_sessions = 1, wi_sessionFailed = 2, wi_sessionDuration = 3, wi_msgsSent = 4,
     wi_msgsReceived = 5, wi_msgLatency = 6, wi_errors = 7\<rparr>"

definition dial_example :: dial_answer where
  "dial_example = \<lparr>da_Invalid = None, da_Status = 101, da_Err = None, da_Took = 9, da_Ends = False\<rparr>"

text \<open>The script sends a message when the socket opens; the reply throws an exception or closes the socket.\<close>

definition ws_example :: "bool \<Rightarrow> bool \<Rightarrow> session option" where
  "ws_example throw_setup throw_message =
     ws_session (\<lambda>_. 0) ws_ids_example dial_example (Script [ActOn ''open'', ActOn ''message''] throw_setup)
       [Script [ActSend None 2 False True [] []] False]
       ([Passes 5 False, Received (WsMessage 16) [Script [ActClose] throw_message] []] @
        (if throw_message then [] else [Passes 1 False, Received (WsReadErr 1000 []) [] []]))
       (new_session 0 False)"

lemmas ws_run_simps = ws_example_def ws_session_def ws_dial_def dial_example_def ws_protocol_record_def Record_op_def outcome_code_def
  new_session_def ss_pass_def ws_run_def on_event_def eventNames_def emit_def emitting_def ss_add_def ss_record_def add_pending_def
  maxPendingReplies_def loop_step_def ws_handle_def pop_pending_def closeSocket_def readFailed_def statusNormal_def ss_end_def
  end_mark_def recordSessionEnd_def recordSessionFailed_def handleThrow_def Let_def code_defs ws_ids_example_def

lemma ws_example_ends: "\<exists>s. ws_example False False = Some s \<and> \<not> ss_ended s \<and> ss_err s = None \<and> \<not> ss_thrown s"
  by (simp add: ws_run_simps)


text \<open>A handler that throws leaves a session recorded as one that lasted no time and did not fail; a setup
  function that throws leaves it counted but neither failed nor timed.\<close>

lemma throwing_handler_recorded:
  "\<exists>s. ws_example False True = Some s \<and> ss_thrown s \<and> ss_now s = 16 \<and> ss_opened s = 9 \<and>
     samples (trend_samples 3) s = [(0, True)] \<and> samples (fam_rates 2) s = [False]"
  by (simp add: ws_run_simps samples_def)

lemma throwing_setup_unrecorded:
  "\<exists>s. ws_example True False = Some s \<and> samples (fam_adds 1) s = [1] \<and> samples (fam_rates 2) s = []"
  by (simp add: ws_run_simps samples_def)

end
