(* ===== verification/Ws_Blocking.thy ===== *)
theory Ws_Blocking
  imports Ws_Session
begin

text \<open>
  WebSocket sessions in the blocking style: \<open>internal/protocols/ws/blocking.go\<close>, and the sockets an iteration
  leaves open (\<open>module.go\<close>). A blocking socket is a session without handlers whose messages the script
  pulls; what a write answers and what arrives while the script waits are arguments.
\<close>

section \<open>Sockets: blocking.go\<close>

record blocking =
  bs_s :: session
  bs_finished :: bool

text \<open>\<open>no_int\<close> stands where no number is converted: a session without handlers runs no script.\<close>

definition no_int :: "f64 \<Rightarrow> int" where "no_int _ = 0"

definition plain_error :: go_error where
  "plain_error = [\<lparr>el_is = [], el_Op = None, el_Timeout = None\<rparr>]"

definition b_finish :: "ws_ids \<Rightarrow> blocking \<Rightarrow> blocking" where
  "b_finish ids b =
     (if bs_finished b then b
      else let s = bs_s b;
               s = (if \<not> ss_done s then ss_end no_int ids None statusNormal [] s else s);
               s = (if \<not> ss_ended s then recordSessionEnd ids s else s)
           in \<lparr>bs_s = s, bs_finished = True\<rparr>)"

definition connectBlocking :: "ws_ids \<Rightarrow> dial_answer \<Rightarrow> session \<Rightarrow> blocking" where
  "connectBlocking ids a s = (case ws_dial ids a s of (ok, s1) \<Rightarrow> \<lparr>bs_s = s1, bs_finished = \<not> ok\<rparr>)"

definition b_send :: "ws_ids \<Rightarrow> go_error option \<Rightarrow> nat \<Rightarrow> bool \<Rightarrow> bool \<Rightarrow> blocking \<Rightarrow> bool \<times> blocking" where
  "b_send ids err d en reply b =
     (if bs_finished b
      then (False, b\<lparr>bs_s := ss_fail CodeClosed plain_error (ss_add (wi_errors ids) 1 (bs_s b))\<rparr>)
      else let ok = (if ss_done (bs_s b) \<or> ss_closing (bs_s b) then False else err = None);
               s = run_act no_int ids (ActSend err d en reply [] []) (bs_s b);
               b = b\<lparr>bs_s := s\<rparr>
           in (ok, if ss_done s then b_finish ids b else b))"

text \<open>What a receive gets: a message that arrived at a time, why reading failed, the end of the reader, nothing
  in time, or the end of the test.\<close>

datatype arrival_result =
    GotMessage int
  | GotError int go_error
  | GotClosed
  | TimedOut
  | TestEnded

definition b_receive :: "ws_ids \<Rightarrow> nat \<Rightarrow> bool \<Rightarrow> arrival_result \<Rightarrow> blocking \<Rightarrow> bool \<times> blocking" where
  "b_receive ids d en got b =
     (if bs_finished b \<or> ss_done (bs_s b) then (False, b)
      else let s = ss_pass d en (bs_s b) in
        (case got of
           GotClosed \<Rightarrow> (False, b_finish ids (b\<lparr>bs_s := ss_end no_int ids None statusAbnormal [] s\<rparr>))
         | GotError code err \<Rightarrow> (False, b_finish ids (b\<lparr>bs_s := readFailed no_int ids code err [] [] s\<rparr>))
         | GotMessage arrived \<Rightarrow> (True, b\<lparr>bs_s := pop_pending ids arrived (ss_add (wi_msgsReceived ids) 1 s)\<rparr>)
         | TimedOut \<Rightarrow> (False, b\<lparr>bs_s := ss_fail CodeTimeout plain_error (ss_add (wi_errors ids) 1 s)\<rparr>)
         | TestEnded \<Rightarrow> (False, b\<lparr>bs_s := s\<rparr>)))"

text \<open>\<open>failure\<close> is the failed read that ends the draining of a close, if the reader stops with one.\<close>

definition b_close :: "ws_ids \<Rightarrow> int \<Rightarrow> nat \<Rightarrow> bool \<Rightarrow> (int \<times> go_error) option \<Rightarrow> blocking \<Rightarrow> blocking" where
  "b_close ids code d en failure b =
     (if bs_finished b then b
      else let s = bs_s b;
               s = (if \<not> ss_done s
                    then let s = ss_pass d en (closeSocket s);
                             s = (case failure of Some (c, err) \<Rightarrow> readFailed no_int ids c err [] [] s | None \<Rightarrow> s)
                         in ss_end no_int ids None code [] s
                    else s)
           in b_finish ids (b\<lparr>bs_s := s\<rparr>))"

definition defaultReceiveTimeout :: duration where "defaultReceiveTimeout = 30 * second"

text \<open>How long a receive waits: the default, what the script asks for, or a \<open>TypeError\<close>.\<close>

definition receive_timeout :: "(f64 \<Rightarrow> int) \<Rightarrow> jsv \<Rightarrow> f64 \<Rightarrow> js_throw + duration" where
  "receive_timeout wild arg ms =
     (if \<not> isSet arg then Inr defaultReceiveTimeout
      else if f64_lt ms (Fin 0) \<or> ms = NaN
      then Inl (TypeError ''socket.receive: the timeout must be a number of milliseconds, 0 or more'')
      else Inr (int64_of_f64 wild (f64_mul ms (f64_of_int millisecond))))"

text \<open>The socket's fields (\<open>update\<close>).\<close>

record socket_fields =
  sf_result :: ws_result
  sf_closed :: bool

definition b_update :: "(go_error \<Rightarrow> string) \<Rightarrow> string \<Rightarrow> blocking \<Rightarrow> socket_fields" where
  "b_update text url b = \<lparr>sf_result = session_result text url (bs_s b), sf_closed = (if bs_finished b then True else ss_done (bs_s b))\<rparr>"

section \<open>The sockets of an iteration: module.go\<close>

text \<open>Each socket is closed with what its close handshake answers.\<close>

definition closeOpen :: "ws_ids \<Rightarrow> (nat \<times> bool \<times> (int \<times> go_error) option) list \<Rightarrow> blocking list \<Rightarrow> blocking list" where
  "closeOpen ids answers bs = map (\<lambda>((d, en, failure), b). b_close ids statusNormal d en failure b) (zip answers bs)"

definition ws_EndIteration :: "ws_ids \<Rightarrow> (nat \<times> bool \<times> (int \<times> go_error) option) list \<Rightarrow> blocking list \<Rightarrow> bool \<times> blocking list" where
  "ws_EndIteration ids answers bs = (list_ex (\<lambda>b. \<not> bs_finished b) bs, closeOpen ids answers bs)"

section \<open>What a socket records\<close>

text \<open>The script's calls on a socket.\<close>

datatype socket_call =
    CallSend "go_error option" nat bool bool
  | CallReceive nat bool arrival_result
  | CallClose int nat bool "(int \<times> go_error) option"

fun socket_step :: "ws_ids \<Rightarrow> socket_call \<Rightarrow> blocking \<Rightarrow> bool \<times> blocking" where
  "socket_step ids (CallSend err d en reply) b = (False, snd (b_send ids err d en reply b))"
| "socket_step ids (CallReceive d en got) b = b_receive ids d en got b"
| "socket_step ids (CallClose code d en failure) b = (False, b_close ids code d en failure b)"

text \<open>The socket after the calls, and how many returned a message.\<close>

fun socket_run :: "ws_ids \<Rightarrow> socket_call list \<Rightarrow> blocking \<Rightarrow> nat \<times> blocking" where
  "socket_run ids [] b = (0, b)"
| "socket_run ids (c # cs) b = (case socket_step ids c b of
     (msg, b') \<Rightarrow> (case socket_run ids cs b' of (n, b2) \<Rightarrow> (if msg then Suc n else n, b2)))"

text \<open>A socket that is not finished is not done, and has recorded no end; a finished one has, unless the test
  had ended.\<close>

definition recorded_end :: "ws_ids \<Rightarrow> session \<Rightarrow> (duration \<times> bool) option \<Rightarrow> bool" where
  "recorded_end ids s e \<longleftrightarrow>
     samples (fam_rates (wi_sessionFailed ids)) s = (case e of None \<Rightarrow> [] | Some (_, ok) \<Rightarrow> [\<not> ok]) \<and>
     samples (trend_samples (wi_sessionDuration ids)) s = (case e of None \<Rightarrow> [] | Some x \<Rightarrow> [x])"

definition socket_ok :: "ws_ids \<Rightarrow> bool \<Rightarrow> blocking \<Rightarrow> bool" where
  "socket_ok ids ok b \<longleftrightarrow> length (ss_pending (bs_s b)) \<le> maxPendingReplies \<and> \<not> ss_thrown (bs_s b) \<and> coded (bs_s b) \<and>
     (if \<not> ok then bs_finished b \<and> samples (trend_samples (wi_sessionDuration ids)) (bs_s b) = [] \<and>
          (\<not> ss_ended (bs_s b) \<longrightarrow> samples (fam_rates (wi_sessionFailed ids)) (bs_s b) = [True])
      else if bs_finished b
      then ss_done (bs_s b) \<and> (\<exists>e. recorded_end ids (bs_s b) e \<and>
        (case e of None \<Rightarrow> ss_ended (bs_s b) | Some (d, _) \<Rightarrow> d = ss_duration (bs_s b)))
      else \<not> ss_done (bs_s b) \<and> recorded_end ids (bs_s b) None)"

lemma emit_quiet [simp]: "emit wild ids name [] s = emitting name s"
  by (cases "ss_handlers (emitting name s) name") (simp_all add: emit_def Let_def)

lemma quiet_thrown [simp]:
  "ss_thrown (ss_end wild ids err cc [] s) = ss_thrown s" "ss_thrown (readFailed wild ids rc e [] [] s) = ss_thrown s"
  "ss_thrown (ss_add i n s) = ss_thrown s" "ss_thrown (pop_pending ids t s) = ss_thrown s" "ss_thrown (ss_pass d en s) = ss_thrown s"
  "ss_thrown (emitting name s) = ss_thrown s" "ss_thrown (ss_fail fc e s) = ss_thrown s" "ss_thrown (closeSocket s) = ss_thrown s"
  by (auto simp: ss_end_def readFailed_def ss_add_def ss_record_def pop_pending_def ss_pass_def emitting_def ss_fail_def closeSocket_def
      end_mark_def Let_def split: list.split)

lemma send_thrown [simp]: "ss_thrown (run_act wild ids (ActSend err d en reply [] []) s) = ss_thrown s"
  by (simp add: run_send Let_def add_pending_def del: run_act.simps split: option.split)

lemma fail_loop: "code \<noteq> CodeNone \<Longrightarrow> loop_ok ids s (ss_fail code e s)"
  by (auto simp: loop_ok_def grows_def ss_fail_def closes_def coded_def cut_short_def)

lemma loop_pending: "loop_ok ids s s' \<Longrightarrow> length (ss_pending s) \<le> maxPendingReplies \<Longrightarrow> coded s \<Longrightarrow>
    length (ss_pending s') \<le> maxPendingReplies \<and> coded s'"
  by (simp add: loop_ok_def grows_def)

lemma loop_recorded: "ids_apart ids \<Longrightarrow> loop_ok ids s s' \<Longrightarrow> recorded_end ids s' e = recorded_end ids s e"
  by (simp add: recorded_end_def loop_samples)

lemma finish_ok:
  assumes "ids_apart ids" "loop_ok ids (bs_s b0) (bs_s b)" "socket_ok ids True b0" "\<not> bs_finished b0" "\<not> ss_thrown (bs_s b)" "\<not> bs_finished b"
  shows "socket_ok ids True (b_finish ids b) \<and> bs_finished (b_finish ids b) \<and> received ids (bs_s (b_finish ids b)) = received ids (bs_s b) \<and>
    ss_ended (bs_s (b_finish ids b)) = ss_ended (bs_s b)"
proof -
  define s where "s = (if \<not> ss_done (bs_s b) then ss_end no_int ids None statusNormal [] (bs_s b) else bs_s b)"
  have b: "b_finish ids b = \<lparr>bs_s = (if \<not> ss_ended s then recordSessionEnd ids s else s), bs_finished = True\<rparr>"
    using assms(6) by (simp add: b_finish_def s_def Let_def)
  have "loop_ok ids (bs_s b) s" using loop_end(1) by (simp add: s_def loop_ok_def grows_refl)
  then have l: "loop_ok ids (bs_s b0) s" by (rule loop_trans [OF assms(2)])
  have d: "ss_done s" using loop_end(2) by (simp add: s_def)
  have t: "\<not> ss_thrown s" using assms(5) by (simp add: s_def)
  have r: "received ids s = received ids (bs_s b)" by (simp add: s_def end_received [OF assms(1)])
  have e: "ss_ended s = ss_ended (bs_s b)" by (simp add: s_def ss_end_def emitting_def end_mark_def Let_def)
  have n: "recorded_end ids s None" "length (ss_pending s) \<le> maxPendingReplies" "coded s"
    using assms(3,4) l loop_recorded [OF assms(1) l] loop_pending [OF l] by (auto simp: socket_ok_def)
  show ?thesis
  proof (cases "ss_ended s")
    case True
    then show ?thesis using b d t r e n by (auto simp: socket_ok_def)
  next
    case False
    have "recorded_end ids (recordSessionEnd ids s) (Some (ss_duration s, ss_err s = None))"
      using n(1) False assms(1)
      by (simp add: recorded_end_def recordSessionEnd_def recordSessionFailed_def ss_record_def samples_def Let_def ids_apart_def)
    moreover have "ss_duration (recordSessionEnd ids s) = ss_duration s \<and> ss_done (recordSessionEnd ids s) = ss_done s \<and>
        ss_pending (recordSessionEnd ids s) = ss_pending s \<and> ss_thrown (recordSessionEnd ids s) = ss_thrown s \<and>
        coded (recordSessionEnd ids s) = coded s \<and> received ids (recordSessionEnd ids s) = received ids s \<and>
        ss_ended (recordSessionEnd ids s) = ss_ended s"
      by (simp add: recordSessionEnd_def recordSessionFailed_def ss_record_def coded_def cut_short_def received_def Let_def)
    ultimately show ?thesis using b d t r e n False
      by (auto simp: socket_ok_def intro!: exI [of _ "Some (ss_duration s, ss_err s = None)"])
  qed
qed

text \<open>A step that does not finish the socket.\<close>

lemma open_ok:
  assumes "ids_apart ids" "socket_ok ids True b" "\<not> bs_finished b" "loop_ok ids (bs_s b) s'" "\<not> ss_done s'" "\<not> ss_thrown s'"
  shows "socket_ok ids True (b\<lparr>bs_s := s'\<rparr>)"
  using assms loop_recorded [OF assms(1,4)] loop_pending [OF assms(4)] by (auto simp: socket_ok_def)

lemma ended_mono: "loop_ok ids s s' \<Longrightarrow> ss_ended s \<Longrightarrow> ss_ended s'"
  by (simp add: loop_ok_def grows_def)

lemma send_loop: "loop_ok ids s (run_act no_int ids (ActSend err d en reply [] []) s)"
  by (rule acts_loop [OF handlers_acts(2)])

lemma pass_loop: "loop_ok ids s (ss_pass d en s)"
  by (rule acts_loop [OF acts_steps(1)])

text \<open>What a call does to the socket: it stays in order, and what it receives is counted.\<close>

definition call_ok :: "ws_ids \<Rightarrow> bool \<Rightarrow> blocking \<Rightarrow> bool \<Rightarrow> blocking \<Rightarrow> bool" where
  "call_ok ids ok b msg b' \<longleftrightarrow> socket_ok ids ok b' \<and> (ss_ended (bs_s b) \<longrightarrow> ss_ended (bs_s b')) \<and>
     (\<not> ss_ended (bs_s b') \<longrightarrow> received ids (bs_s b') = received ids (bs_s b) + (if msg then 1 else 0))"

lemma finished_send:
  assumes "ids_apart ids" "socket_ok ids ok b" "bs_finished b"
  shows "call_ok ids ok b False (b\<lparr>bs_s := ss_fail CodeClosed plain_error (ss_add (wi_errors ids) 1 (bs_s b))\<rparr>)"
proof -
  let ?s = "ss_fail CodeClosed plain_error (ss_add (wi_errors ids) 1 (bs_s b))"
  have "acts_ok ids (bs_s b) (ss_add (wi_errors ids) 1 (bs_s b))" by (simp add: acts_add)
  then have l: "loop_ok ids (bs_s b) ?s" and r: "received ids (ss_add (wi_errors ids) 1 (bs_s b)) = received ids (bs_s b)"
    using loop_trans [OF acts_loop fail_loop] acts_received [OF assms(1)] by (auto simp: code_defs)
  have s: "ss_done ?s = ss_done (bs_s b)" "ss_ended ?s = ss_ended (bs_s b)" "ss_duration ?s = ss_duration (bs_s b)" "\<not> ss_thrown ?s"
    "received ids ?s = received ids (bs_s b)"
    using assms(2) r by (auto simp: ss_fail_def ss_add_def ss_record_def socket_ok_def received_def)
  show ?thesis using assms(2,3) s loop_recorded [OF assms(1) l] loop_pending [OF l] loop_samples [OF assms(1) l]
    by (auto simp: call_ok_def socket_ok_def cong: option.case_cong)
qed

lemma finish_call:
  assumes "ids_apart ids" "socket_ok ids True b" "\<not> bs_finished b" "loop_ok ids (bs_s b) s'" "\<not> ss_thrown s'"
    and "\<not> ss_ended s' \<Longrightarrow> received ids s' = received ids (bs_s b)"
  shows "call_ok ids True b False (b_finish ids (b\<lparr>bs_s := s'\<rparr>)) \<and> bs_finished (b_finish ids (b\<lparr>bs_s := s'\<rparr>))"
  using finish_ok [OF assms(1), of b "b\<lparr>bs_s := s'\<rparr>"] assms ended_mono [OF assms(4)] by (auto simp: call_ok_def)

lemma open_call:
  assumes "ids_apart ids" "socket_ok ids True b" "\<not> bs_finished b" "loop_ok ids (bs_s b) s'" "\<not> ss_done s'" "\<not> ss_thrown s'"
    and "\<not> ss_ended s' \<Longrightarrow> received ids s' = received ids (bs_s b) + (if msg then 1 else 0)"
  shows "call_ok ids True b msg (b\<lparr>bs_s := s'\<rparr>)"
  using open_ok [OF assms(1-6)] assms(7) ended_mono [OF assms(4)] by (simp add: call_ok_def)

lemma open_state:
  assumes "socket_ok ids ok b" "\<not> bs_finished b"
  shows "ok = True" "\<not> ss_done (bs_s b)" "\<not> ss_thrown (bs_s b)"
  using assms by (auto simp: socket_ok_def split: if_splits)

lemma readFailed_received:
  assumes "ids_apart ids"
  shows "received ids (readFailed wild ids code err [] [] s) = received ids s"
proof -
  have "received ids (s\<lparr>ss_code := c\<rparr>) = received ids s" for c s by (simp add: received_def)
  moreover have "received ids (emitting n (ss_add (wi_errors ids) 1 s)) = received ids s" for n
    using acts_received [OF assms acts_add(1) [of 1 ids s]] by (simp add: received_def emitting_def)
  ultimately show ?thesis by (simp add: readFailed_def end_received [OF assms] Let_def)
qed

lemma pass_received [simp]: "received ids (ss_pass d en s) = received ids s" "received ids (closeSocket s) = received ids s"
  "ss_done (ss_pass d en s) = ss_done s" "ss_done (closeSocket s) = ss_done s"
  by (simp_all add: received_def ss_pass_def closeSocket_def)

lemma send_call:
  assumes "ids_apart ids" "socket_ok ids ok b"
  shows "call_ok ids ok b False (snd (b_send ids err d en reply b))"
proof (cases "bs_finished b")
  case True
  then show ?thesis using finished_send [OF assms True] by (simp add: b_send_def)
next
  case False
  note o = open_state [OF assms(2) False]
  let ?s = "run_act no_int ids (ActSend err d en reply [] []) (bs_s b)"
  have t: "\<not> ss_thrown ?s" using o(3) by (simp del: run_act.simps)
  have r: "received ids ?s = received ids (bs_s b)" by (rule acts_received [OF assms(1) handlers_acts(2)])
  show ?thesis
    using finish_call [OF assms(1) _ False send_loop t] open_call [OF assms(1) _ False send_loop _ t, of False] assms(2) o(1) r False
    by (simp add: b_send_def Let_def del: run_act.simps)
qed

lemma receive_call:
  assumes "ids_apart ids" "socket_ok ids ok b" "b_receive ids d en got b = (msg, b')"
  shows "call_ok ids ok b msg b'"
proof (cases "bs_finished b")
  case True
  then show ?thesis using assms(2,3) by (auto simp: b_receive_def call_ok_def)
next
  case False
  note o = open_state [OF assms(2) False]
  let ?s = "ss_pass d en (bs_s b)"
  have nd: "\<not> ss_done ?s" "\<not> ss_thrown ?s" using o by simp_all
  have ok: "socket_ok ids True b" using assms(2) o(1) by simp
  note pass = pass_loop [of ids "bs_s b" d en]
  show ?thesis
  proof (cases got)
    case (GotMessage t)
    have l: "loop_ok ids (bs_s b) (pop_pending ids t (ss_add (wi_msgsReceived ids) 1 ?s))"
      by (rule loop_trans [OF pass loop_trans [OF received_loop pop_loop]])
    have nd2: "\<not> ss_done (pop_pending ids t (ss_add (wi_msgsReceived ids) 1 ?s))"
      using nd by (simp add: pop_pending_def ss_add_def ss_record_def split: list.split)
    have "\<not> ss_ended (pop_pending ids t (ss_add (wi_msgsReceived ids) 1 ?s)) \<Longrightarrow>
        received ids (pop_pending ids t (ss_add (wi_msgsReceived ids) 1 ?s)) = Suc (received ids ?s)"
      by (auto simp: received_def pop_pending_def ss_add_def ss_record_def split: list.split if_splits)
    then show ?thesis using open_call [OF assms(1) ok False l nd2, of True] nd GotMessage assms(3) False o
      by (auto simp: b_receive_def Let_def)
  next
    case (GotError c e)
    have l: "loop_ok ids (bs_s b) (readFailed no_int ids c e [] [] ?s)" by (rule loop_trans [OF pass readFailed_loop [OF nd(1)]])
    show ?thesis using finish_call [OF assms(1) ok False l] nd GotError assms(3) False o readFailed_received [OF assms(1)]
      by (auto simp: b_receive_def Let_def)
  next
    case GotClosed
    have l: "loop_ok ids (bs_s b) (ss_end no_int ids None statusAbnormal [] ?s)" by (rule loop_trans [OF pass loop_end(1) [OF nd(1)]])
    show ?thesis using finish_call [OF assms(1) ok False l] nd GotClosed assms(3) False o end_received [OF assms(1)]
      by (auto simp: b_receive_def Let_def)
  next
    case TimedOut
    let ?s' = "ss_fail CodeTimeout plain_error (ss_add (wi_errors ids) 1 ?s)"
    have a: "acts_ok ids ?s (ss_add (wi_errors ids) 1 ?s)" by (simp add: acts_add)
    have l: "loop_ok ids (bs_s b) ?s'"
      by (rule loop_trans [OF pass loop_trans [OF acts_loop [OF a] fail_loop]]) (simp add: code_defs)
    have "received ids ?s' = received ids (bs_s b)" using acts_received [OF assms(1) a] by (simp add: ss_fail_def received_def ss_pass_def)
    moreover have "\<not> ss_done ?s'" using nd by (simp add: ss_fail_def ss_add_def ss_record_def)
    ultimately show ?thesis using open_call [OF assms(1) ok False l, of False] nd TimedOut assms(3) False o
      by (auto simp: b_receive_def Let_def)
  next
    case TestEnded
    then show ?thesis using open_call [OF assms(1) ok False pass, of False] nd assms(3) False o
      by (auto simp: b_receive_def Let_def)
  qed
qed

lemma close_call:
  assumes "ids_apart ids" "socket_ok ids ok b"
  shows "call_ok ids ok b False (b_close ids code d en failure b) \<and> bs_finished (b_close ids code d en failure b)"
proof (cases "bs_finished b")
  case True
  then show ?thesis using assms(2) by (simp add: b_close_def call_ok_def)
next
  case False
  note o = open_state [OF assms(2) False]
  have ok: "socket_ok ids True b" using assms(2) o(1) by simp
  define s1 where "s1 = ss_pass d en (closeSocket (bs_s b))"
  define s2 where "s2 = (case failure of Some (c, err) \<Rightarrow> readFailed no_int ids c err [] [] s1 | None \<Rightarrow> s1)"
  define s3 where "s3 = ss_end no_int ids None code [] s2"
  have s1: "loop_ok ids (bs_s b) s1" "\<not> ss_done s1" "\<not> ss_thrown s1" "received ids s1 = received ids (bs_s b)"
    unfolding s1_def using loop_trans [OF acts_loop [OF acts_steps(3)] pass_loop] o by simp_all
  have s2: "loop_ok ids (bs_s b) s2" "\<not> ss_thrown s2" "received ids s2 = received ids (bs_s b)"
    using s1 loop_trans [OF s1(1) readFailed_loop [OF s1(2)]] readFailed_received [OF assms(1)]
    by (auto simp: s2_def split: option.split)
  have "loop_ok ids s2 s3" using loop_end(1) [of s2 ids no_int None code "[]"]
    by (cases "ss_done s2") (auto simp: s3_def ss_end_def loop_ok_def grows_refl)
  then have s3: "loop_ok ids (bs_s b) s3" "\<not> ss_thrown s3" "received ids s3 = received ids (bs_s b)"
    using s2 loop_trans [OF s2(1)] end_received [OF assms(1)] by (auto simp: s3_def)
  have "b_close ids code d en failure b = b_finish ids (b\<lparr>bs_s := s3\<rparr>)"
    unfolding b_close_def s3_def s2_def s1_def Let_def using False o(2) by simp
  then show ?thesis using finish_call [OF assms(1) ok False s3(1,2)] s3(3) o(1) by simp
qed

lemma socket_run_ok:
  assumes "ids_apart ids"
  shows "socket_ok ids ok b \<Longrightarrow> socket_run ids cs b = (n, b') \<Longrightarrow> socket_ok ids ok b' \<and> (ss_ended (bs_s b) \<longrightarrow> ss_ended (bs_s b')) \<and>
    (\<not> ss_ended (bs_s b') \<longrightarrow> received ids (bs_s b') = received ids (bs_s b) + n)"
proof (induction cs arbitrary: b n)
  case (Cons c cs)
  obtain msg b1 where c: "socket_step ids c b = (msg, b1)" by fastforce
  obtain k where r: "socket_run ids cs b1 = (k, b')" "n = (if msg then Suc k else k)" using Cons.prems(2) c by (auto split: prod.splits)
  have "call_ok ids ok b msg b1"
  proof (cases c)
    case (CallSend err d en reply)
    then show ?thesis using send_call [OF assms Cons.prems(1)] c by auto
  next
    case (CallReceive d en got)
    then show ?thesis using receive_call [OF assms Cons.prems(1)] c by simp
  next
    case (CallClose code d en failure)
    then show ?thesis using close_call [OF assms Cons.prems(1)] c by auto
  qed
  then show ?case using Cons.IH [OF _ r(1)] r(2) by (auto simp: call_ok_def)
qed simp

text \<open>What a blocking socket counts. Whatever a script does with the socket of a blocking \<open>connect\<close>, and
  whatever the connection answers, the socket is finished when the iteration has ended, and, unless the
  test has ended, it was counted as one session; failed, without a duration, when there was no
  handshake; otherwise once as failed or not and once with its duration, the same for both, however
  often it was closed; the messages counted are those the script received; the error code is empty
  exactly when there is no error; and at most 1024 sends are waiting for a reply.\<close>

theorem blocking_socket_recorded:
  assumes "ids_apart ids" "socket_run ids cs (connectBlocking ids a (new_session now False)) = (n, b)"
  shows "let b' = b_close ids statusNormal d en failure b; s = bs_s b' in
    bs_finished b' \<and> length (ss_pending s) \<le> maxPendingReplies \<and>
    (if ss_ended s then True
     else (\<exists>dur ok. samples (fam_rates (wi_sessionFailed ids)) s = [\<not> ok] \<and>
         samples (trend_samples (wi_sessionDuration ids)) s = (if dial_ok a then [(dur, ok)] else []) \<and>
         dur = ss_duration s \<and> (if dial_ok a then True else \<not> ok)) \<and>
       received ids s = n \<and> (ss_err s = None) = (ss_code s = CodeNone))"
proof -
  obtain ok sd where d: "ws_dial ids a (new_session now False) = (ok, sd)" by fastforce
  note sd = dial_exact [OF d]
  have apart: "wi_sessionDuration ids \<noteq> wi_connecting ids" "wi_msgsReceived ids \<noteq> wi_sessions ids" using assms(1) by (auto simp: ids_apart_def)
  have s0: "socket_ok ids ok \<lparr>bs_s = sd, bs_finished = \<not> ok\<rparr>" "received ids sd = 0"
    using sd apart
    by (auto simp: socket_ok_def coded_def recorded_end_def dial_recorded_def samples_def received_def split: if_splits)
  have run: "socket_run ids cs \<lparr>bs_s = sd, bs_finished = \<not> ok\<rparr> = (n, b)" using assms(2) d by (simp add: connectBlocking_def)
  define b' where "b' = b_close ids statusNormal d en failure b"
  have r: "socket_ok ids ok b" "\<not> ss_ended (bs_s b) \<longrightarrow> received ids (bs_s b) = n"
    using socket_run_ok [OF assms(1) s0(1) run] s0(2) by simp_all
  have c: "socket_ok ids ok b'" "bs_finished b'" "ss_ended (bs_s b) \<longrightarrow> ss_ended (bs_s b')"
    "\<not> ss_ended (bs_s b') \<longrightarrow> received ids (bs_s b') = received ids (bs_s b)"
    using close_call [OF assms(1) r(1), of statusNormal d en failure] unfolding b'_def [symmetric] by (auto simp: call_ok_def)
  have base: "length (ss_pending (bs_s b')) \<le> maxPendingReplies" "coded (bs_s b')" "\<not> ss_thrown (bs_s b')"
    using c(1) by (simp_all add: socket_ok_def)
  have "\<exists>dur k. samples (fam_rates (wi_sessionFailed ids)) (bs_s b') = [\<not> k] \<and>
      samples (trend_samples (wi_sessionDuration ids)) (bs_s b') = (if ok then [(dur, k)] else []) \<and>
      dur = ss_duration (bs_s b') \<and> (if ok then True else \<not> k)" if e: "\<not> ss_ended (bs_s b')"
  proof (cases ok)
    case True
    then obtain x where x: "recorded_end ids (bs_s b') x" "case x of None \<Rightarrow> ss_ended (bs_s b') | Some (d, _) \<Rightarrow> d = ss_duration (bs_s b')"
      using c(1,2) by (auto simp: socket_ok_def)
    then obtain dur k where "x = Some (dur, k)" using e by (cases x) auto
    then show ?thesis using x True by (auto simp: recorded_end_def)
  next
    case False
    then show ?thesis using c(1) e by (auto simp: socket_ok_def)
  qed
  then show ?thesis unfolding Let_def b'_def [symmetric] using c r(2) base sd(1) by (auto simp: coded_def cut_short_def)
qed

definition socket_example :: "nat \<times> blocking" where
  "socket_example = socket_run ws_ids_example
     [CallSend None 1 False True, CallReceive 4 False (GotMessage 14), CallReceive 9 False TimedOut, CallReceive 1 False (GotMessage 25)]
     (connectBlocking ws_ids_example dial_example (new_session 0 False))"

lemmas socket_simps = connectBlocking_def ws_dial_def dial_example_def ws_protocol_record_def Record_op_def outcome_code_def
  new_session_def ss_pass_def emitting_def ss_add_def ss_record_def add_pending_def maxPendingReplies_def pop_pending_def closeSocket_def
  readFailed_def statusNormal_def ss_end_def end_mark_def recordSessionEnd_def recordSessionFailed_def Let_def code_defs ws_ids_example_def
  b_send_def b_receive_def b_close_def b_finish_def ss_fail_def

lemma socket_example_value:
  "\<exists>b. socket_example = (2, b) \<and> \<not> ss_ended (bs_s (b_close ws_ids_example 1000 1 False (Some (1000, [])) b)) \<and>
     ss_duration (bs_s (b_close ws_ids_example 1000 1 False (Some (1000, [])) b)) = 16 \<and>
     ss_closeCode (bs_s (b_close ws_ids_example 1000 1 False (Some (1000, [])) b)) = 1000 \<and>
     ss_err (bs_s (b_close ws_ids_example 1000 1 False (Some (1000, [])) b)) \<noteq> None"
  by (simp add: socket_example_def socket_simps)

theorem blocking_socket_recorded_witness:
  "\<exists>b. socket_example = (2, b) \<and> (let s = bs_s (b_close ws_ids_example 1000 1 False (Some (1000, [])) b) in
     received ws_ids_example s = 2 \<and> (\<exists>ok. samples (trend_samples 3) s = [(16, ok)]))"
proof -
  obtain b where b: "socket_example = (2, b)" "\<not> ss_ended (bs_s (b_close ws_ids_example 1000 1 False (Some (1000, [])) b))"
    "ss_duration (bs_s (b_close ws_ids_example 1000 1 False (Some (1000, [])) b)) = 16"
    using socket_example_value by blast
  have "ids_apart ws_ids_example" by (simp add: ids_apart_def ws_ids_example_def)
  from blocking_socket_recorded [OF this b(1) [unfolded socket_example_def], of 1 False "Some (1000, [])"] show ?thesis
    using b by (auto simp: dial_ok_def dial_example_def Let_def statusNormal_def ws_ids_example_def)
qed

text \<open>A receive that times out makes the whole session failed, though it is closed normally afterwards.\<close>

lemma timed_out_session_fails:
  "(let s = bs_s (b_close ws_ids_example 1000 1 False (Some (1000, [])) (snd socket_example))
    in ss_closeCode s = 1000 \<and> samples (fam_rates 2) s = [True])"
  by (simp add: socket_example_def socket_simps samples_def)

text \<open>An iteration's sockets are all finished when it has ended; the script is warned when one was not.\<close>

lemma EndIteration_finishes:
  assumes "ids_apart ids" "list_all (socket_ok ids True) bs"
  shows "list_all bs_finished (snd (ws_EndIteration ids answers bs))" "fst (ws_EndIteration ids answers bs) = (\<not> list_all bs_finished bs)"
proof -
  have "bs_finished (b_close ids statusNormal d en failure b)" if "b \<in> set bs" for d en failure b
    using close_call [OF assms(1), of True b] assms(2) that by (simp add: list_all_iff)
  then show "list_all bs_finished (snd (ws_EndIteration ids answers bs))"
    by (auto simp: ws_EndIteration_def closeOpen_def list_all_iff dest: set_zip_rightD)
  show "fst (ws_EndIteration ids answers bs) = (\<not> list_all bs_finished bs)"
    by (simp add: ws_EndIteration_def list_ex_iff list_all_iff)
qed

end
