(* ===== verification/Graphql.thy ===== *)
theory Graphql
  imports Protocol_Record Script_Http Config_Options
begin

text \<open>
  GraphQL operations: \<open>internal/protocols/graphql/module.go\<close> and \<open>convert.go\<close>. An operation is an HTTP POST
  whose answer is judged. \<open>JSON.stringify\<close>, \<open>JSON.parse\<close>, the decoding of the response into the two fields
  the module reads, and the network are arguments.
\<close>

section \<open>Metrics and clients\<close>

definition gql_metrics :: "fdef list" where
  "gql_metrics = [\<lparr>d_Name = ''graphql_req_duration'', d_Kind = Trend\<rparr>, \<lparr>d_Name = ''graphql_reqs'', d_Kind = Counter\<rparr>,
     \<lparr>d_Name = ''graphql_req_failed'', d_Kind = Rate\<rparr>, \<lparr>d_Name = ''graphql_errors'', d_Kind = Counter\<rparr>]"

record gql_run =
  gq_ops :: op_families
  gq_errors :: nat

definition gql_new_run :: "families option \<Rightarrow> string + gql_run" where
  "gql_new_run fams = (case FamilyIDs fams (map d_Name gql_metrics) of
       Inl e \<Rightarrow> Inl e
     | Inr ids \<Rightarrow> Inr \<lparr>gq_ops = \<lparr>ff_Duration = Some (ids ! 0), ff_Count = Some (ids ! 1), ff_Failed = Some (ids ! 2)\<rparr>, gq_errors = ids ! 3\<rparr>)"

section \<open>Requests: convert.go\<close>

definition gql_headersFrom :: "jsv \<Rightarrow> url_values option \<Rightarrow> url_values" where
  "gql_headersFrom params defaults =
     (let h = (case defaults of None \<Rightarrow> [] | Some d \<Rightarrow> d);
          hv = js_get params ''headers''
      in if \<not> isSet params then h else if \<not> isSet hv then h else headers_loop (js_props hv) h)"

text \<open>The object that is serialized: its properties in order.\<close>

definition gql_object :: "jsv \<Rightarrow> jsv \<Rightarrow> (string \<times> jsv) list" where
  "gql_object document params =
     [(''query'', js_string (js_text document))] @
     (if isSet params
      then (let v = js_get params ''variables''; op = js_get params ''operationName''
            in (if isSet v then [(''variables'', v)] else []) @ (if isSet op then [(''operationName'', js_string (js_text op))] else []))
      else [])"

definition requestBody :: "((string \<times> jsv) list \<Rightarrow> go_error + string) \<Rightarrow> jsv \<Rightarrow> jsv \<Rightarrow> go_error + string" where
  "requestBody stringify document params = (case stringify (gql_object document params) of
       Inl e \<Rightarrow> Inl (\<lparr>el_is = [], el_Op = None, el_Timeout = None\<rparr> # e)
     | Inr s \<Rightarrow> Inr s)"

text \<open>The timeout of an operation, 0 when unset; \<open>num\<close> is the value as a number.\<close>

definition gql_timeout :: "(f64 \<Rightarrow> int) \<Rightarrow> (jsv \<Rightarrow> f64) \<Rightarrow> jsv \<Rightarrow> js_throw + duration" where
  "gql_timeout wild num params =
     (let v = js_get params ''timeout''
      in if \<not> isSet params then Inr 0
         else if \<not> isSet v then Inr 0
         else if js_isString v
         then (case ParseDuration (js_text v) of
             Some d \<Rightarrow> if d \<le> 0 then Inl (TypeError ''graphql: timeout must be a positive duration'') else Inr d
           | None \<Rightarrow> Inl (TypeError ''graphql: timeout must be a positive duration''))
         else let ms = num v
           in if f64_le ms (Fin 0) \<or> ms = NaN
              then Inl (TypeError ''graphql: timeout must be a positive number of milliseconds or a duration such as 2s'')
              else Inr (int64_of_f64 wild (f64_mul ms (f64_of_int millisecond))))"

section \<open>Judging a response: module.go\<close>

text \<open>The part of a response the module reads: whether it has data, and its errors' messages.\<close>

record gql_response =
  gr_Data :: bool
  gr_Errors :: "string list option"

definition gql_nothing :: gql_response where
  "gql_nothing = \<lparr>gr_Data = False, gr_Errors = None\<rparr>"

text \<open>What an error says.\<close>

datatype gql_error =
    TransportError string
  | HTTPStatus int
  | NotGraphQL
  | GraphQLError string nat
  | Unserializable
  | NotBuilt string

record gql_outcome =
  go_Duration :: duration
  go_Err :: "gql_error option"
  go_Code :: string
  go_Sent :: bool

definition gr_list :: "gql_response \<Rightarrow> string list" where
  "gr_list g = (case gr_Errors g of None \<Rightarrow> [] | Some es \<Rightarrow> es)"

text \<open>\<open>decode\<close> is \<open>json.Unmarshal\<close>: whether it failed, and what it had read.\<close>

definition judge :: "(string option \<Rightarrow> bool \<times> gql_response) \<Rightarrow> hresult \<Rightarrow> gql_outcome \<times> gql_response" where
  "judge decode hres =
     (let out = \<lparr>go_Duration = rs_Duration hres, go_Err = map_option TransportError (rs_Err hres), go_Code = CodeNone, go_Sent = True\<rparr>;
          (failed, g) = decode (rs_Body hres);
          (out, gql) =
            (if rs_Err hres \<noteq> None then (out, gql_nothing)
             else if rs_Status hres < 200 \<or> 300 \<le> rs_Status hres
             then (out\<lparr>go_Code := CodeServer, go_Err := Some (HTTPStatus (rs_Status hres))\<rparr>, g)
             else if failed \<or> (\<not> gr_Data g \<and> gr_Errors g = None)
             then (out\<lparr>go_Code := CodeProtocol, go_Err := Some NotGraphQL\<rparr>, g)
             else (out, g))
      in if gr_list gql \<noteq> [] \<and> go_Err out = None
         then (out\<lparr>go_Code := CodeServer, go_Err := Some (GraphQLError (hd (gr_list gql)) (length (gr_list gql) - 1))\<rparr>, gql)
         else (out, gql))"

text \<open>A result: \<open>gs_headers\<close> is none without a response; \<open>gs_parses\<close> is whether reading \<open>data\<close> and \<open>errors\<close>
  parses the body.\<close>

record gql_result =
  gs_error :: "gql_error option"
  gs_error_code :: string
  gs_ok :: bool
  gs_proto :: string
  gs_headers :: "url_values option"
  gs_status :: int
  gs_http_ok :: bool
  gs_duration :: duration
  gs_body :: "string option"
  gs_parses :: bool

text \<open>\<open>errs\<close> is the Go error behind an outcome, for its code.\<close>

definition gql_finish :: "(gql_error \<Rightarrow> go_error) \<Rightarrow> gql_run \<Rightarrow> vu_context \<Rightarrow> gql_outcome \<Rightarrow> hresult option \<Rightarrow> gql_response option \<Rightarrow>
    gql_result \<times> fam_event list" where
  "gql_finish errs run vu out hres gql =
     (case Record_op vu (gq_ops run) \<lparr>oc_Duration = go_Duration out, oc_Err = map_option errs (go_Err out), oc_Code = go_Code out, oc_Sent = go_Sent out\<rparr> of
        (code, es) \<Rightarrow>
          (let hasErrors = (case gql of None \<Rightarrow> False | Some g \<Rightarrow> gr_list g \<noteq> []);
               more = (if hasErrors \<and> cx_Recorder vu \<and> cx_Context vu = Some False then [FAdd (gq_errors run) 1] else [])
           in (\<lparr>gs_error = go_Err out, gs_error_code = code, gs_ok = (code = CodeNone),
                gs_proto = (case hres of None \<Rightarrow> [] | Some r \<Rightarrow> rs_Proto r),
                gs_headers = (case hres of None \<Rightarrow> None | Some r \<Rightarrow> rs_Header r),
                gs_status = (case hres of None \<Rightarrow> 0 | Some r \<Rightarrow> rs_Status r),
                gs_http_ok = (case hres of None \<Rightarrow> False | Some r \<Rightarrow> rs_Err r = None \<and> 200 \<le> rs_Status r \<and> rs_Status r < 300),
                gs_duration = go_Duration out,
                gs_body = (case hres of None \<Rightarrow> None | Some r \<Rightarrow> rs_Body r),
                gs_parses = (case gql of None \<Rightarrow> False | Some g \<Rightarrow> if gr_Data g then True else gr_Errors g \<noteq> None)\<rparr>, es @ more)))"

section \<open>Operations: module.go\<close>

definition gql_errInit :: string where
  "gql_errInit = ''graphql requests are not allowed in the script''@ [CHR 0x27] @ ''s top-level code; make them inside the default function''"

text \<open>The network of an operation: what \<open>JSON.stringify\<close> and \<open>http.NewRequest\<close> answer, what \<open>Client.Do\<close> answers
  within a timeout, how long it takes; and how a response body decodes.\<close>

record gql_world =
  gw_stringify :: "(string \<times> jsv) list \<Rightarrow> go_error + string"
  gw_num :: "jsv \<Rightarrow> f64"
  gw_wild :: "f64 \<Rightarrow> int"
  gw_build :: "hreq \<Rightarrow> string option"
  gw_send :: "duration \<Rightarrow> hreq \<Rightarrow> string + hresponse"
  gw_took :: duration
  gw_decode :: "string option \<Rightarrow> bool \<times> gql_response"
  gw_errs :: "gql_error \<Rightarrow> go_error"

definition gql_request :: "jsv \<Rightarrow> jsv \<Rightarrow> url_values option \<Rightarrow> string \<Rightarrow> hreq" where
  "gql_request url params defaults body =
     (let h = gql_headersFrom params defaults;
          h = (if header_Get h ''Content-Type'' = [] then header_Set h ''Content-Type'' ''application/json'' else h);
          h = (if header_Get h ''Accept'' = [] then header_Set h ''Accept'' ''application/graphql-response+json, application/json'' else h)
      in \<lparr>hq_Method = ''POST'', hq_URL = js_text url, hq_Body = body, hq_Header = Some h, hq_KeepBody = True\<rparr>)"

definition operation :: "gql_world \<Rightarrow> gql_run \<Rightarrow> vu_context \<Rightarrow> string \<Rightarrow> jsv \<Rightarrow> jsv \<Rightarrow> jsv \<Rightarrow> url_values option \<Rightarrow>
    js_throw + gql_result \<times> fam_event list" where
  "operation w run vu kind url document params defaults =
     (if cx_Context vu = None then Inl (GoError gql_errInit)
      else if \<not> isSet url then Inl (TypeError (''graphql.'' @ kind @ '': an endpoint URL is required''))
      else if \<not> isSet document then Inl (TypeError (''graphql.'' @ kind @ '': a GraphQL document is required''))
      else (case requestBody (gw_stringify w) document params of
          Inl e \<Rightarrow> Inr (gql_finish (\<lambda>_. e) run vu \<lparr>go_Duration = 0, go_Err = Some Unserializable, go_Code = CodeNone, go_Sent = False\<rparr> None None)
        | Inr body \<Rightarrow> (case gql_timeout (gw_wild w) (gw_num w) params of
              Inl t \<Rightarrow> Inl t
            | Inr t \<Rightarrow>
                (let (hres, sent) = Send (gw_build w) (gw_send w t) (gw_took w) (gql_request url params defaults body)
                 in if \<not> sent
                    then Inr (gql_finish (gw_errs w) run vu
                           \<lparr>go_Duration = 0, go_Err = map_option NotBuilt (rs_Err hres), go_Code = CodeNone, go_Sent = False\<rparr> None None)
                    else case judge (gw_decode w) hres of
                           (out, gql) \<Rightarrow> Inr (gql_finish (gw_errs w) run vu out (Some hres) (Some gql))))))"

section \<open>What an operation says and counts\<close>

text \<open>A GraphQL response that answers the operation: 2xx, read to the end, JSON with data or errors.\<close>

definition answers :: "gql_world \<Rightarrow> hresult \<Rightarrow> bool" where
  "answers w r \<longleftrightarrow> rs_Err r = None \<and> 200 \<le> rs_Status r \<and> rs_Status r < 300 \<and>
     (case gw_decode w (rs_Body r) of (failed, g) \<Rightarrow> \<not> failed \<and> (if gr_Data g then True else gr_Errors g \<noteq> None))"

definition gql_errors :: "gql_world \<Rightarrow> hresult \<Rightarrow> string list" where
  "gql_errors w r = (if rs_Err r \<noteq> None then [] else gr_list (snd (gw_decode w (rs_Body r))))"

lemma judge_exact:
  assumes "judge (gw_decode w) r = (out, g)" 
  shows "go_Sent out \<and> go_Duration out = rs_Duration r \<and> gr_list g = gql_errors w r \<and>
     (go_Err out = None \<longleftrightarrow> answers w r \<and> gql_errors w r = []) \<and>
     go_Code out = (if rs_Err r \<noteq> None then CodeNone else if answers w r \<and> gql_errors w r = [] then CodeNone
        else if rs_Status r < 200 \<or> 300 \<le> rs_Status r then CodeServer
        else if answers w r then CodeServer else CodeProtocol)"
proof -
  obtain failed g0 where d: "gw_decode w (rs_Body r) = (failed, g0)" by fastforce
  have nl: "gr_list gql_nothing = []" by (simp add: gql_nothing_def gr_list_def)
  have e: "gql_errors w r = (if rs_Err r \<noteq> None then [] else gr_list g0)" by (simp add: gql_errors_def d)
  have an: "answers w r \<longleftrightarrow> rs_Err r = None \<and> 200 \<le> rs_Status r \<and> rs_Status r < 300 \<and> \<not> failed \<and> (gr_Data g0 \<or> gr_Errors g0 \<noteq> None)"
    by (auto simp: answers_def d)
  show ?thesis
  proof (cases "rs_Err r")
    case (Some x)
    then show ?thesis using assms by (auto simp: judge_def d nl e an Let_def)
  next
    case None
    then show ?thesis using assms unfolding e an 
      by (cases "rs_Status r < 200 \<or> 300 \<le> rs_Status r"; cases "failed \<or> \<not> gr_Data g0 \<and> gr_Errors g0 = None"; cases "gr_list g0 = []")
        (auto simp: judge_def d Let_def)
  qed
qed

text \<open>The HTTP answer of an operation; none when it was never sent.\<close>

definition gql_answer :: "gql_world \<Rightarrow> jsv \<Rightarrow> jsv \<Rightarrow> jsv \<Rightarrow> url_values option \<Rightarrow> hresult option" where
  "gql_answer w url document params defaults = (case requestBody (gw_stringify w) document params of
       Inl _ \<Rightarrow> None
     | Inr body \<Rightarrow> (case gql_timeout (gw_wild w) (gw_num w) params of
         Inl _ \<Rightarrow> None
       | Inr t \<Rightarrow> (case Send (gw_build w) (gw_send w t) (gw_took w) (gql_request url params defaults body) of
             (r, sent) \<Rightarrow> if sent then Some r else None)))"

lemma Send_unsent: "Send build send took r = (res, False) \<Longrightarrow> rs_Err res \<noteq> None"
  by (auto simp: Send_def Let_def split: option.splits sum.splits prod.splits if_splits)

definition live_vu :: vu_context where
  "live_vu = \<lparr>cx_Context = Some False, cx_Recorder = True\<rparr>"

lemma finish_live:
  assumes "gq_ops run = \<lparr>ff_Duration = Some d, ff_Count = Some c, ff_Failed = Some f\<rparr>"
    and "gql_finish errs run live_vu out hres gql = (res, es)" "go_Code out \<noteq> CodeNone \<longrightarrow> go_Err out \<noteq> None"
  shows "gs_ok res = (go_Err out = None) \<and> gs_error res = go_Err out \<and>
    (gs_error_code res = CodeNone) = gs_ok res \<and> (\<not> go_Sent out \<and> go_Err out \<noteq> None \<and> go_Code out = CodeNone \<longrightarrow> gs_error_code res = CodeInvalid) \<and>
    es = (if go_Sent out then [FTrend d (go_Duration out) (gs_ok res)] else []) @ [FAdd c 1, FRate f (\<not> gs_ok res)] @
      (case gql of None \<Rightarrow> [] | Some g \<Rightarrow> if gr_list g \<noteq> [] then [FAdd (gq_errors run) 1] else [])"
proof -
  have cd: "CodeInvalid \<noteq> CodeNone" by (simp add: code_defs)
  show ?thesis
    using assms Classify_none [of "map_option errs (go_Err out)"] cd
    by (cases "go_Err out"; cases "go_Code out = CodeNone"; cases "go_Sent out"; cases gql)
      (auto simp: gql_finish_def Record_op_def outcome_code_def live_vu_def Let_def)
qed

text \<open>How a GraphQL operation is judged and counted. An operation of an iteration that does not throw counts
  once. Never sent, it is invalid, failed, and has no duration. Sent, its result is \<open>ok\<close> exactly when the
  answer was read to the end with a 2xx status and is JSON with data or errors, and has no errors;
  \<open>http_ok\<close> whenever the transport worked and the status is 2xx, so every \<open>ok\<close> result is \<open>http_ok\<close>; it has
  an error and an error code exactly when it is not \<open>ok\<close>; it is failed, and its duration a failed one,
  exactly then; and it counts once in \<open>graphql_errors\<close> exactly when it carries GraphQL errors.\<close>

theorem graphql_judged:
  assumes "operation w run live_vu kind url document params defaults = Inr (res, es)"
    and "gq_ops run = \<lparr>ff_Duration = Some d, ff_Count = Some c, ff_Failed = Some f\<rparr>"
  shows "(gs_error res = None) = gs_ok res \<and> (gs_error_code res = CodeNone) = gs_ok res \<and>
    (case gql_answer w url document params defaults of
       None \<Rightarrow> \<not> gs_ok res \<and> \<not> gs_http_ok res \<and> gs_error_code res = CodeInvalid \<and> es = [FAdd c 1, FRate f True]
     | Some r \<Rightarrow> gs_ok res = (answers w r \<and> gql_errors w r = []) \<and>
         gs_http_ok res = (rs_Err r = None \<and> 200 \<le> rs_Status r \<and> rs_Status r < 300) \<and> (gs_ok res \<longrightarrow> gs_http_ok res) \<and>
         gs_status res = rs_Status r \<and> gs_body res = rs_Body r \<and>
         es = [FTrend d (rs_Duration r) (gs_ok res), FAdd c 1, FRate f (\<not> gs_ok res)] @
           (if gql_errors w r \<noteq> [] then [FAdd (gq_errors run) 1] else []))"
proof -
  have op: "isSet url" "isSet document" using assms(1) by (auto simp: operation_def live_vu_def split: if_splits)
  show ?thesis
  proof (cases "requestBody (gw_stringify w) document params")
    case (Inl e)
    then have "gql_finish (\<lambda>_. e) run live_vu \<lparr>go_Duration = 0, go_Err = Some Unserializable, go_Code = CodeNone, go_Sent = False\<rparr> None None = (res, es)"
      using assms(1) op by (simp add: operation_def live_vu_def)
    from finish_live [OF assms(2) this] this show ?thesis using Inl
      by (auto simp: gql_answer_def gql_finish_def split: prod.splits)
  next
    case (Inr body)
    obtain t where t: "gql_timeout (gw_wild w) (gw_num w) params = Inr t"
      using assms(1) op Inr by (auto simp: operation_def live_vu_def split: sum.splits)
    obtain r sent where s: "Send (gw_build w) (gw_send w t) (gw_took w) (gql_request url params defaults body) = (r, sent)" by fastforce
    show ?thesis
    proof (cases sent)
      case False
      then have f: "gql_finish (gw_errs w) run live_vu
          \<lparr>go_Duration = 0, go_Err = map_option NotBuilt (rs_Err r), go_Code = CodeNone, go_Sent = False\<rparr> None None = (res, es)"
        using assms(1) op Inr t s by (simp add: operation_def live_vu_def)
      have "Send (gw_build w) (gw_send w t) (gw_took w) (gql_request url params defaults body) = (r, False)" using s False by simp
      then have "rs_Err r \<noteq> None" by (rule Send_unsent)
      with finish_live [OF assms(2) f] f show ?thesis using Inr t s False
        by (auto simp: gql_answer_def gql_finish_def split: prod.splits)
    next
      case True
      obtain out g where j: "judge (gw_decode w) r = (out, g)" by fastforce
      have f: "gql_finish (gw_errs w) run live_vu out (Some r) (Some g) = (res, es)"
        using assms(1) op Inr t s True j by (simp add: operation_def live_vu_def)
      have a: "gql_answer w url document params defaults = Some r" using Inr t s True by (simp add: gql_answer_def)
      note je = judge_exact [OF j]
      have h: "gs_http_ok res = (rs_Err r = None \<and> 200 \<le> rs_Status r \<and> rs_Status r < 300)" "gs_status res = rs_Status r" "gs_body res = rs_Body r"
        using f by (auto simp: gql_finish_def split: prod.splits)
      have "go_Code out \<noteq> CodeNone \<longrightarrow> go_Err out \<noteq> None" using je by (auto split: if_splits)
      note fl = finish_live [OF assms(2) f this]
      have "answers w r \<Longrightarrow> gs_http_ok res" using h by (simp add: answers_def)
      then show ?thesis unfolding a option.case using fl je h by auto
    qed
  qed
qed

end
