(* ===== verification/Js_Convert.thy ===== *)
theory Js_Convert
  imports Script_Http
begin

text \<open>
  What the protocol modules ask of JavaScript values beyond their text and their properties. The conversions
  themselves are the script engine's (goja's \<open>ExportTo\<close>, \<open>ToBoolean\<close>, \<open>ToFloat\<close>, \<open>ToInteger\<close>), and so arguments.
\<close>

text \<open>How JavaScript values convert: to a list of strings, a boolean, a number and an integer, and to bytes.\<close>

record js_conv =
  jc_strings :: "jsv \<Rightarrow> string list option"
  jc_bool :: "jsv \<Rightarrow> bool"
  jc_num :: "jsv \<Rightarrow> f64"
  jc_int :: "jsv \<Rightarrow> int"
  jc_bytes :: "jsv \<Rightarrow> string"
  jc_wild :: "f64 \<Rightarrow> int"

end
