(* ===== verification/Kafka.thy ===== *)
theory Kafka
  imports Protocol_Record Js_Convert Config_Options "HOL-Library.Multiset"
begin

text \<open>
  The Kafka module: \<open>internal/protocols/kafka\<close> (\<open>module.go\<close>, \<open>config.go\<close>, \<open>partitioner.go\<close>, \<open>producer.go\<close>,
  \<open>consumer.go\<close>). The client library (franz-go) is an argument: whether a client can be created, what
  producing records answers and in which order, and what a poll brings.
\<close>

section \<open>Metrics: module.go\<close>

definition kafka_metrics :: "fdef list" where
  "kafka_metrics = [\<lparr>d_Name = ''kafka_produce_duration'', d_Kind = Trend\<rparr>, \<lparr>d_Name = ''kafka_messages_produced'', d_Kind = Counter\<rparr>,
     \<lparr>d_Name = ''kafka_produce_failed'', d_Kind = Rate\<rparr>, \<lparr>d_Name = ''kafka_consume_latency'', d_Kind = Trend\<rparr>,
     \<lparr>d_Name = ''kafka_messages_consumed'', d_Kind = Counter\<rparr>, \<lparr>d_Name = ''kafka_consume_failed'', d_Kind = Rate\<rparr>]"

record kafka_run =
  kr_produceDuration :: nat
  kr_produced :: nat
  kr_produceFailed :: nat
  kr_consumeLatency :: nat
  kr_consumed :: nat
  kr_consumeFailed :: nat

definition kafka_new_run :: "families option \<Rightarrow> string + kafka_run" where
  "kafka_new_run fams = (case FamilyIDs fams (map d_Name kafka_metrics) of
       Inl e \<Rightarrow> Inl e
     | Inr ids \<Rightarrow> Inr \<lparr>kr_produceDuration = ids ! 0, kr_produced = ids ! 1, kr_produceFailed = ids ! 2,
         kr_consumeLatency = ids ! 3, kr_consumed = ids ! 4, kr_consumeFailed = ids ! 5\<rparr>)"

section \<open>Configurations: config.go\<close>

definition defaultProduceTimeout :: duration where "defaultProduceTimeout = 30 * second"
definition defaultConsumeTimeout :: duration where "defaultConsumeTimeout = 2 * second"
definition closeTimeout :: duration where "closeTimeout = 5 * second"

record kafka_config =
  kc_brokers :: "string list"
  kc_topic :: string
  kc_group :: string
  kc_startAt :: string
  kc_tls :: bool
  kc_timeout :: duration

definition config_key :: "kafka_config \<Rightarrow> string" where
  "config_key c = str_join (sort (kc_brokers c)) '','' @ ''|'' @ kc_topic c @ ''|'' @ kc_group c @ ''|'' @ kc_startAt c @ ''|'' @
     (if kc_tls c then ''true'' else ''false'')"

datatype kafka_throw =
    ConfigRequired string
  | BrokersNotList string
  | BrokersRequired string
  | BadStartAt string
  | BadTimeout string
  | BadTimeoutText string string
  | InitCode string
  | MaxBelowOne
  | EmptyBatch

definition parseTimeout :: "js_conv \<Rightarrow> string \<Rightarrow> jsv \<Rightarrow> kafka_throw + duration" where
  "parseTimeout cv what v =
     (if js_isString v
      then (case ParseDuration (js_text v) of
          Some d \<Rightarrow> if d \<le> 0 then Inl (BadTimeoutText what (js_text v)) else Inr d
        | None \<Rightarrow> Inl (BadTimeoutText what (js_text v)))
      else let ms = jc_num cv v
        in if f64_le ms (Fin 0) \<or> ms = NaN then Inl (BadTimeout what)
           else Inr (int64_of_f64 (jc_wild cv) (f64_mul ms (f64_of_int millisecond))))"

definition readConfig :: "js_conv \<Rightarrow> jsv \<Rightarrow> string \<Rightarrow> duration \<Rightarrow> kafka_throw + kafka_config" where
  "readConfig cv v what defaultTimeout =
     (if \<not> isSet v then Inl (ConfigRequired what)
      else let b = js_get v ''brokers'' in
        case (if isSet b then jc_strings cv b else Some []) of
          None \<Rightarrow> Inl (BrokersNotList what)
        | Some brokers \<Rightarrow>
            if brokers = [] then Inl (BrokersRequired what)
            else
              let t = js_get v ''topic''; g = js_get v ''group''; st = js_get v ''startAt''; tl = js_get v ''tls''; tm = js_get v ''timeout'';
                  c = \<lparr>kc_brokers = brokers, kc_topic = (if isSet t then js_text t else []), kc_group = (if isSet g then js_text g else []),
                       kc_startAt = (if isSet st then js_text st else ''latest''), kc_tls = (if isSet tl then jc_bool cv tl else False),
                       kc_timeout = defaultTimeout\<rparr>
              in if isSet st \<and> kc_startAt c \<noteq> ''earliest'' \<and> kc_startAt c \<noteq> ''latest'' then Inl (BadStartAt what)
                 else if isSet tm
                 then (case parseTimeout cv what tm of Inl e \<Rightarrow> Inl e | Inr d \<Rightarrow> Inr (c\<lparr>kc_timeout := d\<rparr>))
                 else Inr c)"

text \<open>An error of the library: the broker's, a record's timeout, a closed client's, and what it is otherwise.\<close>

record kafka_error =
  ke_Broker :: bool
  ke_RecordTimeout :: bool
  ke_ClientClosed :: bool
  ke_err :: go_error

definition errorCode :: "kafka_error option \<Rightarrow> string" where
  "errorCode err = (case err of None \<Rightarrow> CodeNone
     | Some e \<Rightarrow>
         if ke_Broker e then CodeServer
         else if ke_RecordTimeout e \<or> errors_is ContextDeadlineExceeded (ke_err e) then CodeTimeout
         else if ke_ClientClosed e then CodeClosed
         else Classify (Some (ke_err e)))"

lemma errorCode_none: "errorCode err = CodeNone \<longleftrightarrow> err = None"
  using Classify_none [of "Some e" for e] by (auto simp: errorCode_def split: option.split) (auto simp: code_defs)

definition plain_kafka_error :: kafka_error where
  "plain_kafka_error = \<lparr>ke_Broker = False, ke_RecordTimeout = False, ke_ClientClosed = False,
     ke_err = [\<lparr>el_is = [], el_Op = None, el_Timeout = None\<rparr>]\<rparr>"

definition ErrClientClosed :: kafka_error where
  "ErrClientClosed = plain_kafka_error\<lparr>ke_ClientClosed := True\<rparr>"

section \<open>Records and partitions: partitioner.go and producer.go\<close>

record kafka_record =
  kd_Topic :: string
  kd_Key :: "string option"
  kd_Value :: string
  kd_Headers :: "(string \<times> string) list"
  kd_Partition :: int
  kd_explicit :: bool

text \<open>\<open>fallback\<close> is franz-go's sticky key partitioner.\<close>

definition Partition :: "(kafka_record \<Rightarrow> nat \<Rightarrow> int) \<Rightarrow> kafka_record \<Rightarrow> nat \<Rightarrow> int" where
  "Partition fallback r n = (if kd_explicit r then kd_Partition r else fallback r n)"

definition RequiresConsistency :: "(kafka_record \<Rightarrow> bool) \<Rightarrow> kafka_record \<Rightarrow> bool" where
  "RequiresConsistency fallback r \<longleftrightarrow> (if kd_explicit r then True else fallback r)"

definition int32 :: "int \<Rightarrow> int" where
  "int32 n = (n + 2 ^ 31) mod 2 ^ 32 - 2 ^ 31"

datatype message_error = NoValue | NoTopic | NegativePartition int

definition produce_record :: "js_conv \<Rightarrow> kafka_config \<Rightarrow> jsv \<Rightarrow> message_error + kafka_record" where
  "produce_record cv cfg v =
     (if \<not> isSet v then Inl NoValue
      else let t = js_get v ''topic''; topic = (if isSet t then js_text t else kc_topic cfg) in
        if topic = [] then Inl NoTopic
        else let val = js_get v ''value'' in
          if \<not> isSet val then Inl NoValue
          else let k = js_get v ''key''; h = js_get v ''headers''; pv = js_get v ''partition'';
                   r = \<lparr>kd_Topic = topic, kd_Key = (if isSet k then Some (jc_bytes cv k) else None), kd_Value = jc_bytes cv val,
                        kd_Headers = (if isSet h then map (\<lambda>(n, x). (n, jc_bytes cv x)) (js_props h) else []),
                        kd_Partition = 0, kd_explicit = False\<rparr>
               in if isSet pv
                  then (let n = jc_int cv pv
                        in if n < 0 then Inl (NegativePartition n) else Inr (r\<lparr>kd_Partition := int32 n, kd_explicit := True\<rparr>))
                  else Inr r)"

section \<open>Producers: producer.go\<close>

record producer =
  pd_cfg :: kafka_config
  pd_client :: bool
  pd_closed :: bool

definition new_producer :: "kafka_config \<Rightarrow> producer" where
  "new_producer cfg = \<lparr>pd_cfg = cfg, pd_client = False, pd_closed = False\<rparr>"

datatype client_event = ClientCreated | GroupLeft | ClientClosed

definition producer_Close :: "producer \<Rightarrow> client_event list \<times> producer" where
  "producer_Close p = (if pd_client p \<and> \<not> pd_closed p then [ClientClosed] else [], p\<lparr>pd_closed := True\<rparr>)"

text \<open>\<open>create\<close> is why a client cannot be created, if it cannot.\<close>

definition producer_clientFor :: "kafka_error option \<Rightarrow> producer \<Rightarrow> client_event list \<times> kafka_error option \<times> producer" where
  "producer_clientFor create p =
     (if pd_closed p then ([], Some ErrClientClosed, p)
      else if pd_client p then ([], None, p)
      else case create of Some e \<Rightarrow> ([], Some e, p) | None \<Rightarrow> ([ClientCreated], None, p\<lparr>pd_client := True\<rparr>))"

definition metadataMinAge :: "duration \<Rightarrow> duration" where
  "metadataMinAge timeout = min (max (go_div timeout 3) (100 * millisecond)) (5 * second)"

text \<open>What was wrong with a message.\<close>

datatype produce_error = BadMessage message_error | LibraryError kafka_error

record produce_outcome =
  po_Dur :: duration
  po_Error :: "produce_error option"
  po_Code :: string
  po_Sent :: bool

record produce_result =
  ps_ok :: bool
  ps_error :: "produce_error option"
  ps_error_code :: string
  ps_topic :: string
  ps_partition :: int
  ps_offset :: int
  ps_duration :: duration

definition produce_code :: "produce_outcome \<Rightarrow> string" where
  "produce_code out =
     (if po_Code out = CodeNone \<and> po_Error out \<noteq> None
      then (if po_Sent out then Classify (case po_Error out of Some (LibraryError e) \<Rightarrow> Some (ke_err e) | _ \<Rightarrow> Some []) else CodeInvalid)
      else po_Code out)"

definition produce_result :: "kafka_run \<Rightarrow> bool \<Rightarrow> (kafka_record \<times> int \<times> int) option \<Rightarrow> produce_outcome \<Rightarrow> duration \<Rightarrow>
    produce_result \<times> fam_event list" where
  "produce_result run live r out d =
     (let code = produce_code out; failed = (code \<noteq> CodeNone)
      in (\<lparr>ps_ok = (code = CodeNone), ps_error = po_Error out, ps_error_code = code,
           ps_topic = (case r of None \<Rightarrow> [] | Some (x, _) \<Rightarrow> kd_Topic x),
           ps_partition = (case r of Some (_, part, _) \<Rightarrow> if code = CodeNone then part else -1 | None \<Rightarrow> -1),
           ps_offset = (case r of Some (_, _, off) \<Rightarrow> if code = CodeNone then off else -1 | None \<Rightarrow> -1), ps_duration = d\<rparr>,
          if live
          then (if po_Sent out then [FTrend (kr_produceDuration run) d (\<not> failed)] else []) @
               (if \<not> failed then [FAdd (kr_produced run) 1] else []) @ [FRate (kr_produceFailed run) failed]
          else []))"

text \<open>What \<open>ProduceSync\<close> answers for a record, in the order the records complete: which record it was, its
  error, and the partition and offset it got.\<close>

record produced =
  pr_Record :: nat
  pr_Err :: "kafka_error option"
  pr_Part :: int
  pr_Offset :: int

text \<open>The first loop: a result for every invalid message; the records, and the message each one is.\<close>

fun build_records :: "js_conv \<Rightarrow> kafka_run \<Rightarrow> bool \<Rightarrow> kafka_config \<Rightarrow> nat \<Rightarrow> jsv list \<Rightarrow>
    (nat \<times> produce_result) list \<times> (kafka_record \<times> nat) list \<times> fam_event list" where
  "build_records cv run live cfg k [] = ([], [], [])"
| "build_records cv run live cfg k (m # ms) = (case build_records cv run live cfg (Suc k) ms of
     (bad, recs, es) \<Rightarrow> (case produce_record cv cfg m of
         Inl e \<Rightarrow> (case produce_result run live None \<lparr>po_Dur = 0, po_Error = Some (BadMessage e), po_Code = CodeNone, po_Sent = False\<rparr> 0 of
                    (res, es0) \<Rightarrow> ((k, res) # bad, recs, es0 @ es))
       | Inr r \<Rightarrow> (bad, (r, k) # recs, es)))"

fun client_failures :: "kafka_run \<Rightarrow> bool \<Rightarrow> kafka_error \<Rightarrow> (kafka_record \<times> nat) list \<Rightarrow> (nat \<times> produce_result) list \<times> fam_event list" where
  "client_failures run live e [] = ([], [])"
| "client_failures run live e ((_, k) # recs) =
     (case produce_result run live None \<lparr>po_Dur = 0, po_Error = Some (LibraryError e), po_Code = errorCode (Some e), po_Sent = False\<rparr> 0 of
        (res, es) \<Rightarrow> (case client_failures run live e recs of (rs, es') \<Rightarrow> ((k, res) # rs, es @ es')))"

fun place_results :: "kafka_run \<Rightarrow> bool \<Rightarrow> duration \<Rightarrow> (kafka_record \<times> nat) list \<Rightarrow> produced list \<Rightarrow> (nat \<times> produce_result) list \<times> fam_event list" where
  "place_results run live d recs [] = ([], [])"
| "place_results run live d recs (pr # prs) =
     (case recs ! pr_Record pr of (r, k) \<Rightarrow>
        (case produce_result run live (Some (r, pr_Part pr, pr_Offset pr))
            \<lparr>po_Dur = d, po_Error = map_option LibraryError (pr_Err pr), po_Code = errorCode (pr_Err pr), po_Sent = True\<rparr> d of
           (res, es) \<Rightarrow> (case place_results run live d recs prs of (rs, es') \<Rightarrow> ((k, res) # rs, es @ es'))))"

text \<open>The library while a batch is sent: why a client cannot be created, what producing the records answers,
  the time it takes, and whether the test is still running afterwards.\<close>

record produce_world =
  pw_create :: "kafka_error option"
  pw_produce :: "kafka_record list \<Rightarrow> produced list"
  pw_took :: duration
  pw_live :: bool

definition producer_send :: "js_conv \<Rightarrow> kafka_run \<Rightarrow> bool \<Rightarrow> produce_world \<Rightarrow> jsv list \<Rightarrow> producer \<Rightarrow>
    (nat \<times> produce_result) list \<times> fam_event list \<times> client_event list \<times> producer" where
  "producer_send cv run live w msgs p = (case build_records cv run live (pd_cfg p) 0 msgs of
     (bad, recs, es) \<Rightarrow>
       if recs = [] then (bad, es, [], p)
       else (case producer_clientFor (pw_create w) p of
           (ces, Some e, p') \<Rightarrow> (case client_failures run live e recs of (rs, es') \<Rightarrow> (bad @ rs, es @ es', ces, p'))
         | (ces, None, p') \<Rightarrow> (case place_results run (live \<and> pw_live w) (pw_took w) recs (pw_produce w (map fst recs)) of
               (rs, es') \<Rightarrow> (bad @ rs, es @ es', ces, p'))))"

text \<open>\<open>produceBatch\<close> and \<open>produce\<close>; \<open>context\<close> is whether the code runs in an iteration.\<close>

definition produceBatch :: "js_conv \<Rightarrow> kafka_run \<Rightarrow> bool \<Rightarrow> bool \<Rightarrow> produce_world \<Rightarrow> jsv list \<Rightarrow> producer \<Rightarrow>
    kafka_throw + (nat \<times> produce_result) list \<times> fam_event list \<times> client_event list \<times> producer" where
  "produceBatch cv run context live w msgs p =
     (if msgs = [] then Inl EmptyBatch
      else if \<not> context then Inl (InitCode ''producing'')
      else Inr (producer_send cv run live w msgs p))"

section \<open>Consumers: consumer.go\<close>

record consumer =
  cn_cfg :: kafka_config
  cn_client :: bool
  cn_closed :: bool

definition consumer_Close :: "consumer \<Rightarrow> client_event list \<times> consumer" where
  "consumer_Close c = (if cn_client c \<and> \<not> cn_closed c then (if kc_group (cn_cfg c) \<noteq> [] then [GroupLeft] else []) @ [ClientClosed] else [],
     c\<lparr>cn_closed := True\<rparr>)"

definition consumer_clientFor :: "kafka_error option \<Rightarrow> consumer \<Rightarrow> client_event list \<times> kafka_error option \<times> consumer" where
  "consumer_clientFor create c =
     (if cn_closed c then ([], Some ErrClientClosed, c)
      else if cn_client c then ([], None, c)
      else if kc_topic (cn_cfg c) = [] then ([], Some plain_kafka_error, c)
      else case create of Some e \<Rightarrow> ([], Some e, c) | None \<Rightarrow> ([ClientCreated], None, c\<lparr>cn_client := True\<rparr>))"

definition max0 :: "duration \<Rightarrow> duration" where
  "max0 d = (if d < 0 then 0 else d)"

text \<open>A consumed record: its timestamp in nanoseconds, if it has one.\<close>

record fetched =
  ft_Record :: kafka_record
  ft_Offset :: int
  ft_Timestamp :: "int option"

record kafka_message =
  km_topic :: string
  km_partition :: int
  km_offset :: int
  km_key :: "string option"
  km_value :: string
  km_headers :: "(string \<times> string) list"
  km_latency :: duration

fun headers_map :: "(string \<times> string) list \<Rightarrow> (string \<times> string) list \<Rightarrow> (string \<times> string) list" where
  "headers_map [] acc = acc"
| "headers_map ((k, v) # hs) acc = headers_map hs (AList.update k v acc)"

definition message :: "int \<Rightarrow> (fetched \<Rightarrow> int) \<Rightarrow> fetched \<Rightarrow> kafka_message" where
  "message now since r = \<lparr>km_topic = kd_Topic (ft_Record r), km_partition = kd_Partition (ft_Record r), km_offset = ft_Offset r,
     km_key = kd_Key (ft_Record r), km_value = kd_Value (ft_Record r), km_headers = headers_map (kd_Headers (ft_Record r)) [],
     km_latency = max0 (since r)\<rparr>"

text \<open>The failure of a poll: the first error that is not the poll's own timeout or the end of the test.\<close>

fun poll_failure :: "(kafka_error \<times> bool) list \<Rightarrow> kafka_error option" where
  "poll_failure [] = None"
| "poll_failure ((e, cancelled) # es) =
     (if errors_is ContextDeadlineExceeded (ke_err e) \<or> cancelled then poll_failure es else Some e)"

record poll =
  pl_Errors :: "(kafka_error \<times> bool) list"
  pl_Records :: "fetched list"

definition consume_events :: "kafka_run \<Rightarrow> int \<Rightarrow> fetched \<Rightarrow> fam_event list" where
  "consume_events run now r = FAdd (kr_consumed run) 1 #
     (case ft_Timestamp r of None \<Rightarrow> [] | Some t \<Rightarrow> [FTrend (kr_consumeLatency run) (max0 (now - t)) True])"

record consume_world =
  cw_create :: "kafka_error option"
  cw_poll :: "int \<Rightarrow> duration \<Rightarrow> poll"
  cw_now :: int
  cw_since :: "fetched \<Rightarrow> int"
  cw_live :: bool

record consume_result =
  cr_messages :: "kafka_message list"
  cr_error :: "kafka_error option"
  cr_code :: string

definition consume :: "js_conv \<Rightarrow> kafka_run \<Rightarrow> bool \<Rightarrow> consume_world \<Rightarrow> jsv \<Rightarrow> consumer \<Rightarrow>
    kafka_throw + consume_result \<times> fam_event list \<times> client_event list \<times> consumer" where
  "consume cv run context w params c =
     (if \<not> context then Inl (InitCode ''consuming'')
      else
        let m = js_get params ''max''; t = js_get params ''timeout'';
            max = (if isSet params \<and> isSet m then jc_int cv m else 1)
        in if max < 1 then Inl MaxBelowOne
           else case (if isSet params \<and> isSet t then parseTimeout cv ''consume'' t else Inr (kc_timeout (cn_cfg c))) of
                  Inl e \<Rightarrow> Inl e
                | Inr timeout \<Rightarrow> (case consumer_clientFor (cw_create w) c of
                    (ces, err, c') \<Rightarrow>
                      (let p = (case err of Some e \<Rightarrow> \<lparr>pl_Errors = [], pl_Records = []\<rparr> | None \<Rightarrow> cw_poll w max timeout);
                           failure = (case err of Some e \<Rightarrow> Some e | None \<Rightarrow> poll_failure (pl_Errors p));
                           code = errorCode failure;
                           code = (if failure \<noteq> None \<and> code = CodeNone then CodeProtocol else code)
                       in Inr (\<lparr>cr_messages = map (message (cw_now w) (cw_since w)) (pl_Records p), cr_error = failure, cr_code = code\<rparr>,
                            (if cw_live w then concat (map (consume_events run (cw_now w)) (pl_Records p)) @
                               [FRate (kr_consumeFailed run) (failure \<noteq> None)] else []), ces, c'))))"

section \<open>What producing answers\<close>

definition result_events :: "kafka_run \<Rightarrow> bool \<Rightarrow> produce_result \<Rightarrow> fam_event list" where
  "result_events run sent res = (if sent then [FTrend (kr_produceDuration run) (ps_duration res) (ps_ok res)] else []) @
     (if ps_ok res then [FAdd (kr_produced run) 1] else []) @ [FRate (kr_produceFailed run) (\<not> ps_ok res)]"

text \<open>What a message's result says.\<close>

definition invalid_result :: "message_error \<Rightarrow> produce_result \<Rightarrow> bool" where
  "invalid_result e res \<longleftrightarrow> ps_error res = Some (BadMessage e) \<and> ps_error_code res = CodeInvalid \<and> \<not> ps_ok res \<and> ps_offset res = -1"

definition failed_result :: "kafka_error \<Rightarrow> produce_result \<Rightarrow> bool" where
  "failed_result e res \<longleftrightarrow> ps_error res = Some (LibraryError e) \<and> ps_error_code res = errorCode (Some e) \<and> \<not> ps_ok res \<and> ps_offset res = -1"

definition answered_result :: "duration \<Rightarrow> kafka_record \<Rightarrow> produced \<Rightarrow> produce_result \<Rightarrow> bool" where
  "answered_result d r pr res \<longleftrightarrow> ps_ok res = (pr_Err pr = None) \<and> ps_error res = map_option LibraryError (pr_Err pr) \<and>
     ps_error_code res = errorCode (pr_Err pr) \<and> ps_topic res = kd_Topic r \<and> ps_duration res = d \<and>
     ps_partition res = (if pr_Err pr = None then pr_Part pr else -1) \<and> ps_offset res = (if pr_Err pr = None then pr_Offset pr else -1)"

lemma produce_result_live:
  "produce_result run True r out d = (res, es) \<Longrightarrow> es = result_events run (po_Sent out) res \<and> ps_duration res = d"
  by (auto simp: produce_result_def result_events_def Let_def)

lemma bad_result:
  "produce_result run True None \<lparr>po_Dur = 0, po_Error = Some (BadMessage e), po_Code = CodeNone, po_Sent = False\<rparr> 0 = (res, es) \<Longrightarrow>
     invalid_result e res"
  by (auto simp: produce_result_def produce_code_def invalid_result_def Let_def code_defs)

lemma client_result:
  "produce_result run True None \<lparr>po_Dur = 0, po_Error = Some (LibraryError e), po_Code = errorCode (Some e), po_Sent = False\<rparr> 0 = (res, es) \<Longrightarrow>
     failed_result e res"
  using errorCode_none [of "Some e"] by (auto simp: produce_result_def produce_code_def failed_result_def Let_def)

lemma sent_result:
  "produce_result run True (Some (r, pr_Part pr, pr_Offset pr))
     \<lparr>po_Dur = d, po_Error = map_option LibraryError (pr_Err pr), po_Code = errorCode (pr_Err pr), po_Sent = True\<rparr> d = (res, es) \<Longrightarrow>
     answered_result d r pr res"
  using errorCode_none [of "pr_Err pr"]
  by (cases "pr_Err pr") (auto simp: produce_result_def produce_code_def answered_result_def Let_def)

lemma build_records_exact:
  "build_records cv run True cfg k ms = (bad, recs, es) \<Longrightarrow>
     mset (map fst bad) + mset (map snd recs) = mset [k..<k + length ms] \<and>
     (\<forall>(i, res)\<in>set bad. k \<le> i \<and> (\<exists>e. produce_record cv cfg (ms ! (i - k)) = Inl e \<and> invalid_result e res)) \<and>
     (\<forall>(r, i)\<in>set recs. k \<le> i \<and> produce_record cv cfg (ms ! (i - k)) = Inr r) \<and>
     es = concat (map (\<lambda>(_, res). result_events run False res) bad)"
proof (induction ms arbitrary: k bad recs es)
  case (Cons m ms)
  obtain bad' recs' es' where b: "build_records cv run True cfg (Suc k) ms = (bad', recs', es')" by (metis prod_cases3)
  note ih = Cons.IH [OF b]
  have up: "mset [k..<k + length (m # ms)] = add_mset k (mset [Suc k..<Suc k + length ms])"
    by (simp add: upt_conv_Cons del: mset_upt upt_Suc)
  have idx: "Suc k \<le> i \<Longrightarrow> (m # ms) ! (i - k) = ms ! (i - Suc k)" for i by (simp add: nth_Cons')
  show ?case
  proof (cases "produce_record cv cfg m")
    case (Inl e)
    obtain res es0 where r: "produce_result run True None \<lparr>po_Dur = 0, po_Error = Some (BadMessage e), po_Code = CodeNone, po_Sent = False\<rparr> 0 = (res, es0)"
      by fastforce
    have "bad = (k, res) # bad'" "recs = recs'" "es = es0 @ es'" using Cons.prems b Inl r by auto
    then show ?thesis using ih bad_result [OF r] produce_result_live [OF r] Inl idx up by (fastforce dest: Suc_leD simp del: mset_upt)
  next
    case (Inr r)
    have "bad = bad'" "recs = (r, k) # recs'" "es = es'" using Cons.prems b Inr by auto
    then show ?thesis using ih Inr idx up by (fastforce dest: Suc_leD simp del: mset_upt)
  qed
qed simp

lemma client_failures_exact:
  "client_failures run True e recs = (rs, es) \<Longrightarrow>
     map fst rs = map snd recs \<and> (\<forall>(i, res)\<in>set rs. failed_result e res) \<and> es = concat (map (\<lambda>(_, res). result_events run False res) rs)"
proof (induction run True e recs arbitrary: rs es rule: client_failures.induct)
  case (2 run e r k recs)
  obtain res es0 where r: "produce_result run True None \<lparr>po_Dur = 0, po_Error = Some (LibraryError e), po_Code = errorCode (Some e), po_Sent = False\<rparr> 0 = (res, es0)"
    by fastforce
  obtain rs' es' where c: "client_failures run True e recs = (rs', es')" by fastforce
  have "rs = (k, res) # rs'" "es = es0 @ es'" using 2(2) r c by simp_all
  then show ?case using 2(1) [OF r [symmetric] c] client_result [OF r] produce_result_live [OF r] by auto
qed simp

lemma place_results_exact:
  "place_results run True d recs prs = (rs, es) \<Longrightarrow>
     map fst rs = map (\<lambda>pr. snd (recs ! pr_Record pr)) prs \<and>
     (\<forall>(i, res)\<in>set rs. \<exists>pr\<in>set prs. snd (recs ! pr_Record pr) = i \<and> answered_result d (fst (recs ! pr_Record pr)) pr res) \<and>
     es = concat (map (\<lambda>(_, res). result_events run True res) rs)"
proof (induction prs arbitrary: rs es)
  case (Cons pr prs)
  obtain r k where rk: "recs ! pr_Record pr = (r, k)" by fastforce
  obtain res es0 where r: "produce_result run True (Some (r, pr_Part pr, pr_Offset pr))
     \<lparr>po_Dur = d, po_Error = map_option LibraryError (pr_Err pr), po_Code = errorCode (pr_Err pr), po_Sent = True\<rparr> d = (res, es0)"
    by fastforce
  obtain rs' es' where c: "place_results run True d recs prs = (rs', es')" by fastforce
  have "rs = (k, res) # rs'" "es = es0 @ es'" using Cons.prems r c rk by simp_all
  then show ?case using Cons.IH [OF c] sent_result [OF r] produce_result_live [OF r] rk by auto
qed simp

text \<open>Every record has one answer: \<open>ProduceSync\<close> says so, in the order the records complete.\<close>

definition answers_all :: "produce_world \<Rightarrow> bool" where
  "answers_all w \<longleftrightarrow> (\<forall>recs. mset (map pr_Record (pw_produce w recs)) = mset [0..<length recs])"

definition message_result :: "js_conv \<Rightarrow> producer \<Rightarrow> produce_world \<Rightarrow> jsv \<Rightarrow> produce_result \<Rightarrow> bool" where
  "message_result cv p w m res = (case produce_record cv (pd_cfg p) m of
       Inl e \<Rightarrow> invalid_result e res
     | Inr r \<Rightarrow> (case fst (snd (producer_clientFor (pw_create w) p)) of
           Some e \<Rightarrow> failed_result e res
         | None \<Rightarrow> (\<exists>pr. answered_result (pw_took w) r pr res)))"

lemma send_parts:
  assumes "producer_send cv run True w msgs p = (rs, es, ces, p')" "pw_live w" "answers_all w"
  shows "\<exists>bad recs sent got. rs = bad @ got \<and>
    build_records cv run True (pd_cfg p) 0 msgs = (bad, recs, concat (map (\<lambda>(_, res). result_events run False res) bad)) \<and>
    mset (map fst got) = mset (map snd recs) \<and>
    es = concat (map (\<lambda>(_, res). result_events run False res) bad) @ concat (map (\<lambda>(_, res). result_events run sent res) got) \<and>
    (\<forall>(i, res)\<in>set got. \<exists>r. (r, i) \<in> set recs \<and> (case fst (snd (producer_clientFor (pw_create w) p)) of
       Some e \<Rightarrow> failed_result e res
     | None \<Rightarrow> (\<exists>pr\<in>set (pw_produce w (map fst recs)). fst (recs ! pr_Record pr) = r \<and> answered_result (pw_took w) r pr res)))"
proof -
  obtain bad recs es1 where b: "build_records cv run True (pd_cfg p) 0 msgs = (bad, recs, es1)" by (metis prod_cases3)
  have e1: "es1 = concat (map (\<lambda>(_, res). result_events run False res) bad)" using build_records_exact [OF b] by blast
  obtain ces' err p2 where c: "producer_clientFor (pw_create w) p = (ces', err, p2)" by (metis prod_cases3)
  show ?thesis
  proof (cases "recs = []")
    case True
    then have "rs = bad" "es = es1" using assms(1) b by (simp_all add: producer_send_def)
    then show ?thesis using b e1 True by (intro exI [of _ bad] exI [of _ recs] exI [of _ True] exI [of _ "[]"]) simp
  next
    case False
    show ?thesis
    proof (cases err)
      case (Some e)
      obtain rs' es' where f: "client_failures run True e recs = (rs', es')" by fastforce
      have "rs = bad @ rs'" "es = es1 @ es'" using assms(1) b c Some f False by (auto simp: producer_send_def)
      moreover note g = client_failures_exact [OF f]
      have "\<exists>r. (r, i) \<in> set recs \<and> failed_result e res" if "(i, res) \<in> set rs'" for i res
      proof -
        have "i \<in> set (map snd recs)" using g that by (metis image_eqI fst_conv list.set_map)
        then show ?thesis using g that by auto
      qed
      ultimately show ?thesis using b e1 c Some g
        by (intro exI [of _ bad] exI [of _ recs] exI [of _ False] exI [of _ rs']) auto
    next
      case None
      let ?prs = "pw_produce w (map fst recs)"
      obtain rs' es' where f: "place_results run True (pw_took w) recs ?prs = (rs', es')" by fastforce
      have r: "rs = bad @ rs'" "es = es1 @ es'" using assms(1,2) b c None f False by (auto simp: producer_send_def)
      note g = place_results_exact [OF f]
      have a: "mset (map pr_Record ?prs) = mset [0..<length recs]" using assms(3) by (simp add: answers_all_def del: mset_upt)
      have "map fst rs' = map (\<lambda>i. snd (recs ! i)) (map pr_Record ?prs)" using g by simp
      then have "mset (map fst rs') = image_mset (\<lambda>i. snd (recs ! i)) (mset (map pr_Record ?prs))" by (simp only: mset_map)
      also have "\<dots> = mset (map (\<lambda>i. snd (recs ! i)) [0..<length recs])" unfolding a by (simp only: mset_map)
      also have "map (\<lambda>i. snd (recs ! i)) [0..<length recs] = map snd recs" by (rule nth_equalityI) simp_all
      finally have m: "mset (map fst rs') = mset (map snd recs)" .
      have bound: "pr_Record pr < length recs" if "pr \<in> set ?prs" for pr
      proof -
        have "set (map pr_Record ?prs) = set [0..<length recs]" using a by (metis set_mset_mset)
        then show ?thesis using that by auto
      qed
      have "\<exists>r. (r, i) \<in> set recs \<and> (\<exists>pr\<in>set ?prs. fst (recs ! pr_Record pr) = r \<and> answered_result (pw_took w) r pr res)"
        if i: "(i, res) \<in> set rs'" for i res
      proof -
        obtain pr where pr: "pr \<in> set ?prs" "snd (recs ! pr_Record pr) = i" "answered_result (pw_took w) (fst (recs ! pr_Record pr)) pr res"
          using g i by blast
        have "recs ! pr_Record pr \<in> set recs" using bound [OF pr(1)] by (rule nth_mem)
        then have "(fst (recs ! pr_Record pr), i) \<in> set recs" unfolding pr(2) [symmetric] by simp
        then show ?thesis using pr by blast
      qed
      then show ?thesis using r b e1 c None g m
        by (intro exI [of _ bad] exI [of _ recs] exI [of _ True] exI [of _ rs']) auto
    qed
  qed
qed

lemma result_events_counts:
  "concat (map (fam_rates (kr_produceFailed run)) (concat (map (\<lambda>(_, res). result_events run sent res) rs))) = map (\<lambda>(_, res). \<not> ps_ok res) rs"
  "concat (map (fam_adds (kr_produced run)) (concat (map (\<lambda>(_, res). result_events run sent res) rs))) = map (\<lambda>_. 1) (filter (ps_ok \<circ> snd) rs)"
  by (induction rs) (auto simp: result_events_def)


definition conv_example :: js_conv where
  "conv_example = \<lparr>jc_strings = (\<lambda>_. None), jc_bool = (\<lambda>_. False), jc_num = (\<lambda>_. NaN), jc_int = (\<lambda>_. 4294967296), jc_bytes = js_text, jc_wild = (\<lambda>_. 0)\<rparr>"

definition message_example :: "(string \<times> jsv) list \<Rightarrow> jsv" where
  "message_example kvs = JsValue (JsView False [] kvs)"

definition kafka_run_example :: kafka_run where
  "kafka_run_example = \<lparr>kr_produceDuration = 0, kr_produced = 1, kr_produceFailed = 2, kr_consumeLatency = 3, kr_consumed = 4, kr_consumeFailed = 5\<rparr>"

text \<open>The broker acknowledges the records in reverse.\<close>

definition produce_world_example :: produce_world where
  "produce_world_example = \<lparr>pw_create = None,
     pw_produce = (\<lambda>recs. map (\<lambda>i. \<lparr>pr_Record = i, pr_Err = None, pr_Part = 3, pr_Offset = int i\<rparr>) (rev [0..<length recs])),
     pw_took = 9, pw_live = True\<rparr>"

definition producer_example :: producer where
  "producer_example = new_producer \<lparr>kc_brokers = [''b''], kc_topic = ''orders'', kc_group = [], kc_startAt = ''latest'', kc_tls = False, kc_timeout = second\<rparr>"


text \<open>A partition that does not fit 32 bits wraps around: 2^32 is sent to partition 0.\<close>

lemma partition_wraps:
  "produce_record conv_example (pd_cfg producer_example) (message_example [(''value'', js_string ''x''), (''partition'', JsValue (JsView False [] []))]) =
     Inr \<lparr>kd_Topic = ''orders'', kd_Key = None, kd_Value = ''x'', kd_Headers = [], kd_Partition = 0, kd_explicit = True\<rparr>"
  by (simp add: produce_record_def conv_example_def producer_example_def new_producer_def message_example_def js_get_def js_props_def
      js_string_def js_text_def isSet_def int32_def)

text \<open>The key of a one-off client leaves out the timeout: a later call with another timeout uses the first one's.\<close>

lemma key_without_timeout: "config_key (c\<lparr>kc_timeout := t\<rparr>) = config_key c"
  by (simp add: config_key_def)

section \<open>The life of a client\<close>

text \<open>However a producer is used, its client is created at most once and closed at most once, not before it was
  created, and never used after it was closed; once it is closed it stays so.\<close>

datatype producer_op = UseClient "kafka_error option" | CloseClient

fun producer_run :: "producer_op list \<Rightarrow> producer \<Rightarrow> client_event list \<times> producer" where
  "producer_run [] p = ([], p)"
| "producer_run (UseClient create # xs) p = (case producer_clientFor create p of (es, _, p1) \<Rightarrow>
     (case producer_run xs p1 of (es', p2) \<Rightarrow> (es @ es', p2)))"
| "producer_run (CloseClient # xs) p = (case producer_Close p of (es, p1) \<Rightarrow>
     (case producer_run xs p1 of (es', p2) \<Rightarrow> (es @ es', p2)))"

lemma producer_run_events:
  "fst (producer_run xs p) =
     (if pd_closed p then []
      else if pd_client p then (if CloseClient \<in> set xs then [ClientClosed] else [])
      else (case dropWhile (\<lambda>x. case x of UseClient (Some _) \<Rightarrow> True | _ \<Rightarrow> False) xs of
              UseClient None # rest \<Rightarrow> ClientCreated # (if CloseClient \<in> set rest then [ClientClosed] else [])
            | _ \<Rightarrow> []))"
proof (induction xs p rule: producer_run.induct)
  case (2 create xs p)
  then show ?case by (cases create; cases "pd_closed p"; cases "pd_client p") (auto simp: producer_clientFor_def split: prod.splits)
next
  case (3 xs p)
  then show ?case by (cases "pd_closed p"; cases "pd_client p") (auto simp: producer_Close_def split: prod.splits)
qed simp

end
