(* ===== verification/Kafka_Clients.thy ===== *)
theory Kafka_Clients
  imports Kafka
begin

text \<open>
  A VU's kafka module: \<open>internal/protocols/kafka/module.go\<close>. The module object's constructors make a client per
  object; \<open>kafka.produce\<close> and \<open>kafka.consume\<close> share one per configuration. Producers and consumers live in
  a store and are referred to by their place in it, since the maps of one-off clients and the list of what the VU
  closes at its end share them.
\<close>

section \<open>The instance\<close>

datatype client_ref = ProducerRef nat | ConsumerRef nat

record kafka_instance =
  ki_allProducers :: "producer list"
  ki_allConsumers :: "consumer list"
  ki_producers :: "string \<rightharpoonup> nat"
  ki_consumers :: "string \<rightharpoonup> nat"
  ki_onClose :: "client_ref list"

definition NewInstance :: kafka_instance where
  "NewInstance = \<lparr>ki_allProducers = [], ki_allConsumers = [], ki_producers = Map.empty, ki_consumers = Map.empty, ki_onClose = []\<rparr>"

definition newProducer :: "kafka_config \<Rightarrow> kafka_instance \<Rightarrow> nat \<times> kafka_instance" where
  "newProducer cfg i = (let n = length (ki_allProducers i)
     in (n, i\<lparr>ki_allProducers := ki_allProducers i @ [new_producer cfg], ki_onClose := ki_onClose i @ [ProducerRef n]\<rparr>))"

definition newConsumer :: "kafka_config \<Rightarrow> kafka_instance \<Rightarrow> nat \<times> kafka_instance" where
  "newConsumer cfg i = (let n = length (ki_allConsumers i)
     in (n, i\<lparr>ki_allConsumers := ki_allConsumers i @ [\<lparr>cn_cfg = cfg, cn_client = False, cn_closed = False\<rparr>],
              ki_onClose := ki_onClose i @ [ConsumerRef n]\<rparr>))"

definition constructProducer :: "js_conv \<Rightarrow> jsv \<Rightarrow> kafka_instance \<Rightarrow> (kafka_throw + nat) \<times> kafka_instance" where
  "constructProducer cv v i = (case readConfig cv v ''new kafka.Producer'' defaultProduceTimeout of
       Inl e \<Rightarrow> (Inl e, i)
     | Inr cfg \<Rightarrow> (case newProducer cfg i of (n, i') \<Rightarrow> (Inr n, i')))"

definition constructConsumer :: "js_conv \<Rightarrow> jsv \<Rightarrow> kafka_instance \<Rightarrow> (kafka_throw + nat) \<times> kafka_instance" where
  "constructConsumer cv v i = (case readConfig cv v ''new kafka.Consumer'' defaultConsumeTimeout of
       Inl e \<Rightarrow> (Inl e, i)
     | Inr cfg \<Rightarrow> (case newConsumer cfg i of (n, i') \<Rightarrow> (Inr n, i')))"

text \<open>The client of a one-off call.\<close>

definition oneOffProducer :: "kafka_config \<Rightarrow> kafka_instance \<Rightarrow> nat \<times> kafka_instance" where
  "oneOffProducer cfg i = (case ki_producers i (config_key cfg) of
       Some n \<Rightarrow> (n, i)
     | None \<Rightarrow> (case newProducer cfg i of (n, i') \<Rightarrow> (n, i'\<lparr>ki_producers := (ki_producers i')(config_key cfg \<mapsto> n)\<rparr>)))"

definition oneOffConsumer :: "kafka_config \<Rightarrow> kafka_instance \<Rightarrow> nat \<times> kafka_instance" where
  "oneOffConsumer cfg i = (case ki_consumers i (config_key cfg) of
       Some n \<Rightarrow> (n, i)
     | None \<Rightarrow> (case newConsumer cfg i of (n, i') \<Rightarrow> (n, i'\<lparr>ki_consumers := (ki_consumers i')(config_key cfg \<mapsto> n)\<rparr>)))"

text \<open>What a call answers or throws, and what it records.\<close>

definition kafka_produce :: "js_conv \<Rightarrow> kafka_run \<Rightarrow> bool \<Rightarrow> bool \<Rightarrow> produce_world \<Rightarrow> jsv \<Rightarrow> kafka_instance \<Rightarrow>
    (kafka_throw + (nat \<times> produce_result) list) \<times> fam_event list \<times> client_event list \<times> kafka_instance" where
  "kafka_produce cv run context live w msg i = (case readConfig cv msg ''kafka.produce'' defaultProduceTimeout of
       Inl e \<Rightarrow> (Inl e, [], [], i)
     | Inr cfg \<Rightarrow> (case oneOffProducer cfg i of
         (n, i') \<Rightarrow> (case produceBatch cv run context live w [msg] (ki_allProducers i' ! n) of
             Inl e \<Rightarrow> (Inl e, [], [], i')
           | Inr (res, es, ces, p) \<Rightarrow> (Inr res, es, ces, i'\<lparr>ki_allProducers := (ki_allProducers i')[n := p]\<rparr>))))"

definition kafka_consume :: "js_conv \<Rightarrow> kafka_run \<Rightarrow> bool \<Rightarrow> consume_world \<Rightarrow> jsv \<Rightarrow> kafka_instance \<Rightarrow>
    (kafka_throw + consume_result) \<times> fam_event list \<times> client_event list \<times> kafka_instance" where
  "kafka_consume cv run context w params i = (case readConfig cv params ''kafka.consume'' defaultConsumeTimeout of
       Inl e \<Rightarrow> (Inl e, [], [], i)
     | Inr cfg \<Rightarrow> (case oneOffConsumer cfg i of
         (n, i') \<Rightarrow> (case consume cv run context w params (ki_allConsumers i' ! n) of
             Inl e \<Rightarrow> (Inl e, [], [], i')
           | Inr (res, es, ces, c) \<Rightarrow> (Inr res, es, ces, i'\<lparr>ki_allConsumers := (ki_allConsumers i')[n := c]\<rparr>))))"

text \<open>The end of the VU: everything registered with \<open>OnClose\<close> is closed, in the order it was registered.\<close>

fun close_refs :: "client_ref list \<Rightarrow> kafka_instance \<Rightarrow> client_event list \<times> kafka_instance" where
  "close_refs [] i = ([], i)"
| "close_refs (ProducerRef n # rs) i = (case producer_Close (ki_allProducers i ! n) of
     (es, p) \<Rightarrow> (case close_refs rs (i\<lparr>ki_allProducers := (ki_allProducers i)[n := p]\<rparr>) of (es', i') \<Rightarrow> (es @ es', i')))"
| "close_refs (ConsumerRef n # rs) i = (case consumer_Close (ki_allConsumers i ! n) of
     (es, c) \<Rightarrow> (case close_refs rs (i\<lparr>ki_allConsumers := (ki_allConsumers i)[n := c]\<rparr>) of (es', i') \<Rightarrow> (es @ es', i')))"

section \<open>One client per configuration\<close>

text \<open>Every client is registered for closing exactly once, and a shared one has the configuration of its key.\<close>

definition instance_ok :: "kafka_instance \<Rightarrow> bool" where
  "instance_ok i \<longleftrightarrow> distinct (ki_onClose i) \<and>
     set (ki_onClose i) = ProducerRef ` {..<length (ki_allProducers i)} \<union> ConsumerRef ` {..<length (ki_allConsumers i)} \<and>
     (\<forall>k n. ki_producers i k = Some n \<longrightarrow> n < length (ki_allProducers i) \<and> config_key (pd_cfg (ki_allProducers i ! n)) = k) \<and>
     (\<forall>k n. ki_consumers i k = Some n \<longrightarrow> n < length (ki_allConsumers i) \<and> config_key (cn_cfg (ki_allConsumers i ! n)) = k)"

lemma NewInstance_ok: "instance_ok NewInstance"
  by (simp add: instance_ok_def NewInstance_def)

lemma lessThan_length_snoc: "{..<length (xs @ [x])} = insert (length xs) {..<length xs}"
  by auto

lemma newProducer_ok:
  assumes "instance_ok i" "newProducer cfg i = (n, i')"
  shows "instance_ok i'" "n = length (ki_allProducers i)" "ki_allProducers i' = ki_allProducers i @ [new_producer cfg]"
    "ki_producers i' = ki_producers i" "ki_consumers i' = ki_consumers i" "ki_allConsumers i' = ki_allConsumers i"
proof -
  show e: "n = length (ki_allProducers i)" "ki_allProducers i' = ki_allProducers i @ [new_producer cfg]"
    "ki_producers i' = ki_producers i" "ki_consumers i' = ki_consumers i" "ki_allConsumers i' = ki_allConsumers i"
    using assms(2) by (auto simp: newProducer_def Let_def)
  have "ki_onClose i' = ki_onClose i @ [ProducerRef n]" using assms(2) by (auto simp: newProducer_def Let_def)
  then show "instance_ok i'" using assms(1) unfolding instance_ok_def e lessThan_length_snoc
    by (auto simp: nth_append less_Suc_eq)
qed

lemma newConsumer_ok:
  assumes "instance_ok i" "newConsumer cfg i = (n, i')"
  shows "instance_ok i'" "n = length (ki_allConsumers i)" "length (ki_allConsumers i') = Suc n" "cn_cfg (ki_allConsumers i' ! n) = cfg"
    "ki_producers i' = ki_producers i" "ki_consumers i' = ki_consumers i" "ki_allProducers i' = ki_allProducers i"
proof -
  have a: "ki_allConsumers i' = ki_allConsumers i @ [\<lparr>cn_cfg = cfg, cn_client = False, cn_closed = False\<rparr>]"
    "ki_onClose i' = ki_onClose i @ [ConsumerRef n]"
    using assms(2) by (auto simp: newConsumer_def Let_def)
  show e: "n = length (ki_allConsumers i)" "ki_producers i' = ki_producers i" "ki_consumers i' = ki_consumers i"
    "ki_allProducers i' = ki_allProducers i"
    using assms(2) by (auto simp: newConsumer_def Let_def)
  show "length (ki_allConsumers i') = Suc n" "cn_cfg (ki_allConsumers i' ! n) = cfg" by (simp_all add: a e)
  show "instance_ok i'" using assms(1) a(2) unfolding instance_ok_def e(2-4) a(1) lessThan_length_snoc
    by (auto simp: nth_append less_Suc_eq e(1))
qed

lemma oneOffProducer_ok:
  assumes "instance_ok i" "oneOffProducer cfg i = (n, i')"
  shows "instance_ok i' \<and> n < length (ki_allProducers i') \<and> ki_producers i' (config_key cfg) = Some n"
proof (cases "ki_producers i (config_key cfg)")
  case (Some m)
  then show ?thesis using assms by (auto simp: oneOffProducer_def instance_ok_def)
next
  case None
  then obtain i1 where i1: "newProducer cfg i = (n, i1)" "i' = i1\<lparr>ki_producers := (ki_producers i1)(config_key cfg \<mapsto> n)\<rparr>"
    using assms(2) by (auto simp: oneOffProducer_def split: prod.splits)
  note ok = newProducer_ok [OF assms(1) i1(1)]
  show ?thesis using ok(1-3) by (auto simp: i1(2) instance_ok_def new_producer_def nth_append)
qed

lemma oneOffConsumer_ok:
  assumes "instance_ok i" "oneOffConsumer cfg i = (n, i')"
  shows "instance_ok i' \<and> n < length (ki_allConsumers i') \<and> ki_consumers i' (config_key cfg) = Some n"
proof (cases "ki_consumers i (config_key cfg)")
  case (Some m)
  then show ?thesis using assms by (auto simp: oneOffConsumer_def instance_ok_def)
next
  case None
  then obtain i1 where i1: "newConsumer cfg i = (n, i1)" "i' = i1\<lparr>ki_consumers := (ki_consumers i1)(config_key cfg \<mapsto> n)\<rparr>"
    using assms(2) by (auto simp: oneOffConsumer_def split: prod.splits)
  note ok = newConsumer_ok [OF assms(1) i1(1)]
  show ?thesis using ok(1-4) by (auto simp: i1(2) instance_ok_def)
qed

lemma producer_update_ok:
  "instance_ok i \<Longrightarrow> n < length (ki_allProducers i) \<Longrightarrow> pd_cfg p = pd_cfg (ki_allProducers i ! n) \<Longrightarrow>
   instance_ok (i\<lparr>ki_allProducers := (ki_allProducers i)[n := p]\<rparr>)"
  by (auto simp: instance_ok_def nth_list_update)

lemma consumer_update_ok:
  "instance_ok i \<Longrightarrow> n < length (ki_allConsumers i) \<Longrightarrow> cn_cfg c = cn_cfg (ki_allConsumers i ! n) \<Longrightarrow>
   instance_ok (i\<lparr>ki_allConsumers := (ki_allConsumers i)[n := c]\<rparr>)"
  by (auto simp: instance_ok_def nth_list_update)

lemma clientFor_cfg:
  "producer_clientFor create p = (es, e, p') \<Longrightarrow> pd_cfg p' = pd_cfg p"
  "consumer_clientFor create c = (es, e, c') \<Longrightarrow> cn_cfg c' = cn_cfg c"
  by (auto simp: producer_clientFor_def consumer_clientFor_def split: if_splits option.splits)

lemma produceBatch_cfg: "produceBatch cv run context live w msgs p = Inr (res, es, ces, p') \<Longrightarrow> pd_cfg p' = pd_cfg p"
  by (auto simp: produceBatch_def producer_send_def dest: clientFor_cfg split: if_splits prod.splits option.splits)

lemma consume_cfg: "consume cv run context w params c = Inr (res, es, ces, c') \<Longrightarrow> cn_cfg c' = cn_cfg c"
  by (auto simp: consume_def Let_def dest: clientFor_cfg split: if_splits prod.splits sum.splits)

text \<open>The operations of the module object keep the invariant; two one-off calls with the same key use the same client,
  whatever happens between them.\<close>

theorem kafka_instance_ok:
  assumes "instance_ok i"
  shows "instance_ok (snd (constructProducer cv v i))" "instance_ok (snd (constructConsumer cv v i))"
    "kafka_produce cv run context live w v i = (r, es, ces, i') \<Longrightarrow> instance_ok i'"
    "kafka_consume cv run context w' v i = (r', es', ces', i'') \<Longrightarrow> instance_ok i''"
proof -
  show "instance_ok (snd (constructProducer cv v i))" "instance_ok (snd (constructConsumer cv v i))"
    using newProducer_ok(1) [OF assms] newConsumer_ok(1) [OF assms]
    by (auto simp: constructProducer_def constructConsumer_def assms split: sum.split prod.splits)
  show "kafka_produce cv run context live w v i = (r, es, ces, i') \<Longrightarrow> instance_ok i'"
    using assms oneOffProducer_ok [OF assms] producer_update_ok produceBatch_cfg
    by (fastforce simp: kafka_produce_def split: sum.splits prod.splits)
  show "kafka_consume cv run context w' v i = (r', es', ces', i'') \<Longrightarrow> instance_ok i''"
    using assms oneOffConsumer_ok [OF assms] consumer_update_ok consume_cfg
    by (fastforce simp: kafka_consume_def split: sum.splits prod.splits)
qed

lemma one_off_shared:
  assumes "instance_ok i" "oneOffProducer cfg i = (n, i')" "config_key cfg' = config_key cfg"
  shows "oneOffProducer cfg' i' = (n, i')"
  using oneOffProducer_ok [OF assms(1,2)] by (simp add: oneOffProducer_def assms(3))

section \<open>Closing\<close>

definition ref_open :: "kafka_instance \<Rightarrow> client_ref \<Rightarrow> bool" where
  "ref_open i r = (case r of
       ProducerRef n \<Rightarrow> pd_client (ki_allProducers i ! n) \<and> \<not> pd_closed (ki_allProducers i ! n)
     | ConsumerRef n \<Rightarrow> cn_client (ki_allConsumers i ! n) \<and> \<not> cn_closed (ki_allConsumers i ! n))"

definition ref_closed :: "kafka_instance \<Rightarrow> client_ref \<Rightarrow> bool" where
  "ref_closed i r = (case r of ProducerRef n \<Rightarrow> pd_closed (ki_allProducers i ! n) | ConsumerRef n \<Rightarrow> cn_closed (ki_allConsumers i ! n))"

definition ref_in :: "kafka_instance \<Rightarrow> client_ref \<Rightarrow> bool" where
  "ref_in i r = (case r of ProducerRef n \<Rightarrow> n < length (ki_allProducers i) | ConsumerRef n \<Rightarrow> n < length (ki_allConsumers i))"

lemmas ref_defs = ref_open_def ref_closed_def ref_in_def

lemma close_refs_exact:
  assumes "distinct rs" "list_all (ref_in i) rs" "close_refs rs i = (es, i')"
  shows "(\<forall>r. r \<notin> set rs \<longrightarrow> ref_in i r \<longrightarrow> ref_open i' r = ref_open i r \<and> ref_closed i' r = ref_closed i r) \<and>
    list_all (ref_closed i') rs \<and> (\<forall>r. ref_in i' r = ref_in i r) \<and>
    length (filter (\<lambda>e. e = ClientClosed) es) = length (filter (ref_open i) rs)"
  using assms
proof (induction rs arbitrary: i es)
  case (Cons r rs)
  define i1 where "i1 = (case r of
      ProducerRef n \<Rightarrow> i\<lparr>ki_allProducers := (ki_allProducers i)[n := snd (producer_Close (ki_allProducers i ! n))]\<rparr>
    | ConsumerRef n \<Rightarrow> i\<lparr>ki_allConsumers := (ki_allConsumers i)[n := snd (consumer_Close (ki_allConsumers i ! n))]\<rparr>)"
  define es1 where "es1 = (case r of ProducerRef n \<Rightarrow> fst (producer_Close (ki_allProducers i ! n))
    | ConsumerRef n \<Rightarrow> fst (consumer_Close (ki_allConsumers i ! n)))"
  obtain es2 where es2: "close_refs rs i1 = (es2, i')" "es = es1 @ es2"
    using Cons.prems(3) by (cases r) (auto simp: i1_def es1_def split: prod.splits)
  have inr: "ref_in i r" using Cons.prems(2) by simp
  have in1: "ref_in i1 x = ref_in i x" for x by (cases r; cases x) (simp_all add: i1_def ref_in_def)
  have other: "ref_open i1 x = ref_open i x" "ref_closed i1 x = ref_closed i x" if "x \<noteq> r" for x
    using that by (cases r; cases x; simp add: i1_def ref_defs)+
  have closed: "ref_closed i1 r" using inr by (cases r) (simp_all add: i1_def ref_defs producer_Close_def consumer_Close_def)
  have count: "length (filter (\<lambda>e. e = ClientClosed) es1) = (if ref_open i r then 1 else 0)"
    by (cases r) (simp_all add: es1_def ref_open_def producer_Close_def consumer_Close_def)
  have all: "list_all (ref_in i1) rs" using Cons.prems(2) by (simp add: list_all_iff in1)
  have IH: "(\<forall>x. x \<notin> set rs \<longrightarrow> ref_in i1 x \<longrightarrow> ref_open i' x = ref_open i1 x \<and> ref_closed i' x = ref_closed i1 x)"
    "list_all (ref_closed i') rs" "\<forall>x. ref_in i' x = ref_in i1 x"
    "length (filter (\<lambda>e. e = ClientClosed) es2) = length (filter (ref_open i1) rs)"
    using Cons.IH [OF _ all es2(1)] Cons.prems(1) by auto
  have "filter (ref_open i1) rs = filter (ref_open i) rs"
  proof (rule filter_cong [OF refl])
    fix x
    assume "x \<in> set rs"
    then have "x \<noteq> r" using Cons.prems(1) by auto
    then show "ref_open i1 x = ref_open i x" by (rule other)
  qed
  moreover have "ref_closed i' r" using IH(1) closed inr in1 Cons.prems(1) by auto
  ultimately show ?case using IH other in1 count by (simp add: es2(2))
qed simp

text \<open>When the VU ends, every client of its module is closed, and each one that was created and still open is closed
  once.\<close>

theorem kafka_clients_released:
  assumes "instance_ok i" "close_refs (ki_onClose i) i = (es, i')"
  shows "list_all pd_closed (ki_allProducers i') \<and> list_all cn_closed (ki_allConsumers i') \<and>
    length (filter (\<lambda>e. e = ClientClosed) es) =
      length (filter (\<lambda>p. pd_client p \<and> \<not> pd_closed p) (ki_allProducers i)) +
      length (filter (\<lambda>c. cn_client c \<and> \<not> cn_closed c) (ki_allConsumers i))"
proof -
  let ?P = "{..<length (ki_allProducers i)}" and ?C = "{..<length (ki_allConsumers i)}"
  have refs: "distinct (ki_onClose i)" "set (ki_onClose i) = ProducerRef ` ?P \<union> ConsumerRef ` ?C"
    using assms(1) by (simp_all add: instance_ok_def)
  have "list_all (ref_in i) (ki_onClose i)" by (auto simp: list_all_iff refs(2) ref_in_def)
  note ex = close_refs_exact [OF refs(1) this assms(2)]
  have "ref_in i' r = ref_in i r" for r using ex by blast
  from this [of "ProducerRef _"] this [of "ConsumerRef _"]
  have len: "n < length (ki_allProducers i') \<longleftrightarrow> n < length (ki_allProducers i)"
    "n < length (ki_allConsumers i') \<longleftrightarrow> n < length (ki_allConsumers i)" for n by (simp_all add: ref_in_def)
  have cl: "ref_closed i' r" if "r \<in> ProducerRef ` ?P \<union> ConsumerRef ` ?C" for r
    using ex that by (simp add: list_all_iff refs(2))
  have closed: "list_all pd_closed (ki_allProducers i')" "list_all cn_closed (ki_allConsumers i')"
    using cl [of "ProducerRef _"] cl [of "ConsumerRef _"] unfolding list_all_length len
    by (simp_all add: ref_closed_def)
  have "length (filter (ref_open i) (ki_onClose i)) = card {r \<in> set (ki_onClose i). ref_open i r}"
    using refs(1) distinct_card [of "filter (ref_open i) (ki_onClose i)"] by simp
  also have "{r \<in> set (ki_onClose i). ref_open i r} =
      ProducerRef ` {n \<in> ?P. ref_open i (ProducerRef n)} \<union> ConsumerRef ` {n \<in> ?C. ref_open i (ConsumerRef n)}"
    unfolding refs(2) by auto
  also have "card \<dots> = card (ProducerRef ` {n \<in> ?P. ref_open i (ProducerRef n)}) + card (ConsumerRef ` {n \<in> ?C. ref_open i (ConsumerRef n)})"
    by (rule card_Un_disjoint) auto
  also have "\<dots> = card {n \<in> ?P. ref_open i (ProducerRef n)} + card {n \<in> ?C. ref_open i (ConsumerRef n)}"
    by (simp add: card_image inj_on_def)
  finally show ?thesis using ex closed by (simp add: ref_open_def length_filter_conv_card)
qed

end
