(* ===== verification/Grpc_Descriptors.thy ===== *)
theory Grpc_Descriptors
  imports Protocol_Record Js_Convert Go_Json
begin

text \<open>
  The gRPC module's conversions and descriptors: \<open>internal/protocols/grpc/convert.go\<close> and \<open>descriptors.go\<close>.
  The protobuf compiler and registries, server reflection and the errors of grpc-go are arguments; files are
  the trees the compiler returns, or the descriptors a server sends.
\<close>

section \<open>Errors and status: convert.go\<close>

text \<open>An error: the code of its status when \<open>status.FromError\<close> finds one, the message of \<open>status.Convert\<close>, its
  text, and the layers \<open>errors.Is\<close> visits. Wrapping keeps the code and changes both texts.\<close>

record grpc_error =
  ge_Status :: "nat option"
  ge_Message :: string
  ge_Text :: string
  ge_err :: go_error

definition grpc_plain :: "string \<Rightarrow> grpc_error" where
  "grpc_plain t = \<lparr>ge_Status = None, ge_Message = t, ge_Text = t, ge_err = [\<lparr>el_is = [], el_Op = None, el_Timeout = None\<rparr>]\<rparr>"

definition grpc_wrap :: "string \<Rightarrow> grpc_error \<Rightarrow> grpc_error" where
  "grpc_wrap what e = (let t = what @ '': '' @ ge_Text e in e\<lparr>ge_Message := t, ge_Text := t\<rparr>)"

definition code_OK :: nat where "code_OK = 0"
definition code_Canceled :: nat where "code_Canceled = 1"
definition code_Unknown :: nat where "code_Unknown = 2"
definition code_DeadlineExceeded :: nat where "code_DeadlineExceeded = 4"
definition code_Unavailable :: nat where "code_Unavailable = 14"

lemmas status_defs = code_OK_def code_Canceled_def code_Unknown_def code_DeadlineExceeded_def code_Unavailable_def

definition grpc_errorCode :: "grpc_error option \<Rightarrow> string" where
  "grpc_errorCode err = (case err of None \<Rightarrow> CodeNone
     | Some e \<Rightarrow> (case ge_Status e of
         None \<Rightarrow> if errors_is ContextDeadlineExceeded (ge_err e) then CodeTimeout else Classify (Some (ge_err e))
       | Some c \<Rightarrow>
           if c = code_OK then CodeNone
           else if c = code_DeadlineExceeded then CodeTimeout
           else if c = code_Canceled then CodeClosed
           else if c = code_Unavailable
           then (let msg = ge_Message e in
             if str_contains msg ''x509'' \<or> str_contains msg ''tls:'' \<or> str_contains msg ''certificate'' then CodeTLS
             else if str_contains msg ''no such host'' then CodeDNS
             else if str_contains msg ''connection refused'' \<or> str_contains msg ''dial tcp'' \<or>
                     str_contains msg ''actively refused'' then CodeDial
             else CodeClosed)
           else CodeServer))"

text \<open>The status fields of a result; \<open>status_text\<close> is the library's name of \<open>gf_status\<close>.\<close>

record grpc_fields =
  gf_status :: nat
  gf_error :: string
  gf_error_code :: string

definition setStatus :: "grpc_error option \<Rightarrow> string \<Rightarrow> grpc_fields" where
  "setStatus err code =
     \<lparr>gf_status = (case err of None \<Rightarrow> code_OK | Some e \<Rightarrow> (case ge_Status e of Some c \<Rightarrow> c | None \<Rightarrow> code_Unknown)),
      gf_error = (case err of None \<Rightarrow> [] | Some e \<Rightarrow> ge_Message e), gf_error_code = code\<rparr>"

text \<open>A call fails for its metrics exactly when its status is not OK.\<close>

lemma grpc_errorCode_none:
  "grpc_errorCode err = CodeNone \<longleftrightarrow> gf_status (setStatus err code) = code_OK"
proof (cases err)
  case (Some e)
  show ?thesis
  proof (cases "ge_Status e")
    case None
    then show ?thesis using Some Classify_none [of "Some (ge_err e)"]
      by (simp add: grpc_errorCode_def setStatus_def status_defs CodeTimeout_def CodeNone_def)
  next
    case (Some c)
    then show ?thesis using \<open>err = Some e\<close>
      by (simp add: grpc_errorCode_def setStatus_def code_defs Let_def)
  qed
qed (simp add: grpc_errorCode_def setStatus_def)

section \<open>Parameters: convert.go\<close>

type_synonym grpc_md = "(string \<times> string list) list"

definition md_get :: "grpc_md \<Rightarrow> string \<Rightarrow> string list" where
  "md_get md k = (case map_of md k of Some vs \<Rightarrow> vs | None \<Rightarrow> [])"

definition md_Append :: "string \<Rightarrow> string \<Rightarrow> grpc_md \<Rightarrow> grpc_md" where
  "md_Append k v md = (if k \<in> fst ` set md then map (\<lambda>(k', vs). (k', if k' = k then vs @ [v] else vs)) md else md @ [(k, [v])])"

fun metadata_loop :: "(string \<times> jsv) list \<Rightarrow> grpc_md \<Rightarrow> grpc_md" where
  "metadata_loop [] md = md"
| "metadata_loop ((k, v) # ps) md = metadata_loop ps (md_Append (ToLower k) (js_text v) md)"

definition grpc_timeoutError :: js_throw where
  "grpc_timeoutError = TypeError (''grpc: timeout must be a positive number of milliseconds or a duration such as '' @ quoted ''2s'')"

definition grpc_timeoutTextError :: "string \<Rightarrow> js_throw" where
  "grpc_timeoutTextError s = TypeError (''grpc: timeout '' @ quoted s @ '' must be a positive duration, such as '' @ quoted ''2s'')"

definition grpc_parseTimeout :: "js_conv \<Rightarrow> jsv \<Rightarrow> js_throw + duration" where
  "grpc_parseTimeout cv v =
     (if js_isString v
      then (case ParseDuration (js_text v) of
          None \<Rightarrow> Inl (grpc_timeoutTextError (js_text v))
        | Some d \<Rightarrow> if d \<le> 0 then Inl (grpc_timeoutTextError (js_text v)) else Inr d)
      else let ms = jc_num cv v
        in if f64_le ms (Fin 0) \<or> ms = NaN then Inl grpc_timeoutError
           else Inr (int64_of_f64 (jc_wild cv) (f64_mul ms (f64_of_int millisecond))))"

definition grpc_defaultTimeout :: duration where "grpc_defaultTimeout = 30 * second"

record call_params =
  cp_md :: "grpc_md option"
  cp_timeout :: duration

definition grpc_readParams :: "js_conv \<Rightarrow> jsv \<Rightarrow> js_throw + call_params" where
  "grpc_readParams cv v =
     (let p = \<lparr>cp_md = None, cp_timeout = grpc_defaultTimeout\<rparr>
      in if \<not> isSet v then Inr p
         else
           let mv = js_get v ''metadata''; tv = js_get v ''timeout'';
               p = (if isSet mv then p\<lparr>cp_md := Some (metadata_loop (js_props mv) [])\<rparr> else p)
           in if isSet tv
              then (case grpc_parseTimeout cv tv of Inl e \<Rightarrow> Inl e | Inr d \<Rightarrow> Inr (p\<lparr>cp_timeout := d\<rparr>))
              else Inr p)"

definition mdValue :: "grpc_md \<Rightarrow> (string \<times> string) list" where
  "mdValue md = map (\<lambda>(k, vs). (k, str_join vs '', '')) md"

text \<open>The metadata of a call: under each key, the values the script gave for it in any case, in order.\<close>

lemma map_of_map_values: "map_of (map (\<lambda>(k', vs). (k', g k' vs)) md) k = map_option (g k) (map_of md k)"
  by (induction md) auto

lemma md_get_Append: "md_get (md_Append k v md) k' = md_get md k' @ (if k' = k then [v] else [])"
proof (cases "k \<in> fst ` set md")
  case True
  then obtain vs where "map_of md k = Some vs" by (metis map_of_eq_None_iff not_None_eq)
  then show ?thesis using True by (simp add: md_get_def md_Append_def map_of_map_values split: option.split)
next
  case False
  then have "map_of md k = None" by (simp add: map_of_eq_None_iff)
  then show ?thesis using False by (simp add: md_get_def md_Append_def map_add_def split: option.split)
qed

lemma metadata_values:
  "md_get (metadata_loop ps md) k = md_get md k @ map (js_text \<circ> snd) (filter (\<lambda>p. ToLower (fst p) = k) ps)"
  by (induction ps arbitrary: md) (auto simp: md_get_Append)

section \<open>Paths and the files to compile: descriptors.go\<close>

text \<open>\<open>filepath.Clean\<close>, \<open>Join\<close> and \<open>IsAbs\<close> on Unix.\<close>

fun slash_parts :: "string \<Rightarrow> string list" where
  "slash_parts [] = [[]]"
| "slash_parts (c # s) = (if c = CHR ''/'' then [] # slash_parts s
     else (case slash_parts s of p # ps \<Rightarrow> (c # p) # ps | [] \<Rightarrow> [[c]]))"

fun clean_parts :: "bool \<Rightarrow> string list \<Rightarrow> string list \<Rightarrow> string list" where
  "clean_parts rooted out [] = rev out"
| "clean_parts rooted out (c # cs) =
     (if c = [] \<or> c = ''.'' then clean_parts rooted out cs
      else if c = ''..'' then
        (if out \<noteq> [] \<and> hd out \<noteq> ''..'' then clean_parts rooted (tl out) cs
         else if rooted then clean_parts rooted out cs
         else clean_parts rooted (''..'' # out) cs)
      else clean_parts rooted (c # out) cs)"

definition path_IsAbs :: "string \<Rightarrow> bool" where
  "path_IsAbs p = has_prefix p ''/''"

definition path_Clean :: "string \<Rightarrow> string" where
  "path_Clean p =
     (let parts = clean_parts (path_IsAbs p) [] (slash_parts p)
      in if path_IsAbs p then ''/'' @ str_join parts ''/''
         else if parts = [] then ''.'' else str_join parts ''/'')"

definition path_Join :: "string \<Rightarrow> string \<Rightarrow> string" where
  "path_Join a b = (if a \<noteq> [] then path_Clean (a @ ''/'' @ b) else if b \<noteq> [] then path_Clean b else [])"

definition load_paths :: "string \<Rightarrow> string list \<Rightarrow> string list" where
  "load_paths dir importPaths =
     (let ps = map (\<lambda>p. if \<not> path_IsAbs p \<and> dir \<noteq> [] then path_Join dir p else p) importPaths
      in if ps = [] \<and> dir \<noteq> [] then [dir] else ps)"

definition load_key :: "string list \<Rightarrow> string list \<Rightarrow> string" where
  "load_key ps files = str_join ps [CHR 0x00] @ [CHR 0x01] @ str_join files [CHR 0x00]"

section \<open>Registries: descriptors.go\<close>

record grpc_method =
  gm_Name :: string
  gm_Input :: string
  gm_StreamingClient :: bool
  gm_StreamingServer :: bool

datatype descriptor = ServiceDesc "grpc_method list" | OtherDesc

datatype file_desc = FileDesc (fd_Path: string) (fd_Imports: "file_desc list") (fd_Names: "(string \<times> descriptor) list")

text \<open>A registry is the files registered in it; \<open>conflict\<close> is why the library refuses one.\<close>

fun registerWithImports :: "(file_desc list \<Rightarrow> file_desc \<Rightarrow> grpc_error option) \<Rightarrow> file_desc list \<Rightarrow> file_desc \<Rightarrow> grpc_error + file_desc list"
  and register_each :: "(file_desc list \<Rightarrow> file_desc \<Rightarrow> grpc_error option) \<Rightarrow> file_desc list \<Rightarrow> file_desc list \<Rightarrow> grpc_error + file_desc list" where
  "registerWithImports conflict fs (FileDesc p is ns) =
     (if p \<in> fd_Path ` set fs then Inr fs
      else (case register_each conflict fs is of
          Inl e \<Rightarrow> Inl e
        | Inr fs' \<Rightarrow> (case conflict fs' (FileDesc p is ns) of Some e \<Rightarrow> Inl e | None \<Rightarrow> Inr (fs' @ [FileDesc p is ns]))))"
| "register_each conflict fs [] = Inr fs"
| "register_each conflict fs (f # gs) =
     (case registerWithImports conflict fs f of Inl e \<Rightarrow> Inl e | Inr fs' \<Rightarrow> register_each conflict fs' gs)"

text \<open>The work done once for a set of files: \<open>compile\<close> is the protobuf compiler.\<close>

record grpc_lib =
  gl_compile :: "string list \<Rightarrow> string list \<Rightarrow> grpc_error + file_desc list"
  gl_conflict :: "file_desc list \<Rightarrow> file_desc \<Rightarrow> grpc_error option"

definition load_files :: "grpc_lib \<Rightarrow> string list \<Rightarrow> string list \<Rightarrow> grpc_error + file_desc list" where
  "load_files lib ps files = (case gl_compile lib ps files of Inl e \<Rightarrow> Inl e | Inr out \<Rightarrow> register_each (gl_conflict lib) [] out)"

text \<open>\<open>FindDescriptorByName\<close>, and the method of a service.\<close>

definition find_descriptor :: "file_desc list \<Rightarrow> string \<Rightarrow> descriptor option" where
  "find_descriptor fs name = map_of (concat (map fd_Names fs)) name"

definition method_named :: "grpc_method list \<Rightarrow> string \<Rightarrow> grpc_method option" where
  "method_named ms name = List.find (\<lambda>m. gm_Name m = name) ms"

text \<open>\<open>strings.Cut\<close> at a slash.\<close>

fun cut_slash :: "string \<Rightarrow> (string \<times> string) option" where
  "cut_slash [] = None"
| "cut_slash (c # s) = (if c = CHR ''/'' then Some ([], s)
     else (case cut_slash s of None \<Rightarrow> None | Some (a, b) \<Rightarrow> Some (c # a, b)))"

definition errUnknownMethod :: string where "errUnknownMethod = ''unknown method''"

definition set_method :: "string \<Rightarrow> string \<Rightarrow> file_desc list \<Rightarrow> grpc_method option" where
  "set_method svc name fs = (case find_descriptor fs svc of Some (ServiceDesc ms) \<Rightarrow> method_named ms name | _ \<Rightarrow> None)"

definition findMethod :: "file_desc list list \<Rightarrow> string \<Rightarrow> grpc_error + grpc_method \<times> string" where
  "findMethod sets meth =
     (case cut_slash (trim_prefix meth ''/'') of
        None \<Rightarrow> Inl (grpc_plain (errUnknownMethod @ '' '' @ quoted meth @ '': write it as '' @ quoted ''package.Service/Method''))
      | Some (svc, name) \<Rightarrow>
          if svc = [] \<or> name = []
          then Inl (grpc_plain (errUnknownMethod @ '' '' @ quoted meth @ '': write it as '' @ quoted ''package.Service/Method''))
          else (case first_some (set_method svc name) sets of
              Some m \<Rightarrow> Inr (m, ''/'' @ svc @ ''/'' @ name)
            | None \<Rightarrow> Inl (grpc_plain (errUnknownMethod @ '' '' @ quoted meth @ '': load its .proto file, or connect with reflect: true''))))"

section \<open>Server reflection: descriptors.go\<close>

record file_proto =
  fp_Name :: string
  fp_Dependency :: "string list"

text \<open>\<open>add\<close> of \<open>buildFiles\<close> for each of a list of names: the names seen and the files added so far. \<open>fuel\<close> bounds
  its depth; \<open>None\<close> when it is not enough.\<close>

fun add_files :: "nat \<Rightarrow> (string \<Rightarrow> file_proto option) \<Rightarrow> string list \<Rightarrow> string list \<times> file_proto list \<Rightarrow>
    (string + string list \<times> file_proto list) option" where
  "add_files fuel lk [] st = Some (Inr st)"
| "add_files 0 lk (n # ns) st = None"
| "add_files (Suc k) lk (n # ns) (seen, out) =
     (if n \<in> set seen then add_files (Suc k) lk ns (seen, out)
      else (case lk n of
          None \<Rightarrow> Some (Inl n)
        | Some fd \<Rightarrow> (case add_files k lk (fp_Dependency fd) (n # seen, out) of
              None \<Rightarrow> None
            | Some (Inl e) \<Rightarrow> Some (Inl e)
            | Some (Inr (seen', out')) \<Rightarrow> add_files (Suc k) lk ns (seen', out' @ [fd]))))"

text \<open>A file the server sent, or one of the global registry.\<close>

definition find_proto :: "(string \<times> file_proto) list \<Rightarrow> (string \<times> file_proto) list \<Rightarrow> string \<Rightarrow> file_proto option" where
  "find_proto protos globals n = (case map_of protos n of Some fd \<Rightarrow> Some fd | None \<Rightarrow> map_of globals n)"

definition not_sent :: "string \<Rightarrow> grpc_error" where
  "not_sent name = grpc_plain (''server reflection: the server did not send '' @ name)"

text \<open>\<open>order\<close> is the order in which Go iterates the map \<open>protos\<close>.\<close>

definition buildFiles :: "(string \<times> file_proto) list \<Rightarrow> (string \<times> file_proto) list \<Rightarrow> string list \<Rightarrow> (grpc_error + file_proto list) option" where
  "buildFiles protos globals order =
     (case add_files (Suc (length protos + length globals)) (find_proto protos globals) order ([], []) of
        None \<Rightarrow> None
      | Some (Inl n) \<Rightarrow> Some (Inl (not_sent n))
      | Some (Inr (seen, out)) \<Rightarrow> Some (Inr out))"

text \<open>What the server answers: whether the stream opens, the services it lists, and the descriptors it sends for
  the \<open>n\<close>-th service asked for; \<open>rf_unmarshal\<close> decodes one.\<close>

record 'raw reflection =
  rf_open :: "grpc_error option"
  rf_services :: "grpc_error + string list"
  rf_answer :: "nat \<Rightarrow> string \<Rightarrow> grpc_error + 'raw list"
  rf_unmarshal :: "'raw \<Rightarrow> grpc_error + file_proto"

fun unmarshal_each :: "('raw \<Rightarrow> grpc_error + file_proto) \<Rightarrow> 'raw list \<Rightarrow> (string \<times> file_proto) list \<Rightarrow>
    grpc_error + (string \<times> file_proto) list" where
  "unmarshal_each un [] protos = Inr protos"
| "unmarshal_each un (raw # raws) protos = (case un raw of
       Inl e \<Rightarrow> Inl (grpc_wrap ''server reflection'' e)
     | Inr fd \<Rightarrow> unmarshal_each un raws (AList.update (fp_Name fd) fd protos))"

fun fetch_services :: "'raw reflection \<Rightarrow> nat \<Rightarrow> string list \<Rightarrow> (string \<times> file_proto) list \<Rightarrow> grpc_error + (string \<times> file_proto) list" where
  "fetch_services rf n [] protos = Inr protos"
| "fetch_services rf n (svc # svcs) protos =
     (if has_prefix svc ''grpc.reflection.'' then fetch_services rf n svcs protos
      else (case rf_answer rf n svc of
          Inl e \<Rightarrow> Inl (grpc_wrap (''server reflection for '' @ svc) e)
        | Inr raws \<Rightarrow> (case unmarshal_each (rf_unmarshal rf) raws protos of
              Inl e \<Rightarrow> Inl e
            | Inr protos' \<Rightarrow> fetch_services rf (Suc n) svcs protos')))"

definition fetchDescriptors :: "'raw reflection \<Rightarrow> (string \<times> file_proto) list \<Rightarrow> (string list \<Rightarrow> string list) \<Rightarrow>
    (file_proto list \<Rightarrow> grpc_error + file_desc list) \<Rightarrow> (grpc_error + file_desc list) option" where
  "fetchDescriptors rf globals iteration newFiles =
     (case rf_open rf of
        Some e \<Rightarrow> Some (Inl (grpc_wrap ''server reflection'' e))
      | None \<Rightarrow> (case rf_services rf of
          Inl e \<Rightarrow> Some (Inl (grpc_wrap ''server reflection'' e))
        | Inr svcs \<Rightarrow> (case fetch_services rf 0 svcs [] of
            Inl e \<Rightarrow> Some (Inl e)
          | Inr protos \<Rightarrow> (case buildFiles protos globals (iteration (map fst protos)) of
              None \<Rightarrow> None
            | Some (Inl e) \<Rightarrow> Some (Inl e)
            | Some (Inr out) \<Rightarrow> Some (newFiles out)))))"

section \<open>The descriptors reflection builds\<close>

text \<open>The names needed for some files: them and what they import.\<close>

inductive_set needed :: "(string \<Rightarrow> file_proto option) \<Rightarrow> string set \<Rightarrow> string set"
  for lk :: "string \<Rightarrow> file_proto option" and roots :: "string set" where
  needed_root: "n \<in> roots \<Longrightarrow> n \<in> needed lk roots"
| needed_dep: "n \<in> needed lk roots \<Longrightarrow> lk n = Some fd \<Longrightarrow> d \<in> set (fp_Dependency fd) \<Longrightarrow> d \<in> needed lk roots"

lemma needed_mono: "n \<in> needed lk a \<Longrightarrow> a \<subseteq> needed lk b \<Longrightarrow> n \<in> needed lk b"
  by (induction rule: needed.induct) (auto intro: needed.intros)

lemma needed_closed:
  assumes "n \<in> needed lk roots" "roots \<subseteq> s" "\<And>m fd. m \<in> s \<Longrightarrow> lk m = Some fd \<Longrightarrow> set (fp_Dependency fd) \<subseteq> s"
  shows "n \<in> s"
  using assms(1) by (induction rule: needed.induct) (use assms(2,3) in blast)+

text \<open>Each file comes after the files it imports.\<close>

definition imports_first :: "file_proto list \<Rightarrow> bool" where
  "imports_first out \<longleftrightarrow> (\<forall>i<length out. set (fp_Dependency (out ! i)) \<subseteq> fp_Name ` set (take i out))"

definition known_proto :: "(string \<Rightarrow> file_proto option) \<Rightarrow> bool" where
  "known_proto lk \<longleftrightarrow> (\<forall>n fd. lk n = Some fd \<longrightarrow> fp_Name fd = n)"

lemma imports_first_snoc [simp]:
  "imports_first (out @ [fd]) \<longleftrightarrow> imports_first out \<and> set (fp_Dependency fd) \<subseteq> fp_Name ` set out"
  by (auto simp: imports_first_def nth_append less_Suc_eq)

text \<open>Enough fuel: the files that can still be added.\<close>

lemma add_files_fuel:
  "finite (dom lk) \<Longrightarrow> card (dom lk - set (fst st)) < fuel \<Longrightarrow>
    \<exists>r. add_files fuel lk ns st = Some r \<and> (\<forall>seen out. r = Inr (seen, out) \<longrightarrow> set (fst st) \<subseteq> set seen)"
proof (induction fuel lk ns st rule: add_files.induct)
  case (3 k lk n ns seen out)
  show ?case
  proof (cases "n \<in> set seen \<or> lk n = None")
    case True
    then show ?thesis using 3 by auto
  next
    case False
    then obtain fd where fd: "n \<notin> set seen" "lk n = Some fd" by auto
    have "card (dom lk - set (n # seen)) < card (dom lk - set seen)"
      using fd 3(4) by (intro psubset_card_mono) auto
    then have "card (dom lk - set (fst (n # seen, out))) < k" using 3(5) by simp
    then obtain r where r: "add_files k lk (fp_Dependency fd) (n # seen, out) = Some r"
      "\<forall>seen' out'. r = Inr (seen', out') \<longrightarrow> insert n (set seen) \<subseteq> set seen'"
      using 3(2) [OF fd 3(4)] by auto
    show ?thesis
    proof (cases r)
      case (Inr so)
      obtain seen' out' where so: "so = (seen', out')" by fastforce
      have s: "insert n (set seen) \<subseteq> set seen'" using r(2) Inr so by simp
      then have "card (dom lk - set seen') \<le> card (dom lk - set seen)" using 3(4) by (intro card_mono) auto
      then have "card (dom lk - set (fst (seen', out' @ [fd]))) < Suc k" using 3(5) by simp
      then obtain r' where "add_files (Suc k) lk ns (seen', out' @ [fd]) = Some r'"
        "\<forall>s2 o2. r' = Inr (s2, o2) \<longrightarrow> set seen' \<subseteq> set s2" using 3(3) [OF fd r(1) [unfolded Inr so] refl refl 3(4)] by auto
      then show ?thesis using fd r(1) s Inr so by auto
    qed (use fd r in auto)
  qed
qed auto

text \<open>What is added: each file once, with its imports among the files seen.\<close>

definition added :: "(string \<Rightarrow> file_proto option) \<Rightarrow> string set \<Rightarrow> string set \<Rightarrow> string set \<Rightarrow> file_proto list \<Rightarrow> bool" where
  "added lk ns seen seen' new \<longleftrightarrow> seen' = seen \<union> fp_Name ` set new \<and> distinct (map fp_Name new) \<and>
     fp_Name ` set new \<inter> seen = {} \<and> ns \<subseteq> seen' \<and> fp_Name ` set new \<subseteq> needed lk ns \<and>
     (\<forall>fd\<in>set new. lk (fp_Name fd) = Some fd \<and> set (fp_Dependency fd) \<subseteq> seen')"

lemma added_join:
  assumes "lk n = Some fd" "fp_Name fd = n" "n \<notin> seen"
    and "added lk (set (fp_Dependency fd)) (insert n seen) s1 new1" "added lk ns s1 s2 new2"
  shows "added lk (insert n ns) seen s2 (new1 @ fd # new2)"
proof -
  have "set (fp_Dependency fd) \<subseteq> needed lk (insert n ns)" using assms(1) by (auto intro: needed.intros)
  then have d: "needed lk (set (fp_Dependency fd)) \<subseteq> needed lk (insert n ns)" using needed_mono by blast
  have "ns \<subseteq> needed lk (insert n ns)" by (auto intro: needed_root)
  then have r: "needed lk ns \<subseteq> needed lk (insert n ns)" using needed_mono by blast
  have n: "n \<in> needed lk (insert n ns)" by (simp add: needed_root)
  show ?thesis using assms d r n unfolding added_def by auto
qed

lemma added_skip:
  assumes "n \<in> seen" "added lk ns seen seen' new"
  shows "added lk (insert n ns) seen seen' new"
proof -
  have "ns \<subseteq> needed lk (insert n ns)" by (auto intro: needed_root)
  then have "needed lk ns \<subseteq> needed lk (insert n ns)" using needed_mono by blast
  then show ?thesis using assms unfolding added_def by (intro conjI) blast+
qed

lemma add_files_added:
  "add_files fuel lk ns st = Some (Inr (seen', out')) \<Longrightarrow> known_proto lk \<Longrightarrow>
    \<exists>new. out' = snd st @ new \<and> added lk (set ns) (set (fst st)) (set seen') new"
proof (induction fuel lk ns st arbitrary: seen' out' rule: add_files.induct)
  case (3 k lk n ns seen out)
  show ?case
  proof (cases "n \<in> set seen")
    case True
    then obtain new where new: "out' = out @ new" "added lk (set ns) (set seen) (set seen') new" using 3(1,4,5) by auto
    then show ?thesis using added_skip [OF True new(2)] by simp
  next
    case False
    then obtain fd s1 o1 where f: "lk n = Some fd" "add_files k lk (fp_Dependency fd) (n # seen, out) = Some (Inr (s1, o1))"
      "add_files (Suc k) lk ns (s1, o1 @ [fd]) = Some (Inr (seen', out'))"
      using 3(4) by (auto split: option.splits sum.splits)
    have "fp_Name fd = n" using f(1) 3(5) by (simp add: known_proto_def)
    moreover obtain new1 where "o1 = out @ new1" "added lk (set (fp_Dependency fd)) (insert n (set seen)) (set s1) new1"
      using 3(2) [OF False f(1) f(2) 3(5)] by auto
    moreover obtain new2 where "out' = (o1 @ [fd]) @ new2" "added lk (set ns) (set s1) (set seen') new2"
      using 3(3) [OF False f(1) f(2) refl refl f(3) 3(5)] by auto
    ultimately show ?thesis using added_join [where lk = lk and n = n and fd = fd and seen = "set seen"] f(1) False
      by (intro exI [of _ "new1 @ fd # new2"]) auto
  qed
qed (auto simp: added_def)

lemma add_files_error:
  "add_files fuel lk ns st = Some (Inl e) \<Longrightarrow> e \<in> needed lk (set ns) \<and> lk e = None"
proof (induction fuel lk ns st rule: add_files.induct)
  case (3 k lk n ns seen out)
  have "set ns \<subseteq> needed lk (set (n # ns))" by (auto intro: needed_root)
  then have r: "e \<in> needed lk (set ns) \<Longrightarrow> e \<in> needed lk (set (n # ns))" using needed_mono by blast
  have d: "e \<in> needed lk (set (n # ns))" if "lk n = Some fd" "e \<in> needed lk (set (fp_Dependency fd))" for fd
  proof -
    have "set (fp_Dependency fd) \<subseteq> needed lk (set (n # ns))" using that(1) by (auto intro: needed.intros)
    then show ?thesis using that(2) needed_mono by blast
  qed
  show ?case
  proof (cases "n \<in> set seen")
    case True
    then show ?thesis using 3(1,4) r by auto
  next
    case False
    then consider "lk n = None" "e = n" | fd where "lk n = Some fd" "add_files k lk (fp_Dependency fd) (n # seen, out) = Some (Inl e)"
      | fd s1 o1 where "lk n = Some fd" "add_files k lk (fp_Dependency fd) (n # seen, out) = Some (Inr (s1, o1))"
        "add_files (Suc k) lk ns (s1, o1 @ [fd]) = Some (Inl e)"
      using 3(4) by (auto split: option.splits sum.splits)
    then show ?thesis
    proof cases
      case 1
      then show ?thesis by (simp add: needed_root)
    next
      case (2 fd)
      then show ?thesis using 3(2) [OF False 2] d by auto
    next
      case (3 fd s1 o1)
      then show ?thesis using "3.IH"(3) [OF False 3(1,2) refl refl 3(3)] r by auto
    qed
  qed
qed auto

text \<open>When imports have no cycle, each file is added after its imports: the files seen and not yet added are
  those above it.\<close>

definition import_rel :: "(string \<Rightarrow> file_proto option) \<Rightarrow> (string \<times> string) set" where
  "import_rel lk = {(d, n). \<exists>fd. lk n = Some fd \<and> d \<in> set (fp_Dependency fd)}"

lemma add_files_order:
  assumes rank: "\<And>d n. (d, n) \<in> import_rel lk \<Longrightarrow> (r d :: nat) < r n"
  shows "add_files fuel lk ns st = Some (Inr (seen', out')) \<Longrightarrow> known_proto lk \<Longrightarrow> imports_first (snd st) \<Longrightarrow>
    (\<And>g n. g \<in> set (fst st) - fp_Name ` set (snd st) \<Longrightarrow> n \<in> set ns \<Longrightarrow> r n < r g) \<Longrightarrow> imports_first out'"
proof (induction fuel lk\<equiv>lk ns st arbitrary: seen' out' rule: add_files.induct)
  case (3 k n ns seen out)
  show ?case
  proof (cases "n \<in> set seen")
    case True
    then show ?thesis using 3 by (auto intro!: 3(1))
  next
    case False
    then obtain fd s1 o1 where f: "lk n = Some fd" "add_files k lk (fp_Dependency fd) (n # seen, out) = Some (Inr (s1, o1))"
      "add_files (Suc k) lk ns (s1, o1 @ [fd]) = Some (Inr (seen', out'))"
      using 3(4) by (auto split: option.splits sum.splits)
    have dr: "r d < r n" if "d \<in> set (fp_Dependency fd)" for d using rank [of d n] that f(1) by (auto simp: import_rel_def)
    have up: "r n < r g" if "g \<in> set seen - fp_Name ` set out" for g using 3(7) [of g n] that by simp
    have o1: "imports_first o1"
    proof (rule 3(2) [OF False f(1) f(2) 3(5)])
      show "imports_first (snd (n # seen, out))" using 3(6) by simp
      show "r d < r g" if "g \<in> set (fst (n # seen, out)) - fp_Name ` set (snd (n # seen, out))" "d \<in> set (fp_Dependency fd)" for g d
        using that dr [of d] up [of g] by fastforce
    qed
    obtain new where new: "o1 = out @ new" "added lk (set (fp_Dependency fd)) (insert n (set seen)) (set s1) new"
      using add_files_added [OF f(2) 3(5)] by auto
    have fn: "fp_Name fd = n" using f(1) 3(5) by (simp add: known_proto_def)
    have "d \<in> fp_Name ` set o1" if "d \<in> set (fp_Dependency fd)" for d
    proof -
      have "d \<in> insert n (set seen \<union> fp_Name ` set new)" using new(2) that by (auto simp: added_def)
      moreover have "d \<noteq> n" using dr [OF that] by auto
      moreover have "d \<in> set seen \<Longrightarrow> d \<in> fp_Name ` set out" using up [of d] dr [OF that] by auto
      ultimately show ?thesis unfolding new(1) set_append image_Un by blast
    qed
    then have o2: "imports_first (o1 @ [fd])" using o1 by auto
    have "r m < r g" if "g \<in> set s1 - fp_Name ` set (o1 @ [fd])" "m \<in> set ns" for g m
      using that new fn 3(7) [of g m] by (auto simp: added_def)
    then show ?thesis using 3(3) [OF False f(1) f(2) refl refl f(3) 3(5)] o2 by auto
  qed
qed auto

lemma acyclic_rank:
  assumes "finite R" "acyclic R" "(d, n) \<in> R"
  shows "card {m. (m, d) \<in> R\<^sup>+} < card {m. (m, n) \<in> R\<^sup>+}"
proof (rule psubset_card_mono)
  have "finite (R\<^sup>+)" using assms(1) by (simp add: finite_trancl)
  then have "finite (fst ` R\<^sup>+)" by (rule finite_imageI)
  then show "finite {m. (m, n) \<in> R\<^sup>+}" by (rule rev_finite_subset) force
  have "d \<notin> {m. (m, d) \<in> R\<^sup>+}" using assms(2) by (simp add: acyclic_def)
  then show "{m. (m, d) \<in> R\<^sup>+} \<subset> {m. (m, n) \<in> R\<^sup>+}" using assms(3) by (auto intro: trancl_into_trancl)
qed

lemma find_proto_dom: "finite (dom (find_proto protos globals))" "card (dom (find_proto protos globals)) \<le> length protos + length globals"
proof -
  have "dom (find_proto protos globals) = fst ` set (protos @ globals)"
    by (auto simp: find_proto_def dom_map_of_conv_image_fst image_Un split: option.splits)
       (metis domI domIff dom_map_of_conv_image_fst image_eqI fst_conv map_of_SomeD not_None_eq)+
  then show "finite (dom (find_proto protos globals))" "card (dom (find_proto protos globals)) \<le> length protos + length globals"
    using card_image_le [of "set (protos @ globals)" fst] card_length [of "protos @ globals"] by simp_all
qed

lemma import_rel_finite: "finite (dom lk) \<Longrightarrow> finite (import_rel lk)"
proof -
  assume "finite (dom lk)"
  moreover have "import_rel lk = (\<Union>n\<in>dom lk. (\<lambda>d. (d, n)) ` set (fp_Dependency (the (lk n))))"
    by (auto simp: import_rel_def)
  ultimately show ?thesis by simp
qed

definition named_protos :: "(string \<times> file_proto) list \<Rightarrow> bool" where
  "named_protos ps \<longleftrightarrow> list_all (\<lambda>(n, fd). fp_Name fd = n) ps"

lemma find_proto_known: "named_protos protos \<Longrightarrow> named_protos globals \<Longrightarrow> known_proto (find_proto protos globals)"
  by (auto simp: known_proto_def find_proto_def named_protos_def list_all_iff split: option.splits dest!: map_of_SomeD)


definition protos_example :: "(string \<times> file_proto) list" where
  "protos_example = [(''a'', \<lparr>fp_Name = ''a'', fp_Dependency = [''b'', ''t'']\<rparr>), (''b'', \<lparr>fp_Name = ''b'', fp_Dependency = [''t'']\<rparr>)]"

definition globals_example :: "(string \<times> file_proto) list" where
  "globals_example = [(''t'', \<lparr>fp_Name = ''t'', fp_Dependency = []\<rparr>)]"


section \<open>Files loaded\<close>

text \<open>Registering keeps what was registered, and each file comes after those it imports.\<close>

fun files_depth :: "file_desc list \<Rightarrow> bool" where
  "files_depth [] = True"
| "files_depth (f # fs) = (files_depth fs \<and> fd_Path ` set (fd_Imports f) \<subseteq> fd_Path ` set fs)"

definition registered :: "file_desc list \<Rightarrow> bool" where
  "registered fs \<longleftrightarrow> distinct (map fd_Path fs) \<and> files_depth (rev fs)"

text \<open>The library refuses a second file of the same path.\<close>

definition refuses_twice :: "(file_desc list \<Rightarrow> file_desc \<Rightarrow> grpc_error option) \<Rightarrow> bool" where
  "refuses_twice conflict \<longleftrightarrow> (\<forall>fs f. fd_Path f \<in> fd_Path ` set fs \<longrightarrow> conflict fs f \<noteq> None)"

lemma register_exact:
  "registerWithImports conflict fs f = Inr fs' \<Longrightarrow> refuses_twice conflict \<Longrightarrow> registered fs \<Longrightarrow>
     registered fs' \<and> set fs \<subseteq> set fs' \<and> fd_Path f \<in> fd_Path ` set fs'"
  "register_each conflict fs gs = Inr fs' \<Longrightarrow> refuses_twice conflict \<Longrightarrow> registered fs \<Longrightarrow>
     registered fs' \<and> set fs \<subseteq> set fs' \<and> fd_Path ` set gs \<subseteq> fd_Path ` set fs'"
proof (induction conflict fs f and conflict fs gs arbitrary: fs' and fs' rule: registerWithImports_register_each.induct)
  case (1 conflict fs p fis ns)
  show ?case
  proof (cases "p \<in> fd_Path ` set fs")
    case False
    then obtain fs1 where f: "register_each conflict fs fis = Inr fs1" "conflict fs1 (FileDesc p fis ns) = None" "fs' = fs1 @ [FileDesc p fis ns]"
      using 1(2) by (auto split: sum.splits option.splits)
    have "registered fs1 \<and> set fs \<subseteq> set fs1 \<and> fd_Path ` set fis \<subseteq> fd_Path ` set fs1" using 1(1) [OF False f(1) 1(3,4)] .
    moreover have "fd_Path (FileDesc p fis ns) \<notin> fd_Path ` set fs1" using 1(3) f(2) unfolding refuses_twice_def by blast
    ultimately show ?thesis using f(3) by (auto simp: registered_def)
  qed (use 1 in auto)
next
  case (3 conflict fs f gs)
  then obtain fs1 where f: "registerWithImports conflict fs f = Inr fs1" "register_each conflict fs1 gs = Inr fs'"
    by (auto split: sum.splits)
  show ?case using 3(1) [OF f(1) 3(4,5)] 3(2) [OF f 3(4)] by auto
qed simp

lemma loaded_files:
  assumes "load_files lib ps files = Inr fs" "refuses_twice (gl_conflict lib)"
  shows "\<exists>out. gl_compile lib ps files = Inr out \<and> registered fs \<and> fd_Path ` set out \<subseteq> fd_Path ` set fs"
  using assms register_exact(2) [of "gl_conflict lib" "[]"]
  by (auto simp: load_files_def registered_def split: sum.splits)

text \<open>A method is looked up in the sets in the order they were loaded; a name without a service, or with no
  method in any of them, is an error.\<close>

lemma cut_slash_parts: "cut_slash s = Some (a, b) \<longleftrightarrow> s = a @ CHR ''/'' # b \<and> CHR ''/'' \<notin> set a"
proof (induction s arbitrary: a)
  case (Cons c s)
  show ?case
  proof (cases "c = CHR ''/''")
    case True
    then show ?thesis by (cases a) auto
  next
    case False
    have "cut_slash (c # s) = Some (a, b) \<longleftrightarrow> (\<exists>a'. a = c # a' \<and> cut_slash s = Some (a', b))"
      using False by (auto simp del: cut_slash.simps simp: cut_slash.simps(2) split: option.split)
    then show ?thesis using False Cons.IH by (cases a) auto
  qed
qed simp

lemma first_some_in: "first_some g xs = Some y \<Longrightarrow> \<exists>x\<in>set xs. g x = Some y"
  by (induction xs) (auto split: option.splits)

lemma method_found:
  assumes "findMethod sets meth = Inr (m, full)"
  shows "\<exists>svc fs ms. full = ''/'' @ svc @ ''/'' @ gm_Name m \<and> trim_prefix meth ''/'' = svc @ ''/'' @ gm_Name m \<and> fs \<in> set sets \<and>
    find_descriptor fs svc = Some (ServiceDesc ms) \<and> m \<in> set ms"
proof -
  obtain svc name where s: "cut_slash (trim_prefix meth ''/'') = Some (svc, name)" "first_some (set_method svc name) sets = Some m"
    "full = ''/'' @ svc @ ''/'' @ name"
    using assms by (auto simp: findMethod_def split: option.splits if_splits)
  obtain fs where fs: "fs \<in> set sets" "set_method svc name fs = Some m" using first_some_in [OF s(2)] by blast
  then obtain ms where ms: "find_descriptor fs svc = Some (ServiceDesc ms)" "method_named ms name = Some m"
    by (auto simp: set_method_def split: option.splits descriptor.splits)
  have "gm_Name m = name \<and> m \<in> set ms" using ms(2) by (auto simp: method_named_def find_Some_iff)
  then show ?thesis using s fs(1) ms(1) cut_slash_parts [of "trim_prefix meth ''/''"] by force
qed

end
