(* ===== verification/Grpc_Cache.thy ===== *)
theory Grpc_Cache
  imports Grpc_Descriptors
begin

text \<open>
  The descriptors the VUs of a run share: \<open>cache\<close> of \<open>internal/protocols/grpc/module.go\<close>, \<open>load\<close> and \<open>reflect\<close>
  of \<open>descriptors.go\<close>. Each entry is loaded once, even when many VUs ask at the same time; a set of
  descriptors fetched by reflection is dropped again when the fetch failed.
\<close>

section \<open>Entries: module.go\<close>

text \<open>The table points to entries, as the map does; an entry is \<open>None\<close> until its \<open>once\<close> has run. Until then its
  files and its error are nil, and nil files have no descriptor.\<close>

type_synonym descriptors = "grpc_error + file_desc list"

record grpc_cache =
  gc_table :: "(string \<times> nat) list"
  gc_entries :: "descriptors option list"

definition no_cache :: grpc_cache where "no_cache = \<lparr>gc_table = [], gc_entries = []\<rparr>"

definition cache_get :: "string \<Rightarrow> grpc_cache \<Rightarrow> nat \<times> grpc_cache" where
  "cache_get key st = (case map_of (gc_table st) key of
       Some i \<Rightarrow> (i, st)
     | None \<Rightarrow> (length (gc_entries st),
         st\<lparr>gc_table := (key, length (gc_entries st)) # gc_table st, gc_entries := gc_entries st @ [None]\<rparr>))"

definition once_Do :: "nat \<Rightarrow> descriptors \<Rightarrow> grpc_cache \<Rightarrow> grpc_cache" where
  "once_Do i r st = (case gc_entries st ! i of
       None \<Rightarrow> st\<lparr>gc_entries := (gc_entries st)[i := Some r]\<rparr>
     | Some _ \<Rightarrow> st)"

definition cached_result :: "grpc_cache \<Rightarrow> nat \<Rightarrow> descriptors" where
  "cached_result st i = (case gc_entries st ! i of Some r \<Rightarrow> r | None \<Rightarrow> Inr [])"

section \<open>Loading and reflecting: descriptors.go\<close>

definition run_load :: "grpc_lib \<Rightarrow> string \<Rightarrow> string list \<Rightarrow> string list \<Rightarrow> grpc_cache \<Rightarrow> descriptors \<times> grpc_cache" where
  "run_load lib dir importPaths files st =
     (let ps = load_paths dir importPaths;
          (i, st1) = cache_get (load_key ps files) st;
          st2 = once_Do i (load_files lib ps files) st1
      in (cached_result st2 i, st2))"

definition reflect_forget :: "string \<Rightarrow> nat \<Rightarrow> grpc_cache \<Rightarrow> grpc_cache" where
  "reflect_forget address i st =
     (if isl (cached_result st i) \<and> map_of (gc_table st) address = Some i
      then st\<lparr>gc_table := filter (\<lambda>(k, _). k \<noteq> address) (gc_table st)\<rparr> else st)"

definition run_reflect :: "string \<Rightarrow> descriptors \<Rightarrow> grpc_cache \<Rightarrow> descriptors \<times> grpc_cache" where
  "run_reflect address fetched st =
     (let (i, st1) = cache_get address st; st2 = once_Do i fetched st1
      in (cached_result st2 i, reflect_forget address i st2))"

section \<open>VUs that share a cache\<close>

text \<open>A call of a VU gets the entry under the lock, runs or awaits its \<open>once\<close>, and returns, forgetting a failure
  first in \<open>reflect\<close>; then the VU may call again. \<open>answers key r\<close> is that compiling the files of a key, or
  asking the server at an address, can bring \<open>r\<close>. The VU whose \<open>once\<close> runs first brings the answer.\<close>

datatype cache_call =
    CacheAsk string
  | CacheHave string nat
  | CacheDone string nat
  | CacheReturned string descriptors

inductive cache_step :: "bool \<Rightarrow> (string \<Rightarrow> descriptors \<Rightarrow> bool) \<Rightarrow> grpc_cache \<times> cache_call list \<Rightarrow>
    grpc_cache \<times> cache_call list \<Rightarrow> bool" for forgets :: bool and answers :: "string \<Rightarrow> descriptors \<Rightarrow> bool" where
  cs_get: "v < length pcs \<Longrightarrow> pcs ! v = CacheAsk key \<Longrightarrow> cache_get key st = (i, st') \<Longrightarrow>
    cache_step forgets answers (st, pcs) (st', pcs[v := CacheHave key i])"
| cs_do: "v < length pcs \<Longrightarrow> pcs ! v = CacheHave key i \<Longrightarrow> answers key r \<Longrightarrow>
    cache_step forgets answers (st, pcs) (once_Do i r st, pcs[v := CacheDone key i])"
| cs_return: "v < length pcs \<Longrightarrow> pcs ! v = CacheDone key i \<Longrightarrow>
    cache_step forgets answers (st, pcs)
      ((if forgets then reflect_forget key i st else st), pcs[v := CacheReturned key (cached_result st i)])"
| cs_again: "v < length pcs \<Longrightarrow> pcs ! v = CacheReturned key r \<Longrightarrow>
    cache_step forgets answers (st, pcs) (st, pcs[v := CacheAsk key'])"

inductive_cases cache_stepE: "cache_step forgets answers (st, pcs) s'"

definition cache_start :: "string list \<Rightarrow> grpc_cache \<times> cache_call list" where
  "cache_start keys = (no_cache, map CacheAsk keys)"

definition cache_reach :: "bool \<Rightarrow> (string \<Rightarrow> descriptors \<Rightarrow> bool) \<Rightarrow> string list \<Rightarrow> grpc_cache \<times> cache_call list \<Rightarrow> bool" where
  "cache_reach forgets answers keys s \<longleftrightarrow> (cache_step forgets answers)\<^sup>*\<^sup>* (cache_start keys) s"

text \<open>A call on its own is one of these.\<close>

lemma run_reflect_steps:
  assumes "pcs = [CacheAsk address]" "answers address fetched" "run_reflect address fetched st = (r, st')"
  shows "(cache_step True answers)\<^sup>*\<^sup>* (st, pcs) (st', [CacheReturned address r])"
proof -
  obtain i st1 where g: "cache_get address st = (i, st1)" by fastforce
  have "cache_step True answers (st, pcs) (st1, [CacheHave address i])"
    using cs_get [of 0 pcs address st i st1] g assms(1) by simp
  moreover have "cache_step True answers (st1, [CacheHave address i]) (once_Do i fetched st1, [CacheDone address i])"
    using cs_do [of 0 "[CacheHave address i]" address i answers fetched] assms(2) by simp
  moreover have "cache_step True answers (once_Do i fetched st1, [CacheDone address i]) (st', [CacheReturned address r])"
    using cs_return [of 0 "[CacheDone address i]" address i True answers "once_Do i fetched st1"] assms(3) g by (auto simp: run_reflect_def Let_def)
  ultimately show ?thesis by (meson converse_rtranclp_into_rtranclp rtranclp.rtrancl_refl)
qed

section \<open>What the cache keeps\<close>

definition cached :: "grpc_cache \<Rightarrow> string \<Rightarrow> descriptors option" where
  "cached st key = (case map_of (gc_table st) key of None \<Rightarrow> None | Some i \<Rightarrow> gc_entries st ! i)"

text \<open>A VU between asking and returning holds an entry.\<close>

definition holds :: "string \<Rightarrow> nat \<Rightarrow> cache_call \<Rightarrow> bool" where
  "holds key i pc \<longleftrightarrow> pc = CacheHave key i \<or> pc = CacheDone key i"

text \<open>Each entry belongs to one key; what it holds answers that key; a VU's entry belongs to the key it asked
  for; and an entry of the table without descriptors is held by a VU, when failures are forgotten.\<close>

definition call_ok :: "(string \<Rightarrow> descriptors \<Rightarrow> bool) \<Rightarrow> string list \<Rightarrow> grpc_cache \<Rightarrow> cache_call \<Rightarrow> bool" where
  "call_ok answers owner st pc = (case pc of
       CacheAsk key \<Rightarrow> True
     | CacheHave key i \<Rightarrow> i < length owner \<and> owner ! i = key
     | CacheDone key i \<Rightarrow> i < length owner \<and> owner ! i = key \<and> gc_entries st ! i \<noteq> None
     | CacheReturned key r \<Rightarrow> answers key r)"

definition cache_inv :: "bool \<Rightarrow> (string \<Rightarrow> descriptors \<Rightarrow> bool) \<Rightarrow> grpc_cache \<times> cache_call list \<Rightarrow> string list \<Rightarrow> bool" where
  "cache_inv forgets answers s owner \<longleftrightarrow> (case s of (st, pcs) \<Rightarrow>
     length owner = length (gc_entries st) \<and>
     (\<forall>key i. map_of (gc_table st) key = Some i \<longrightarrow> i < length owner \<and> owner ! i = key) \<and>
     (\<forall>i<length owner. \<forall>r. gc_entries st ! i = Some r \<longrightarrow> answers (owner ! i) r) \<and>
     (\<forall>v<length pcs. call_ok answers owner st (pcs ! v)) \<and>
     (\<forall>key i. forgets \<and> map_of (gc_table st) key = Some i \<and> (\<forall>fs. gc_entries st ! i \<noteq> Some (Inr fs)) \<longrightarrow>
        (\<exists>v<length pcs. holds key i (pcs ! v))))"

lemma cache_get_entries:
  assumes "cache_get key st = (i, st')"
  shows "map_of (gc_table st') key = Some i" "\<And>k. k \<noteq> key \<Longrightarrow> map_of (gc_table st') k = map_of (gc_table st) k"
    "map_of (gc_table st) key = Some i \<and> st' = st \<or>
     map_of (gc_table st) key = None \<and> i = length (gc_entries st) \<and> gc_entries st' = gc_entries st @ [None]"
  using assms by (auto simp: cache_get_def split: option.splits)

lemma once_Do_entries:
  "gc_table (once_Do i r st) = gc_table st" "length (gc_entries (once_Do i r st)) = length (gc_entries st)"
  "i < length (gc_entries st) \<Longrightarrow> gc_entries (once_Do i r st) ! j =
     (if j = i \<and> gc_entries st ! i = None then Some r else gc_entries st ! j)"
  by (auto simp: once_Do_def split: option.split)

lemma forget_entries:
  "gc_entries (reflect_forget key i st) = gc_entries st"
  "map_of (gc_table (reflect_forget key i st)) k =
     (if isl (cached_result st i) \<and> map_of (gc_table st) key = Some i \<and> k = key then None else map_of (gc_table st) k)"
proof -
  have "map_of (filter (\<lambda>(k, _). k \<noteq> key) t) k = (if k = key then None else map_of t k)" for t :: "(string \<times> nat) list"
    by (induction t) auto
  then show "gc_entries (reflect_forget key i st) = gc_entries st"
    "map_of (gc_table (reflect_forget key i st)) k =
       (if isl (cached_result st i) \<and> map_of (gc_table st) key = Some i \<and> k = key then None else map_of (gc_table st) k)"
    by (auto simp: reflect_forget_def)
qed

lemma calls_update:
  assumes "\<And>w. w < length pcs \<Longrightarrow> w \<noteq> v \<Longrightarrow> P (pcs ! w)" "P x"
  shows "\<forall>w<length (pcs[v := x]). P (pcs[v := x] ! w)"
proof (intro allI impI)
  fix w assume "w < length (pcs[v := x])"
  then show "P (pcs[v := x] ! w)" using assms by (cases "w = v") simp_all
qed

lemma cache_invD:
  assumes "cache_inv forgets answers (st, pcs) owner"
  shows "length owner = length (gc_entries st)"
    and "map_of (gc_table st) key = Some i \<Longrightarrow> i < length owner"
    and "map_of (gc_table st) key = Some i \<Longrightarrow> owner ! i = key"
    and "i < length owner \<Longrightarrow> gc_entries st ! i = Some r \<Longrightarrow> answers (owner ! i) r"
    and "v < length pcs \<Longrightarrow> call_ok answers owner st (pcs ! v)"
    and "forgets \<Longrightarrow> map_of (gc_table st) key = Some i \<Longrightarrow> \<forall>fs. gc_entries st ! i \<noteq> Some (Inr fs) \<Longrightarrow>
      \<exists>v<length pcs. holds key i (pcs ! v)"
  using assms unfolding cache_inv_def prod.case by blast+

lemma get_inv:
  assumes inv: "cache_inv forgets answers (st, pcs) owner" and v: "v < length pcs" "pcs ! v = CacheAsk key"
    and g: "cache_get key st = (i, st')"
  shows "\<exists>owner'. cache_inv forgets answers (st', pcs[v := CacheHave key i]) owner'"
proof -
  note e = cache_get_entries [OF g]
  define owner' where "owner' = (if map_of (gc_table st) key = None then owner @ [key] else owner)"
  note len = cache_invD(1) [OF inv] and tab = cache_invD(2,3) [OF inv] and val = cache_invD(4) [OF inv]
    and calls = cache_invD(5) [OF inv] and held = cache_invD(6) [OF inv]
  have own: "owner' ! j = owner ! j" "gc_entries st' ! j = gc_entries st ! j" if "j < length owner" for j
    using e(3) that len by (auto simp: owner'_def nth_append)
  have new: "i < length owner' \<and> owner' ! i = key" "length owner \<le> length owner'"
    using e(3) len tab [of key i] by (auto simp: owner'_def nth_append)
  have len': "length owner' = length (gc_entries st')" using e(3) len by (auto simp: owner'_def)
  have hold: "\<exists>w<length pcs. holds k j (pcs[v := CacheHave key i] ! w)"
    if "forgets" "map_of (gc_table st') k = Some j" "\<forall>fs. gc_entries st' ! j \<noteq> Some (Inr fs)" for k j
  proof (cases "k = key")
    case True
    then have "j = i" using that(2) e(1) by simp
    then show ?thesis using v(1) True by (intro exI [of _ v]) (simp add: holds_def)
  next
    case False
    then have t: "map_of (gc_table st) k = Some j" using that(2) e(2) by simp
    have "\<forall>fs. gc_entries st ! j \<noteq> Some (Inr fs)" using that(3) own(2) [OF tab(1) [OF t]] by simp
    then have "\<exists>w<length pcs. holds k j (pcs ! w)" using held [OF that(1) t] by blast
    then obtain w where w: "w < length pcs" "holds k j (pcs ! w)" by blast
    then have "w \<noteq> v" using v(2) by (auto simp: holds_def)
    then show ?thesis using w by auto
  qed
  have "cache_inv forgets answers (st', pcs[v := CacheHave key i]) owner'"
    unfolding cache_inv_def prod.case
  proof (intro conjI allI impI)
    show "length owner' = length (gc_entries st')" by (rule len')
    show "j < length owner'" "owner' ! j = k" if "map_of (gc_table st') k = Some j" for k j
      using that e(1,2) tab [of k j] new own(1) [of j] by (cases "k = key"; auto)+
    show "answers (owner' ! j) r" if "j < length owner'" "gc_entries st' ! j = Some r" for j r
      using that own [of j] val [of j r] e(3) len by (cases "j < length owner") (auto simp: owner'_def nth_append less_Suc_eq split: if_splits)
    show "call_ok answers owner' st' (pcs[v := CacheHave key i] ! w)" if "w < length (pcs[v := CacheHave key i])" for w
    proof (cases "w = v")
      case True
      then show ?thesis using new v(1) by (simp add: call_ok_def)
    next
      case False
      then have "call_ok answers owner st (pcs ! w)" "pcs[v := CacheHave key i] ! w = pcs ! w" using that calls by simp_all
      then show ?thesis using own new(2) by (auto simp: call_ok_def split: cache_call.splits)
    qed
    show "\<exists>w<length (pcs[v := CacheHave key i]). holds k j (pcs[v := CacheHave key i] ! w)"
      if "forgets \<and> map_of (gc_table st') k = Some j \<and> (\<forall>fs. gc_entries st' ! j \<noteq> Some (Inr fs))" for k j
      using hold that by simp
  qed
  then show ?thesis by blast
qed

lemma do_inv:
  assumes inv: "cache_inv forgets answers (st, pcs) owner" and v: "v < length pcs" "pcs ! v = CacheHave key i" and r: "answers key r"
  shows "cache_inv forgets answers (once_Do i r st, pcs[v := CacheDone key i]) owner"
proof -
  have i: "i < length owner" "owner ! i = key" "i < length (gc_entries st)"
    using cache_invD(1,5) [OF inv] cache_invD(5) [OF inv v(1)] v(2) by (simp_all add: call_ok_def)
  note e = once_Do_entries(1,2) [of i r st] once_Do_entries(3) [OF i(3), of r]
  show ?thesis
    unfolding cache_inv_def prod.case
  proof (intro conjI allI impI)
    show "length owner = length (gc_entries (once_Do i r st))" using inv e(2) by (simp add: cache_invD(1))
    show "j < length owner" "owner ! j = k" if "map_of (gc_table (once_Do i r st)) k = Some j" for k j
      using cache_invD(2,3) [OF inv] that e(1) by simp_all
    show "answers (owner ! j) q" if "j < length owner" "gc_entries (once_Do i r st) ! j = Some q" for j q
      using cache_invD(4) [OF inv] that i r e(3) by (auto split: if_splits)
    show "call_ok answers owner (once_Do i r st) (pcs[v := CacheDone key i] ! w)" if "w < length (pcs[v := CacheDone key i])" for w
    proof (cases "w = v")
      case True
      then show ?thesis using i v(1) e(3) by (auto simp: call_ok_def)
    next
      case False
      then have "call_ok answers owner st (pcs ! w)" using that cache_invD(5) [OF inv] by simp
      then show ?thesis using False e(3) by (auto simp: call_ok_def split: cache_call.splits)
    qed
    show "\<exists>w<length (pcs[v := CacheDone key i]). holds k j (pcs[v := CacheDone key i] ! w)"
      if h: "forgets \<and> map_of (gc_table (once_Do i r st)) k = Some j \<and> (\<forall>fs. gc_entries (once_Do i r st) ! j \<noteq> Some (Inr fs))" for k j
    proof -
      have "map_of (gc_table st) k = Some j" "\<forall>fs. gc_entries st ! j \<noteq> Some (Inr fs)" using h e by (auto split: if_splits)
      then obtain w where w: "w < length pcs" "holds k j (pcs ! w)" using cache_invD(6) [OF inv] h by blast
      then have "holds k j (pcs[v := CacheDone key i] ! w)" using v by (cases "w = v") (auto simp: holds_def)
      then show ?thesis using w(1) by auto
    qed
  qed
qed

lemma return_inv:
  assumes inv: "cache_inv forgets answers (st, pcs) owner" and v: "v < length pcs" "pcs ! v = CacheDone key i"
  shows "cache_inv forgets answers ((if forgets then reflect_forget key i st else st), pcs[v := CacheReturned key (cached_result st i)]) owner"
proof -
  let ?st = "if forgets then reflect_forget key i st else st"
  let ?pcs = "pcs[v := CacheReturned key (cached_result st i)]"
  have i: "i < length owner" "owner ! i = key" "gc_entries st ! i \<noteq> None"
    using cache_invD(5) [OF inv v(1)] v(2) by (simp_all add: call_ok_def)
  then obtain r where r: "gc_entries st ! i = Some r" by blast
  have e: "gc_entries ?st = gc_entries st" by (simp add: forget_entries)
  have t: "map_of (gc_table st) k = Some j" if "map_of (gc_table ?st) k = Some j" for k j
    using that by (auto simp: forget_entries split: if_splits)
  show ?thesis
    unfolding cache_inv_def prod.case
  proof (intro conjI allI impI)
    show "length owner = length (gc_entries ?st)" using cache_invD(1) [OF inv] e by simp
    show "j < length owner" "owner ! j = k" if "map_of (gc_table ?st) k = Some j" for k j
      using cache_invD(2,3) [OF inv t [OF that]] by simp_all
    show "answers (owner ! j) q" if "j < length owner" "gc_entries ?st ! j = Some q" for j q
      using cache_invD(4) [OF inv] that e by simp
    show "call_ok answers owner ?st (?pcs ! w)" if "w < length ?pcs" for w
    proof (cases "w = v")
      case True
      have "answers key r" using cache_invD(4) [OF inv i(1) r] i(2) by simp
      then show ?thesis using True v(1) r by (simp add: call_ok_def cached_result_def)
    next
      case False
      then have "call_ok answers owner st (pcs ! w)" using that cache_invD(5) [OF inv] by simp
      then show ?thesis using False e by (auto simp: call_ok_def split: cache_call.splits)
    qed
    show "\<exists>w<length ?pcs. holds k j (?pcs ! w)"
      if h: "forgets \<and> map_of (gc_table ?st) k = Some j \<and> (\<forall>fs. gc_entries ?st ! j \<noteq> Some (Inr fs))" for k j
    proof -
      have "map_of (gc_table st) k = Some j" "\<forall>fs. gc_entries st ! j \<noteq> Some (Inr fs)" using h t e by auto
      then obtain w where w: "w < length pcs" "holds k j (pcs ! w)" using cache_invD(6) [OF inv] h by blast
      have "w \<noteq> v"
      proof
        assume "w = v"
        then have "k = key" "j = i" using w(2) v(2) by (auto simp: holds_def)
        then show False using h r by (cases r) (auto simp: forget_entries cached_result_def split: if_splits)
      qed
      then show ?thesis using w by auto
    qed
  qed
qed

lemma again_inv:
  assumes inv: "cache_inv forgets answers (st, pcs) owner" and v: "v < length pcs" "pcs ! v = CacheReturned key r"
  shows "cache_inv forgets answers (st, pcs[v := CacheAsk key']) owner"
proof -
  have "\<exists>w<length pcs. holds k j (pcs[v := CacheAsk key'] ! w)" if "\<exists>w<length pcs. holds k j (pcs ! w)" for k j
  proof -
    note h = that
    obtain w where w: "w < length pcs" "holds k j (pcs ! w)" using h by blast
    then have "w \<noteq> v" using v(2) by (auto simp: holds_def)
    then show ?thesis using w by auto
  qed
  then show ?thesis using inv calls_update [of pcs v "call_ok answers owner st" "CacheAsk key'"]
    by (auto simp: cache_inv_def call_ok_def [of _ _ _ "CacheAsk key'"])
qed

lemma cache_inv_step:
  assumes "cache_step forgets answers s s'" "\<exists>owner. cache_inv forgets answers s owner"
  shows "\<exists>owner. cache_inv forgets answers s' owner"
  using assms(1) assms(2)
proof cases
  case (cs_get v pcs key st i st')
  then show ?thesis using assms(2) get_inv by blast
next
  case (cs_do v pcs key i r st)
  then show ?thesis using assms(2) do_inv by blast
next
  case (cs_return v pcs key i st)
  then show ?thesis using assms(2) return_inv by blast
next
  case (cs_again v pcs key r st key')
  then show ?thesis using assms(2) again_inv by blast
qed

lemma cache_inv_reach: "cache_reach forgets answers keys s \<Longrightarrow> \<exists>owner. cache_inv forgets answers s owner"
proof -
  have start: "cache_inv forgets answers (cache_start keys) []"
    by (simp add: cache_inv_def cache_start_def no_cache_def call_ok_def)
  have "\<exists>owner. cache_inv forgets answers s owner" if "(cache_step forgets answers)\<^sup>*\<^sup>* (cache_start keys) s"
    using that by (induction rule: rtranclp_induct) (use start cache_inv_step in blast)+
  then show "cache_reach forgets answers keys s \<Longrightarrow> \<exists>owner. cache_inv forgets answers s owner" by (simp add: cache_reach_def)
qed

text \<open>Descriptors that are cached stay, whatever the VUs do.\<close>

lemma cached_step:
  assumes "cache_step forgets answers s s'" "cache_inv forgets answers s owner" "cached (fst s) key = Some (Inr fs)"
  shows "cached (fst s') key = Some (Inr fs)"
proof -
  obtain i where i: "map_of (gc_table (fst s)) key = Some i" "gc_entries (fst s) ! i = Some (Inr fs)"
    using assms(3) by (auto simp: cached_def split: option.splits)
  have inv: "cache_inv forgets answers (fst s, snd s) owner" using assms(2) by simp
  have len: "i < length (gc_entries (fst s))" using cache_invD(1,2) [OF inv] i(1) by auto
  show ?thesis
    using assms(1)
  proof cases
    case (cs_get v pcs k st j st')
    note e = cache_get_entries [OF cs_get(5)]
    have "map_of (gc_table st') key = Some i" using e i(1) cs_get(1) by (cases "k = key") auto
    then show ?thesis using e(3) i len cs_get(1,2) by (auto simp: cached_def nth_append)
  next
    case (cs_do v pcs k j r st)
    have "j < length (gc_entries st)"
      using cache_invD(1) [OF inv] cache_invD(5) [OF inv, of v] cs_do(1,3,4) by (simp add: call_ok_def)
    then show ?thesis using i cs_do(1,2) once_Do_entries(1) [of j r st] once_Do_entries(3) [of j st r] by (auto simp: cached_def)
  next
    case (cs_return v pcs k j st)
    then show ?thesis using i by (auto simp: cached_def forget_entries cached_result_def)
  next
    case cs_again
    then show ?thesis using assms(3) by simp
  qed
qed

lemma cached_kept:
  assumes "(cache_step forgets answers)\<^sup>*\<^sup>* s s'" "\<exists>owner. cache_inv forgets answers s owner" "cached (fst s) key = Some (Inr fs)"
  shows "cached (fst s') key = Some (Inr fs)"
proof -
  have "cached (fst s') key = Some (Inr fs) \<and> (\<exists>owner. cache_inv forgets answers s' owner)"
    using assms by (induction rule: rtranclp_induct) (use cached_step cache_inv_step in blast)+
  then show ?thesis ..
qed

definition returned_ok :: "(string \<Rightarrow> descriptors \<Rightarrow> bool) \<Rightarrow> cache_call \<Rightarrow> bool" where
  "returned_ok answers pc = (case pc of CacheReturned key r \<Rightarrow> answers key r | _ \<Rightarrow> True)"

definition between_calls :: "cache_call \<Rightarrow> bool" where
  "between_calls pc = (case pc of CacheHave _ _ \<Rightarrow> False | CacheDone _ _ \<Rightarrow> False | _ \<Rightarrow> True)"

text \<open>C39: Shared descriptors. However the VUs of a run interleave their calls of \<open>reflect\<close>, what a call returns
  is an answer of the server it asked; when no VU is in a call, only descriptors are cached, never a
  failure, so the next call asks the server again; and descriptors once cached for an address stay
  cached, however calls that share a failed entry end.\<close>

theorem reflect_cache_sound:
  assumes "cache_reach True answers keys (st, pcs)" "(cache_step True answers)\<^sup>*\<^sup>* (st, pcs) (st', pcs')"
  shows "list_all (returned_ok answers) pcs \<and>
    (if list_all between_calls pcs then \<forall>key \<in> dom (map_of (gc_table st)). \<exists>fs. cached st key = Some (Inr fs) \<and> answers key (Inr fs)
     else True) \<and>
    (\<forall>key fs. cached st key = Some (Inr fs) \<longrightarrow> cached st' key = Some (Inr fs))"
proof -
  obtain owner where inv: "cache_inv True answers (st, pcs) owner" using cache_inv_reach [OF assms(1)] by blast
  have "returned_ok answers (pcs ! v)" if "v < length pcs" for v
    using cache_invD(5) [OF inv that] by (cases "pcs ! v") (simp_all add: call_ok_def returned_ok_def)
  then have 1: "list_all (returned_ok answers) pcs" by (simp add: list_all_length)
  have 2: "\<exists>fs. cached st key = Some (Inr fs) \<and> answers key (Inr fs)"
    if idle: "list_all between_calls pcs" and key: "key \<in> dom (map_of (gc_table st))" for key
  proof -
    obtain i where i: "map_of (gc_table st) key = Some i" using key by blast
    have "\<not> holds key i (pcs ! v)" if "v < length pcs" for v
      using idle that by (auto simp: list_all_length holds_def between_calls_def)
    then obtain fs where fs: "gc_entries st ! i = Some (Inr fs)" using cache_invD(6) [OF inv _ i] by blast
    then show ?thesis using cache_invD(4) [OF inv cache_invD(2) [OF inv i] fs] cache_invD(3) [OF inv i] i
      by (simp add: cached_def)
  qed
  have 3: "cached st' key = Some (Inr fs)" if "cached st key = Some (Inr fs)" for key fs
    using cached_kept [OF assms(2), of key fs] inv that by auto
  show ?thesis using 1 2 3 by simp
qed

text \<open>Two VUs share an entry whose fetch failed while a third has begun a new one for the same address.\<close>

definition shared_answers :: "string \<Rightarrow> descriptors \<Rightarrow> bool" where
  "shared_answers key r \<longleftrightarrow> r = Inl (grpc_plain ''down'') \<or> r = Inr [FileDesc ''a'' [] []]"

definition shared_state :: "grpc_cache" where
  "shared_state = \<lparr>gc_table = [(''s'', 1)], gc_entries = [Some (Inl (grpc_plain ''down'')), Some (Inr [FileDesc ''a'' [] []])]\<rparr>"

lemma shared_reached:
  "cache_reach True shared_answers [''s'', ''s'', ''s'']
     (shared_state, [CacheReturned ''s'' (Inl (grpc_plain ''down'')), CacheDone ''s'' 0, CacheReturned ''s'' (Inr [FileDesc ''a'' [] []])])"
proof -
  let ?e = "Inl (grpc_plain ''down'') :: descriptors" and ?f = "Inr [FileDesc ''a'' [] []] :: descriptors"
  let ?step = "cache_step True shared_answers"
  define s1 where "s1 = \<lparr>gc_table = [(''s'', 0::nat)], gc_entries = [None :: descriptors option]\<rparr>"
  define s2 where "s2 = s1\<lparr>gc_entries := [Some ?e]\<rparr>"
  define s3 where "s3 = s2\<lparr>gc_table := []\<rparr>"
  define s4 where "s4 = s3\<lparr>gc_table := [(''s'', 1)], gc_entries := [Some ?e, None]\<rparr>"
  note ss = s1_def s2_def s3_def s4_def shared_state_def
  have "?step (no_cache, map CacheAsk [''s'', ''s'', ''s'']) (s1, [CacheHave ''s'' 0, CacheAsk ''s'', CacheAsk ''s''])"
    using cs_get [of 0 "map CacheAsk [''s'', ''s'', ''s'']" "''s''" no_cache 0 s1] by (simp add: ss no_cache_def cache_get_def)
  moreover have "?step \<dots> (s1, [CacheHave ''s'' 0, CacheHave ''s'' 0, CacheAsk ''s''])"
    using cs_get [of 1 "[CacheHave ''s'' 0, CacheAsk ''s'', CacheAsk ''s'']" "''s''" s1 0 s1] by (simp add: ss cache_get_def)
  moreover have "?step \<dots> (s2, [CacheDone ''s'' 0, CacheHave ''s'' 0, CacheAsk ''s''])"
    using cs_do [of 0 "[CacheHave ''s'' 0, CacheHave ''s'' 0, CacheAsk ''s'']" "''s''" 0 shared_answers ?e True s1]
    by (simp add: ss once_Do_def shared_answers_def)
  moreover have "?step \<dots> (s2, [CacheDone ''s'' 0, CacheDone ''s'' 0, CacheAsk ''s''])"
    using cs_do [of 1 "[CacheDone ''s'' 0, CacheHave ''s'' 0, CacheAsk ''s'']" "''s''" 0 shared_answers ?f True s2]
    by (simp add: ss once_Do_def shared_answers_def)
  moreover have "?step \<dots> (s3, [CacheReturned ''s'' ?e, CacheDone ''s'' 0, CacheAsk ''s''])"
    using cs_return [of 0 "[CacheDone ''s'' 0, CacheDone ''s'' 0, CacheAsk ''s'']" "''s''" 0 True shared_answers s2]
    by (simp add: ss reflect_forget_def cached_result_def)
  moreover have "?step \<dots> (s4, [CacheReturned ''s'' ?e, CacheDone ''s'' 0, CacheHave ''s'' 1])"
    using cs_get [of 2 "[CacheReturned ''s'' ?e, CacheDone ''s'' 0, CacheAsk ''s'']" "''s''" s3 1 s4] by (simp add: ss cache_get_def)
  moreover have "?step \<dots> (shared_state, [CacheReturned ''s'' ?e, CacheDone ''s'' 0, CacheDone ''s'' 1])"
    using cs_do [of 2 "[CacheReturned ''s'' ?e, CacheDone ''s'' 0, CacheHave ''s'' 1]" "''s''" 1 shared_answers ?f True s4]
    by (simp add: ss once_Do_def shared_answers_def)
  moreover have "?step \<dots> (shared_state, [CacheReturned ''s'' ?e, CacheDone ''s'' 0, CacheReturned ''s'' ?f])"
    using cs_return [of 2 "[CacheReturned ''s'' ?e, CacheDone ''s'' 0, CacheDone ''s'' 1]" "''s''" 1 True shared_answers shared_state]
    by (simp add: ss reflect_forget_def cached_result_def)
  ultimately show ?thesis unfolding cache_reach_def cache_start_def by (meson converse_rtranclp_into_rtranclp rtranclp.rtrancl_refl)
qed

theorem reflect_cache_sound_witness:
  "cached (reflect_forget ''s'' 0 shared_state) ''s'' = Some (Inr [FileDesc ''a'' [] []])"
proof -
  let ?pcs = "[CacheReturned ''s'' (Inl (grpc_plain ''down'')), CacheDone ''s'' 0, CacheReturned ''s'' (Inr [FileDesc ''a'' [] []])]"
  have "cache_step True shared_answers (shared_state, ?pcs)
      (reflect_forget ''s'' 0 shared_state, ?pcs[1 := CacheReturned ''s'' (cached_result shared_state 0)])"
    using cs_return [of 1 ?pcs "''s''" 0 True shared_answers shared_state] by simp
  then have "(cache_step True shared_answers)\<^sup>*\<^sup>* (shared_state, ?pcs)
      (reflect_forget ''s'' 0 shared_state, ?pcs[1 := CacheReturned ''s'' (cached_result shared_state 0)])" by blast
  from reflect_cache_sound [OF shared_reached this] show ?thesis
    by (simp add: cached_def shared_state_def)
qed

end
