(* ===== verification/Grpc.thy ===== *)
theory Grpc
  imports Grpc_Cache
begin

text \<open>
  The gRPC module: \<open>internal/protocols/grpc/module.go\<close>, \<open>client.go\<close> and \<open>stream.go\<close>. What grpc-go answers
  (whether a connection can be made, the states it goes through, what a call or a message brings, and
  when) is an argument.
\<close>

section \<open>Metrics: module.go\<close>

definition grpc_metrics :: "fdef list" where
  "grpc_metrics =
     [\<lparr>d_Name = ''grpc_req_duration'', d_Kind = Trend\<rparr>, \<lparr>d_Name = ''grpc_reqs'', d_Kind = Counter\<rparr>,
      \<lparr>d_Name = ''grpc_req_failed'', d_Kind = Rate\<rparr>, \<lparr>d_Name = ''grpc_streams'', d_Kind = Counter\<rparr>,
      \<lparr>d_Name = ''grpc_stream_duration'', d_Kind = Trend\<rparr>, \<lparr>d_Name = ''grpc_stream_failed'', d_Kind = Rate\<rparr>,
      \<lparr>d_Name = ''grpc_stream_msgs_sent'', d_Kind = Counter\<rparr>, \<lparr>d_Name = ''grpc_stream_msgs_received'', d_Kind = Counter\<rparr>]"

record grpc_run =
  gr_unary :: op_families
  gr_stream :: op_families
  gr_streams :: nat
  gr_sent :: nat
  gr_received :: nat

definition grpc_new_run :: "families option \<Rightarrow> string + grpc_run" where
  "grpc_new_run fams = (case FamilyIDs fams (map d_Name grpc_metrics) of
       Inl e \<Rightarrow> Inl e
     | Inr ids \<Rightarrow> Inr \<lparr>gr_unary = \<lparr>ff_Duration = Some (ids ! 0), ff_Count = Some (ids ! 1), ff_Failed = Some (ids ! 2)\<rparr>,
         gr_stream = \<lparr>ff_Duration = Some (ids ! 4), ff_Count = None, ff_Failed = Some (ids ! 5)\<rparr>,
         gr_streams = ids ! 3, gr_sent = ids ! 6, gr_received = ids ! 7\<rparr>)"

section \<open>Clients: client.go\<close>

text \<open>A client's descriptors, and its connection; connections are numbered as the client makes them.\<close>

record grpc_client =
  gk_sets :: "file_desc list list"
  gk_conn :: "nat option"
  gk_made :: nat

definition new_client :: grpc_client where
  "new_client = \<lparr>gk_sets = [], gk_conn = None, gk_made = 0\<rparr>"

datatype conn_event = ConnMade nat | ConnClosed nat

definition client_Close :: "grpc_client \<Rightarrow> conn_event list \<times> grpc_client" where
  "client_Close c = (case gk_conn c of None \<Rightarrow> ([], c) | Some n \<Rightarrow> ([ConnClosed n], c\<lparr>gk_conn := None\<rparr>))"

definition requireIteration :: "bool \<Rightarrow> string \<Rightarrow> js_throw option" where
  "requireIteration context what =
     (if \<not> context
      then Some (GoError (''grpc: '' @ what @ '' is not allowed in the script''@ [CHR 0x27] @ ''s top-level code; call it inside the default function''))
      else None)"

text \<open>\<open>load\<close>: \<open>None\<close> is a panic of Go, on a call without arguments.\<close>

definition client_load :: "js_conv \<Rightarrow> grpc_lib \<Rightarrow> string \<Rightarrow> jsv list \<Rightarrow> grpc_cache \<Rightarrow> grpc_client \<Rightarrow>
    (js_throw option \<times> grpc_cache \<times> grpc_client) option" where
  "client_load cv lib dir args st c =
     (let v = js_argument args 0 in
      case (if isSet v then jc_strings cv v else Some []) of
        None \<Rightarrow> Some (Some (TypeError (''client.load: the first argument must be a list of import paths, such as ['' @ quoted ''proto'' @ '']'')), st, c)
      | Some paths \<Rightarrow>
          if args = [] then None
          else let files = map js_text (tl args)
            in if files = [] then Some (Some (TypeError ''client.load: name at least one .proto file''), st, c)
               else (case run_load lib dir paths files st of (r, st') \<Rightarrow>
                   (case r of
                      Inl e \<Rightarrow> Some (Some (GoError (ge_Text (grpc_wrap ''client.load'' e))), st', c)
                    | Inr fs \<Rightarrow> Some (None, st', c\<lparr>gk_sets := gk_sets c @ [fs]\<rparr>))))"

datatype conn_state = ConnIdle | ConnConnecting | ConnReady | ConnTransientFailure | ConnShutdown

text \<open>\<open>waitReady\<close>: the states the connection shows until the deadline, and why the context ended then.\<close>

fun waitReady :: "string \<Rightarrow> grpc_error \<Rightarrow> bool \<Rightarrow> conn_state list \<Rightarrow> (grpc_error \<times> string) option" where
  "waitReady target ctxErr failed [] =
     (if failed then Some (grpc_plain (''could not connect to '' @ target @ '': every attempt failed until the connect timeout''), CodeDial)
      else Some (grpc_wrap (''could not connect to '' @ target) ctxErr, CodeTimeout))"
| "waitReady target ctxErr failed (s # ss) =
     (if s = ConnReady then None
      else if s = ConnShutdown then Some (grpc_plain (''the connection to '' @ target @ '' was closed''), CodeClosed)
      else waitReady target ctxErr (failed \<or> s = ConnTransientFailure) ss)"

text \<open>How connecting goes: the address may be refused; the states; what reflection brings.\<close>

record dial_world =
  dw_invalid :: "grpc_error option"
  dw_target :: string
  dw_states :: "conn_state list"
  dw_ctxErr :: grpc_error
  dw_fetched :: descriptors

definition client_dial :: "dial_world \<Rightarrow> string \<Rightarrow> bool \<Rightarrow> grpc_cache \<Rightarrow> grpc_client \<Rightarrow>
    (grpc_error option \<times> string) \<times> conn_event list \<times> grpc_cache \<times> grpc_client" where
  "client_dial w address reflect st c =
     (case dw_invalid w of
        Some e \<Rightarrow> ((Some e, CodeInvalid), [], st, c)
      | None \<Rightarrow>
          (let n = gk_made c; c1 = c\<lparr>gk_made := Suc n\<rparr> in
           case waitReady (dw_target w) (dw_ctxErr w) False (dw_states w) of
             Some (e, code) \<Rightarrow> ((Some e, code), [ConnMade n, ConnClosed n], st, c1)
           | None \<Rightarrow>
               if reflect
               then (case run_reflect address (dw_fetched w) st of (r, st') \<Rightarrow>
                   (case r of
                      Inl e \<Rightarrow> ((Some e, grpc_errorCode (Some e)), [ConnMade n, ConnClosed n], st', c1)
                    | Inr fs \<Rightarrow> ((None, CodeNone), [ConnMade n], st', c1\<lparr>gk_sets := gk_sets c1 @ [fs], gk_conn := Some n\<rparr>)))
               else ((None, CodeNone), [ConnMade n], st, c1\<lparr>gk_conn := Some n\<rparr>)))"

record connect_params =
  cn_plaintext :: bool
  cn_reflect :: bool
  cn_timeout :: duration

definition connect_params :: "js_conv \<Rightarrow> jsv \<Rightarrow> js_throw + connect_params" where
  "connect_params cv v =
     (if \<not> isSet v then Inr \<lparr>cn_plaintext = False, cn_reflect = False, cn_timeout = grpc_defaultTimeout\<rparr>
      else let p = js_get v ''plaintext''; r = js_get v ''reflect''; t = js_get v ''timeout'';
               flag = (\<lambda>x. if isSet x then jc_bool cv x else False)
           in (case (if isSet t then grpc_parseTimeout cv t else Inr grpc_defaultTimeout) of
                 Inl e \<Rightarrow> Inl e
               | Inr d \<Rightarrow> Inr \<lparr>cn_plaintext = flag p, cn_reflect = flag r, cn_timeout = d\<rparr>))"

text \<open>\<open>connect\<close>: it throws, or returns an error message and code. \<open>world\<close> is how dialling with these
  parameters goes.\<close>

definition client_connect :: "js_conv \<Rightarrow> bool \<Rightarrow> (connect_params \<Rightarrow> dial_world) \<Rightarrow> jsv list \<Rightarrow> grpc_cache \<Rightarrow> grpc_client \<Rightarrow>
    (js_throw + string \<times> string) \<times> conn_event list \<times> grpc_cache \<times> grpc_client" where
  "client_connect cv context world args st c =
     (case requireIteration context ''client.connect'' of
        Some t \<Rightarrow> (Inl t, [], st, c)
      | None \<Rightarrow>
          if \<not> isSet (js_argument args 0)
          then (Inl (TypeError (''client.connect: an address such as '' @ quoted ''127.0.0.1:8091'' @ '' is required'')), [], st, c)
          else (case connect_params cv (js_argument args 1) of
              Inl t \<Rightarrow> (Inl t, [], st, c)
            | Inr p \<Rightarrow>
                (let (es, c1) = client_Close c;
                     ((err, code), es', st', c2) = client_dial (world p) (js_text (js_argument args 0)) (cn_reflect p) st c1
                 in (Inr (case err of None \<Rightarrow> [] | Some e \<Rightarrow> ge_Text e, code), es @ es', st', c2))))"

text \<open>\<open>toMessage\<close>: a value to JSON, and the JSON to a message of a type.\<close>

record codec =
  co_stringify :: "jsv \<Rightarrow> grpc_error + string"
  co_unmarshal :: "string \<Rightarrow> string \<Rightarrow> grpc_error option"

definition toMessage :: "codec \<Rightarrow> jsv \<Rightarrow> string \<Rightarrow> grpc_error option" where
  "toMessage co v desc =
     (if \<not> isSet v then None
      else (case co_stringify co v of
          Inl e \<Rightarrow> Some (grpc_wrap ''the request is not JSON-serializable'' e)
        | Inr s \<Rightarrow> map_option (grpc_wrap (''the request does not fit '' @ desc)) (co_unmarshal co desc s)))"

definition errNotConnected :: grpc_error where
  "errNotConnected = grpc_plain ''not connected: call client.connect first''"

definition errStreaming :: "string \<Rightarrow> js_throw" where
  "errStreaming full = TypeError (''client.invoke: '' @ full @ '' is a streaming method; use client.stream'')"

text \<open>What a call brings: its error, the reply as JSON, the metadata, and the time it took; the test may end
  meanwhile.\<close>

record call_world =
  cw_err :: "grpc_error option"
  cw_reply :: string
  cw_header :: grpc_md
  cw_trailer :: grpc_md
  cw_took :: nat
  cw_Ends :: bool

record invoke_result =
  iv_fields :: grpc_fields
  iv_metadata :: "((string \<times> string) list \<times> (string \<times> string) list) option"
  iv_duration :: "duration option"
  iv_message :: "string option"

definition grpc_outcome :: "duration \<Rightarrow> grpc_error option \<Rightarrow> string \<Rightarrow> bool \<Rightarrow> outcome" where
  "grpc_outcome d err code sent = \<lparr>oc_Duration = d, oc_Err = map_option ge_err err, oc_Code = code, oc_Sent = sent\<rparr>"

definition unsent_result :: "grpc_run \<Rightarrow> vu_context \<Rightarrow> grpc_error \<Rightarrow> invoke_result \<times> fam_event list" where
  "unsent_result r vu err =
     (case Record_op vu (gr_unary r) (grpc_outcome 0 (Some err) CodeNone False) of (code, es) \<Rightarrow>
        (\<lparr>iv_fields = setStatus (Some err) code, iv_metadata = None, iv_duration = None, iv_message = None\<rparr>, es))"

text \<open>\<open>ended\<close> is whether the test has ended when the call is made; an iteration has a context, and a recorder
  when it is counted.\<close>

definition client_invoke :: "js_conv \<Rightarrow> codec \<Rightarrow> grpc_run \<Rightarrow> bool option \<Rightarrow> bool \<Rightarrow> (grpc_method \<Rightarrow> call_params \<Rightarrow> call_world) \<Rightarrow>
    jsv list \<Rightarrow> grpc_client \<Rightarrow> js_throw + invoke_result \<times> fam_event list" where
  "client_invoke cv co r ended recorder world args c =
     (let vu = \<lparr>cx_Context = ended, cx_Recorder = recorder\<rparr> in
      case requireIteration (ended \<noteq> None) ''client.invoke'' of
        Some t \<Rightarrow> Inl t
      | None \<Rightarrow>
          if \<not> isSet (js_argument args 0)
          then Inl (TypeError (''client.invoke: a method such as '' @ quoted ''greeter.Greeter/SayHello'' @ '' is required''))
          else (case grpc_readParams cv (js_argument args 2) of
              Inl t \<Rightarrow> Inl t
            | Inr p \<Rightarrow>
                if gk_conn c = None then Inr (unsent_result r vu errNotConnected)
                else (case findMethod (gk_sets c) (js_text (js_argument args 0)) of
                    Inl e \<Rightarrow> Inr (unsent_result r vu e)
                  | Inr (m, full) \<Rightarrow>
                      if gm_StreamingClient m \<or> gm_StreamingServer m then Inl (errStreaming full)
                      else (case toMessage co (js_argument args 1) (gm_Input m) of
                          Some e \<Rightarrow> Inr (unsent_result r vu e)
                        | None \<Rightarrow>
                            (let w = world m p;
                                 vu = vu\<lparr>cx_Context := Some (ended = Some True \<or> cw_Ends w)\<rparr>
                             in case Record_op vu (gr_unary r) (grpc_outcome (int (cw_took w)) (cw_err w) (grpc_errorCode (cw_err w)) True) of
                                  (code, es) \<Rightarrow>
                                    Inr (\<lparr>iv_fields = setStatus (cw_err w) code,
                                          iv_metadata = Some (mdValue (cw_header w), mdValue (cw_trailer w)),
                                          iv_duration = Some (int (cw_took w)),
                                          iv_message = (if cw_err w = None then Some (cw_reply w) else None)\<rparr>, es))))))"

section \<open>Streams: stream.go\<close>

text \<open>A stream, with the clock, whether its VU's context has ended, and what it has recorded. \<open>gt_hasCs\<close> is whether
  it has a client stream, \<open>gt_cancelled\<close> whether its context was cancelled.\<close>

record gstream =
  gt_in :: string
  gt_hasCs :: bool
  gt_start :: int
  gt_done :: bool
  gt_cancelled :: bool
  gt_now :: int
  gt_ended :: bool
  gt_recorder :: bool
  gt_rec :: "fam_event list"
  gt_fields :: grpc_fields
  gt_closed :: bool
  gt_duration :: "duration option"
  gt_trailers :: bool

definition st_context :: "gstream \<Rightarrow> vu_context" where
  "st_context s = \<lparr>cx_Context = Some (gt_ended s), cx_Recorder = gt_recorder s\<rparr>"

text \<open>Time passes, and the test may end.\<close>

definition st_pass :: "nat \<Rightarrow> bool \<Rightarrow> gstream \<Rightarrow> gstream" where
  "st_pass d en s = s\<lparr>gt_now := gt_now s + int d, gt_ended := (gt_ended s \<or> en)\<rparr>"

definition st_add :: "nat \<Rightarrow> gstream \<Rightarrow> gstream" where
  "st_add i s = (if gt_recorder s \<and> \<not> gt_ended s then s\<lparr>gt_rec := gt_rec s @ [FAdd i 1]\<rparr> else s)"

definition st_finish :: "grpc_run \<Rightarrow> grpc_error option \<Rightarrow> gstream \<Rightarrow> gstream" where
  "st_finish r err s =
     (if gt_done s then s
      else let d = gt_now s - gt_start s; code = grpc_errorCode err
        in s\<lparr>gt_done := True, gt_rec := gt_rec s @ snd (Record_op (st_context s) (gr_stream r) (grpc_outcome d err code True)),
             gt_cancelled := True, gt_fields := setStatus err code, gt_trailers := gt_hasCs s, gt_closed := True, gt_duration := Some d\<rparr>)"

definition st_closed_by_script :: grpc_error where
  "st_closed_by_script = \<lparr>ge_Status = Some code_Canceled, ge_Message = ''closed by the script'',
     ge_Text = ''rpc error: code = Canceled desc = closed by the script'', ge_err = [\<lparr>el_is = [], el_Op = None, el_Timeout = None\<rparr>]\<rparr>"

definition st_close :: "grpc_run \<Rightarrow> gstream \<Rightarrow> gstream" where
  "st_close r s =
     (if gt_done s then s
      else (st_finish r None (s\<lparr>gt_cancelled := True\<rparr>))\<lparr>gt_fields := setStatus (Some st_closed_by_script) CodeNone\<rparr>)"

text \<open>\<open>send\<close>: it throws, or says whether the message was sent.\<close>

definition st_send :: "codec \<Rightarrow> grpc_run \<Rightarrow> jsv \<Rightarrow> grpc_error option \<Rightarrow> nat \<Rightarrow> bool \<Rightarrow> gstream \<Rightarrow> (js_throw + bool) \<times> gstream" where
  "st_send co r v err d en s =
     (if gt_done s then (Inr False, s)
      else (case toMessage co v (gt_in s) of
          Some e \<Rightarrow> (Inl (TypeError (''stream.send: '' @ ge_Text e)), s)
        | None \<Rightarrow> let s = st_pass d en s in
            (case err of
               None \<Rightarrow> (Inr True, st_add (gr_sent r) s)
             | Some e \<Rightarrow> (Inr False, if \<not> errors_is IoEOF (ge_err e) then st_finish r (Some e) s else s))))"

text \<open>\<open>recv\<close>: the next message as JSON, or null.\<close>

definition st_recv :: "grpc_run \<Rightarrow> grpc_error + string \<Rightarrow> nat \<Rightarrow> bool \<Rightarrow> gstream \<Rightarrow> string option \<times> gstream" where
  "st_recv r got d en s =
     (if gt_done s then (None, s)
      else let s = st_pass d en s in
        (case got of
           Inl e \<Rightarrow> (None, st_finish r (if errors_is IoEOF (ge_err e) then None else Some e) s)
         | Inr msg \<Rightarrow> (Some msg, st_add (gr_received r) s)))"

text \<open>Opening: what the stream's context says already, and what the library answers.\<close>

record open_world =
  ow_err :: "grpc_error option"
  ow_took :: nat
  ow_Ends :: bool

definition new_stream :: "int \<Rightarrow> bool \<Rightarrow> bool \<Rightarrow> gstream" where
  "new_stream now ended recorder = \<lparr>gt_in = [], gt_hasCs = False, gt_start = 0, gt_done = False, gt_cancelled = False, gt_now = now,
     gt_ended = ended, gt_recorder = recorder, gt_rec = [], gt_fields = setStatus None CodeNone, gt_closed = False,
     gt_duration = None, gt_trailers = False\<rparr>"

text \<open>\<open>end\<close> of \<open>stream\<close>: the stream never opened.\<close>

definition st_unopened :: "grpc_run \<Rightarrow> grpc_error \<Rightarrow> gstream \<Rightarrow> gstream" where
  "st_unopened r err s =
     (case Record_op (st_context s) (gr_stream r) (grpc_outcome 0 (Some err) CodeNone False) of (code, es) \<Rightarrow>
        s\<lparr>gt_done := True, gt_rec := gt_rec s @ es, gt_fields := setStatus (Some err) code, gt_closed := True\<rparr>)"

definition st_open :: "grpc_run \<Rightarrow> open_world \<Rightarrow> string \<Rightarrow> gstream \<Rightarrow> bool \<times> gstream" where
  "st_open r w input s =
     (let s = s\<lparr>gt_in := input, gt_start := gt_now s\<rparr>;
          s = st_pass (ow_took w) (ow_Ends w) (st_add (gr_streams r) s)
      in case ow_err w of
           Some e \<Rightarrow> (False, st_finish r (Some e) s)
         | None \<Rightarrow> (True, s\<lparr>gt_hasCs := True, gt_fields := setStatus None CodeNone, gt_closed := False\<rparr>))"

text \<open>\<open>stream\<close>: it throws, or gives a stream, with whether it joins the iteration's open streams.\<close>

definition client_stream :: "js_conv \<Rightarrow> grpc_run \<Rightarrow> bool \<Rightarrow> (grpc_method \<Rightarrow> call_params \<Rightarrow> open_world) \<Rightarrow> jsv list \<Rightarrow> grpc_client \<Rightarrow>
    gstream \<Rightarrow> js_throw + bool \<times> gstream" where
  "client_stream cv r context world args c s =
     (case requireIteration context ''client.stream'' of
        Some t \<Rightarrow> Inl t
      | None \<Rightarrow>
          if \<not> isSet (js_argument args 0)
          then Inl (TypeError (''client.stream: a method such as '' @ quoted ''greeter.Greeter/Chat'' @ '' is required''))
          else (case grpc_readParams cv (js_argument args 1) of
              Inl t \<Rightarrow> Inl t
            | Inr p \<Rightarrow>
                if gk_conn c = None then Inr (False, st_unopened r errNotConnected s)
                else (case findMethod (gk_sets c) (js_text (js_argument args 0)) of
                    Inl e \<Rightarrow> Inr (False, st_unopened r e s)
                  | Inr (m, full) \<Rightarrow>
                      if \<not> gm_StreamingClient m \<and> \<not> gm_StreamingServer m
                      then Inl (TypeError (''client.stream: '' @ full @ '' is a unary method; use client.invoke''))
                      else Inr (st_open r (world m p) (gm_Input m) s))))"

text \<open>The end of an iteration: whether it warns, and its streams closed.\<close>

definition grpc_EndIteration :: "grpc_run \<Rightarrow> gstream list \<Rightarrow> bool \<times> gstream list" where
  "grpc_EndIteration r ss = (list_ex (\<lambda>s. \<not> gt_done s) ss, map (st_close r) ss)"

section \<open>What a stream records\<close>

text \<open>The script's calls; time may pass between them.\<close>

datatype stream_call =
    StreamSend jsv "grpc_error option" nat bool
  | StreamRecv "grpc_error + string" nat bool
  | StreamClose
  | StreamWait nat bool

text \<open>A call, with whether it sent and whether it received a message.\<close>

fun call_stream :: "codec \<Rightarrow> grpc_run \<Rightarrow> stream_call \<Rightarrow> gstream \<Rightarrow> bool \<times> bool \<times> gstream" where
  "call_stream co r (StreamSend v err d en) s = (case st_send co r v err d en s of (res, s') \<Rightarrow> (res = Inr True, False, s'))"
| "call_stream co r (StreamRecv got d en) s = (case st_recv r got d en s of (res, s') \<Rightarrow> (False, res \<noteq> None, s'))"
| "call_stream co r StreamClose s = (False, False, st_close r s)"
| "call_stream co r (StreamWait d en) s = (False, False, st_pass d en s)"

fun call_streams :: "codec \<Rightarrow> grpc_run \<Rightarrow> stream_call list \<Rightarrow> gstream \<Rightarrow> nat \<times> nat \<times> gstream" where
  "call_streams co r [] s = (0, 0, s)"
| "call_streams co r (c # cs) s = (case call_stream co r c s of (sent, got, s1) \<Rightarrow>
     (case call_streams co r cs s1 of (a, b, s2) \<Rightarrow> ((if sent then Suc a else a), (if got then Suc b else b), s2)))"

text \<open>The module's families are those it declared, at different places.\<close>

definition grpc_apart :: "grpc_run \<Rightarrow> bool" where
  "grpc_apart r \<longleftrightarrow> distinct [gr_streams r, gr_sent r, gr_received r] \<and>
     (\<exists>d f. gr_stream r = \<lparr>ff_Duration = Some d, ff_Count = None, ff_Failed = Some f\<rparr>)"

definition message_event :: "grpc_run \<Rightarrow> fam_event \<Rightarrow> bool" where
  "message_event r e \<longleftrightarrow> e = FAdd (gr_sent r) 1 \<or> e = FAdd (gr_received r) 1"

text \<open>What an end with a code and a duration records.\<close>

definition end_events :: "grpc_run \<Rightarrow> duration \<Rightarrow> bool \<Rightarrow> fam_event list" where
  "end_events r d failed = [FTrend (the (ff_Duration (gr_stream r))) d (\<not> failed), FRate (the (ff_Failed (gr_stream r))) failed]"

text \<open>The state of a stream that was opened while the test ran, with the messages sent and received so far:
  unless the test has ended, it has been counted once, and ended once if it is over.\<close>

definition stream_ok :: "grpc_run \<Rightarrow> nat \<Rightarrow> nat \<Rightarrow> gstream \<Rightarrow> bool" where
  "stream_ok r a b s \<longleftrightarrow> gt_recorder s \<and> gt_closed s = gt_done s \<and> (gt_duration s \<noteq> None) = gt_done s \<and>
     (if gt_ended s then True
      else count_list (gt_rec s) (FAdd (gr_sent r) 1) = a \<and> count_list (gt_rec s) (FAdd (gr_received r) 1) = b \<and>
       filter (Not \<circ> message_event r) (gt_rec s) = FAdd (gr_streams r) 1 #
         (if gt_done s then end_events r (the (gt_duration s)) (gf_error_code (gt_fields s) \<noteq> CodeNone) else []))"

text \<open>An error of the library never has status OK.\<close>

definition real_error :: "grpc_error option \<Rightarrow> bool" where
  "real_error err \<longleftrightarrow> (case err of None \<Rightarrow> True | Some e \<Rightarrow> ge_Status e \<noteq> Some code_OK)"

definition real_call :: "stream_call \<Rightarrow> bool" where
  "real_call c = (case c of StreamSend _ err _ _ \<Rightarrow> real_error err | StreamRecv (Inl e) _ _ \<Rightarrow> real_error (Some e) | _ \<Rightarrow> True)"

lemma real_error_code: "real_error err \<Longrightarrow> grpc_errorCode err = CodeNone \<longleftrightarrow> err = None"
proof -
  assume r: "real_error err"
  have "gf_status (setStatus (Some e) code) \<noteq> code_OK" if "err = Some e" for e code
    using r that by (auto simp: real_error_def setStatus_def status_defs split: option.splits)
  then show ?thesis using grpc_errorCode_none [of err CodeNone] by (cases err) (simp_all add: grpc_errorCode_def)
qed

lemma finish_events:
  assumes "real_error err" "grpc_apart r" "\<not> gt_ended s" "gt_recorder s"
  shows "snd (Record_op (st_context s) (gr_stream r) (grpc_outcome d err (grpc_errorCode err) True)) =
    end_events r d (grpc_errorCode err \<noteq> CodeNone)"
proof -
  have "outcome_code (grpc_outcome d err (grpc_errorCode err) True) = grpc_errorCode err"
    using real_error_code [OF assms(1)] by (cases err) (simp_all add: outcome_code_def grpc_outcome_def)
  then show ?thesis using assms
    by (auto simp: Record_op_def st_context_def grpc_apart_def end_events_def grpc_outcome_def Let_def)
qed

lemma end_events_quiet:
  "count_list (end_events r d f) (FAdd i n) = 0" "filter (Not \<circ> message_event r) (end_events r d f) = end_events r d f"
  by (simp_all add: end_events_def message_event_def)

lemma pass_ok: "stream_ok r a b s \<Longrightarrow> stream_ok r a b (st_pass d en s)"
  by (simp add: stream_ok_def st_pass_def)

lemma add_ok:
  assumes "stream_ok r a b s" "grpc_apart r"
  shows "stream_ok r (Suc a) b (st_add (gr_sent r) s)" "stream_ok r a (Suc b) (st_add (gr_received r) s)"
proof -
  have "gr_sent r \<noteq> gr_received r" using assms(2) by (simp add: grpc_apart_def)
  then show "stream_ok r (Suc a) b (st_add (gr_sent r) s)" "stream_ok r a (Suc b) (st_add (gr_received r) s)"
    using assms(1) by (simp_all add: stream_ok_def st_add_def message_event_def)
qed

lemma finish_stream:
  assumes "stream_ok r a b s" "grpc_apart r" "real_error err"
  shows "stream_ok r a b (st_finish r err s) \<and> gt_done (st_finish r err s)"
proof (cases "gt_done s \<or> gt_ended s")
  case True
  then show ?thesis using assms(1) by (auto simp: st_finish_def stream_ok_def Let_def)
next
  case False
  then show ?thesis using assms(1) finish_events [OF assms(3,2), of s "gt_now s - gt_start s"] end_events_quiet
    by (simp add: st_finish_def stream_ok_def setStatus_def Let_def)
qed

lemma close_stream:
  assumes "stream_ok r a b s" "grpc_apart r"
  shows "stream_ok r a b (st_close r s) \<and> gt_done (st_close r s)"
proof (cases "gt_done s")
  case False
  have "stream_ok r a b (s\<lparr>gt_cancelled := True\<rparr>)" using assms(1) by (simp add: stream_ok_def)
  then have "stream_ok r a b (st_finish r None (s\<lparr>gt_cancelled := True\<rparr>)) \<and> gt_done (st_finish r None (s\<lparr>gt_cancelled := True\<rparr>))"
    using finish_stream assms(2) by (simp add: real_error_def)
  moreover have "gf_error_code (gt_fields (st_finish r None (s\<lparr>gt_cancelled := True\<rparr>))) = CodeNone"
    using False by (simp add: st_finish_def setStatus_def grpc_errorCode_def Let_def)
  ultimately show ?thesis using False by (simp add: st_close_def stream_ok_def setStatus_def)
qed (use assms in \<open>simp add: st_close_def\<close>)

lemma call_stream_ok:
  assumes "stream_ok r a b s" "grpc_apart r" "real_call c" "call_stream co r c s = (sent, got, s')"
  shows "stream_ok r (a + of_bool sent) (b + of_bool got) s'"
proof (cases c)
  case (StreamSend v err d en)
  then show ?thesis using assms add_ok(1) [OF pass_ok [OF assms(1)] assms(2)] pass_ok [OF assms(1)]
      finish_stream [OF pass_ok [OF assms(1)] assms(2), of err]
    by (auto simp: st_send_def real_call_def Let_def split: if_splits option.splits)
next
  case (StreamRecv g d en)
  then show ?thesis using assms add_ok(2) [OF pass_ok [OF assms(1)] assms(2)] finish_stream [OF pass_ok [OF assms(1)] assms(2)]
    by (auto simp: st_recv_def real_call_def real_error_def Let_def split: if_splits sum.splits)
next
  case StreamClose
  then show ?thesis using assms close_stream by auto
next
  case StreamWait
  then show ?thesis using assms pass_ok by auto
qed

lemma call_streams_ok:
  "stream_ok r a b s \<Longrightarrow> grpc_apart r \<Longrightarrow> list_all real_call cs \<Longrightarrow> call_streams co r cs s = (a', b', s') \<Longrightarrow>
    stream_ok r (a + a') (b + b') s'"
proof (induction cs arbitrary: a b s a' b')
  case (Cons c cs)
  obtain sent got s1 where c: "call_stream co r c s = (sent, got, s1)" by (metis prod_cases3)
  obtain x y where rest: "call_streams co r cs s1 = (x, y, s')" "a' = x + of_bool sent" "b' = y + of_bool got"
    using Cons.prems(4) c by (auto split: prod.splits if_splits)
  have "stream_ok r (a + of_bool sent) (b + of_bool got) s1" using call_stream_ok [OF Cons.prems(1,2) _ c] Cons.prems(3) by simp
  then have "stream_ok r (a + of_bool sent + x) (b + of_bool got + y) s'" using Cons.IH rest(1) Cons.prems(2,3) by simp
  then show ?case using rest by (simp add: algebra_simps)
qed simp


definition grpc_run_example :: grpc_run where
  "grpc_run_example = \<lparr>gr_unary = \<lparr>ff_Duration = Some 0, ff_Count = Some 1, ff_Failed = Some 2\<rparr>,
     gr_stream = \<lparr>ff_Duration = Some 4, ff_Count = None, ff_Failed = Some 5\<rparr>, gr_streams = 3, gr_sent = 6, gr_received = 7\<rparr>"

definition open_example :: open_world where "open_example = \<lparr>ow_err = None, ow_took = 2, ow_Ends = False\<rparr>"

definition eof_error :: grpc_error where
  "eof_error = \<lparr>ge_Status = None, ge_Message = ''EOF'', ge_Text = ''EOF'', ge_err = [\<lparr>el_is = [IoEOF], el_Op = None, el_Timeout = None\<rparr>]\<rparr>"

definition stream_calls_example :: "stream_call list" where
  "stream_calls_example = [StreamSend JsUndefined None 1 False, StreamRecv (Inr ''{}'') 3 False, StreamWait 2 False,
     StreamRecv (Inl eof_error) 4 False, StreamClose]"

definition stream_example :: "nat \<times> nat \<times> gstream" where
  "stream_example = call_streams \<lparr>co_stringify = (\<lambda>_. Inr []), co_unmarshal = (\<lambda>_ _. None)\<rparr> grpc_run_example stream_calls_example
     (snd (st_open grpc_run_example open_example ''M'' (new_stream 0 False True)))"

lemma stream_example_value:
  "\<exists>s. stream_example = (1, 1, s) \<and> \<not> gt_ended (st_close grpc_run_example s) \<and> gt_duration (st_close grpc_run_example s) = Some 12 \<and>
     gf_error_code (gt_fields (st_close grpc_run_example s)) = CodeNone"
  by (simp add: stream_example_def stream_calls_example_def open_example_def grpc_run_example_def st_open_def new_stream_def
      st_pass_def st_add_def st_send_def st_recv_def toMessage_def isSet_undef eof_error_def errors_is_def st_finish_def st_close_def
      setStatus_def grpc_errorCode_def Let_def)


section \<open>Connections\<close>

text \<open>What a script does with a client's connection.\<close>

datatype client_call = ClientConnect "jsv list" dial_world | ClientClose

fun do_client :: "js_conv \<Rightarrow> client_call \<Rightarrow> grpc_cache \<Rightarrow> grpc_client \<Rightarrow> conn_event list \<times> grpc_cache \<times> grpc_client" where
  "do_client cv (ClientConnect args w) st c = snd (client_connect cv True (\<lambda>_. w) args st c)"
| "do_client cv ClientClose st c = (case client_Close c of (es, c') \<Rightarrow> (es, st, c'))"

fun client_calls :: "js_conv \<Rightarrow> client_call list \<Rightarrow> grpc_cache \<Rightarrow> grpc_client \<Rightarrow> conn_event list \<times> grpc_cache \<times> grpc_client" where
  "client_calls cv [] st c = ([], st, c)"
| "client_calls cv (x # xs) st c = (case do_client cv x st c of (es, st1, c1) \<Rightarrow>
     (case client_calls cv xs st1 c1 of (es', r) \<Rightarrow> (es @ es', r)))"

text \<open>The connections a client has made and not closed: the one it has, if any.\<close>

definition conns_ok :: "grpc_client \<Rightarrow> conn_event list \<Rightarrow> bool" where
  "conns_ok c es \<longleftrightarrow> (case gk_conn c of None \<Rightarrow> True | Some n \<Rightarrow> n < gk_made c) \<and>
     (\<forall>n. count_list es (ConnMade n) = of_bool (n < gk_made c) \<and>
        count_list es (ConnClosed n) = of_bool (n < gk_made c \<and> gk_conn c \<noteq> Some n))"

lemma Close_conns: "client_Close c = (es', c') \<Longrightarrow> conns_ok c es \<Longrightarrow> conns_ok c' (es @ es') \<and> gk_conn c' = None"
  by (auto simp: client_Close_def conns_ok_def split: option.splits)

lemma dial_conns:
  assumes "client_dial w address rf st c = (r, es', st', c')" "conns_ok c es" "gk_conn c = None"
  shows "conns_ok c' (es @ es')"
  using assms by (auto simp: client_dial_def conns_ok_def Let_def less_Suc_eq split: option.splits if_splits sum.splits prod.splits)

text \<open>Whatever a script does with a client, each connection it made was closed once, but for the one it has, and
  none is left open once the VU has closed the client.\<close>

lemma client_call_conns:
  assumes "do_client cv x st c = (es', st', c')" "conns_ok c es"
  shows "conns_ok c' (es @ es')"
proof (cases x)
  case (ClientConnect args w)
  obtain e1 c1 where c1: "client_Close c = (e1, c1)" by fastforce
  note k = Close_conns [OF c1 assms(2)]
  show ?thesis using assms ClientConnect k c1 dial_conns [OF _ conjunct1 [OF k] conjunct2 [OF k]]
    by (auto simp: client_connect_def requireIteration_def Let_def split: if_splits sum.splits prod.splits)
next
  case ClientClose
  then show ?thesis using assms Close_conns by (auto split: prod.splits)
qed

lemma client_calls_conns:
  "client_calls cv xs st c = (es', st', c') \<Longrightarrow> conns_ok c es \<Longrightarrow> conns_ok c' (es @ es')"
proof (induction xs arbitrary: st c es es')
  case (Cons x xs)
  obtain e1 st1 c1 e2 where s: "do_client cv x st c = (e1, st1, c1)" "client_calls cv xs st1 c1 = (e2, st', c')" "es' = e1 @ e2"
    using Cons.prems(1) by (auto split: prod.splits)
  show ?case using Cons.IH [OF s(2) client_call_conns [OF s(1) Cons.prems(2)]] s(3) by simp
qed simp

lemma client_released:
  assumes "client_calls cv xs st new_client = (es, st', c)" "client_Close c = (es', c')"
  shows "count_list (es @ es') (ConnMade n) = of_bool (n < gk_made c) \<and> count_list (es @ es') (ConnClosed n) = of_bool (n < gk_made c)"
proof -
  have "conns_ok new_client []" by (simp add: conns_ok_def new_client_def)
  then have "conns_ok c es" using client_calls_conns [OF assms(1), of "[]"] by simp
  moreover have "gk_made c' = gk_made c" using assms(2) by (auto simp: client_Close_def split: option.splits)
  ultimately show ?thesis using Close_conns [OF assms(2), of es] by (simp add: conns_ok_def)
qed

text \<open>\<open>client.load()\<close> without arguments is a Go panic.\<close>

lemma load_without_arguments: "client_load cv lib dir [] st c = None"
  by (simp add: client_load_def js_argument_def)

end
