(* ===== verification/Module_Calls.thy ===== *)
theory Module_Calls
  imports Script
begin

text \<open>
  What a script reaches of a protocol module: the module object of \<open>newModuleObject\<close> and the calls
  \<open>constructModule\<close> and \<open>callModule\<close> of \<open>internal/script/protocols.go\<close>. The JavaScript side of the instance, its
  members and what they answer, is an argument.
\<close>

datatype member = ClassMember | FunctionMember

text \<open>The properties of a module's object, in the order of its exports.\<close>

definition newModuleObject :: "proto_module \<Rightarrow> (string \<times> member) list" where
  "newModuleObject m = map (\<lambda>e. (e, if isClassName e then ClassMember else FunctionMember)) (pm_Exports m)"

text \<open>What the instance's object has under a name, if anything, and what calling it does: \<open>Inl\<close> is a thrown
  value.\<close>

record 'v instance_member =
  im_constructor :: bool
  im_function :: bool
  im_call :: "'v list \<Rightarrow> 'v + 'v"

datatype 'v module_answer =
    NotStarted string
  | InstanceFailed string string
  | NoClass string string
  | NoFunction string string
  | Threw 'v
  | Answered 'v

definition with_instance :: "module_set \<Rightarrow> nat \<Rightarrow> string option \<Rightarrow> vu_modules \<Rightarrow> 'v module_answer \<Rightarrow>
    vu_event list \<times> 'v module_answer \<times> vu_modules" where
  "with_instance ms i newInstance vm answer = (case instanceFor ms vm i newInstance of
       (tr, True, vm') \<Rightarrow> (tr, answer, vm')
     | (tr, False, vm') \<Rightarrow> (tr, (if \<not> ms_runs ms ! i then NotStarted (pm_Name (ms_all ms ! i))
         else InstanceFailed (pm_Name (ms_all ms ! i)) (the newInstance)), vm'))"

definition constructModule :: "module_set \<Rightarrow> nat \<Rightarrow> string \<Rightarrow> string option \<Rightarrow> (string \<Rightarrow> 'v instance_member option) \<Rightarrow> 'v list \<Rightarrow>
    vu_modules \<Rightarrow> vu_event list \<times> 'v module_answer \<times> vu_modules" where
  "constructModule ms i name newInstance members args vm = with_instance ms i newInstance vm
     (case members name of
        None \<Rightarrow> NoClass (pm_Name (ms_all ms ! i)) name
      | Some m \<Rightarrow> if \<not> im_constructor m then NoClass (pm_Name (ms_all ms ! i)) name
          else (case im_call m args of Inl e \<Rightarrow> Threw e | Inr v \<Rightarrow> Answered v))"

definition callModule :: "module_set \<Rightarrow> nat \<Rightarrow> string \<Rightarrow> string option \<Rightarrow> (string \<Rightarrow> 'v instance_member option) \<Rightarrow> 'v list \<Rightarrow>
    vu_modules \<Rightarrow> vu_event list \<times> 'v module_answer \<times> vu_modules" where
  "callModule ms i name newInstance members args vm = with_instance ms i newInstance vm
     (case members name of
        None \<Rightarrow> NoFunction (pm_Name (ms_all ms ! i)) name
      | Some m \<Rightarrow> if \<not> im_function m then NoFunction (pm_Name (ms_all ms ! i)) name
          else (case im_call m args of Inl e \<Rightarrow> Threw e | Inr v \<Rightarrow> Answered v))"

lemma with_instance_js: "with_instance ms i ni vm answer = (tr, a, vm') \<Longrightarrow> (tr, vm') = run_js ms [UseModule i ni] vm"
  by (auto simp: with_instance_def split: prod.splits bool.splits)

text \<open>A call reaches the instance only of a module that was started; the instance is created by the first call that
  reaches it and by no later one, so a call is \<open>UseModule\<close> to the life of the VU's instances.\<close>

theorem module_call_uses_instance:
  assumes "callModule ms i name ni members args vm = (tr, a, vm') \<or> constructModule ms i name ni members args vm = (tr, a, vm')"
    and "i < length (vm_insts vm)"
  shows "(tr, vm') = run_js ms [UseModule i ni] vm \<and>
    (if vm_insts vm ! i then tr = [] \<and> vm' = vm
     else if ms_runs ms ! i \<and> ni = None then tr = [InstanceCreated i] \<and> vm_insts vm' ! i
     else tr = [] \<and> vm' = vm \<and> (case a of NotStarted m \<Rightarrow> \<not> ms_runs ms ! i | InstanceFailed m e \<Rightarrow> ni = Some e | _ \<Rightarrow> False))"
  using assms with_instance_js [of ms i ni vm _ tr a vm'] unfolding callModule_def constructModule_def
  by (auto simp: with_instance_def instanceFor_def split: option.splits prod.splits if_splits)

end
